(* ===== verification/BTreeMap.thy ===== *)
theory BTreeMap
  imports Prelude
begin

text \<open>
  Rust's \<^verbatim>\<open>BTreeMap\<close> and \<^verbatim>\<open>BTreeSet\<close>, as the kernel uses them for its port table, its process
  table, its namespace and its set of revoked capabilities. A map is the list of its entries in
  ascending key order, which is what every iteration over it observes. The contract its clients
  rely on is the locale \<open>keyed_table\<close>; the operations below are its interpretation.
\<close>

type_synonym ('k, 'v) btree = "('k \<times> 'v) list"

definition bt_empty :: "('k::linorder, 'v) btree" where
  "bt_empty = []"

definition bt_get :: "('k::linorder, 'v) btree \<Rightarrow> 'k \<Rightarrow> 'v option" where
  "bt_get m k = map_of m k"

fun bt_insert :: "('k::linorder, 'v) btree \<Rightarrow> 'k \<Rightarrow> 'v \<Rightarrow> ('k, 'v) btree" where
  "bt_insert [] k v = [(k, v)]"
| "bt_insert ((k', v') # m) k v =
     (if k' < k then (k', v') # bt_insert m k v
      else if k' = k then (k, v) # m
      else (k, v) # (k', v') # m)"

definition bt_remove :: "('k::linorder, 'v) btree \<Rightarrow> 'k \<Rightarrow> ('k, 'v) btree" where
  "bt_remove m k = filter (\<lambda>e. fst e \<noteq> k) m"

definition bt_retain :: "('k::linorder, 'v) btree \<Rightarrow> ('v \<Rightarrow> bool) \<Rightarrow> ('k, 'v) btree" where
  "bt_retain m p = filter (\<lambda>e. p (snd e)) m"

text \<open>Updating through \<^verbatim>\<open>get_mut\<close>: the value under \<open>k\<close>, if any, is replaced in place.\<close>

definition bt_modify :: "('k::linorder, 'v) btree \<Rightarrow> 'k \<Rightarrow> ('v \<Rightarrow> 'v) \<Rightarrow> ('k, 'v) btree" where
  "bt_modify m k f = map (\<lambda>(k', v). (k', if k' = k then f v else v)) m"

definition bt_wf :: "('k::linorder, 'v) btree \<Rightarrow> bool" where
  "bt_wf m = sorted_wrt (<) (map fst m)"

definition bt_keys :: "('k::linorder, 'v) btree \<Rightarrow> 'k list" where
  "bt_keys m = map fst m"

definition bt_values :: "('k::linorder, 'v) btree \<Rightarrow> 'v list" where
  "bt_values m = map snd m"

section \<open>The contract of an ordered map\<close>

locale keyed_table =
  fixes empty :: "'m"
    and get :: "'m \<Rightarrow> 'k::linorder \<Rightarrow> 'v option"
    and insert :: "'m \<Rightarrow> 'k \<Rightarrow> 'v \<Rightarrow> 'm"
    and remove :: "'m \<Rightarrow> 'k \<Rightarrow> 'm"
    and retain :: "'m \<Rightarrow> ('v \<Rightarrow> bool) \<Rightarrow> 'm"
    and modify :: "'m \<Rightarrow> 'k \<Rightarrow> ('v \<Rightarrow> 'v) \<Rightarrow> 'm"
    and entries :: "'m \<Rightarrow> ('k \<times> 'v) list"
    and wf :: "'m \<Rightarrow> bool"
  assumes wf_empty: "wf empty"
    and wf_insert: "wf m \<Longrightarrow> wf (insert m k v)"
    and wf_remove: "wf m \<Longrightarrow> wf (remove m k)"
    and wf_retain: "wf m \<Longrightarrow> wf (retain m p)"
    and wf_modify: "wf m \<Longrightarrow> wf (modify m k f)"
    and entries_empty: "entries empty = []"
    and entries_get: "wf m \<Longrightarrow> (k, v) \<in> set (entries m) \<longleftrightarrow> get m k = Some v"
    and entries_sorted: "wf m \<Longrightarrow> sorted_wrt (<) (map fst (entries m))"
    and get_insert: "wf m \<Longrightarrow> get (insert m k v) = (get m)(k \<mapsto> v)"
    and get_remove: "wf m \<Longrightarrow> get (remove m k) = (get m)(k := None)"
    and get_retain:
      "wf m \<Longrightarrow> get (retain m p) j = (case get m j of Some v \<Rightarrow> if p v then Some v else None | None \<Rightarrow> None)"
    and get_modify: "wf m \<Longrightarrow> get (modify m k f) = (get m)(k := map_option f (get m k))"
begin

lemma get_empty: "get empty k = None"
  using entries_get [OF wf_empty, of k] by (cases "get empty k") (auto simp: entries_empty)

lemma distinct_keys: "wf m \<Longrightarrow> distinct (map fst (entries m))"
  using entries_sorted strict_sorted_iff by blast

lemma dom_get: "wf m \<Longrightarrow> dom (get m) = fst ` set (entries m)"
  by (auto simp: dom_def entries_get [symmetric] image_iff) force

lemma size_is_card: "wf m \<Longrightarrow> length (entries m) = card (dom (get m))"
  using distinct_keys [of m] distinct_card [of "map fst (entries m)"] by (simp add: dom_get)

lemma finite_dom_get: "wf m \<Longrightarrow> finite (dom (get m))"
  by (simp add: dom_get)

lemma size_insert_fresh:
  "wf m \<Longrightarrow> get m k = None \<Longrightarrow> length (entries (insert m k v)) = Suc (length (entries m))"
  by (simp add: size_is_card wf_insert get_insert finite_dom_get domIff)

lemma size_insert_present:
  "wf m \<Longrightarrow> get m k = Some w \<Longrightarrow> length (entries (insert m k v)) = length (entries m)"
  by (simp add: size_is_card wf_insert get_insert insert_absorb domI)

lemma size_remove_le: "wf m \<Longrightarrow> length (entries (remove m k)) \<le> length (entries m)"
  by (simp add: size_is_card wf_remove get_remove finite_dom_get card_mono)

lemma size_retain_le: "wf m \<Longrightarrow> length (entries (retain m p)) \<le> length (entries m)"
proof -
  assume wf: "wf m"
  have "dom (get (retain m p)) \<subseteq> dom (get m)"
    by (auto simp: get_retain [OF wf] split: option.splits)
  with wf show ?thesis by (simp add: size_is_card wf_retain finite_dom_get card_mono)
qed

lemma size_modify: "wf m \<Longrightarrow> length (entries (modify m k f)) = length (entries m)"
proof -
  assume wf: "wf m"
  have "dom (get (modify m k f)) = dom (get m)"
    by (auto simp: get_modify [OF wf] dom_def)
  with wf show ?thesis by (simp add: size_is_card wf_modify)
qed

text \<open>A property of every value survives each operation that only adds values having it.\<close>

lemma all_insert:
  "wf m \<Longrightarrow> (\<And>j w. get m j = Some w \<Longrightarrow> P j w) \<Longrightarrow> P k v \<Longrightarrow>
   get (insert m k v) j = Some w \<Longrightarrow> P j w"
  by (auto simp: get_insert split: if_splits)

lemma retain_Some: "wf m \<Longrightarrow> get (retain m p) j = Some w \<longleftrightarrow> get m j = Some w \<and> p w"
  by (auto simp: get_retain split: option.splits if_splits)

end

section \<open>The operations satisfy the contract\<close>

lemma set_fst_bt_insert: "fst ` set (bt_insert m k v) = insert k (fst ` set m)"
  by (induction m k v rule: bt_insert.induct) auto

lemma bt_wf_insert: "bt_wf m \<Longrightarrow> bt_wf (bt_insert m k v)"
proof (induction m k v rule: bt_insert.induct)
  case (1 k v)
  then show ?case by (simp add: bt_wf_def)
next
  case (2 k' v' m k v)
  then show ?case
    using set_fst_bt_insert [of m k v] by (fastforce simp: bt_wf_def)
qed

lemma map_of_bt_insert: "bt_wf m \<Longrightarrow> map_of (bt_insert m k v) = (map_of m)(k \<mapsto> v)"
proof (induction m k v rule: bt_insert.induct)
  case (1 k v)
  then show ?case by simp
next
  case (2 k' v' m k v)
  then show ?case by (auto simp: bt_wf_def fun_eq_iff)
qed

lemma bt_wf_distinct: "bt_wf m \<Longrightarrow> distinct (map fst m)"
  using strict_sorted_iff by (auto simp: bt_wf_def)

lemma map_of_filter_key: "map_of (filter (\<lambda>e. fst e \<noteq> k) m) = (map_of m)(k := None)"
  by (induction m) (auto simp: fun_eq_iff)

lemma map_of_filter_value:
  assumes "distinct (map fst m)"
  shows "map_of (filter (\<lambda>e. p (snd e)) m) j =
    (case map_of m j of Some v \<Rightarrow> if p v then Some v else None | None \<Rightarrow> None)"
  using assms
proof (induction m)
  case Nil
  then show ?case by simp
next
  case (Cons e m)
  obtain k v where e: "e = (k, v)" by force
  have fresh: "map_of m k = None" using Cons.prems by (simp add: e map_of_eq_None_iff)
  show ?case
  proof (cases "j = k")
    case True
    from Cons fresh True have "map_of (filter (\<lambda>e. p (snd e)) m) k = None"
      by simp
    with True show ?thesis by (simp add: e)
  next
    case False
    with Cons show ?thesis by (simp add: e)
  qed
qed

lemma map_of_modify:
  "map_of (map (\<lambda>(k', v). (k', if k' = k then f v else v)) m) =
   (map_of m)(k := map_option f (map_of m k))"
  by (induction m) (auto simp: fun_eq_iff)

lemma map_fst_bt_modify [simp]: "map fst (bt_modify m k f) = map fst m"
  by (induction m) (auto simp: bt_modify_def)

lemma sorted_wrt_map_filter:
  "sorted_wrt (<) (map f xs) \<Longrightarrow> sorted_wrt (<) (map f (filter p xs))"
  by (induction xs) auto

interpretation bt: keyed_table bt_empty bt_get bt_insert bt_remove bt_retain bt_modify
  "\<lambda>m. m" bt_wf
proof unfold_locales
  fix m :: "('a, 'b) btree" and k p f v
  assume wf: "bt_wf m"
  show "bt_wf (bt_insert m k v)" using wf by (rule bt_wf_insert)
  show "bt_wf (bt_remove m k)" "bt_wf (bt_retain m p)" "bt_wf (bt_modify m k f)"
    using wf by (simp_all add: bt_wf_def bt_remove_def bt_retain_def sorted_wrt_map_filter)
  show "(k, v) \<in> set m \<longleftrightarrow> bt_get m k = Some v"
    using bt_wf_distinct [OF wf] by (simp add: bt_get_def)
  show "sorted_wrt (<) (map fst m)" using wf by (simp add: bt_wf_def)
  show "bt_get (bt_insert m k v) = (bt_get m)(k \<mapsto> v)"
    using map_of_bt_insert [OF wf] by (auto simp: bt_get_def fun_eq_iff)
  show "bt_get (bt_remove m k) = (bt_get m)(k := None)"
    by (auto simp: bt_get_def bt_remove_def map_of_filter_key fun_eq_iff)
  show "bt_get (bt_modify m k f) = (bt_get m)(k := map_option f (bt_get m k))"
    by (auto simp: bt_get_def bt_modify_def map_of_modify fun_eq_iff)
next
  fix m :: "('a, 'b) btree" and p j
  assume wf: "bt_wf m"
  show "bt_get (bt_retain m p) j =
    (case bt_get m j of None \<Rightarrow> None | Some v \<Rightarrow> if p v then Some v else None)"
    using map_of_filter_value [OF bt_wf_distinct [OF wf], of p j]
    by (simp add: bt_get_def bt_retain_def split: option.splits)
qed (simp_all add: bt_empty_def bt_wf_def)

lemmas bt_wf_intros = bt.wf_empty bt.wf_insert bt.wf_remove bt.wf_retain bt.wf_modify
lemmas bt_get_simps = bt.get_empty bt.get_insert bt.get_remove bt.get_modify bt.retain_Some

declare bt_wf_intros [simp, intro]

lemma bt_values_iff: "bt_wf m \<Longrightarrow> v \<in> set (bt_values m) \<longleftrightarrow> (\<exists>k. bt_get m k = Some v)"
  by (auto simp: bt_values_def bt.entries_get [symmetric] image_iff) force

lemma bt_values_distinct_by:
  assumes "bt_wf m" "\<And>k v. bt_get m k = Some v \<Longrightarrow> f v = k"
  shows "distinct (bt_values m)"
proof -
  have "map (f \<circ> snd) m = map fst m"
    using assms by (auto simp: bt.entries_get [symmetric])
  then have "map f (bt_values m) = map fst m" by (simp add: bt_values_def)
  then have "distinct (map f (bt_values m))"
    using bt_wf_distinct [OF assms(1)] by (simp only:)
  then show ?thesis by (simp add: distinct_map)
qed

lemma bt_retain_true: "(\<And>k v. (k, v) \<in> set m \<Longrightarrow> p v) \<Longrightarrow> bt_retain m p = m"
  by (auto simp: bt_retain_def filter_id_conv)

end
