(* ===== verification/Archive.thy ===== *)
theory Archive
  imports Prelude
begin

text \<open>
  The path rules and constants of the Najm Archive format (\<^verbatim>\<open>abi/src/archive.rs\<close>). Paths are
  byte strings. The abstract view of a valid path is the list of its components; the lemmas
  relate the byte-level checks to it.
\<close>

definition NAR_MAGIC :: bytes where
  "NAR_MAGIC = ascii ''NAJMAR'' @ [0, 0]"

definition NAR_VERSION :: u32 where
  "NAR_VERSION = 1"

definition NAR_HEADER_SIZE :: nat where
  "NAR_HEADER_SIZE = 24"

definition MAX_PATH :: nat where
  "MAX_PATH = 120"

definition NAR_ENTRY_SIZE :: nat where
  "NAR_ENTRY_SIZE = 24 + MAX_PATH"

definition FLAG_DIRECTORY :: u32 where
  "FLAG_DIRECTORY = push_bit 0 1"

definition SLASH :: u8 where
  "SLASH = 0x2F"

definition DOT :: u8 where
  "DOT = 0x2E"

text \<open>\<^verbatim>\<open>slice.split(|&b| b == c)\<close>.\<close>

fun split_on :: "'a \<Rightarrow> 'a list \<Rightarrow> 'a list list" where
  "split_on c [] = [[]]"
| "split_on c (x # xs) =
     (if x = c then [] # split_on c xs
      else (case split_on c xs of [] \<Rightarrow> [[x]] | y # ys \<Rightarrow> (x # y) # ys))"

definition path_is_valid :: "bytes \<Rightarrow> bool" where
  "path_is_valid path =
     (if path = [] \<or> length path > MAX_PATH then False
      else if hd path \<noteq> SLASH then False
      else if 0 \<in> set path then False
      else if path = [SLASH] then True
      else list_all (\<lambda>c. \<not> (c = [] \<or> c = [DOT] \<or> c = [DOT, DOT])) (tl (split_on SLASH path)))"

definition parent_of :: "bytes \<Rightarrow> bytes option" where
  "parent_of path =
     (if path = [SLASH] \<or> path = [] then None
      else (case rposition (\<lambda>b. b = SLASH) path of
              None \<Rightarrow> None
            | Some slash \<Rightarrow> if slash = 0 then Some [SLASH] else Some (take slash path)))"

definition basename :: "bytes \<Rightarrow> bytes" where
  "basename path =
     (case rposition (\<lambda>b. b = SLASH) path of
        Some slash \<Rightarrow> drop (slash + 1) path
      | None \<Rightarrow> path)"

section \<open>Components\<close>

definition valid_component :: "bytes \<Rightarrow> bool" where
  "valid_component c \<longleftrightarrow> c \<noteq> [] \<and> c \<noteq> [DOT] \<and> c \<noteq> [DOT, DOT] \<and> SLASH \<notin> set c \<and> 0 \<notin> set c"

primrec join :: "bytes list \<Rightarrow> bytes" where
  "join [] = []"
| "join (c # cs) = SLASH # c @ join cs"

text \<open>The path of a list of components; the root is the empty list.\<close>

definition path_of :: "bytes list \<Rightarrow> bytes" where
  "path_of cs = (if cs = [] then [SLASH] else join cs)"

lemma split_on_nonempty [simp]: "split_on c xs \<noteq> []"
  by (induction xs) (auto split: list.splits)

lemma split_on_append: "split_on c (xs @ c # ys) = split_on c xs @ split_on c ys"
proof (induction xs)
  case Nil
  then show ?case by simp
next
  case (Cons x xs)
  then show ?case by (cases "split_on c xs") auto
qed

lemma split_on_id: "c \<notin> set xs \<Longrightarrow> split_on c xs = [xs]"
  by (induction xs) auto

lemma split_on_no_sep: "y \<in> set (split_on c xs) \<Longrightarrow> c \<notin> set y"
proof (induction xs arbitrary: y)
  case Nil
  then show ?case by simp
next
  case (Cons x xs)
  then show ?case by (cases "split_on c xs") (fastforce split: if_splits)+
qed

lemma split_on_subset: "y \<in> set (split_on c xs) \<Longrightarrow> set y \<subseteq> set xs"
proof (induction xs arbitrary: y)
  case Nil
  then show ?case by simp
next
  case (Cons x xs)
  then show ?case by (cases "split_on c xs") (fastforce split: if_splits)+
qed

lemma split_on_join: "hd (split_on SLASH xs) @ join (tl (split_on SLASH xs)) = xs"
proof (induction xs)
  case Nil
  then show ?case by simp
next
  case (Cons x xs)
  then show ?case by (cases "split_on SLASH xs") auto
qed

lemma split_on_comp_join:
  "SLASH \<notin> set c \<Longrightarrow> \<forall>d \<in> set cs. SLASH \<notin> set d \<Longrightarrow> split_on SLASH (c @ join cs) = c # cs"
proof (induction cs arbitrary: c)
  case Nil
  then show ?case by (simp add: split_on_id)
next
  case (Cons d ds)
  then show ?case by (simp add: split_on_append split_on_id)
qed

lemma tl_split_on_join:
  "\<forall>d \<in> set cs. SLASH \<notin> set d \<Longrightarrow> tl (split_on SLASH (join cs)) = cs"
  using split_on_comp_join [of "[]" cs] by simp

lemma join_inject:
  "\<forall>d \<in> set cs. SLASH \<notin> set d \<Longrightarrow> \<forall>d \<in> set ds. SLASH \<notin> set d \<Longrightarrow>
   join cs = join ds \<longleftrightarrow> cs = ds"
  using tl_split_on_join by metis

lemma zero_notin_join: "0 \<notin> set (join cs) \<longleftrightarrow> (\<forall>c \<in> set cs. 0 \<notin> set c)"
  by (induction cs) (auto simp: SLASH_def)

lemma join_append: "join (cs @ ds) = join cs @ join ds"
  by (induction cs) auto

lemma join_eq_slash: "join cs = [SLASH] \<longleftrightarrow> cs = [[]]"
  by (cases cs) (auto simp: append_eq_Cons_conv elim: list.set_cases, metis join.simps list.exhaust list.distinct(1))

lemma path_is_valid_join:
  assumes "list_all valid_component cs" "cs \<noteq> []" "length (join cs) \<le> MAX_PATH"
  shows "path_is_valid (join cs)"
proof -
  have ns: "\<forall>d \<in> set cs. SLASH \<notin> set d" and nz: "\<forall>d \<in> set cs. 0 \<notin> set d"
    using assms(1) by (auto simp: list_all_iff valid_component_def)
  obtain c ds where cs: "cs = c # ds" using assms(2) by (cases cs) auto
  have "join cs \<noteq> [SLASH]" using assms(1) by (auto simp: join_eq_slash valid_component_def)
  moreover have "list_all (\<lambda>c. \<not> (c = [] \<or> c = [DOT] \<or> c = [DOT, DOT])) (tl (split_on SLASH (join cs)))"
    using assms(1) unfolding tl_split_on_join [OF ns] by (auto simp: list_all_iff valid_component_def)
  ultimately show ?thesis
    using assms(3) nz zero_notin_join [of cs] by (simp add: path_is_valid_def cs)
qed

lemma path_is_valid_components:
  assumes "path_is_valid p"
  shows "\<exists>cs. list_all valid_component cs \<and> p = path_of cs"
proof (cases "p = [SLASH]")
  case True
  then show ?thesis by (intro exI [of _ "[]"]) (simp add: path_of_def)
next
  case False
  with assms have p: "p \<noteq> []" "hd p = SLASH" "0 \<notin> set p"
    and all: "list_all (\<lambda>c. \<not> (c = [] \<or> c = [DOT] \<or> c = [DOT, DOT])) (tl (split_on SLASH p))"
    by (auto simp: path_is_valid_def split: if_splits)
  let ?cs = "tl (split_on SLASH p)"
  obtain q where q: "p = SLASH # q" using p by (cases p) auto
  then have "hd (split_on SLASH p) = []" by simp
  then have j: "p = join ?cs" using split_on_join [of p] by simp
  have "list_all valid_component ?cs"
    unfolding list_all_iff valid_component_def
  proof
    fix c assume c: "c \<in> set ?cs"
    then have cin: "c \<in> set (split_on SLASH p)" by (rule list.set_sel(2) [rotated]) simp
    show "c \<noteq> [] \<and> c \<noteq> [DOT] \<and> c \<noteq> [DOT, DOT] \<and> SLASH \<notin> set c \<and> 0 \<notin> set c"
      using all c split_on_no_sep [OF cin] split_on_subset [OF cin] p(3)
      by (auto simp: list_all_iff)
  qed
  moreover have "?cs \<noteq> []" using j p(1) by (metis join.simps(1))
  ultimately show ?thesis using j by (metis path_of_def)
qed

lemma path_of_inject:
  assumes "list_all valid_component cs" "list_all valid_component ds"
  shows "path_of cs = path_of ds \<longleftrightarrow> cs = ds"
proof -
  have ns: "\<forall>d \<in> set cs. SLASH \<notin> set d" "\<forall>d \<in> set ds. SLASH \<notin> set d"
    using assms by (auto simp: list_all_iff valid_component_def)
  have "join cs \<noteq> [SLASH]" "join ds \<noteq> [SLASH]"
    using assms by (auto simp: join_eq_slash valid_component_def)
  then show ?thesis using join_inject [OF ns] by (auto simp: path_of_def)
qed

lemma rposition_join:
  assumes "SLASH \<notin> set c"
  shows "rposition (\<lambda>b. b = SLASH) (join cs @ SLASH # c) = Some (length (join cs))"
proof -
  have "position (\<lambda>b. b = SLASH) (rev c) = None" using assms by (auto simp: position_None)
  then show ?thesis by (simp add: rposition_def position_append)
qed

lemma parent_of_join:
  assumes "valid_component c"
  shows "parent_of (join (cs @ [c])) = Some (path_of cs)"
proof -
  have ns: "SLASH \<notin> set c" and ne: "c \<noteq> []" using assms by (auto simp: valid_component_def)
  have j: "join (cs @ [c]) = join cs @ SLASH # c" by (simp add: join_append)
  have "join cs @ SLASH # c \<noteq> [SLASH]" using ne by (cases cs) auto
  moreover have "join cs = [] \<longleftrightarrow> cs = []" by (cases cs) auto
  ultimately show ?thesis
    unfolding j parent_of_def rposition_join [OF ns] by (auto simp: path_of_def)
qed

lemma basename_join:
  assumes "valid_component c"
  shows "basename (join (cs @ [c])) = c"
  using assms by (simp add: basename_def join_append rposition_join valid_component_def)

section \<open>What a valid path is\<close>

lemma path_is_valid_iff:
  "path_is_valid p \<longleftrightarrow>
     (\<exists>cs. list_all valid_component cs \<and> p = path_of cs \<and> length p \<le> MAX_PATH)"
proof
  assume "path_is_valid p"
  moreover from this have "length p \<le> MAX_PATH"
    by (auto simp: path_is_valid_def split: if_splits)
  ultimately show "\<exists>cs. list_all valid_component cs \<and> p = path_of cs \<and> length p \<le> MAX_PATH"
    using path_is_valid_components by blast
next
  assume "\<exists>cs. list_all valid_component cs \<and> p = path_of cs \<and> length p \<le> MAX_PATH"
  then obtain ds where ds: "list_all valid_component ds" "p = path_of ds" "length p \<le> MAX_PATH"
    by blast
  show "path_is_valid p"
  proof (cases "ds = []")
    case True
    with ds show ?thesis by (simp add: path_of_def path_is_valid_def MAX_PATH_def SLASH_def)
  next
    case False
    with ds show ?thesis using path_is_valid_join [of ds] by (simp add: path_of_def)
  qed
qed

text \<open>
  The byte-level path check accepts exactly the canonical spellings: a path is valid if and
  only if it is the root or the slash-joined list of non-empty components none of which is
  \<^verbatim>\<open>.\<close> or \<^verbatim>\<open>..\<close> or holds a slash or a NUL, and it is at most \<^verbatim>\<open>MAX_PATH\<close> bytes long; and two
  component lists never share a spelling, so no object has two names.
\<close>
theorem path_valid_canonical:
  "(path_is_valid p \<longleftrightarrow>
     (\<exists>cs. list_all valid_component cs \<and> p = path_of cs \<and> length p \<le> MAX_PATH)) \<and>
   (list_all valid_component cs \<and> list_all valid_component ds \<longrightarrow>
     (path_of cs = path_of ds) = (cs = ds))"
  using path_is_valid_iff path_of_inject by blast

theorem path_valid_canonical_witness:
  "path_is_valid (ascii ''/etc/motd'') \<and> \<not> path_is_valid (ascii ''/etc/../motd'') \<and>
   path_of [ascii ''etc''] \<noteq> path_of [ascii ''etc'', ascii ''motd'']"
proof -
  have c: "list_all valid_component [ascii ''etc'']"
    "list_all valid_component [ascii ''etc'', ascii ''motd'']"
    by (simp_all add: valid_component_def ascii_def SLASH_def DOT_def)
  have "path_of [ascii ''etc'', ascii ''motd''] = ascii ''/etc/motd''"
    and "length (ascii ''/etc/motd'') \<le> MAX_PATH"
    by (simp_all add: path_of_def ascii_def SLASH_def MAX_PATH_def)
  then have "path_is_valid (ascii ''/etc/motd'')"
    using path_valid_canonical [of "ascii ''/etc/motd''" "[]" "[]"] c(2) by metis
  moreover have "\<not> path_is_valid (ascii ''/etc/../motd'')"
    by (simp add: path_is_valid_def ascii_def SLASH_def DOT_def MAX_PATH_def)
  moreover have "path_of [ascii ''etc''] \<noteq> path_of [ascii ''etc'', ascii ''motd'']"
    using path_valid_canonical [of "[]" "[ascii ''etc'']" "[ascii ''etc'', ascii ''motd'']"] c
    by simp
  ultimately show ?thesis by simp
qed

text \<open>
  Splitting a valid path other than the root into parent and base name loses nothing: the
  parent is again a valid, strictly shorter path, the base name is a valid component, and
  joining the two gives the path back.
\<close>
theorem parent_basename_roundtrip:
  assumes "path_is_valid p" "p \<noteq> [SLASH]"
  shows "\<exists>q. parent_of p = Some q \<and> path_is_valid q \<and> length q < length p \<and>
    valid_component (basename p) \<and>
    p = (if q = [SLASH] then SLASH # basename p else q @ SLASH # basename p)"
proof -
  obtain cs where cs: "list_all valid_component cs" "p = path_of cs" "length p \<le> MAX_PATH"
    using path_is_valid_iff assms(1) by blast
  then have "cs \<noteq> []" using assms(2) by (auto simp: path_of_def)
  then obtain ds c where ds: "cs = ds @ [c]" by (metis rev_exhaust)
  have vc: "valid_component c" and vds: "list_all valid_component ds" using cs ds by auto
  have p: "p = join (ds @ [c])" using cs ds by (simp add: path_of_def)
  have c0: "c \<noteq> []" using vc by (simp add: valid_component_def)
  have par: "parent_of p = Some (path_of ds)" and base: "basename p = c"
    using p parent_of_join [OF vc] basename_join [OF vc] by simp_all
  have shorter: "length (path_of ds) < length p"
    using c0 by (cases ds) (auto simp: p path_of_def join_append)
  have "path_is_valid (path_of ds)"
    using path_is_valid_iff [of "path_of ds"] vds shorter cs(3) by auto
  moreover have "join ds \<noteq> [SLASH]" using vds by (auto simp: join_eq_slash valid_component_def)
  then have "p = (if path_of ds = [SLASH] then SLASH # basename p else path_of ds @ SLASH # basename p)"
    unfolding base by (auto simp: p path_of_def join_append)
  ultimately show ?thesis using par base vc shorter by blast
qed

theorem parent_basename_roundtrip_witness:
  "\<exists>q. parent_of (ascii ''/etc/motd'') = Some q \<and> path_is_valid q"
proof -
  have "path_is_valid (ascii ''/etc/motd'')" "ascii ''/etc/motd'' \<noteq> [SLASH]"
    by (simp_all add: path_is_valid_def ascii_def SLASH_def DOT_def MAX_PATH_def)
  then show ?thesis using parent_basename_roundtrip by blast
qed

end
