(* ===== verification/Utf8.thy ===== *)
theory Utf8
  imports Prelude
begin

text \<open>
  The parts of Rust's string library the kernel uses on untrusted bytes: UTF-8 validation
  (\<^verbatim>\<open>core::str::from_utf8\<close>), lossy conversion (\<^verbatim>\<open>String::from_utf8_lossy\<close>, which replaces each
  maximal invalid sequence by U+FFFD), \<^verbatim>\<open>str::trim\<close>, \<^verbatim>\<open>str::lines\<close> and \<^verbatim>\<open>str::split_once\<close>.
  A string is the list of its UTF-8 bytes, as it is in Rust.
\<close>

definition byte_at :: "bytes \<Rightarrow> nat \<Rightarrow> u8" where
  "byte_at bs i = (if i < length bs then bs ! i else 0)"

definition is_cont :: "u8 \<Rightarrow> bool" where
  "is_cont b \<longleftrightarrow> 0x80 \<le> b \<and> b \<le> 0xBF"

definition second3 :: "u8 \<Rightarrow> u8 \<Rightarrow> bool" where
  "second3 b c \<longleftrightarrow>
     (if b = 0xE0 then 0xA0 \<le> c \<and> c \<le> 0xBF
      else if b = 0xED then 0x80 \<le> c \<and> c \<le> 0x9F
      else is_cont c)"

definition second4 :: "u8 \<Rightarrow> u8 \<Rightarrow> bool" where
  "second4 b c \<longleftrightarrow>
     (if b = 0xF0 then 0x90 \<le> c \<and> c \<le> 0xBF
      else if b = 0xF4 then 0x80 \<le> c \<and> c \<le> 0x8F
      else is_cont c)"

text \<open>The sequence at the head of a non-empty byte string: whether it is valid, and its length.\<close>

definition utf8_seq :: "bytes \<Rightarrow> bool \<times> nat" where
  "utf8_seq bs =
     (let b = byte_at bs 0 in
      if b < 0x80 then (True, 1)
      else if 0xC2 \<le> b \<and> b \<le> 0xDF then
        (if is_cont (byte_at bs 1) then (True, 2) else (False, 1))
      else if 0xE0 \<le> b \<and> b \<le> 0xEF then
        (if second3 b (byte_at bs 1) then
           (if is_cont (byte_at bs 2) then (True, 3) else (False, 2))
         else (False, 1))
      else if 0xF0 \<le> b \<and> b \<le> 0xF4 then
        (if second4 b (byte_at bs 1) then
           (if is_cont (byte_at bs 2) then
              (if is_cont (byte_at bs 3) then (True, 4) else (False, 3))
            else (False, 2))
         else (False, 1))
      else (False, 1))"

definition REPLACEMENT :: bytes where
  "REPLACEMENT = [0xEF, 0xBF, 0xBD]"

lemma utf8_seq_pos: "0 < snd (utf8_seq bs)"
  by (simp add: utf8_seq_def Let_def)

function from_utf8_lossy :: "bytes \<Rightarrow> bytes" where
  "from_utf8_lossy bs =
     (if bs = [] then []
      else (if fst (utf8_seq bs) then take (snd (utf8_seq bs)) bs else REPLACEMENT) @
           from_utf8_lossy (drop (snd (utf8_seq bs)) bs))"
  by pat_completeness auto
termination
  by (relation "measure length") (simp_all add: utf8_seq_pos)

declare from_utf8_lossy.simps [simp del]

function is_utf8 :: "bytes \<Rightarrow> bool" where
  "is_utf8 bs =
     (if bs = [] then True
      else fst (utf8_seq bs) \<and> is_utf8 (drop (snd (utf8_seq bs)) bs))"
  by pat_completeness auto
termination
  by (relation "measure length") (simp_all add: utf8_seq_pos)

declare is_utf8.simps [simp del]

definition from_utf8 :: "bytes \<Rightarrow> bytes option" where
  "from_utf8 bs = (if is_utf8 bs then Some bs else None)"

section \<open>White space, lines, splitting\<close>

text \<open>The UTF-8 encodings of the characters with the Unicode property \<^verbatim>\<open>White_Space\<close>.\<close>

definition whitespace :: "bytes list" where
  "whitespace =
     [[0x09], [0x0A], [0x0B], [0x0C], [0x0D], [0x20], [0xC2, 0x85], [0xC2, 0xA0],
      [0xE1, 0x9A, 0x80],
      [0xE2, 0x80, 0x80], [0xE2, 0x80, 0x81], [0xE2, 0x80, 0x82], [0xE2, 0x80, 0x83],
      [0xE2, 0x80, 0x84], [0xE2, 0x80, 0x85], [0xE2, 0x80, 0x86], [0xE2, 0x80, 0x87],
      [0xE2, 0x80, 0x88], [0xE2, 0x80, 0x89], [0xE2, 0x80, 0x8A], [0xE2, 0x80, 0xA8],
      [0xE2, 0x80, 0xA9], [0xE2, 0x80, 0xAF], [0xE2, 0x81, 0x9F], [0xE3, 0x80, 0x80]]"

definition starts_with :: "'a list \<Rightarrow> 'a list \<Rightarrow> bool" where
  "starts_with s p \<longleftrightarrow> take (length p) s = p"

definition ends_with :: "'a list \<Rightarrow> 'a list \<Rightarrow> bool" where
  "ends_with s p \<longleftrightarrow> length p \<le> length s \<and> drop (length s - length p) s = p"

definition strip_prefix :: "'a list \<Rightarrow> 'a list \<Rightarrow> 'a list option" where
  "strip_prefix s p = (if starts_with s p then Some (drop (length p) s) else None)"

function trim_start :: "bytes \<Rightarrow> bytes" where
  "trim_start s =
     (case List.find (\<lambda>w. starts_with s w) whitespace of
        None \<Rightarrow> s
      | Some w \<Rightarrow> trim_start (drop (length w) s))"
  by pat_completeness auto
termination
proof (relation "measure length")
  fix s w
  assume "List.find (\<lambda>w. starts_with s w) whitespace = Some w"
  then have w: "w \<in> set whitespace" "starts_with s w" by (auto dest: find_Some_iff')
  then have "w \<noteq> []" by (auto simp: whitespace_def)
  moreover have "s \<noteq> []" using w(2) \<open>w \<noteq> []\<close> by (auto simp: starts_with_def)
  ultimately show "(drop (length w) s, s) \<in> measure length" by simp
qed simp

function trim_end :: "bytes \<Rightarrow> bytes" where
  "trim_end s =
     (case List.find (\<lambda>w. ends_with s w) whitespace of
        None \<Rightarrow> s
      | Some w \<Rightarrow> trim_end (take (length s - length w) s))"
  by pat_completeness auto
termination
proof (relation "measure length")
  fix s w
  assume "List.find (\<lambda>w. ends_with s w) whitespace = Some w"
  then have w: "w \<in> set whitespace" "ends_with s w" by (auto dest: find_Some_iff')
  then have "w \<noteq> []" by (auto simp: whitespace_def)
  moreover have "length w \<le> length s" using w(2) by (simp add: ends_with_def)
  ultimately show "(take (length s - length w) s, s) \<in> measure length"
    by (cases s) auto
qed simp

declare trim_start.simps [simp del] trim_end.simps [simp del]

definition trim :: "bytes \<Rightarrow> bytes" where
  "trim s = trim_end (trim_start s)"

text \<open>
  \<^verbatim>\<open>str::lines\<close>: split at line feeds, an optional carriage return before each line feed removed,
  and no empty last line after a final line feed.
\<close>

fun lines :: "bytes \<Rightarrow> bytes list" where
  "lines [] = []"
| "lines (b # bs) =
     (if b = 0x0A then [] # lines bs
      else if b = 0x0D \<and> byte_at bs 0 = 0x0A then [] # lines (tl bs)
      else (case lines bs of
              [] \<Rightarrow> [[b]]
            | l # ls \<Rightarrow> (b # l) # ls))"

text \<open>\<^verbatim>\<open>str::split_once\<close> at an ASCII character.\<close>

definition split_once :: "bytes \<Rightarrow> u8 \<Rightarrow> (bytes \<times> bytes) option" where
  "split_once s c = map_option (\<lambda>i. (take i s, drop (i + 1) s)) (position (\<lambda>b. b = c) s)"

section \<open>Facts\<close>

lemma strip_prefix_Some: "strip_prefix s p = Some r \<longleftrightarrow> s = p @ r"
proof
  assume "strip_prefix s p = Some r"
  then have "take (length p) s = p" "r = drop (length p) s"
    by (auto simp: strip_prefix_def starts_with_def split: if_splits)
  then show "s = p @ r" using append_take_drop_id [of "length p" s] by simp
qed (simp add: strip_prefix_def starts_with_def)

lemma case_option_False_iff: "(case x of None \<Rightarrow> False | Some r \<Rightarrow> P r) \<longleftrightarrow> (\<exists>r. x = Some r \<and> P r)"
  by (cases x) auto

lemma lossy_Nil [simp]: "from_utf8_lossy [] = []"
  by (simp add: from_utf8_lossy.simps)

lemma from_utf8_Some [outcome_simps]: "from_utf8 bs = Some s \<longleftrightarrow> is_utf8 bs \<and> s = bs"
  by (auto simp: from_utf8_def)

lemma is_utf8_Nil [simp]: "is_utf8 []"
  by (simp add: is_utf8.simps)

lemma lossy_of_utf8: "is_utf8 bs \<Longrightarrow> from_utf8_lossy bs = bs"
proof (induction bs rule: is_utf8.induct)
  case (1 bs)
  show ?case
  proof (cases "bs = []")
    case False
    obtain valid n where s: "utf8_seq bs = (valid, n)" by force
    with 1 False have "valid" "from_utf8_lossy (drop n bs) = drop n bs"
      by (simp_all add: is_utf8.simps [of bs])
    with s False show ?thesis by (simp add: from_utf8_lossy.simps [of bs])
  qed simp
qed

lemma ascii_not_cont: "a < 0x80 \<Longrightarrow> \<not> is_cont a \<and> \<not> second3 b a \<and> \<not> second4 b a"
  by (auto simp: is_cont_def second3_def second4_def word_le_nat_alt word_less_nat_alt split: if_splits)

lemma zero_not_cont [simp]: "\<not> is_cont 0" "\<not> second3 b 0" "\<not> second4 b 0"
  using ascii_not_cont [of 0 b] by simp_all

lemma byte_at_simps [simp]:
  "byte_at [] i = 0" "byte_at (b # bs) 0 = b" "byte_at (b # bs) (Suc i) = byte_at bs i"
  by (simp_all add: byte_at_def)

text \<open>A sequence never reaches across an ASCII byte.\<close>

lemma second3_cont: "second3 b c \<Longrightarrow> is_cont c"
  by (auto simp: second3_def is_cont_def word_le_nat_alt split: if_splits)

lemma second4_cont: "second4 b c \<Longrightarrow> is_cont c"
  by (auto simp: second4_def is_cont_def word_le_nat_alt split: if_splits)

lemma four_cases:
  assumes "xs \<noteq> []"
  obtains x where "xs = [x]" | x y where "xs = [x, y]" | x y z where "xs = [x, y, z]"
    | x y z w vs where "xs = x # y # z # w # vs"
  using assms by (metis list.exhaust)

lemma utf8_seq_before_ascii:
  assumes "xs \<noteq> []" "a < 0x80"
  shows "utf8_seq (xs @ a # ys) = utf8_seq xs" "snd (utf8_seq xs) \<le> length xs"
proof -
  have na: "\<not> is_cont a" "\<And>b. \<not> second3 b a" "\<And>b. \<not> second4 b a"
    using ascii_not_cont [OF assms(2)] by auto
  show "utf8_seq (xs @ a # ys) = utf8_seq xs"
    using assms(1) by (elim four_cases)
      (simp_all add: utf8_seq_def Let_def na numeral_2_eq_2 numeral_3_eq_3)
  show "snd (utf8_seq xs) \<le> length xs"
    using assms(1) by (elim four_cases)
      (simp_all add: utf8_seq_def Let_def numeral_2_eq_2 numeral_3_eq_3)
qed

lemma lossy_append_ascii:
  assumes "a < 0x80"
  shows "from_utf8_lossy (xs @ a # ys) = from_utf8_lossy xs @ a # from_utf8_lossy ys"
proof (induction xs rule: from_utf8_lossy.induct)
  case (1 xs)
  show ?case
  proof (cases "xs = []")
    case True
    then show ?thesis using assms
      by (simp add: from_utf8_lossy.simps [of "a # ys"] utf8_seq_def byte_at_def)
  next
    case False
    obtain valid n where s: "utf8_seq xs = (valid, n)" by force
    have s': "utf8_seq (xs @ a # ys) = (valid, n)" and n: "n \<le> length xs"
      using utf8_seq_before_ascii(1) [OF False assms, of ys] utf8_seq_before_ascii(2) [OF False assms] s
      by auto
    have IH: "from_utf8_lossy (drop n xs @ a # ys) = from_utf8_lossy (drop n xs) @ a # from_utf8_lossy ys"
      using 1 [OF False] s by simp
    show ?thesis
      using False s s' n IH
      by (simp add: from_utf8_lossy.simps [of "xs @ a # ys"] from_utf8_lossy.simps [of xs])
  qed
qed

lemma lossy_ascii_cons: "a < 0x80 \<Longrightarrow> from_utf8_lossy (a # ys) = a # from_utf8_lossy ys"
  using lossy_append_ascii [of a "[]" ys] by simp

lemma lossy_eq_Nil [simp]: "from_utf8_lossy bs = [] \<longleftrightarrow> bs = []"
  using utf8_seq_pos [of bs]
  by (subst from_utf8_lossy.simps) (auto simp: REPLACEMENT_def)

lemma lossy_ascii_bytes: "a < 0x80 \<Longrightarrow> a \<in> set (from_utf8_lossy bs) \<Longrightarrow> a \<in> set bs"
proof (induction bs rule: from_utf8_lossy.induct)
  case (1 bs)
  show ?case
  proof (cases "bs = []")
    case False
    obtain valid n where s: "utf8_seq bs = (valid, n)" by force
    have "a \<notin> set REPLACEMENT" using 1(2) by (auto simp: REPLACEMENT_def)
    with 1(2,3) False s have "a \<in> set (take n bs) \<or> a \<in> set (from_utf8_lossy (drop n bs))"
      by (auto simp: from_utf8_lossy.simps [of bs] split: if_splits)
    then show ?thesis using 1 False s by (auto dest: in_set_takeD in_set_dropD)
  qed (use 1 in simp)
qed

lemma is_utf8_ascii: "\<forall>b \<in> set bs. b < 0x80 \<Longrightarrow> is_utf8 bs"
proof (induction bs)
  case Nil
  then show ?case by simp
next
  case (Cons b bs)
  then show ?case by (subst is_utf8.simps) (simp add: utf8_seq_def byte_at_def)
qed

lemma lossy_ascii: "\<forall>b \<in> set bs. b < 0x80 \<Longrightarrow> from_utf8_lossy bs = bs"
  by (simp add: lossy_of_utf8 is_utf8_ascii)

lemma lossy_ascii_inv: "\<forall>b \<in> set (from_utf8_lossy bs). b < 0x80 \<Longrightarrow> from_utf8_lossy bs = bs"
proof (induction bs rule: from_utf8_lossy.induct)
  case (1 bs)
  show ?case
  proof (cases "bs = []")
    case False
    let ?n = "snd (utf8_seq bs)"
    have eq: "from_utf8_lossy bs =
      (if fst (utf8_seq bs) then take ?n bs else REPLACEMENT) @ from_utf8_lossy (drop ?n bs)"
      using False by (simp add: from_utf8_lossy.simps [of bs])
    have "fst (utf8_seq bs)"
    proof (rule ccontr)
      assume "\<not> fst (utf8_seq bs)"
      then have "(0xEF :: u8) \<in> set (from_utf8_lossy bs)" unfolding eq by (simp add: REPLACEMENT_def)
      with 1(2) have "(0xEF :: u8) < 0x80" by blast
      then show False by simp
    qed
    moreover from this have "from_utf8_lossy (drop ?n bs) = drop ?n bs"
      using 1 False eq by auto
    ultimately show ?thesis unfolding eq by simp
  qed simp
qed

end
