(* ===== verification/FileSystem.thy ===== *)
theory FileSystem
  imports BTreeMap Archive Utf8
begin

text \<open>
  The read-only file system of \<^verbatim>\<open>kernel/src/fs.rs\<close>: mounting a Najm archive found in the boot
  ramdisk, looking paths up, reading file contents straight out of the archive, and listing
  directories. The kernel keeps the mapped archive as a base address and a length; the model
  keeps the bytes that lie there.
\<close>

record node =
  nd_offset :: nat
  nd_len :: nat
  nd_is_directory :: bool

record file_system =
  fs_nodes :: "(bytes, node) btree"
  fs_image :: bytes

datatype mount_error =
    TooSmall
  | BadMagic
  | UnsupportedVersion u32
  | EntryOutOfBounds nat
  | BadPath nat
  | DuplicatePath nat

definition node_size :: "node \<Rightarrow> nat" where
  "node_size n = nd_len n"

definition read_u32 :: "bytes \<Rightarrow> nat \<Rightarrow> ('e, u32) outcome" where
  "read_u32 bs at = obind (slice bs at (at + 4)) (\<lambda>s. Ok (u32_from_le s))"

definition read_u64 :: "bytes \<Rightarrow> nat \<Rightarrow> ('e, u64) outcome" where
  "read_u64 bs at = obind (slice bs at (at + 8)) (\<lambda>s. Ok (u64_from_le s))"

text \<open>One turn of the entry loop of \<^verbatim>\<open>mount\<close>.\<close>

definition mount_entry ::
  "bytes \<Rightarrow> nat \<Rightarrow> (bytes, node) btree \<Rightarrow> (mount_error, (bytes, node) btree) outcome" where
  "mount_entry bytes index nodes =
     (let at = NAR_HEADER_SIZE + index * NAR_ENTRY_SIZE in
      obind (read_u64 bytes at) (\<lambda>offset.
      obind (read_u64 bytes (at + 8)) (\<lambda>len.
      obind (read_u32 bytes (at + 16)) (\<lambda>flags.
      obind (read_u32 bytes (at + 20)) (\<lambda>path_len.
      obind (ensure (unat path_len \<le> MAX_PATH) (BadPath index)) (\<lambda>_.
      obind (slice bytes (at + 24) (at + 24 + unat path_len)) (\<lambda>path.
      obind (ensure (path_is_valid path) (BadPath index)) (\<lambda>_.
      (let is_directory = (flags AND FLAG_DIRECTORY \<noteq> 0) in
       obind (if is_directory then ensure (len = 0) (EntryOutOfBounds index)
              else obind (ok_or (checked_add (unat offset) (unat len)) (EntryOutOfBounds index))
                     (\<lambda>stop. ensure (stop \<le> length bytes) (EntryOutOfBounds index)))
         (\<lambda>_.
       (let name = from_utf8_lossy path in
        if bt_get nodes name \<noteq> None then Err (DuplicatePath index)
        else Ok (bt_insert nodes name
               \<lparr>nd_offset = unat offset, nd_len = unat len, nd_is_directory = is_directory\<rparr>))))))))))))"

primrec mount_entries ::
  "bytes \<Rightarrow> nat list \<Rightarrow> (bytes, node) btree \<Rightarrow> (mount_error, (bytes, node) btree) outcome" where
  "mount_entries bytes [] nodes = Ok nodes"
| "mount_entries bytes (i # rest) nodes = obind (mount_entry bytes i nodes) (mount_entries bytes rest)"

definition root_node :: node where
  "root_node = \<lparr>nd_offset = 0, nd_len = 0, nd_is_directory = True\<rparr>"

text \<open>\<^verbatim>\<open>nodes.entry("/").or_insert(...)\<close>.\<close>

definition ensure_root :: "(bytes, node) btree \<Rightarrow> (bytes, node) btree" where
  "ensure_root nodes =
     (if bt_get nodes [SLASH] = None then bt_insert nodes [SLASH] root_node else nodes)"

definition parse_archive :: "bytes \<Rightarrow> (mount_error, file_system) outcome" where
  "parse_archive bytes =
     obind (ensure (NAR_HEADER_SIZE \<le> length bytes) TooSmall) (\<lambda>_.
     obind (slice bytes 0 8) (\<lambda>magic.
     obind (ensure (magic = NAR_MAGIC) BadMagic) (\<lambda>_.
     obind (read_u32 bytes 8) (\<lambda>version.
     obind (ensure (version = NAR_VERSION) (UnsupportedVersion version)) (\<lambda>_.
     obind (read_u32 bytes 12) (\<lambda>count.
     obind (ok_or (checked_mul (unat count) NAR_ENTRY_SIZE) TooSmall) (\<lambda>table_bytes.
     obind (ok_or (checked_add NAR_HEADER_SIZE table_bytes) TooSmall) (\<lambda>table_end.
     obind (ensure (table_end \<le> length bytes) TooSmall) (\<lambda>_.
     obind (mount_entries bytes [0..<unat count] bt_empty) (\<lambda>nodes.
     Ok \<lparr>fs_nodes = ensure_root nodes, fs_image = bytes\<rparr>))))))))))"

text \<open>
  \<^verbatim>\<open>mount\<close>: the global file system is replaced only when the whole archive parsed; the result is
  the number of paths.
\<close>

definition mount :: "bytes \<Rightarrow> file_system option \<Rightarrow> (mount_error, nat) outcome \<times> file_system option" where
  "mount bytes old =
     (case parse_archive bytes of
        Ok fs \<Rightarrow> (Ok (length (fs_nodes fs)), Some fs)
      | Err e \<Rightarrow> (Err e, old)
      | Panic \<Rightarrow> (Panic, old))"

definition fs_lookup :: "file_system option \<Rightarrow> bytes \<Rightarrow> node option" where
  "fs_lookup st path = (case st of None \<Rightarrow> None | Some fs \<Rightarrow> bt_get (fs_nodes fs) path)"

text \<open>
  \<^verbatim>\<open>read(node, offset, buf)\<close> with a buffer of \<open>n\<close> bytes: the bytes copied into it. The two
  additions overflow, and so panic, only for a node no archive can produce.
\<close>

definition fs_read :: "file_system option \<Rightarrow> node \<Rightarrow> nat \<Rightarrow> nat \<Rightarrow> (unit, bytes) outcome" where
  "fs_read st node offset n =
     (if nd_is_directory node \<or> nd_len node \<le> offset then Ok []
      else (case st of
              None \<Rightarrow> Ok []
            | Some fs \<Rightarrow>
                (let available = nd_len node - offset;
                     want = min available n;
                     start = nd_offset node + offset
                 in if usize_lim \<le> start + want then Panic
                    else if start + want > length (fs_image fs) then Ok []
                    else Ok (take want (drop start (fs_image fs))))))"

definition read_dir :: "file_system option \<Rightarrow> bytes \<Rightarrow> bytes list option" where
  "read_dir st path =
     (case st of
        None \<Rightarrow> None
      | Some fs \<Rightarrow>
          (case bt_get (fs_nodes fs) path of
             None \<Rightarrow> None
           | Some node \<Rightarrow>
               if \<not> nd_is_directory node then None
               else
                 (let prefix = (if path = [SLASH] then [SLASH] else path @ [SLASH])
                  in Some (filter (\<lambda>candidate.
                       candidate \<noteq> path \<and>
                       (case strip_prefix candidate prefix of
                          None \<Rightarrow> False
                        | Some rest \<Rightarrow> \<not> (rest = [] \<or> SLASH \<in> set rest)))
                     (bt_keys (fs_nodes fs))))))"

definition all_paths :: "file_system option \<Rightarrow> (bytes \<times> nat \<times> bool) list" where
  "all_paths st =
     (case st of
        None \<Rightarrow> []
      | Some fs \<Rightarrow> map (\<lambda>(path, node). (path, nd_len node, nd_is_directory node)) (fs_nodes fs))"

definition read_all :: "file_system option \<Rightarrow> bytes \<Rightarrow> (unit, bytes option) outcome" where
  "read_all st path =
     (case fs_lookup st path of
        None \<Rightarrow> Ok None
      | Some node \<Rightarrow>
          if nd_is_directory node then Ok None
          else obind (fs_read st node 0 (nd_len node)) (\<lambda>buf. Ok (Some buf)))"

section \<open>The invariant of a mounted file system\<close>

definition node_ok :: "bytes \<Rightarrow> node \<Rightarrow> bool" where
  "node_ok img n \<longleftrightarrow>
     (if nd_is_directory n then nd_len n = 0
      else nd_offset n + nd_len n \<le> length img \<and> nd_offset n + nd_len n < usize_lim)"

text \<open>A name in the table: a canonical path whose components went through the lossy conversion.\<close>

definition name_ok :: "bytes \<Rightarrow> bool" where
  "name_ok p \<longleftrightarrow> (\<exists>cs. list_all valid_component cs \<and> p = path_of cs)"

definition nodes_ok :: "bytes \<Rightarrow> (bytes, node) btree \<Rightarrow> bool" where
  "nodes_ok img nodes \<longleftrightarrow>
     bt_wf nodes \<and> (\<forall>p n. bt_get nodes p = Some n \<longrightarrow> name_ok p \<and> node_ok img n)"

definition fs_ok :: "file_system option \<Rightarrow> bool" where
  "fs_ok st \<longleftrightarrow>
     (case st of
        None \<Rightarrow> True
      | Some fs \<Rightarrow> nodes_ok (fs_image fs) (fs_nodes fs) \<and> bt_get (fs_nodes fs) [SLASH] \<noteq> None)"

lemma read_u32_Panic [outcome_simps]: "read_u32 bs at = Panic \<longleftrightarrow> length bs < at + 4"
  by (auto simp: read_u32_def outcome_simps)

lemma read_u64_Panic [outcome_simps]: "read_u64 bs at = Panic \<longleftrightarrow> length bs < at + 8"
  by (auto simp: read_u64_def outcome_simps)

lemma slash_small: "SLASH < 0x80" "DOT < 0x80"
  by (simp_all add: SLASH_def DOT_def)

lemma lossy_component: "valid_component c \<Longrightarrow> valid_component (from_utf8_lossy c)"
proof -
  assume c: "valid_component c"
  have "SLASH \<notin> set (from_utf8_lossy c)" "0 \<notin> set (from_utf8_lossy c)"
    using c slash_small lossy_ascii_bytes [of _ c] by (auto simp: valid_component_def)
  moreover have "from_utf8_lossy c \<noteq> [DOT]" "from_utf8_lossy c \<noteq> [DOT, DOT]"
    using c lossy_ascii_inv [of c] slash_small by (auto simp: valid_component_def)
  ultimately show ?thesis using c by (simp add: valid_component_def)
qed

lemma lossy_join: "from_utf8_lossy (join cs) = join (map from_utf8_lossy cs)"
proof (induction cs)
  case Nil
  then show ?case by simp
next
  case (Cons c cs)
  show ?case
  proof (cases cs)
    case Nil
    then show ?thesis by (simp add: lossy_ascii_cons slash_small)
  next
    case (Cons d ds)
    have "from_utf8_lossy (SLASH # c @ SLASH # d @ join ds) =
      SLASH # from_utf8_lossy c @ from_utf8_lossy (SLASH # d @ join ds)"
      by (simp add: lossy_ascii_cons lossy_append_ascii slash_small)
    with Cons.IH Cons show ?thesis by simp
  qed
qed

lemma name_ok_lossy: "path_is_valid p \<Longrightarrow> name_ok (from_utf8_lossy p)"
proof -
  assume "path_is_valid p"
  then obtain cs where cs: "list_all valid_component cs" "p = path_of cs"
    using path_is_valid_components by blast
  have "from_utf8_lossy p = path_of (map from_utf8_lossy cs)"
    using cs(2) by (simp add: path_of_def lossy_join lossy_ascii_cons slash_small)
  moreover have "list_all valid_component (map from_utf8_lossy cs)"
    using cs(1) by (auto simp: list_all_iff lossy_component)
  ultimately show ?thesis unfolding name_ok_def by blast
qed

section \<open>Mounting\<close>

lemma mount_entry_OkE:
  assumes "mount_entry bytes i nodes = Ok nodes'"
  obtains path offset len d where "path_is_valid path" "bt_get nodes (from_utf8_lossy path) = None"
    "nodes' = bt_insert nodes (from_utf8_lossy path)
       \<lparr>nd_offset = offset, nd_len = len, nd_is_directory = d\<rparr>"
    "if d then len = 0 else offset + len \<le> length bytes \<and> offset + len < usize_lim"
proof -
  from assms obtain offset :: u64 and len :: u64 and flags path u where p: "path_is_valid path"
    and range: "(if flags AND FLAG_DIRECTORY \<noteq> 0 then ensure (len = 0) (EntryOutOfBounds i)
         else obind (ok_or (checked_add (unat offset) (unat len)) (EntryOutOfBounds i))
                (\<lambda>stop. ensure (stop \<le> length bytes) (EntryOutOfBounds i))) = Ok u"
    and ins: "(if bt_get nodes (from_utf8_lossy path) \<noteq> None then Err (DuplicatePath i)
        else Ok (bt_insert nodes (from_utf8_lossy path)
               \<lparr>nd_offset = unat offset, nd_len = unat len,
                 nd_is_directory = (flags AND FLAG_DIRECTORY \<noteq> 0)\<rparr>)) = Ok nodes'"
    unfolding mount_entry_def Let_def obind_eq_Ok ensure_eq_Ok by blast
  show thesis
  proof (rule that [OF p])
    show "bt_get nodes (from_utf8_lossy path) = None" using ins by (simp split: if_splits)
    show "nodes' = bt_insert nodes (from_utf8_lossy path)
      \<lparr>nd_offset = unat offset, nd_len = unat len,
        nd_is_directory = (flags AND FLAG_DIRECTORY \<noteq> 0)\<rparr>"
      using ins by (simp split: if_splits)
    show "if flags AND FLAG_DIRECTORY \<noteq> 0 then unat len = 0
      else unat offset + unat len \<le> length bytes \<and> unat offset + unat len < usize_lim"
      using range by (auto simp: outcome_simps split: if_splits)
  qed
qed

lemma mount_entry_Ok:
  assumes "mount_entry bytes i nodes = Ok nodes'" "nodes_ok bytes nodes"
  shows "nodes_ok bytes nodes'"
  using assms(1)
proof (rule mount_entry_OkE)
  fix path offset len d
  assume path: "path_is_valid path"
    and nodes': "nodes' = bt_insert nodes (from_utf8_lossy path)
      \<lparr>nd_offset = offset, nd_len = len, nd_is_directory = d\<rparr>"
    and range: "if d then len = 0 else offset + len \<le> length bytes \<and> offset + len < usize_lim"
  then show ?thesis
    using assms(2) name_ok_lossy [OF path]
    by (auto simp: nodes_ok_def bt_get_simps node_ok_def split: if_splits)
qed

lemma mount_entry_not_Panic:
  assumes "NAR_HEADER_SIZE + (i + 1) * NAR_ENTRY_SIZE \<le> length bytes"
  shows "mount_entry bytes i nodes \<noteq> Panic"
proof -
  let ?at = "NAR_HEADER_SIZE + i * NAR_ENTRY_SIZE"
  have at: "?at + NAR_ENTRY_SIZE \<le> length bytes" using assms by (simp add: algebra_simps)
  then have at': "?at + 24 + MAX_PATH \<le> length bytes" by (simp add: NAR_ENTRY_SIZE_def)
  show ?thesis
    using at' by (auto simp: mount_entry_def Let_def outcome_simps split: if_splits)
qed

lemma mount_entries_Ok:
  "mount_entries bytes xs nodes = Ok nodes' \<Longrightarrow> nodes_ok bytes nodes \<Longrightarrow> nodes_ok bytes nodes'"
proof (induction xs arbitrary: nodes)
  case Nil
  then show ?case by simp
next
  case (Cons i xs)
  then show ?case by (auto simp: outcome_simps dest: mount_entry_Ok)
qed

lemma mount_entries_not_Panic:
  "\<forall>i \<in> set xs. NAR_HEADER_SIZE + (i + 1) * NAR_ENTRY_SIZE \<le> length bytes \<Longrightarrow>
   mount_entries bytes xs nodes \<noteq> Panic"
proof (induction xs arbitrary: nodes)
  case Nil
  then show ?case by simp
next
  case (Cons i xs)
  then show ?case by (auto simp: outcome_simps mount_entry_not_Panic)
qed

lemma nodes_ok_root: "nodes_ok img nodes \<Longrightarrow> nodes_ok img (ensure_root nodes)"
proof -
  assume ok: "nodes_ok img nodes"
  have "name_ok [SLASH]" unfolding name_ok_def by (rule exI [of _ "[]"]) (simp add: path_of_def)
  with ok show ?thesis
    by (auto simp: nodes_ok_def ensure_root_def bt_get_simps node_ok_def root_node_def split: if_splits)
qed

lemma get_ensure_root: "bt_wf nodes \<Longrightarrow> bt_get (ensure_root nodes) [SLASH] \<noteq> None"
  by (simp add: ensure_root_def bt_get_simps)

lemma parse_archive_Ok: "parse_archive bytes = Ok fs \<Longrightarrow> fs_ok (Some fs) \<and> fs_image fs = bytes"
proof -
  assume "parse_archive bytes = Ok fs"
  then obtain count nodes where
    e: "mount_entries bytes [0..<count] bt_empty = Ok nodes"
    and fs: "fs = \<lparr>fs_nodes = ensure_root nodes, fs_image = bytes\<rparr>"
    by (auto simp: parse_archive_def outcome_simps)
  have "nodes_ok bytes bt_empty" by (simp add: nodes_ok_def bt.get_empty)
  from mount_entries_Ok [OF e this] have "nodes_ok bytes nodes" .
  with fs show ?thesis
    by (simp add: fs_ok_def nodes_ok_root get_ensure_root nodes_ok_def [of _ nodes])
qed

lemma parse_archive_not_Panic: "parse_archive bytes \<noteq> Panic"
proof
  assume "parse_archive bytes = Panic"
  then obtain count where
    hdr: "NAR_HEADER_SIZE \<le> length bytes \<Longrightarrow> NAR_HEADER_SIZE + count * NAR_ENTRY_SIZE \<le> length bytes"
    and p: "NAR_HEADER_SIZE \<le> length bytes \<Longrightarrow> mount_entries bytes [0..<count] bt_empty = Panic"
    and le: "NAR_HEADER_SIZE \<le> length bytes"
    by (auto simp: parse_archive_def outcome_simps NAR_HEADER_SIZE_def)
  have "\<forall>i \<in> set [0..<count]. NAR_HEADER_SIZE + (i + 1) * NAR_ENTRY_SIZE \<le> length bytes"
  proof
    fix i assume "i \<in> set [0..<count]"
    then have "(i + 1) * NAR_ENTRY_SIZE \<le> count * NAR_ENTRY_SIZE" by (intro mult_right_mono) auto
    with hdr [OF le] show "NAR_HEADER_SIZE + (i + 1) * NAR_ENTRY_SIZE \<le> length bytes" by simp
  qed
  with p [OF le] show False using mount_entries_not_Panic by blast
qed

lemma mount_fs_ok: "fs_ok old \<Longrightarrow> fs_ok (snd (mount bytes old))"
  using parse_archive_Ok by (auto simp: mount_def split: outcome.splits)

section \<open>Reading\<close>

lemma fs_lookup_node_ok:
  "fs_ok st \<Longrightarrow> fs_lookup st p = Some n \<Longrightarrow> \<exists>fs. st = Some fs \<and> node_ok (fs_image fs) n"
  by (auto simp: fs_lookup_def fs_ok_def nodes_ok_def split: option.splits)

lemma fs_read_file:
  assumes "node_ok (fs_image fs) n" "\<not> nd_is_directory n"
  shows "fs_read (Some fs) n off k = Ok (take k (drop off (take (nd_len n) (drop (nd_offset n) (fs_image fs)))))"
proof (cases "off < nd_len n")
  case True
  let ?want = "min (nd_len n - off) k"
  have len: "nd_offset n + nd_len n \<le> length (fs_image fs)" "nd_offset n + nd_len n < usize_lim"
    using assms by (auto simp: node_ok_def)
  then have "nd_offset n + off + ?want \<le> length (fs_image fs)" "nd_offset n + off + ?want < usize_lim"
    using True by linarith+
  then have "fs_read (Some fs) n off k = Ok (take ?want (drop (nd_offset n + off) (fs_image fs)))"
    using assms(2) True by (simp add: fs_read_def Let_def)
  then show ?thesis by (simp add: drop_take add.commute min.commute)
next
  case False
  then show ?thesis using assms(2) by (simp add: fs_read_def)
qed

lemma fs_read_length:
  "fs_read st n off k = Ok bs \<Longrightarrow> length bs \<le> k \<and> length bs \<le> nd_len n - off"
  by (auto simp: fs_read_def Let_def split: if_splits option.splits)

section \<open>Listing\<close>

lemma child_prefix:
  assumes "list_all valid_component ps" "list_all valid_component cs" "path_of cs \<noteq> path_of ps"
  shows "(case strip_prefix (path_of cs)
             (if path_of ps = [SLASH] then [SLASH] else path_of ps @ [SLASH]) of
            None \<Rightarrow> False | Some rest \<Rightarrow> \<not> (rest = [] \<or> SLASH \<in> set rest))
    \<longleftrightarrow> (\<exists>c. cs = ps @ [c])"
proof -
  have pre: "(if path_of ps = [SLASH] then [SLASH] else path_of ps @ [SLASH]) = join ps @ [SLASH]"
    using assms(1) by (auto simp: path_of_def join_eq_slash valid_component_def)
  have iff: "(case strip_prefix q (join ps @ [SLASH]) of
            None \<Rightarrow> False | Some rest \<Rightarrow> \<not> (rest = [] \<or> SLASH \<in> set rest)) \<longleftrightarrow>
    (\<exists>rest. q = join ps @ SLASH # rest \<and> rest \<noteq> [] \<and> SLASH \<notin> set rest)" for q
    by (simp add: case_option_False_iff strip_prefix_Some)
  have "(\<exists>rest. path_of cs = join ps @ SLASH # rest \<and> rest \<noteq> [] \<and> SLASH \<notin> set rest) \<longleftrightarrow>
    (\<exists>c. cs = ps @ [c])"
  proof
    assume "\<exists>rest. path_of cs = join ps @ SLASH # rest \<and> rest \<noteq> [] \<and> SLASH \<notin> set rest"
    then obtain r where r: "path_of cs = join ps @ SLASH # r" "r \<noteq> []" "SLASH \<notin> set r" by blast
    then have "path_of cs = join (ps @ [r])" by (simp add: join_append)
    moreover have "cs \<noteq> []" using r by (cases ps) (auto simp: path_of_def)
    ultimately have "join cs = join (ps @ [r])" by (simp add: path_of_def)
    moreover have "\<forall>d \<in> set cs. SLASH \<notin> set d" "\<forall>d \<in> set (ps @ [r]). SLASH \<notin> set d"
      using assms r(3) by (auto simp: list_all_iff valid_component_def)
    ultimately show "\<exists>c. cs = ps @ [c]" using join_inject by blast
  next
    assume "\<exists>c. cs = ps @ [c]"
    then obtain c where c: "cs = ps @ [c]" by blast
    then have "c \<noteq> []" "SLASH \<notin> set c" using assms(2) by (auto simp: valid_component_def)
    then show "\<exists>rest. path_of cs = join ps @ SLASH # rest \<and> rest \<noteq> [] \<and> SLASH \<notin> set rest"
      using c by (auto simp: path_of_def join_append)
  qed
  then show ?thesis unfolding pre iff .
qed

lemma parent_of_path:
  assumes "list_all valid_component ps" "list_all valid_component cs"
  shows "parent_of (path_of cs) = Some (path_of ps) \<longleftrightarrow> (\<exists>c. cs = ps @ [c])"
proof (cases cs rule: rev_cases)
  case Nil
  then show ?thesis by (simp add: path_of_def parent_of_def)
next
  case (snoc ds c)
  then have "parent_of (path_of cs) = Some (path_of ds)"
    using assms(2) parent_of_join [of c ds] by (simp add: path_of_def)
  then show ?thesis using path_of_inject [of ds ps] assms snoc by auto
qed

lemma read_dir_children:
  assumes "fs_ok st" "read_dir st p = Some children"
  shows "\<exists>fs. st = Some fs \<and> set children = {c \<in> set (bt_keys (fs_nodes fs)). parent_of c = Some p} \<and>
    sorted_wrt (<) children"
proof -
  obtain fs n where fs: "st = Some fs" and n: "bt_get (fs_nodes fs) p = Some n"
    and ch: "children = filter (\<lambda>candidate.
                       candidate \<noteq> p \<and>
                       (case strip_prefix candidate (if p = [SLASH] then [SLASH] else p @ [SLASH]) of
                          None \<Rightarrow> False
                        | Some rest \<Rightarrow> \<not> (rest = [] \<or> SLASH \<in> set rest)))
                     (bt_keys (fs_nodes fs))"
    using assms(2) by (auto simp: read_dir_def Let_def split: option.splits if_splits)
  have ok: "nodes_ok (fs_image fs) (fs_nodes fs)" using assms(1) fs by (simp add: fs_ok_def)
  then obtain ps where ps: "list_all valid_component ps" "p = path_of ps"
    using n by (auto simp: nodes_ok_def name_ok_def)
  have wf: "bt_wf (fs_nodes fs)" using ok by (simp add: nodes_ok_def)
  have key: "c \<in> set (bt_keys (fs_nodes fs)) \<Longrightarrow> name_ok c" for c
    using ok by (auto simp: bt_keys_def nodes_ok_def bt.entries_get [OF wf])
  have "c \<in> set children \<longleftrightarrow> c \<in> set (bt_keys (fs_nodes fs)) \<and> parent_of c = Some p" for c
  proof (cases "c \<in> set (bt_keys (fs_nodes fs))")
    case True
    then obtain cs where cs: "list_all valid_component cs" "c = path_of cs"
      using key by (auto simp: name_ok_def)
    show ?thesis
    proof (cases "c = p")
      case True
      then have "\<not> (\<exists>d. cs = ps @ [d])" using path_of_inject cs ps by auto
      then show ?thesis using True ch parent_of_path [OF ps(1) cs(1)] ps cs by auto
    next
      case False
      then show ?thesis
        using \<open>c \<in> set _\<close> child_prefix [OF ps(1) cs(1)] parent_of_path [OF ps(1) cs(1)] ps(2) cs(2) ch
        by auto
    qed
  qed (simp add: ch)
  moreover have "sorted_wrt (<) children"
    using wf unfolding ch by (simp add: bt_wf_def bt_keys_def sorted_wrt_filter)
  ultimately show ?thesis using fs by blast
qed

section \<open>Properties\<close>

text \<open>
  C2. Mounting is total and safe on untrusted bytes: whatever the ramdisk holds, \<^verbatim>\<open>mount\<close> never
  panics; a refused archive leaves the mounted file system as it was; and an accepted one
  satisfies the invariant, by which the root exists, every name is a canonical path, every
  directory is empty of data and every file's data lies inside the archive.
\<close>
theorem mount_safe:
  assumes "fs_ok old"
  shows "fst (mount bytes old) \<noteq> Panic \<and> fs_ok (snd (mount bytes old)) \<and>
    (\<forall>e. fst (mount bytes old) = Err e \<longrightarrow> snd (mount bytes old) = old) \<and>
    (\<forall>n. fst (mount bytes old) = Ok n \<longrightarrow>
       (\<exists>fs. snd (mount bytes old) = Some fs \<and> fs_image fs = bytes \<and> n = length (fs_nodes fs)))"
  using mount_fs_ok [OF assms, of bytes] parse_archive_not_Panic [of bytes] parse_archive_Ok [of bytes]
  by (auto simp: mount_def split: outcome.splits)

theorem mount_safe_witness:
  "fst (mount [1, 2, 3] None) \<noteq> Panic \<and> fs_ok (snd (mount [1, 2, 3] None))"
proof -
  have "fs_ok None" by (simp add: fs_ok_def)
  from mount_safe [OF this, of "[1, 2, 3]"] show ?thesis by blast
qed

text \<open>A small mounted namespace for the witnesses: \<^verbatim>\<open>/a\<close> holds the bytes 7, 8, 9.\<close>

definition tiny_fs :: file_system where
  "tiny_fs =
     \<lparr>fs_nodes = [([SLASH], root_node),
        ([SLASH, 97], \<lparr>nd_offset = 1, nd_len = 3, nd_is_directory = False\<rparr>)],
      fs_image = [0, 7, 8, 9]\<rparr>"

lemma tiny_fs_ok: "fs_ok (Some tiny_fs)"
proof -
  have "name_ok [SLASH]" unfolding name_ok_def by (rule exI [of _ "[]"]) (simp add: path_of_def)
  moreover have "name_ok [SLASH, 97]"
    unfolding name_ok_def
    by (rule exI [of _ "[[97]]"]) (simp add: path_of_def valid_component_def SLASH_def DOT_def)
  ultimately show ?thesis
    by (auto simp: fs_ok_def nodes_ok_def tiny_fs_def bt_wf_def bt_get_def node_ok_def root_node_def
        usize_lim_def split: if_splits)
qed

text \<open>
  C3. Reading a file returns exactly its bytes: for a path that names a file, a read at any
  offset into a buffer of any size never panics and yields the file's contents from that offset,
  cut at the end of the file and at the size of the buffer, and nothing of the archive beside it.
\<close>
theorem fs_read_exact:
  assumes "fs_ok st" "fs_lookup st p = Some n" "\<not> nd_is_directory n"
  shows "\<exists>fs. st = Some fs \<and> nd_offset n + nd_len n \<le> length (fs_image fs) \<and>
    fs_read st n off k =
      Ok (take k (drop off (take (nd_len n) (drop (nd_offset n) (fs_image fs))))) \<and>
    read_all st p = Ok (Some (take (nd_len n) (drop (nd_offset n) (fs_image fs))))"
proof -
  obtain fs where fs: "st = Some fs" "node_ok (fs_image fs) n"
    using fs_lookup_node_ok [OF assms(1,2)] by blast
  moreover from this have "nd_offset n + nd_len n \<le> length (fs_image fs)"
    using assms(3) by (simp add: node_ok_def)
  ultimately show ?thesis
    using assms(2,3) by (simp add: fs_read_file read_all_def)
qed

theorem fs_read_exact_witness:
  "fs_read (Some tiny_fs) \<lparr>nd_offset = 1, nd_len = 3, nd_is_directory = False\<rparr> 1 10 = Ok [8, 9]"
proof -
  have l: "fs_lookup (Some tiny_fs) [SLASH, 97] =
    Some \<lparr>nd_offset = 1, nd_len = 3, nd_is_directory = False\<rparr>"
    by (simp add: fs_lookup_def tiny_fs_def bt_get_def)
  show ?thesis
    using fs_read_exact [OF tiny_fs_ok l, of 1 10] by (simp add: tiny_fs_def)
qed

text \<open>
  C4. Listing a directory returns its immediate children and nothing else, in ascending order
  and without duplicates: a path of the namespace is listed exactly when its parent is the
  directory.
\<close>
theorem read_dir_exact:
  assumes "fs_ok st" "read_dir st p = Some children"
  shows "\<exists>fs. st = Some fs \<and>
    set children = {c \<in> set (bt_keys (fs_nodes fs)). parent_of c = Some p} \<and>
    sorted_wrt (<) children"
  using assms by (rule read_dir_children)

theorem read_dir_exact_witness:
  "read_dir (Some tiny_fs) [SLASH] = Some [[SLASH, 97]] \<and> parent_of [SLASH, 97] = Some [SLASH]"
proof -
  have r: "read_dir (Some tiny_fs) [SLASH] = Some [[SLASH, 97]]"
    by (simp add: read_dir_def tiny_fs_def bt_get_def bt_keys_def root_node_def strip_prefix_def
        starts_with_def SLASH_def)
  then show ?thesis using read_dir_exact [OF tiny_fs_ok r] by auto
qed

end
