(* ===== verification/Abi.thy ===== *)
theory Abi
  imports Prelude
begin

text \<open>
  The contract between kernel and userland (\<^verbatim>\<open>abi/src/lib.rs\<close>) and the virtual address map
  (\<^verbatim>\<open>abi/src/layout.rs\<close>): syscall numbers, error numbers and their encoding in a return
  register, Realm kinds, capability bits, and the address ranges of both halves of the address
  space.
\<close>

named_theorems abi_defs \<open>the numeric constants of the kernel/userland contract\<close>

section \<open>Syscall numbers\<close>

definition SYS_EXIT :: u64 where [abi_defs]: "SYS_EXIT = 0"
definition SYS_YIELD :: u64 where [abi_defs]: "SYS_YIELD = 1"
definition SYS_GETPID :: u64 where [abi_defs]: "SYS_GETPID = 2"
definition SYS_SPAWN :: u64 where [abi_defs]: "SYS_SPAWN = 3"
definition SYS_WAIT :: u64 where [abi_defs]: "SYS_WAIT = 4"
definition SYS_SLEEP_TICKS :: u64 where [abi_defs]: "SYS_SLEEP_TICKS = 5"
definition SYS_WRITE :: u64 where [abi_defs]: "SYS_WRITE = 16"
definition SYS_READ :: u64 where [abi_defs]: "SYS_READ = 17"
definition SYS_OPEN :: u64 where [abi_defs]: "SYS_OPEN = 18"
definition SYS_CLOSE :: u64 where [abi_defs]: "SYS_CLOSE = 19"
definition SYS_SEEK :: u64 where [abi_defs]: "SYS_SEEK = 20"
definition SYS_READDIR :: u64 where [abi_defs]: "SYS_READDIR = 21"
definition SYS_STAT :: u64 where [abi_defs]: "SYS_STAT = 22"
definition SYS_WRITE_CSTR :: u64 where [abi_defs]: "SYS_WRITE_CSTR = 23"
definition SYS_MAP :: u64 where [abi_defs]: "SYS_MAP = 32"
definition SYS_UNMAP :: u64 where [abi_defs]: "SYS_UNMAP = 33"
definition SYS_PORT_CREATE :: u64 where [abi_defs]: "SYS_PORT_CREATE = 48"
definition SYS_PORT_CONNECT :: u64 where [abi_defs]: "SYS_PORT_CONNECT = 49"
definition SYS_PORT_SEND :: u64 where [abi_defs]: "SYS_PORT_SEND = 50"
definition SYS_PORT_RECV :: u64 where [abi_defs]: "SYS_PORT_RECV = 51"
definition SYS_PORT_CLOSE :: u64 where [abi_defs]: "SYS_PORT_CLOSE = 52"
definition SYS_REALM_INFO :: u64 where [abi_defs]: "SYS_REALM_INFO = 64"
definition SYS_TICKS :: u64 where [abi_defs]: "SYS_TICKS = 65"
definition SYS_UPTIME_MS :: u64 where [abi_defs]: "SYS_UPTIME_MS = 66"
definition SYS_SURFACE_CREATE :: u64 where [abi_defs]: "SYS_SURFACE_CREATE = 80"
definition SYS_SURFACE_COMMIT :: u64 where [abi_defs]: "SYS_SURFACE_COMMIT = 81"
definition SYS_SURFACE_INFO :: u64 where [abi_defs]: "SYS_SURFACE_INFO = 82"
definition SYS_INPUT_POLL :: u64 where [abi_defs]: "SYS_INPUT_POLL = 83"

definition FD_STDIN :: u64 where [abi_defs]: "FD_STDIN = 0"
definition FD_STDOUT :: u64 where [abi_defs]: "FD_STDOUT = 1"
definition FD_STDERR :: u64 where [abi_defs]: "FD_STDERR = 2"
definition FD_FIRST_DYNAMIC :: u64 where [abi_defs]: "FD_FIRST_DYNAMIC = 3"

definition OPEN_READ :: u64 where [abi_defs]: "OPEN_READ = 0"
definition OPEN_WRITE :: u64 where [abi_defs]: "OPEN_WRITE = 1"
definition OPEN_DIRECTORY :: u64 where [abi_defs]: "OPEN_DIRECTORY = 2"

definition SEEK_SET :: u64 where [abi_defs]: "SEEK_SET = 0"
definition SEEK_CURRENT :: u64 where [abi_defs]: "SEEK_CURRENT = 1"
definition SEEK_END :: u64 where [abi_defs]: "SEEK_END = 2"

definition KEY_DOWN :: u64 where [abi_defs]: "KEY_DOWN = 1"
definition KEY_UP :: u64 where [abi_defs]: "KEY_UP = 2"
definition POINTER_MOTION :: u64 where [abi_defs]: "POINTER_MOTION = 3"
definition POINTER_BUTTON_DOWN :: u64 where [abi_defs]: "POINTER_BUTTON_DOWN = 4"
definition POINTER_BUTTON_UP :: u64 where [abi_defs]: "POINTER_BUTTON_UP = 5"

section \<open>Realm kinds and capability bits\<close>

definition KIND_HOME :: u64 where [abi_defs]: "KIND_HOME = 0"
definition KIND_GAMING :: u64 where [abi_defs]: "KIND_GAMING = 1"
definition KIND_VAULT :: u64 where [abi_defs]: "KIND_VAULT = 2"
definition KIND_SYSTEM :: u64 where [abi_defs]: "KIND_SYSTEM = 3"

definition CAP_SERIAL_WRITE :: u64 where [abi_defs]: "CAP_SERIAL_WRITE = push_bit 0 1"
definition CAP_TIMER_READ :: u64 where [abi_defs]: "CAP_TIMER_READ = push_bit 1 1"
definition CAP_FILE_READ :: u64 where [abi_defs]: "CAP_FILE_READ = push_bit 2 1"
definition CAP_FILE_WRITE :: u64 where [abi_defs]: "CAP_FILE_WRITE = push_bit 3 1"
definition CAP_PROCESS_SPAWN :: u64 where [abi_defs]: "CAP_PROCESS_SPAWN = push_bit 4 1"
definition CAP_IPC_CREATE :: u64 where [abi_defs]: "CAP_IPC_CREATE = push_bit 5 1"
definition CAP_IPC_CONNECT :: u64 where [abi_defs]: "CAP_IPC_CONNECT = push_bit 6 1"
definition CAP_SURFACE_CREATE :: u64 where [abi_defs]: "CAP_SURFACE_CREATE = push_bit 7 1"
definition CAP_INPUT_READ :: u64 where [abi_defs]: "CAP_INPUT_READ = push_bit 8 1"
definition CAP_EXCLUSIVE_SCANOUT :: u64 where [abi_defs]: "CAP_EXCLUSIVE_SCANOUT = push_bit 9 1"

section \<open>Error numbers\<close>

definition ENOSYS :: u64 where [abi_defs]: "ENOSYS = 1"
definition EFAULT :: u64 where [abi_defs]: "EFAULT = 2"
definition ENOENT :: u64 where [abi_defs]: "ENOENT = 3"
definition EINVAL :: u64 where [abi_defs]: "EINVAL = 4"
definition EPERM :: u64 where [abi_defs]: "EPERM = 5"
definition ENOMEM :: u64 where [abi_defs]: "ENOMEM = 6"
definition EEXIST :: u64 where [abi_defs]: "EEXIST = 7"
definition EAGAIN :: u64 where [abi_defs]: "EAGAIN = 8"
definition EBADF :: u64 where [abi_defs]: "EBADF = 9"
definition ENOTSUP :: u64 where [abi_defs]: "ENOTSUP = 10"
definition EPIPE :: u64 where [abi_defs]: "EPIPE = 11"
definition ERR_MAX :: u64 where [abi_defs]: "ERR_MAX = 4095"

definition encode_error :: "u64 \<Rightarrow> u64" where
  "encode_error errno = NOT errno + 1"

definition is_error :: "u64 \<Rightarrow> bool" where
  "is_error raw \<longleftrightarrow> encode_error ERR_MAX \<le> raw"

definition decode :: "u64 \<Rightarrow> u64 + u64" where
  "decode raw = (if is_error raw then Inl (encode_error raw) else Inr raw)"

section \<open>Structures passed across the boundary\<close>

record file_info =
  fi_size :: u64
  fi_is_directory :: u64

record realm_info =
  ri_kind :: u64
  ri_pid :: u64
  ri_capabilities :: u64

record surface_info =
  si_width :: u64
  si_height :: u64
  si_stride :: u64
  si_bytes_per_pixel :: u64

record input_event =
  ev_kind :: u64
  ev_code :: u64
  ev_x :: u64
  ev_y :: u64

section \<open>The virtual address map\<close>

definition HIGHER_HALF_START :: u64 where [abi_defs]: "HIGHER_HALF_START = 0xffff800000000000"
definition USER_SPACE_END :: u64 where [abi_defs]: "USER_SPACE_END = 0x00007ffffffff000"
definition KERNEL_PML4_FIRST_INDEX :: nat where [abi_defs]: "KERNEL_PML4_FIRST_INDEX = 256"
definition USER_IMAGE_BASE :: u64 where [abi_defs]: "USER_IMAGE_BASE = 0x400000"
definition USER_FALLBACK_IMAGE_BASE :: u64 where [abi_defs]: "USER_FALLBACK_IMAGE_BASE = 0x500000"
definition USER_HEAP_BASE :: u64 where [abi_defs]: "USER_HEAP_BASE = 0x100000000000"
definition MIRAGE_IMAGE_BASE :: u64 where [abi_defs]: "MIRAGE_IMAGE_BASE = 0x200000000000"
definition USERMODE_TEST_CODE :: u64 where [abi_defs]: "USERMODE_TEST_CODE = 0x555555550000"
definition USERMODE_TEST_STACK :: u64 where [abi_defs]: "USERMODE_TEST_STACK = 0x666666660000"
definition USER_STACK_TOP :: u64 where [abi_defs]: "USER_STACK_TOP = 0x7ffff0000000"
definition USER_STACK_PAGES :: u64 where [abi_defs]: "USER_STACK_PAGES = 16"
definition USER_STACK_BOTTOM :: u64 where [abi_defs]:
  "USER_STACK_BOTTOM = USER_STACK_TOP - USER_STACK_PAGES * 4096"
definition USER_STACK_GUARD :: u64 where [abi_defs]: "USER_STACK_GUARD = USER_STACK_BOTTOM - 4096"
definition KERNEL_HEAP_START :: u64 where [abi_defs]: "KERNEL_HEAP_START = 0xffffc00000000000"
definition KERNEL_STACK_AREA :: u64 where [abi_defs]: "KERNEL_STACK_AREA = 0xffffd00000000000"
definition KERNEL_STACK_SIZE :: u64 where [abi_defs]: "KERNEL_STACK_SIZE = 16 * 1024"
definition KERNEL_STACK_SLOT :: u64 where [abi_defs]: "KERNEL_STACK_SLOT = KERNEL_STACK_SIZE + 4096"
definition KERNEL_STACK_SLOTS :: u64 where [abi_defs]: "KERNEL_STACK_SLOTS = 256"
definition KERNEL_HEAP_SIZE :: u64 where [abi_defs]: "KERNEL_HEAP_SIZE = 16 * 1024 * 1024"
definition KERNEL_PROBE_ADDRESS :: u64 where [abi_defs]: "KERNEL_PROBE_ADDRESS = KERNEL_HEAP_START"

definition is_user_address :: "u64 \<Rightarrow> bool" where
  "is_user_address addr \<longleftrightarrow> addr < USER_SPACE_END"

section \<open>Facts about the error encoding\<close>

lemma encode_error_uminus: "encode_error e = - e"
  by (simp add: encode_error_def minus_eq_not_plus_1)

lemma encode_error_involutive [simp]: "encode_error (encode_error e) = e"
  by (simp add: encode_error_uminus)

lemma unat_uminus_pos: "w \<noteq> 0 \<Longrightarrow> unat (- w :: 'a::len word) = 2 ^ LENGTH('a) - unat w"
proof -
  assume "w \<noteq> 0"
  then have "0 < unat w" by (simp add: unat_gt_0)
  moreover have "unat w < 2 ^ LENGTH('a)" by (rule unat_bound)
  moreover have "(- w) = of_nat (2 ^ LENGTH('a) - unat w)"
    using of_nat_diff [OF less_imp_le [OF unat_bound [of w]], where 'a = "'a word"] by simp
  ultimately show ?thesis by (simp add: unat_of_nat take_bit_eq_mod)
qed

lemma is_error_iff: "is_error raw \<longleftrightarrow> 2 ^ 64 - 4095 \<le> unat raw"
  by (simp add: is_error_def encode_error_uminus ERR_MAX_def word_le_nat_alt)

lemma is_error_encode: "is_error (encode_error e) \<longleftrightarrow> 0 < unat e \<and> unat e \<le> 4095"
proof (cases "e = 0")
  case True
  then show ?thesis by (simp add: is_error_iff encode_error_uminus)
next
  case False
  then have "unat (encode_error e) = 2 ^ 64 - unat e" and "0 < unat e"
    by (simp_all add: encode_error_uminus unat_uminus_pos unat_gt_0)
  moreover have "unat e < 2 ^ 64" using unat_bound [of e] by simp
  ultimately show ?thesis by (simp add: is_error_iff) arith
qed

lemma encode_error_inj: "encode_error a = encode_error b \<longleftrightarrow> a = b"
  by (simp add: encode_error_uminus)

lemma err_ne_small: "unat r < 2 ^ 63 \<Longrightarrow> \<not> is_error r"
  by (simp add: is_error_iff)

text \<open>The error numbers the kernel returns, all inside the window \<open>is_error\<close> recognises.\<close>

definition errnos :: "u64 set" where
  "errnos = {ENOSYS, EFAULT, ENOENT, EINVAL, EPERM, ENOMEM, EEXIST, EAGAIN, EBADF, ENOTSUP, EPIPE}"

lemma is_error_errnos: "e \<in> errnos \<Longrightarrow> is_error (encode_error e)"
  by (auto simp: errnos_def is_error_encode abi_defs)

text \<open>
  The error encoding of the syscall return register is exact: every error number from 1 to
  4095 decodes to itself as an error, and a raw value below the error window decodes as the
  result it is, so a caller can never confuse a result with an error.
\<close>
theorem decode_roundtrip:
  "(0 < unat e \<and> unat e \<le> 4095 \<longrightarrow> decode (encode_error e) = Inl e) \<and>
   (decode r = Inr v \<longleftrightarrow> v = r \<and> unat r < 2 ^ 64 - 4095)"
  by (auto simp: decode_def is_error_encode) (auto simp: is_error_iff split: if_splits)

theorem decode_roundtrip_witness:
  "decode (encode_error EBADF) = Inl EBADF \<and> decode 7 = Inr 7"
proof -
  have "0 < unat EBADF \<and> unat EBADF \<le> 4095" by (simp add: EBADF_def)
  then show ?thesis
    using decode_roundtrip [of EBADF 7 7] by simp
qed

section \<open>Facts about the address map\<close>

text \<open>The named ranges of each half, lowest first, as first and past-the-end addresses.\<close>

definition lower_half_ranges :: "(nat \<times> nat) list" where
  "lower_half_ranges =
     [(unat USER_IMAGE_BASE, unat USER_FALLBACK_IMAGE_BASE),
      (unat USER_FALLBACK_IMAGE_BASE, unat USER_HEAP_BASE),
      (unat USER_HEAP_BASE, unat MIRAGE_IMAGE_BASE),
      (unat MIRAGE_IMAGE_BASE, unat USERMODE_TEST_CODE),
      (unat USERMODE_TEST_CODE, unat USERMODE_TEST_CODE + 4096),
      (unat USERMODE_TEST_STACK, unat USERMODE_TEST_STACK + 4096),
      (unat USER_STACK_GUARD, unat USER_STACK_BOTTOM),
      (unat USER_STACK_BOTTOM, unat USER_STACK_TOP)]"

definition higher_half_ranges :: "(nat \<times> nat) list" where
  "higher_half_ranges =
     [(unat KERNEL_HEAP_START, unat KERNEL_HEAP_START + unat KERNEL_HEAP_SIZE),
      (unat KERNEL_STACK_AREA,
       unat KERNEL_STACK_AREA + unat KERNEL_STACK_SLOTS * unat KERNEL_STACK_SLOT)]"

text \<open>
  The address map is laid out as its rules demand: within each half the ranges are
  non-empty, ascending and disjoint, every user range lies below the user limit, every kernel
  range lies in the higher half and inside the 64-bit address space, and no user address is a
  kernel address.
\<close>
theorem layout_disjoint:
  "sorted_wrt (\<lambda>r s. snd r \<le> fst s) (lower_half_ranges @ higher_half_ranges) \<and>
   list_all (\<lambda>r. fst r < snd r \<and> snd r \<le> unat USER_SPACE_END) lower_half_ranges \<and>
   list_all (\<lambda>r. fst r < snd r \<and> unat HIGHER_HALF_START \<le> fst r \<and> snd r \<le> 2 ^ 64)
     higher_half_ranges \<and>
   \<not> (\<exists>a. is_user_address a \<and> HIGHER_HALF_START \<le> a) \<and>
   \<not> is_user_address KERNEL_PROBE_ADDRESS"
proof -
  have "\<not> (\<exists>a. is_user_address a \<and> HIGHER_HALF_START \<le> a)"
    by (auto simp: is_user_address_def word_less_nat_alt word_le_nat_alt abi_defs)
  then show ?thesis
    by (simp add: lower_half_ranges_def higher_half_ranges_def is_user_address_def abi_defs
        word_less_nat_alt)
qed

end
