(* ===== verification/Realm.thy ===== *)
theory Realm
  imports Abi
begin

text \<open>
  Rights. The first part models \<^verbatim>\<open>kernel/src/security/capability.rs\<close>: typed capability tokens
  with a global counter and a global set of revoked identities, and the two functions that
  demand a token (\<^verbatim>\<open>serial::write_with_capability\<close> and \<^verbatim>\<open>interrupts::ticks_with_capability\<close>).
  The second part models \<^verbatim>\<open>kernel/src/realm.rs\<close>: the Realm profiles a process is given, their
  rights as a bit mask, and the demonstration task that carries its own tokens.
\<close>

section \<open>Capability tokens\<close>

text \<open>The marker types of the source, which only ever appear as the type parameter of a token.\<close>

datatype right = SerialWrite | TimerRead

record capability =
  cap_id :: u64
  cap_right :: right

datatype capability_error = Revoked

text \<open>\<^verbatim>\<open>NEXT_CAPABILITY_ID\<close> and \<^verbatim>\<open>REVOKED\<close>.\<close>

record cap_state =
  cs_next :: u64
  cs_revoked :: "u64 set"

definition cap_init :: cap_state where
  "cap_init = \<lparr>cs_next = 0, cs_revoked = {}\<rparr>"

text \<open>\<^verbatim>\<open>fetch_add\<close> wraps.\<close>

definition cap_issue :: "right \<Rightarrow> cap_state \<Rightarrow> capability \<times> cap_state" where
  "cap_issue r s = (\<lparr>cap_id = cs_next s, cap_right = r\<rparr>, s\<lparr>cs_next := cs_next s + 1\<rparr>)"

definition cap_derive :: "capability \<Rightarrow> capability" where
  "cap_derive c = \<lparr>cap_id = cap_id c, cap_right = cap_right c\<rparr>"

definition cap_revoke :: "capability \<Rightarrow> cap_state \<Rightarrow> cap_state" where
  "cap_revoke c s = s\<lparr>cs_revoked := insert (cap_id c) (cs_revoked s)\<rparr>"

definition is_revoked :: "cap_state \<Rightarrow> capability \<Rightarrow> bool" where
  "is_revoked s c \<longleftrightarrow> cap_id c \<in> cs_revoked s"

text \<open>The console is the list of bytes written to it so far.\<close>

definition write_with_capability ::
  "cap_state \<Rightarrow> capability \<Rightarrow> bytes \<Rightarrow> bytes \<Rightarrow> (capability_error, unit) outcome \<times> bytes" where
  "write_with_capability s c args console =
     (if is_revoked s c then (Err Revoked, console) else (Ok (), console @ args))"

definition ticks_with_capability ::
  "cap_state \<Rightarrow> u64 \<Rightarrow> capability \<Rightarrow> (capability_error, u64) outcome" where
  "ticks_with_capability s timer_ticks c = (if is_revoked s c then Err Revoked else Ok timer_ticks)"

section \<open>Tokens in circulation\<close>

text \<open>
  A token is a Rust value without \<^verbatim>\<open>Clone\<close> or \<^verbatim>\<open>Copy\<close>: it can only come from \<^verbatim>\<open>issue\<close> or
  \<^verbatim>\<open>derive\<close>, and \<^verbatim>\<open>revoke\<close> consumes it. The relation below runs these three operations over the
  tokens in circulation. Each token carries the number of the \<^verbatim>\<open>issue\<close> call it goes back to, and
  \<open>cw_killed\<close> collects the numbers of the lineages of which a member was revoked: both are
  bookkeeping of the model, which the code does not have.
\<close>

record cap_world =
  cw_state :: cap_state
  cw_held :: "(capability \<times> nat) list"
  cw_issued :: "right list"
  cw_killed :: "nat set"

definition cap_world_init :: cap_world where
  "cap_world_init = \<lparr>cw_state = cap_init, cw_held = [], cw_issued = [], cw_killed = {}\<rparr>"

inductive cap_reach :: "nat \<Rightarrow> cap_world \<Rightarrow> bool" where
  init: "cap_reach 0 cap_world_init"
| issue: "cap_reach n w \<Longrightarrow> cap_issue r (cw_state w) = (c, s') \<Longrightarrow>
    cap_reach (Suc n) (w\<lparr>cw_state := s', cw_held := cw_held w @ [(c, length (cw_issued w))],
                         cw_issued := cw_issued w @ [r]\<rparr>)"
| derive: "cap_reach n w \<Longrightarrow> (c, g) \<in> set (cw_held w) \<Longrightarrow>
    cap_reach (Suc n) (w\<lparr>cw_held := cw_held w @ [(cap_derive c, g)]\<rparr>)"
| revoke: "cap_reach n w \<Longrightarrow> (c, g) \<in> set (cw_held w) \<Longrightarrow>
    cap_reach (Suc n) (w\<lparr>cw_state := cap_revoke c (cw_state w),
                         cw_held := remove1 (c, g) (cw_held w),
                         cw_killed := insert g (cw_killed w)\<rparr>)"

definition cap_inv :: "nat \<Rightarrow> cap_world \<Rightarrow> bool" where
  "cap_inv n w \<longleftrightarrow>
     length (cw_issued w) \<le> n \<and>
     cs_next (cw_state w) = of_nat (length (cw_issued w)) \<and>
     (\<forall>(c, g) \<in> set (cw_held w).
        g < length (cw_issued w) \<and> cap_id c = of_nat g \<and> cap_right c = cw_issued w ! g) \<and>
     (\<forall>g \<in> cw_killed w. g < length (cw_issued w)) \<and>
     cs_revoked (cw_state w) = of_nat ` cw_killed w"

lemma cap_reach_inv: "cap_reach n w \<Longrightarrow> cap_inv n w"
proof (induction rule: cap_reach.induct)
  case init
  then show ?case by (simp add: cap_inv_def cap_world_init_def cap_init_def)
next
  case (issue n w r c s')
  then show ?case by (fastforce simp: cap_inv_def cap_issue_def nth_append)
next
  case (derive n w c g)
  then show ?case by (auto simp: cap_inv_def cap_derive_def)
next
  case (revoke n w c g)
  then have "cap_id c = of_nat g" "g < length (cw_issued w)" by (auto simp: cap_inv_def)
  with revoke show ?case
    by (auto simp: cap_inv_def cap_revoke_def dest!: notin_set_remove1 set_remove1_subset [THEN subsetD])
qed

text \<open>
  C5. Revocation is exact over delegation and permanent. As long as the identity counter has not
  wrapped (fewer than $2^{64}$ operations), for every token in circulation: it is reported as
  revoked if and only if some member of its own lineage - the token returned by one \<^verbatim>\<open>issue\<close> and
  every copy derived from it, directly or through other copies - has been revoked; no other
  token's revocation touches it; two tokens share an identity only if they share a lineage, and
  then they carry the same right, the one that was issued.
\<close>

theorem revocation_exact:
  assumes "cap_reach n w" "n < 2 ^ 64" "(c, g) \<in> set (cw_held w)"
  shows "(is_revoked (cw_state w) c \<longleftrightarrow> g \<in> cw_killed w) \<and>
    (\<forall>(d, h) \<in> set (cw_held w). (cap_id d = cap_id c \<longleftrightarrow> h = g) \<and>
        (h = g \<longrightarrow> cap_right d = cap_right c)) \<and>
    cap_right c = cw_issued w ! g"
proof -
  have inv: "cap_inv n w" using assms(1) by (rule cap_reach_inv)
  then have lt: "length (cw_issued w) < 2 ^ 64" using assms(2) by (simp add: cap_inv_def)
  have c: "g < length (cw_issued w)" "cap_id c = of_nat g" "cap_right c = cw_issued w ! g"
    using inv assms(3) by (auto simp: cap_inv_def)
  have killed: "\<And>h. h \<in> cw_killed w \<Longrightarrow> (of_nat g :: u64) = of_nat h \<longleftrightarrow> g = h"
    using inv lt c(1) by (intro of_nat_u64_inj) (auto simp: cap_inv_def)
  have held: "\<And>d h. (d, h) \<in> set (cw_held w) \<Longrightarrow>
      cap_id d = of_nat h \<and> h < length (cw_issued w) \<and> cap_right d = cw_issued w ! h"
    using inv by (auto simp: cap_inv_def)
  have "is_revoked (cw_state w) c \<longleftrightarrow> g \<in> cw_killed w"
    using inv c(2) killed by (auto simp: is_revoked_def cap_inv_def)
  moreover have "cap_id d = cap_id c \<longleftrightarrow> h = g" if "(d, h) \<in> set (cw_held w)" for d h
    using held [OF that] c lt of_nat_u64_inj [of h g] by simp
  ultimately show ?thesis using c(3) held by fastforce
qed

text \<open>A token, its copy, and an unrelated token; the copy is revoked.\<close>

definition cap_demo :: cap_world where
  "cap_demo =
     \<lparr>cw_state = \<lparr>cs_next = 2, cs_revoked = {0}\<rparr>,
      cw_held = [(\<lparr>cap_id = 0, cap_right = SerialWrite\<rparr>, 0), (\<lparr>cap_id = 1, cap_right = TimerRead\<rparr>, 1)],
      cw_issued = [SerialWrite, TimerRead],
      cw_killed = {0}\<rparr>"

lemma cap_demo_reach: "cap_reach 4 cap_demo"
proof -
  let ?c = "\<lparr>cap_id = 0, cap_right = SerialWrite\<rparr>" and ?d = "\<lparr>cap_id = 1, cap_right = TimerRead\<rparr>"
  let ?w1 = "\<lparr>cw_state = \<lparr>cs_next = 1, cs_revoked = {}\<rparr>, cw_held = [(?c, 0)],
      cw_issued = [SerialWrite], cw_killed = {}\<rparr> :: cap_world"
  let ?w2 = "?w1\<lparr>cw_held := [(?c, 0), (?c, 0)]\<rparr>"
  let ?w3 = "\<lparr>cw_state = \<lparr>cs_next = 2, cs_revoked = {}\<rparr>, cw_held = [(?c, 0), (?c, 0), (?d, 1)],
      cw_issued = [SerialWrite, TimerRead], cw_killed = {}\<rparr> :: cap_world"
  have "cap_reach 1 ?w1"
    using cap_reach.issue [OF cap_reach.init, of SerialWrite]
    by (simp add: cap_issue_def cap_world_init_def cap_init_def)
  then have "cap_reach 2 ?w2"
    using cap_reach.derive [of 1 ?w1 ?c 0] by (simp add: cap_derive_def numeral_2_eq_2)
  then have "cap_reach 3 ?w3"
    using cap_reach.issue [of 2 ?w2 TimerRead] by (simp add: cap_issue_def)
  then show ?thesis
    using cap_reach.revoke [of 3 ?w3 ?c 0] by (simp add: cap_revoke_def cap_demo_def)
qed

theorem revocation_exact_witness:
  "is_revoked (cw_state cap_demo) \<lparr>cap_id = 0, cap_right = SerialWrite\<rparr> \<and>
   \<not> is_revoked (cw_state cap_demo) \<lparr>cap_id = 1, cap_right = TimerRead\<rparr>"
  using revocation_exact [OF cap_demo_reach, of "\<lparr>cap_id = 0, cap_right = SerialWrite\<rparr>" 0]
    revocation_exact [OF cap_demo_reach, of "\<lparr>cap_id = 1, cap_right = TimerRead\<rparr>" 1]
  by (simp add: cap_demo_def)

section \<open>Realm profiles\<close>

record realm_profile =
  rp_name :: bytes
  rp_kind :: u64
  rp_capabilities :: u64

definition allows :: "realm_profile \<Rightarrow> u64 \<Rightarrow> bool" where
  "allows p r \<longleftrightarrow> rp_capabilities p AND r = r"

definition HOME :: realm_profile where
  "HOME = \<lparr>rp_name = ascii ''Home Realm'', rp_kind = KIND_HOME,
     rp_capabilities = CAP_SERIAL_WRITE OR CAP_TIMER_READ OR CAP_FILE_READ OR CAP_IPC_CREATE OR
       CAP_IPC_CONNECT OR CAP_SURFACE_CREATE OR CAP_INPUT_READ\<rparr>"

definition GAMING :: realm_profile where
  "GAMING = \<lparr>rp_name = ascii ''Gaming Realm'', rp_kind = KIND_GAMING,
     rp_capabilities = CAP_SERIAL_WRITE OR CAP_TIMER_READ OR CAP_FILE_READ OR CAP_SURFACE_CREATE OR
       CAP_INPUT_READ OR CAP_EXCLUSIVE_SCANOUT\<rparr>"

definition VAULT :: realm_profile where
  "VAULT = \<lparr>rp_name = ascii ''Vault Realm'', rp_kind = KIND_VAULT,
     rp_capabilities = CAP_TIMER_READ OR CAP_FILE_READ OR CAP_FILE_WRITE OR CAP_SURFACE_CREATE\<rparr>"

definition SYSTEM :: realm_profile where
  "SYSTEM = \<lparr>rp_name = ascii ''System Realm'', rp_kind = KIND_SYSTEM, rp_capabilities = - 1\<rparr>"

text \<open>The rights of a mask, as a set of bits: \<^const>\<open>allows\<close> is inclusion.\<close>

lemma and_eq_iff_bits: "(a :: 'a::len word) AND b = b \<longleftrightarrow> (\<forall>n. bit b n \<longrightarrow> bit a n)"
  by (auto simp: bit_eq_iff bit_and_iff dest: bit_imp_le_length)

lemma allows_bits: "allows p r \<longleftrightarrow> (\<forall>n. bit r n \<longrightarrow> bit (rp_capabilities p) n)"
  by (simp add: allows_def and_eq_iff_bits)

lemma allows_or: "allows p (a OR b) \<longleftrightarrow> allows p a \<and> allows p b"
  by (auto simp: allows_bits bit_or_iff)

lemma allows_and_mask:
  "allows (p\<lparr>rp_capabilities := rp_capabilities p AND m\<rparr>) r \<longleftrightarrow>
   allows p r \<and> m AND r = r"
  by (auto simp: allows_bits and_eq_iff_bits bit_and_iff)

lemmas realm_defs = HOME_def GAMING_def VAULT_def SYSTEM_def

section \<open>The demonstration task\<close>

text \<open>
  \<^verbatim>\<open>RealmContext\<close> and \<^verbatim>\<open>realm_task_entry\<close>. The task runs three rounds and yields after each;
  other tasks run in between, so each round sees the capability state and the tick counter of
  its own moment. What a round does is the list of its effects.
\<close>

record realm_context =
  rc_name :: bytes
  rc_serial_cap :: "capability option"
  rc_timer_cap :: "capability option"

datatype realm_effect =
    Wrote nat
  | WriteRejected nat
  | NoSerialRight nat
  | ReadTicks nat u64
  | TicksRejected nat
  | NoTimerRight nat
  | YieldNow
  | ExitTask

definition realm_round :: "realm_context \<Rightarrow> nat \<Rightarrow> cap_state \<Rightarrow> u64 \<Rightarrow> realm_effect list" where
  "realm_round ctx i s ticks =
     [(case rc_serial_cap ctx of
         Some c \<Rightarrow> (case fst (write_with_capability s c [] []) of Ok _ \<Rightarrow> Wrote i | _ \<Rightarrow> WriteRejected i)
       | None \<Rightarrow> NoSerialRight i),
      (case rc_timer_cap ctx of
         Some c \<Rightarrow> (case ticks_with_capability s ticks c of Ok t \<Rightarrow> ReadTicks i t | _ \<Rightarrow> TicksRejected i)
       | None \<Rightarrow> NoTimerRight i),
      YieldNow]"

definition realm_task_entry :: "realm_context \<Rightarrow> (nat \<Rightarrow> cap_state) \<Rightarrow> (nat \<Rightarrow> u64) \<Rightarrow> realm_effect list" where
  "realm_task_entry ctx s ticks = concat (map (\<lambda>i. realm_round ctx i (s i) (ticks i)) [0..<3]) @ [ExitTask]"

lemma realm_task_effects:
  "Wrote i \<in> set (realm_task_entry ctx s ticks) \<longleftrightarrow>
     i < 3 \<and> (\<exists>c. rc_serial_cap ctx = Some c \<and> \<not> is_revoked (s i) c)"
  "ReadTicks i t \<in> set (realm_task_entry ctx s ticks) \<longleftrightarrow>
     i < 3 \<and> (\<exists>c. rc_timer_cap ctx = Some c \<and> \<not> is_revoked (s i) c \<and> t = ticks i)"
  by (auto simp: realm_task_entry_def realm_round_def write_with_capability_def
      ticks_with_capability_def split: option.splits if_splits)

end
