(* ===== verification/Sha256.thy ===== *)
theory Sha256
  imports Prelude
begin

text \<open>
  The incremental SHA-256 of \<^verbatim>\<open>kernel/src/security/sha256.rs\<close>: the compression function, the
  buffered \<^verbatim>\<open>update\<close>, the padding loop of \<^verbatim>\<open>finish\<close>, the digest comparison. The lemmas relate the
  incremental computation to the one-shot reference that splits the padded message into
  64-byte blocks.
\<close>

definition H0 :: "u32 list" where
  "H0 = [0x6a09e667, 0xbb67ae85, 0x3c6ef372, 0xa54ff53a,
         0x510e527f, 0x9b05688c, 0x1f83d9ab, 0x5be0cd19]"

definition K :: "u32 list" where
  "K = concat [
    [0x428a2f98, 0x71374491, 0xb5c0fbcf, 0xe9b5dba5, 0x3956c25b, 0x59f111f1, 0x923f82a4, 0xab1c5ed5],
    [0xd807aa98, 0x12835b01, 0x243185be, 0x550c7dc3, 0x72be5d74, 0x80deb1fe, 0x9bdc06a7, 0xc19bf174],
    [0xe49b69c1, 0xefbe4786, 0x0fc19dc6, 0x240ca1cc, 0x2de92c6f, 0x4a7484aa, 0x5cb0a9dc, 0x76f988da],
    [0x983e5152, 0xa831c66d, 0xb00327c8, 0xbf597fc7, 0xc6e00bf3, 0xd5a79147, 0x06ca6351, 0x14292967],
    [0x27b70a85, 0x2e1b2138, 0x4d2c6dfc, 0x53380d13, 0x650a7354, 0x766a0abb, 0x81c2c92e, 0x92722c85],
    [0xa2bfe8a1, 0xa81a664b, 0xc24b8b70, 0xc76c51a3, 0xd192e819, 0xd6990624, 0xf40e3585, 0x106aa070],
    [0x19a4c116, 0x1e376c08, 0x2748774c, 0x34b0bcb5, 0x391c0cb3, 0x4ed8aa4a, 0x5b9cca4f, 0x682e6ff3],
    [0x748f82ee, 0x78a5636f, 0x84c87814, 0x8cc70208, 0x90befffa, 0xa4506ceb, 0xbef9a3f7, 0xc67178f2]]"

record sha256 =
  sh_state :: "u32 list"
  sh_buffer :: bytes
  sh_buffered :: nat
  sh_length_bits :: u64

definition sha_new :: sha256 where
  "sha_new = \<lparr>sh_state = H0, sh_buffer = replicate 64 0, sh_buffered = 0, sh_length_bits = 0\<rparr>"

text \<open>\<^verbatim>\<open>u32::from_be_bytes\<close> and \<^verbatim>\<open>u32::to_be_bytes\<close>.\<close>

definition u32_from_be :: "bytes \<Rightarrow> u32" where
  "u32_from_be bs = of_nat (be_nat bs)"

definition u32_to_be :: "u32 \<Rightarrow> bytes" where
  "u32_to_be w = be_bytes 4 (unat w)"

definition u64_to_be :: "u64 \<Rightarrow> bytes" where
  "u64_to_be w = be_bytes 8 (unat w)"

text \<open>The first sixteen words of the message schedule, and the loop that extends it to 64.\<close>

definition schedule_start :: "bytes \<Rightarrow> u32 list" where
  "schedule_start block = map (\<lambda>i. u32_from_be (take 4 (drop (i * 4) block))) [0..<16]"

definition schedule_word :: "u32 list \<Rightarrow> nat \<Rightarrow> u32" where
  "schedule_word w i =
     (let s0 = word_rotr 7 (w ! (i - 15)) XOR word_rotr 18 (w ! (i - 15)) XOR drop_bit 3 (w ! (i - 15));
          s1 = word_rotr 17 (w ! (i - 2)) XOR word_rotr 19 (w ! (i - 2)) XOR drop_bit 10 (w ! (i - 2))
      in w ! (i - 16) + s0 + w ! (i - 7) + s1)"

definition schedule :: "bytes \<Rightarrow> u32 list" where
  "schedule block = fold (\<lambda>i w. w @ [schedule_word w i]) [16..<64] (schedule_start block)"

definition sha_round :: "u32 list \<Rightarrow> nat \<Rightarrow> u32 list \<Rightarrow> u32 list" where
  "sha_round w i v =
     (let s1 = word_rotr 6 (v ! 4) XOR word_rotr 11 (v ! 4) XOR word_rotr 25 (v ! 4);
          ch = (v ! 4 AND v ! 5) XOR (NOT (v ! 4) AND v ! 6);
          temp1 = v ! 7 + s1 + ch + K ! i + w ! i;
          s0 = word_rotr 2 (v ! 0) XOR word_rotr 13 (v ! 0) XOR word_rotr 22 (v ! 0);
          maj = (v ! 0 AND v ! 1) XOR (v ! 0 AND v ! 2) XOR (v ! 1 AND v ! 2);
          temp2 = s0 + maj
      in [temp1 + temp2, v ! 0, v ! 1, v ! 2, v ! 3 + temp1, v ! 4, v ! 5, v ! 6])"

definition compress :: "u32 list \<Rightarrow> bytes \<Rightarrow> u32 list" where
  "compress st block =
     (let w = schedule block; v = fold (sha_round w) [0..<64] st
      in map2 (+) st v)"

text \<open>The loop of \<^verbatim>\<open>update\<close> over whole blocks: the new chaining state and the unconsumed rest.\<close>

function absorb_blocks :: "u32 list \<Rightarrow> bytes \<Rightarrow> u32 list \<times> bytes" where
  "absorb_blocks st data =
     (if 64 \<le> length data then absorb_blocks (compress st (take 64 data)) (drop 64 data)
      else (st, data))"
  by pat_completeness auto
termination
  by (relation "measure (\<lambda>(st, data). length data)") auto

declare absorb_blocks.simps [simp del]

definition sha_update :: "sha256 \<Rightarrow> bytes \<Rightarrow> sha256" where
  "sha_update h data =
     (let h1 = h\<lparr>sh_length_bits := sh_length_bits h + of_nat (length data) * 8\<rparr>;
          (h2, rest) =
            (if sh_buffered h1 > 0 then
               (let want = min (64 - sh_buffered h1) (length data);
                    buf = take (sh_buffered h1) (sh_buffer h1) @ take want data @
                          drop (sh_buffered h1 + want) (sh_buffer h1);
                    n = sh_buffered h1 + want
                in (if n = 64
                    then h1\<lparr>sh_buffer := buf, sh_state := compress (sh_state h1) buf, sh_buffered := 0\<rparr>
                    else h1\<lparr>sh_buffer := buf, sh_buffered := n\<rparr>,
                    drop want data))
             else (h1, data));
          (st, tail) = absorb_blocks (sh_state h2) rest
      in if tail \<noteq> []
         then h2\<lparr>sh_state := st,
                sh_buffer := tail @ drop (length tail) (sh_buffer h2),
                sh_buffered := length tail\<rparr>
         else h2\<lparr>sh_state := st\<rparr>)"

definition update_without_length :: "sha256 \<Rightarrow> bytes \<Rightarrow> sha256" where
  "update_without_length h data = (sha_update h data)\<lparr>sh_length_bits := sh_length_bits h\<rparr>"

text \<open>The padding loop; not returning is \<^const>\<open>None\<close>.\<close>

partial_function (option) pad_zeroes :: "sha256 \<Rightarrow> sha256 option" where
  "pad_zeroes h =
     (if sh_buffered h \<noteq> 56 then pad_zeroes (update_without_length h [0]) else Some h)"

definition finish :: "sha256 \<Rightarrow> bytes option" where
  "finish h =
     (case pad_zeroes (update_without_length h [0x80]) of
        None \<Rightarrow> None
      | Some p \<Rightarrow>
          (let q = update_without_length p (u64_to_be (sh_length_bits h))
           in Some (concat (map u32_to_be (sh_state q)))))"

definition digest :: "bytes \<Rightarrow> bytes option" where
  "digest data = finish (sha_update sha_new data)"

definition digests_equal :: "bytes \<Rightarrow> bytes \<Rightarrow> bool" where
  "digests_equal a b = (fold (\<lambda>i d. d OR (a ! i XOR b ! i)) [0..<32] 0 = 0)"

definition expected_abc :: bytes where
  "expected_abc = concat [
    [0xba, 0x78, 0x16, 0xbf, 0x8f, 0x01, 0xcf, 0xea],
    [0x41, 0x41, 0x40, 0xde, 0x5d, 0xae, 0x22, 0x23],
    [0xb0, 0x03, 0x61, 0xa3, 0x96, 0x17, 0x7a, 0x9c],
    [0xb4, 0x10, 0xff, 0x61, 0xf2, 0x00, 0x15, 0xad]]"

definition expected_empty :: bytes where
  "expected_empty = concat [
    [0xe3, 0xb0, 0xc4, 0x42, 0x98, 0xfc, 0x1c, 0x14],
    [0x9a, 0xfb, 0xf4, 0xc8, 0x99, 0x6f, 0xb9, 0x24],
    [0x27, 0xae, 0x41, 0xe4, 0x64, 0x9b, 0x93, 0x4c],
    [0xa4, 0x95, 0x99, 0x1b, 0x78, 0x52, 0xb8, 0x55]]"

definition expected_two_block :: bytes where
  "expected_two_block = concat [
    [0x24, 0x8d, 0x6a, 0x61, 0xd2, 0x06, 0x38, 0xb8],
    [0xe5, 0xc0, 0x26, 0x93, 0x0c, 0x3e, 0x60, 0x39],
    [0xa3, 0x3c, 0xe4, 0x59, 0x64, 0xff, 0x21, 0x67],
    [0xf6, 0xec, 0xed, 0xd4, 0x19, 0xdb, 0x06, 0xc1]]"

definition selftest_vectors :: "bool option" where
  "selftest_vectors =
     (case (digest (ascii ''abc''), digest [],
            digest (ascii ''abcdbcdecdefdefgefghfghighijhijkijkljklmklmnlmnomnopnopq'')) of
        (Some abc, Some nothing, Some two_block) \<Rightarrow>
          Some (digests_equal abc expected_abc \<and> digests_equal nothing expected_empty \<and>
                digests_equal two_block expected_two_block)
      | _ \<Rightarrow> None)"

section \<open>Whole blocks\<close>

lemma absorb_short: "length data < 64 \<Longrightarrow> absorb_blocks st data = (st, data)"
  by (subst absorb_blocks.simps) simp

lemma absorb_long:
  "64 \<le> length data \<Longrightarrow>
   absorb_blocks st data = absorb_blocks (compress st (take 64 data)) (drop 64 data)"
  by (subst absorb_blocks.simps) simp

lemma absorb_append:
  "absorb_blocks st (m @ d) = (case absorb_blocks st m of (s, r) \<Rightarrow> absorb_blocks s (r @ d))"
proof (induction st m rule: absorb_blocks.induct)
  case (1 st m)
  show ?case
  proof (cases "64 \<le> length m")
    case True
    then show ?thesis using 1 by (simp add: absorb_long)
  next
    case False
    then show ?thesis by (simp add: absorb_short)
  qed
qed

lemma absorb_rest: "snd (absorb_blocks st m) = drop (64 * (length m div 64)) m"
proof (induction st m rule: absorb_blocks.induct)
  case (1 st m)
  show ?case
  proof (cases "64 \<le> length m")
    case True
    then have "64 + 64 * ((length m - 64) div 64) = 64 * (length m div 64)"
      by (simp add: le_div_geq)
    then show ?thesis using 1 True by (simp add: absorb_long add.commute)
  next
    case False
    then show ?thesis by (simp add: absorb_short)
  qed
qed

lemma length_absorb_rest: "length (snd (absorb_blocks st m)) = length m mod 64"
  by (simp add: absorb_rest minus_mult_div_eq_mod)

section \<open>The incremental state\<close>

text \<open>\<open>holds h m\<close>: the hasher has consumed the message \<open>m\<close>, its length count aside.\<close>

definition holds :: "sha256 \<Rightarrow> bytes \<Rightarrow> bool" where
  "holds h m \<longleftrightarrow>
     length (sh_buffer h) = 64 \<and> sh_buffered h < 64 \<and>
     absorb_blocks H0 m = (sh_state h, take (sh_buffered h) (sh_buffer h))"

lemma holds_new: "holds sha_new []"
  by (simp add: holds_def sha_new_def absorb_short)

lemma holds_buffered:
  assumes "holds h m"
  shows "sh_buffered h = length m mod 64"
proof -
  have "length (snd (absorb_blocks H0 m)) = sh_buffered h"
    using assms by (simp add: holds_def)
  then show ?thesis by (simp add: length_absorb_rest)
qed

lemma update_fill:
  assumes "length buf = 64" "n < 64" "0 < n" "64 \<le> n + length d"
  shows "absorb_blocks st (take n buf @ d) =
    absorb_blocks (compress st (take n buf @ take (64 - n) d)) (drop (64 - n) d)"
  using assms by (subst absorb_long) simp_all

lemma holds_finish_update:
  assumes "absorb_blocks H0 m = absorb_blocks (sh_state h) rest" "length (sh_buffer h) = 64"
    "sh_buffered h = 0"
    "absorb_blocks (sh_state h) rest = (st, tail)"
  shows "holds (if tail \<noteq> []
         then h\<lparr>sh_state := st, sh_buffer := tail @ drop (length tail) (sh_buffer h),
                sh_buffered := length tail\<rparr>
         else h\<lparr>sh_state := st\<rparr>) m"
proof -
  have "length tail < 64"
    using length_absorb_rest [of "sh_state h" rest] assms(4) by simp
  then show ?thesis using assms by (auto simp: holds_def)
qed

lemma holds_update_sub:
  assumes h: "holds h m"
  shows "holds (sha_update h d) (m @ d)"
proof -
  let ?n = "sh_buffered h" and ?buf = "sh_buffer h" and ?st = "sh_state h"
  let ?l = "sh_length_bits h + of_nat (length d) * 8"
  have len: "length ?buf = 64" "?n < 64" using h by (auto simp: holds_def)
  have ab: "absorb_blocks H0 (m @ d) = absorb_blocks ?st (take ?n ?buf @ d)"
    using h by (subst absorb_append) (simp add: holds_def)
  consider (aligned) "?n = 0" | (fill) "0 < ?n" "64 \<le> ?n + length d" | (part) "0 < ?n" "?n + length d < 64"
    by linarith
  then show ?thesis
  proof cases
    case aligned
    obtain st tail where a: "absorb_blocks ?st d = (st, tail)" by force
    show ?thesis
      using holds_finish_update [of "m @ d" "h\<lparr>sh_length_bits := ?l\<rparr>" d st tail] aligned ab len a
      by (simp add: sha_update_def Let_def)
  next
    case fill
    define blk where "blk = take ?n ?buf @ take (64 - ?n) d"
    define h2 where
      "h2 = h\<lparr>sh_length_bits := ?l, sh_buffer := blk, sh_state := compress ?st blk, sh_buffered := 0\<rparr>"
    have want: "min (64 - ?n) (length d) = 64 - ?n" using fill len by simp
    obtain st tail where a: "absorb_blocks (compress ?st blk) (drop (64 - ?n) d) = (st, tail)" by force
    have upd: "sha_update h d =
      (if tail \<noteq> []
       then h2\<lparr>sh_state := st, sh_buffer := tail @ drop (length tail) (sh_buffer h2),
              sh_buffered := length tail\<rparr>
       else h2\<lparr>sh_state := st\<rparr>)"
      using fill len a unfolding h2_def blk_def by (simp add: sha_update_def Let_def want)
    show ?thesis
      unfolding upd
      using update_fill [OF len fill, of ?st] ab a fill len
      by (intro holds_finish_update [of _ _ "drop (64 - ?n) d"]) (simp_all add: h2_def blk_def)
  next
    case part
    then have want: "min (64 - ?n) (length d) = length d" by simp
    have "absorb_blocks ?st (take ?n ?buf @ d) = (?st, take ?n ?buf @ d)"
      using part len by (intro absorb_short) simp
    then show ?thesis
      using part ab len by (simp add: sha_update_def Let_def want holds_def absorb_short)
  qed
qed

lemma length_bits_update [simp]:
  "sh_length_bits (sha_update h d) = sh_length_bits h + of_nat (length d) * 8"
  by (simp add: sha_update_def Let_def split: prod.splits)

lemma holds_length_irrelevant [simp]: "holds (h\<lparr>sh_length_bits := l\<rparr>) m = holds h m"
  by (simp add: holds_def)

lemma holds_update_without_length:
  "holds h m \<Longrightarrow> holds (update_without_length h d) (m @ d)"
  by (simp add: update_without_length_def holds_update_sub)

lemma length_bits_update_without_length [simp]:
  "sh_length_bits (update_without_length h d) = sh_length_bits h"
  by (simp add: update_without_length_def)

section \<open>Padding\<close>

lemma pad_count:
  "(b :: nat) < 64 \<Longrightarrow> (120 - b) mod 64 = (if b \<le> 56 then 56 - b else 120 - b)"
  by (simp add: le_mod_geq)

lemma pad_count':
  "(b :: nat) < 64 \<Longrightarrow> (119 - b) mod 64 = (if b \<le> 55 then 55 - b else 119 - b)"
  by (simp add: le_mod_geq)

lemma Suc_mod_64: "(b :: nat) < 64 \<Longrightarrow> Suc b mod 64 = (if b = 63 then 0 else Suc b)"
  by auto

lemma pad_zeroes_returns:
  assumes "holds h m" "z = (120 - sh_buffered h) mod 64"
  shows "\<exists>p. pad_zeroes h = Some p \<and> holds p (m @ replicate z 0)"
  using assms
proof (induction z arbitrary: h m)
  case 0
  have "sh_buffered h < 64" using 0 by (simp add: holds_def)
  with 0 have "sh_buffered h = 56" by (simp add: pad_count split: if_splits)
  with 0 show ?case by (simp add: pad_zeroes.simps)
next
  case (Suc z)
  let ?h = "update_without_length h [0]"
  have lt: "sh_buffered h < 64" using Suc.prems by (simp add: holds_def)
  have H: "holds ?h (m @ [0])" using Suc.prems(1) by (rule holds_update_without_length)
  have "sh_buffered ?h = (sh_buffered h + 1) mod 64"
    using holds_buffered [OF H] holds_buffered [OF Suc.prems(1)] by (simp add: mod_simps)
  with lt Suc.prems(2) have "z = (120 - sh_buffered ?h) mod 64"
    by (auto simp: pad_count Suc_mod_64 split: if_splits)
  from Suc.IH [OF H this] obtain p
    where p: "pad_zeroes ?h = Some p" "holds p (m @ [0] @ replicate z 0)" by auto
  have "sh_buffered h \<noteq> 56" using Suc.prems(2) by auto
  with p(1) have "pad_zeroes h = Some p" by (simp add: pad_zeroes.simps [of h])
  with p(2) show ?case by simp
qed

text \<open>The reference: FIPS 180-4 padding, then the compression of every 64-byte block in turn.\<close>

definition sha_pad :: "bytes \<Rightarrow> bytes" where
  "sha_pad m = m @ [0x80] @ replicate ((119 - length m mod 64) mod 64) 0 @
     u64_to_be (of_nat (8 * length m))"

definition sha256_ref :: "bytes \<Rightarrow> bytes" where
  "sha256_ref m = concat (map u32_to_be (fst (absorb_blocks H0 (sha_pad m))))"

lemma length_u64_to_be [simp]: "length (u64_to_be w) = 8"
  by (simp add: u64_to_be_def)

lemma sha_pad_blocks: "length (sha_pad m) mod 64 = 0"
proof -
  let ?L = "length m mod 64" and ?z = "(119 - length m mod 64) mod 64"
  have "?L + (9 + ?z) = 64 \<or> ?L + (9 + ?z) = 128"
    using pad_count' [of ?L] by (auto split: if_splits)
  then have "(?L + (9 + ?z)) mod 64 = 0"
  proof (elim disjE)
    assume e: "?L + (9 + ?z) = 64"
    show ?thesis unfolding e by simp
  next
    assume e: "?L + (9 + ?z) = 128"
    show ?thesis unfolding e by simp
  qed
  then have "(length m + (9 + ?z)) mod 64 = 0" by (simp only: mod_add_left_eq)
  then show ?thesis by (simp add: sha_pad_def add.commute add.left_commute)
qed

lemma finish_ref:
  assumes h: "holds h m" and l: "sh_length_bits h = of_nat (8 * length m)"
  shows "finish h = Some (sha256_ref m)"
proof -
  let ?h = "update_without_length h [0x80]"
  have H: "holds ?h (m @ [0x80])" using h by (rule holds_update_without_length)
  have "(120 - sh_buffered ?h) mod 64 = (119 - length m mod 64) mod 64"
    using holds_buffered [OF H] Suc_mod_64 [of "length m mod 64"]
      pad_count' [of "length m mod 64"] pad_count [of "sh_buffered ?h"]
    by (auto simp: mod_Suc_eq split: if_splits)
  then obtain p where p: "pad_zeroes ?h = Some p"
    "holds p ((m @ [0x80]) @ replicate ((119 - length m mod 64) mod 64) 0)"
    using pad_zeroes_returns [OF H] by metis
  let ?q = "update_without_length p (u64_to_be (sh_length_bits h))"
  have "holds ?q (sha_pad m)"
    using holds_update_without_length [OF p(2), of "u64_to_be (sh_length_bits h)"]
    by (simp add: sha_pad_def l)
  then have "fst (absorb_blocks H0 (sha_pad m)) = sh_state ?q"
    by (simp add: holds_def)
  then show ?thesis by (simp add: finish_def p(1) sha256_ref_def Let_def)
qed

lemma updates_hold:
  "holds h m \<Longrightarrow> sh_length_bits h = of_nat (8 * length m) \<Longrightarrow>
   holds (foldl sha_update h chunks) (m @ concat chunks) \<and>
   sh_length_bits (foldl sha_update h chunks) = of_nat (8 * length (m @ concat chunks))"
proof (induction chunks arbitrary: h m)
  case Nil
  then show ?case by simp
next
  case (Cons c cs)
  have "sh_length_bits (sha_update h c) = of_nat (8 * length (m @ c))"
    using Cons.prems(2) by (simp add: algebra_simps)
  then show ?case
    using Cons.IH [OF holds_update_sub [OF Cons.prems(1)]] by simp
qed

lemma finish_chunks: "finish (foldl sha_update sha_new chunks) = Some (sha256_ref (concat chunks))"
proof -
  have "sh_length_bits sha_new = of_nat (8 * length ([] :: bytes))" by (simp add: sha_new_def)
  from updates_hold [OF holds_new this, of chunks] show ?thesis
    by (intro finish_ref) simp_all
qed

lemma digest_ref: "digest m = Some (sha256_ref m)"
  using finish_chunks [of "[m]"] by (simp add: digest_def)

lemma length_compress [simp]: "length st = 8 \<Longrightarrow> length (compress st block) = 8"
proof -
  assume st: "length st = 8"
  have "length v = 8 \<Longrightarrow> length (fold (sha_round w) xs v) = 8" for w xs v
    by (induction xs arbitrary: v) (simp_all add: sha_round_def Let_def)
  with st show ?thesis by (simp add: compress_def Let_def)
qed

lemma length_absorb_state: "length st = 8 \<Longrightarrow> length (fst (absorb_blocks st m)) = 8"
proof (induction st m rule: absorb_blocks.induct)
  case (1 st m)
  then show ?case by (subst absorb_blocks.simps) simp
qed

lemma length_sha256_ref [simp]: "length (sha256_ref m) = 32"
proof -
  have "length (concat (map u32_to_be ws)) = 4 * length ws" for ws
    by (induction ws) (simp_all add: u32_to_be_def)
  moreover have "length (fst (absorb_blocks H0 (sha_pad m))) = 8"
    by (intro length_absorb_state) (simp add: H0_def)
  ultimately show ?thesis by (simp add: sha256_ref_def)
qed

section \<open>Comparison\<close>

lemma fold_or_zero:
  "fold (\<lambda>i d. d OR (a ! i XOR b ! i)) xs c = (0 :: u8) \<longleftrightarrow>
   c = 0 \<and> (\<forall>i \<in> set xs. a ! i = b ! i)"
proof (induction xs arbitrary: c)
  case Nil
  then show ?case by simp
next
  case (Cons x xs)
  have "u XOR v = 0 \<longleftrightarrow> u = v" for u v :: u8
    by (auto simp: bit_eq_iff bit_xor_iff)
  then have "c OR (a ! x XOR b ! x) = 0 \<longleftrightarrow> c = 0 \<and> a ! x = b ! x"
    by (simp add: or_eq_0_iff)
  with Cons show ?case by auto
qed

lemma digests_equal_iff:
  assumes "length a = 32" "length b = 32"
  shows "digests_equal a b \<longleftrightarrow> a = b"
proof -
  have "digests_equal a b \<longleftrightarrow> (\<forall>i \<in> set [0..<32]. a ! i = b ! i)"
    by (simp add: digests_equal_def fold_or_zero)
  also have "\<dots> \<longleftrightarrow> a = b" using assms by (auto simp: list_eq_iff_nth_eq)
  finally show ?thesis .
qed

section \<open>Properties\<close>


text \<open>
  The branch-free digest comparison, which accumulates the differences of all 32 bytes, is
  exactly equality of the digests.
\<close>
theorem digests_equal_exact:
  assumes "length a = 32" "length b = 32"
  shows "digests_equal a b \<longleftrightarrow> a = b"
  using assms by (rule digests_equal_iff)

theorem digests_equal_exact_witness:
  "\<not> digests_equal expected_abc expected_empty"
proof -
  have "length expected_abc = 32" "length expected_empty = 32"
    by (simp_all add: expected_abc_def expected_empty_def)
  then show ?thesis
    using digests_equal_exact [of expected_abc expected_empty]
    by (simp add: expected_abc_def expected_empty_def)
qed

lemma selftest_vectors_eq:
  "selftest_vectors =
     Some (sha256_ref (ascii ''abc'') = expected_abc \<and> sha256_ref [] = expected_empty \<and>
       sha256_ref (ascii ''abcdbcdecdefdefgefghfghighijhijkijkljklmklmnlmnomnopnopq'') =
         expected_two_block)"
proof -
  have "length expected_abc = 32" "length expected_empty = 32" "length expected_two_block = 32"
    by (simp_all add: expected_abc_def expected_empty_def expected_two_block_def)
  then show ?thesis by (simp add: selftest_vectors_def digest_ref digests_equal_iff)
qed

end
