(* ===== verification/Store.thy ===== *)
theory Store
  imports FileSystem Realm Sha256
begin

text \<open>
  The package store of \<^verbatim>\<open>kernel/src/store.rs\<close>: parsing a manifest, checking a package's digest,
  deciding the Realm it runs in, and scanning a directory for packages.
\<close>

section \<open>Manifests\<close>

record manifest =
  mf_id :: bytes
  mf_name :: bytes
  mf_version :: bytes
  mf_publisher :: bytes
  mf_entry :: bytes
  mf_requested_realm :: u64
  mf_requested_capabilities :: u64

definition capability_bit :: "bytes \<Rightarrow> u64 option" where
  "capability_bit name =
     (if name = ascii ''serial_write'' then Some CAP_SERIAL_WRITE
      else if name = ascii ''timer_read'' then Some CAP_TIMER_READ
      else if name = ascii ''file_read'' then Some CAP_FILE_READ
      else if name = ascii ''file_write'' then Some CAP_FILE_WRITE
      else if name = ascii ''process_spawn'' then Some CAP_PROCESS_SPAWN
      else if name = ascii ''ipc_create'' then Some CAP_IPC_CREATE
      else if name = ascii ''ipc_connect'' then Some CAP_IPC_CONNECT
      else if name = ascii ''surface_create'' then Some CAP_SURFACE_CREATE
      else if name = ascii ''input_read'' then Some CAP_INPUT_READ
      else if name = ascii ''exclusive_scanout'' then Some CAP_EXCLUSIVE_SCANOUT
      else None)"

definition empty_manifest :: manifest where
  "empty_manifest =
     \<lparr>mf_id = [], mf_name = [], mf_version = [], mf_publisher = [], mf_entry = [],
      mf_requested_realm = KIND_HOME, mf_requested_capabilities = 0\<rparr>"

definition requested_realm_of :: "bytes \<Rightarrow> u64" where
  "requested_realm_of value =
     (if value = ascii ''gaming'' then KIND_GAMING
      else if value = ascii ''vault'' then KIND_VAULT
      else KIND_HOME)"

text \<open>The \<^verbatim>\<open>match key\<close> of the parser.\<close>

definition manifest_field :: "bytes \<Rightarrow> bytes \<Rightarrow> manifest \<Rightarrow> manifest" where
  "manifest_field key value m =
     (if key = ascii ''id'' then m\<lparr>mf_id := value\<rparr>
      else if key = ascii ''name'' then m\<lparr>mf_name := value\<rparr>
      else if key = ascii ''version'' then m\<lparr>mf_version := value\<rparr>
      else if key = ascii ''publisher'' then m\<lparr>mf_publisher := value\<rparr>
      else if key = ascii ''entry'' then m\<lparr>mf_entry := value\<rparr>
      else if key = ascii ''realm'' then m\<lparr>mf_requested_realm := requested_realm_of value\<rparr>
      else if key = ascii ''capability'' then
        (case capability_bit value of
           Some b \<Rightarrow> m\<lparr>mf_requested_capabilities := mf_requested_capabilities m OR b\<rparr>
         | None \<Rightarrow> m)
      else m)"

definition manifest_line :: "bytes \<Rightarrow> manifest \<Rightarrow> manifest" where
  "manifest_line raw m =
     (let line = trim raw in
      if line = [] \<or> starts_with line (ascii ''#'') then m
      else (case split_once line 0x3D of
              None \<Rightarrow> m
            | Some (key, value) \<Rightarrow> manifest_field (trim key) (trim value) m))"

definition manifest_parse :: "bytes \<Rightarrow> manifest option" where
  "manifest_parse txt =
     (let m = fold manifest_line (lines txt) empty_manifest
      in if mf_id m = [] \<or> mf_entry m = [] then None else Some m)"

section \<open>Verdicts\<close>

datatype signature_status = Absent | Unverified | Verified

record verdict =
  vd_manifest :: manifest
  vd_integrity_ok :: bool
  vd_signature :: signature_status
  vd_granted_realm :: realm_profile
  vd_request_denied :: bool

datatype store_error =
    StoreTooSmall
  | StoreBadMagic
  | StoreUnsupportedVersion u32
  | StoreMalformed string
  | StoreBadManifest

definition PKG_MAGIC :: bytes where
  "PKG_MAGIC = ascii ''NAJMPKG'' @ [0]"

definition PKG_VERSION :: u32 where
  "PKG_VERSION = 1"

definition PKG_HEADER_SIZE :: nat where
  "PKG_HEADER_SIZE = 48"

definition verify_signature :: "bytes \<Rightarrow> manifest \<Rightarrow> signature_status" where
  "verify_signature bytes m = Absent"

definition granted_for :: "signature_status \<Rightarrow> u64 \<Rightarrow> realm_profile" where
  "granted_for sig requested =
     (case sig of
        Verified \<Rightarrow> (if requested = KIND_VAULT then VAULT
                     else if requested = KIND_GAMING then GAMING
                     else HOME)
      | _ \<Rightarrow> HOME)"

text \<open>
  A digest that never came back would be a call that never returns; \<^const>\<open>Panic\<close> stands for that
  too, and neither happens (\<open>verify_not_Panic\<close>).
\<close>

definition verify :: "bytes \<Rightarrow> (store_error, verdict) outcome" where
  "verify bytes =
     obind (ensure (PKG_HEADER_SIZE \<le> length bytes) StoreTooSmall) (\<lambda>_.
     obind (slice bytes 0 8) (\<lambda>magic.
     obind (ensure (magic = PKG_MAGIC) StoreBadMagic) (\<lambda>_.
     obind (read_u32 bytes 8) (\<lambda>version.
     obind (ensure (version = PKG_VERSION) (StoreUnsupportedVersion version)) (\<lambda>_.
     obind (read_u32 bytes 12) (\<lambda>manifest_len.
     obind (slice bytes 16 48) (\<lambda>expected_digest.
     obind (slice bytes PKG_HEADER_SIZE (length bytes)) (\<lambda>body.
     obind (ensure (unat manifest_len \<le> length body)
             (StoreMalformed ''the manifest length extends past the end of the package'')) (\<lambda>_.
     (case digest body of
        None \<Rightarrow> Panic
      | Some actual_digest \<Rightarrow>
          (let integrity_ok = digests_equal actual_digest expected_digest in
           obind (slice body 0 (unat manifest_len)) (\<lambda>head.
           obind (ok_or (from_utf8 head) (StoreMalformed ''the manifest is not valid UTF-8''))
             (\<lambda>manifest_text.
           obind (ok_or (manifest_parse manifest_text) StoreBadManifest) (\<lambda>m.
           (let sig = verify_signature bytes m;
                granted_realm = granted_for sig (mf_requested_realm m);
                effective = (if integrity_ok then granted_realm else HOME);
                request_denied = (mf_requested_realm m \<noteq> rp_kind effective)
            in Ok \<lparr>vd_manifest = m, vd_integrity_ok = integrity_ok, vd_signature = sig,
                   vd_granted_realm = effective, vd_request_denied = request_denied\<rparr>)))))))))))))))"

definition effective_profile :: "verdict \<Rightarrow> realm_profile" where
  "effective_profile v =
     (let profile = vd_granted_realm v; req = mf_requested_capabilities (vd_manifest v)
      in if req \<noteq> 0 then profile\<lparr>rp_capabilities := rp_capabilities profile AND req\<rparr> else profile)"

definition payload :: "bytes \<Rightarrow> (store_error, bytes) outcome" where
  "payload bytes =
     obind (ensure (PKG_HEADER_SIZE \<le> length bytes) StoreTooSmall) (\<lambda>_.
     obind (read_u32 bytes 12) (\<lambda>manifest_len.
     (let start = PKG_HEADER_SIZE + unat manifest_len in
      obind (ensure (start \<le> length bytes) (StoreMalformed ''the payload starts past the end''))
        (\<lambda>_. slice bytes start (length bytes)))))"

definition compute_digest :: "bytes \<Rightarrow> bytes \<Rightarrow> bytes option" where
  "compute_digest manifest files = finish (sha_update (sha_update sha_new manifest) files)"

text \<open>\<^verbatim>\<open>scan\<close>: the verdicts of the packages of a directory, in directory order.\<close>

primrec scan_entries :: "file_system option \<Rightarrow> bytes list \<Rightarrow> (unit, verdict list) outcome" where
  "scan_entries st [] = Ok []"
| "scan_entries st (path # rest) =
     (if \<not> ends_with path (ascii ''.najm'') then scan_entries st rest
      else obind (read_all st path) (\<lambda>content.
        (case content of
           None \<Rightarrow> scan_entries st rest
         | Some bytes \<Rightarrow>
             (case verify bytes of
                Ok v \<Rightarrow> obind (scan_entries st rest) (\<lambda>vs. Ok (v # vs))
              | Err _ \<Rightarrow> scan_entries st rest
              | Panic \<Rightarrow> Panic))))"

definition scan :: "file_system option \<Rightarrow> bytes \<Rightarrow> (unit, verdict list) outcome" where
  "scan st directory =
     (case read_dir st directory of None \<Rightarrow> Ok [] | Some entries \<Rightarrow> scan_entries st entries)"

section \<open>Facts\<close>

lemma read_u32_Ok [outcome_simps]:
  "read_u32 bs at = Ok w \<longleftrightarrow> at + 4 \<le> length bs \<and> w = u32_from_le (take 4 (drop at bs))"
  by (auto simp: read_u32_def outcome_simps)

lemma compute_digest_ref: "compute_digest mf files = Some (sha256_ref (mf @ files))"
  using finish_chunks [of "[mf, files]"] by (simp add: compute_digest_def)

text \<open>What a package's header announces: the manifest's length, the digest, and the body.\<close>

definition pkg_manifest_len :: "bytes \<Rightarrow> nat" where
  "pkg_manifest_len bs = unat (u32_from_le (take 4 (drop 12 bs)))"

definition pkg_digest :: "bytes \<Rightarrow> bytes" where
  "pkg_digest bs = take 32 (drop 16 bs)"

definition pkg_body :: "bytes \<Rightarrow> bytes" where
  "pkg_body bs = drop PKG_HEADER_SIZE bs"

lemma granted_Absent [simp]:
  "granted_for Absent k = HOME" "(if ok then granted_for Absent k else HOME) = HOME"
  by (simp_all add: granted_for_def)

lemma verify_Ok_iff:
  "verify bs = Ok v \<longleftrightarrow>
     PKG_HEADER_SIZE \<le> length bs \<and> take 8 bs = PKG_MAGIC \<and>
     u32_from_le (take 4 (drop 8 bs)) = PKG_VERSION \<and>
     pkg_manifest_len bs \<le> length (pkg_body bs) \<and>
     is_utf8 (take (pkg_manifest_len bs) (pkg_body bs)) \<and>
     manifest_parse (take (pkg_manifest_len bs) (pkg_body bs)) = Some (vd_manifest v) \<and>
     v = \<lparr>vd_manifest = vd_manifest v,
          vd_integrity_ok = (sha256_ref (pkg_body bs) = pkg_digest bs),
          vd_signature = Absent, vd_granted_realm = HOME,
          vd_request_denied = (mf_requested_realm (vd_manifest v) \<noteq> KIND_HOME)\<rparr>"
  (is "?l \<longleftrightarrow> ?r")
proof (cases "PKG_HEADER_SIZE \<le> length bs")
  case True
  then have d: "digests_equal (sha256_ref (drop 48 bs)) (take 32 (drop 16 bs)) \<longleftrightarrow>
      sha256_ref (drop 48 bs) = take 32 (drop 16 bs)"
    by (intro digests_equal_iff) (simp_all add: PKG_HEADER_SIZE_def)
  have k: "rp_kind HOME = KIND_HOME" by (simp add: HOME_def)
  show ?thesis
  proof
    assume ?l
    then show ?r
      by (auto simp: verify_def outcome_simps digest_ref Let_def d k verify_signature_def
          pkg_manifest_len_def pkg_body_def pkg_digest_def from_utf8_Some PKG_HEADER_SIZE_def)
  next
    assume ?r
    then show ?l
      by (simp add: verify_def slice_def read_u32_def digest_ref Let_def d k verify_signature_def
          pkg_manifest_len_def pkg_body_def pkg_digest_def from_utf8_def PKG_HEADER_SIZE_def)
  qed
next
  case False
  then show ?thesis by (simp add: verify_def)
qed

lemma verify_not_Panic: "verify bs \<noteq> Panic"
  by (auto simp: verify_def outcome_simps digest_ref Let_def PKG_HEADER_SIZE_def)

lemma payload_not_Panic: "payload bs \<noteq> Panic"
  by (auto simp: payload_def outcome_simps Let_def PKG_HEADER_SIZE_def)

lemma read_all_total: "fs_ok st \<Longrightarrow> \<exists>content. read_all st p = Ok content"
  using fs_lookup_node_ok [of st p]
  by (auto simp: read_all_def outcome_simps fs_read_file split: option.splits)

lemma effective_profile_allows:
  "allows (effective_profile v) r \<Longrightarrow>
     allows (vd_granted_realm v) r \<and>
     (mf_requested_capabilities (vd_manifest v) \<noteq> 0 \<longrightarrow>
        mf_requested_capabilities (vd_manifest v) AND r = r)"
  by (auto simp: effective_profile_def Let_def allows_and_mask split: if_splits)

lemma scan_entries_total:
  assumes "fs_ok st"
  shows "\<exists>vs. scan_entries st paths = Ok vs \<and>
    (\<forall>v \<in> set vs. \<exists>p \<in> set paths. \<exists>bs. ends_with p (ascii ''.najm'') \<and>
       read_all st p = Ok (Some bs) \<and> verify bs = Ok v)"
proof (induction paths)
  case Nil
  then show ?case by simp
next
  case (Cons p paths)
  then obtain vs where vs: "scan_entries st paths = Ok vs"
    "\<And>v. v \<in> set vs \<Longrightarrow> \<exists>p \<in> set paths. \<exists>bs. ends_with p (ascii ''.najm'') \<and>
       read_all st p = Ok (Some bs) \<and> verify bs = Ok v" by blast
  show ?case
  proof (cases "ends_with p (ascii ''.najm'')")
    case True
    obtain content where c: "read_all st p = Ok content"
      using read_all_total [OF assms] by blast
    show ?thesis
    proof (cases "\<exists>bs v. content = Some bs \<and> verify bs = Ok v")
      case True
      then obtain bs v where "content = Some bs" "verify bs = Ok v" by blast
      with c vs \<open>ends_with p (ascii ''.najm'')\<close> show ?thesis by auto
    next
      case False
      with c vs True verify_not_Panic show ?thesis
        by (auto split: option.splits outcome.splits)
    qed
  next
    case False
    with vs show ?thesis by auto
  qed
qed

section \<open>Properties\<close>

text \<open>
  C6. A package is never placed above the Home Realm, whatever its manifest asks for and whatever
  its bytes are: an accepted package is granted \<^const>\<open>HOME\<close>, the denial is reported exactly when it
  asked for another Realm, and every right of the profile it finally runs with is a right of
  Home and, when the manifest lists rights at all, one of those it listed.
\<close>
theorem store_never_elevates:
  assumes "verify bs = Ok v"
  shows "vd_granted_realm v = HOME \<and> vd_signature v \<noteq> Verified \<and>
    (vd_request_denied v \<longleftrightarrow> mf_requested_realm (vd_manifest v) \<noteq> KIND_HOME) \<and>
    (\<forall>r. allows (effective_profile v) r \<longrightarrow>
       allows HOME r \<and>
       (mf_requested_capabilities (vd_manifest v) \<noteq> 0 \<longrightarrow>
          mf_requested_capabilities (vd_manifest v) AND r = r))"
proof -
  have "v = \<lparr>vd_manifest = vd_manifest v,
          vd_integrity_ok = (sha256_ref (pkg_body bs) = pkg_digest bs),
          vd_signature = Absent, vd_granted_realm = HOME,
          vd_request_denied = (mf_requested_realm (vd_manifest v) \<noteq> KIND_HOME)\<rparr>"
    using assms by (simp only: verify_Ok_iff)
  then have "vd_granted_realm v = HOME" "vd_signature v = Absent"
    "vd_request_denied v \<longleftrightarrow> mf_requested_realm (vd_manifest v) \<noteq> KIND_HOME"
    by (metis verdict.select_convs)+
  then show ?thesis using effective_profile_allows [of v] by auto
qed

text \<open>A manifest that asks for the Vault, and an intact package around it.\<close>

definition demo_manifest :: bytes where
  "demo_manifest = ascii ''id=a'' @ [0x0A] @ ascii ''entry=/b'' @ [0x0A] @ ascii ''realm=vault''"

definition demo_package :: bytes where
  "demo_package = PKG_MAGIC @ u32_to_le PKG_VERSION @
     u32_to_le (of_nat (length demo_manifest)) @ sha256_ref demo_manifest @ demo_manifest"

lemma manifest_parse_demo:
  "manifest_parse demo_manifest =
     Some (empty_manifest\<lparr>mf_id := ascii ''a'', mf_entry := ascii ''/b'',
           mf_requested_realm := KIND_VAULT\<rparr>)"
  by code_simp

lemma is_utf8_demo: "is_utf8 demo_manifest"
  by code_simp

lemma verify_demo:
  "verify demo_package =
     Ok \<lparr>vd_manifest = empty_manifest\<lparr>mf_id := ascii ''a'', mf_entry := ascii ''/b'',
             mf_requested_realm := KIND_VAULT\<rparr>,
         vd_integrity_ok = True, vd_signature = Absent, vd_granted_realm = HOME,
         vd_request_denied = True\<rparr>"
proof -
  have len: "length demo_manifest = 25" by (simp add: demo_manifest_def)
  have m: "length PKG_MAGIC = 8" by (simp add: PKG_MAGIC_def)
  have n: "pkg_manifest_len demo_package = 25" "pkg_body demo_package = demo_manifest"
    "pkg_digest demo_package = sha256_ref demo_manifest"
    by (simp_all add: pkg_manifest_len_def pkg_body_def pkg_digest_def demo_package_def m len
        PKG_HEADER_SIZE_def codec_simps)
  show ?thesis
    by (simp add: verify_Ok_iff n manifest_parse_demo len is_utf8_demo)
       (simp add: demo_package_def m len PKG_HEADER_SIZE_def codec_simps KIND_VAULT_def KIND_HOME_def)
qed

theorem store_never_elevates_witness:
  "\<exists>v. verify demo_package = Ok v \<and> vd_request_denied v \<and> vd_granted_realm v = HOME"
  using store_never_elevates [OF verify_demo] verify_demo by auto

text \<open>
  C7. Verification decides what it says it decides: a package is accepted for examination exactly
  when its header is well formed and its manifest, of the announced length, is UTF-8 and parses;
  and then the verdict reports integrity exactly when the SHA-256 of everything after the header
  is the digest in the header.
\<close>
theorem verify_exact:
  "verify bs = Ok v \<longleftrightarrow>
     PKG_HEADER_SIZE \<le> length bs \<and> take 8 bs = PKG_MAGIC \<and>
     u32_from_le (take 4 (drop 8 bs)) = PKG_VERSION \<and>
     pkg_manifest_len bs \<le> length (pkg_body bs) \<and>
     is_utf8 (take (pkg_manifest_len bs) (pkg_body bs)) \<and>
     manifest_parse (take (pkg_manifest_len bs) (pkg_body bs)) = Some (vd_manifest v) \<and>
     v = \<lparr>vd_manifest = vd_manifest v,
          vd_integrity_ok = (sha256_ref (pkg_body bs) = pkg_digest bs),
          vd_signature = Absent, vd_granted_realm = HOME,
          vd_request_denied = (mf_requested_realm (vd_manifest v) \<noteq> KIND_HOME)\<rparr>"
  by (rule verify_Ok_iff)

text \<open>
  The store never brings the kernel down: examining arbitrary bytes, extracting their
  payload, and scanning any directory of a mounted file system all return, and every verdict a
  scan reports belongs to a file of that directory named \<^verbatim>\<open>*.najm\<close> whose bytes gave that verdict.
\<close>
theorem scan_total:
  assumes "fs_ok st"
  shows "verify bs \<noteq> Panic \<and> payload bs \<noteq> Panic \<and>
    (\<exists>vs. scan st directory = Ok vs \<and>
      (\<forall>v \<in> set vs. \<exists>children p bytes. read_dir st directory = Some children \<and> p \<in> set children \<and>
         ends_with p (ascii ''.najm'') \<and> read_all st p = Ok (Some bytes) \<and> verify bytes = Ok v))"
proof -
  have "\<exists>vs. scan st directory = Ok vs \<and>
      (\<forall>v \<in> set vs. \<exists>children p bytes. read_dir st directory = Some children \<and> p \<in> set children \<and>
         ends_with p (ascii ''.najm'') \<and> read_all st p = Ok (Some bytes) \<and> verify bytes = Ok v)"
  proof (cases "read_dir st directory")
    case None
    then show ?thesis by (simp add: scan_def)
  next
    case (Some children)
    with scan_entries_total [OF assms, of children] show ?thesis by (fastforce simp: scan_def)
  qed
  then show ?thesis using verify_not_Panic payload_not_Panic by blast
qed

theorem scan_total_witness: "\<exists>vs. scan (Some tiny_fs) [SLASH] = Ok vs"
  using scan_total [OF tiny_fs_ok, of "[]" "[SLASH]"] by blast

end
