(* ===== verification/Builder.thy ===== *)
theory Builder
  imports Store
begin

text \<open>
  The producing side, from the build script \<^verbatim>\<open>runner/build.rs\<close>: packing files into an archive
  (\<^verbatim>\<open>build_archive\<close>), the script's own copy of SHA-256, and wrapping an archive into a package
  (\<^verbatim>\<open>build_package\<close>). The properties are round trips: what the script writes, the kernel's
  \<^const>\<open>mount\<close> and \<^const>\<open>verify\<close> read back.
\<close>

section \<open>Packing files\<close>

text \<open>
  The loop over the ancestors of one path. A path is a \<^verbatim>\<open>&str\<close>; its parent is cut at a slash and
  converted back, which would panic on a cut inside a character.
\<close>

lemma parent_of_shorter: "parent_of p = Some q \<Longrightarrow> length q < length p \<or> q = [SLASH]"
  using rposition_Some(1) [of "\<lambda>b. b = SLASH" p]
  by (auto simp: parent_of_def split: if_splits option.splits)

function ancestors :: "bytes \<Rightarrow> (unit, bytes list) outcome" where
  "ancestors current =
     (case parent_of current of
        None \<Rightarrow> Ok []
      | Some parent \<Rightarrow>
          (case from_utf8 parent of
             None \<Rightarrow> Panic
           | Some s \<Rightarrow> if s = [SLASH] then Ok [s]
                       else obind (ancestors s) (\<lambda>rest. Ok (s # rest))))"
  by pat_completeness auto
termination
  by (relation "measure length") (auto simp: from_utf8_Some dest: parent_of_shorter)

declare ancestors.simps [simp del]

primrec collect_directories ::
  "(bytes \<times> bytes) list \<Rightarrow> (bytes, unit) btree \<Rightarrow> (unit, (bytes, unit) btree) outcome" where
  "collect_directories [] dirs = Ok dirs"
| "collect_directories (f # files) dirs =
     obind (ancestors (fst f)) (\<lambda>as.
       collect_directories files (fold (\<lambda>a ds. bt_insert ds a ()) as dirs))"

primrec add_files ::
  "(bytes \<times> bytes) list \<Rightarrow> (bytes, bytes option) btree \<Rightarrow>
   (unit, (bytes, bytes option) btree) outcome" where
  "add_files [] contents = Ok contents"
| "add_files (f # files) contents =
     (if \<not> path_is_valid (fst f) then Panic
      else if bt_get contents (fst f) \<noteq> None then Panic
      else add_files files (bt_insert contents (fst f) (Some (snd f))))"

text \<open>The first pass: the data blob and the offset and length of each entry.\<close>

primrec lay_out ::
  "nat \<Rightarrow> (bytes, bytes option) btree \<Rightarrow> bytes \<times> (bytes, u64 \<times> u64) btree \<Rightarrow>
   bytes \<times> (bytes, u64 \<times> u64) btree" where
  "lay_out data_start [] acc = acc"
| "lay_out data_start (e # es) acc =
     lay_out data_start es
       (case snd e of
          Some bytes \<Rightarrow>
            (fst acc @ bytes,
             bt_insert (snd acc) (fst e) (of_nat (data_start + length (fst acc)), of_nat (length bytes)))
        | None \<Rightarrow> (fst acc, bt_insert (snd acc) (fst e) (0, 0)))"

text \<open>\<^verbatim>\<open>Vec::resize(n, 0)\<close>.\<close>

definition resize :: "nat \<Rightarrow> bytes \<Rightarrow> bytes" where
  "resize n xs = take n xs @ replicate (n - length xs) 0"

definition entry_bytes :: "u64 \<times> u64 \<Rightarrow> bytes option \<Rightarrow> bytes \<Rightarrow> bytes" where
  "entry_bytes ol data path =
     resize NAR_ENTRY_SIZE
       (u64_to_le (fst ol) @ u64_to_le (snd ol) @
        u32_to_le (if data = None then FLAG_DIRECTORY else 0) @
        u32_to_le (of_nat (length path)) @ path)"

primrec write_table ::
  "(bytes, u64 \<times> u64) btree \<Rightarrow> (bytes, bytes option) btree \<Rightarrow> (unit, bytes) outcome" where
  "write_table offsets [] = Ok []"
| "write_table offsets (e # es) =
     (case bt_get offsets (fst e) of
        None \<Rightarrow> Panic
      | Some ol \<Rightarrow> obind (write_table offsets es) (\<lambda>rest. Ok (entry_bytes ol (snd e) (fst e) @ rest)))"

definition archive_header :: "nat \<Rightarrow> nat \<Rightarrow> bytes" where
  "archive_header entry_count total_len =
     NAR_MAGIC @ u32_to_le NAR_VERSION @ u32_to_le (of_nat entry_count) @ u64_to_le (of_nat total_len)"

definition archive_contents :: "(bytes \<times> bytes) list \<Rightarrow> (unit, (bytes, bytes option) btree) outcome" where
  "archive_contents files =
     obind (collect_directories files (bt_insert bt_empty [SLASH] ())) (\<lambda>directories.
       add_files files (fold (\<lambda>d c. bt_insert c d None) (bt_keys directories) bt_empty))"

definition build_archive :: "(bytes \<times> bytes) list \<Rightarrow> (unit, bytes) outcome" where
  "build_archive files =
     obind (archive_contents files) (\<lambda>contents.
     (let entry_count = length contents;
          data_start = NAR_HEADER_SIZE + entry_count * NAR_ENTRY_SIZE;
          (blob, offsets) = lay_out data_start contents ([], bt_empty);
          total_len = data_start + length blob;
          header = archive_header entry_count total_len
      in if length header \<noteq> NAR_HEADER_SIZE then Panic
         else obind (write_table offsets contents) (\<lambda>table.
           if length (header @ table) \<noteq> data_start then Panic
           else if length (header @ table @ blob) \<noteq> total_len then Panic
           else Ok (header @ table @ blob))))"

section \<open>The script's copy of SHA-256\<close>

record builder_sha =
  bs_state :: "u32 list"
  bs_buffer :: bytes

definition builder_H :: "u32 list" where
  "builder_H = concat [
    [0x6a09e667, 0xbb67ae85, 0x3c6ef372, 0xa54ff53a, 0x510e527f, 0x9b05688c, 0x1f83d9ab],
    [0x5be0cd19]]"

definition builder_K :: "u32 list" where
  "builder_K = concat [
    [0x428a2f98, 0x71374491, 0xb5c0fbcf, 0xe9b5dba5, 0x3956c25b, 0x59f111f1, 0x923f82a4],
    [0xab1c5ed5, 0xd807aa98, 0x12835b01, 0x243185be, 0x550c7dc3, 0x72be5d74, 0x80deb1fe],
    [0x9bdc06a7, 0xc19bf174, 0xe49b69c1, 0xefbe4786, 0x0fc19dc6, 0x240ca1cc, 0x2de92c6f],
    [0x4a7484aa, 0x5cb0a9dc, 0x76f988da, 0x983e5152, 0xa831c66d, 0xb00327c8, 0xbf597fc7],
    [0xc6e00bf3, 0xd5a79147, 0x06ca6351, 0x14292967, 0x27b70a85, 0x2e1b2138, 0x4d2c6dfc],
    [0x53380d13, 0x650a7354, 0x766a0abb, 0x81c2c92e, 0x92722c85, 0xa2bfe8a1, 0xa81a664b],
    [0xc24b8b70, 0xc76c51a3, 0xd192e819, 0xd6990624, 0xf40e3585, 0x106aa070, 0x19a4c116],
    [0x1e376c08, 0x2748774c, 0x34b0bcb5, 0x391c0cb3, 0x4ed8aa4a, 0x5b9cca4f, 0x682e6ff3],
    [0x748f82ee, 0x78a5636f, 0x84c87814, 0x8cc70208, 0x90befffa, 0xa4506ceb, 0xbef9a3f7],
    [0xc67178f2]]"

definition builder_new :: builder_sha where
  "builder_new = \<lparr>bs_state = builder_H, bs_buffer = []\<rparr>"

definition builder_update :: "builder_sha \<Rightarrow> bytes \<Rightarrow> builder_sha" where
  "builder_update h data = h\<lparr>bs_buffer := bs_buffer h @ data\<rparr>"

text \<open>\<^verbatim>\<open>while buffer.len() % 64 != 56 { buffer.push(0) }\<close>: each turn leaves one zero byte less to add.\<close>

lemma pad_step:
  fixes r :: nat
  assumes "r < 64" "r \<noteq> 56"
  shows "(120 - r) mod 64 = Suc ((120 - Suc r mod 64) mod 64)"
proof (cases "r = 63")
  case False
  then have s: "Suc r mod 64 = Suc r" "Suc r < 64" using assms by simp_all
  show ?thesis
    unfolding s(1) pad_count [OF assms(1)] pad_count [OF s(2)] using assms by auto
qed simp

lemma pad_shift:
  fixes r :: nat
  assumes "r < 64"
  shows "(120 - Suc r mod 64) mod 64 = (119 - r) mod 64"
proof (cases "r = 63")
  case False
  then show ?thesis using assms by (simp add: Suc_mod_64)
qed simp

lemma length_snoc_mod: "length (b @ [x]) mod 64 = Suc (length b mod 64) mod 64"
  by (simp add: mod_Suc_eq)

function builder_pad :: "bytes \<Rightarrow> bytes" where
  "builder_pad b = (if length b mod 64 \<noteq> 56 then builder_pad (b @ [0]) else b)"
  by pat_completeness auto
termination
proof (relation "measure (\<lambda>b. (120 - length b mod 64) mod 64)")
  fix b :: bytes
  assume "length b mod 64 \<noteq> 56"
  then have "(120 - length b mod 64) mod 64 = Suc ((120 - length (b @ [0]) mod 64) mod 64)"
    unfolding length_snoc_mod by (intro pad_step) simp_all
  then show "(b @ [0], b) \<in> measure (\<lambda>b. (120 - length b mod 64) mod 64)"
    unfolding in_measure by (metis lessI)
qed simp

declare builder_pad.simps [simp del]

text \<open>\<^verbatim>\<open>slice.chunks(n)\<close>.\<close>

function chunks :: "nat \<Rightarrow> 'a list \<Rightarrow> 'a list list" where
  "chunks n xs = (if xs = [] \<or> n = 0 then [] else take n xs # chunks n (drop n xs))"
  by pat_completeness auto
termination
  by (relation "measure (\<lambda>(n, xs). length xs)") auto

declare chunks.simps [simp del]

definition builder_schedule :: "bytes \<Rightarrow> u32 list" where
  "builder_schedule block =
     fold (\<lambda>i w. w @
         [(let s0 = word_rotr 7 (w ! (i - 15)) XOR word_rotr 18 (w ! (i - 15)) XOR drop_bit 3 (w ! (i - 15));
               s1 = word_rotr 17 (w ! (i - 2)) XOR word_rotr 19 (w ! (i - 2)) XOR drop_bit 10 (w ! (i - 2))
           in w ! (i - 16) + s0 + w ! (i - 7) + s1)])
       [16..<64] (map (\<lambda>i. u32_from_be (take 4 (drop (i * 4) block))) [0..<16])"

definition builder_round :: "u32 list \<Rightarrow> nat \<Rightarrow> u32 list \<Rightarrow> u32 list" where
  "builder_round w i v =
     (let s1 = word_rotr 6 (v ! 4) XOR word_rotr 11 (v ! 4) XOR word_rotr 25 (v ! 4);
          ch = (v ! 4 AND v ! 5) XOR (NOT (v ! 4) AND v ! 6);
          temp1 = v ! 7 + s1 + ch + builder_K ! i + w ! i;
          s0 = word_rotr 2 (v ! 0) XOR word_rotr 13 (v ! 0) XOR word_rotr 22 (v ! 0);
          maj = (v ! 0 AND v ! 1) XOR (v ! 0 AND v ! 2) XOR (v ! 1 AND v ! 2);
          temp2 = s0 + maj
      in [temp1 + temp2, v ! 0, v ! 1, v ! 2, v ! 3 + temp1, v ! 4, v ! 5, v ! 6])"

definition builder_block :: "bytes \<Rightarrow> u32 list \<Rightarrow> u32 list" where
  "builder_block block st =
     (let w = builder_schedule block; v = fold (builder_round w) [0..<64] st in map2 (+) st v)"

definition builder_finish :: "builder_sha \<Rightarrow> (unit, bytes) outcome" where
  "builder_finish h =
     (if 2 ^ 64 \<le> length (bs_buffer h) * 8 then Panic
      else
        (let length_bits = of_nat (length (bs_buffer h) * 8);
             padded = builder_pad (bs_buffer h @ [0x80]) @ u64_to_be length_bits;
             st = fold builder_block (chunks 64 padded) (bs_state h)
         in Ok (concat (map u32_to_be st))))"

section \<open>Packages\<close>

definition flip_last :: "bytes \<Rightarrow> (unit, bytes) outcome" where
  "flip_last xs =
     (if xs = [] then Panic else Ok (xs[length xs - 1 := (xs ! (length xs - 1)) XOR 1]))"

definition build_package :: "bytes \<Rightarrow> (bytes \<times> bytes) list \<Rightarrow> bool \<Rightarrow> (unit, bytes) outcome" where
  "build_package manifest_bytes files corrupt =
     obind (build_archive files) (\<lambda>intact.
     obind (builder_finish (builder_update (builder_update builder_new manifest_bytes) intact)) (\<lambda>dg.
     obind (if corrupt then flip_last intact else Ok intact) (\<lambda>contents.
     Ok (ascii ''NAJMPKG'' @ [0] @ u32_to_le 1 @ u32_to_le (of_nat (length manifest_bytes)) @ dg @
         manifest_bytes @ contents))))"

section \<open>The two hashes agree\<close>

lemma builder_tables: "builder_H = H0" "builder_K = K"
  unfolding builder_H_def H0_def builder_K_def K_def concat.simps append.simps
  by (rule refl)+

lemma builder_block_eq: "builder_block block st = compress st block"
proof -
  have "builder_schedule = schedule"
    unfolding fun_eq_iff builder_schedule_def schedule_def schedule_start_def schedule_word_def
    by (rule allI, rule refl)
  moreover have "builder_round = sha_round"
    unfolding fun_eq_iff builder_round_def sha_round_def builder_tables
    by (intro allI refl)
  ultimately show ?thesis by (simp only: builder_block_def compress_def)
qed

lemma fold_chunks_absorb:
  "length m mod 64 = 0 \<Longrightarrow>
   fold builder_block (chunks 64 m) st = fst (absorb_blocks st m)"
proof (induction st m rule: absorb_blocks.induct)
  case (1 st m)
  show ?case
  proof (cases "64 \<le> length m")
    case True
    with "1.prems" have "length (drop 64 m) mod 64 = 0" by (simp add: le_mod_geq)
    then have "fold builder_block (chunks 64 (drop 64 m)) (compress st (take 64 m)) =
        fst (absorb_blocks st m)"
      using 1 True absorb_long [OF True, of st] by simp
    moreover have "chunks 64 m = take 64 m # chunks 64 (drop 64 m)"
      using True by (subst chunks.simps) auto
    ultimately show ?thesis by (simp only: fold_Cons comp_apply builder_block_eq [of "take 64 m"])
  next
    case False
    with "1.prems" have "m = []" by simp
    then show ?thesis by (simp add: chunks.simps absorb_short)
  qed
qed

lemma builder_pad_eq: "builder_pad b = b @ replicate ((120 - length b mod 64) mod 64) 0"
proof (induction b rule: builder_pad.induct)
  case (1 b)
  show ?case
  proof (cases "length b mod 64 = 56")
    case True
    then show ?thesis by (simp add: builder_pad.simps [of b])
  next
    case False
    then have z: "(120 - length b mod 64) mod 64 = Suc ((120 - length (b @ [0]) mod 64) mod 64)"
      unfolding length_snoc_mod by (intro pad_step) simp_all
    have "builder_pad b = builder_pad (b @ [0])" using False by (simp add: builder_pad.simps [of b])
    also have "\<dots> = b @ [0] @ replicate ((120 - length (b @ [0]) mod 64) mod 64) 0"
      unfolding 1 [OF False] by (simp only: append_assoc)
    also have "\<dots> = b @ replicate ((120 - length b mod 64) mod 64) 0"
      unfolding z by (simp only: append_Cons append_Nil replicate_Suc)
    finally show ?thesis .
  qed
qed

lemma builder_finish_ref:
  assumes "length (bs_buffer h) < 2 ^ 61" "bs_state h = builder_H"
  shows "builder_finish h = Ok (sha256_ref (bs_buffer h))"
proof -
  let ?m = "bs_buffer h"
  have "(120 - length (?m @ [0x80]) mod 64) mod 64 = (119 - length ?m mod 64) mod 64"
    unfolding length_snoc_mod by (intro pad_shift) simp
  then have "builder_pad (?m @ [0x80]) @ u64_to_be (of_nat (length ?m * 8)) = sha_pad ?m"
    unfolding builder_pad_eq sha_pad_def
    by (simp only: append_assoc append_Cons append_Nil mult.commute)
  then show ?thesis
    using assms fold_chunks_absorb [OF sha_pad_blocks, of ?m H0]
    by (simp add: builder_finish_def sha256_ref_def builder_tables Let_def)
qed

section \<open>The entries of an archive\<close>

lemma length_resize [simp]: "length (resize n xs) = n"
  by (simp add: resize_def)

lemma length_entry_bytes [simp]: "length (entry_bytes ol d path) = NAR_ENTRY_SIZE"
  by (simp add: entry_bytes_def)

definition entry_data :: "bytes option \<Rightarrow> bytes" where
  "entry_data d = (case d of None \<Rightarrow> [] | Some bs \<Rightarrow> bs)"

text \<open>The node that entry \<open>i\<close> describes, the data starting at \<open>start\<close>.\<close>

definition entry_offset :: "nat \<Rightarrow> (bytes, bytes option) btree \<Rightarrow> nat \<Rightarrow> nat" where
  "entry_offset start es i =
     (if snd (es ! i) = None then 0
      else start + length (concat (map (\<lambda>e. entry_data (snd e)) (take i es))))"

definition entry_node :: "nat \<Rightarrow> (bytes, bytes option) btree \<Rightarrow> nat \<Rightarrow> node" where
  "entry_node start es i =
     \<lparr>nd_offset = entry_offset start es i, nd_len = length (entry_data (snd (es ! i))),
      nd_is_directory = (snd (es ! i) = None)\<rparr>"

definition entry_ol :: "nat \<Rightarrow> (bytes, bytes option) btree \<Rightarrow> nat \<Rightarrow> u64 \<times> u64" where
  "entry_ol start es i =
     (of_nat (entry_offset start es i), of_nat (length (entry_data (snd (es ! i)))))"

lemma lay_out_blob:
  "fst (lay_out start es acc) = fst acc @ concat (map (\<lambda>e. entry_data (snd e)) es)"
  by (induction es arbitrary: acc) (auto simp: entry_data_def split: option.splits)

lemma lay_out_wf: "bt_wf (snd acc) \<Longrightarrow> bt_wf (snd (lay_out start es acc))"
  by (induction es arbitrary: acc) (auto split: option.splits)

lemma lay_out_other:
  "bt_wf (snd acc) \<Longrightarrow> k \<notin> fst ` set es \<Longrightarrow>
   bt_get (snd (lay_out start es acc)) k = bt_get (snd acc) k"
  by (induction es arbitrary: acc) (auto simp: bt_get_simps split: option.splits)

lemma lay_out_get:
  assumes "distinct (map fst es)" "bt_wf (snd acc)" "i < length es"
  shows "bt_get (snd (lay_out start es acc)) (fst (es ! i)) =
    Some (entry_ol (start + length (fst acc)) es i)"
  using assms
proof (induction es arbitrary: acc i)
  case Nil
  then show ?case by simp
next
  case (Cons e es)
  let ?acc = "case snd e of
      Some bytes \<Rightarrow> (fst acc @ bytes,
        bt_insert (snd acc) (fst e) (of_nat (start + length (fst acc)), of_nat (length bytes)))
    | None \<Rightarrow> (fst acc, bt_insert (snd acc) (fst e) (0, 0))"
  have wf: "bt_wf (snd ?acc)" using Cons.prems by (auto split: option.splits)
  show ?case
  proof (cases i)
    case 0
    then show ?thesis
      using Cons.prems lay_out_other [OF wf, of "fst e" es start]
      by (auto simp: bt_get_simps entry_ol_def entry_offset_def entry_data_def split: option.splits)
  next
    case (Suc j)
    have "bt_get (snd (lay_out start es ?acc)) (fst (es ! j)) =
        Some (entry_ol (start + length (fst ?acc)) es j)"
      using Cons.prems Suc wf by (intro Cons.IH) auto
    then show ?thesis
      using Suc by (auto simp: entry_ol_def entry_offset_def entry_data_def split: option.splits)
  qed
qed

lemma write_table_Ok:
  assumes "\<And>e. e \<in> set es \<Longrightarrow> bt_get offs (fst e) = Some (ol e)"
  shows "write_table offs es = Ok (concat (map (\<lambda>e. entry_bytes (ol e) (snd e) (fst e)) es))"
  using assms by (induction es) auto

lemma drop_concat_uniform:
  assumes "\<And>x. x \<in> set xs \<Longrightarrow> length x = k" "i \<le> length xs"
  shows "drop (i * k) (concat xs) = concat (drop i xs)"
  using assms
proof (induction xs arbitrary: i)
  case Nil
  then show ?case by simp
next
  case (Cons x xs)
  then show ?case by (cases i) auto
qed

lemma length_concat_uniform:
  "(\<And>x. x \<in> set xs \<Longrightarrow> length x = k) \<Longrightarrow> length (concat xs) = length xs * k"
  by (induction xs) auto

section \<open>Parsing the table back\<close>

lemma bt_insert_max: "(\<And>e. e \<in> set m \<Longrightarrow> fst e < k) \<Longrightarrow> bt_insert m k v = m @ [(k, v)]"
proof (induction m)
  case (Cons e m)
  then have "fst e < k" "bt_insert m k v = m @ [(k, v)]" by simp_all
  then show ?case by (cases e) simp
qed simp

lemma unat_of_nat_u64: "n < 2 ^ 64 \<Longrightarrow> unat (of_nat n :: u64) = n"
  by (simp add: unat_of_nat)

lemma unat_of_nat_u32: "n < 2 ^ 32 \<Longrightarrow> unat (of_nat n :: u32) = n"
  by (simp add: unat_of_nat)

lemma slice_at:
  assumes "drop at bs = xs @ rest" "xs \<noteq> []" "n = length xs"
  shows "slice bs at (at + n) = Ok xs"
proof -
  have "at < length bs" using assms by (metis Nil_is_append_conv drop_all leI)
  moreover have "length xs + length rest = length bs - at"
    using assms by (metis length_append length_drop)
  ultimately show ?thesis using assms by (simp add: slice_def)
qed

lemma to_le_nonempty [simp]: "u64_to_le w \<noteq> []" "u32_to_le v \<noteq> []"
  using length_u64_to_le [of w] length_u32_to_le [of v] by force+

lemma read_u64_at: "drop at bs = u64_to_le w @ rest \<Longrightarrow> read_u64 bs at = Ok w"
  by (simp add: read_u64_def slice_at [of at bs "u64_to_le w" rest 8] codec_simps)

lemma read_u32_at: "drop at bs = u32_to_le w @ rest \<Longrightarrow> read_u32 bs at = Ok w"
  by (simp add: read_u32_def slice_at [of at bs "u32_to_le w" rest 4] codec_simps)

lemma drop_further: "drop at bs = xs @ rest \<Longrightarrow> drop (at + length xs) bs = rest"
  by (metis add.commute append_eq_conv_conj drop_drop)

lemma entry_bytes_short:
  assumes "length path \<le> MAX_PATH"
  shows "entry_bytes ol d path =
    u64_to_le (fst ol) @ u64_to_le (snd ol) @ u32_to_le (if d = None then FLAG_DIRECTORY else 0) @
    u32_to_le (of_nat (length path)) @ path @ replicate (MAX_PATH - length path) 0"
  using assms by (simp add: entry_bytes_def resize_def NAR_ENTRY_SIZE_def)

lemma mount_entry_of_entry:
  assumes at: "drop (NAR_HEADER_SIZE + i * NAR_ENTRY_SIZE) bs = entry_bytes (of_nat off, of_nat len) d path @ rest"
    and path: "path_is_valid path" "is_utf8 path"
    and bounds: "off + len \<le> length bs" "length bs < 2 ^ 64"
    and dir: "d = None \<Longrightarrow> len = 0"
    and fresh: "bt_get nodes path = None"
  shows "mount_entry bs i nodes =
    Ok (bt_insert nodes path \<lparr>nd_offset = off, nd_len = len, nd_is_directory = (d = None)\<rparr>)"
proof -
  let ?at = "NAR_HEADER_SIZE + i * NAR_ENTRY_SIZE"
  let ?flags = "if d = None then FLAG_DIRECTORY else 0"
  have plen: "length path \<le> MAX_PATH" using path(1) by (auto simp: path_is_valid_def split: if_splits)
  have ne: "path \<noteq> []" using path(1) by (auto simp: path_is_valid_def)
  from plen have pl: "unat (of_nat (length path) :: u32) = length path"
    by (intro unat_of_nat_u32) (simp add: MAX_PATH_def)
  have ul: "unat (of_nat off :: u64) = off" "unat (of_nat len :: u64) = len"
    using bounds by (auto intro: unat_of_nat_u64)
  note d0 = at [unfolded entry_bytes_short [OF plen] fst_conv snd_conv append_assoc]
  note d1 = drop_further [OF d0, simplified length_u64_to_le]
  note d2 = drop_further [OF d1, simplified length_u64_to_le add.assoc numeral_plus_numeral add_num_simps]
  note d3 = drop_further [OF d2, simplified length_u32_to_le add.assoc numeral_plus_numeral add_num_simps]
  note d4 = drop_further [OF d3, simplified length_u32_to_le add.assoc numeral_plus_numeral add_num_simps]
  have r: "read_u64 bs ?at = Ok (of_nat off)" "read_u64 bs (?at + 8) = Ok (of_nat len)"
    "read_u32 bs (?at + 16) = Ok ?flags" "read_u32 bs (?at + 20) = Ok (of_nat (length path))"
    using read_u64_at [OF d0] read_u64_at [OF d1] read_u32_at [OF d2] read_u32_at [OF d3]
    by (simp_all add: add.assoc)
  have s: "slice bs (?at + 24) (?at + 24 + length path) = Ok path"
    using slice_at [OF d4 ne refl] by (simp add: add.assoc)
  have f: "(?flags AND FLAG_DIRECTORY \<noteq> 0) = (d = None)" by (simp add: FLAG_DIRECTORY_def)
  have l: "off + len < usize_lim" using bounds by (simp add: usize_lim_def)
  show ?thesis
    unfolding mount_entry_def Let_def r s obind.simps pl f ul
    using plen path bounds dir fresh l s
    by (simp add: lossy_of_utf8 checked_add_def unat_eq_zero [symmetric] ul del: unat_eq_zero)
qed

text \<open>The whole table, entry by entry, in ascending order of the paths.\<close>

definition archive_of :: "(bytes, bytes option) btree \<Rightarrow> bytes" where
  "archive_of es =
     (let start = NAR_HEADER_SIZE + length es * NAR_ENTRY_SIZE;
          blob = concat (map (\<lambda>e. entry_data (snd e)) es)
      in archive_header (length es) (start + length blob) @
         concat (map (\<lambda>i. entry_bytes (entry_ol start es i) (snd (es ! i)) (fst (es ! i))) [0..<length es]) @
         blob)"

lemma length_archive_header [simp]: "length (archive_header n l) = NAR_HEADER_SIZE"
  by (simp add: archive_header_def NAR_MAGIC_def NAR_HEADER_SIZE_def)

lemma length_archive_of:
  "length (archive_of es) = NAR_HEADER_SIZE + length es * NAR_ENTRY_SIZE +
     length (concat (map (\<lambda>e. entry_data (snd e)) es))"
proof -
  have "length (concat (map (\<lambda>i. entry_bytes (ol i) (snd (es ! i)) (fst (es ! i))) [0..<length es])) =
      length es * NAR_ENTRY_SIZE" for ol
    by (subst length_concat_uniform [where k = NAR_ENTRY_SIZE]) auto
  then show ?thesis by (simp add: archive_of_def Let_def)
qed

lemma build_archive_eq:
  assumes es: "archive_contents files = Ok es" and distinct: "distinct (map fst es)"
  shows "build_archive files = Ok (archive_of es)"
proof -
  let ?start = "NAR_HEADER_SIZE + length es * NAR_ENTRY_SIZE"
  let ?table = "map (\<lambda>i. entry_bytes (entry_ol ?start es i) (snd (es ! i)) (fst (es ! i))) [0..<length es]"
  obtain offs where lo: "lay_out ?start es ([], bt_empty) = (concat (map (\<lambda>e. entry_data (snd e)) es), offs)"
    using lay_out_blob [of ?start es "([], bt_empty)"] by (metis append_Nil fst_conv prod.exhaust_sel)
  have "write_table offs es = Ok (concat (map (\<lambda>e. entry_bytes (the (bt_get offs (fst e))) (snd e) (fst e)) es))"
  proof (rule write_table_Ok)
    fix e assume "e \<in> set es"
    then obtain i where "i < length es" "e = es ! i" by (metis in_set_conv_nth)
    then show "bt_get offs (fst e) = Some (the (bt_get offs (fst e)))"
      using lay_out_get [OF distinct, of "([], bt_empty)" i ?start] lo by simp
  qed
  also have "map (\<lambda>e. entry_bytes (the (bt_get offs (fst e))) (snd e) (fst e)) es = ?table"
    using lay_out_get [OF distinct, of "([], bt_empty)" _ ?start] lo by (intro nth_equalityI) auto
  finally have "write_table offs es = Ok (concat ?table)" .
  moreover have "length (concat ?table) = length es * NAR_ENTRY_SIZE"
    by (subst length_concat_uniform [where k = NAR_ENTRY_SIZE]) auto
  ultimately show ?thesis
    by (simp add: build_archive_def es lo archive_of_def Let_def)
qed

lemma build_archive_Ok:
  assumes "build_archive files = Ok ar"
  obtains es where "archive_contents files = Ok es" "distinct (map fst es) \<Longrightarrow> ar = archive_of es"
proof -
  obtain es where "archive_contents files = Ok es"
    using assms by (auto simp: build_archive_def outcome_simps)
  with assms build_archive_eq that show thesis by force
qed

lemma drop_archive_of:
  assumes "i < length es"
  shows "\<exists>rest. drop (NAR_HEADER_SIZE + i * NAR_ENTRY_SIZE) (archive_of es) =
    entry_bytes (entry_ol (NAR_HEADER_SIZE + length es * NAR_ENTRY_SIZE) es i) (snd (es ! i)) (fst (es ! i)) @ rest"
proof -
  let ?start = "NAR_HEADER_SIZE + length es * NAR_ENTRY_SIZE"
  let ?E = "\<lambda>i. entry_bytes (entry_ol ?start es i) (snd (es ! i)) (fst (es ! i))"
  let ?xs = "map ?E [0..<length es]"
  have "drop (i * NAR_ENTRY_SIZE) (concat ?xs) = concat (drop i ?xs)"
    using assms by (intro drop_concat_uniform) auto
  moreover have "drop i ?xs = ?E i # drop (Suc i) ?xs"
    using assms by (subst Cons_nth_drop_Suc [symmetric]) auto
  moreover have "i * NAR_ENTRY_SIZE \<le> length (concat ?xs)"
    using assms by (subst length_concat_uniform [where k = NAR_ENTRY_SIZE]) auto
  ultimately show ?thesis by (simp add: archive_of_def Let_def)
qed

lemma length_archive_table:
  "length (concat (map (\<lambda>i. entry_bytes (ol i) (d i) (p i)) [0..<n])) = n * NAR_ENTRY_SIZE"
  by (subst length_concat_uniform [where k = NAR_ENTRY_SIZE]) auto

text \<open>What the script guarantees of the contents it packs.\<close>

definition contents_ok :: "(bytes, bytes option) btree \<Rightarrow> bool" where
  "contents_ok es \<longleftrightarrow> bt_wf es \<and> bt_get es [SLASH] \<noteq> None \<and>
     (\<forall>e \<in> set es. path_is_valid (fst e) \<and> is_utf8 (fst e))"

lemma entry_within:
  assumes "i < length es"
  shows "entry_offset (NAR_HEADER_SIZE + length es * NAR_ENTRY_SIZE) es i +
    length (entry_data (snd (es ! i))) \<le> length (archive_of es)"
proof -
  let ?D = "\<lambda>e :: bytes \<times> bytes option. entry_data (snd e)"
  have "concat (map ?D es) = concat (map ?D (take i es @ es ! i # drop (Suc i) es))"
    using id_take_nth_drop [OF assms] by (rule arg_cong)
  also have "\<dots> = concat (map ?D (take i es)) @ ?D (es ! i) @ concat (map ?D (drop (Suc i) es))"
    by (simp only: map_append list.map concat_append concat.simps)
  finally have "length (concat (map ?D (take i es))) + length (?D (es ! i)) \<le> length (concat (map ?D es))"
    by simp
  then show ?thesis
    by (auto simp: length_archive_of entry_offset_def entry_data_def)
qed

lemma mount_entries_archive:
  assumes ok: "contents_ok es" and len: "length (archive_of es) < 2 ^ 64"
    and k: "k \<le> length es"
  shows "mount_entries (archive_of es) [k..<length es]
      (map (\<lambda>i. (fst (es ! i), entry_node (NAR_HEADER_SIZE + length es * NAR_ENTRY_SIZE) es i)) [0..<k]) =
    Ok (map (\<lambda>i. (fst (es ! i), entry_node (NAR_HEADER_SIZE + length es * NAR_ENTRY_SIZE) es i)) [0..<length es])"
    (is "mount_entries _ _ (map ?N [0..<k]) = _")
  using k
proof (induction "length es - k" arbitrary: k)
  case 0
  then show ?case by simp
next
  case (Suc n)
  let ?start = "NAR_HEADER_SIZE + length es * NAR_ENTRY_SIZE"
  have k: "k < length es" using Suc by simp
  obtain rest where r: "drop (NAR_HEADER_SIZE + k * NAR_ENTRY_SIZE) (archive_of es) =
    entry_bytes (entry_ol ?start es k) (snd (es ! k)) (fst (es ! k)) @ rest"
    using drop_archive_of [OF k] by blast
  have lt: "\<And>i. i < k \<Longrightarrow> fst (es ! i) < fst (es ! k)"
    using ok k by (auto simp: contents_ok_def bt_wf_def sorted_wrt_iff_nth_less)
  then have notin: "fst (es ! k) \<notin> fst ` set (map ?N [0..<k])" by fastforce
  have ins: "bt_insert (map ?N [0..<k]) (fst (es ! k)) v = map ?N [0..<k] @ [(fst (es ! k), v)]" for v
    using lt by (intro bt_insert_max) auto
  have "mount_entry (archive_of es) k (map ?N [0..<k]) =
      Ok (bt_insert (map ?N [0..<k]) (fst (es ! k)) (entry_node ?start es k))"
    unfolding entry_node_def [of ?start es k]
  proof (rule mount_entry_of_entry [OF r [unfolded entry_ol_def]])
    show "path_is_valid (fst (es ! k))" "is_utf8 (fst (es ! k))"
      using ok k by (auto simp: contents_ok_def)
    show "bt_get (map ?N [0..<k]) (fst (es ! k)) = None"
      using notin by (simp only: bt_get_def map_of_eq_None_iff not_False_eq_True)
  qed (use entry_within [OF k] len in \<open>auto simp: entry_data_def\<close>)
  then have "mount_entry (archive_of es) k (map ?N [0..<k]) = Ok (map ?N [0..<Suc k])"
    by (simp add: ins)
  moreover have "mount_entries (archive_of es) [Suc k..<length es] (map ?N [0..<Suc k]) =
      Ok (map ?N [0..<length es])"
    using Suc k by (intro Suc.hyps) auto
  ultimately show ?case using k by (simp add: upt_conv_Cons)
qed

lemma parse_archive_of:
  assumes ok: "contents_ok es" and len: "length (archive_of es) < 2 ^ 32"
  shows "parse_archive (archive_of es) =
    Ok \<lparr>fs_nodes = map (\<lambda>i. (fst (es ! i), entry_node (NAR_HEADER_SIZE + length es * NAR_ENTRY_SIZE) es i)) [0..<length es],
        fs_image = archive_of es\<rparr>"
proof -
  let ?start = "NAR_HEADER_SIZE + length es * NAR_ENTRY_SIZE"
  let ?N = "\<lambda>i. (fst (es ! i), entry_node ?start es i)"
  let ?ar = "archive_of es"
  have ge: "?start \<le> length ?ar" by (simp add: length_archive_of)
  have c: "length es < 2 ^ 32"
    using ge len by (simp add: NAR_ENTRY_SIZE_def MAX_PATH_def)
  then have uc: "unat (of_nat (length es) :: u32) = length es" by (rule unat_of_nat_u32)
  obtain rest where ar: "?ar = NAR_MAGIC @ u32_to_le NAR_VERSION @ u32_to_le (of_nat (length es)) @ rest"
    by (simp add: archive_of_def archive_header_def Let_def)
  have m: "length NAR_MAGIC = 8" by (simp add: NAR_MAGIC_def)
  have d8: "drop 8 ?ar = u32_to_le NAR_VERSION @ u32_to_le (of_nat (length es)) @ rest"
    and d12: "drop 12 ?ar = u32_to_le (of_nat (length es)) @ rest" and t8: "take 8 ?ar = NAR_MAGIC"
    by (simp_all add: ar m)
  have mt: "mount_entries ?ar [0..<length es] bt_empty = Ok (map ?N [0..<length es])"
    using mount_entries_archive [OF ok, of 0] len by (simp add: bt_empty_def)
  have root: "ensure_root (map ?N [0..<length es]) = map ?N [0..<length es]"
  proof -
    have "[SLASH] \<in> fst ` set es"
      using ok by (auto simp: contents_ok_def bt_get_def dest!: map_of_SomeD intro: rev_image_eqI)
    then obtain i where "i < length es" "fst (es ! i) = [SLASH]" by (auto simp: in_set_conv_nth)
    then have "[SLASH] \<in> fst ` set (map ?N [0..<length es])" by force
    then have "bt_get (map ?N [0..<length es]) [SLASH] \<noteq> None"
      by (simp only: bt_get_def map_of_eq_None_iff not_True_eq_False not_False_eq_True)
    then show ?thesis by (simp only: ensure_root_def if_False)
  qed
  have lim: "length es * NAR_ENTRY_SIZE < usize_lim" "?start < usize_lim"
    using ge len by (simp_all add: usize_lim_def)
  have "8 \<le> length ?ar" using ge by (simp add: NAR_HEADER_SIZE_def)
  then show ?thesis
    using ge lim
    by (simp add: parse_archive_def slice_def t8 read_u32_at [OF d8] read_u32_at [OF d12] uc
        checked_mul_def checked_add_def mt root)
qed

section \<open>What is packed\<close>

lemma parent_valid:
  assumes "path_is_valid p" "parent_of p = Some q"
  shows "path_is_valid q"
proof -
  obtain cs where cs: "list_all valid_component cs" "p = path_of cs" "length p \<le> MAX_PATH"
    using assms(1) by (auto simp: path_is_valid_iff)
  have "cs \<noteq> []" using assms(2) cs(2) by (auto simp: path_of_def parent_of_def)
  then obtain ds c where ds: "cs = ds @ [c]" by (metis rev_exhaust)
  then have "q = path_of ds"
    using assms(2) cs by (simp add: path_of_def parent_of_join)
  moreover have "length (path_of ds) \<le> MAX_PATH"
    using cs(2,3) ds by (auto simp: path_of_def join_append MAX_PATH_def)
  ultimately show ?thesis using cs(1) ds by (auto simp: path_is_valid_iff)
qed

lemma parent_exists:
  assumes "path_is_valid p" "p \<noteq> [SLASH]"
  shows "\<exists>q. parent_of p = Some q"
proof -
  obtain cs where cs: "list_all valid_component cs" "p = path_of cs"
    using assms(1) by (auto simp: path_is_valid_iff)
  then show ?thesis
    using assms(2) by (cases cs rule: rev_cases) (auto simp: path_of_def parent_of_join)
qed

lemma ancestors_ok:
  "path_is_valid p \<Longrightarrow> ancestors p = Ok as \<Longrightarrow> \<forall>a \<in> set as. path_is_valid a \<and> is_utf8 a"
proof (induction p arbitrary: as rule: ancestors.induct)
  case (1 p)
  show ?case
  proof (cases "parent_of p")
    case None
    then show ?thesis using "1.prems" by (simp add: ancestors.simps [of p])
  next
    case (Some q)
    then have q: "path_is_valid q" by (rule parent_valid [OF "1.prems"(1)])
    have u: "from_utf8 q = Some q" using "1.prems"(2) Some
      by (auto simp: ancestors.simps [of p] from_utf8_def split: if_splits)
    then have "is_utf8 q" by (simp add: from_utf8_Some)
    moreover have "as = [q] \<or> (q \<noteq> [SLASH] \<and> (\<exists>rest. ancestors q = Ok rest \<and> as = q # rest))"
      using "1.prems"(2) Some u
      by (auto simp: ancestors.simps [of p] outcome_simps split: if_splits)
    ultimately show ?thesis using "1.IH" [OF Some u _ q] q by auto
  qed
qed

lemma ancestors_parent:
  "ancestors p = Ok as \<Longrightarrow> parent_of p = Some q \<Longrightarrow> q \<in> set as"
  by (auto simp: ancestors.simps [of p] from_utf8_Some outcome_simps split: option.splits if_splits)

lemma fold_insert_get:
  "bt_wf m \<Longrightarrow> bt_wf (fold (\<lambda>a ds. bt_insert ds a v) as m) \<and>
   bt_get (fold (\<lambda>a ds. bt_insert ds a v) as m) k = (if k \<in> set as then Some v else bt_get m k)"
  by (induction as arbitrary: m) (auto simp: bt_get_simps)

lemma collect_directories_ok:
  "collect_directories files dirs = Ok dirs' \<Longrightarrow> bt_wf dirs \<Longrightarrow>
   bt_wf dirs' \<and> (\<forall>f \<in> set files. \<exists>as. ancestors (fst f) = Ok as) \<and>
   (\<forall>k. bt_get dirs' k \<noteq> None \<longleftrightarrow>
      bt_get dirs k \<noteq> None \<or> (\<exists>f \<in> set files. \<exists>as. ancestors (fst f) = Ok as \<and> k \<in> set as))"
proof (induction files arbitrary: dirs)
  case Nil
  then show ?case by simp
next
  case (Cons f files)
  then obtain as where as: "ancestors (fst f) = Ok as"
    "collect_directories files (fold (\<lambda>a ds. bt_insert ds a ()) as dirs) = Ok dirs'"
    by (auto simp: outcome_simps)
  note g = fold_insert_get [OF Cons.prems(2), of "()" as]
  from Cons.IH [OF as(2)] g as(1) show ?case by auto
qed

lemma add_files_ok:
  "add_files files es = Ok es' \<Longrightarrow> bt_wf es \<Longrightarrow>
   bt_wf es' \<and> (\<forall>f \<in> set files. path_is_valid (fst f) \<and> bt_get es (fst f) = None \<and>
     bt_get es' (fst f) = Some (Some (snd f))) \<and>
   (\<forall>k. k \<notin> fst ` set files \<longrightarrow> bt_get es' k = bt_get es k)"
proof (induction files arbitrary: es)
  case Nil
  then show ?case by simp
next
  case (Cons f files)
  let ?es = "bt_insert es (fst f) (Some (snd f))"
  have c: "path_is_valid (fst f)" "bt_get es (fst f) = None" "add_files files ?es = Ok es'"
    using Cons.prems by (auto split: if_splits)
  have IH: "bt_wf es'"
    "\<And>g. g \<in> set files \<Longrightarrow> path_is_valid (fst g) \<and> bt_get ?es (fst g) = None \<and>
       bt_get es' (fst g) = Some (Some (snd g))"
    "\<And>k. k \<notin> fst ` set files \<Longrightarrow> bt_get es' k = bt_get ?es k"
    using Cons.IH [OF c(3)] Cons.prems(2) by auto
  have "fst f \<notin> fst ` set files" using IH(2) Cons.prems(2) by (fastforce simp: bt_get_simps)
  then have f: "bt_get es' (fst f) = Some (Some (snd f))"
    using IH(3) [of "fst f"] Cons.prems(2) by (simp add: bt_get_simps)
  have "bt_get es (fst g) = None" if "g \<in> set files" for g
    using IH(2) [OF that] Cons.prems(2) by (auto simp: bt_get_simps split: if_splits)
  moreover have "bt_get es' k = bt_get es k" if "k \<notin> fst ` set (f # files)" for k
    using IH(3) [of k] that Cons.prems(2) by (simp add: bt_get_simps)
  ultimately show ?case using IH(1,2) c f by auto
qed

lemma archive_contents_ok:
  assumes "archive_contents files = Ok es" "\<forall>f \<in> set files. is_utf8 (fst f)"
  shows "contents_ok es"
    "\<And>f. f \<in> set files \<Longrightarrow> bt_get es (fst f) = Some (Some (snd f))"
    "\<And>f q. f \<in> set files \<Longrightarrow> parent_of (fst f) = Some q \<Longrightarrow> bt_get es q = Some None"
    "\<And>f. f \<in> set files \<Longrightarrow> \<exists>q. parent_of (fst f) = Some q"
    "\<And>k d. bt_get es k = Some (Some d) \<Longrightarrow> k \<in> fst ` set files"
proof -
  obtain dirs where dirs: "collect_directories files (bt_insert bt_empty [SLASH] ()) = Ok dirs"
    and add: "add_files files (fold (\<lambda>d c. bt_insert c d None) (bt_keys dirs) bt_empty) = Ok es"
    using assms(1) by (auto simp: archive_contents_def outcome_simps)
  let ?c = "fold (\<lambda>d c. bt_insert c d None) (bt_keys dirs) (bt_empty :: (bytes, bytes option) btree)"
  note D = collect_directories_ok [OF dirs]
  note C = fold_insert_get [OF bt.wf_empty, of "None :: bytes option" "bt_keys dirs"]
  note A = add_files_ok [OF add]
  have wfd: "bt_wf dirs" using D by simp
  have keys: "k \<in> set (bt_keys dirs) \<longleftrightarrow> bt_get dirs k \<noteq> None" for k
    by (simp add: bt_keys_def bt_get_def map_of_eq_None_iff)
  have c: "bt_get ?c k = (if bt_get dirs k \<noteq> None then Some None else None)" for k
    using C [of k] keys [of k] by (simp add: bt_get_simps)
  have files: "path_is_valid (fst f)" "bt_get dirs (fst f) = None" "bt_get es (fst f) = Some (Some (snd f))"
    if "f \<in> set files" for f
  proof -
    have "path_is_valid (fst f)" "bt_get ?c (fst f) = None" "bt_get es (fst f) = Some (Some (snd f))"
      using A C that by blast+
    then show "path_is_valid (fst f)" "bt_get dirs (fst f) = None" "bt_get es (fst f) = Some (Some (snd f))"
      using c [of "fst f"] by (metis option.distinct(1))+
  qed
  have other: "bt_get es k = bt_get ?c k" if "k \<notin> fst ` set files" for k
    using A C that by blast
  have root: "bt_get dirs [SLASH] \<noteq> None" using D by (auto simp: bt_get_simps)
  have dir: "path_is_valid k \<and> is_utf8 k" if k: "bt_get dirs k \<noteq> None" for k
  proof (cases "k = [SLASH]")
    case True
    then show ?thesis by (simp add: path_is_valid_def SLASH_def MAX_PATH_def is_utf8_ascii)
  next
    case False
    then obtain f as where "f \<in> set files" "ancestors (fst f) = Ok as" "k \<in> set as"
      using D k by (auto simp: bt_get_simps split: if_splits)
    then show ?thesis using ancestors_ok [of "fst f" as] files(1) by blast
  qed
  have isdir: "bt_get es k = Some None" if "bt_get dirs k \<noteq> None" for k
    using that files(2) other [of k] c [of k] by (cases "k \<in> fst ` set files") auto
  show g: "\<And>f. f \<in> set files \<Longrightarrow> bt_get es (fst f) = Some (Some (snd f))" by (rule files(3))
  show "\<And>k d. bt_get es k = Some (Some d) \<Longrightarrow> k \<in> fst ` set files"
    using other c by (metis option.distinct(1) option.inject)
  show "\<And>f. f \<in> set files \<Longrightarrow> \<exists>q. parent_of (fst f) = Some q"
  proof -
    fix f assume f: "f \<in> set files"
    have "fst f \<noteq> [SLASH]" using files(2) [OF f] root by auto
    then show "\<exists>q. parent_of (fst f) = Some q" using files(1) [OF f] by (intro parent_exists)
  qed
  show "\<And>f q. f \<in> set files \<Longrightarrow> parent_of (fst f) = Some q \<Longrightarrow> bt_get es q = Some None"
  proof (rule isdir)
    fix f q assume f: "f \<in> set files" "parent_of (fst f) = Some q"
    have wf0: "bt_wf (bt_insert bt_empty [SLASH] ())" by simp
    obtain as where "ancestors (fst f) = Ok as" using D [OF wf0] f(1) by blast
    then have "\<exists>f \<in> set files. \<exists>as. ancestors (fst f) = Ok as \<and> q \<in> set as"
      using ancestors_parent f by blast
    then show "bt_get dirs q \<noteq> None" using D [OF wf0] by simp
  qed
  have "path_is_valid k \<and> is_utf8 k" if "bt_get es k \<noteq> None" for k
    using that files(1) assms(2) dir other [of k] c [of k]
    by (cases "k \<in> fst ` set files") (auto split: if_splits)
  moreover have wf: "bt_wf es" using A C by blast
  ultimately show "contents_ok es"
    using isdir [OF root] by (fastforce simp: contents_ok_def bt.entries_get [OF wf, symmetric])
qed

section \<open>Properties\<close>

lemma archive_mounts:
  assumes build: "build_archive files = Ok ar" and utf8: "\<forall>f \<in> set files. is_utf8 (fst f)"
    and len: "length ar < 2 ^ 32"
  obtains fs es where "mount ar old = (Ok (length es), Some fs)" "archive_contents files = Ok es"
    "\<And>p. fs_lookup (Some fs) p = None \<longleftrightarrow> bt_get es p = None"
    "\<And>p. bt_get es p = Some None \<Longrightarrow> \<exists>n. fs_lookup (Some fs) p = Some n \<and> nd_is_directory n"
    "\<And>p d. bt_get es p = Some (Some d) \<Longrightarrow> read_all (Some fs) p = Ok (Some d)"
proof -
  obtain es where es: "archive_contents files = Ok es" "distinct (map fst es) \<Longrightarrow> ar = archive_of es"
    using build_archive_Ok [OF build] by metis
  have ok: "contents_ok es" using archive_contents_ok(1) [OF es(1) utf8] .
  then have wf: "bt_wf es" by (simp add: contents_ok_def)
  then have ar: "ar = archive_of es" using es(2) bt_wf_distinct by blast
  let ?start = "NAR_HEADER_SIZE + length es * NAR_ENTRY_SIZE"
  let ?N = "\<lambda>i. (fst (es ! i), entry_node ?start es i)"
  define fs where "fs = \<lparr>fs_nodes = map ?N [0..<length es], fs_image = ar\<rparr>"
  have parse: "parse_archive ar = Ok fs"
    using parse_archive_of [OF ok] len by (simp add: ar fs_def)
  have keys: "map fst (fs_nodes fs) = map fst es"
    by (auto simp: fs_def intro: nth_equalityI)
  have nodes: "bt_wf (fs_nodes fs)" using wf keys by (simp add: bt_wf_def)
  have get: "fs_lookup (Some fs) (fst (es ! i)) = Some (entry_node ?start es i)" if "i < length es" for i
  proof -
    have "?N i \<in> set (fs_nodes fs)" using that by (simp add: fs_def)
    then show ?thesis using bt.entries_get [OF nodes] by (simp add: fs_lookup_def)
  qed
  have idx: "\<exists>i < length es. es ! i = (p, v)" if "bt_get es p = Some v" for p v
    using that bt.entries_get [OF wf] by (metis in_set_conv_nth)
  show thesis
  proof
    show "mount ar old = (Ok (length es), Some fs)" by (simp add: mount_def parse) (simp add: fs_def)
    show "archive_contents files = Ok es" by (rule es(1))
    have "set (map fst (fs_nodes fs)) = set (map fst es)" by (simp only: keys)
    then show "fs_lookup (Some fs) p = None \<longleftrightarrow> bt_get es p = None" for p
      by (simp add: fs_lookup_def bt_get_def map_of_eq_None_iff)
    show "\<exists>n. fs_lookup (Some fs) p = Some n \<and> nd_is_directory n" if "bt_get es p = Some None" for p
      using idx [OF that] get by (force simp: entry_node_def)
    show "read_all (Some fs) p = Ok (Some d)" if p: "bt_get es p = Some (Some d)" for p d
    proof -
      obtain i where i: "i < length es" "es ! i = (p, Some d)" using idx [OF p] by blast
      let ?D = "\<lambda>e :: bytes \<times> bytes option. entry_data (snd e)"
      let ?n = "entry_node ?start es i"
      have n: "nd_offset ?n = ?start + length (concat (map ?D (take i es)))" "nd_len ?n = length d"
        "\<not> nd_is_directory ?n"
        using i by (simp_all add: entry_node_def entry_offset_def entry_data_def)
      have look: "fs_lookup (Some fs) p = Some ?n" using get [OF i(1)] i(2) by simp
      have within: "node_ok (fs_image fs) ?n"
        using entry_within [OF i(1)] i len ar
        by (simp add: node_ok_def entry_node_def fs_def usize_lim_def)
      have "concat (map ?D es) = concat (map ?D (take i es @ es ! i # drop (Suc i) es))"
        using id_take_nth_drop [OF i(1)] by (rule arg_cong)
      also have "\<dots> = concat (map ?D (take i es)) @ d @ concat (map ?D (drop (Suc i) es))"
        by (simp only: map_append list.map concat_append concat.simps i(2) snd_conv entry_data_def option.case)
      finally have blob: "drop (length (concat (map ?D (take i es)))) (concat (map ?D es)) =
        d @ concat (map ?D (drop (Suc i) es))" by simp
      have "drop ?start ar = concat (map ?D es)"
        using length_archive_of [of es] unfolding ar archive_of_def Let_def
        by (simp add: length_archive_table)
      then have "drop (nd_offset ?n) ar = d @ concat (map ?D (drop (Suc i) es))"
        unfolding n(1) using blob
        by (simp only: drop_drop [of "length (concat (map ?D (take i es)))" ?start ar, symmetric] add.commute [of ?start])
      then have "take (nd_len ?n) (drop (nd_offset ?n) (fs_image fs)) = d"
        by (simp add: fs_def n(2))
      then show ?thesis
        using fs_read_file [OF within n(3), of 0 "nd_len ?n"] look n(2,3) by (simp add: read_all_def)
    qed
  qed
qed

text \<open>
  C8. What the build script packs, the kernel mounts: an archive the script produced (shorter than
  4 GiB, from paths that are Rust strings) is accepted by \<^const>\<open>mount\<close>, every packed file reads back
  byte for byte under its path, its parent directory exists and is a directory even though no
  caller listed it, and the namespace has no other files.
\<close>
theorem archive_roundtrip:
  assumes "build_archive files = Ok ar" "\<forall>f \<in> set files. is_utf8 (fst f)" "length ar < 2 ^ 32"
  shows "\<exists>n fs. mount ar old = (Ok n, Some fs) \<and>
    (\<forall>(p, d) \<in> set files. read_all (Some fs) p = Ok (Some d) \<and>
       (\<exists>q nd. parent_of p = Some q \<and> fs_lookup (Some fs) q = Some nd \<and> nd_is_directory nd)) \<and>
    (\<forall>p nd. fs_lookup (Some fs) p = Some nd \<and> \<not> nd_is_directory nd \<longrightarrow> p \<in> fst ` set files)"
proof (rule archive_mounts [OF assms, of old])
  fix fs es
  assume m: "mount ar old = (Ok (length es), Some fs)" and es: "archive_contents files = Ok es"
    and look: "\<And>p. fs_lookup (Some fs) p = None \<longleftrightarrow> bt_get es p = None"
    and dir: "\<And>p. bt_get es p = Some None \<Longrightarrow> \<exists>n. fs_lookup (Some fs) p = Some n \<and> nd_is_directory n"
    and data: "\<And>p d. bt_get es p = Some (Some d) \<Longrightarrow> read_all (Some fs) p = Ok (Some d)"
  note C = archive_contents_ok [OF es assms(2)]
  have "read_all (Some fs) p = Ok (Some d) \<and>
       (\<exists>q nd. parent_of p = Some q \<and> fs_lookup (Some fs) q = Some nd \<and> nd_is_directory nd)"
    if "(p, d) \<in> set files" for p d
    using C(2,3,4) [OF that] data dir by fastforce
  moreover have "p \<in> fst ` set files" if n: "fs_lookup (Some fs) p = Some nd" "\<not> nd_is_directory nd" for p nd
  proof -
    obtain v where v: "bt_get es p = Some v" using look [of p] n(1) by force
    have "v \<noteq> None" using dir [of p] n v by force
    then show ?thesis using C(5) v by blast
  qed
  ultimately show ?thesis using m by auto
qed

text \<open>One file in a directory of its own.\<close>

definition demo_files :: "(bytes \<times> bytes) list" where
  "demo_files = [(ascii ''/b/h'', [1, 2, 3])]"

definition demo_archive :: bytes where
  "demo_archive = archive_of [([SLASH], None), (ascii ''/b'', None), (ascii ''/b/h'', Some [1, 2, 3])]"

lemma demo_parents:
  "parent_of (ascii ''/b/h'') = Some (ascii ''/b'')" "parent_of (ascii ''/b'') = Some [SLASH]"
  by (simp_all add: parent_of_def ascii_def SLASH_def rposition_def)

lemma demo_ancestors: "ancestors (ascii ''/b/h'') = Ok [ascii ''/b'', [SLASH]]"
proof -
  have "is_utf8 [SLASH]" "is_utf8 (ascii ''/b'')" "ascii ''/b'' \<noteq> [SLASH]"
    by (auto simp: SLASH_def ascii_def intro!: is_utf8_ascii)
  then show ?thesis
    by (simp add: ancestors.simps [of "ascii ''/b/h''"] ancestors.simps [of "ascii ''/b''"]
        demo_parents from_utf8_def)
qed

lemma demo_contents:
  "archive_contents demo_files =
    Ok [([SLASH], None), (ascii ''/b'', None), (ascii ''/b/h'', Some [1, 2, 3])]"
proof -
  have "path_is_valid (ascii ''/b/h'')"
    by (simp add: path_is_valid_def ascii_def SLASH_def DOT_def MAX_PATH_def)
  then show ?thesis
    by (simp add: archive_contents_def demo_files_def demo_ancestors bt_empty_def bt_keys_def)
       (simp add: ascii_def SLASH_def bt_get_def)
qed

lemma demo_archive_build: "build_archive demo_files = Ok demo_archive"
  unfolding demo_archive_def
  by (rule build_archive_eq [OF demo_contents]) (simp add: ascii_def SLASH_def)

theorem archive_roundtrip_witness:
  "\<exists>fs. snd (mount demo_archive None) = Some fs \<and> read_all (Some fs) (ascii ''/b/h'') = Ok (Some [1, 2, 3])"
proof -
  have u: "\<forall>f \<in> set demo_files. is_utf8 (fst f)"
    by (auto simp: demo_files_def ascii_def intro!: is_utf8_ascii)
  have l: "length demo_archive < 2 ^ 32"
    by (simp add: demo_archive_def length_archive_of entry_data_def NAR_HEADER_SIZE_def
        NAR_ENTRY_SIZE_def MAX_PATH_def)
  show ?thesis
    using archive_roundtrip [OF demo_archive_build u l, of None] by (auto simp: demo_files_def)
qed

text \<open>
  The two implementations of SHA-256 agree: for any message shorter than $2^{61}$ bytes, in
  whatever pieces it is fed to either, the build script's buffered hash returns the digest the
  kernel's incremental hash returns. A package can therefore not fail verification because the
  two drifted apart.
\<close>

lemma builder_hash_agrees:
  assumes "length (concat pieces) < 2 ^ 61" "concat parts = concat pieces"
  shows "\<exists>d. builder_finish (foldl builder_update builder_new pieces) = Ok d \<and>
    finish (foldl sha_update sha_new parts) = Some d"
proof -
  have "bs_buffer (foldl builder_update h pieces) = bs_buffer h @ concat pieces \<and>
      bs_state (foldl builder_update h pieces) = bs_state h" for h
    by (induction pieces arbitrary: h) (simp_all add: builder_update_def)
  then show ?thesis
    using assms builder_finish_ref [of "foldl builder_update builder_new pieces"]
      finish_chunks [of parts]
    by (simp add: builder_new_def)
qed

lemma flip_last_neq: "flip_last xs = Ok ys \<Longrightarrow> ys \<noteq> xs \<and> length ys = length xs"
proof -
  assume "flip_last xs = Ok ys"
  then have ne: "xs \<noteq> []" and ys: "ys = xs[length xs - 1 := (xs ! (length xs - 1)) XOR 1]"
    by (auto simp: flip_last_def split: if_splits)
  have "ys ! (length xs - 1) = xs ! (length xs - 1) XOR 1" using ne ys by simp
  moreover have "b XOR 1 \<noteq> b" for b :: u8
    by (metis bit_xor_iff bit_1_iff bit_0 even_xor_iff odd_one)
  ultimately show ?thesis using ys by (metis length_list_update)
qed

lemma build_package_Ok:
  assumes "build_package mf files corrupt = Ok pkg" "length mf < 2 ^ 32"
  obtains ar contents where "build_archive files = Ok ar"
    "(if corrupt then flip_last ar else Ok ar) = Ok contents"
    "length (mf @ ar) < 2 ^ 61 \<Longrightarrow> pkg_digest pkg = sha256_ref (mf @ ar)"
    "length (mf @ ar) < 2 ^ 61 \<Longrightarrow> pkg_body pkg = mf @ contents"
    "length (mf @ ar) < 2 ^ 61 \<Longrightarrow> pkg_manifest_len pkg = length mf"
    "length (mf @ ar) < 2 ^ 61 \<Longrightarrow> take 8 pkg = PKG_MAGIC \<and>
       u32_from_le (take 4 (drop 8 pkg)) = PKG_VERSION \<and> PKG_HEADER_SIZE \<le> length pkg"
proof -
  obtain ar dg contents where ar: "build_archive files = Ok ar"
    and dg: "builder_finish (builder_update (builder_update builder_new mf) ar) = Ok dg"
    and c: "(if corrupt then flip_last ar else Ok ar) = Ok contents"
    and pkg: "pkg = ascii ''NAJMPKG'' @ [0] @ u32_to_le 1 @ u32_to_le (of_nat (length mf)) @ dg @ mf @ contents"
    using assms(1) unfolding build_package_def obind_eq_Ok by auto
  have m: "ascii ''NAJMPKG'' @ [0] = PKG_MAGIC" "length PKG_MAGIC = 8" "PKG_VERSION = 1"
    by (simp_all add: PKG_MAGIC_def PKG_VERSION_def)
  have p: "pkg = PKG_MAGIC @ u32_to_le PKG_VERSION @ u32_to_le (of_nat (length mf)) @ dg @ mf @ contents"
    using pkg m by (metis append_assoc)
  have d: "dg = sha256_ref (mf @ ar)" if "length (mf @ ar) < 2 ^ 61"
    using dg that builder_finish_ref [of "builder_update (builder_update builder_new mf) ar"]
    by (simp add: builder_update_def builder_new_def)
  then have l: "length dg = 32" if "length (mf @ ar) < 2 ^ 61" using that by simp
  show thesis
  proof (rule that [OF ar c])
    assume s: "length (mf @ ar) < 2 ^ 61"
    show "pkg_digest pkg = sha256_ref (mf @ ar)" using d [OF s] l [OF s]
      by (simp add: pkg_digest_def p m)
    show "pkg_body pkg = mf @ contents" using l [OF s]
      by (simp add: pkg_body_def p m PKG_HEADER_SIZE_def)
    show "pkg_manifest_len pkg = length mf"
      using assms(2) by (simp add: pkg_manifest_len_def p m codec_simps unat_of_nat_u32)
    show "take 8 pkg = PKG_MAGIC \<and> u32_from_le (take 4 (drop 8 pkg)) = PKG_VERSION \<and>
        PKG_HEADER_SIZE \<le> length pkg"
      using l [OF s] by (simp add: p m codec_simps PKG_HEADER_SIZE_def)
  qed
qed

text \<open>
  C9. What the build script packages, the store verifies: an intact package passes the integrity
  check and carries exactly the manifest and the archive it was built from; a package the script
  corrupted on purpose carries different contents and passes the integrity check only if the
  corruption is a SHA-256 collision.
\<close>
theorem package_roundtrip:
  assumes "build_package mf files corrupt = Ok pkg" "build_archive files = Ok ar"
    "length mf < 2 ^ 32" "length (mf @ ar) < 2 ^ 61" "is_utf8 mf" "manifest_parse mf = Some m"
  shows "\<exists>v contents. verify pkg = Ok v \<and> vd_manifest v = m \<and> payload pkg = Ok contents \<and>
    (\<not> corrupt \<longrightarrow> contents = ar \<and> vd_integrity_ok v) \<and>
    (corrupt \<longrightarrow> contents \<noteq> ar \<and>
       (vd_integrity_ok v \<longleftrightarrow> sha256_ref (mf @ contents) = sha256_ref (mf @ ar)))"
proof -
  obtain contents where c: "(if corrupt then flip_last ar else Ok ar) = Ok contents"
    and h: "pkg_digest pkg = sha256_ref (mf @ ar)" "pkg_body pkg = mf @ contents"
    "pkg_manifest_len pkg = length mf" "take 8 pkg = PKG_MAGIC"
    "u32_from_le (take 4 (drop 8 pkg)) = PKG_VERSION" "PKG_HEADER_SIZE \<le> length pkg"
    using build_package_Ok [OF assms(1,3)] assms(2,4) by (metis outcome.inject(1))
  define v where "v = \<lparr>vd_manifest = m,
    vd_integrity_ok = (sha256_ref (mf @ contents) = sha256_ref (mf @ ar)),
    vd_signature = Absent, vd_granted_realm = HOME,
    vd_request_denied = (mf_requested_realm m \<noteq> KIND_HOME)\<rparr>"
  have v: "verify pkg = Ok v"
    using h assms(5,6) by (simp add: verify_Ok_iff v_def)
  have len: "length pkg = PKG_HEADER_SIZE + length mf + length contents"
    using h(2,6) by (metis add.assoc le_add_diff_inverse length_append length_drop pkg_body_def)
  have "drop (PKG_HEADER_SIZE + length mf) pkg = contents"
    using h(2) by (metis add.commute append_eq_conv_conj drop_drop pkg_body_def)
  then have "payload pkg = Ok contents"
    using h(3,6) len
    by (simp add: payload_def read_u32_def slice_def pkg_manifest_len_def Let_def PKG_HEADER_SIZE_def)
  moreover have "\<not> corrupt \<longrightarrow> contents = ar" "corrupt \<longrightarrow> contents \<noteq> ar"
    using c flip_last_neq [of ar contents] by auto
  ultimately show ?thesis using v by (auto simp: v_def)
qed

theorem package_roundtrip_witness:
  "\<exists>pkg v. build_package demo_manifest demo_files False = Ok pkg \<and> verify pkg = Ok v \<and> vd_integrity_ok v"
proof -
  have len: "length demo_manifest = 25" by (simp add: demo_manifest_def)
  have al: "length demo_archive < 1000"
    by (simp add: demo_archive_def length_archive_of entry_data_def NAR_HEADER_SIZE_def
        NAR_ENTRY_SIZE_def MAX_PATH_def)
  then obtain pkg where p: "build_package demo_manifest demo_files False = Ok pkg"
    using builder_finish_ref [of "builder_update (builder_update builder_new demo_manifest) demo_archive"] len
    by (auto simp: build_package_def demo_archive_build builder_update_def builder_new_def)
  show ?thesis
    using package_roundtrip [OF p demo_archive_build _ _ is_utf8_demo manifest_parse_demo] len al p by auto
qed

end
