(* ===== verification/Machine.thy ===== *)
theory Machine
  imports Prelude
begin

text \<open>
  The contract shared by the kernel's stateful components. Each keeps its state behind a lock
  taken with interrupts disabled, so that its operations are atomic and any interleaving of the
  tasks that call them is a sequence of operations. A component promises that its initial state
  satisfies its invariant and that every operation keeps it, as long as fewer than \<open>bound\<close>
  operations were made: the bound is where a 64-bit counter of the component would wrap.
\<close>

locale op_machine =
  fixes init :: 's
    and exec :: "'op \<Rightarrow> 's \<Rightarrow> 's"
    and inv :: "nat \<Rightarrow> 's \<Rightarrow> bool"
    and bound :: nat
  assumes inv_init: "inv 0 init"
    and inv_exec: "inv n s \<Longrightarrow> Suc n < bound \<Longrightarrow> inv (Suc n) (exec oper s)"
begin

lemma inv_run_from:
  "inv n s \<Longrightarrow> n + length ops < bound \<Longrightarrow> inv (n + length ops) (fold exec ops s)"
proof (induction ops arbitrary: n s)
  case Nil
  then show ?case by simp
next
  case (Cons oper ops)
  then have "inv (Suc n) (exec oper s)" by (intro inv_exec) simp_all
  from Cons.IH [OF this] Cons.prems show ?case by simp
qed

lemma inv_run: "length ops < bound \<Longrightarrow> inv (length ops) (fold exec ops init)"
  using inv_run_from [OF inv_init, of ops] by simp

text \<open>Invariants hold at every moment of a run, not only at its end.\<close>

lemma inv_prefix:
  "length (pre @ post) < bound \<Longrightarrow> inv (length pre) (fold exec pre init)"
  by (rule inv_run) simp

end

end
