(* ===== verification/Scheduler.thy ===== *)
theory Scheduler
  imports Abi Machine "HOL-Library.Multiset"
begin

text \<open>
  The scheduler: the classes of \<^verbatim>\<open>kernel/src/sched/class.rs\<close> and the queues, the dispatch policy
  and the switch planning of \<^verbatim>\<open>kernel/src/sched/task.rs\<close>. Tick counts, dispatch counts and waiting
  times are natural numbers: they are 64-bit counters that advance at most once per tick of a
  100 Hz timer. Truncating subtraction is \<^verbatim>\<open>saturating_sub\<close>. Addresses stay 64-bit words.
\<close>

section \<open>Classes\<close>

datatype sched_class = Background | Normal | Realtime

text \<open>The discriminants, by which the source indexes its queues and orders the classes.\<close>

primrec class_index :: "sched_class \<Rightarrow> nat" where
  "class_index Background = 0"
| "class_index Normal = 1"
| "class_index Realtime = 2"

instantiation sched_class :: linorder
begin

definition less_eq_sched_class :: "sched_class \<Rightarrow> sched_class \<Rightarrow> bool" where
  "less_eq_sched_class a b \<longleftrightarrow> class_index a \<le> class_index b"

definition less_sched_class :: "sched_class \<Rightarrow> sched_class \<Rightarrow> bool" where
  "less_sched_class a b \<longleftrightarrow> class_index a < class_index b"

instance
proof
  fix a b :: sched_class
  assume "a \<le> b" "b \<le> a"
  then show "a = b" by (cases a; cases b) (simp_all add: less_eq_sched_class_def)
qed (auto simp: less_eq_sched_class_def less_sched_class_def)

end

definition TIMER_HZ :: nat where "TIMER_HZ = 100"

primrec quantum_ticks :: "sched_class \<Rightarrow> nat" where
  "quantum_ticks Realtime = 1"
| "quantum_ticks Normal = 3"
| "quantum_ticks Background = 6"

definition worst_case_wait_ms :: "sched_class \<Rightarrow> nat" where
  "worst_case_wait_ms c = quantum_ticks c * 1000 div TIMER_HZ"

primrec class_name :: "sched_class \<Rightarrow> bytes" where
  "class_name Realtime = ascii ''realtime''"
| "class_name Normal = ascii ''normal''"
| "class_name Background = ascii ''background''"

definition for_realm :: "u64 \<Rightarrow> sched_class" where
  "for_realm kind =
     (if kind = KIND_GAMING then Realtime
      else if kind = KIND_SYSTEM then Realtime
      else if kind = KIND_VAULT then Normal
      else Normal)"

definition STARVATION_LIMIT_TICKS :: nat where "STARVATION_LIMIT_TICKS = 50"
definition PROMOTION_INTERVAL_TICKS :: nat where "PROMOTION_INTERVAL_TICKS = 5"
definition REALTIME_LATENCY_BUDGET_TICKS :: nat where "REALTIME_LATENCY_BUDGET_TICKS = 8"

record class_stats =
  st_dispatches :: nat
  st_max_wait_ticks :: nat
  st_promotions :: nat

section \<open>Tasks and the scheduler\<close>

record kernel_stack =
  ks_slot :: u64
  ks_bottom :: u64
  ks_top :: u64

record task =
  tk_stack_pointer :: u64
  tk_stack :: kernel_stack
  tk_address_space_root :: "u64 option"
  tk_supervisor_rsp :: u64
  tk_class :: sched_class
  tk_ready_since :: nat
  tk_promoted :: bool
  tk_ticks_used :: nat
  tk_pid :: u64

text \<open>Subtracting 8 from a non-zero resume point below 8 would be an overflow.\<close>

definition kernel_rsp0 :: "task \<Rightarrow> (unit, u64) outcome" where
  "kernel_rsp0 t =
     (if tk_supervisor_rsp t \<noteq> 0
      then (if tk_supervisor_rsp t < 8 then Panic else Ok (tk_supervisor_rsp t - 8))
      else Ok (ks_top (tk_stack t)))"

record scheduler =
  sc_ready :: "task list list"
  sc_current :: "task option"
  sc_zombie :: "task option"
  sc_boot_stack_pointer :: u64
  sc_stats :: "class_stats list"
  sc_last_promotion :: nat

definition sched_new :: scheduler where
  "sched_new =
     \<lparr>sc_ready = [[], [], []], sc_current = None, sc_zombie = None, sc_boot_stack_pointer = 0,
      sc_stats = replicate 3 \<lparr>st_dispatches = 0, st_max_wait_ticks = 0, st_promotions = 0\<rparr>,
      sc_last_promotion = 0\<rparr>"

definition set_queue :: "nat \<Rightarrow> task list \<Rightarrow> scheduler \<Rightarrow> scheduler" where
  "set_queue c q s = s\<lparr>sc_ready := (sc_ready s)[c := q]\<rparr>"

definition enqueue :: "task \<Rightarrow> nat \<Rightarrow> scheduler \<Rightarrow> scheduler" where
  "enqueue t now s =
     (let t' = t\<lparr>tk_ready_since := now, tk_promoted := False\<rparr>; c = class_index (tk_class t)
      in set_queue c (sc_ready s ! c @ [t']) s)"

definition front_starving :: "nat \<Rightarrow> task list \<Rightarrow> bool" where
  "front_starving now q \<longleftrightarrow>
     (case q of [] \<Rightarrow> False | t # _ \<Rightarrow> now - tk_ready_since t \<ge> STARVATION_LIMIT_TICKS)"

definition any_nonempty :: "task list list \<Rightarrow> bool" where
  "any_nonempty qs \<longleftrightarrow> list_ex (\<lambda>q. q \<noteq> []) qs"

text \<open>
  \<^verbatim>\<open>pick_next\<close>: the rescue loop over the classes from the lowest, entered only when the last
  promotion is long enough ago, then the loop over the classes from the highest.
\<close>

definition pick_next :: "nat \<Rightarrow> scheduler \<Rightarrow> (task \<times> bool) option \<times> scheduler" where
  "pick_next now s =
     (let rescue_allowed = (now - sc_last_promotion s \<ge> PROMOTION_INTERVAL_TICKS)
      in case (if rescue_allowed
               then List.find (\<lambda>c. front_starving now (sc_ready s ! c)) [0..<length (sc_ready s)]
               else None) of
           Some c \<Rightarrow>
             (let outranked = any_nonempty (drop (c + 1) (sc_ready s));
                  t = hd (sc_ready s ! c);
                  s1 = set_queue c (tl (sc_ready s ! c)) s;
                  s2 = (if outranked then s1\<lparr>sc_last_promotion := now\<rparr> else s1)
              in (Some (t, outranked), s2))
         | None \<Rightarrow>
             (case List.find (\<lambda>c. sc_ready s ! c \<noteq> []) (rev [0..<length (sc_ready s)]) of
                Some c \<Rightarrow> (Some (hd (sc_ready s ! c), False), set_queue c (tl (sc_ready s ! c)) s)
              | None \<Rightarrow> (None, s)))"

definition higher_class_waiting :: "sched_class \<Rightarrow> scheduler \<Rightarrow> bool" where
  "higher_class_waiting c s \<longleftrightarrow> any_nonempty (drop (class_index c + 1) (sc_ready s))"

definition any_starving :: "nat \<Rightarrow> scheduler \<Rightarrow> bool" where
  "any_starving now s \<longleftrightarrow> list_ex (front_starving now) (sc_ready s)"

definition should_preempt :: "sched_class \<Rightarrow> nat \<Rightarrow> bool \<Rightarrow> nat \<Rightarrow> scheduler \<Rightarrow> bool" where
  "should_preempt c ticks_used promoted now s =
     (if higher_class_waiting c s then True
      else
        (let quantum = (if promoted then 1 else quantum_ticks c) in
         if ticks_used < quantum then False
         else sc_ready s ! class_index c \<noteq> [] \<or> any_starving now s))"

definition total_ready :: "scheduler \<Rightarrow> nat" where
  "total_ready s = sum_list (map length (sc_ready s))"

text \<open>\<^verbatim>\<open>record_dispatch\<close>: the task as it goes onto the CPU, and the statistics of its class.\<close>

definition record_dispatch :: "task \<Rightarrow> nat \<Rightarrow> bool \<Rightarrow> scheduler \<Rightarrow> task \<times> scheduler" where
  "record_dispatch t now promoted s =
     (let t' = t\<lparr>tk_promoted := promoted, tk_ticks_used := 0\<rparr>;
          waited = now - tk_ready_since t;
          c = class_index (tk_class t);
          st = sc_stats s ! c;
          st' = st\<lparr>st_dispatches := st_dispatches st + 1,
                   st_max_wait_ticks := (if waited > st_max_wait_ticks st then waited
                                         else st_max_wait_ticks st),
                   st_promotions := (if promoted then st_promotions st + 1 else st_promotions st)\<rparr>
      in (t', s\<lparr>sc_stats := (sc_stats s)[c := st']\<rparr>))"

section \<open>Spawning\<close>

text \<open>
  The task that \<^verbatim>\<open>Task::new\<close> and \<^verbatim>\<open>Task::new_with_context\<close> build around a freshly allocated stack;
  the frame they write into the stack is the subject of the theory \<open>ContextSwitch\<close>.
\<close>

definition task_new :: "kernel_stack \<Rightarrow> task" where
  "task_new ks =
     \<lparr>tk_stack_pointer = ks_top ks - 64, tk_stack = ks, tk_address_space_root = None,
      tk_supervisor_rsp = 0, tk_class = Normal, tk_ready_since = 0, tk_promoted = False,
      tk_ticks_used = 0, tk_pid = 0\<rparr>"

text \<open>\<^verbatim>\<open>spawn\<close> and \<^verbatim>\<open>spawn_with_context\<close>: both panic when no kernel stack is left.\<close>

definition spawn :: "kernel_stack option \<Rightarrow> nat \<Rightarrow> scheduler \<Rightarrow> (unit, scheduler) outcome" where
  "spawn ks now s =
     (case ks of None \<Rightarrow> Panic | Some k \<Rightarrow> Ok (enqueue (task_new k) now s))"

definition spawn_in_class ::
  "kernel_stack option \<Rightarrow> sched_class \<Rightarrow> nat \<Rightarrow> scheduler \<Rightarrow> (unit, scheduler) outcome" where
  "spawn_in_class ks c now s =
     (case ks of None \<Rightarrow> Panic | Some k \<Rightarrow> Ok (enqueue ((task_new k)\<lparr>tk_class := c\<rparr>) now s))"

definition spawn_process ::
  "kernel_stack option \<Rightarrow> u64 \<Rightarrow> u64 \<Rightarrow> sched_class \<Rightarrow> nat \<Rightarrow> scheduler \<Rightarrow> (unit, scheduler) outcome" where
  "spawn_process ks root pid c now s =
     (case ks of
        None \<Rightarrow> Panic
      | Some k \<Rightarrow>
          Ok (enqueue ((task_new k)\<lparr>tk_address_space_root := Some root, tk_pid := pid, tk_class := c\<rparr>) now s))"

section \<open>Switching\<close>

datatype switch_kind = Voluntary | VoluntaryFromUser | Preemptive

text \<open>
  \<^verbatim>\<open>current_stack_out\<close> is a pointer into the outgoing task; the model names the task by the slot
  of its kernel stack, which no other live task has, and \<^const>\<open>None\<close> is a scratch location.
\<close>

record switch =
  sw_out :: "u64 option"
  sw_next_stack :: u64
  sw_next_kernel_stack_top :: u64
  sw_next_address_space :: "u64 option"

definition plan_switch ::
  "switch_kind \<Rightarrow> nat \<Rightarrow> scheduler \<Rightarrow> (unit, switch option) outcome \<times> scheduler" where
  "plan_switch kind now s =
     (case pick_next now s of
        (None, s1) \<Rightarrow> (Ok None, s1)
      | (Some (next_task, promoted), s1) \<Rightarrow>
          (case sc_current s1 of
             None \<Rightarrow>
               (let c = class_index (tk_class next_task);
                    s2 = set_queue c (next_task # sc_ready s1 ! c) s1
                in (case kind of Voluntary \<Rightarrow> (Panic, s2) | _ \<Rightarrow> (Ok None, s2)))
           | Some cur \<Rightarrow>
               (case kernel_rsp0 next_task of
                  Ok rsp0 \<Rightarrow>
                    (let sw = \<lparr>sw_out = Some (ks_slot (tk_stack cur)),
                               sw_next_stack = tk_stack_pointer next_task,
                               sw_next_kernel_stack_top = rsp0,
                               sw_next_address_space = tk_address_space_root next_task\<rparr>;
                         (next', s2) = record_dispatch next_task now promoted s1;
                         s3 = enqueue (cur\<lparr>tk_ticks_used := 0\<rparr>) now s2
                     in (Ok (Some sw), s3\<lparr>sc_current := Some next'\<rparr>))
                | _ \<Rightarrow> (Panic, s1))))"

definition yield_now :: "nat \<Rightarrow> scheduler \<Rightarrow> (unit, switch option) outcome \<times> scheduler" where
  "yield_now = plan_switch Voluntary"

definition yield_from_syscall :: "nat \<Rightarrow> scheduler \<Rightarrow> (unit, switch option) outcome \<times> scheduler" where
  "yield_from_syscall = plan_switch VoluntaryFromUser"

definition preempt :: "nat \<Rightarrow> scheduler \<Rightarrow> (unit, switch option) outcome \<times> scheduler" where
  "preempt now s =
     (case sc_current s of
        None \<Rightarrow> plan_switch Preemptive now s
      | Some cur \<Rightarrow>
          (let cur' = cur\<lparr>tk_ticks_used := tk_ticks_used cur + 1\<rparr>;
               s1 = s\<lparr>sc_current := Some cur'\<rparr>
           in if should_preempt (tk_class cur') (tk_ticks_used cur') (tk_promoted cur') now s1
              then plan_switch Preemptive now s1
              else (Ok None, s1)))"

text \<open>
  \<^verbatim>\<open>exit_task\<close>: the switch away for good (with a zero stack pointer: halt), and the task that the
  previous exit left behind, whose stack is freed now.
\<close>

definition exit_task ::
  "u64 \<Rightarrow> nat \<Rightarrow> scheduler \<Rightarrow> (unit, switch \<times> task option) outcome \<times> scheduler" where
  "exit_task boot_privilege_stack now s =
     (case sc_current s of
        None \<Rightarrow> (Panic, s)
      | Some dying \<Rightarrow>
          (let reaped = sc_zombie s;
               s0 = s\<lparr>sc_current := None, sc_zombie := Some dying\<rparr>
           in case pick_next now s0 of
                (Some (next_task, promoted), s1) \<Rightarrow>
                  (let (next', s2) = record_dispatch next_task now promoted s1
                   in case kernel_rsp0 next' of
                        Ok rsp0 \<Rightarrow>
                          (Ok (\<lparr>sw_out = None, sw_next_stack = tk_stack_pointer next',
                                sw_next_kernel_stack_top = rsp0,
                                sw_next_address_space = tk_address_space_root next'\<rparr>, reaped),
                           s2\<lparr>sc_current := Some next'\<rparr>)
                      | _ \<Rightarrow> (Panic, s2))
              | (None, s1) \<Rightarrow>
                  (Ok (\<lparr>sw_out = None, sw_next_stack = sc_boot_stack_pointer s1,
                        sw_next_kernel_stack_top = boot_privilege_stack,
                        sw_next_address_space = None\<rparr>, reaped), s1)))"

definition reap_zombie :: "scheduler \<Rightarrow> task option \<times> scheduler" where
  "reap_zombie s = (sc_zombie s, s\<lparr>sc_zombie := None\<rparr>)"

text \<open>The first half of \<^verbatim>\<open>run_until_idle\<close>: dispatch from the boot context, if there is any task.\<close>

definition run_until_idle :: "nat \<Rightarrow> scheduler \<Rightarrow> (unit, switch option) outcome \<times> scheduler" where
  "run_until_idle now s =
     (case pick_next now s of
        (None, s1) \<Rightarrow> (Ok None, s1)
      | (Some (next_task, promoted), s1) \<Rightarrow>
          (let (next', s2) = record_dispatch next_task now promoted s1;
               s3 = s2\<lparr>sc_current := Some next'\<rparr>
           in case kernel_rsp0 next' of
                Ok rsp0 \<Rightarrow>
                  (Ok (Some \<lparr>sw_out = None, sw_next_stack = tk_stack_pointer next',
                             sw_next_kernel_stack_top = rsp0,
                             sw_next_address_space = tk_address_space_root next'\<rparr>), s3)
              | _ \<Rightarrow> (Panic, s3)))"

text \<open>\<^verbatim>\<open>start\<close>: the one-way trip, which records no dispatch and panics without tasks.\<close>

definition start :: "nat \<Rightarrow> scheduler \<Rightarrow> (unit, u64) outcome \<times> scheduler" where
  "start now s =
     (case pick_next now s of
        (None, s1) \<Rightarrow> (Panic, s1)
      | (Some (next_task, _), s1) \<Rightarrow> (Ok (tk_stack_pointer next_task), s1\<lparr>sc_current := Some next_task\<rparr>))"

definition current_pid :: "scheduler \<Rightarrow> u64" where
  "current_pid s = (case sc_current s of Some t \<Rightarrow> tk_pid t | None \<Rightarrow> 0)"

definition current_task_owns_kernel_stack :: "scheduler \<Rightarrow> bool" where
  "current_task_owns_kernel_stack s \<longleftrightarrow> sc_current s \<noteq> None"

definition class_stats_report :: "scheduler \<Rightarrow> (sched_class \<times> class_stats) list" where
  "class_stats_report s =
     [(Background, sc_stats s ! 0), (Normal, sc_stats s ! 1), (Realtime, sc_stats s ! 2)]"

definition set_current_class :: "sched_class \<Rightarrow> scheduler \<Rightarrow> scheduler" where
  "set_current_class c s =
     (case sc_current s of Some t \<Rightarrow> s\<lparr>sc_current := Some (t\<lparr>tk_class := c\<rparr>)\<rparr> | None \<Rightarrow> s)"

definition task_count :: "scheduler \<Rightarrow> nat" where
  "task_count s = total_ready s + (if sc_current s \<noteq> None then 1 else 0)"

text \<open>
  \<^verbatim>\<open>perform_switch\<close>: what the CPU holds once another context runs. The address of the incoming
  kernel stack goes through \<^verbatim>\<open>VirtAddr::new\<close> of the \<^verbatim>\<open>x86_64\<close> crate, which panics on an address
  it rejects; the outgoing stack pointer, which only the hardware knows, is \<open>rsp\<close>.
\<close>

record cpu_context =
  cpu_rsp0 :: u64
  cpu_cr3 :: u64
  cpu_rsp :: u64

definition store_stack_pointer :: "u64 option \<Rightarrow> u64 \<Rightarrow> scheduler \<Rightarrow> scheduler" where
  "store_stack_pointer slot rsp s =
     (let upd = (\<lambda>t. if Some (ks_slot (tk_stack t)) = slot then t\<lparr>tk_stack_pointer := rsp\<rparr> else t)
      in s\<lparr>sc_ready := map (map upd) (sc_ready s), sc_current := map_option upd (sc_current s)\<rparr>)"

definition perform_switch ::
  "(u64 \<Rightarrow> bool) \<Rightarrow> u64 \<Rightarrow> u64 \<Rightarrow> switch \<Rightarrow> scheduler \<Rightarrow> (unit, cpu_context \<times> scheduler) outcome" where
  "perform_switch virt_addr_ok kernel_root rsp sw s =
     (if \<not> virt_addr_ok (sw_next_kernel_stack_top sw) then Panic
      else Ok (\<lparr>cpu_rsp0 = sw_next_kernel_stack_top sw,
                cpu_cr3 = (case sw_next_address_space sw of Some root \<Rightarrow> root | None \<Rightarrow> kernel_root),
                cpu_rsp = sw_next_stack sw\<rparr>,
               store_stack_pointer (sw_out sw) rsp s))"

end
