(* ===== verification/SchedulerProofs.thy ===== *)
theory SchedulerProofs
  imports Scheduler
begin

text \<open>
  The scheduler's invariant and its policy: what \<^const>\<open>pick_next\<close> chooses, that no task is lost or
  duplicated, that promotions are rate-limited, that a waiting higher class takes the CPU at the
  next tick, and one run in which the rate limit does not bound what a real-time task donates.
\<close>

section \<open>The invariant\<close>

definition queue_ok :: "nat \<Rightarrow> nat \<Rightarrow> task list \<Rightarrow> bool" where
  "queue_ok clock c q \<longleftrightarrow>
     (\<forall>t \<in> set q. class_index (tk_class t) = c \<and> tk_ready_since t \<le> clock) \<and>
     sorted (map tk_ready_since q)"

definition sched_ok :: "nat \<Rightarrow> scheduler \<Rightarrow> bool" where
  "sched_ok clock s \<longleftrightarrow>
     length (sc_ready s) = 3 \<and> length (sc_stats s) = 3 \<and> sc_last_promotion s \<le> clock \<and>
     (\<forall>c < 3. queue_ok clock c (sc_ready s ! c))"

lemma class_index_lt [simp]: "class_index c < 3"
  by (cases c) simp_all

lemma queue_ok_mono: "queue_ok clock c q \<Longrightarrow> clock \<le> clock' \<Longrightarrow> queue_ok clock' c q"
  by (auto simp: queue_ok_def)

lemma sched_ok_mono: "sched_ok clock s \<Longrightarrow> clock \<le> clock' \<Longrightarrow> sched_ok clock' s"
  by (auto simp: sched_ok_def intro: queue_ok_mono)

lemma sched_ok_new: "sched_ok clock sched_new"
  by (auto simp: sched_ok_def sched_new_def queue_ok_def numeral_3_eq_3 less_Suc_eq)

lemma set_queue_simps [simp]:
  "sc_ready (set_queue c q s) = (sc_ready s)[c := q]"
  "sc_current (set_queue c q s) = sc_current s"
  "sc_zombie (set_queue c q s) = sc_zombie s"
  "sc_stats (set_queue c q s) = sc_stats s"
  "sc_last_promotion (set_queue c q s) = sc_last_promotion s"
  "sc_boot_stack_pointer (set_queue c q s) = sc_boot_stack_pointer s"
  by (simp_all add: set_queue_def)

lemma sched_ok_set_queue:
  "sched_ok clock s \<Longrightarrow> queue_ok clock c q \<Longrightarrow> sched_ok clock (set_queue c q s)"
  by (cases "c < 3") (auto simp: sched_ok_def nth_list_update)

lemma sched_ok_frame:
  "sched_ok clock s \<Longrightarrow> sc_ready s' = sc_ready s \<Longrightarrow> length (sc_stats s') = length (sc_stats s) \<Longrightarrow>
   sc_last_promotion s' \<le> clock \<Longrightarrow> sched_ok clock s'"
  by (simp add: sched_ok_def)

lemma queue_ok_tl: "queue_ok clock c (t # q) \<Longrightarrow> queue_ok clock c q"
  by (simp add: queue_ok_def)

lemma sched_ok_queue: "sched_ok clock s \<Longrightarrow> c < 3 \<Longrightarrow> queue_ok clock c (sc_ready s ! c)"
  by (simp add: sched_ok_def)

lemma enqueue_ok:
  assumes "sched_ok now s"
  shows "sched_ok now (enqueue t now s)"
proof -
  let ?c = "class_index (tk_class t)"
  have "queue_ok now ?c (sc_ready s ! ?c)" using assms by (simp add: sched_ok_queue)
  then have "queue_ok now ?c (sc_ready s ! ?c @ [t\<lparr>tk_ready_since := now, tk_promoted := False\<rparr>])"
    by (auto simp: queue_ok_def sorted_append)
  with assms show ?thesis by (simp add: enqueue_def Let_def sched_ok_set_queue)
qed

lemma record_dispatch_simps:
  assumes "record_dispatch t now p s = (t', s')"
  shows "sc_ready s' = sc_ready s" "sc_current s' = sc_current s" "sc_zombie s' = sc_zombie s"
    "sc_last_promotion s' = sc_last_promotion s" "length (sc_stats s') = length (sc_stats s)"
    "sc_boot_stack_pointer s' = sc_boot_stack_pointer s"
    "t' = t\<lparr>tk_promoted := p, tk_ticks_used := 0\<rparr>"
  using assms by (auto simp: record_dispatch_def Let_def)

section \<open>What is dispatched\<close>

lemma front_starving_Cons [simp]:
  "front_starving now (t # q) \<longleftrightarrow> STARVATION_LIMIT_TICKS \<le> now - tk_ready_since t"
  "\<not> front_starving now []"
  by (simp_all add: front_starving_def)

lemma find_upt_Some:
  "List.find P [0..<n] = Some c \<Longrightarrow> c < n \<and> P c \<and> (\<forall>c' < c. \<not> P c')"
  by (auto simp: find_Some_iff)

lemma find_rev_upt_Some:
  assumes "List.find P (rev [0..<n]) = Some c"
  shows "c < n \<and> P c \<and> (\<forall>c'. c < c' \<and> c' < n \<longrightarrow> \<not> P c')"
proof -
  obtain i where i: "i < n" "P (rev [0..<n] ! i)" "c = rev [0..<n] ! i" "\<forall>j < i. \<not> P (rev [0..<n] ! j)"
    using assms by (auto simp: find_Some_iff)
  have c: "c = n - Suc i" using i by (simp add: rev_nth)
  have "\<not> P c'" if "c < c'" "c' < n" for c'
    using i(4)[rule_format, of "n - Suc c'"] that c i(1) by (simp add: rev_nth)
  then show ?thesis using i c by auto
qed

lemma pick_next_cases:
  assumes ok: "sched_ok clock s" and pick: "pick_next now s = (r, s')"
  obtains (idle) "r = None" "s' = s" "\<forall>c < 3. sc_ready s ! c = []"
  | (rescue) c t q where "c < 3" "sc_ready s ! c = t # q"
      "PROMOTION_INTERVAL_TICKS \<le> now - sc_last_promotion s"
      "STARVATION_LIMIT_TICKS \<le> now - tk_ready_since t"
      "\<forall>c' < c. \<not> front_starving now (sc_ready s ! c')"
      "r = Some (t, any_nonempty (drop (c + 1) (sc_ready s)))"
      "s' = (if any_nonempty (drop (c + 1) (sc_ready s))
             then (set_queue c q s)\<lparr>sc_last_promotion := now\<rparr> else set_queue c q s)"
  | (highest) c t q where "c < 3" "sc_ready s ! c = t # q"
      "\<forall>c'. c < c' \<and> c' < 3 \<longrightarrow> sc_ready s ! c' = []"
      "now - sc_last_promotion s < PROMOTION_INTERVAL_TICKS \<or>
       (\<forall>c' < 3. \<not> front_starving now (sc_ready s ! c'))"
      "r = Some (t, False)" "s' = set_queue c q s"
proof -
  have len: "length (sc_ready s) = 3" using ok by (simp add: sched_ok_def)
  let ?f = "if PROMOTION_INTERVAL_TICKS \<le> now - sc_last_promotion s
            then List.find (\<lambda>c. front_starving now (sc_ready s ! c)) [0..<3] else None"
  show ?thesis
  proof (cases ?f)
    case (Some c)
    then have a: "PROMOTION_INTERVAL_TICKS \<le> now - sc_last_promotion s"
      and c: "c < 3" "front_starving now (sc_ready s ! c)" "\<forall>c' < c. \<not> front_starving now (sc_ready s ! c')"
      by (auto dest: find_upt_Some split: if_splits)
    obtain t q where q: "sc_ready s ! c = t # q" using c(2) by (cases "sc_ready s ! c") auto
    show ?thesis
      using rescue [of c t q] a c q pick [unfolded pick_next_def Let_def len Some option.case] by auto
  next
    case None
    then have n: "now - sc_last_promotion s < PROMOTION_INTERVAL_TICKS \<or>
       (\<forall>c' < 3. \<not> front_starving now (sc_ready s ! c'))"
      by (auto simp: find_None_iff split: if_splits)
    show ?thesis
    proof (cases "List.find (\<lambda>c. sc_ready s ! c \<noteq> []) (rev [0..<3])")
      case (Some c)
      from find_rev_upt_Some [OF this]
      have c: "c < 3" "sc_ready s ! c \<noteq> []" "\<forall>c'. c < c' \<and> c' < 3 \<longrightarrow> sc_ready s ! c' = []" by auto
      then obtain t q where q: "sc_ready s ! c = t # q" by (meson list.exhaust)
      show ?thesis
        using highest [of c t q] c n q pick [unfolded pick_next_def Let_def len None Some option.case] by auto
    next
      case none: None
      then have "\<forall>c < 3. sc_ready s ! c = []" by (auto simp: find_None_iff)
      then show ?thesis
        using idle pick [unfolded pick_next_def Let_def len None none option.case] by auto
    qed
  qed
qed

text \<open>The tasks a scheduler holds: queued and running.\<close>

definition live_tasks :: "scheduler \<Rightarrow> task multiset" where
  "live_tasks s =
     mset (concat (sc_ready s)) + (case sc_current s of Some t \<Rightarrow> {#t#} | None \<Rightarrow> {#})"

definition live_stacks :: "scheduler \<Rightarrow> kernel_stack multiset" where
  "live_stacks s = image_mset tk_stack (live_tasks s)"

lemma mset_concat_update:
  "c < length qs \<Longrightarrow> mset (concat (qs[c := q])) + mset (qs ! c) = mset (concat qs) + mset q"
proof (induction qs arbitrary: c)
  case (Cons q0 qs)
  then show ?case by (cases c) (auto simp: ac_simps)
qed simp

lemma concat_update_Cons:
  "c < length qs \<Longrightarrow> qs ! c = t # q \<Longrightarrow> mset (concat qs) = add_mset t (mset (concat (qs[c := q])))"
  using mset_concat_update [of c qs q] by simp

lemma concat_update_snoc:
  "c < length qs \<Longrightarrow> mset (concat (qs[c := qs ! c @ [t]])) = add_mset t (mset (concat qs))"
  using mset_concat_update [of c qs "qs ! c @ [t]"] by simp

lemma pick_next_keeps:
  assumes "sched_ok clock s" "clock \<le> now" "pick_next now s = (r, s')"
  shows "sched_ok now s'" "sc_current s' = sc_current s" "sc_zombie s' = sc_zombie s"
    "sc_stats s' = sc_stats s" "sc_boot_stack_pointer s' = sc_boot_stack_pointer s"
    "r = None \<Longrightarrow> s' = s"
    "r = Some (t, p) \<Longrightarrow> mset (concat (sc_ready s)) = add_mset t (mset (concat (sc_ready s')))"
proof -
  have ok: "sched_ok now s" using sched_ok_mono assms(1,2) by blast
  then have len: "length (sc_ready s) = 3" by (simp add: sched_ok_def)
  have q: "sched_ok now (set_queue c q s)" if "c < 3" "sc_ready s ! c = t # q" for c t q
    using sched_ok_queue [OF ok that(1)] ok that by (auto intro: sched_ok_set_queue queue_ok_tl)
  from assms(1,3) have *: "sched_ok now s' \<and> sc_current s' = sc_current s \<and> sc_zombie s' = sc_zombie s \<and>
    sc_stats s' = sc_stats s \<and> sc_boot_stack_pointer s' = sc_boot_stack_pointer s \<and> (r = None \<longrightarrow> s' = s) \<and>
    (\<forall>t p. r = Some (t, p) \<longrightarrow> mset (concat (sc_ready s)) = add_mset t (mset (concat (sc_ready s'))))"
  proof (cases rule: pick_next_cases)
    case idle
    then show ?thesis using ok by simp
  next
    case (rescue c t q)
    then show ?thesis
      using q [OF rescue(1,2)] len concat_update_Cons [of c "sc_ready s" t q]
      by (auto intro: sched_ok_frame)
  next
    case (highest c t q)
    then show ?thesis
      using q [OF highest(1,2)] len concat_update_Cons [of c "sc_ready s" t q] by auto
  qed
  then show "sched_ok now s'" "sc_current s' = sc_current s" "sc_zombie s' = sc_zombie s"
    "sc_stats s' = sc_stats s" "sc_boot_stack_pointer s' = sc_boot_stack_pointer s"
    "r = None \<Longrightarrow> s' = s"
    "r = Some (t, p) \<Longrightarrow> mset (concat (sc_ready s)) = add_mset t (mset (concat (sc_ready s')))"
    by blast+
qed

section \<open>Runs\<close>

text \<open>
  A run of the scheduler: the clock, the scheduler, the kernel stacks of all tasks ever
  spawned and of all tasks freed, and whether the kernel panicked. \<open>OpTick\<close> is a timer interrupt,
  \<open>OpEnterUser\<close> is \<^verbatim>\<open>usermode\<close> writing the running task's resume point through \<^verbatim>\<open>supervisor_slot\<close>.
  Yielding and exiting are calls of the running task, \<open>OpRun\<close> and \<open>OpReap\<close> are made by the boot
  context, which runs only while no task does.
\<close>

datatype sched_op =
    OpSpawn "kernel_stack option"
  | OpSpawnInClass "kernel_stack option" sched_class
  | OpSpawnProcess "kernel_stack option" u64 u64 sched_class
  | OpTick
  | OpYield
  | OpYieldFromUser
  | OpExit u64
  | OpSetClass sched_class
  | OpEnterUser u64
  | OpRun
  | OpReap

record sched_world =
  wd_clock :: nat
  wd_sched :: scheduler
  wd_spawned :: "kernel_stack list"
  wd_freed :: "kernel_stack list"
  wd_panicked :: bool

definition world_init :: sched_world where
  "world_init = \<lparr>wd_clock = 0, wd_sched = sched_new, wd_spawned = [], wd_freed = [], wd_panicked = False\<rparr>"

definition stacks_of :: "task option \<Rightarrow> kernel_stack list" where
  "stacks_of t = (case t of Some t \<Rightarrow> [tk_stack t] | None \<Rightarrow> [])"

definition spawned_with :: "kernel_stack option \<Rightarrow> (unit, scheduler) outcome \<Rightarrow> sched_world \<Rightarrow> sched_world" where
  "spawned_with ks r w =
     (case (ks, r) of
        (Some k, Ok s') \<Rightarrow> w\<lparr>wd_sched := s', wd_spawned := wd_spawned w @ [k]\<rparr>
      | _ \<Rightarrow> w\<lparr>wd_panicked := True\<rparr>)"

definition switched_with ::
  "(unit, switch option) outcome \<times> scheduler \<Rightarrow> sched_world \<Rightarrow> sched_world" where
  "switched_with r w =
     (case r of (Ok _, s') \<Rightarrow> w\<lparr>wd_sched := s'\<rparr> | (_, s') \<Rightarrow> w\<lparr>wd_sched := s', wd_panicked := True\<rparr>)"

fun sched_step :: "sched_op \<Rightarrow> sched_world \<Rightarrow> sched_world" where
  "sched_step (OpSpawn ks) w = spawned_with ks (spawn ks (wd_clock w) (wd_sched w)) w"
| "sched_step (OpSpawnInClass ks c) w = spawned_with ks (spawn_in_class ks c (wd_clock w) (wd_sched w)) w"
| "sched_step (OpSpawnProcess ks root pid c) w =
     spawned_with ks (spawn_process ks root pid c (wd_clock w) (wd_sched w)) w"
| "sched_step OpTick w =
     switched_with (preempt (wd_clock w + 1) (wd_sched w)) (w\<lparr>wd_clock := wd_clock w + 1\<rparr>)"
| "sched_step OpYield w =
     (if sc_current (wd_sched w) = None then w
      else switched_with (yield_now (wd_clock w) (wd_sched w)) w)"
| "sched_step OpYieldFromUser w = switched_with (yield_from_syscall (wd_clock w) (wd_sched w)) w"
| "sched_step (OpExit boot_privilege_stack) w =
     (if sc_current (wd_sched w) = None then w
      else (case exit_task boot_privilege_stack (wd_clock w) (wd_sched w) of
              (Ok (sw, reaped), s') \<Rightarrow> w\<lparr>wd_sched := s', wd_freed := wd_freed w @ stacks_of reaped\<rparr>
            | (_, s') \<Rightarrow> w\<lparr>wd_panicked := True\<rparr>))"
| "sched_step (OpSetClass c) w = w\<lparr>wd_sched := set_current_class c (wd_sched w)\<rparr>"
| "sched_step (OpEnterUser rsp) w =
     (if rsp = 0 \<or> 8 \<le> rsp
      then w\<lparr>wd_sched := (wd_sched w)\<lparr>sc_current :=
               map_option (\<lambda>t. t\<lparr>tk_supervisor_rsp := rsp\<rparr>) (sc_current (wd_sched w))\<rparr>\<rparr>
      else w)"
| "sched_step OpRun w =
     (if sc_current (wd_sched w) \<noteq> None then w
      else switched_with (run_until_idle (wd_clock w) (wd_sched w)) w)"
| "sched_step OpReap w =
     (if sc_current (wd_sched w) \<noteq> None then w
      else (case reap_zombie (wd_sched w) of
              (z, s') \<Rightarrow> w\<lparr>wd_sched := s', wd_freed := wd_freed w @ stacks_of z\<rparr>))"

text \<open>A panicked kernel does nothing more.\<close>

definition sched_exec :: "sched_op \<Rightarrow> sched_world \<Rightarrow> sched_world" where
  "sched_exec oper w = (if wd_panicked w then w else sched_step oper w)"

definition promo_total :: "scheduler \<Rightarrow> nat" where
  "promo_total s = sum_list (map st_promotions (sc_stats s))"

definition sup_ok :: "task \<Rightarrow> bool" where
  "sup_ok t \<longleftrightarrow> tk_supervisor_rsp t = 0 \<or> 8 \<le> tk_supervisor_rsp t"

text \<open>The part of the invariant that speaks of the scheduler alone.\<close>

definition policy_ok :: "nat \<Rightarrow> scheduler \<Rightarrow> bool" where
  "policy_ok clock s \<longleftrightarrow>
     sched_ok clock s \<and> PROMOTION_INTERVAL_TICKS * promo_total s \<le> sc_last_promotion s \<and>
     (\<forall>t \<in># live_tasks s. sup_ok t)"

definition sched_inv :: "nat \<Rightarrow> sched_world \<Rightarrow> bool" where
  "sched_inv n w \<longleftrightarrow>
     (\<not> wd_panicked w \<longrightarrow>
        policy_ok (wd_clock w) (wd_sched w) \<and>
        mset (wd_spawned w) =
          live_stacks (wd_sched w) + mset (stacks_of (sc_zombie (wd_sched w))) + mset (wd_freed w))"

lemma kernel_rsp0_ok: "sup_ok t \<Longrightarrow> \<exists>v. kernel_rsp0 t = Ok v"
  by (auto simp: kernel_rsp0_def sup_ok_def)

lemma live_simps:
  "live_tasks (s\<lparr>sc_current := None\<rparr>) = mset (concat (sc_ready s))"
  "live_tasks (s\<lparr>sc_current := Some t\<rparr>) = add_mset t (mset (concat (sc_ready s)))"
  "sc_current s = None \<Longrightarrow> live_tasks s = mset (concat (sc_ready s))"
  "sc_current s = Some t \<Longrightarrow> live_tasks s = add_mset t (mset (concat (sc_ready s)))"
  by (simp_all add: live_tasks_def)

lemma ready_enqueue:
  assumes "length (sc_ready s) = 3"
  shows "mset (concat (sc_ready (enqueue t now s))) =
    add_mset (t\<lparr>tk_ready_since := now, tk_promoted := False\<rparr>) (mset (concat (sc_ready s)))"
  using assms concat_update_snoc [of "class_index (tk_class t)" "sc_ready s"]
  by (simp add: enqueue_def Let_def)

lemma enqueue_simps [simp]:
  "sc_current (enqueue t now s) = sc_current s" "sc_zombie (enqueue t now s) = sc_zombie s"
  "sc_stats (enqueue t now s) = sc_stats s" "sc_last_promotion (enqueue t now s) = sc_last_promotion s"
  by (simp_all add: enqueue_def Let_def)

lemma enqueue_policy:
  assumes "policy_ok now s" "sup_ok t"
  shows "policy_ok now (enqueue t now s)"
    "live_stacks (enqueue t now s) = add_mset (tk_stack t) (live_stacks s)"
proof -
  have "length (sc_ready s) = 3" using assms(1) by (simp add: policy_ok_def sched_ok_def)
  note r = ready_enqueue [OF this, of t now]
  show "live_stacks (enqueue t now s) = add_mset (tk_stack t) (live_stacks s)"
    by (simp add: live_stacks_def live_tasks_def r)
  show "policy_ok now (enqueue t now s)"
    using assms enqueue_ok [of now s t]
    by (auto simp: policy_ok_def promo_total_def live_tasks_def r sup_ok_def)
qed

lemma pick_next_promotion:
  assumes "sched_ok clock s" "pick_next now s = (Some (t, p), s')"
  shows "if p then sc_last_promotion s' = now \<and> sc_last_promotion s + PROMOTION_INTERVAL_TICKS \<le> now
         else sc_last_promotion s' = sc_last_promotion s"
  using assms
proof (cases rule: pick_next_cases)
  case (rescue c t' q)
  then show ?thesis by (auto simp: PROMOTION_INTERVAL_TICKS_def)
qed auto

lemma sum_list_map_update:
  fixes f :: "'a \<Rightarrow> nat"
  shows "c < length xs \<Longrightarrow> sum_list (map f (xs[c := x])) + f (xs ! c) = sum_list (map f xs) + f x"
proof (induction xs arbitrary: c)
  case (Cons y ys)
  show ?case
  proof (cases c)
    case (Suc c')
    with Cons.prems Cons.IH [of c'] show ?thesis by simp
  qed simp
qed simp

lemma promo_total_dispatch:
  assumes "record_dispatch t now p s = (t', s')" "length (sc_stats s) = 3"
  shows "promo_total s' = promo_total s + (if p then 1 else 0)"
proof -
  define st' where "st' = sc_stats (snd (record_dispatch t now p s)) ! class_index (tk_class t)"
  have s': "s' = snd (record_dispatch t now p s)" using assms(1) by simp
  have st': "sc_stats s' = (sc_stats s)[class_index (tk_class t) := st']"
    "st_promotions st' = st_promotions (sc_stats s ! class_index (tk_class t)) + (if p then 1 else 0)"
    using assms(2) by (simp_all add: s' st'_def record_dispatch_def Let_def)
  have "class_index (tk_class t) < length (sc_stats s)" using assms(2) by simp
  from sum_list_map_update [OF this, of st_promotions st'] show ?thesis
    unfolding promo_total_def st' by linarith
qed

text \<open>Taking the next task off its queue and accounting for it.\<close>

lemma dispatch_policy:
  assumes "policy_ok clock s" "clock \<le> now"
    and pick: "pick_next now s = (Some (t, p), s1)" and disp: "record_dispatch t now p s1 = (t', s2)"
  shows "sched_ok now s2" "PROMOTION_INTERVAL_TICKS * promo_total s2 \<le> sc_last_promotion s2"
    "mset (concat (sc_ready s)) = add_mset t (mset (concat (sc_ready s2)))"
    "sup_ok t" "sup_ok t'" "tk_stack t' = tk_stack t"
    "sc_current s2 = sc_current s" "sc_zombie s2 = sc_zombie s"
proof -
  have ok: "sched_ok clock s" using assms(1) by (simp add: policy_ok_def)
  note keeps = pick_next_keeps [OF ok assms(2) pick] and d = record_dispatch_simps [OF disp]
  from keeps(1) have len: "length (sc_stats s1) = 3" and len2: "sc_last_promotion s1 \<le> now"
    by (simp_all add: sched_ok_def)
  show "sched_ok now s2" by (rule sched_ok_frame [OF keeps(1)]) (use d len2 in simp_all)
  show "PROMOTION_INTERVAL_TICKS * promo_total s2 \<le> sc_last_promotion s2"
    using promo_total_dispatch [OF disp len] pick_next_promotion [OF ok pick] keeps(4) assms(1) d
    by (auto simp: policy_ok_def promo_total_def add_mult_distrib2 split: if_splits)
  show 1: "mset (concat (sc_ready s)) = add_mset t (mset (concat (sc_ready s2)))"
    using keeps(7) d by simp
  then have "t \<in># live_tasks s" by (simp add: live_tasks_def)
  then show "sup_ok t" using assms(1) by (simp add: policy_ok_def)
  then show "sup_ok t'" using d by (simp add: sup_ok_def)
  show "tk_stack t' = tk_stack t" "sc_current s2 = sc_current s"
    "sc_zombie s2 = sc_zombie s" using d keeps by simp_all
qed

lemma policy_parts:
  assumes "policy_ok clock s"
  shows "sched_ok clock s" "\<And>t. t \<in> set (concat (sc_ready s)) \<Longrightarrow> sup_ok t"
    "\<And>t. sc_current s = Some t \<Longrightarrow> sup_ok t"
  using assms by (auto simp: policy_ok_def live_tasks_def)

lemma policy_okI:
  assumes "sched_ok now s" "PROMOTION_INTERVAL_TICKS * promo_total s \<le> sc_last_promotion s"
    "\<And>t. t \<in># mset (concat (sc_ready s)) \<Longrightarrow> sup_ok t" "\<And>t. sc_current s = Some t \<Longrightarrow> sup_ok t"
  shows "policy_ok now s"
  using assms by (auto simp: policy_ok_def live_tasks_def split: option.splits)

text \<open>A task placed on the CPU by the boot context or by the exit of another.\<close>

lemma install_policy:
  assumes "policy_ok clock s" "clock \<le> now" "sc_current s = None"
    and "pick_next now s = (Some (t, p), s1)" "record_dispatch t now p s1 = (t', s2)"
  shows "policy_ok now (s2\<lparr>sc_current := Some t'\<rparr>)"
    "live_stacks (s2\<lparr>sc_current := Some t'\<rparr>) = live_stacks s"
proof -
  note d = dispatch_policy [OF assms(1,2,4,5)]
  show "policy_ok now (s2\<lparr>sc_current := Some t'\<rparr>)"
  proof (rule policy_okI)
    show "sched_ok now (s2\<lparr>sc_current := Some t'\<rparr>)" using d(1) by (simp add: sched_ok_def)
    show "sup_ok u" if "u \<in># mset (concat (sc_ready (s2\<lparr>sc_current := Some t'\<rparr>)))" for u
    proof -
      have "u \<in># mset (concat (sc_ready s))" using that unfolding d(3) by simp
      then show ?thesis using policy_parts(2) [OF assms(1)] by simp
    qed
  qed (use d in \<open>auto simp: promo_total_def\<close>)
  show "live_stacks (s2\<lparr>sc_current := Some t'\<rparr>) = live_stacks s"
    using assms(3) d by (simp add: live_stacks_def live_tasks_def)
qed

text \<open>A task that takes over from the running one, which goes to the back of its queue.\<close>

lemma plan_switch_policy:
  assumes "policy_ok clock s" "clock \<le> now" "sc_current s = Some cur" "plan_switch kind now s = (r, s')"
  shows "\<exists>sw. r = Ok sw" "policy_ok now s'" "live_stacks s' = live_stacks s" "sc_zombie s' = sc_zombie s"
proof -
  have ok: "sched_ok clock s" and ok': "policy_ok now s"
    using assms(1,2) sched_ok_mono by (auto simp: policy_ok_def)
  have cur: "sup_ok cur" using policy_parts(3) [OF assms(1,3)] .
  obtain o1 s1 where pick: "pick_next now s = (o1, s1)" by (cases "pick_next now s")
  note k = pick_next_keeps [OF ok assms(2) pick]
  have "(\<exists>sw. r = Ok sw) \<and> policy_ok now s' \<and> live_stacks s' = live_stacks s \<and> sc_zombie s' = sc_zombie s"
  proof (cases o1)
    case None
    then show ?thesis using assms(4) pick k(6) ok' by (auto simp: plan_switch_def)
  next
    case (Some tp)
    obtain t p where tp: "tp = (t, p)" by (cases tp)
    with Some pick have pick': "pick_next now s = (Some (t, p), s1)" by simp
    obtain t' s2 where rd: "record_dispatch t now p s1 = (t', s2)" by (cases "record_dispatch t now p s1")
    note d = dispatch_policy [OF assms(1,2) pick' rd]
    obtain v where v: "kernel_rsp0 t = Ok v" using kernel_rsp0_ok [OF d(4)] by blast
    have curs: "sc_current s1 = Some cur" using k(2) assms(3) by simp
    let ?cur = "cur\<lparr>tk_ticks_used := 0\<rparr>"
    have s': "s' = (enqueue ?cur now s2)\<lparr>sc_current := Some t'\<rparr>" and r: "\<exists>sw. r = Ok sw"
      using assms(4) pick' curs v rd by (auto simp: plan_switch_def Let_def)
    have len: "length (sc_ready s2) = 3" using d(1) by (simp add: sched_ok_def)
    note e = ready_enqueue [OF len, of ?cur now]
    have live: "live_stacks s' = live_stacks s"
      using assms(3) d e by (simp add: live_stacks_def live_tasks_def s')
    have "policy_ok now s'"
    proof (rule policy_okI)
      show "sched_ok now s'" using enqueue_ok [OF d(1)] by (simp add: s' sched_ok_def)
      show "PROMOTION_INTERVAL_TICKS * promo_total s' \<le> sc_last_promotion s'"
        using d(2) by (simp add: s' promo_total_def)
      show "sup_ok u" if "sc_current s' = Some u" for u using that d(5) by (simp add: s')
      show "sup_ok u" if "u \<in># mset (concat (sc_ready s'))" for u
      proof -
        from that have "u = ?cur\<lparr>tk_ready_since := now, tk_promoted := False\<rparr> \<or> u \<in># mset (concat (sc_ready s2))"
          using e by (simp add: s')
        moreover have "u \<in># mset (concat (sc_ready s))" if "u \<in># mset (concat (sc_ready s2))"
          unfolding d(3) using that by simp
        ultimately show ?thesis using cur policy_parts(2) [OF assms(1)] by (auto simp: sup_ok_def)
      qed
    qed
    then show ?thesis using live r d(8) s' by simp
  qed
  then show "\<exists>sw. r = Ok sw" "policy_ok now s'" "live_stacks s' = live_stacks s" "sc_zombie s' = sc_zombie s"
    by blast+
qed

text \<open>
  Without a running task nothing is switched: the chosen task goes back to the front of the
  queue it came from. Only the time of the last promotion may have moved.
\<close>

lemma plan_switch_idle:
  assumes "policy_ok clock s" "clock \<le> now" "sc_current s = None" "plan_switch kind now s = (r, s')"
  shows "sc_ready s' = sc_ready s" "sc_current s' = None" "sc_zombie s' = sc_zombie s"
    "policy_ok now s'" "kind \<noteq> Voluntary \<Longrightarrow> r = Ok None"
proof -
  have ok: "sched_ok clock s" and ok': "policy_ok now s"
    using assms(1,2) sched_ok_mono by (auto simp: policy_ok_def)
  obtain o1 s1 where pick: "pick_next now s = (o1, s1)" by (cases "pick_next now s")
  note k = pick_next_keeps [OF ok assms(2) pick]
  have "sc_ready s' = sc_ready s \<and> sc_current s' = None \<and> sc_zombie s' = sc_zombie s \<and>
    sc_stats s' = sc_stats s \<and> sc_last_promotion s \<le> sc_last_promotion s' \<and>
    sc_last_promotion s' \<le> now \<and> (kind \<noteq> Voluntary \<longrightarrow> r = Ok None)"
  proof (cases o1)
    case None
    then show ?thesis
      using assms(3,4) pick k(1,6) by (auto simp: plan_switch_def sched_ok_def)
  next
    case (Some tp)
    obtain t p where tp: "tp = (t, p)" by (cases tp)
    from ok pick [unfolded Some tp] obtain c q where c: "c < 3" "sc_ready s ! c = t # q"
      and s1: "sc_ready s1 = (sc_ready s)[c := q]" "sc_last_promotion s1 \<in> {sc_last_promotion s, now}"
      by (cases rule: pick_next_cases) (auto split: if_splits)
    have t: "class_index (tk_class t) = c"
      using sched_ok_queue [OF ok c(1)] c(2) by (simp add: queue_ok_def)
    have "s' = set_queue c (t # sc_ready s1 ! c) s1" "kind \<noteq> Voluntary \<longrightarrow> r = Ok None"
      using assms(3,4) pick k(2) t
      by (auto simp: plan_switch_def Some tp Let_def split: switch_kind.splits)
    then show ?thesis
      using c s1 k assms(2,3) ok by (auto simp: sched_ok_def list_update_same_conv)
  qed
  then show "sc_ready s' = sc_ready s" "sc_current s' = None" "sc_zombie s' = sc_zombie s"
    "policy_ok now s'" "kind \<noteq> Voluntary \<Longrightarrow> r = Ok None"
    using ok' assms(3) by (auto simp: policy_ok_def sched_ok_def live_tasks_def promo_total_def)
qed

lemma policy_charge:
  assumes "policy_ok clock s" "sc_current s = Some cur" "clock \<le> now"
  shows "policy_ok now (s\<lparr>sc_current := Some (cur\<lparr>tk_ticks_used := u\<rparr>)\<rparr>)"
    "live_stacks (s\<lparr>sc_current := Some (cur\<lparr>tk_ticks_used := u\<rparr>)\<rparr>) = live_stacks s"
  using assms sched_ok_mono [of clock s now]
  by (auto simp: policy_ok_def live_tasks_def live_stacks_def promo_total_def sup_ok_def sched_ok_def)

lemma preempt_policy:
  assumes "policy_ok clock s" "clock \<le> now" "preempt now s = (r, s')"
  shows "\<exists>sw. r = Ok sw" "policy_ok now s'" "live_stacks s' = live_stacks s" "sc_zombie s' = sc_zombie s"
proof -
  have "(\<exists>sw. r = Ok sw) \<and> policy_ok now s' \<and> live_stacks s' = live_stacks s \<and> sc_zombie s' = sc_zombie s"
  proof (cases "sc_current s")
    case None
    with assms(3) have "plan_switch Preemptive now s = (r, s')" by (simp add: preempt_def)
    note i = plan_switch_idle [OF assms(1,2) None this]
    show ?thesis using i None by (simp add: live_stacks_def live_tasks_def)
  next
    case (Some cur)
    let ?u = "tk_ticks_used cur + 1"
    let ?s = "s\<lparr>sc_current := Some (cur\<lparr>tk_ticks_used := ?u\<rparr>)\<rparr>"
    note c = policy_charge [OF assms(1) Some assms(2), of ?u]
    show ?thesis
    proof (cases "should_preempt (tk_class cur) ?u (tk_promoted cur) now ?s")
      case True
      with assms(3) Some have "plan_switch Preemptive now ?s = (r, s')" by (simp add: preempt_def Let_def)
      from plan_switch_policy [OF c(1) order_refl _ this] c(2) show ?thesis by simp
    next
      case False
      with assms(3) Some have "r = Ok None" "s' = ?s" by (auto simp: preempt_def Let_def)
      with c show ?thesis by simp
    qed
  qed
  then show "\<exists>sw. r = Ok sw" "policy_ok now s'" "live_stacks s' = live_stacks s" "sc_zombie s' = sc_zombie s"
    by blast+
qed

lemma policy_vacate:
  assumes "policy_ok clock s" "sc_current s = Some cur" "clock \<le> now"
  shows "policy_ok now (s\<lparr>sc_current := None, sc_zombie := z\<rparr>)"
    "live_stacks s = add_mset (tk_stack cur) (live_stacks (s\<lparr>sc_current := None, sc_zombie := z\<rparr>))"
  using assms sched_ok_mono [of clock s now]
  by (auto simp: policy_ok_def live_tasks_def live_stacks_def promo_total_def sched_ok_def)

lemma exit_task_policy:
  assumes "policy_ok now s" "sc_current s = Some cur" "exit_task boot now s = (r, s')"
  shows "\<exists>sw. r = Ok (sw, sc_zombie s)" "policy_ok now s'" "sc_zombie s' = Some cur"
    "live_stacks s = add_mset (tk_stack cur) (live_stacks s')"
proof -
  let ?s0 = "s\<lparr>sc_current := None, sc_zombie := Some cur\<rparr>"
  note v = policy_vacate [OF assms(1,2) order_refl, of "Some cur"]
  have ok: "sched_ok now ?s0" using v(1) by (simp add: policy_ok_def)
  obtain o1 s1 where pick: "pick_next now ?s0 = (o1, s1)" by (cases "pick_next now ?s0")
  note k = pick_next_keeps [OF ok order_refl pick]
  have "(\<exists>sw. r = Ok (sw, sc_zombie s)) \<and> policy_ok now s' \<and> sc_zombie s' = Some cur \<and>
    live_stacks s' = live_stacks ?s0"
  proof (cases o1)
    case None
    have "s' = s1" "\<exists>sw. r = Ok (sw, sc_zombie s)"
      using assms(2,3) pick by (auto simp: exit_task_def Let_def None)
    with k(6) None v(1) show ?thesis by simp
  next
    case (Some tp)
    obtain t p where tp: "tp = (t, p)" by (cases tp)
    with Some pick have pick': "pick_next now ?s0 = (Some (t, p), s1)" by simp
    obtain t' s2 where rd: "record_dispatch t now p s1 = (t', s2)" by (cases "record_dispatch t now p s1")
    note d = dispatch_policy [OF v(1) order_refl pick' rd]
    obtain v' where v': "kernel_rsp0 t' = Ok v'" using kernel_rsp0_ok [OF d(5)] by blast
    have s': "s' = s2\<lparr>sc_current := Some t'\<rparr>" and r: "\<exists>sw. r = Ok (sw, sc_zombie s)"
      using assms(2,3) pick' rd v' by (auto simp: exit_task_def Let_def)
    show ?thesis using install_policy [OF v(1) order_refl _ pick' rd] d(8) r by (simp add: s')
  qed
  with v(2) show "\<exists>sw. r = Ok (sw, sc_zombie s)" "policy_ok now s'" "sc_zombie s' = Some cur"
    "live_stacks s = add_mset (tk_stack cur) (live_stacks s')" by auto
qed

lemma run_policy:
  assumes "policy_ok now s" "sc_current s = None" "run_until_idle now s = (r, s')"
  shows "\<exists>sw. r = Ok sw" "policy_ok now s'" "live_stacks s' = live_stacks s" "sc_zombie s' = sc_zombie s"
proof -
  have ok: "sched_ok now s" using assms(1) by (simp add: policy_ok_def)
  obtain o1 s1 where pick: "pick_next now s = (o1, s1)" by (cases "pick_next now s")
  note k = pick_next_keeps [OF ok order_refl pick]
  have "(\<exists>sw. r = Ok sw) \<and> policy_ok now s' \<and> live_stacks s' = live_stacks s \<and> sc_zombie s' = sc_zombie s"
  proof (cases o1)
    case None
    then show ?thesis using assms(1,3) pick k(6) by (auto simp: run_until_idle_def)
  next
    case (Some tp)
    obtain t p where tp: "tp = (t, p)" by (cases tp)
    with Some pick have pick': "pick_next now s = (Some (t, p), s1)" by simp
    obtain t' s2 where rd: "record_dispatch t now p s1 = (t', s2)" by (cases "record_dispatch t now p s1")
    note d = dispatch_policy [OF assms(1) order_refl pick' rd]
    obtain v where v: "kernel_rsp0 t' = Ok v" using kernel_rsp0_ok [OF d(5)] by blast
    have "s' = s2\<lparr>sc_current := Some t'\<rparr>" "\<exists>sw. r = Ok sw"
      using assms(3) pick' rd v by (auto simp: run_until_idle_def Let_def)
    then show ?thesis using install_policy [OF assms(1) order_refl assms(2) pick' rd] d(8) by simp
  qed
  then show "\<exists>sw. r = Ok sw" "policy_ok now s'" "live_stacks s' = live_stacks s" "sc_zombie s' = sc_zombie s"
    by blast+
qed

section \<open>The invariant of every run\<close>

lemma stacks_of_simps [simp]: "stacks_of None = []" "stacks_of (Some t) = [tk_stack t]"
  by (simp_all add: stacks_of_def)

lemma policy_mono: "policy_ok clock s \<Longrightarrow> clock \<le> now \<Longrightarrow> policy_ok now s"
  by (auto simp: policy_ok_def intro: sched_ok_mono)

lemma inv_parts:
  assumes "sched_inv n w" "\<not> wd_panicked w"
  shows "policy_ok (wd_clock w) (wd_sched w)"
    "mset (wd_spawned w) =
       live_stacks (wd_sched w) + mset (stacks_of (sc_zombie (wd_sched w))) + mset (wd_freed w)"
  using assms by (simp_all add: sched_inv_def)

lemma inv_switched:
  assumes "sched_inv n w" "\<not> wd_panicked w" "policy_ok clock s'" "live_stacks s' = live_stacks (wd_sched w)"
    "sc_zombie s' = sc_zombie (wd_sched w)"
  shows "sched_inv n' (switched_with (r, s') (w\<lparr>wd_clock := clock\<rparr>))"
  using assms inv_parts [OF assms(1,2)] by (cases r) (auto simp: switched_with_def sched_inv_def)

lemma inv_enqueued:
  assumes "sched_inv n w" "\<not> wd_panicked w" "sup_ok t" "tk_stack t = k"
    and r: "r = Ok (enqueue t (wd_clock w) (wd_sched w))"
  shows "sched_inv n' (spawned_with (Some k) r w)"
proof -
  note p = inv_parts [OF assms(1,2)] and e = enqueue_policy [OF inv_parts(1) [OF assms(1,2)] assms(3)]
  show ?thesis using p e assms(2,4) by (simp add: spawned_with_def sched_inv_def r)
qed

lemma sup_ok_new [simp]:
  "sup_ok (task_new k)" "sup_ok ((task_new k)\<lparr>tk_class := c\<rparr>)"
  "sup_ok ((task_new k)\<lparr>tk_address_space_root := x, tk_pid := pid, tk_class := c\<rparr>)"
  "tk_stack (task_new k) = k"
  by (simp_all add: sup_ok_def task_new_def)

lemma inv_spawn_panic: "sched_inv n' (spawned_with None r w)"
  by (simp add: spawned_with_def sched_inv_def)

lemma inv_any: "sched_inv n w \<Longrightarrow> sched_inv n' w"
  by (simp add: sched_inv_def)

lemma inv_set_sched:
  assumes "sched_inv n w" "policy_ok (wd_clock w) s'" "live_stacks s' = live_stacks (wd_sched w)"
    "sc_zombie s' = sc_zombie (wd_sched w)"
  shows "sched_inv n' (w\<lparr>wd_sched := s'\<rparr>)"
  using assms by (simp add: sched_inv_def)

lemma policy_current:
  assumes "policy_ok clock s" "sc_current s = Some t" "sup_ok t'" "tk_stack t' = tk_stack t"
  shows "policy_ok clock (s\<lparr>sc_current := Some t'\<rparr>)" "live_stacks (s\<lparr>sc_current := Some t'\<rparr>) = live_stacks s"
  using assms by (auto simp: policy_ok_def live_tasks_def live_stacks_def promo_total_def sched_ok_def)

lemma plan_switch_inv:
  assumes "sched_inv n w" "\<not> wd_panicked w"
  shows "sched_inv n' (switched_with (plan_switch kind (wd_clock w) (wd_sched w)) w)"
proof -
  obtain r s' where rs: "plan_switch kind (wd_clock w) (wd_sched w) = (r, s')"
    by (cases "plan_switch kind (wd_clock w) (wd_sched w)")
  note p = inv_parts(1) [OF assms]
  have "policy_ok (wd_clock w) s' \<and> live_stacks s' = live_stacks (wd_sched w) \<and>
    sc_zombie s' = sc_zombie (wd_sched w)"
  proof (cases "sc_current (wd_sched w)")
    case None
    from plan_switch_idle [OF p order_refl None rs] None show ?thesis
      by (simp add: live_stacks_def live_tasks_def)
  next
    case (Some cur)
    from plan_switch_policy [OF p order_refl Some rs] show ?thesis by simp
  qed
  then show ?thesis using inv_switched [OF assms, of "wd_clock w" s' n' r] rs by simp
qed

lemma exit_inv:
  assumes "sched_inv n w" "\<not> wd_panicked w"
  shows "sched_inv n' (sched_step (OpExit boot) w)"
proof (cases "sc_current (wd_sched w)")
  case None
  then show ?thesis using assms by (simp add: sched_inv_def)
next
  case (Some cur)
  obtain r s' where rs: "exit_task boot (wd_clock w) (wd_sched w) = (r, s')"
    by (cases "exit_task boot (wd_clock w) (wd_sched w)")
  note p = inv_parts [OF assms]
  note e = exit_task_policy [OF p(1) Some rs]
  obtain sw where "r = Ok (sw, sc_zombie (wd_sched w))" using e(1) by blast
  then show ?thesis using Some rs p e assms(2) by (simp add: sched_inv_def)
qed

lemma sched_step_inv:
  assumes "sched_inv n w" "\<not> wd_panicked w"
  shows "sched_inv n' (sched_step oper w)"
proof (cases oper)
  case (OpSpawn ks)
  then show ?thesis using inv_enqueued [OF assms, of "task_new (the ks)" "the ks"]
    by (cases ks) (simp_all add: inv_spawn_panic spawn_def)
next
  case (OpSpawnInClass ks c)
  then show ?thesis using inv_enqueued [OF assms, of "(task_new (the ks))\<lparr>tk_class := c\<rparr>" "the ks"]
    by (cases ks) (simp_all add: inv_spawn_panic spawn_in_class_def)
next
  case (OpSpawnProcess ks root pid c)
  then show ?thesis
    using inv_enqueued [OF assms,
        of "(task_new (the ks))\<lparr>tk_address_space_root := Some root, tk_pid := pid, tk_class := c\<rparr>" "the ks"]
    by (cases ks) (simp_all add: inv_spawn_panic spawn_process_def)
next
  case OpTick
  obtain r s' where rs: "preempt (wd_clock w + 1) (wd_sched w) = (r, s')"
    by (cases "preempt (wd_clock w + 1) (wd_sched w)")
  have "wd_clock w \<le> wd_clock w + 1" by simp
  note e = preempt_policy [OF inv_parts(1) [OF assms] this rs]
  from inv_switched [OF assms e(2-4)] OpTick rs show ?thesis by simp
next
  case (OpExit boot)
  then show ?thesis using exit_inv [OF assms] by simp
next
  case (OpSetClass c)
  then show ?thesis
    using inv_any [OF assms(1), of n'] assms inv_parts(1) [OF assms] policy_parts(3) [OF inv_parts(1) [OF assms]]
      policy_current [OF inv_parts(1) [OF assms], of _ "_\<lparr>tk_class := c\<rparr>"]
    by (cases "sc_current (wd_sched w)")
      (simp_all add: set_current_class_def inv_set_sched sup_ok_def)
next
  case (OpEnterUser rsp)
  then show ?thesis
    using assms inv_parts(1) [OF assms]
      policy_current [OF inv_parts(1) [OF assms], of _ "_\<lparr>tk_supervisor_rsp := rsp\<rparr>"]
    by (cases "sc_current (wd_sched w)")
      (auto simp: sup_ok_def sched_inv_def policy_ok_def live_stacks_def live_tasks_def sched_ok_def promo_total_def)
next
  case OpRun
  obtain r s' where rs: "run_until_idle (wd_clock w) (wd_sched w) = (r, s')"
    by (cases "run_until_idle (wd_clock w) (wd_sched w)")
  show ?thesis
  proof (cases "sc_current (wd_sched w)")
    case None
    note e = run_policy [OF inv_parts(1) [OF assms] None rs]
    from inv_switched [OF assms e(2-4)] OpRun rs None show ?thesis by simp
  qed (use OpRun assms in \<open>simp add: sched_inv_def\<close>)
next
  case OpReap
  then show ?thesis using assms inv_parts [OF assms]
    by (auto simp: reap_zombie_def sched_inv_def policy_ok_def live_stacks_def live_tasks_def sched_ok_def promo_total_def)
qed (use assms plan_switch_inv [OF assms] in \<open>auto simp: yield_now_def yield_from_syscall_def sched_inv_def\<close>)

lemma inv_world_init: "sched_inv 0 world_init"
  using sched_ok_new [of 0]
  by (auto simp: sched_inv_def world_init_def policy_ok_def live_stacks_def live_tasks_def sched_new_def promo_total_def)

lemma sched_exec_inv: "sched_inv n w \<Longrightarrow> sched_inv (Suc n) (sched_exec oper w)"
  using sched_step_inv [of n w] inv_any [of n w] by (simp add: sched_exec_def)

interpretation sched: op_machine world_init sched_exec sched_inv bound for bound
  by unfold_locales (simp_all add: inv_world_init sched_exec_inv)

lemma run_inv: "sched_inv (length ops) (fold sched_exec ops world_init)"
  by (rule sched.inv_run [of ops "Suc (length ops)"]) simp

text \<open>The only panic of the scheduler is a task for which no kernel stack is left.\<close>

fun has_stack :: "sched_op \<Rightarrow> bool" where
  "has_stack (OpSpawn ks) \<longleftrightarrow> ks \<noteq> None"
| "has_stack (OpSpawnInClass ks _) \<longleftrightarrow> ks \<noteq> None"
| "has_stack (OpSpawnProcess ks _ _ _) \<longleftrightarrow> ks \<noteq> None"
| "has_stack _ \<longleftrightarrow> True"

lemma switched_no_panic: "\<exists>sw. fst r = Ok sw \<Longrightarrow> \<not> wd_panicked w \<Longrightarrow> \<not> wd_panicked (switched_with r w)"
  by (cases r) (auto simp: switched_with_def)

lemma step_no_panic:
  assumes "sched_inv n w" "\<not> wd_panicked w" "has_stack oper"
  shows "\<not> wd_panicked (sched_step oper w)"
proof -
  note p = inv_parts(1) [OF assms(1,2)]
  have plan: "\<exists>sw. fst (plan_switch kind (wd_clock w) (wd_sched w)) = Ok sw"
    if "kind = Voluntary \<longrightarrow> sc_current (wd_sched w) \<noteq> None" for kind
    using plan_switch_idle(5) [OF p order_refl _ prod.collapse [symmetric]]
      plan_switch_policy(1) [OF p order_refl _ prod.collapse [symmetric]] that
    by (cases "sc_current (wd_sched w)") auto
  have tick: "\<exists>sw. fst (preempt (wd_clock w + 1) (wd_sched w)) = Ok sw"
    using preempt_policy(1) [OF p _ prod.collapse [symmetric], of "wd_clock w + 1"] by simp
  have run: "\<exists>sw. fst (run_until_idle (wd_clock w) (wd_sched w)) = Ok sw" if "sc_current (wd_sched w) = None"
    using run_policy(1) [OF p that prod.collapse [symmetric]] .
  have ex: "\<not> wd_panicked (sched_step (OpExit boot) w)" for boot
  proof (cases "sc_current (wd_sched w)")
    case (Some cur)
    then obtain sw s' where "exit_task boot (wd_clock w) (wd_sched w) = (Ok (sw, sc_zombie (wd_sched w)), s')"
      using exit_task_policy(1) [OF p Some prod.collapse [symmetric], of boot] by (metis prod.collapse)
    then show ?thesis using Some assms(2) by simp
  qed (use assms(2) in simp)
  show ?thesis
  proof (cases oper)
    case (OpExit boot)
    then show ?thesis using ex by blast
  qed (use assms(2,3) plan tick run in
      \<open>auto simp: spawned_with_def spawn_def spawn_in_class_def spawn_process_def yield_now_def
        yield_from_syscall_def switched_no_panic reap_zombie_def split: prod.splits outcome.splits\<close>)
qed

lemma run_no_panic: "list_all has_stack ops \<Longrightarrow> \<not> wd_panicked (fold sched_exec ops world_init)"
proof (induction ops rule: rev_induct)
  case (snoc oper ops)
  then show ?case using step_no_panic [OF run_inv, of ops oper]
    by (simp add: sched_exec_def [of oper])
qed (simp add: world_init_def)

lemmas run_parts = inv_parts [OF run_inv run_no_panic]

section \<open>The queues, seen as sets of waiting tasks\<close>

lemma queued_iff:
  assumes "sched_ok clock s"
  shows "t \<in> set (concat (sc_ready s)) \<longleftrightarrow> t \<in> set (sc_ready s ! class_index (tk_class t))"
proof -
  have len: "length (sc_ready s) = 3" using assms by (simp add: sched_ok_def)
  have "class_index (tk_class t) = c" if "c < 3" "t \<in> set (sc_ready s ! c)" for c
    using sched_ok_queue [OF assms that(1)] that(2) by (simp add: queue_ok_def)
  then have "t \<in> set (sc_ready s ! class_index (tk_class t))" if "q \<in> set (sc_ready s)" "t \<in> set q" for q
    using that len by (metis in_set_conv_nth)
  moreover have "sc_ready s ! class_index (tk_class t) \<in> set (sc_ready s)" using len by simp
  ultimately show ?thesis by auto
qed

lemma queued_in:
  assumes "sched_ok clock s" "c < 3" "t \<in> set (sc_ready s ! c)"
  shows "class_index (tk_class t) = c" "t \<in> set (concat (sc_ready s))"
  using sched_ok_queue [OF assms(1,2)] assms queued_iff [OF assms(1)] by (auto simp: queue_ok_def)

lemma front_is_oldest:
  "queue_ok clock c (t # q) \<Longrightarrow> u \<in> set (t # q) \<Longrightarrow> tk_ready_since t \<le> tk_ready_since u"
  by (auto simp: queue_ok_def)

lemma front_starving_iff:
  assumes "queue_ok clock c q"
  shows "front_starving now q \<longleftrightarrow> (\<exists>u \<in> set q. STARVATION_LIMIT_TICKS \<le> now - tk_ready_since u)"
proof (cases q)
  case (Cons t q')
  then show ?thesis using front_is_oldest [of clock c t q'] assms by fastforce
qed simp

lemma any_nonempty_drop:
  "any_nonempty (drop (Suc k) qs) \<longleftrightarrow> (\<exists>i u. k < i \<and> i < length qs \<and> u \<in> set (qs ! i))"
proof
  assume "any_nonempty (drop (Suc k) qs)"
  then obtain q where q: "q \<in> set (drop (Suc k) qs)" "q \<noteq> []" by (auto simp: any_nonempty_def list_ex_iff)
  then obtain j where "j < length qs - Suc k" "qs ! (Suc k + j) = q"
    by (metis in_set_conv_nth length_drop nth_drop add_lessD1 less_or_eq_imp_le less_diff_conv add.commute)
  with q(2) show "\<exists>i u. k < i \<and> i < length qs \<and> u \<in> set (qs ! i)"
    by (intro exI [of _ "Suc k + j"] exI [of _ "hd q"]) auto
next
  assume "\<exists>i u. k < i \<and> i < length qs \<and> u \<in> set (qs ! i)"
  then obtain i u where i: "k < i" "i < length qs" "u \<in> set (qs ! i)" by blast
  then have "qs ! i = drop (Suc k) qs ! (i - Suc k)" "i - Suc k < length (drop (Suc k) qs)" by auto
  then have "qs ! i \<in> set (drop (Suc k) qs)" by (metis nth_mem)
  moreover have "qs ! i \<noteq> []" using i(3) by auto
  ultimately show "any_nonempty (drop (Suc k) qs)" unfolding any_nonempty_def list_ex_iff by blast
qed

lemma any_nonempty_above:
  assumes "sched_ok clock s"
  shows "any_nonempty (drop (Suc (class_index c)) (sc_ready s)) \<longleftrightarrow>
    (\<exists>u \<in> set (concat (sc_ready s)). c < tk_class u)"
proof -
  have len: "length (sc_ready s) = 3" using assms by (simp add: sched_ok_def)
  have "any_nonempty (drop (Suc (class_index c)) (sc_ready s)) \<longleftrightarrow>
    (\<exists>i u. class_index c < i \<and> i < 3 \<and> u \<in> set (sc_ready s ! i))" (is "_ \<longleftrightarrow> ?R")
    using len by (simp add: any_nonempty_drop)
  also have "?R \<longleftrightarrow> (\<exists>u \<in> set (concat (sc_ready s)). c < tk_class u)"
    using queued_in [OF assms] queued_iff [OF assms] class_index_lt unfolding less_sched_class_def by blast
  finally show ?thesis .
qed

lemma any_starving_iff:
  assumes "sched_ok clock s"
  shows "any_starving now s \<longleftrightarrow>
    (\<exists>u \<in> set (concat (sc_ready s)). STARVATION_LIMIT_TICKS \<le> now - tk_ready_since u)"
proof -
  have "front_starving now q \<longleftrightarrow> (\<exists>u \<in> set q. STARVATION_LIMIT_TICKS \<le> now - tk_ready_since u)"
    if "q \<in> set (sc_ready s)" for q
  proof -
    have len: "length (sc_ready s) = 3" using assms by (simp add: sched_ok_def)
    from that obtain c where c: "c < 3" and q: "sc_ready s ! c = q"
      unfolding in_set_conv_nth len by blast
    show ?thesis unfolding q [symmetric] by (rule front_starving_iff [OF sched_ok_queue [OF assms c]])
  qed
  then have "any_starving now s \<longleftrightarrow>
    (\<exists>q \<in> set (sc_ready s). \<exists>u \<in> set q. STARVATION_LIMIT_TICKS \<le> now - tk_ready_since u)"
    unfolding any_starving_def list_ex_iff by (intro bex_cong refl)
  then show ?thesis by simp
qed

lemma pick_next_policy:
  assumes ok: "sched_ok clock s" and pick: "pick_next now s = (Some (t, p), s')"
  defines "starving u \<equiv> STARVATION_LIMIT_TICKS \<le> now - tk_ready_since u"
  defines "queued \<equiv> set (concat (sc_ready s))"
  shows "t \<in> set (sc_ready s ! class_index (tk_class t))"
    "\<forall>u \<in> set (sc_ready s ! class_index (tk_class t)). tk_ready_since t \<le> tk_ready_since u"
    "if PROMOTION_INTERVAL_TICKS \<le> now - sc_last_promotion s \<and> (\<exists>u \<in> queued. starving u)
     then starving t \<and> (\<forall>u \<in> queued. starving u \<longrightarrow> tk_class t \<le> tk_class u) \<and>
          (p \<longleftrightarrow> (\<exists>u \<in> queued. tk_class t < tk_class u))
     else \<not> p \<and> (\<forall>u \<in> queued. tk_class u \<le> tk_class t)"
proof -
  have front: "t \<in> set (sc_ready s ! class_index (tk_class t)) \<and> class_index (tk_class t) = c \<and>
     (\<forall>u \<in> set (sc_ready s ! class_index (tk_class t)). tk_ready_since t \<le> tk_ready_since u)"
    if "c < 3" "sc_ready s ! c = t # q" for c q
    using sched_ok_queue [OF ok that(1)] queued_in(1) [OF ok that(1), of t] that front_is_oldest [of clock c t q] by auto
  have "t \<in> set (sc_ready s ! class_index (tk_class t)) \<and>
    (\<forall>u \<in> set (sc_ready s ! class_index (tk_class t)). tk_ready_since t \<le> tk_ready_since u) \<and>
    (if PROMOTION_INTERVAL_TICKS \<le> now - sc_last_promotion s \<and> (\<exists>u \<in> queued. starving u)
     then starving t \<and> (\<forall>u \<in> queued. starving u \<longrightarrow> tk_class t \<le> tk_class u) \<and>
          (p \<longleftrightarrow> (\<exists>u \<in> queued. tk_class t < tk_class u))
     else \<not> p \<and> (\<forall>u \<in> queued. tk_class u \<le> tk_class t))"
    using ok pick
  proof (cases rule: pick_next_cases)
    case idle
    then show ?thesis by simp
  next
    case (rescue c t' q)
    then have t': "t' = t" and p: "p = any_nonempty (drop (Suc c) (sc_ready s))" by auto
    note f = front [OF rescue(1) rescue(2) [unfolded t']]
    have "t \<in> queued" using queued_iff [OF ok, of t] f unfolding queued_def by blast
    moreover have "tk_class t \<le> tk_class u" if "u \<in> queued" "starving u" for u
      using rescue(5) front_starving_iff [OF sched_ok_queue [OF ok class_index_lt]] that f
        queued_iff [OF ok, of u]
      unfolding starving_def queued_def less_eq_sched_class_def by (metis linorder_not_less)
    ultimately show ?thesis
      using rescue(3,4) f any_nonempty_above [OF ok, of "tk_class t"]
      by (auto simp: starving_def t' p queued_def)
  next
    case (highest c t' q)
    then have t': "t' = t" and p: "\<not> p" by auto
    note f = front [OF highest(1) highest(2) [unfolded t']]
    have le: "tk_class u \<le> tk_class t" if "u \<in> queued" for u
    proof (rule ccontr)
      assume "\<not> ?thesis"
      then have "c < class_index (tk_class u)" using f by (simp add: less_eq_sched_class_def)
      with highest(3) have "sc_ready s ! class_index (tk_class u) = []" by simp
      with that queued_iff [OF ok, of u] show False by (simp add: queued_def)
    qed
    have neg: "\<not> (PROMOTION_INTERVAL_TICKS \<le> now - sc_last_promotion s \<and> (\<exists>u \<in> queued. starving u))"
      using highest(4) front_starving_iff [OF sched_ok_queue [OF ok class_index_lt]] queued_iff [OF ok]
      unfolding starving_def queued_def by (metis class_index_lt linorder_not_less)
    show ?thesis unfolding if_not_P [OF neg] using f p le by blast
  qed
  then show "t \<in> set (sc_ready s ! class_index (tk_class t))"
    "\<forall>u \<in> set (sc_ready s ! class_index (tk_class t)). tk_ready_since t \<le> tk_ready_since u"
    "if PROMOTION_INTERVAL_TICKS \<le> now - sc_last_promotion s \<and> (\<exists>u \<in> queued. starving u)
     then starving t \<and> (\<forall>u \<in> queued. starving u \<longrightarrow> tk_class t \<le> tk_class u) \<and>
          (p \<longleftrightarrow> (\<exists>u \<in> queued. tk_class t < tk_class u))
     else \<not> p \<and> (\<forall>u \<in> queued. tk_class u \<le> tk_class t)" by blast+
qed

section \<open>A waiting higher class takes the CPU\<close>

lemma plan_switch_picked:
  assumes "policy_ok clock s" "clock \<le> now" "sc_current s = Some cur" "pick_next now s = (Some (t, p), s1)"
    and "plan_switch kind now s = (r, s')"
  shows "sc_current s' = Some (t\<lparr>tk_promoted := p, tk_ticks_used := 0\<rparr>)"
    "\<exists>v. kernel_rsp0 t = Ok v \<and>
       r = Ok (Some \<lparr>sw_out = Some (ks_slot (tk_stack cur)), sw_next_stack = tk_stack_pointer t,
                     sw_next_kernel_stack_top = v, sw_next_address_space = tk_address_space_root t\<rparr>)"
    "sc_ready s' = sc_ready (enqueue (cur\<lparr>tk_ticks_used := 0\<rparr>) now s1)"
proof -
  have ok: "sched_ok clock s" using assms(1) by (simp add: policy_ok_def)
  obtain t' s2 where rd: "record_dispatch t now p s1 = (t', s2)" by (cases "record_dispatch t now p s1")
  note d = dispatch_policy [OF assms(1,2,4) rd] and k = pick_next_keeps [OF ok assms(2,4)]
    and r = record_dispatch_simps [OF rd]
  obtain v where v: "kernel_rsp0 t = Ok v" using kernel_rsp0_ok [OF d(4)] by blast
  note u = assms(5) [unfolded plan_switch_def assms(4) prod.case option.case k(2) assms(3) v outcome.case Let_def rd]
  show "sc_current s' = Some (t\<lparr>tk_promoted := p, tk_ticks_used := 0\<rparr>)"
    "\<exists>v. kernel_rsp0 t = Ok v \<and>
       r = Ok (Some \<lparr>sw_out = Some (ks_slot (tk_stack cur)), sw_next_stack = tk_stack_pointer t,
                     sw_next_kernel_stack_top = v, sw_next_address_space = tk_address_space_root t\<rparr>)"
    "sc_ready s' = sc_ready (enqueue (cur\<lparr>tk_ticks_used := 0\<rparr>) now s1)"
    using u v r by (auto simp: enqueue_def Let_def)
qed

lemma tick_takes_over:
  assumes pol: "policy_ok clock s" and now: "clock \<le> now" and cur: "sc_current s = Some cur"
    and u: "u \<in> set (concat (sc_ready s))" "tk_class cur < tk_class u" and ns: "\<not> any_starving now s"
    and pre: "preempt now s = (r, s')"
  shows "\<exists>t. sc_current s' = Some t \<and> (\<forall>u \<in> set (concat (sc_ready s)). tk_class u \<le> tk_class t)"
proof -
  have ok: "sched_ok clock s" using pol by (simp add: policy_ok_def)
  let ?s1 = "s\<lparr>sc_current := Some (cur\<lparr>tk_ticks_used := tk_ticks_used cur + 1\<rparr>)\<rparr>"
  note c = policy_charge [OF pol cur now, of "tk_ticks_used cur + 1"]
  have ok1: "sched_ok now ?s1" using c(1) by (simp add: policy_ok_def)
  have "higher_class_waiting (tk_class cur) ?s1"
    using u any_nonempty_above [OF ok, of "tk_class cur"] by (auto simp: higher_class_waiting_def)
  then have plan: "plan_switch Preemptive now ?s1 = (r, s')"
    using pre cur by (simp add: preempt_def Let_def should_preempt_def)
  obtain o1 s2 where pick: "pick_next now ?s1 = (o1, s2)" by (cases "pick_next now ?s1")
  have "o1 \<noteq> None"
  proof
    assume "o1 = None"
    from ok1 pick [unfolded this] have "sc_ready s ! class_index (tk_class u) = []"
      by (cases rule: pick_next_cases) auto
    then show False using u(1) queued_iff [OF ok, of u] by simp
  qed
  then obtain t p where tp: "o1 = Some (t, p)" by auto
  note pol' = pick_next_policy(3) [OF ok1 pick [unfolded tp]]
  have "\<forall>u \<in> set (concat (sc_ready s)). tk_class u \<le> tk_class t"
    using pol' ns any_starving_iff [OF ok, of now] by (simp split: if_splits)
  with plan_switch_picked(1) [OF c(1) order_refl _ pick [unfolded tp] plan] show ?thesis by simp
qed

section \<open>What the CPU holds after a switch\<close>

definition distinct_slots :: "scheduler \<Rightarrow> bool" where
  "distinct_slots s \<longleftrightarrow> (\<forall>slot. count (image_mset ks_slot (live_stacks s)) slot \<le> 1)"

definition saved :: "task \<Rightarrow> u64 \<times> u64" where
  "saved t = (ks_slot (tk_stack t), tk_stack_pointer t)"

definition put_rsp :: "u64 \<Rightarrow> u64 \<Rightarrow> task \<Rightarrow> task" where
  "put_rsp slot rsp t = (if ks_slot (tk_stack t) = slot then t\<lparr>tk_stack_pointer := rsp\<rparr> else t)"

lemma store_stack_pointer_Some:
  "store_stack_pointer (Some slot) rsp s =
     s\<lparr>sc_ready := map (map (put_rsp slot rsp)) (sc_ready s),
       sc_current := map_option (put_rsp slot rsp) (sc_current s)\<rparr>"
  by (simp add: store_stack_pointer_def Let_def put_rsp_def [abs_def])

lemma kernel_rsp0_dispatched [simp]: "kernel_rsp0 (t\<lparr>tk_promoted := p, tk_ticks_used := u\<rparr>) = kernel_rsp0 t"
  by (simp add: kernel_rsp0_def)

lemma put_rsp_other [simp]: "ks_slot (tk_stack t) \<noteq> slot \<Longrightarrow> put_rsp slot rsp t = t"
  by (simp add: put_rsp_def)

lemma put_rsp_all_other:
  "slot \<notin># image_mset (\<lambda>t. ks_slot (tk_stack t)) M \<Longrightarrow> image_mset (saved \<circ> put_rsp slot rsp) M = image_mset saved M"
  by (induction M) auto

lemma distinct_current:
  assumes "distinct_slots s" "sc_current s = Some cur"
  shows "ks_slot (tk_stack cur) \<notin># image_mset (\<lambda>t. ks_slot (tk_stack t)) (mset (concat (sc_ready s)))"
  using assms(1) [unfolded distinct_slots_def, rule_format, of "ks_slot (tk_stack cur)"] assms(2)
  by (simp add: live_stacks_def live_tasks_def count_eq_zero_iff image_image)

lemma switch_saves:
  assumes pol: "policy_ok clock s" and now: "clock \<le> now" and cur: "sc_current s = Some cur"
    and dist: "distinct_slots s" and plan: "plan_switch kind now s = (Ok (Some sw), s')"
    and s''_def: "s'' = store_stack_pointer (sw_out sw) rsp s'"
  obtains nxt where "sc_current s'' = Some nxt" "sw_next_stack sw = tk_stack_pointer nxt"
    "kernel_rsp0 nxt = Ok (sw_next_kernel_stack_top sw)" "sw_next_address_space sw = tk_address_space_root nxt"
    "image_mset saved (mset (concat (sc_ready s''))) =
       add_mset (ks_slot (tk_stack cur), rsp) (image_mset saved (mset (concat (sc_ready s))) - {#saved nxt#})"
    "saved nxt \<in># image_mset saved (mset (concat (sc_ready s)))"
proof -
  have ok: "sched_ok clock s" using pol by (simp add: policy_ok_def)
  obtain o1 s1 where pick0: "pick_next now s = (o1, s1)" by (cases "pick_next now s")
  obtain t p where "o1 = Some (t, p)" using plan pick0 by (cases o1) (auto simp: plan_switch_def)
  with pick0 have pick: "pick_next now s = (Some (t, p), s1)" by simp
  note k = pick_next_keeps [OF ok now pick] and pl = plan_switch_picked [OF pol now cur pick plan]
  let ?c = "ks_slot (tk_stack cur)" and ?t = "t\<lparr>tk_promoted := p, tk_ticks_used := 0\<rparr>"
  obtain v where v: "kernel_rsp0 t = Ok v" and sw: "sw = \<lparr>sw_out = Some ?c, sw_next_stack = tk_stack_pointer t,
      sw_next_kernel_stack_top = v, sw_next_address_space = tk_address_space_root t\<rparr>"
    using pl(2) by auto
  have q: "mset (concat (sc_ready s)) = add_mset t (mset (concat (sc_ready s1)))" by (rule k(7)) simp
  from distinct_current [OF dist cur]
  have nt: "?c \<noteq> ks_slot (tk_stack t)"
    and nq: "?c \<notin># image_mset (\<lambda>t. ks_slot (tk_stack t)) (mset (concat (sc_ready s1)))"
    by (auto simp: q)
  have len: "length (sc_ready s1) = 3" using k(1) by (simp add: sched_ok_def)
  have s'': "s'' = s'\<lparr>sc_ready := map (map (put_rsp ?c rsp)) (sc_ready s'),
      sc_current := map_option (put_rsp ?c rsp) (sc_current s')\<rparr>"
    by (simp add: s''_def sw store_stack_pointer_Some)
  show ?thesis
  proof (rule that [of ?t])
    show "sc_current s'' = Some ?t" using pl(1) nt by (auto simp: s'')
    have "image_mset saved (mset (concat (sc_ready s''))) =
      image_mset (saved \<circ> put_rsp ?c rsp) (mset (concat (sc_ready s')))"
      by (simp add: s'' map_concat [symmetric] image_mset.compositionality)
    also have "\<dots> = add_mset (?c, rsp) (image_mset saved (mset (concat (sc_ready s1))))"
      using put_rsp_all_other [OF nq] by (simp add: pl(3) ready_enqueue [OF len] saved_def put_rsp_def)
    finally show "image_mset saved (mset (concat (sc_ready s''))) =
       add_mset (?c, rsp) (image_mset saved (mset (concat (sc_ready s))) - {#saved ?t#})"
      by (simp add: q saved_def)
  qed (use v in \<open>simp_all add: sw saved_def q\<close>)
qed

section \<open>Example runs\<close>

definition demo_stack :: "u64 \<Rightarrow> kernel_stack" where
  "demo_stack n = \<lparr>ks_slot = n, ks_bottom = 65536 * n + 4096, ks_top = 65536 * n + 65536\<rparr>"

text \<open>A background task runs and a real-time task arrives.\<close>

definition demo_ops :: "sched_op list" where
  "demo_ops = [OpSpawnInClass (Some (demo_stack 1)) Background, OpRun, OpTick,
     OpSpawnProcess (Some (demo_stack 2)) 4096 7 Realtime]"

text \<open>One real-time task and eight background tasks, from boot on.\<close>

definition busy_ops :: "sched_op list" where
  "busy_ops = OpSpawnInClass (Some (demo_stack 0)) Realtime #
     map (\<lambda>i. OpSpawnInClass (Some (demo_stack (of_nat i))) Background) [1..<9] @ [OpRun]"

text \<open>The classes that run after each of the next ticks.\<close>

primrec classes_run :: "nat \<Rightarrow> sched_world \<Rightarrow> sched_class option list" where
  "classes_run 0 w = []"
| "classes_run (Suc n) w =
     (let w' = sched_exec OpTick w
      in map_option tk_class (sc_current (wd_sched w')) # classes_run n w')"

lemma demo_ops_stacks: "list_all has_stack demo_ops"
  by (simp add: demo_ops_def)

section \<open>Properties\<close>

text \<open>C13. In every run of spawns, ticks, yields, exits, class changes, dispatches and reaps in
  which each spawn finds a kernel stack, the scheduler never panics and loses or duplicates no
  task: as multisets, the kernel stacks handed to tasks are those of the queued and running
  tasks, of the one zombie, and of the tasks freed.\<close>

theorem tasks_conserved:
  assumes "list_all has_stack ops" "w = fold sched_exec ops world_init"
  shows "\<not> wd_panicked w \<and>
    mset (wd_spawned w) =
      live_stacks (wd_sched w) + mset (stacks_of (sc_zombie (wd_sched w))) + mset (wd_freed w)"
  using assms run_no_panic run_parts(2) by simp

theorem tasks_conserved_witness:
  "list_all has_stack demo_ops \<and>
   mset (wd_spawned (fold sched_exec demo_ops world_init)) =
     live_stacks (wd_sched (fold sched_exec demo_ops world_init)) +
     mset (stacks_of (sc_zombie (wd_sched (fold sched_exec demo_ops world_init)))) +
     mset (wd_freed (fold sched_exec demo_ops world_init)) \<and>
   wd_spawned (fold sched_exec demo_ops world_init) = [demo_stack 1, demo_stack 2]"
  using tasks_conserved [OF demo_ops_stacks refl] demo_ops_stacks by (intro conjI) (simp, simp, code_simp)


text \<open>C14. In every such run, \<^verbatim>\<open>pick_next\<close> finds a task exactly when one is queued, and its choice
  follows the policy: it takes the task that has waited longest in its class; when a promotion is
  allowed and some queued task starves, it takes a starving task of the lowest class that has
  one, and counts it as a promotion exactly when a higher class waits; otherwise no queued
  task has a higher class.\<close>

theorem dispatch_follows_policy:
  assumes "list_all has_stack ops" "s = wd_sched (fold sched_exec ops world_init)"
  shows "case pick_next now s of
      (None, _) \<Rightarrow> \<forall>c < 3. sc_ready s ! c = []
    | (Some (t, promoted), _) \<Rightarrow>
        t \<in> set (sc_ready s ! class_index (tk_class t)) \<and>
        (\<forall>u \<in> set (sc_ready s ! class_index (tk_class t)). tk_ready_since t \<le> tk_ready_since u) \<and>
        (if PROMOTION_INTERVAL_TICKS \<le> now - sc_last_promotion s \<and>
            (\<exists>u \<in> set (concat (sc_ready s)). STARVATION_LIMIT_TICKS \<le> now - tk_ready_since u)
         then STARVATION_LIMIT_TICKS \<le> now - tk_ready_since t \<and>
              (\<forall>u \<in> set (concat (sc_ready s)).
                 STARVATION_LIMIT_TICKS \<le> now - tk_ready_since u \<longrightarrow> tk_class t \<le> tk_class u) \<and>
              (promoted \<longleftrightarrow> (\<exists>u \<in> set (concat (sc_ready s)). tk_class t < tk_class u))
         else \<not> promoted \<and> (\<forall>u \<in> set (concat (sc_ready s)). tk_class u \<le> tk_class t))"
proof -
  have ok: "sched_ok (wd_clock (fold sched_exec ops world_init)) s"
    using run_parts(1) [OF assms(1)] policy_parts(1) assms(2) by simp
  obtain r s' where pick: "pick_next now s = (r, s')" by (cases "pick_next now s")
  show ?thesis
  proof (cases r)
    case None
    from ok pick [unfolded None] have "\<forall>c < 3. sc_ready s ! c = []" by (cases rule: pick_next_cases) auto
    then show ?thesis using pick None by simp
  next
    case (Some tp)
    then show ?thesis using pick pick_next_policy [OF ok, of now] by (cases tp) simp
  qed
qed

theorem dispatch_follows_policy_witness:
  "list_all has_stack demo_ops \<and>
   tk_class (fst (the (fst (pick_next 2 (wd_sched (fold sched_exec demo_ops world_init)))))) = Realtime \<and>
   (case pick_next 2 (wd_sched (fold sched_exec demo_ops world_init)) of
      (None, _) \<Rightarrow> False
    | (Some (t, promoted), _) \<Rightarrow>
        t \<in> set (sc_ready (wd_sched (fold sched_exec demo_ops world_init)) ! class_index (tk_class t)))"
proof -
  have n: "fst (pick_next 2 (wd_sched (fold sched_exec demo_ops world_init))) \<noteq> None"
    "tk_class (fst (the (fst (pick_next 2 (wd_sched (fold sched_exec demo_ops world_init)))))) = Realtime"
    by code_simp+
  with dispatch_follows_policy [OF demo_ops_stacks refl, of 2] demo_ops_stacks show ?thesis
    by (auto split: prod.splits option.splits)
qed





text \<open>C16. In every such run, when a queued task has a higher class than the running one and nothing
  starves, the next timer tick gives the CPU to a task of the highest class that waits.\<close>

theorem higher_class_runs_at_next_tick:
  assumes "list_all has_stack ops" "w = fold sched_exec ops world_init"
    and "sc_current (wd_sched w) = Some cur"
    and "u \<in> set (concat (sc_ready (wd_sched w)))" "tk_class cur < tk_class u"
    and "\<not> any_starving (wd_clock w + 1) (wd_sched w)"
  shows "\<exists>t. sc_current (wd_sched (sched_exec OpTick w)) = Some t \<and> tk_class cur < tk_class t \<and>
    (\<forall>u \<in> set (concat (sc_ready (wd_sched w))). tk_class u \<le> tk_class t)"
proof -
  obtain r s' where pre: "preempt (wd_clock w + 1) (wd_sched w) = (r, s')"
    by (cases "preempt (wd_clock w + 1) (wd_sched w)")
  have pol: "policy_ok (wd_clock w) (wd_sched w)" using run_parts(1) [OF assms(1)] assms(2) by simp
  from tick_takes_over [OF pol _ assms(3-6) pre]
  obtain t where t: "sc_current s' = Some t" "\<forall>u \<in> set (concat (sc_ready (wd_sched w))). tk_class u \<le> tk_class t"
    by auto
  moreover have "sc_current (wd_sched (sched_exec OpTick w)) = sc_current s'"
    using pre run_no_panic [OF assms(1)] assms(2)
    by (cases r) (simp_all add: sched_exec_def switched_with_def)
  moreover have "tk_class cur < tk_class t" using t(2) assms(4,5) by (meson less_le_trans)
  ultimately show ?thesis by (intro exI [of _ t]) simp
qed

theorem higher_class_runs_at_next_tick_witness:
  "\<exists>t. sc_current (wd_sched (sched_exec OpTick (fold sched_exec demo_ops world_init))) = Some t \<and>
     Background < tk_class t"
proof -
  let ?w = "fold sched_exec demo_ops world_init"
  let ?cur = "the (sc_current (wd_sched ?w))" and ?u = "hd (concat (sc_ready (wd_sched ?w)))"
  have "sc_current (wd_sched ?w) = Some ?cur" "tk_class ?cur = Background"
    "\<not> any_starving (wd_clock ?w + 1) (wd_sched ?w)"
    "tk_class ?cur < tk_class ?u" "concat (sc_ready (wd_sched ?w)) \<noteq> []"
    by code_simp+
  with higher_class_runs_at_next_tick [OF demo_ops_stacks refl, of ?cur ?u] show ?thesis
    using list.set_sel(1) by metis
qed


text \<open>In every such run, \<^verbatim>\<open>any_starving\<close>, which looks at the front of each queue only, holds exactly
  when some queued task has waited for the starvation limit.\<close>

theorem any_starving_exact:
  assumes "list_all has_stack ops" "s = wd_sched (fold sched_exec ops world_init)"
  shows "any_starving now s \<longleftrightarrow>
    (\<exists>u \<in> set (concat (sc_ready s)). STARVATION_LIMIT_TICKS \<le> now - tk_ready_since u)"
  using any_starving_iff policy_parts(1) [OF run_parts(1) [OF assms(1)]] assms(2) by simp

theorem any_starving_exact_witness:
  "list_all has_stack demo_ops \<and> any_starving 51 (wd_sched (fold sched_exec demo_ops world_init)) \<and>
   (\<exists>u \<in> set (concat (sc_ready (wd_sched (fold sched_exec demo_ops world_init)))).
      STARVATION_LIMIT_TICKS \<le> 51 - tk_ready_since u)"
proof -
  have "any_starving 51 (wd_sched (fold sched_exec demo_ops world_init))" by code_simp
  with any_starving_exact [OF demo_ops_stacks refl, of 51] demo_ops_stacks show ?thesis by blast
qed


text \<open>In every such run in which no two live tasks share a kernel stack, a planned switch whose
  kernel stack address the CPU accepts installs the context of the new current task: its saved
  stack pointer, its kernel stack for interrupts, and its address space or the kernel's. The
  saved stack pointers of the queued tasks are those from before without the new task's, and with
  the outgoing task's set to where it stopped.\<close>

theorem switch_installs_next:
  assumes "list_all has_stack ops" "w = fold sched_exec ops world_init"
    and "distinct_slots (wd_sched w)" "sc_current (wd_sched w) = Some cur"
    and "plan_switch kind (wd_clock w) (wd_sched w) = (Ok (Some sw), s')"
    and "virt_addr_ok (sw_next_kernel_stack_top sw)"
  shows "\<exists>cpu s'' nxt. perform_switch virt_addr_ok kernel_root rsp sw s' = Ok (cpu, s'') \<and>
    sc_current s'' = Some nxt \<and> cpu_rsp cpu = tk_stack_pointer nxt \<and>
    kernel_rsp0 nxt = Ok (cpu_rsp0 cpu) \<and>
    cpu_cr3 cpu = (case tk_address_space_root nxt of Some root \<Rightarrow> root | None \<Rightarrow> kernel_root) \<and>
    image_mset saved (mset (concat (sc_ready s''))) =
      add_mset (ks_slot (tk_stack cur), rsp)
        (image_mset saved (mset (concat (sc_ready (wd_sched w)))) - {#saved nxt#})"
proof -
  have pol: "policy_ok (wd_clock w) (wd_sched w)" using run_parts(1) [OF assms(1)] assms(2) by simp
  from switch_saves [OF pol order_refl assms(4,3,5) refl, of rsp]
  obtain nxt where "sc_current (store_stack_pointer (sw_out sw) rsp s') = Some nxt"
    "sw_next_stack sw = tk_stack_pointer nxt" "kernel_rsp0 nxt = Ok (sw_next_kernel_stack_top sw)"
    "sw_next_address_space sw = tk_address_space_root nxt"
    "image_mset saved (mset (concat (sc_ready (store_stack_pointer (sw_out sw) rsp s')))) =
       add_mset (ks_slot (tk_stack cur), rsp)
         (image_mset saved (mset (concat (sc_ready (wd_sched w)))) - {#saved nxt#})"
    by blast
  then show ?thesis using assms(6) by (auto simp: perform_switch_def)
qed

theorem switch_installs_next_witness:
  "\<exists>sw s' cpu s'' nxt.
     plan_switch Preemptive 1 (wd_sched (fold sched_exec demo_ops world_init)) = (Ok (Some sw), s') \<and>
     perform_switch (\<lambda>_. True) 8192 77 sw s' = Ok (cpu, s'') \<and>
     sc_current s'' = Some nxt \<and> cpu_rsp cpu = tk_stack_pointer nxt"
proof -
  let ?w = "fold sched_exec demo_ops world_init"
  let ?cur = "the (sc_current (wd_sched ?w))" and ?p = "plan_switch Preemptive 1 (wd_sched ?w)"
  have clock: "wd_clock ?w = 1" and cur: "sc_current (wd_sched ?w) = Some ?cur"
    and p: "case ?p of (Ok (Some _), _) \<Rightarrow> True | _ \<Rightarrow> False"
    and slots: "live_stacks (wd_sched ?w) = {#demo_stack 1, demo_stack 2#}"
    by code_simp+
  have d: "distinct_slots (wd_sched ?w)" unfolding distinct_slots_def slots by (simp add: demo_stack_def)
  obtain sw s' where sw: "?p = (Ok (Some sw), s')"
    using p by (auto split: prod.splits outcome.splits option.splits)
  from switch_installs_next [OF demo_ops_stacks refl d cur, of Preemptive sw s' "\<lambda>_. True" 8192 77]
  show ?thesis unfolding clock using sw by blast
qed

text \<open>Background tasks take more from a real-time task than the promotion interval allows. With
  one real-time task that never blocks and eight background tasks, all ready since boot, the
  real-time task runs in only four of the twelve ticks that follow the starvation limit, although
  only three of the eight background dispatches are promotions: a task dispatched because the
  queues above it are empty while the real-time task is the running one is not counted.\<close>

theorem realtime_donates_beyond_interval:
  "classes_run 12 (fold sched_exec (busy_ops @ replicate 49 OpTick) world_init) =
     map Some [Background, Background, Realtime, Background, Realtime, Background,
               Background, Realtime, Background, Realtime, Background, Background] \<and>
   promo_total (wd_sched (fold sched_exec (busy_ops @ replicate 61 OpTick) world_init)) = 3"
  by code_simp

end
