(* ===== verification/Cpu.thy ===== *)
theory Cpu
  imports Prelude
begin

text \<open>
  The processor, as far as the kernel's naked functions use it: the general-purpose registers, the
  stack pointer, RFLAGS, the instruction pointer, the two segment selectors that an \<^verbatim>\<open>iretq\<close>
  loads, and memory in 64-bit cells (every address used here is a multiple of eight). A piece of
  straight-line code is a list of instructions. \<open>popfq\<close> restores all of RFLAGS, as it does in
  Ring 0 for the flags the kernel uses; \<open>xor r, r\<close> leaves the auxiliary-carry flag as it was.
\<close>

unbundle bit_operations_syntax

datatype reg = RAX | RBX | RCX | RDX | RSI | RDI | RBP | R8 | R9 | R10 | R11 | R12 | R13 | R14 | R15

record cpu =
  cpu_regs :: "reg \<Rightarrow> u64"
  cpu_sp :: u64
  cpu_flags :: u64
  cpu_ip :: u64
  cpu_cs :: u64
  cpu_ss :: u64
  cpu_mem :: "u64 \<Rightarrow> u64"

text \<open>
  \<open>StoreSp r\<close> is \<^verbatim>\<open>mov [r], rsp\<close>, \<open>LoadSp r\<close> is \<^verbatim>\<open>mov rsp, r\<close>, \<open>ReadSp r\<close> is \<^verbatim>\<open>mov r, rsp\<close>, \<open>LeaSp r n\<close> is
  \<^verbatim>\<open>lea r, [rsp - n]\<close>, \<open>Store r q\<close> is \<^verbatim>\<open>mov [r], q\<close>, \<open>StoreStack n r\<close> is \<^verbatim>\<open>mov [rsp + n], r\<close> and \<open>Clear r\<close>
  is \<^verbatim>\<open>xor r, r\<close>.
\<close>

datatype instr =
    PushFq | Push reg | StoreSp reg | LoadSp reg | Pop reg | PopFq | Ret | Mov reg reg | Jmp reg
  | ReadSp reg | LeaSp reg u64 | Store reg reg | StoreStack u64 reg | MovImm reg u64 | Clear reg | Iretq

fun exec_instr :: "instr \<Rightarrow> cpu \<Rightarrow> cpu" where
  "exec_instr PushFq c = c\<lparr>cpu_sp := cpu_sp c - 8, cpu_mem := (cpu_mem c)(cpu_sp c - 8 := cpu_flags c)\<rparr>"
| "exec_instr (Push r) c = c\<lparr>cpu_sp := cpu_sp c - 8, cpu_mem := (cpu_mem c)(cpu_sp c - 8 := cpu_regs c r)\<rparr>"
| "exec_instr (StoreSp r) c = c\<lparr>cpu_mem := (cpu_mem c)(cpu_regs c r := cpu_sp c)\<rparr>"
| "exec_instr (LoadSp r) c = c\<lparr>cpu_sp := cpu_regs c r\<rparr>"
| "exec_instr (Pop r) c = c\<lparr>cpu_sp := cpu_sp c + 8, cpu_regs := (cpu_regs c)(r := cpu_mem c (cpu_sp c))\<rparr>"
| "exec_instr PopFq c = c\<lparr>cpu_sp := cpu_sp c + 8, cpu_flags := cpu_mem c (cpu_sp c)\<rparr>"
| "exec_instr Ret c = c\<lparr>cpu_sp := cpu_sp c + 8, cpu_ip := cpu_mem c (cpu_sp c)\<rparr>"
| "exec_instr (Mov r q) c = c\<lparr>cpu_regs := (cpu_regs c)(r := cpu_regs c q)\<rparr>"
| "exec_instr (Jmp r) c = c\<lparr>cpu_ip := cpu_regs c r\<rparr>"
| "exec_instr (ReadSp r) c = c\<lparr>cpu_regs := (cpu_regs c)(r := cpu_sp c)\<rparr>"
| "exec_instr (LeaSp r n) c = c\<lparr>cpu_regs := (cpu_regs c)(r := cpu_sp c - n)\<rparr>"
| "exec_instr (Store r q) c = c\<lparr>cpu_mem := (cpu_mem c)(cpu_regs c r := cpu_regs c q)\<rparr>"
| "exec_instr (StoreStack n r) c = c\<lparr>cpu_mem := (cpu_mem c)(cpu_sp c + n := cpu_regs c r)\<rparr>"
| "exec_instr (MovImm r v) c = c\<lparr>cpu_regs := (cpu_regs c)(r := v)\<rparr>"
| "exec_instr (Clear r) c =
     c\<lparr>cpu_regs := (cpu_regs c)(r := 0), cpu_flags := (cpu_flags c AND NOT 0x881) OR 0x44\<rparr>"
| "exec_instr Iretq c =
     c\<lparr>cpu_ip := cpu_mem c (cpu_sp c), cpu_cs := cpu_mem c (cpu_sp c + 8), cpu_flags := cpu_mem c (cpu_sp c + 16),
       cpu_ss := cpu_mem c (cpu_sp c + 32), cpu_sp := cpu_mem c (cpu_sp c + 24)\<rparr>"

definition run_code :: "instr list \<Rightarrow> cpu \<Rightarrow> cpu" where
  "run_code code c = fold exec_instr code c"

text \<open>
  An interrupt or exception taken in Ring 3 switches to the stack that TSS RSP0 names, pushes SS,
  RSP, RFLAGS, CS and RIP there, clears the interrupt flag (an interrupt gate) and enters the
  handler in the kernel's code segment.
\<close>

definition enter_kernel :: "u64 \<Rightarrow> u64 \<Rightarrow> u64 \<Rightarrow> cpu \<Rightarrow> cpu" where
  "enter_kernel rsp0 kernel_cs handler c =
     c\<lparr>cpu_mem := (cpu_mem c)(rsp0 - 8 := cpu_ss c, rsp0 - 16 := cpu_sp c, rsp0 - 24 := cpu_flags c,
         rsp0 - 32 := cpu_cs c, rsp0 - 40 := cpu_ip c),
       cpu_sp := rsp0 - 40, cpu_ip := handler, cpu_cs := kernel_cs, cpu_ss := 0,
       cpu_flags := cpu_flags c AND NOT 0x200\<rparr>"

lemma run_code_append: "run_code (a @ b) c = run_code b (run_code a c)"
  by (simp add: run_code_def)

end
