(* ===== verification/ContextSwitch.thy ===== *)
theory ContextSwitch
  imports Scheduler Cpu
begin

text \<open>
  The machine-level half of \<^verbatim>\<open>kernel/src/sched/task.rs\<close>: the frame that \<^verbatim>\<open>Task::new\<close> and
  \<^verbatim>\<open>Task::new_with_context\<close> write into a fresh kernel stack, and the two naked functions,
  \<^verbatim>\<open>context_switch\<close> and \<^verbatim>\<open>task_trampoline\<close>, as lists of the instructions they are made of. The
  instructions are those of the theory \<open>Cpu\<close>.
\<close>

section \<open>The kernel's two naked functions\<close>

definition context_switch :: "instr list" where
  "context_switch =
     [PushFq, Push RBP, Push RBX, Push R12, Push R13, Push R14, Push R15,
      StoreSp RDI, LoadSp RSI,
      Pop R15, Pop R14, Pop R13, Pop R12, Pop RBX, Pop RBP, PopFq, Ret]"

definition task_trampoline :: "instr list" where
  "task_trampoline = [Mov RDI R12, Jmp R13]"

section \<open>The frames of new tasks\<close>

definition INITIAL_RFLAGS :: u64 where "INITIAL_RFLAGS = 0x202"

text \<open>Values written one below the other, as the two constructors do.\<close>

fun write_down :: "u64 list \<Rightarrow> u64 \<times> (u64 \<Rightarrow> u64) \<Rightarrow> u64 \<times> (u64 \<Rightarrow> u64)" where
  "write_down [] (rsp, mem) = (rsp, mem)"
| "write_down (v # vs) (rsp, mem) = write_down vs (rsp - 8, mem(rsp - 8 := v))"

definition new_frame :: "u64 \<Rightarrow> kernel_stack \<Rightarrow> (u64 \<Rightarrow> u64) \<Rightarrow> task \<times> (u64 \<Rightarrow> u64)" where
  "new_frame entry ks mem =
     (let (rsp, mem') = write_down [entry, INITIAL_RFLAGS, 0, 0, 0, 0, 0, 0] (ks_top ks, mem)
      in ((task_new ks)\<lparr>tk_stack_pointer := rsp\<rparr>, mem'))"

definition new_with_context ::
  "u64 \<Rightarrow> u64 \<Rightarrow> u64 \<Rightarrow> kernel_stack \<Rightarrow> (u64 \<Rightarrow> u64) \<Rightarrow> task \<times> (u64 \<Rightarrow> u64)" where
  "new_with_context trampoline entry context_ptr ks mem =
     (let (rsp, mem') = write_down [trampoline, INITIAL_RFLAGS, 0, 0, context_ptr, entry, 0, 0] (ks_top ks, mem)
      in ((task_new ks)\<lparr>tk_stack_pointer := rsp\<rparr>, mem'))"

section \<open>What a switch does\<close>

text \<open>The cells of a frame, from the saved stack pointer up to the return address.\<close>

definition frame_cells :: "u64 \<Rightarrow> u64 list" where
  "frame_cells sp = map (\<lambda>i. sp + 8 * i) [0, 1, 2, 3, 4, 5, 6, 7]"

text \<open>The cells a call of \<^const>\<open>context_switch\<close> writes: seven below its stack pointer, and the slot.\<close>

definition written_cells :: "cpu \<Rightarrow> u64 list" where
  "written_cells c = cpu_regs c RDI # map (\<lambda>i. cpu_sp c - 8 * i) [1, 2, 3, 4, 5, 6, 7]"

text \<open>A frame is sound for a switch when the switch does not write into it.\<close>

definition frame_intact :: "u64 \<Rightarrow> cpu \<Rightarrow> bool" where
  "frame_intact sp c \<longleftrightarrow> set (frame_cells sp) \<inter> set (written_cells c) = {}"

lemma context_switch_halves:
  "context_switch =
     [PushFq, Push RBP, Push RBX, Push R12, Push R13, Push R14, Push R15, StoreSp RDI] @
     [LoadSp RSI, Pop R15, Pop R14, Pop R13, Pop R12, Pop RBX, Pop RBP, PopFq, Ret]"
  by (simp add: context_switch_def)

lemma save_half:
  "run_code [PushFq, Push RBP, Push RBX, Push R12, Push R13, Push R14, Push R15, StoreSp RDI] c =
   c\<lparr>cpu_sp := cpu_sp c - 56,
     cpu_mem := (cpu_mem c)
        (cpu_sp c - 8 := cpu_flags c, cpu_sp c - 16 := cpu_regs c RBP, cpu_sp c - 24 := cpu_regs c RBX,
         cpu_sp c - 32 := cpu_regs c R12, cpu_sp c - 40 := cpu_regs c R13, cpu_sp c - 48 := cpu_regs c R14,
         cpu_sp c - 56 := cpu_regs c R15, cpu_regs c RDI := cpu_sp c - 56)\<rparr>"
  by (simp add: run_code_def diff_diff_eq)

lemma restore_half:
  "run_code [LoadSp RSI, Pop R15, Pop R14, Pop R13, Pop R12, Pop RBX, Pop RBP, PopFq, Ret] c =
   c\<lparr>cpu_regs := (cpu_regs c)
        (R15 := cpu_mem c (cpu_regs c RSI), R14 := cpu_mem c (cpu_regs c RSI + 8),
         R13 := cpu_mem c (cpu_regs c RSI + 16), R12 := cpu_mem c (cpu_regs c RSI + 24),
         RBX := cpu_mem c (cpu_regs c RSI + 32), RBP := cpu_mem c (cpu_regs c RSI + 40)),
     cpu_flags := cpu_mem c (cpu_regs c RSI + 48), cpu_ip := cpu_mem c (cpu_regs c RSI + 56),
     cpu_sp := cpu_regs c RSI + 64\<rparr>"
  by (simp add: run_code_def add.assoc)

text \<open>The addresses of the frame that a switch saves, counted from either end.\<close>

lemma frame_offsets [simp]:
  fixes x :: u64
  shows "x - 56 + 8 = x - 48" "x - 56 + 16 = x - 40" "x - 56 + 24 = x - 32" "x - 56 + 32 = x - 24"
    "x - 56 + 40 = x - 16" "x - 56 + 48 = x - 8" "x - 56 + 56 = x" "x - 56 + 64 = x + 8"
  by (simp_all add: algebra_simps)

lemma frame_cells_saved:
  "set (frame_cells (x - 56)) = {x - 56, x - 48, x - 40, x - 32, x - 24, x - 16, x - 8, x}"
  by (simp add: frame_cells_def)

lemma restore_mem: "cpu_mem (run_code [LoadSp RSI, Pop R15, Pop R14, Pop R13, Pop R12, Pop RBX, Pop RBP, PopFq, Ret] c) = cpu_mem c"
  unfolding restore_half by simp

lemma switch_mem:
  "cpu_mem (run_code context_switch c) = (cpu_mem c)
     (cpu_sp c - 8 := cpu_flags c, cpu_sp c - 16 := cpu_regs c RBP, cpu_sp c - 24 := cpu_regs c RBX,
      cpu_sp c - 32 := cpu_regs c R12, cpu_sp c - 40 := cpu_regs c R13, cpu_sp c - 48 := cpu_regs c R14,
      cpu_sp c - 56 := cpu_regs c R15, cpu_regs c RDI := cpu_sp c - 56)"
  unfolding context_switch_halves run_code_append restore_mem save_half by simp

lemma switch_mem_other:
  assumes "x \<notin> set (written_cells c)"
  shows "cpu_mem (run_code context_switch c) x = cpu_mem c x"
  using assms unfolding switch_mem written_cells_def by simp

lemma switch_saves_frame:
  assumes "cpu_regs c RDI \<notin> set (frame_cells (cpu_sp c - 56))"
  shows "map (cpu_mem (run_code context_switch c)) (frame_cells (cpu_sp c - 56)) =
    [cpu_regs c R15, cpu_regs c R14, cpu_regs c R13, cpu_regs c R12, cpu_regs c RBX, cpu_regs c RBP,
     cpu_flags c, cpu_mem c (cpu_sp c)]"
proof -
  have "\<forall>x \<in> set (frame_cells (cpu_sp c - 56)). x \<noteq> cpu_regs c RDI" using assms by blast
  then show ?thesis unfolding frame_cells_saved by (simp add: frame_cells_def switch_mem)
qed

lemma frame_cells_unfold:
  "frame_cells sp = [sp, sp + 8, sp + 16, sp + 24, sp + 32, sp + 40, sp + 48, sp + 56]"
  by (simp add: frame_cells_def)

lemma switch_restores:
  assumes "frame_intact (cpu_regs d RSI) d"
    and "map (cpu_mem d) (frame_cells (cpu_regs d RSI)) = [v15, v14, v13, v12, vbx, vbp, fl, ret]"
  shows "run_code context_switch d =
    d\<lparr>cpu_regs := (cpu_regs d)(R15 := v15, R14 := v14, R13 := v13, R12 := v12, RBX := vbx, RBP := vbp),
      cpu_flags := fl, cpu_ip := ret, cpu_sp := cpu_regs d RSI + 64,
      cpu_mem := cpu_mem (run_code context_switch d)\<rparr>"
proof -
  have other: "cpu_mem (run_code context_switch d) x = cpu_mem d x" if "x \<in> set (frame_cells (cpu_regs d RSI))" for x
    using assms(1) that switch_mem_other by (auto simp: frame_intact_def)
  have "map (cpu_mem (run_code context_switch d)) (frame_cells (cpu_regs d RSI)) =
    map (cpu_mem d) (frame_cells (cpu_regs d RSI))"
    by (rule map_cong) (simp_all add: other)
  with assms(2) have cells: "cpu_mem (run_code context_switch d) (cpu_regs d RSI) = v15"
    "cpu_mem (run_code context_switch d) (cpu_regs d RSI + 8) = v14"
    "cpu_mem (run_code context_switch d) (cpu_regs d RSI + 16) = v13"
    "cpu_mem (run_code context_switch d) (cpu_regs d RSI + 24) = v12"
    "cpu_mem (run_code context_switch d) (cpu_regs d RSI + 32) = vbx"
    "cpu_mem (run_code context_switch d) (cpu_regs d RSI + 40) = vbp"
    "cpu_mem (run_code context_switch d) (cpu_regs d RSI + 48) = fl"
    "cpu_mem (run_code context_switch d) (cpu_regs d RSI + 56) = ret"
    by (simp_all add: frame_cells_unfold)
  let ?s = "run_code [PushFq, Push RBP, Push RBX, Push R12, Push R13, Push R14, Push R15, StoreSp RDI] d"
  have m: "cpu_mem ?s = cpu_mem (run_code context_switch d)"
    unfolding context_switch_halves run_code_append restore_mem ..
  have s: "?s = d\<lparr>cpu_sp := cpu_sp d - 56, cpu_mem := cpu_mem (run_code context_switch d)\<rparr>"
    unfolding switch_mem by (rule save_half)
  have "run_code context_switch d = run_code [LoadSp RSI, Pop R15, Pop R14, Pop R13, Pop R12, Pop RBX, Pop RBP, PopFq, Ret]
      (d\<lparr>cpu_sp := cpu_sp d - 56, cpu_mem := cpu_mem (run_code context_switch d)\<rparr>)"
    using s unfolding context_switch_halves run_code_append by simp
  also have "\<dots> = d\<lparr>cpu_regs := (cpu_regs d)(R15 := v15, R14 := v14, R13 := v13, R12 := v12, RBX := vbx, RBP := vbp),
      cpu_flags := fl, cpu_ip := ret, cpu_sp := cpu_regs d RSI + 64,
      cpu_mem := cpu_mem (run_code context_switch d)\<rparr>"
    unfolding restore_half by (simp add: cells)
  finally show ?thesis .
qed

section \<open>Properties\<close>

definition callee_saved :: "reg list" where "callee_saved = [RBP, RBX, R12, R13, R14, R15]"

text \<open>C17. A task that switched away resumes exactly where it stopped. Let \<^verbatim>\<open>c\<close> call \<^verbatim>\<open>context_switch\<close>, with
  its save slot outside its own frame, and let a later \<^verbatim>\<open>d\<close> call it with the stack pointer found
  in that slot. If nothing touched the frame in between and the save of \<^verbatim>\<open>d\<close> does not write into
  it, then afterwards the callee-saved registers and RFLAGS are those of \<^verbatim>\<open>c\<close>, execution continues
  at the return address of \<^verbatim>\<open>c\<close>'s call, and the stack pointer is the one after that return.\<close>

theorem context_switch_roundtrip:
  assumes "c' = run_code context_switch c"
    and "cpu_regs c RDI \<notin> set (frame_cells (cpu_sp c - 56))"
    and "cpu_regs d RSI = cpu_mem c' (cpu_regs c RDI)"
    and "\<forall>x \<in> set (frame_cells (cpu_regs d RSI)). cpu_mem d x = cpu_mem c' x"
    and "frame_intact (cpu_regs d RSI) d"
  shows "(\<forall>r \<in> set callee_saved. cpu_regs (run_code context_switch d) r = cpu_regs c r) \<and>
    cpu_flags (run_code context_switch d) = cpu_flags c \<and>
    cpu_ip (run_code context_switch d) = cpu_mem c (cpu_sp c) \<and>
    cpu_sp (run_code context_switch d) = cpu_sp c + 8"
proof -
  have rsi: "cpu_regs d RSI = cpu_sp c - 56" unfolding assms(3,1) switch_mem by simp
  have "map (cpu_mem d) (frame_cells (cpu_regs d RSI)) = map (cpu_mem c') (frame_cells (cpu_regs d RSI))"
    by (rule map_cong) (simp_all add: assms(4))
  also have "\<dots> = [cpu_regs c R15, cpu_regs c R14, cpu_regs c R13, cpu_regs c R12, cpu_regs c RBX, cpu_regs c RBP,
     cpu_flags c, cpu_mem c (cpu_sp c)]"
    unfolding rsi assms(1) by (rule switch_saves_frame [OF assms(2)])
  finally have fr: "map (cpu_mem d) (frame_cells (cpu_regs d RSI)) = \<dots>" .
  show ?thesis
    by (subst switch_restores [OF assms(5) fr], simp add: callee_saved_def rsi)+
qed

definition demo_cpu :: cpu where
  "demo_cpu = \<lparr>cpu_regs = (\<lambda>_. 0)(RDI := 0x100000, RSI := 0x8FC0, RBX := 5), cpu_sp = 0x5000,
     cpu_flags = 0x202, cpu_ip = 1, cpu_cs = 8, cpu_ss = 0, cpu_mem = (\<lambda>_. 0)(0x5000 := 77)\<rparr>"

definition demo_cpu_later :: cpu where
  "demo_cpu_later = \<lparr>cpu_regs = (\<lambda>_. 9)(RDI := 0x200000, RSI := 0x4FC8), cpu_sp = 0x7000,
     cpu_flags = 0x2, cpu_ip = 1, cpu_cs = 8, cpu_ss = 0, cpu_mem = cpu_mem (run_code context_switch demo_cpu)\<rparr>"

theorem context_switch_roundtrip_witness:
  "cpu_regs (run_code context_switch demo_cpu_later) RBX = 5 \<and>
   cpu_ip (run_code context_switch demo_cpu_later) = 77 \<and>
   cpu_sp (run_code context_switch demo_cpu_later) = 0x5008"
proof -
  have "cpu_regs demo_cpu RDI \<notin> set (frame_cells (cpu_sp demo_cpu - 56))"
    "cpu_regs demo_cpu_later RSI = cpu_mem (run_code context_switch demo_cpu) (cpu_regs demo_cpu RDI)"
    "frame_intact (cpu_regs demo_cpu_later RSI) demo_cpu_later" "cpu_regs demo_cpu RBX = 5"
    "cpu_mem demo_cpu (cpu_sp demo_cpu) = 77" "cpu_sp demo_cpu + 8 = 0x5008"
    by code_simp+
  with context_switch_roundtrip [OF refl, of demo_cpu demo_cpu_later] show ?thesis
    by (simp add: callee_saved_def demo_cpu_later_def)
qed

text \<open>Both constructors build the task the scheduler queues, and write only inside its stack.\<close>

lemma new_frame_task: "fst (new_frame entry ks mem) = task_new ks"
  by (simp add: new_frame_def task_new_def diff_diff_eq)

lemma new_with_context_task: "fst (new_with_context tr entry ctx ks mem) = task_new ks"
  by (simp add: new_with_context_def task_new_def diff_diff_eq)

lemma new_frame_cells:
  "map (snd (new_frame entry ks mem)) (frame_cells (ks_top ks - 64)) = [0, 0, 0, 0, 0, 0, INITIAL_RFLAGS, entry]"
  by (simp add: new_frame_def diff_diff_eq frame_cells_def)

lemma new_with_context_cells:
  "map (snd (new_with_context tr entry ctx ks mem)) (frame_cells (ks_top ks - 64)) =
     [0, 0, entry, ctx, 0, 0, INITIAL_RFLAGS, tr]"
  by (simp add: new_with_context_def diff_diff_eq frame_cells_def)

lemma run_trampoline:
  "run_code task_trampoline c = c\<lparr>cpu_regs := (cpu_regs c)(RDI := cpu_regs c R12), cpu_ip := cpu_regs c R13\<rparr>"
  by (simp add: run_code_def task_trampoline_def)

lemma frame_offsets_top [simp]: "(x :: u64) - 64 + 64 = x"
  by simp

text \<open>Switching to a task made by \<^verbatim>\<open>Task::new\<close> starts its entry point with interrupts enabled, the
  callee-saved registers zero and the stack empty. Switching to one made by
  \<^verbatim>\<open>Task::new_with_context\<close> lands in the trampoline, which enters the entry point with the context
  pointer as its first argument. Neither constructor writes outside the 64 bytes below the top.\<close>

lemma new_task_starts:
  assumes "cpu_regs d RSI = ks_top ks - 64" "frame_intact (ks_top ks - 64) d"
  shows "(cpu_mem d = snd (new_frame entry ks mem) \<longrightarrow>
      (let e = run_code context_switch d
       in cpu_ip e = entry \<and> cpu_flags e = INITIAL_RFLAGS \<and> cpu_sp e = ks_top ks \<and>
          (\<forall>r \<in> set callee_saved. cpu_regs e r = 0))) \<and>
    (cpu_mem d = snd (new_with_context trampoline entry context_ptr ks mem) \<longrightarrow>
      (let e = run_code context_switch d; f = run_code task_trampoline e
       in cpu_ip e = trampoline \<and> cpu_flags e = INITIAL_RFLAGS \<and>
          cpu_ip f = entry \<and> cpu_regs f RDI = context_ptr \<and> cpu_sp f = ks_top ks)) \<and>
    (\<forall>x. x \<notin> set (frame_cells (ks_top ks - 64)) \<longrightarrow>
      snd (new_frame entry ks mem) x = mem x \<and>
      snd (new_with_context trampoline entry context_ptr ks mem) x = mem x)"
proof (intro conjI impI allI)
  note intact = assms(2) [folded assms(1)]
  show "let e = run_code context_switch d in cpu_ip e = entry \<and> cpu_flags e = INITIAL_RFLAGS \<and>
      cpu_sp e = ks_top ks \<and> (\<forall>r \<in> set callee_saved. cpu_regs e r = 0)"
    if m: "cpu_mem d = snd (new_frame entry ks mem)"
  proof -
    have fr: "map (cpu_mem d) (frame_cells (cpu_regs d RSI)) = [0, 0, 0, 0, 0, 0, INITIAL_RFLAGS, entry]"
      unfolding m assms(1) by (rule new_frame_cells)
    show ?thesis unfolding Let_def by (subst switch_restores [OF intact fr], simp add: callee_saved_def assms(1))+
  qed
  show "let e = run_code context_switch d; f = run_code task_trampoline e
     in cpu_ip e = trampoline \<and> cpu_flags e = INITIAL_RFLAGS \<and>
        cpu_ip f = entry \<and> cpu_regs f RDI = context_ptr \<and> cpu_sp f = ks_top ks"
    if m: "cpu_mem d = snd (new_with_context trampoline entry context_ptr ks mem)"
  proof -
    have fr: "map (cpu_mem d) (frame_cells (cpu_regs d RSI)) =
        [0, 0, entry, context_ptr, 0, 0, INITIAL_RFLAGS, trampoline]"
      unfolding m assms(1) by (rule new_with_context_cells)
    show ?thesis unfolding Let_def
      by (subst switch_restores [OF intact fr], simp add: run_trampoline assms(1))+
  qed
  fix x
  assume "x \<notin> set (frame_cells (ks_top ks - 64))"
  then show "snd (new_frame entry ks mem) x = mem x"
    "snd (new_with_context trampoline entry context_ptr ks mem) x = mem x"
    by (simp_all add: new_frame_def new_with_context_def frame_cells_def diff_diff_eq)
qed

end
