(* ===== verification/Recycler.thy ===== *)
theory Recycler
  imports Prelude "HOL-Library.Multiset"
begin

text \<open>
  The contract of an allocator that recycles: a supply that never gives the same item twice, a
  stack of returned items used first, and clients that return only what they hold. Kernel stack
  slots and physical frames are both allocated this way. \<open>used s\<close> are the items the supply will
  not give any more and \<open>sok\<close> is the supply's own invariant.
\<close>

lemma count_mset_absent: "x \<notin> set xs \<Longrightarrow> count (mset xs) x = 0"
  by (simp add: count_eq_zero_iff)

locale recycler =
  fixes bump :: "'s \<Rightarrow> 'a option \<times> 's"
    and used :: "'s \<Rightarrow> 'a set"
    and sok :: "'s \<Rightarrow> bool"
  assumes bump_fresh: "sok s \<Longrightarrow> bump s = (Some x, s') \<Longrightarrow> x \<notin> used s \<and> insert x (used s) \<subseteq> used s' \<and> sok s'"
    and bump_none: "sok s \<Longrightarrow> bump s = (None, s') \<Longrightarrow> used s \<subseteq> used s' \<and> sok s'"
begin

text \<open>Every item is in at most one place, free or held, and only items the supply will not give again are.\<close>

definition pool_ok :: "'a list \<Rightarrow> 'a multiset \<Rightarrow> 's \<Rightarrow> bool" where
  "pool_ok free held s \<longleftrightarrow>
     sok s \<and> (\<forall>x. count (mset free + held) x \<le> (if x \<in> used s then 1 else 0))"

lemma pool_count:
  "pool_ok free held s \<Longrightarrow> count (mset free) x + count held x \<le> (if x \<in> used s then 1 else 0)"
  by (simp add: pool_ok_def)

lemma pool_okI:
  "sok s \<Longrightarrow> (\<And>x. count (mset free) x + count held x \<le> (if x \<in> used s then 1 else 0)) \<Longrightarrow> pool_ok free held s"
  by (simp add: pool_ok_def)

lemma pool_sok: "pool_ok free held s \<Longrightarrow> sok s"
  by (simp add: pool_ok_def)

lemma pool_init: "sok s \<Longrightarrow> pool_ok [] {#} s"
  by (simp add: pool_ok_def)

lemma pool_pop:
  assumes "pool_ok free held s" "free \<noteq> []"
  shows "pool_ok (butlast free) (add_mset (last free) held) s"
proof -
  have "mset free = mset (butlast free @ [last free])" using assms(2) by simp
  then have "mset free = add_mset (last free) (mset (butlast free))" by simp
  with assms(1) show ?thesis by (simp add: pool_ok_def)
qed

lemma pool_bump:
  assumes "pool_ok free held s" "bump s = (Some x, s')"
  shows "pool_ok free (add_mset x held) s'"
proof (rule pool_okI)
  have f: "x \<notin> used s" "insert x (used s) \<subseteq> used s'" "sok s'"
    using bump_fresh [OF pool_sok [OF assms(1)] assms(2)] by auto
  show "sok s'" by (rule f(3))
  show "count (mset free) y + count (add_mset x held) y \<le> (if y \<in> used s' then 1 else 0)" for y
    using pool_count [OF assms(1), of y] f by (auto simp: count_mset_absent split: if_splits)
qed

lemma pool_bump_none:
  assumes "pool_ok free held s" "bump s = (None, s')"
  shows "pool_ok free held s'"
proof (rule pool_okI)
  have f: "used s \<subseteq> used s'" "sok s'" using bump_none [OF pool_sok [OF assms(1)] assms(2)] by auto
  show "sok s'" by (rule f(2))
  show "count (mset free) y + count held y \<le> (if y \<in> used s' then 1 else 0)" for y
    using pool_count [OF assms(1), of y] f(1) by (auto simp: count_mset_absent split: if_splits)
qed

lemma pool_release: "pool_ok free (add_mset x held) s \<Longrightarrow> pool_ok (free @ [x]) held s"
  by (simp add: pool_ok_def)

lemma pool_lose:
  assumes "pool_ok free (held + lost) s"
  shows "pool_ok free held s"
proof (rule pool_okI [OF pool_sok [OF assms]])
  show "count (mset free) x + count held x \<le> (if x \<in> used s then 1 else 0)" for x
    using pool_count [OF assms, of x] by simp
qed

lemma pool_held_once: "pool_ok free held s \<Longrightarrow> count held x \<le> 1"
  using pool_count [of free held s x] by (simp split: if_splits)

lemma pool_not_both: "pool_ok free held s \<Longrightarrow> x \<in># held \<Longrightarrow> x \<notin> set free"
proof
  assume ok: "pool_ok free held s" and "x \<in># held" "x \<in> set free"
  then have "0 < count held x" "0 < count (mset free) x" by simp_all
  moreover have "count (mset free) x + count held x \<le> 1"
    by (rule order_trans [OF pool_count [OF ok, of x]]) simp
  ultimately show False by linarith
qed

lemma pool_used:
  assumes "pool_ok free held s" "x \<in># held"
  shows "x \<in> used s"
proof (rule ccontr)
  assume "x \<notin> used s"
  have "0 < count held x" using assms(2) by simp
  from \<open>x \<notin> used s\<close> have "count (mset free) x + count held x \<le> 0"
    using pool_count [OF assms(1), of x] by metis
  with \<open>0 < count held x\<close> show False by linarith
qed

end

end
