(* ===== verification/KStack.thy ===== *)
theory KStack
  imports SchedulerProofs Recycler
begin

text \<open>
  Kernel stacks (\<^verbatim>\<open>kernel/src/mm/kstack.rs\<close>): slots handed out by a bump counter and recycled last
  in, first out. The page mapper and the frame allocator are arguments: \<open>map_page page flags\<close>
  takes a frame and maps it, changing the memory state \<open>'m\<close>, and returns whether both worked. The
  last part runs the allocator under the scheduler, the way \<^verbatim>\<open>Task::new\<close> and \<^verbatim>\<open>Drop for Task\<close> do,
  and shows that no two live tasks ever have overlapping stacks.
\<close>

section \<open>The allocator\<close>

record kstack_alloc =
  ka_next_slot :: u64
  ka_free_slots :: "u64 list"

definition kstack_init :: kstack_alloc where
  "kstack_init = \<lparr>ka_next_slot = 0, ka_free_slots = []\<rparr>"

definition guard_page :: "kernel_stack \<Rightarrow> u64" where
  "guard_page ks = ks_bottom ks - 4096"

text \<open>A slot never used before, if any is left.\<close>

definition bump_slot :: "u64 \<Rightarrow> u64 option \<times> u64" where
  "bump_slot n = (if n < KERNEL_STACK_SLOTS then (Some n, n + 1) else (None, n))"

definition take_slot :: "kstack_alloc \<Rightarrow> (u64 \<times> bool) option \<times> kstack_alloc" where
  "take_slot ka =
     (if ka_free_slots ka \<noteq> []
      then (Some (last (ka_free_slots ka), True), ka\<lparr>ka_free_slots := butlast (ka_free_slots ka)\<rparr>)
      else
        (case bump_slot (ka_next_slot ka) of
           (Some slot, n) \<Rightarrow> (Some (slot, False), ka\<lparr>ka_next_slot := n\<rparr>)
         | (None, _) \<Rightarrow> (None, ka)))"

definition stack_at :: "u64 \<Rightarrow> kernel_stack" where
  "stack_at slot =
     (let slot_base = KERNEL_STACK_AREA + slot * KERNEL_STACK_SLOT;
          bottom = slot_base + 4096;
          top = bottom + KERNEL_STACK_SIZE
      in \<lparr>ks_slot = slot, ks_bottom = bottom, ks_top = top\<rparr>)"

definition PAGE_PRESENT :: u64 where "PAGE_PRESENT = 1"
definition PAGE_WRITABLE :: u64 where "PAGE_WRITABLE = 2"
definition PAGE_NO_EXECUTE :: u64 where "PAGE_NO_EXECUTE = 0x8000000000000000"

primrec map_pages :: "(u64 \<Rightarrow> u64 \<Rightarrow> 'm \<Rightarrow> bool \<times> 'm) \<Rightarrow> u64 \<Rightarrow> u64 list \<Rightarrow> 'm \<Rightarrow> bool \<times> 'm" where
  "map_pages map_page flags [] mem = (True, mem)"
| "map_pages map_page flags (p # ps) mem =
     (case map_page p flags mem of
        (False, mem') \<Rightarrow> (False, mem')
      | (True, mem') \<Rightarrow> map_pages map_page flags ps mem')"

definition kstack_allocate ::
  "(u64 \<Rightarrow> u64 \<Rightarrow> 'm \<Rightarrow> bool \<times> 'm) \<Rightarrow> bool \<Rightarrow> kstack_alloc \<Rightarrow> 'm \<Rightarrow> kernel_stack option \<times> kstack_alloc \<times> 'm" where
  "kstack_allocate map_page nx ka mem =
     (case take_slot ka of
        (None, ka') \<Rightarrow> (None, ka', mem)
      | (Some (slot, is_reuse), ka') \<Rightarrow>
          (let ks = stack_at slot in
           if is_reuse then (Some ks, ka', mem)
           else
             (let flags = (if nx then or (or PAGE_PRESENT PAGE_WRITABLE) PAGE_NO_EXECUTE
                           else or PAGE_PRESENT PAGE_WRITABLE);
                  pages = map (\<lambda>i. ks_bottom ks + of_nat i * 4096) [0..<unat (KERNEL_STACK_SIZE div 4096)]
              in case map_pages map_page flags pages mem of
                   (True, mem') \<Rightarrow> (Some ks, ka', mem')
                 | (False, mem') \<Rightarrow> (None, ka', mem'))))"

definition kstack_release :: "kernel_stack \<Rightarrow> kstack_alloc \<Rightarrow> kstack_alloc" where
  "kstack_release ks ka = ka\<lparr>ka_free_slots := ka_free_slots ka @ [ks_slot ks]\<rparr>"

text \<open>An underflow of the subtraction would panic.\<close>

definition kstack_stats :: "kstack_alloc \<Rightarrow> (unit, u64 \<times> u64 \<times> u64) outcome" where
  "kstack_stats ka =
     (if of_nat (length (ka_free_slots ka)) \<le> ka_next_slot ka
      then Ok (ka_next_slot ka - of_nat (length (ka_free_slots ka)), ka_next_slot ka, KERNEL_STACK_SLOTS)
      else Panic)"

definition guard_page_is_unmapped :: "(u64 \<Rightarrow> u64 option) \<Rightarrow> kernel_stack \<Rightarrow> bool" where
  "guard_page_is_unmapped translate_addr ks \<longleftrightarrow> translate_addr (guard_page ks) = None"

section \<open>The allocator keeps its contract\<close>

interpretation slots: recycler bump_slot "\<lambda>n. {x. x < n}" "\<lambda>n. n \<le> KERNEL_STACK_SLOTS"
proof
  fix n x n' :: u64
  assume "n \<le> KERNEL_STACK_SLOTS" "bump_slot n = (Some x, n')"
  then have n: "n < KERNEL_STACK_SLOTS" "x = n" "n' = n + 1" by (auto simp: bump_slot_def split: if_splits)
  then have "unat n < 256" by (simp add: KERNEL_STACK_SLOTS_def word_less_nat_alt)
  then have u: "unat (n + 1) = Suc (unat n)" by (simp add: unat_inc)
  have lt: "y < n + 1 \<longleftrightarrow> y = n \<or> y < n" for y
    unfolding word_less_nat_alt u less_Suc_eq by (auto simp: word_unat_eq_iff)
  have "n + 1 \<le> KERNEL_STACK_SLOTS"
    using n(1) u by (simp add: word_le_nat_alt word_less_nat_alt)
  with n lt show "x \<notin> {y. y < n} \<and> insert x {y. y < n} \<subseteq> {y. y < n'} \<and> n' \<le> KERNEL_STACK_SLOTS"
    by auto
qed (auto simp: bump_slot_def split: if_splits)

section \<open>Stacks under the scheduler\<close>

text \<open>
  Every spawn first takes a stack from the allocator and every task that is dropped gives its
  stack back. The stack in a spawn operation is the one the allocator returned.
\<close>

fun with_stack :: "kernel_stack option \<Rightarrow> sched_op \<Rightarrow> sched_op" where
  "with_stack ks (OpSpawn _) = OpSpawn ks"
| "with_stack ks (OpSpawnInClass _ c) = OpSpawnInClass ks c"
| "with_stack ks (OpSpawnProcess _ root pid c) = OpSpawnProcess ks root pid c"
| "with_stack ks oper = oper"

fun is_spawn :: "sched_op \<Rightarrow> bool" where
  "is_spawn (OpSpawn _) \<longleftrightarrow> True"
| "is_spawn (OpSpawnInClass _ _) \<longleftrightarrow> True"
| "is_spawn (OpSpawnProcess _ _ _ _) \<longleftrightarrow> True"
| "is_spawn _ \<longleftrightarrow> False"

record 'm task_world =
  tw_kstacks :: kstack_alloc
  tw_mem :: 'm
  tw_world :: sched_world

definition task_exec ::
  "(u64 \<Rightarrow> u64 \<Rightarrow> 'm \<Rightarrow> bool \<times> 'm) \<Rightarrow> bool \<Rightarrow> sched_op \<Rightarrow> 'm task_world \<Rightarrow> 'm task_world" where
  "task_exec map_page nx oper tw =
     (if wd_panicked (tw_world tw) then tw
      else if is_spawn oper
      then (case kstack_allocate map_page nx (tw_kstacks tw) (tw_mem tw) of
              (ks, ka, mem) \<Rightarrow>
                \<lparr>tw_kstacks = ka, tw_mem = mem, tw_world = sched_exec (with_stack ks oper) (tw_world tw)\<rparr>)
      else
        (let w = sched_exec oper (tw_world tw);
             dropped = drop (length (wd_freed (tw_world tw))) (wd_freed w)
         in tw\<lparr>tw_kstacks := fold kstack_release dropped (tw_kstacks tw), tw_world := w\<rparr>))"

definition task_world_init :: "'m \<Rightarrow> 'm task_world" where
  "task_world_init mem = \<lparr>tw_kstacks = kstack_init, tw_mem = mem, tw_world = world_init\<rparr>"

definition held_stacks :: "sched_world \<Rightarrow> kernel_stack multiset" where
  "held_stacks w = live_stacks (wd_sched w) + mset (stacks_of (sc_zombie (wd_sched w)))"

definition stacks_inv :: "nat \<Rightarrow> 'm task_world \<Rightarrow> bool" where
  "stacks_inv n tw \<longleftrightarrow>
     (\<not> wd_panicked (tw_world tw) \<longrightarrow>
        sched_inv n (tw_world tw) \<and>
        slots.pool_ok (ka_free_slots (tw_kstacks tw)) (image_mset ks_slot (held_stacks (tw_world tw)))
          (ka_next_slot (tw_kstacks tw)) \<and>
        (\<forall>k \<in># held_stacks (tw_world tw). k = stack_at (ks_slot k)))"

lemma stack_at_slot [simp]: "ks_slot (stack_at slot) = slot"
  by (simp add: stack_at_def Let_def)

lemma fold_release:
  "fold kstack_release ks ka = ka\<lparr>ka_free_slots := ka_free_slots ka @ map ks_slot ks\<rparr>"
  by (induction ks arbitrary: ka) (simp_all add: kstack_release_def)

lemma pool_release_many:
  "slots.pool_ok free (mset xs + held) n \<Longrightarrow> slots.pool_ok (free @ xs) held n"
proof (induction xs arbitrary: free)
  case (Cons x xs)
  then have "slots.pool_ok (free @ [x]) (mset xs + held) n" by (intro slots.pool_release) simp
  from Cons.IH [OF this] show ?case by simp
qed simp

text \<open>What a scheduler step does to the ledger of stacks.\<close>

lemma plan_ledger:
  "wd_spawned (switched_with r w) = wd_spawned w" "wd_freed (switched_with r w) = wd_freed w"
  by (auto simp: switched_with_def split: prod.splits outcome.splits)

lemma step_ledger:
  assumes "\<not> is_spawn oper"
  shows "wd_spawned (sched_exec oper w) = wd_spawned w"
    "wd_freed (sched_exec oper w) = wd_freed w @ drop (length (wd_freed w)) (wd_freed (sched_exec oper w))"
  using assms
  by (cases oper; auto simp: sched_exec_def plan_ledger reap_zombie_def Let_def
      split: prod.splits outcome.splits option.splits)+

lemma spawn_ledger:
  assumes "is_spawn oper" "\<not> wd_panicked w" "\<not> wd_panicked (sched_exec (with_stack ks oper) w)"
  obtains k where "ks = Some k" "wd_spawned (sched_exec (with_stack ks oper) w) = wd_spawned w @ [k]"
    "wd_freed (sched_exec (with_stack ks oper) w) = wd_freed w"
proof -
  obtain k where k: "ks = Some k"
    using assms by (cases oper; cases ks) (auto simp: sched_exec_def spawned_with_def)
  have "wd_spawned (sched_exec (with_stack ks oper) w) = wd_spawned w @ [k] \<and>
    wd_freed (sched_exec (with_stack ks oper) w) = wd_freed w"
    using assms k by (cases oper)
      (auto simp: sched_exec_def spawned_with_def spawn_def spawn_in_class_def spawn_process_def)
  then show ?thesis using that k by blast
qed

lemma take_slot_pool:
  assumes "slots.pool_ok (ka_free_slots ka) held (ka_next_slot ka)" "take_slot ka = (r, ka')"
  shows "case r of
      Some (slot, _) \<Rightarrow> slots.pool_ok (ka_free_slots ka') (add_mset slot held) (ka_next_slot ka')
    | None \<Rightarrow> slots.pool_ok (ka_free_slots ka') held (ka_next_slot ka')"
proof (cases "ka_free_slots ka = []")
  case True
  obtain x n where b: "bump_slot (ka_next_slot ka) = (x, n)" by (cases "bump_slot (ka_next_slot ka)")
  show ?thesis
  proof (cases x)
    case (Some slot)
    from slots.pool_bump [OF assms(1) b [unfolded Some]] show ?thesis
      using assms(2) True b Some by (auto simp: take_slot_def)
  next
    case None
    then show ?thesis using assms True b by (auto simp: take_slot_def)
  qed
next
  case False
  then show ?thesis using slots.pool_pop [OF assms(1)] assms(2) by (auto simp: take_slot_def)
qed

lemma allocate_pool:
  assumes "slots.pool_ok (ka_free_slots ka) held (ka_next_slot ka)"
    and "kstack_allocate map_page nx ka mem = (r, ka', mem')"
  shows "case r of
      Some k \<Rightarrow> k = stack_at (ks_slot k) \<and>
        slots.pool_ok (ka_free_slots ka') (add_mset (ks_slot k) held) (ka_next_slot ka')
    | None \<Rightarrow> slots.pool_ok (ka_free_slots ka') held (ka_next_slot ka')"
proof -
  obtain x ka1 where t: "take_slot ka = (x, ka1)" by (cases "take_slot ka")
  note p = take_slot_pool [OF assms(1) t]
  show ?thesis
  proof (cases x)
    case None
    then show ?thesis using assms(2) t p by (auto simp: kstack_allocate_def)
  next
    case (Some sr)
    obtain slot reuse where sr: "sr = (slot, reuse)" by (cases sr)
    have pool: "slots.pool_ok (ka_free_slots ka1) (add_mset slot held) (ka_next_slot ka1)"
      using p Some sr by simp
    then have lost: "slots.pool_ok (ka_free_slots ka1) held (ka_next_slot ka1)"
      using slots.pool_lose [of "ka_free_slots ka1" held "{#slot#}"] by simp
    have "ka' = ka1" "r = None \<or> r = Some (stack_at slot)"
      using assms(2) t Some sr
      by (auto simp: kstack_allocate_def Let_def split: if_splits prod.splits bool.splits)
    then show ?thesis using pool lost by auto
  qed
qed

lemma held_parts:
  assumes "sched_inv n w" "\<not> wd_panicked w"
  shows "mset (wd_spawned w) = held_stacks w + mset (wd_freed w)"
  using inv_parts(2) [OF assms] by (simp add: held_stacks_def)

lemma stacks_inv_spawn:
  assumes inv: "stacks_inv n tw" and np: "\<not> wd_panicked (tw_world tw)" and sp: "is_spawn oper"
  shows "stacks_inv (Suc n) (task_exec map_page nx oper tw)"
proof -
  let ?w = "tw_world tw"
  obtain r ka mem where al: "kstack_allocate map_page nx (tw_kstacks tw) (tw_mem tw) = (r, ka, mem)"
    by (cases "kstack_allocate map_page nx (tw_kstacks tw) (tw_mem tw)") auto
  let ?w' = "sched_exec (with_stack r oper) ?w"
  have tw': "task_exec map_page nx oper tw = \<lparr>tw_kstacks = ka, tw_mem = mem, tw_world = ?w'\<rparr>"
    using np sp al by (simp add: task_exec_def)
  have si: "sched_inv n ?w" and wf: "\<forall>k \<in># held_stacks ?w. k = stack_at (ks_slot k)"
    and pool: "slots.pool_ok (ka_free_slots (tw_kstacks tw)) (image_mset ks_slot (held_stacks ?w))
      (ka_next_slot (tw_kstacks tw))"
    using inv np by (auto simp: stacks_inv_def)
  have si': "sched_inv (Suc n) ?w'" using sched_exec_inv [OF si] .
  show ?thesis
  proof (cases "wd_panicked ?w'")
    case True
    then show ?thesis by (simp add: tw' stacks_inv_def)
  next
    case False
    from spawn_ledger [OF sp np False] obtain k where k: "r = Some k"
      and l: "wd_spawned ?w' = wd_spawned ?w @ [k]" "wd_freed ?w' = wd_freed ?w" by blast
    have "held_stacks ?w' = add_mset k (held_stacks ?w)"
      using held_parts [OF si np] held_parts [OF si' False] l by simp
    then show ?thesis using allocate_pool [OF pool al] si' wf k by (simp add: tw' stacks_inv_def)
  qed
qed

lemma stacks_inv_step:
  assumes inv: "stacks_inv n tw" and np: "\<not> wd_panicked (tw_world tw)" and sp: "\<not> is_spawn oper"
  shows "stacks_inv (Suc n) (task_exec map_page nx oper tw)"
proof -
  let ?w = "tw_world tw" and ?w' = "sched_exec oper (tw_world tw)"
  define dr where "dr = drop (length (wd_freed ?w)) (wd_freed ?w')"
  have tw': "task_exec map_page nx oper tw =
      tw\<lparr>tw_kstacks := (tw_kstacks tw)\<lparr>ka_free_slots := ka_free_slots (tw_kstacks tw) @ map ks_slot dr\<rparr>, tw_world := ?w'\<rparr>"
    using np sp by (simp add: task_exec_def Let_def fold_release dr_def)
  have si: "sched_inv n ?w" and wf: "\<forall>k \<in># held_stacks ?w. k = stack_at (ks_slot k)"
    and pool: "slots.pool_ok (ka_free_slots (tw_kstacks tw)) (image_mset ks_slot (held_stacks ?w))
      (ka_next_slot (tw_kstacks tw))"
    using inv np by (auto simp: stacks_inv_def)
  have si': "sched_inv (Suc n) ?w'" using sched_exec_inv [OF si] .
  show ?thesis
  proof (cases "wd_panicked ?w'")
    case True
    then show ?thesis by (simp add: tw' stacks_inv_def)
  next
    case False
    have l: "wd_spawned ?w' = wd_spawned ?w" "wd_freed ?w' = wd_freed ?w @ dr"
      using step_ledger [OF sp, of ?w] by (simp_all add: dr_def)
    have h: "held_stacks ?w = mset dr + held_stacks ?w'"
      using held_parts [OF si np] held_parts [OF si' False] l by (simp add: ac_simps)
    have "slots.pool_ok (ka_free_slots (tw_kstacks tw) @ map ks_slot dr)
        (image_mset ks_slot (held_stacks ?w')) (ka_next_slot (tw_kstacks tw))"
      using pool by (intro pool_release_many) (simp add: h)
    then show ?thesis using si' wf h by (simp add: tw' stacks_inv_def)
  qed
qed

lemma task_exec_inv: "stacks_inv n tw \<Longrightarrow> stacks_inv (Suc n) (task_exec map_page nx oper tw)"
proof (cases "wd_panicked (tw_world tw)")
  case True
  then show ?thesis by (simp add: task_exec_def stacks_inv_def)
next
  case False
  then show "stacks_inv n tw \<Longrightarrow> ?thesis" using stacks_inv_spawn stacks_inv_step by blast
qed

lemma task_init_inv: "stacks_inv 0 (task_world_init mem)"
  using inv_world_init slots.pool_init [of 0]
  by (simp add: stacks_inv_def task_world_init_def kstack_init_def held_stacks_def world_init_def
      sched_new_def live_stacks_def live_tasks_def)

interpretation tasks: op_machine "task_world_init mem" "task_exec map_page nx" stacks_inv bound
  for mem map_page nx bound
  by unfold_locales (simp_all add: task_init_inv task_exec_inv)

lemmas stack_sizes = KERNEL_STACK_AREA_def KERNEL_STACK_SLOT_def KERNEL_STACK_SIZE_def

lemma stack_at_bounds:
  assumes "slot < KERNEL_STACK_SLOTS"
  shows "unat (guard_page (stack_at slot)) = unat KERNEL_STACK_AREA + unat slot * 20480"
    "unat (ks_top (stack_at slot)) = unat KERNEL_STACK_AREA + unat slot * 20480 + 20480"
proof -
  have lt: "unat slot < 256" using assms by (simp add: KERNEL_STACK_SLOTS_def word_less_nat_alt)
  have m: "unat (slot * 20480) = unat slot * 20480"
    using lt by (subst unat_mult_lem [THEN iffD1]) simp_all
  have g: "guard_page (stack_at slot) = KERNEL_STACK_AREA + slot * 20480"
    by (simp add: guard_page_def stack_at_def Let_def KERNEL_STACK_SLOT_def KERNEL_STACK_SIZE_def)
  have t: "ks_top (stack_at slot) = KERNEL_STACK_AREA + slot * 20480 + 20480"
    by (simp add: stack_at_def Let_def KERNEL_STACK_SLOT_def KERNEL_STACK_SIZE_def)
  have g': "unat (KERNEL_STACK_AREA + slot * 20480) = unat KERNEL_STACK_AREA + unat slot * 20480"
    using lt m by (subst unat_add_lem [THEN iffD1]) (simp_all add: KERNEL_STACK_AREA_def)
  show "unat (guard_page (stack_at slot)) = unat KERNEL_STACK_AREA + unat slot * 20480" using g g' by simp
  show "unat (ks_top (stack_at slot)) = unat KERNEL_STACK_AREA + unat slot * 20480 + 20480"
    unfolding t using lt g' by (subst unat_add_lem [THEN iffD1]) (simp_all add: KERNEL_STACK_AREA_def)
qed

lemma stacks_apart:
  assumes "a < KERNEL_STACK_SLOTS" "b < KERNEL_STACK_SLOTS" "a \<noteq> b"
  shows "ks_top (stack_at a) \<le> guard_page (stack_at b) \<or> ks_top (stack_at b) \<le> guard_page (stack_at a)"
proof -
  have "unat a < unat b \<or> unat b < unat a" using assms(3) by (auto simp: word_unat_eq_iff)
  then show ?thesis
    unfolding word_le_nat_alt stack_at_bounds [OF assms(1)] stack_at_bounds [OF assms(2)] by linarith
qed

section \<open>Properties\<close>

text \<open>C20. Whatever the page mapper does, in every run of the scheduler over the stack allocator that has
  not panicked, every kernel stack belongs to at most one queued or running task, is the stack of
  its slot within the region, is not on the free list, and no two of them, guard pages included,
  overlap.\<close>

theorem kernel_stacks_never_shared:
  fixes mem :: 'm
  assumes "tw = fold (task_exec map_page nx) ops (task_world_init mem)" "\<not> wd_panicked (tw_world tw)"
  defines "s \<equiv> wd_sched (tw_world tw)"
  shows "distinct_slots s \<and>
    (\<forall>k \<in># live_stacks s. k = stack_at (ks_slot k) \<and> ks_slot k < KERNEL_STACK_SLOTS \<and>
       ks_slot k \<notin> set (ka_free_slots (tw_kstacks tw))) \<and>
    (\<forall>k \<in># live_stacks s. \<forall>k' \<in># live_stacks s. ks_slot k \<noteq> ks_slot k' \<longrightarrow>
       ks_top k \<le> guard_page k' \<or> ks_top k' \<le> guard_page k)"
proof -
  have inv: "stacks_inv (length ops) tw" unfolding assms(1)
    by (rule tasks.inv_run [of ops "Suc (length ops)"]) simp
  then have wf: "\<forall>k \<in># live_stacks s. k = stack_at (ks_slot k)"
    and pool: "slots.pool_ok (ka_free_slots (tw_kstacks tw)) (image_mset ks_slot (held_stacks (tw_world tw)))
      (ka_next_slot (tw_kstacks tw))"
    using assms(2) by (auto simp: stacks_inv_def held_stacks_def s_def)
  let ?h = "image_mset ks_slot (live_stacks s)"
  have pool': "slots.pool_ok (ka_free_slots (tw_kstacks tw)) ?h (ka_next_slot (tw_kstacks tw))"
    using pool slots.pool_lose by (simp add: held_stacks_def s_def)
  have n: "ka_next_slot (tw_kstacks tw) \<le> KERNEL_STACK_SLOTS" using slots.pool_sok [OF pool'] .
  have each: "ks_slot k < KERNEL_STACK_SLOTS \<and> ks_slot k \<notin> set (ka_free_slots (tw_kstacks tw))"
    if "k \<in># live_stacks s" for k
  proof -
    have "ks_slot k \<in># ?h" using that by simp
    with slots.pool_used [OF pool'] slots.pool_not_both [OF pool'] n show ?thesis
      by (auto intro: less_le_trans)
  qed
  have "distinct_slots s" using slots.pool_held_once [OF pool'] by (simp add: distinct_slots_def)
  moreover have "ks_top k \<le> guard_page k' \<or> ks_top k' \<le> guard_page k"
    if "k \<in># live_stacks s" "k' \<in># live_stacks s" "ks_slot k \<noteq> ks_slot k'" for k k'
    using stacks_apart [of "ks_slot k" "ks_slot k'"] each that wf by metis
  ultimately show ?thesis using wf each by auto
qed

definition demo_map :: "u64 \<Rightarrow> u64 \<Rightarrow> u64 \<Rightarrow> bool \<times> u64" where
  "demo_map page flags frames = (if frames = 0 then (False, frames) else (True, frames - 1))"

theorem kernel_stacks_never_shared_witness:
  "\<not> wd_panicked (tw_world (fold (task_exec demo_map True) demo_ops (task_world_init 100))) \<and>
   distinct_slots (wd_sched (tw_world (fold (task_exec demo_map True) demo_ops (task_world_init 100))))"
proof -
  have "\<not> wd_panicked (tw_world (fold (task_exec demo_map True) demo_ops (task_world_init 100)))"
    by code_simp
  with kernel_stacks_never_shared [OF refl this] show ?thesis by simp
qed

end
