(* ===== verification/Frames.thy ===== *)
theory Frames
  imports Recycler Machine
begin

text \<open>
  Physical frames: the free list of \<^verbatim>\<open>kernel/src/mm/frame_pool.rs\<close> and the bump allocator
  \<^verbatim>\<open>BootInfoFrameAllocator\<close> of \<^verbatim>\<open>kernel/src/mm/memory.rs\<close> over the boot loader's memory map. A frame
  is named by its physical address.
\<close>

section \<open>The free list\<close>

record frame_pool =
  fp_free :: "u64 list"
  fp_released :: nat

definition pool_init :: frame_pool where
  "pool_init = \<lparr>fp_free = [], fp_released = 0\<rparr>"

text \<open>A frame that is already free is not released again.\<close>

definition frame_release :: "u64 \<Rightarrow> frame_pool \<Rightarrow> frame_pool" where
  "frame_release f p =
     (if f \<in> set (fp_free p) then p
      else p\<lparr>fp_free := fp_free p @ [f], fp_released := fp_released p + 1\<rparr>)"

definition acquire :: "frame_pool \<Rightarrow> u64 option \<times> frame_pool" where
  "acquire p =
     (if fp_free p = [] then (None, p)
      else (Some (last (fp_free p)), p\<lparr>fp_free := butlast (fp_free p)\<rparr>))"

definition pool_stats :: "frame_pool \<Rightarrow> nat \<times> nat" where
  "pool_stats p = (length (fp_free p), fp_released p)"

section \<open>The boot allocator\<close>

record memory_region =
  mr_start :: u64
  mr_end :: u64
  mr_usable :: bool

record boot_alloc =
  ba_region_index :: nat
  ba_next_addr :: u64

function skip_to_usable_region :: "memory_region list \<Rightarrow> boot_alloc \<Rightarrow> boot_alloc" where
  "skip_to_usable_region regions ba =
     (if ba_region_index ba < length regions
      then (let region = regions ! ba_region_index ba in
            if mr_usable region then ba\<lparr>ba_next_addr := mr_start region\<rparr>
            else skip_to_usable_region regions (ba\<lparr>ba_region_index := ba_region_index ba + 1\<rparr>))
      else ba)"
  by pat_completeness auto
termination
  by (relation "measure (\<lambda>(regions, ba). length regions - ba_region_index ba)") auto

declare skip_to_usable_region.simps [simp del]

definition boot_alloc_init :: "memory_region list \<Rightarrow> boot_alloc" where
  "boot_alloc_init regions = skip_to_usable_region regions \<lparr>ba_region_index = 0, ba_next_addr = 0\<rparr>"

lemma skip_index: "ba_region_index ba \<le> ba_region_index (skip_to_usable_region regions ba)"
proof (induction regions ba rule: skip_to_usable_region.induct)
  case (1 regions ba)
  then show ?case
    by (subst skip_to_usable_region.simps) (auto simp: Let_def)
qed

text \<open>
  The bump half of \<^verbatim>\<open>allocate_frame\<close>: \<open>next_addr + 4096\<close> overflowing (a sum below its summand)
  would panic, as would an address that \<^verbatim>\<open>PhysAddr::new\<close> rejects.
\<close>

function bump_frame ::
  "(u64 \<Rightarrow> bool) \<Rightarrow> memory_region list \<Rightarrow> boot_alloc \<Rightarrow> (unit, u64 option) outcome \<times> boot_alloc" where
  "bump_frame phys_ok regions ba =
     (if ba_region_index ba \<ge> length regions then (Ok None, ba)
      else
        (let region = regions ! ba_region_index ba in
         if \<not> mr_usable region
         then bump_frame phys_ok regions
                (skip_to_usable_region regions (ba\<lparr>ba_region_index := ba_region_index ba + 1\<rparr>))
         else if ba_next_addr ba + 4096 < ba_next_addr ba then (Panic, ba)
         else if ba_next_addr ba + 4096 > mr_end region
         then bump_frame phys_ok regions
                (skip_to_usable_region regions (ba\<lparr>ba_region_index := ba_region_index ba + 1\<rparr>))
         else if phys_ok (ba_next_addr ba)
         then (Ok (Some (ba_next_addr ba)), ba\<lparr>ba_next_addr := ba_next_addr ba + 4096\<rparr>)
         else (Panic, ba\<lparr>ba_next_addr := ba_next_addr ba + 4096\<rparr>)))"
  by pat_completeness auto
termination
proof (relation "measure (\<lambda>(phys_ok, regions, ba). length regions - ba_region_index ba)")
  fix phys_ok :: "u64 \<Rightarrow> bool" and regions :: "memory_region list" and ba :: boot_alloc
  let ?ba = "ba\<lparr>ba_region_index := ba_region_index ba + 1\<rparr>"
  assume "\<not> length regions \<le> ba_region_index ba"
  then show "((phys_ok, regions, skip_to_usable_region regions ?ba), phys_ok, regions, ba)
      \<in> measure (\<lambda>(phys_ok, regions, ba). length regions - ba_region_index ba)"
    using skip_index [of ?ba regions] by simp
  then show "((phys_ok, regions, skip_to_usable_region regions ?ba), phys_ok, regions, ba)
      \<in> measure (\<lambda>(phys_ok, regions, ba). length regions - ba_region_index ba)" .
qed simp

declare bump_frame.simps [simp del]

definition allocate_frame ::
  "(u64 \<Rightarrow> bool) \<Rightarrow> memory_region list \<Rightarrow> boot_alloc \<times> frame_pool \<Rightarrow>
   (unit, u64 option) outcome \<times> boot_alloc \<times> frame_pool" where
  "allocate_frame phys_ok regions st =
     (case st of (ba, p) \<Rightarrow>
        (case acquire p of
           (Some f, p') \<Rightarrow> (Ok (Some f), ba, p')
         | (None, p') \<Rightarrow> (case bump_frame phys_ok regions ba of (r, ba') \<Rightarrow> (r, ba', p'))))"

section \<open>The memory map and the supply\<close>

text \<open>
  What the boot loader documents of its memory map: regions are page aligned, sorted by address
  and do not overlap, and physical addresses have at most 52 bits.
\<close>

definition region_ok :: "memory_region \<Rightarrow> bool" where
  "region_ok r \<longleftrightarrow>
     mr_start r \<le> mr_end r \<and> unat (mr_end r) < 2 ^ 52 \<and> 4096 dvd unat (mr_start r) \<and> 4096 dvd unat (mr_end r)"

definition regions_ok :: "memory_region list \<Rightarrow> bool" where
  "regions_ok regions \<longleftrightarrow>
     list_all region_ok regions \<and> sorted_wrt (\<lambda>a b. mr_end a \<le> mr_start b) regions"

definition accepts_physical :: "(u64 \<Rightarrow> bool) \<Rightarrow> bool" where
  "accepts_physical phys_ok \<longleftrightarrow> (\<forall>a. unat a < 2 ^ 52 \<longrightarrow> phys_ok a)"

definition in_usable :: "memory_region list \<Rightarrow> u64 \<Rightarrow> bool" where
  "in_usable regions f \<longleftrightarrow>
     (\<exists>r \<in> set regions. mr_usable r \<and> unat (mr_start r) \<le> unat f \<and> unat f + 4096 \<le> unat (mr_end r))"

definition cursor_ok :: "(u64 \<Rightarrow> bool) \<Rightarrow> memory_region list \<Rightarrow> boot_alloc \<Rightarrow> bool" where
  "cursor_ok phys_ok regions ba \<longleftrightarrow>
     regions_ok regions \<and> accepts_physical phys_ok \<and>
     (ba_region_index ba < length regions \<longrightarrow>
        mr_usable (regions ! ba_region_index ba) \<and>
        mr_start (regions ! ba_region_index ba) \<le> ba_next_addr ba \<and>
        ba_next_addr ba \<le> mr_end (regions ! ba_region_index ba) \<and> 4096 dvd unat (ba_next_addr ba))"

definition passed :: "memory_region list \<Rightarrow> boot_alloc \<Rightarrow> u64 set" where
  "passed regions ba = {f. length regions \<le> ba_region_index ba \<or> f < ba_next_addr ba}"

lemma regions_nth:
  assumes "regions_ok regions" "i < length regions"
  shows "region_ok (regions ! i)"
  using assms by (simp add: regions_ok_def list_all_length)

lemma regions_ordered:
  assumes "regions_ok regions" "i < j" "j < length regions"
  shows "mr_end (regions ! i) \<le> mr_start (regions ! j)"
  using assms sorted_wrt_nth_less [of "\<lambda>a b. mr_end a \<le> mr_start b" regions i j] by (simp add: regions_ok_def)

text \<open>Skipping lands on a usable region at or after the index, or past the end.\<close>

lemma skip_cases:
  obtains (past) "length regions \<le> ba_region_index (skip_to_usable_region regions ba)"
  | (found) i where "ba_region_index ba \<le> i" "i < length regions" "mr_usable (regions ! i)"
      "skip_to_usable_region regions ba = \<lparr>ba_region_index = i, ba_next_addr = mr_start (regions ! i)\<rparr>"
proof (induction regions ba rule: skip_to_usable_region.induct)
  case (1 regions ba)
  show ?case
  proof (cases "ba_region_index ba < length regions")
    case False
    then show ?thesis using 1(2) by (simp add: skip_to_usable_region.simps)
  next
    case True
    show ?thesis
    proof (cases "mr_usable (regions ! ba_region_index ba)")
      case use: True
      then have "skip_to_usable_region regions ba =
          \<lparr>ba_region_index = ba_region_index ba, ba_next_addr = mr_start (regions ! ba_region_index ba)\<rparr>"
        using True by (subst skip_to_usable_region.simps) (simp add: Let_def)
      with use True show ?thesis using 1(3) by blast
    next
      case use: False
      let ?ba = "ba\<lparr>ba_region_index := ba_region_index ba + 1\<rparr>"
      have eq: "skip_to_usable_region regions ba = skip_to_usable_region regions ?ba"
        using True use by (subst skip_to_usable_region.simps) (simp add: Let_def)
      show ?thesis
      proof (rule 1(1) [OF True refl use])
        show thesis if "length regions \<le> ba_region_index (skip_to_usable_region regions ?ba)"
          using 1(2) that eq by simp
        show thesis if "ba_region_index ?ba \<le> i" "i < length regions" "mr_usable (regions ! i)"
          "skip_to_usable_region regions ?ba = \<lparr>ba_region_index = i, ba_next_addr = mr_start (regions ! i)\<rparr>" for i
          using 1(3) [of i] that eq by simp
      qed
    qed
  qed
qed

lemma skip_ok:
  assumes "regions_ok regions" "accepts_physical phys_ok"
  shows "cursor_ok phys_ok regions (skip_to_usable_region regions ba)"
proof (cases rule: skip_cases [of regions ba])
  case (found i)
  then show ?thesis using assms regions_nth [OF assms(1), of i] by (simp add: cursor_ok_def region_ok_def)
qed (use assms in \<open>simp add: cursor_ok_def\<close>)

lemma skip_passed:
  assumes "cursor_ok phys_ok regions ba" "ba_region_index ba < length regions"
  shows "passed regions ba \<subseteq> passed regions (skip_to_usable_region regions (ba\<lparr>ba_region_index := ba_region_index ba + 1\<rparr>))"
proof (cases rule: skip_cases [of regions "ba\<lparr>ba_region_index := ba_region_index ba + 1\<rparr>"])
  case past
  then show ?thesis by (auto simp: passed_def)
next
  case (found i)
  have "regions_ok regions" using assms(1) by (simp add: cursor_ok_def)
  then have "mr_end (regions ! ba_region_index ba) \<le> mr_start (regions ! i)"
    using regions_ordered [of regions "ba_region_index ba" i] found(1,2) by simp
  moreover have "ba_next_addr ba \<le> mr_end (regions ! ba_region_index ba)"
    using assms by (simp add: cursor_ok_def)
  ultimately have "ba_next_addr ba \<le> mr_start (regions ! i)" by simp
  then show ?thesis using assms(2) found(4) by (auto simp: passed_def)
qed

text \<open>The bump allocator as a supply: it never panics on such a map, and gives each frame once.\<close>

lemma bump_frame_cases:
  assumes "cursor_ok phys_ok regions ba" "bump_frame phys_ok regions ba = (r, ba')"
  shows "cursor_ok phys_ok regions ba' \<and> passed regions ba \<subseteq> passed regions ba' \<and>
    (r = Ok None \<or>
     (\<exists>f. r = Ok (Some f) \<and> f \<notin> passed regions ba \<and> f \<in> passed regions ba' \<and>
          in_usable regions f \<and> 4096 dvd unat f))"
  using assms
proof (induction phys_ok regions ba arbitrary: r ba' rule: bump_frame.induct)
  case (1 phys_ok regions ba)
  let ?i = "ba_region_index ba" and ?skip = "skip_to_usable_region regions (ba\<lparr>ba_region_index := ba_region_index ba + 1\<rparr>)"
  show ?case
  proof (cases "length regions \<le> ?i")
    case True
    then have "r = Ok None" "ba' = ba" using 1(4) by (auto simp: bump_frame.simps [of _ _ ba])
    then show ?thesis using 1(3) by simp
  next
    case False
    let ?r = "regions ! ?i"
    have c: "regions_ok regions" "accepts_physical phys_ok" "mr_usable ?r" "mr_start ?r \<le> ba_next_addr ba"
      "ba_next_addr ba \<le> mr_end ?r" "4096 dvd unat (ba_next_addr ba)"
      using 1(3) False by (auto simp: cursor_ok_def)
    have rok: "region_ok ?r" using regions_nth [OF c(1)] False by simp
    have small: "unat (ba_next_addr ba) < 2 ^ 52"
      using rok c(5) by (simp add: region_ok_def word_le_nat_alt)
    then have nowrap: "unat (ba_next_addr ba + 4096) = unat (ba_next_addr ba) + 4096"
      by (subst unat_add_lem [THEN iffD1]) simp_all
    then have up: "\<not> ba_next_addr ba + 4096 < ba_next_addr ba" by (simp add: word_less_nat_alt)
    show ?thesis
    proof (cases "ba_next_addr ba + 4096 > mr_end ?r")
      case True
      then have eq: "bump_frame phys_ok regions ba = bump_frame phys_ok regions ?skip"
        using False c(3) up by (subst bump_frame.simps) (simp add: Let_def)
      have ok: "cursor_ok phys_ok regions ?skip" by (rule skip_ok [OF c(1,2)])
      have sub: "passed regions ba \<subseteq> passed regions ?skip"
        using skip_passed [OF 1(3)] False by simp
      from 1(2) [OF False refl _ up True ok] c(3) sub 1(4) eq show ?thesis by auto
    next
      case le: False
      then have eq: "r = Ok (Some (ba_next_addr ba))" "ba' = ba\<lparr>ba_next_addr := ba_next_addr ba + 4096\<rparr>"
        using False c(2,3) small up 1(4) by (auto simp: bump_frame.simps [of _ _ ba] Let_def accepts_physical_def)
      have "unat (ba_next_addr ba) + 4096 \<le> unat (mr_end ?r)"
        using le nowrap by (simp add: word_less_nat_alt)
      then have "in_usable regions (ba_next_addr ba)"
        using c(3,4) False by (auto simp: in_usable_def word_le_nat_alt intro!: bexI [of _ ?r])
      moreover have "cursor_ok phys_ok regions ba'"
        using c le nowrap False by (auto simp: cursor_ok_def eq word_le_nat_alt word_less_nat_alt)
      ultimately show ?thesis
        using c(6) nowrap False by (auto simp: eq passed_def word_less_nat_alt)
    qed
  qed
qed

text \<open>The supply, with the panics that do not happen made visible as no frame.\<close>

definition frame_supply ::
  "(u64 \<Rightarrow> bool) \<Rightarrow> memory_region list \<Rightarrow> boot_alloc \<Rightarrow> u64 option \<times> boot_alloc" where
  "frame_supply phys_ok regions ba =
     (case bump_frame phys_ok regions ba of (Ok r, ba') \<Rightarrow> (r, ba') | (_, ba') \<Rightarrow> (None, ba'))"

interpretation frames: recycler "frame_supply phys_ok regions" "passed regions" "cursor_ok phys_ok regions"
  for phys_ok regions
proof
  fix ba f ba'
  assume ok: "cursor_ok phys_ok regions ba" and b: "frame_supply phys_ok regions ba = (Some f, ba')"
  then have "bump_frame phys_ok regions ba = (Ok (Some f), ba')"
    by (auto simp: frame_supply_def split: prod.splits outcome.splits)
  from bump_frame_cases [OF ok this]
  show "f \<notin> passed regions ba \<and> insert f (passed regions ba) \<subseteq> passed regions ba' \<and> cursor_ok phys_ok regions ba'"
    by auto
next
  fix ba ba'
  assume ok: "cursor_ok phys_ok regions ba" and b: "frame_supply phys_ok regions ba = (None, ba')"
  obtain r where r: "bump_frame phys_ok regions ba = (r, ba')"
    using b by (auto simp: frame_supply_def split: prod.splits outcome.splits)
  from bump_frame_cases [OF ok r]
  show "passed regions ba \<subseteq> passed regions ba' \<and> cursor_ok phys_ok regions ba'" by auto
qed

section \<open>Runs of allocations and releases\<close>

text \<open>
  Clients hold the frames they were given and release only those, as \<^verbatim>\<open>AddressSpace\<close> does:
  \<open>FrRelease i\<close> gives back the \<open>i\<close>-th held frame.
\<close>

datatype frame_op = FrAlloc | FrRelease nat

record frame_world =
  fw_alloc :: boot_alloc
  fw_pool :: frame_pool
  fw_held :: "u64 list"
  fw_released :: nat
  fw_panicked :: bool

definition frame_world_init :: "memory_region list \<Rightarrow> frame_world" where
  "frame_world_init regions =
     \<lparr>fw_alloc = boot_alloc_init regions, fw_pool = pool_init, fw_held = [], fw_released = 0, fw_panicked = False\<rparr>"

fun frame_exec :: "(u64 \<Rightarrow> bool) \<Rightarrow> memory_region list \<Rightarrow> frame_op \<Rightarrow> frame_world \<Rightarrow> frame_world" where
  "frame_exec phys_ok regions FrAlloc w =
     (case allocate_frame phys_ok regions (fw_alloc w, fw_pool w) of
        (Ok (Some f), ba, p) \<Rightarrow> w\<lparr>fw_alloc := ba, fw_pool := p, fw_held := fw_held w @ [f]\<rparr>
      | (Ok None, ba, p) \<Rightarrow> w\<lparr>fw_alloc := ba, fw_pool := p\<rparr>
      | (_, ba, p) \<Rightarrow> w\<lparr>fw_alloc := ba, fw_pool := p, fw_panicked := True\<rparr>)"
| "frame_exec phys_ok regions (FrRelease i) w =
     (if i < length (fw_held w)
      then w\<lparr>fw_pool := frame_release (fw_held w ! i) (fw_pool w),
             fw_held := take i (fw_held w) @ drop (Suc i) (fw_held w),
             fw_released := fw_released w + 1\<rparr>
      else w)"

definition frame_inv :: "(u64 \<Rightarrow> bool) \<Rightarrow> memory_region list \<Rightarrow> nat \<Rightarrow> frame_world \<Rightarrow> bool" where
  "frame_inv phys_ok regions n w \<longleftrightarrow>
     (regions_ok regions \<and> accepts_physical phys_ok \<longrightarrow>
        \<not> fw_panicked w \<and> fp_released (fw_pool w) = fw_released w \<and>
        frames.pool_ok regions phys_ok (fp_free (fw_pool w)) (mset (fw_held w)) (fw_alloc w) \<and>
        (\<forall>f \<in> set (fw_held w) \<union> set (fp_free (fw_pool w)). in_usable regions f \<and> 4096 dvd unat f))"

lemma frame_inv_alloc:
  assumes inv: "frame_inv phys_ok regions n w"
  shows "frame_inv phys_ok regions n' (frame_exec phys_ok regions FrAlloc w)"
proof (cases "regions_ok regions \<and> accepts_physical phys_ok")
  case True
  with inv have np: "\<not> fw_panicked w" and rel: "fp_released (fw_pool w) = fw_released w"
    and pool: "frames.pool_ok regions phys_ok (fp_free (fw_pool w)) (mset (fw_held w)) (fw_alloc w)"
    and wf: "\<forall>f \<in> set (fw_held w) \<union> set (fp_free (fw_pool w)). in_usable regions f \<and> 4096 dvd unat f"
    by (auto simp: frame_inv_def)
  show ?thesis
  proof (cases "fp_free (fw_pool w) = []")
    case False
    then have "last (fp_free (fw_pool w)) \<in> set (fp_free (fw_pool w))" by simp
    with False wf have "\<forall>f \<in> insert (last (fp_free (fw_pool w))) (set (fw_held w) \<union> set (butlast (fp_free (fw_pool w)))).
        in_usable regions f \<and> 4096 dvd unat f"
      by (auto dest: in_set_butlastD)
    then show ?thesis
      using frames.pool_pop [OF pool False] np rel False
      by (simp add: frame_inv_def allocate_frame_def acquire_def)
  next
    case empty: True
    obtain r ba' where b: "bump_frame phys_ok regions (fw_alloc w) = (r, ba')"
      by (cases "bump_frame phys_ok regions (fw_alloc w)")
    note c = bump_frame_cases [OF frames.pool_sok [OF pool] b]
    have step: "allocate_frame phys_ok regions (fw_alloc w, fw_pool w) = (r, ba', fw_pool w)"
      using empty b by (simp add: allocate_frame_def acquire_def)
    from c consider "r = Ok None" | f where "r = Ok (Some f)" "in_usable regions f" "4096 dvd unat f" by blast
    then show ?thesis
    proof cases
      case 1
      then have "frame_supply phys_ok regions (fw_alloc w) = (None, ba')" using b by (simp add: frame_supply_def)
      from frames.pool_bump_none [OF pool this] 1 np rel wf step show ?thesis by (simp add: frame_inv_def)
    next
      case (2 f)
      then have "frame_supply phys_ok regions (fw_alloc w) = (Some f, ba')" using b by (simp add: frame_supply_def)
      from frames.pool_bump [OF pool this] 2 np rel wf step show ?thesis by (simp add: frame_inv_def)
    qed
  qed
qed (auto simp: frame_inv_def)

lemma frame_inv_release:
  assumes inv: "frame_inv phys_ok regions n w"
  shows "frame_inv phys_ok regions n' (frame_exec phys_ok regions (FrRelease i) w)"
proof (cases "i < length (fw_held w) \<and> regions_ok regions \<and> accepts_physical phys_ok")
  case True
  let ?f = "fw_held w ! i" and ?rest = "take i (fw_held w) @ drop (Suc i) (fw_held w)"
  from True inv have np: "\<not> fw_panicked w" and rel: "fp_released (fw_pool w) = fw_released w"
    and pool: "frames.pool_ok regions phys_ok (fp_free (fw_pool w)) (mset (fw_held w)) (fw_alloc w)"
    and wf: "\<forall>f \<in> set (fw_held w) \<union> set (fp_free (fw_pool w)). in_usable regions f \<and> 4096 dvd unat f"
    by (auto simp: frame_inv_def)
  have held: "fw_held w = take i (fw_held w) @ ?f # drop (Suc i) (fw_held w)" using True by (simp add: id_take_nth_drop)
  have ms: "mset (fw_held w) = add_mset ?f (mset ?rest)" by (subst held) simp
  have set: "set (fw_held w) = insert ?f (set ?rest)" by (subst held) auto
  have "?f \<notin> set (fp_free (fw_pool w))" using frames.pool_not_both [OF pool, of ?f] ms by simp
  then have r: "frame_release ?f (fw_pool w) = (fw_pool w)\<lparr>fp_free := fp_free (fw_pool w) @ [?f], fp_released := fp_released (fw_pool w) + 1\<rparr>"
    by (simp add: frame_release_def)
  have wf': "\<forall>f \<in> insert ?f (set ?rest \<union> set (fp_free (fw_pool w))). in_usable regions f \<and> 4096 dvd unat f"
    using wf unfolding set by blast
  have "frames.pool_ok regions phys_ok (fp_free (fw_pool w) @ [?f]) (mset ?rest) (fw_alloc w)"
    using frames.pool_release pool unfolding ms by blast
  then show ?thesis using True np rel r wf' by (simp add: frame_inv_def)
qed (use inv in \<open>auto simp: frame_inv_def\<close>)

lemma frame_inv_init: "frame_inv phys_ok regions 0 (frame_world_init regions)"
  using frames.pool_init [OF skip_ok]
  by (simp add: frame_inv_def frame_world_init_def pool_init_def boot_alloc_init_def)

interpretation frame_runs: op_machine "frame_world_init regions" "frame_exec phys_ok regions"
    "frame_inv phys_ok regions" bound
  for regions phys_ok bound
proof
  show "frame_inv phys_ok regions (Suc n) (frame_exec phys_ok regions oper w)"
    if "frame_inv phys_ok regions n w" for n w oper
    using that frame_inv_alloc frame_inv_release by (cases oper) blast+
qed (rule frame_inv_init)

section \<open>Properties\<close>

text \<open>C21. Over any memory map as the boot loader documents it, in every run of allocations and releases
  of held frames, allocation never panics, no frame is held twice or held while free, every held
  frame is a page-aligned frame of usable memory, and no release is refused as a double one.\<close>

theorem frames_never_shared:
  assumes "regions_ok regions" "accepts_physical phys_ok"
    and "w = fold (frame_exec phys_ok regions) ops (frame_world_init regions)"
  shows "\<not> fw_panicked w \<and> distinct (fw_held w) \<and> set (fw_held w) \<inter> set (fp_free (fw_pool w)) = {} \<and>
    (\<forall>f \<in> set (fw_held w). in_usable regions f \<and> 4096 dvd unat f) \<and>
    fp_released (fw_pool w) = fw_released w"
proof -
  have "frame_inv phys_ok regions (length ops) w" unfolding assms(3)
    by (rule frame_runs.inv_run [of ops "Suc (length ops)"]) simp
  then have i: "\<not> fw_panicked w" "fp_released (fw_pool w) = fw_released w"
    "frames.pool_ok regions phys_ok (fp_free (fw_pool w)) (mset (fw_held w)) (fw_alloc w)"
    "\<forall>f \<in> set (fw_held w). in_usable regions f \<and> 4096 dvd unat f"
    using assms(1,2) by (auto simp: frame_inv_def)
  have "distinct (fw_held w)"
    unfolding distinct_count_atmost_1
  proof
    fix f
    have "count (mset (fw_held w)) f \<le> 1" using frames.pool_held_once [OF i(3)] .
    then show "count (mset (fw_held w)) f = (if f \<in> set (fw_held w) then 1 else 0)"
      by (cases "f \<in> set (fw_held w)") (auto simp: count_mset_absent le_Suc_eq count_eq_zero_iff)
  qed
  then show ?thesis using i frames.pool_not_both [OF i(3)] by auto
qed

definition demo_regions :: "memory_region list" where
  "demo_regions = [\<lparr>mr_start = 0, mr_end = 0x1000, mr_usable = False\<rparr>,
     \<lparr>mr_start = 0x1000, mr_end = 0x3000, mr_usable = True\<rparr>,
     \<lparr>mr_start = 0x10000, mr_end = 0x11000, mr_usable = True\<rparr>]"

theorem frames_never_shared_witness:
  "fw_held (fold (frame_exec (\<lambda>_. True) demo_regions) [FrAlloc, FrAlloc, FrRelease 0, FrAlloc, FrAlloc, FrAlloc]
      (frame_world_init demo_regions)) = [0x2000, 0x1000, 0x10000] \<and>
   distinct (fw_held (fold (frame_exec (\<lambda>_. True) demo_regions) [FrAlloc, FrAlloc, FrRelease 0, FrAlloc, FrAlloc, FrAlloc]
      (frame_world_init demo_regions)))"
proof -
  have ok: "regions_ok demo_regions" "accepts_physical (\<lambda>_. True)"
    by (simp_all add: regions_ok_def demo_regions_def region_ok_def accepts_physical_def)
  have "fw_held (fold (frame_exec (\<lambda>_. True) demo_regions) [FrAlloc, FrAlloc, FrRelease 0, FrAlloc, FrAlloc, FrAlloc]
      (frame_world_init demo_regions)) = [0x2000, 0x1000, 0x10000]"
    by code_simp
  with frames_never_shared [OF ok refl] show ?thesis by blast
qed

end
