(* ===== verification/Graphics.thy ===== *)
theory Graphics
  imports Abi Utf8
begin

text \<open>
  Drawing: colours and the framebuffer of \<^verbatim>\<open>kernel/src/graphics/framebuffer.rs\<close>, the 5x7 font of
  \<^verbatim>\<open>font.rs\<close> and the themes of \<^verbatim>\<open>theme.rs\<close>. The framebuffer's memory is a function from byte
  offsets to bytes. Coordinates are natural numbers: the geometry the boot loader reports keeps
  the offsets far below the size of the address space.
\<close>

unbundle bit_operations_syntax

section \<open>Colours\<close>

record colour =
  c_r :: u8
  c_g :: u8
  c_b :: u8

definition rgb :: "u8 \<Rightarrow> u8 \<Rightarrow> u8 \<Rightarrow> colour" where
  "rgb r g b = \<lparr>c_r = r, c_g = g, c_b = b\<rparr>"

definition hex_digit :: "u8 \<Rightarrow> nat option" where
  "hex_digit b =
     (let n = unat b in
      if 48 \<le> n \<and> n \<le> 57 then Some (n - 48)
      else if 65 \<le> n \<and> n \<le> 70 then Some (n - 55)
      else if 97 \<le> n \<and> n \<le> 102 then Some (n - 87)
      else None)"

primrec hex_value :: "bytes \<Rightarrow> nat \<Rightarrow> nat option" where
  "hex_value [] acc = Some acc"
| "hex_value (b # bs) acc = (case hex_digit b of None \<Rightarrow> None | Some d \<Rightarrow> hex_value bs (16 * acc + d))"

text \<open>\<^verbatim>\<open>u8::from_str_radix(s, 16)\<close>: a leading plus sign is accepted, a lone sign or nothing is not.\<close>

definition u8_from_hex :: "bytes \<Rightarrow> u8 option" where
  "u8_from_hex s =
     (let digits = (if s \<noteq> [] \<and> hd s = 43 \<and> tl s \<noteq> [] then tl s else s) in
      if digits = [] then None
      else (case hex_value digits 0 of Some n \<Rightarrow> (if n < 256 then Some (of_nat n) else None) | None \<Rightarrow> None))"

text \<open>Slicing a string inside a character panics.\<close>

definition char_boundary :: "bytes \<Rightarrow> nat \<Rightarrow> bool" where
  "char_boundary s i \<longleftrightarrow> i = 0 \<or> i = length s \<or> (i < length s \<and> \<not> is_cont (s ! i))"

definition str_slice :: "bytes \<Rightarrow> nat \<Rightarrow> nat \<Rightarrow> ('e, bytes) outcome" where
  "str_slice s a b =
     (if a \<le> b \<and> b \<le> length s \<and> char_boundary s a \<and> char_boundary s b then slice s a b else Panic)"

definition hex_channel :: "bytes \<Rightarrow> nat \<Rightarrow> (unit, u8) outcome" where
  "hex_channel text at = obind (str_slice text at (at + 2)) (\<lambda>s. ok_or (u8_from_hex s) ())"

text \<open>\<^verbatim>\<open>Colour::parse_hex\<close>; \<open>Err ()\<close> is its \<^verbatim>\<open>None\<close>.\<close>

definition parse_hex :: "bytes \<Rightarrow> (unit, colour) outcome" where
  "parse_hex text0 =
     (let text = (case strip_prefix text0 (ascii ''#'') of Some t \<Rightarrow> t | None \<Rightarrow> text0) in
      if length text \<noteq> 6 then Err ()
      else obind (hex_channel text 0) (\<lambda>r. obind (hex_channel text 2) (\<lambda>g. obind (hex_channel text 4) (\<lambda>b.
             Ok (rgb r g b)))))"

definition mix :: "u8 \<Rightarrow> u8 \<Rightarrow> u8 \<Rightarrow> u8" where
  "mix amount a b = of_nat ((unat a * (255 - unat amount) + unat b * unat amount) div 255)"

definition blend :: "colour \<Rightarrow> colour \<Rightarrow> u8 \<Rightarrow> colour" where
  "blend c d amount = rgb (mix amount (c_r c) (c_r d)) (mix amount (c_g c) (c_g d)) (mix amount (c_b c) (c_b d))"

section \<open>The framebuffer\<close>

datatype pixel_format = Rgb | Bgr | U8 | OtherFormat

record framebuffer =
  fb_width :: nat
  fb_height :: nat
  fb_stride :: nat
  fb_bytes_per_pixel :: nat
  fb_format :: pixel_format
  fb_len :: nat

type_synonym screen = "nat \<Rightarrow> u8"

definition luma :: "colour \<Rightarrow> u8" where
  "luma c = of_nat ((unat (c_r c) * 77 + unat (c_g c) * 150 + unat (c_b c) * 29) div 256)"

text \<open>The bytes a pixel of this colour is written as.\<close>

definition pixel_bytes :: "framebuffer \<Rightarrow> colour \<Rightarrow> u8 list" where
  "pixel_bytes fb c =
     (case fb_format fb of
        Rgb \<Rightarrow> take (max 1 (fb_bytes_per_pixel fb)) [c_r c, c_g c, c_b c]
      | Bgr \<Rightarrow> take (max 1 (fb_bytes_per_pixel fb)) [c_b c, c_g c, c_r c]
      | U8 \<Rightarrow> [luma c]
      | OtherFormat \<Rightarrow> replicate (fb_bytes_per_pixel fb) (c_g c))"

primrec put_bytes :: "u8 list \<Rightarrow> nat \<Rightarrow> screen \<Rightarrow> screen" where
  "put_bytes [] off m = m"
| "put_bytes (b # bs) off m = put_bytes bs (off + 1) (m(off := b))"

definition pixel_offset :: "framebuffer \<Rightarrow> nat \<Rightarrow> nat \<Rightarrow> nat" where
  "pixel_offset fb x y = y * fb_stride fb + x * fb_bytes_per_pixel fb"

definition set_pixel :: "framebuffer \<Rightarrow> nat \<Rightarrow> nat \<Rightarrow> colour \<Rightarrow> screen \<Rightarrow> screen" where
  "set_pixel fb x y c m =
     (if fb_width fb \<le> x \<or> fb_height fb \<le> y then m
      else if fb_len fb < pixel_offset fb x y + fb_bytes_per_pixel fb then m
      else put_bytes (pixel_bytes fb c) (pixel_offset fb x y) m)"

text \<open>The pixels of a rectangle, row by row.\<close>

definition rect_pixels :: "nat \<Rightarrow> nat \<Rightarrow> nat \<Rightarrow> nat \<Rightarrow> (nat \<times> nat) list" where
  "rect_pixels x x_end y y_end = concat (map (\<lambda>row. map (\<lambda>column. (column, row)) [x..<x_end]) [y..<y_end])"

definition fill_rect :: "framebuffer \<Rightarrow> nat \<Rightarrow> nat \<Rightarrow> nat \<Rightarrow> nat \<Rightarrow> colour \<Rightarrow> screen \<Rightarrow> screen" where
  "fill_rect fb x y width height c m =
     (let x_end = min (x + width) (fb_width fb); y_end = min (y + height) (fb_height fb)
      in fold (\<lambda>(column, row). set_pixel fb column row c) (rect_pixels x x_end y y_end) m)"

definition stroke_rect :: "framebuffer \<Rightarrow> nat \<Rightarrow> nat \<Rightarrow> nat \<Rightarrow> nat \<Rightarrow> colour \<Rightarrow> screen \<Rightarrow> screen" where
  "stroke_rect fb x y width height c m =
     (if width = 0 \<or> height = 0 then m
      else fill_rect fb (x + width - 1) y 1 height c
             (fill_rect fb x y 1 height c
               (fill_rect fb x (y + height - 1) width 1 c
                 (fill_rect fb x y width 1 c m))))"

definition fb_clear :: "framebuffer \<Rightarrow> colour \<Rightarrow> screen \<Rightarrow> screen" where
  "fb_clear fb c m = fill_rect fb 0 0 (fb_width fb) (fb_height fb) c m"

section \<open>The font\<close>

definition GLYPH_WIDTH :: nat where "GLYPH_WIDTH = 5"
definition GLYPH_HEIGHT :: nat where "GLYPH_HEIGHT = 7"
definition ADVANCE :: nat where "ADVANCE = GLYPH_WIDTH + 1"

definition UNKNOWN_GLYPH :: "u8 list" where "UNKNOWN_GLYPH = [0x7F, 0x7F, 0x7F, 0x7F, 0x7F]"

definition GLYPHS_20 :: "u8 list list" where
  "GLYPHS_20 =
     [[0x00, 0x00, 0x00, 0x00, 0x00],
      [0x00, 0x00, 0x5F, 0x00, 0x00],
      [0x00, 0x07, 0x00, 0x07, 0x00],
      [0x14, 0x7F, 0x14, 0x7F, 0x14],
      [0x24, 0x2A, 0x7F, 0x2A, 0x12],
      [0x23, 0x13, 0x08, 0x64, 0x62],
      [0x36, 0x49, 0x55, 0x22, 0x50],
      [0x00, 0x05, 0x03, 0x00, 0x00],
      [0x00, 0x1C, 0x22, 0x41, 0x00],
      [0x00, 0x41, 0x22, 0x1C, 0x00],
      [0x14, 0x08, 0x3E, 0x08, 0x14],
      [0x08, 0x08, 0x3E, 0x08, 0x08],
      [0x00, 0x50, 0x30, 0x00, 0x00],
      [0x08, 0x08, 0x08, 0x08, 0x08],
      [0x00, 0x60, 0x60, 0x00, 0x00],
      [0x20, 0x10, 0x08, 0x04, 0x02]]"

definition GLYPHS_30 :: "u8 list list" where
  "GLYPHS_30 =
     [[0x3E, 0x51, 0x49, 0x45, 0x3E],
      [0x00, 0x42, 0x7F, 0x40, 0x00],
      [0x42, 0x61, 0x51, 0x49, 0x46],
      [0x21, 0x41, 0x45, 0x4B, 0x31],
      [0x18, 0x14, 0x12, 0x7F, 0x10],
      [0x27, 0x45, 0x45, 0x45, 0x39],
      [0x3C, 0x4A, 0x49, 0x49, 0x30],
      [0x01, 0x71, 0x09, 0x05, 0x03],
      [0x36, 0x49, 0x49, 0x49, 0x36],
      [0x06, 0x49, 0x49, 0x29, 0x1E],
      [0x00, 0x36, 0x36, 0x00, 0x00],
      [0x00, 0x56, 0x36, 0x00, 0x00],
      [0x00, 0x08, 0x14, 0x22, 0x41],
      [0x14, 0x14, 0x14, 0x14, 0x14],
      [0x41, 0x22, 0x14, 0x08, 0x00],
      [0x02, 0x01, 0x51, 0x09, 0x06]]"

definition GLYPHS_40 :: "u8 list list" where
  "GLYPHS_40 =
     [[0x32, 0x49, 0x79, 0x41, 0x3E],
      [0x7E, 0x11, 0x11, 0x11, 0x7E],
      [0x7F, 0x49, 0x49, 0x49, 0x36],
      [0x3E, 0x41, 0x41, 0x41, 0x22],
      [0x7F, 0x41, 0x41, 0x22, 0x1C],
      [0x7F, 0x49, 0x49, 0x49, 0x41],
      [0x7F, 0x09, 0x09, 0x01, 0x01],
      [0x3E, 0x41, 0x41, 0x51, 0x32],
      [0x7F, 0x08, 0x08, 0x08, 0x7F],
      [0x00, 0x41, 0x7F, 0x41, 0x00],
      [0x20, 0x40, 0x41, 0x3F, 0x01],
      [0x7F, 0x08, 0x14, 0x22, 0x41],
      [0x7F, 0x40, 0x40, 0x40, 0x40],
      [0x7F, 0x02, 0x04, 0x02, 0x7F],
      [0x7F, 0x04, 0x08, 0x10, 0x7F],
      [0x3E, 0x41, 0x41, 0x41, 0x3E]]"

definition GLYPHS_50 :: "u8 list list" where
  "GLYPHS_50 =
     [[0x7F, 0x09, 0x09, 0x09, 0x06],
      [0x3E, 0x41, 0x51, 0x21, 0x5E],
      [0x7F, 0x09, 0x19, 0x29, 0x46],
      [0x46, 0x49, 0x49, 0x49, 0x31],
      [0x01, 0x01, 0x7F, 0x01, 0x01],
      [0x3F, 0x40, 0x40, 0x40, 0x3F],
      [0x1F, 0x20, 0x40, 0x20, 0x1F],
      [0x7F, 0x20, 0x18, 0x20, 0x7F],
      [0x63, 0x14, 0x08, 0x14, 0x63],
      [0x03, 0x04, 0x78, 0x04, 0x03],
      [0x61, 0x51, 0x49, 0x45, 0x43],
      [0x00, 0x7F, 0x41, 0x41, 0x00],
      [0x02, 0x04, 0x08, 0x10, 0x20],
      [0x00, 0x41, 0x41, 0x7F, 0x00],
      [0x04, 0x02, 0x01, 0x02, 0x04],
      [0x40, 0x40, 0x40, 0x40, 0x40]]"

definition GLYPHS_60 :: "u8 list list" where
  "GLYPHS_60 =
     [[0x00, 0x01, 0x02, 0x04, 0x00],
      [0x20, 0x54, 0x54, 0x54, 0x78],
      [0x7F, 0x48, 0x44, 0x44, 0x38],
      [0x38, 0x44, 0x44, 0x44, 0x20],
      [0x38, 0x44, 0x44, 0x48, 0x7F],
      [0x38, 0x54, 0x54, 0x54, 0x18],
      [0x08, 0x7E, 0x09, 0x01, 0x02],
      [0x0C, 0x52, 0x52, 0x52, 0x3E],
      [0x7F, 0x08, 0x04, 0x04, 0x78],
      [0x00, 0x44, 0x7D, 0x40, 0x00],
      [0x20, 0x40, 0x44, 0x3D, 0x00],
      [0x7F, 0x10, 0x28, 0x44, 0x00],
      [0x00, 0x41, 0x7F, 0x40, 0x00],
      [0x7C, 0x04, 0x18, 0x04, 0x78],
      [0x7C, 0x08, 0x04, 0x04, 0x78],
      [0x38, 0x44, 0x44, 0x44, 0x38]]"

definition GLYPHS_70 :: "u8 list list" where
  "GLYPHS_70 =
     [[0x7C, 0x14, 0x14, 0x14, 0x08],
      [0x08, 0x14, 0x14, 0x18, 0x7C],
      [0x7C, 0x08, 0x04, 0x04, 0x08],
      [0x48, 0x54, 0x54, 0x54, 0x20],
      [0x04, 0x3F, 0x44, 0x40, 0x20],
      [0x3C, 0x40, 0x40, 0x20, 0x1C],
      [0x1C, 0x20, 0x40, 0x20, 0x1C],
      [0x3C, 0x40, 0x30, 0x40, 0x3C],
      [0x44, 0x28, 0x10, 0x28, 0x44],
      [0x0C, 0x50, 0x50, 0x50, 0x3C],
      [0x44, 0x64, 0x54, 0x4C, 0x44],
      [0x00, 0x08, 0x36, 0x41, 0x00],
      [0x00, 0x00, 0x7F, 0x00, 0x00],
      [0x00, 0x41, 0x36, 0x08, 0x00],
      [0x08, 0x04, 0x08, 0x10, 0x08]]"

definition GLYPHS :: "u8 list list" where
  "GLYPHS = concat [GLYPHS_20, GLYPHS_30, GLYPHS_40, GLYPHS_50, GLYPHS_60, GLYPHS_70]"

text \<open>Characters are code points.\<close>

definition glyph :: "nat \<Rightarrow> u8 list" where
  "glyph code = (if 0x20 \<le> code \<and> code \<le> 0x7E then GLYPHS ! (code - 0x20) else UNKNOWN_GLYPH)"

definition text_width :: "nat list \<Rightarrow> nat" where
  "text_width chars = length chars * ADVANCE"

definition code_points :: "string \<Rightarrow> nat list" where
  "code_points s = map of_char s"

definition glyph_pixels :: "u8 list \<Rightarrow> (nat \<times> nat) list" where
  "glyph_pixels g =
     concat (map (\<lambda>(column, bits). map (\<lambda>row. (column, row)) (filter (\<lambda>row. bits AND push_bit row 1 \<noteq> 0) [0..<GLYPH_HEIGHT]))
       (zip [0..<length g] g))"

primrec draw_text :: "framebuffer \<Rightarrow> nat \<Rightarrow> nat \<Rightarrow> nat list \<Rightarrow> colour \<Rightarrow> screen \<Rightarrow> screen" where
  "draw_text fb x y [] c m = m"
| "draw_text fb x y (ch # chs) c m =
     draw_text fb (x + ADVANCE) y chs c
       (fold (\<lambda>(column, row). set_pixel fb (x + column) (y + row) c) (glyph_pixels (glyph ch)) m)"

section \<open>Themes\<close>

record theme =
  th_desktop :: colour
  th_trust_bar :: colour
  th_trust_bar_edge :: colour
  th_trust_bar_text :: colour
  th_accent_home :: colour
  th_accent_gaming :: colour
  th_accent_vault :: colour
  th_accent_system :: colour
  th_pointer_fill :: colour
  th_pointer_edge :: colour

definition THEME_DEFAULT :: theme where
  "THEME_DEFAULT =
     \<lparr>th_desktop = rgb 0x10 0x14 0x1C, th_trust_bar = rgb 0x06 0x08 0x0C, th_trust_bar_edge = rgb 0x2A 0x33 0x44,
      th_trust_bar_text = rgb 0xE8 0xEE 0xF7, th_accent_home = rgb 0x3A 0x86 0xFF, th_accent_gaming = rgb 0xF7 0x25 0x85,
      th_accent_vault = rgb 0x4C 0xC9 0x7C, th_accent_system = rgb 0xFF 0xD1 0x66, th_pointer_fill = rgb 0xFF 0xFF 0xFF,
      th_pointer_edge = rgb 0x1A 0x1A 0x1A\<rparr>"

definition accent_for_realm :: "theme \<Rightarrow> u64 \<Rightarrow> colour" where
  "accent_for_realm t kind =
     (if kind = KIND_GAMING then th_accent_gaming t
      else if kind = KIND_VAULT then th_accent_vault t
      else if kind = KIND_SYSTEM then th_accent_system t
      else th_accent_home t)"

definition theme_slot :: "bytes \<Rightarrow> (colour \<Rightarrow> theme \<Rightarrow> theme) option" where
  "theme_slot key =
     (if key = ascii ''desktop'' then Some (\<lambda>c t. t\<lparr>th_desktop := c\<rparr>)
      else if key = ascii ''trust_bar'' then Some (\<lambda>c t. t\<lparr>th_trust_bar := c\<rparr>)
      else if key = ascii ''trust_bar.edge'' then Some (\<lambda>c t. t\<lparr>th_trust_bar_edge := c\<rparr>)
      else if key = ascii ''trust_bar.text'' then Some (\<lambda>c t. t\<lparr>th_trust_bar_text := c\<rparr>)
      else if key = ascii ''accent.home'' then Some (\<lambda>c t. t\<lparr>th_accent_home := c\<rparr>)
      else if key = ascii ''accent.gaming'' then Some (\<lambda>c t. t\<lparr>th_accent_gaming := c\<rparr>)
      else if key = ascii ''accent.vault'' then Some (\<lambda>c t. t\<lparr>th_accent_vault := c\<rparr>)
      else if key = ascii ''accent.system'' then Some (\<lambda>c t. t\<lparr>th_accent_system := c\<rparr>)
      else if key = ascii ''pointer.fill'' then Some (\<lambda>c t. t\<lparr>th_pointer_fill := c\<rparr>)
      else if key = ascii ''pointer.edge'' then Some (\<lambda>c t. t\<lparr>th_pointer_edge := c\<rparr>)
      else None)"

text \<open>One line of \<^verbatim>\<open>Theme::parse\<close>: the theme so far with the counts of settings and rejections.\<close>

definition theme_line :: "bytes \<Rightarrow> theme \<times> nat \<times> nat \<Rightarrow> (unit, theme \<times> nat \<times> nat) outcome" where
  "theme_line line0 st =
     (case st of (t, applied, rejected) \<Rightarrow>
       (let line = trim line0 in
        if line = [] \<or> starts_with line (ascii ''#'') then Ok st
        else
          (case split_once line 61 of
             None \<Rightarrow> Ok (t, applied, rejected + 1)
           | Some (key, val) \<Rightarrow>
               (case parse_hex (trim val) of
                  Panic \<Rightarrow> Panic
                | Err _ \<Rightarrow> Ok (t, applied, rejected + 1)
                | Ok c \<Rightarrow>
                    (case theme_slot (trim key) of
                       None \<Rightarrow> Ok (t, applied, rejected + 1)
                     | Some put \<Rightarrow> Ok (put c t, applied + 1, rejected))))))"

primrec theme_lines :: "bytes list \<Rightarrow> theme \<times> nat \<times> nat \<Rightarrow> (unit, theme \<times> nat \<times> nat) outcome" where
  "theme_lines [] st = Ok st"
| "theme_lines (l # ls) st = obind (theme_line l st) (theme_lines ls)"

definition theme_parse :: "bytes \<Rightarrow> (unit, theme \<times> nat \<times> nat) outcome" where
  "theme_parse text = theme_lines (lines text) (THEME_DEFAULT, 0, 0)"

end
