(* ===== verification/Input.thy ===== *)
theory Input
  imports Abi
begin

text \<open>
  Keyboard and mouse (\<^verbatim>\<open>kernel/src/drivers/input.rs\<close>): the fixed ring of 256 events, the decoding of
  scancodes and three-byte mouse packets, and the pointer. The port writes of \<^verbatim>\<open>init_mouse\<close> and the
  port read are device accesses and not modelled.
\<close>

unbundle bit_operations_syntax

section \<open>The ring\<close>

definition QUEUE_CAPACITY :: nat where "QUEUE_CAPACITY = 256"

record event_queue =
  eq_events :: "input_event list"
  eq_head :: nat
  eq_len :: nat
  eq_dropped :: nat

definition no_event :: input_event where
  "no_event = \<lparr>ev_kind = 0, ev_code = 0, ev_x = 0, ev_y = 0\<rparr>"

definition queue_init :: event_queue where
  "queue_init = \<lparr>eq_events = replicate QUEUE_CAPACITY no_event, eq_head = 0, eq_len = 0, eq_dropped = 0\<rparr>"

definition push_event :: "input_event \<Rightarrow> event_queue \<Rightarrow> event_queue" where
  "push_event ev q =
     (let q1 = (if eq_len q = QUEUE_CAPACITY
                then q\<lparr>eq_head := (eq_head q + 1) mod QUEUE_CAPACITY, eq_len := eq_len q - 1,
                       eq_dropped := eq_dropped q + 1\<rparr>
                else q);
          tail = (eq_head q1 + eq_len q1) mod QUEUE_CAPACITY
      in q1\<lparr>eq_events := (eq_events q1)[tail := ev], eq_len := eq_len q1 + 1\<rparr>)"

primrec poll_loop :: "nat \<Rightarrow> event_queue \<Rightarrow> input_event list \<times> event_queue" where
  "poll_loop 0 q = ([], q)"
| "poll_loop (Suc n) q =
     (let ev = eq_events q ! eq_head q;
          q' = q\<lparr>eq_head := (eq_head q + 1) mod QUEUE_CAPACITY, eq_len := eq_len q - 1\<rparr>;
          (evs, q'') = poll_loop n q'
      in (ev # evs, q''))"

text \<open>\<^verbatim>\<open>poll\<close> into a slice of \<open>n\<close> events: the events written to its front.\<close>

definition poll_events :: "nat \<Rightarrow> event_queue \<Rightarrow> input_event list \<times> event_queue" where
  "poll_events n q = poll_loop (min n (eq_len q)) q"

definition input_stats :: "event_queue \<Rightarrow> nat \<times> nat" where
  "input_stats q = (eq_len q, eq_dropped q)"

section \<open>Decoding\<close>

record input_state =
  in_queue :: event_queue
  in_pointer :: "u64 \<times> u64"
  in_bounds :: "u64 \<times> u64"
  in_layout_toggle :: bool
  in_mouse :: "u8 list \<times> nat"
  in_buttons :: u8

definition input_init :: input_state where
  "input_init = \<lparr>in_queue = queue_init, in_pointer = (0, 0), in_bounds = (0, 0),
     in_layout_toggle = False, in_mouse = ([0, 0, 0], 0), in_buttons = 0\<rparr>"

definition set_bounds :: "u64 \<Rightarrow> u64 \<Rightarrow> input_state \<Rightarrow> input_state" where
  "set_bounds width height s = s\<lparr>in_bounds := (width, height), in_pointer := (width div 2, height div 2)\<rparr>"

definition push_input :: "input_event \<Rightarrow> input_state \<Rightarrow> input_state" where
  "push_input ev s = s\<lparr>in_queue := push_event ev (in_queue s)\<rparr>"

definition take_layout_toggle :: "input_state \<Rightarrow> bool \<times> input_state" where
  "take_layout_toggle s = (in_layout_toggle s, s\<lparr>in_layout_toggle := False\<rparr>)"

definition SCANCODE_F1 :: u64 where "SCANCODE_F1 = 0x3B"

definition on_scancode :: "u8 \<Rightarrow> input_state \<Rightarrow> input_state" where
  "on_scancode scancode s =
     (let released = (scancode AND 0x80 \<noteq> 0);
          code = ucast (scancode AND 0x7F)
      in if \<not> released \<and> code = SCANCODE_F1 then s\<lparr>in_layout_toggle := True\<rparr>
         else push_input \<lparr>ev_kind = (if released then KEY_UP else KEY_DOWN), ev_code = code, ev_x = 0, ev_y = 0\<rparr> s)"

text \<open>
  \<^verbatim>\<open>(p as i64 + d as i64).max(0) as u64\<close>, then the clamp to the screen; the sum overflowing a
  signed 64-bit integer panics.
\<close>

definition move_axis :: "u64 \<Rightarrow> int \<Rightarrow> u64 \<Rightarrow> (unit, u64) outcome" where
  "move_axis p d limit =
     (let n = sint p + d in
      if n < - (2 ^ 63) \<or> 2 ^ 63 \<le> n then Panic
      else
        (let v = word_of_int (max n 0)
         in Ok (if limit > 0 then min v (sat_sub limit 1) else v)))"

definition on_mouse_packet :: "u8 \<Rightarrow> u8 \<Rightarrow> u8 \<Rightarrow> input_state \<Rightarrow> (unit, input_state) outcome" where
  "on_mouse_packet flags b1 b2 s =
     (let dx = (if flags AND 0x10 \<noteq> 0 then uint b1 - 256 else uint b1);
          dy = (if flags AND 0x20 \<noteq> 0 then uint b2 - 256 else uint b2)
      in if flags AND 0xC0 \<noteq> 0 then Ok s
         else
           obind (move_axis (fst (in_pointer s)) dx (fst (in_bounds s))) (\<lambda>x.
           obind (move_axis (snd (in_pointer s)) (- dy) (snd (in_bounds s))) (\<lambda>y.
             (let s1 = s\<lparr>in_pointer := (x, y)\<rparr>;
                  s2 = (if dx \<noteq> 0 \<or> dy \<noteq> 0
                        then push_input \<lparr>ev_kind = POINTER_MOTION, ev_code = 0, ev_x = x, ev_y = y\<rparr> s1 else s1);
                  buttons = flags AND 0x07;
                  changed = buttons XOR in_buttons s2;
                  s3 = (if changed \<noteq> 0
                        then push_input \<lparr>ev_kind = (if buttons AND changed \<noteq> 0 then POINTER_BUTTON_DOWN
                                                      else POINTER_BUTTON_UP),
                                          ev_code = ucast changed, ev_x = x, ev_y = y\<rparr> s2
                        else s2)
              in Ok (s3\<lparr>in_buttons := buttons\<rparr>)))))"

definition on_mouse_byte :: "u8 \<Rightarrow> input_state \<Rightarrow> (unit, input_state) outcome" where
  "on_mouse_byte b s =
     (case in_mouse s of (buffer, index) \<Rightarrow>
        if index = 0 \<and> b AND 0x08 = 0 then Ok s
        else
          (let buffer' = buffer[index := b] in
           if index + 1 < 3 then Ok (s\<lparr>in_mouse := (buffer', index + 1)\<rparr>)
           else on_mouse_packet (buffer' ! 0) (buffer' ! 1) (buffer' ! 2) (s\<lparr>in_mouse := (buffer', 0)\<rparr>)))"

section \<open>A queue that forgets its oldest elements\<close>

text \<open>
  The contract of a bounded queue that drops from the front when it is full, and what a client
  may rely on: after any pushes it holds the most recent elements, in order.
\<close>

locale drop_oldest_queue =
  fixes contents :: "'q \<Rightarrow> 'e list"
    and qinv :: "'q \<Rightarrow> bool"
    and push :: "'e \<Rightarrow> 'q \<Rightarrow> 'q"
    and poll :: "nat \<Rightarrow> 'q \<Rightarrow> 'e list \<times> 'q"
    and capacity :: nat
  assumes cap_pos: "0 < capacity"
    and cap: "qinv q \<Longrightarrow> length (contents q) \<le> capacity"
    and push_inv: "qinv q \<Longrightarrow> qinv (push e q)"
    and push_contents: "qinv q \<Longrightarrow>
      contents (push e q) = (if length (contents q) = capacity then tl (contents q) else contents q) @ [e]"
    and poll_inv: "qinv q \<Longrightarrow> qinv (snd (poll n q))"
    and poll_result: "qinv q \<Longrightarrow> fst (poll n q) = take n (contents q)"
    and poll_contents: "qinv q \<Longrightarrow> contents (snd (poll n q)) = drop n (contents q)"
begin

lemma push_drop: "qinv q \<Longrightarrow> contents (push e q) = drop (Suc (length (contents q)) - capacity) (contents q @ [e])"
  using cap [of q] cap_pos by (auto simp: push_contents Suc_diff_le drop_Suc [symmetric] Suc_le_eq le_Suc_eq
      split: if_splits) (cases "contents q"; simp)

lemma pushes_contents:
  "qinv q \<Longrightarrow> qinv (fold push es q) \<and>
     contents (fold push es q) = drop (length (contents q) + length es - capacity) (contents q @ es)"
proof (induction es arbitrary: q)
  case Nil
  then show ?case using cap [of q] by simp
next
  case (Cons e es)
  let ?k = "Suc (length (contents q)) - capacity"
  have c: "contents (push e q) = drop ?k (contents q @ [e])" and le: "length (contents q) \<le> capacity"
    using push_drop cap Cons.prems by auto
  have k: "?k \<le> Suc (length (contents q))" by simp
  note IH = Cons.IH [OF push_inv [OF Cons.prems, of e]]
  have "Suc 0 - capacity = 0" using cap_pos by simp
  then have A: "contents (push e q) @ es = drop ?k (contents q @ e # es)" using c by simp
  have len: "length (contents (push e q)) = Suc (length (contents q)) - ?k" using c by simp
  have n: "length (contents (push e q)) + length es - capacity + ?k = length (contents q) + length (e # es) - capacity"
    unfolding len using le by simp
  have "contents (fold push (e # es) q) =
      drop (length (contents (push e q)) + length es - capacity) (contents (push e q) @ es)"
    using IH by simp
  also have "\<dots> = drop (length (contents q) + length (e # es) - capacity) (contents q @ e # es)"
    unfolding A drop_drop n ..
  finally show ?case using IH by simp
qed

end

section \<open>The ring keeps that contract\<close>

definition ring_ok :: "event_queue \<Rightarrow> bool" where
  "ring_ok q \<longleftrightarrow> length (eq_events q) = QUEUE_CAPACITY \<and> eq_head q < QUEUE_CAPACITY \<and> eq_len q \<le> QUEUE_CAPACITY"

definition ring_contents :: "event_queue \<Rightarrow> input_event list" where
  "ring_contents q = map (\<lambda>i. eq_events q ! ((eq_head q + i) mod QUEUE_CAPACITY)) [0..<eq_len q]"

lemma ring_cap_pos: "0 < QUEUE_CAPACITY"
  by (simp add: QUEUE_CAPACITY_def)

lemma ring_pop:
  assumes "ring_ok q" "0 < eq_len q"
  defines "q' \<equiv> q\<lparr>eq_head := (eq_head q + 1) mod QUEUE_CAPACITY, eq_len := eq_len q - 1\<rparr>"
  shows "ring_ok q'" "ring_contents q = eq_events q ! eq_head q # ring_contents q'"
proof -
  show "ring_ok q'" using assms(1) ring_cap_pos unfolding q'_def ring_ok_def by auto
  have "[0..<eq_len q] = 0 # map Suc [0..<eq_len q - 1]"
    using assms(2) by (metis One_nat_def Suc_pred map_Suc_upt upt_conv_Cons)
  then show "ring_contents q = eq_events q ! eq_head q # ring_contents q'"
    using assms(1) by (simp add: ring_contents_def q'_def ring_ok_def mod_simps add.assoc comp_def)
qed

lemma ring_push_room:
  fixes e :: input_event
  assumes "ring_ok q" "eq_len q < QUEUE_CAPACITY"
  defines "q' \<equiv> q\<lparr>eq_events := (eq_events q)[(eq_head q + eq_len q) mod QUEUE_CAPACITY := e], eq_len := eq_len q + 1\<rparr>"
  shows "ring_ok q'" "ring_contents q' = ring_contents q @ [e]"
proof -
  let ?c = QUEUE_CAPACITY
  have t: "(eq_head q + eq_len q) mod ?c < ?c" using ring_cap_pos by simp
  show "ring_ok q'" using assms by (simp add: ring_ok_def)
  have "(eq_head q + eq_len q) mod ?c \<noteq> (eq_head q + i) mod ?c" if "i < eq_len q" for i
  proof
    assume "(eq_head q + eq_len q) mod ?c = (eq_head q + i) mod ?c"
    then have "?c dvd (eq_head q + eq_len q) - (eq_head q + i)"
      using that by (intro mod_eq_dvd_iff_nat [THEN iffD1]) simp_all
    then show False using that assms(2) by (auto dest: dvd_imp_le)
  qed
  then show "ring_contents q' = ring_contents q @ [e]"
    using assms(1) t by (simp add: ring_contents_def q'_def ring_ok_def)
qed

lemma ring_push:
  assumes "ring_ok q"
  shows "ring_ok (push_event e q)"
    "ring_contents (push_event e q) =
       (if length (ring_contents q) = QUEUE_CAPACITY then tl (ring_contents q) else ring_contents q) @ [e]"
    "eq_dropped (push_event e q) = eq_dropped q + (if length (ring_contents q) = QUEUE_CAPACITY then 1 else 0)"
proof -
  have len: "length (ring_contents q) = eq_len q" by (simp add: ring_contents_def)
  let ?q1 = "q\<lparr>eq_head := (eq_head q + 1) mod QUEUE_CAPACITY, eq_len := eq_len q - 1\<rparr>"
  have *: "ring_ok (push_event e q) \<and> ring_contents (push_event e q) =
      (if length (ring_contents q) = QUEUE_CAPACITY then tl (ring_contents q) else ring_contents q) @ [e]"
  proof (cases "eq_len q = QUEUE_CAPACITY")
    case True
    note p = ring_pop [OF assms, unfolded True, OF ring_cap_pos]
    let ?q2 = "q\<lparr>eq_head := (eq_head q + 1) mod QUEUE_CAPACITY, eq_len := QUEUE_CAPACITY - 1, eq_dropped := eq_dropped q + 1\<rparr>"
    have ok: "ring_ok ?q2" and c: "ring_contents ?q2 = tl (ring_contents q)"
      using p by (simp_all add: ring_ok_def ring_contents_def)
    have "eq_len ?q2 < QUEUE_CAPACITY" using ring_cap_pos by simp
    from ring_push_room [OF ok this, of e] show ?thesis
      using True c len by (simp add: push_event_def Let_def)
  next
    case False
    then have "eq_len q < QUEUE_CAPACITY" using assms by (simp add: ring_ok_def)
    from ring_push_room [OF assms this, of e] show ?thesis using False len by (simp add: push_event_def Let_def)
  qed
  then show "ring_ok (push_event e q)"
    "ring_contents (push_event e q) =
       (if length (ring_contents q) = QUEUE_CAPACITY then tl (ring_contents q) else ring_contents q) @ [e]" by simp_all
  show "eq_dropped (push_event e q) = eq_dropped q + (if length (ring_contents q) = QUEUE_CAPACITY then 1 else 0)"
    by (simp add: push_event_def Let_def len)
qed

lemma ring_poll_loop:
  "ring_ok q \<Longrightarrow> n \<le> eq_len q \<Longrightarrow>
   ring_ok (snd (poll_loop n q)) \<and> fst (poll_loop n q) = take n (ring_contents q) \<and>
   ring_contents (snd (poll_loop n q)) = drop n (ring_contents q) \<and> eq_dropped (snd (poll_loop n q)) = eq_dropped q"
proof (induction n arbitrary: q)
  case (Suc n)
  let ?q' = "q\<lparr>eq_head := (eq_head q + 1) mod QUEUE_CAPACITY, eq_len := eq_len q - 1\<rparr>"
  have pos: "0 < eq_len q" using Suc.prems(2) by simp
  note p = ring_pop [OF Suc.prems(1) pos]
  have "n \<le> eq_len ?q'" using Suc.prems(2) by simp
  note IH = Suc.IH [OF p(1) this]
  have "poll_loop (Suc n) q = (eq_events q ! eq_head q # fst (poll_loop n ?q'), snd (poll_loop n ?q'))"
    by (simp add: Let_def split: prod.splits)
  with IH p(2) show ?case by (simp only: fst_conv snd_conv take_Suc_Cons drop_Suc_Cons) simp
qed simp

lemma ring_poll:
  assumes "ring_ok q"
  shows "ring_ok (snd (poll_events n q))" "fst (poll_events n q) = take n (ring_contents q)"
    "ring_contents (snd (poll_events n q)) = drop n (ring_contents q)"
    "eq_dropped (snd (poll_events n q)) = eq_dropped q"
proof -
  have len: "length (ring_contents q) = eq_len q" by (simp add: ring_contents_def)
  have "take (min n (eq_len q)) (ring_contents q) = take n (ring_contents q)"
    "drop (min n (eq_len q)) (ring_contents q) = drop n (ring_contents q)"
    by (cases "n \<le> eq_len q"; simp add: len min_def)+
  with ring_poll_loop [OF assms, of "min n (eq_len q)"]
  show "ring_ok (snd (poll_events n q))" "fst (poll_events n q) = take n (ring_contents q)"
    "ring_contents (snd (poll_events n q)) = drop n (ring_contents q)"
    "eq_dropped (snd (poll_events n q)) = eq_dropped q"
    by (simp_all add: poll_events_def)
qed

interpretation ring: drop_oldest_queue ring_contents ring_ok push_event poll_events QUEUE_CAPACITY
  by unfold_locales (simp_all add: ring_cap_pos ring_push ring_poll, simp add: ring_contents_def ring_ok_def)

section \<open>The pointer\<close>

definition pointer_ok :: "input_state \<Rightarrow> bool" where
  "pointer_ok s \<longleftrightarrow>
     (case (in_pointer s, in_bounds s) of ((x, y), (w, h)) \<Rightarrow> 0 < w \<and> w < 2 ^ 32 \<and> 0 < h \<and> h < 2 ^ 32 \<and> x < w \<and> y < h) \<and>
     length (fst (in_mouse s)) = 3 \<and> snd (in_mouse s) < 3"

lemma sint_small:
  assumes "uint (p :: u64) < 2 ^ 63"
  shows "sint p = uint p"
proof -
  have "- (2 ^ 63) \<le> uint p" by (rule order_trans [OF _ uint_ge_0]) simp
  then have "signed_take_bit 63 (uint p) = uint p" using assms by (intro signed_take_bit_int_eq_self)
  then show ?thesis by (simp add: sint_uint)
qed

lemma move_axis_ok:
  assumes "0 < limit" "limit < 2 ^ 32" "p < limit" "- 256 \<le> d" "d \<le> 256"
  shows "\<exists>v. move_axis p d limit = Ok v \<and> v < limit \<and>
    uint v = max 0 (min (uint p + d) (uint limit - 1))"
proof -
  have l: "uint limit < 2 ^ 32" "0 < uint limit" and p: "uint p < uint limit" "0 \<le> uint p"
    using assms(1-3) by (simp_all add: word_less_def)
  let ?n = "uint p + d" and ?v = "word_of_int (max (uint p + d) 0) :: u64"
  have s: "sint p = uint p" using l p by (intro sint_small) simp
  have "uint limit < 4294967296" using l by simp
  then have n: "- 256 \<le> ?n" "?n < 8589934592" using p assms(4,5) by linarith+
  then have b: "0 \<le> max ?n 0" "max ?n 0 < 2 ^ 33" by auto
  then have v: "uint ?v = max ?n 0" by (simp add: unsigned_of_int take_bit_int_eq_self)
  have lim: "uint (sat_sub limit 1) = uint limit - 1"
    using l by (simp add: sat_sub_def word_le_def uint_sub_lem [THEN iffD1])
  have "move_axis p d limit = Ok (min ?v (sat_sub limit 1))"
    using n assms(1) by (simp add: move_axis_def s Let_def)
  moreover have "uint (min ?v (sat_sub limit 1)) = min (max ?n 0) (uint limit - 1)"
    using v lim by (simp add: min_def word_le_def)
  moreover have "min (max ?n 0) (uint limit - 1) = max 0 (min ?n (uint limit - 1))" using l by auto
  ultimately show ?thesis using l by (auto simp: word_less_def)
qed

lemma push_input_simps [simp]:
  "in_pointer (push_input ev s) = in_pointer s" "in_bounds (push_input ev s) = in_bounds s"
  "in_mouse (push_input ev s) = in_mouse s" "in_buttons (push_input ev s) = in_buttons s"
  "in_queue (push_input ev s) = push_event ev (in_queue s)"
  by (simp_all add: push_input_def)

lemma delta_range: "- 256 \<le> (if c then uint (b :: u8) - 256 else uint b)" "(if c then uint (b :: u8) - 256 else uint b) \<le> 256"
proof -
  have "0 \<le> uint b" "uint b < 256" using uint_lt2p [of b] by simp_all
  then show "- 256 \<le> (if c then uint b - 256 else uint b)" "(if c then uint b - 256 else uint b) \<le> 256"
    by (cases c; simp only: if_True if_False; linarith)+
qed

lemma packet_ok:
  assumes "pointer_ok s" "ring_ok (in_queue s)"
  shows "\<exists>s'. on_mouse_packet flags b1 b2 s = Ok s' \<and> pointer_ok s' \<and> ring_ok (in_queue s') \<and> in_bounds s' = in_bounds s"
proof (cases "flags AND 0xC0 = 0")
  case True
  obtain x y w h where p: "in_pointer s = (x, y)" "in_bounds s = (w, h)" by (cases "in_pointer s"; cases "in_bounds s")
  have b: "0 < w" "w < 2 ^ 32" "0 < h" "h < 2 ^ 32" "x < w" "y < h" "length (fst (in_mouse s)) = 3" "snd (in_mouse s) < 3"
    using assms(1) p by (auto simp: pointer_ok_def)
  let ?dx = "if flags AND 0x10 \<noteq> 0 then uint b1 - 256 else uint b1"
  let ?dy = "if flags AND 0x20 \<noteq> 0 then uint b2 - 256 else uint b2"
  obtain x' where x': "move_axis x ?dx w = Ok x'" "x' < w"
    using move_axis_ok [OF b(1,2,5) delta_range] by blast
  have "- 256 \<le> - ?dy" "- ?dy \<le> 256" using delta_range [of "flags AND 0x20 \<noteq> 0" b2] by linarith+
  from move_axis_ok [OF b(3,4,6) this] obtain y' where y': "move_axis y (- ?dy) h = Ok y'" "y' < h" by blast
  show ?thesis
    using True p b x' y' assms(2) ring_push(1)
    by (auto simp: on_mouse_packet_def Let_def pointer_ok_def)
qed (use assms in \<open>auto simp: on_mouse_packet_def Let_def\<close>)

lemma mouse_byte_ok:
  assumes "pointer_ok s" "ring_ok (in_queue s)"
  shows "\<exists>s'. on_mouse_byte b s = Ok s' \<and> pointer_ok s' \<and> ring_ok (in_queue s') \<and> in_bounds s' = in_bounds s"
proof -
  obtain buffer index where m: "in_mouse s = (buffer, index)" by (cases "in_mouse s")
  let ?b = "buffer[index := b]"
  have l: "length buffer = 3" "index < 3" using assms(1) m by (auto simp: pointer_ok_def)
  show ?thesis
  proof (cases "index + 1 < 3 \<or> (index = 0 \<and> b AND 0x08 = 0)")
    case True
    then show ?thesis using assms m l by (auto simp: on_mouse_byte_def Let_def pointer_ok_def)
  next
    case False
    have "pointer_ok (s\<lparr>in_mouse := (?b, 0)\<rparr>)" "ring_ok (in_queue (s\<lparr>in_mouse := (?b, 0)\<rparr>))"
      using assms l by (auto simp: pointer_ok_def)
    from packet_ok [OF this, of "?b ! 0" "?b ! 1" "?b ! 2"] False m show ?thesis
      by (auto simp: on_mouse_byte_def Let_def)
  qed
qed

section \<open>Properties\<close>

text \<open>The specification: a list of at most 256 events, with a count of those forgotten.\<close>

datatype queue_op = QPush input_event | QPoll nat

fun ring_step :: "queue_op \<Rightarrow> event_queue \<times> input_event list \<Rightarrow> event_queue \<times> input_event list" where
  "ring_step (QPush ev) (q, out) = (push_event ev q, out)"
| "ring_step (QPoll n) (q, out) = (case poll_events n q of (evs, q') \<Rightarrow> (q', out @ evs))"

fun spec_step ::
  "queue_op \<Rightarrow> input_event list \<times> nat \<times> input_event list \<Rightarrow> input_event list \<times> nat \<times> input_event list" where
  "spec_step (QPush ev) (l, d, out) =
     (if length l = 256 then (tl l @ [ev], d + 1, out) else (l @ [ev], d, out))"
| "spec_step (QPoll n) (l, d, out) = (drop n l, d, out @ take n l)"

lemma ring_step_refines:
  assumes "ring_ok q"
  shows "ring_ok (fst (ring_step oper (q, out)))"
    "spec_step oper (ring_contents q, eq_dropped q, out) =
       (ring_contents (fst (ring_step oper (q, out))), eq_dropped (fst (ring_step oper (q, out))), snd (ring_step oper (q, out)))"
proof -
  have "ring_ok (fst (ring_step oper (q, out))) \<and>
    spec_step oper (ring_contents q, eq_dropped q, out) =
      (ring_contents (fst (ring_step oper (q, out))), eq_dropped (fst (ring_step oper (q, out))), snd (ring_step oper (q, out)))"
  proof (cases oper)
    case (QPush ev)
    then show ?thesis using ring_push [OF assms, unfolded QUEUE_CAPACITY_def, of ev] by simp
  next
    case (QPoll n)
    have "ring_step oper (q, out) = (snd (poll_events n q), out @ fst (poll_events n q))"
      using QPoll by (simp split: prod.splits)
    then show ?thesis using ring_poll [OF assms, of n] QPoll by simp
  qed
  then show "ring_ok (fst (ring_step oper (q, out)))"
    "spec_step oper (ring_contents q, eq_dropped q, out) =
       (ring_contents (fst (ring_step oper (q, out))), eq_dropped (fst (ring_step oper (q, out))), snd (ring_step oper (q, out)))"
    by blast+
qed

text \<open>C23. The ring buffer implements its specification: for every sequence of pushes and polls, the
  events delivered, the events still queued and the count of dropped events are those of a list
  of at most 256 events that forgets its oldest one when a push finds it full. In particular no
  access is out of range, and events are delivered once, in order.\<close>

theorem input_ring_refines:
  "case fold ring_step ops (queue_init, []) of (q, out) \<Rightarrow>
     ring_ok q \<and> fold spec_step ops ([], 0, []) = (ring_contents q, eq_dropped q, out)"
proof -
  have "ring_ok (fst (fold ring_step ops (q, out))) \<and>
      fold spec_step ops (ring_contents q, eq_dropped q, out) =
        (ring_contents (fst (fold ring_step ops (q, out))), eq_dropped (fst (fold ring_step ops (q, out))),
         snd (fold ring_step ops (q, out)))" if "ring_ok q" for q out
    using that
  proof (induction ops arbitrary: q out)
    case (Cons oper ops)
    note s = ring_step_refines [OF Cons.prems, of oper out]
    from Cons.IH [OF s(1), of "snd (ring_step oper (q, out))"] show ?case by (simp add: s(2))
  qed simp
  from this [of queue_init "[]"] show ?thesis
    by (auto simp: queue_init_def ring_ok_def ring_contents_def QUEUE_CAPACITY_def split: prod.splits)
qed

end
