(* ===== verification/UserMemory.thy ===== *)
theory UserMemory
  imports Abi
begin

unbundle bit_operations_syntax

text \<open>
  Access to user memory (\<^verbatim>\<open>kernel/src/mm/memory.rs\<close>): the check that a range a program named is
  mapped for it, by a walk of the page tables, and the copies in and out that rest on it. The
  page tables are data: \<open>mmu_tables frame i\<close> is the \<open>i\<close>-th entry of the table in a frame. Two
  functions of the \<^verbatim>\<open>x86_64\<close> crate are arguments: \<open>va_ok\<close> (\<^verbatim>\<open>VirtAddr::try_new\<close> succeeds) and \<open>indices\<close>
  (\<^verbatim>\<open>p4_index\<close> to \<^verbatim>\<open>p1_index\<close> of an address). User memory is a function from addresses to bytes.
\<close>

record page_entry =
  pe_present :: bool
  pe_user :: bool
  pe_writable :: bool
  pe_huge :: bool
  pe_addr :: u64

definition OFFSET_UNINITIALIZED :: u64 where "OFFSET_UNINITIALIZED = - 1"

record mmu =
  mmu_offset :: u64
  mmu_root :: u64
  mmu_tables :: "u64 \<Rightarrow> nat \<Rightarrow> page_entry"

fun walk_levels :: "mmu \<Rightarrow> bool \<Rightarrow> nat \<Rightarrow> nat list \<Rightarrow> u64 \<Rightarrow> bool" where
  "walk_levels mmu require_writable level [] frame = True"
| "walk_levels mmu require_writable level (i # is) frame =
     (let e = mmu_tables mmu frame i in
      if \<not> pe_present e \<or> \<not> pe_user e then False
      else if require_writable \<and> \<not> pe_writable e then False
      else if level < 3 \<and> pe_huge e then True
      else walk_levels mmu require_writable (level + 1) is (pe_addr e))"

definition page_is_user_accessible :: "(u64 \<Rightarrow> nat list) \<Rightarrow> mmu \<Rightarrow> u64 \<Rightarrow> bool \<Rightarrow> bool" where
  "page_is_user_accessible indices mmu addr require_writable =
     walk_levels mmu require_writable 0 (indices addr) (mmu_root mmu)"

text \<open>The loop of \<^verbatim>\<open>range_is_user\<close>; \<open>page += 4096\<close> past the end of the address space panics.\<close>

function range_walk ::
  "(u64 \<Rightarrow> bool) \<Rightarrow> (u64 \<Rightarrow> nat list) \<Rightarrow> mmu \<Rightarrow> bool \<Rightarrow> u64 \<Rightarrow> u64 \<Rightarrow> (unit, bool) outcome" where
  "range_walk va_ok indices mmu require_writable page last_page =
     (if \<not> va_ok page then Ok False
      else if \<not> page_is_user_accessible indices mmu page require_writable then Ok False
      else if page = last_page then Ok True
      else if page + 4096 < page then Panic
      else range_walk va_ok indices mmu require_writable (page + 4096) last_page)"
  by pat_completeness auto
termination
proof (relation "measure (\<lambda>(va_ok, indices, mmu, w, page, last_page). 2 ^ 64 - unat page)")
  fix va_ok :: "u64 \<Rightarrow> bool" and indices :: "u64 \<Rightarrow> nat list" and mmu :: mmu and w and page last_page :: u64
  assume "\<not> page + 4096 < page"
  then have "unat page \<le> unat (page + 4096)" "page + 4096 \<noteq> page"
    by (simp_all add: not_less flip: word_le_nat_alt)
  then have "unat page < unat (page + 4096)" by (metis nat_less_le word_unat_eq_iff)
  moreover have "unat (page + 4096) < 2 ^ 64" using unat_bound [of "page + 4096"] by simp
  ultimately show "((va_ok, indices, mmu, w, page + 4096, last_page), va_ok, indices, mmu, w, page, last_page)
      \<in> measure (\<lambda>(va_ok, indices, mmu, w, page, last_page). 2 ^ 64 - unat page)" by simp
qed simp

declare range_walk.simps [simp del]

definition page_of :: "u64 \<Rightarrow> u64" where
  "page_of a = a AND NOT 0xFFF"

definition range_is_user ::
  "(u64 \<Rightarrow> bool) \<Rightarrow> (u64 \<Rightarrow> nat list) \<Rightarrow> mmu \<Rightarrow> u64 \<Rightarrow> u64 \<Rightarrow> bool \<Rightarrow> (unit, bool) outcome" where
  "range_is_user va_ok indices mmu start len require_writable =
     (if len = 0 then Ok True
      else if start + (len - 1) < start then Ok False
      else
        (let last = start + (len - 1) in
         if \<not> is_user_address start \<or> \<not> is_user_address last then Ok False
         else if mmu_offset mmu = OFFSET_UNINITIALIZED then Ok False
         else range_walk va_ok indices mmu require_writable (page_of start) (page_of last)))"

definition user_range_is_accessible where
  "user_range_is_accessible va_ok indices mmu start len = range_is_user va_ok indices mmu start len False"

definition user_range_is_writable where
  "user_range_is_writable va_ok indices mmu start len = range_is_user va_ok indices mmu start len True"

section \<open>Copies\<close>

definition MAX_USER_TRANSFER :: nat where "MAX_USER_TRANSFER = 1024 * 1024"

definition user_bytes :: "(u64 \<Rightarrow> u8) \<Rightarrow> u64 \<Rightarrow> nat \<Rightarrow> bytes" where
  "user_bytes mem ptr n = map (\<lambda>i. mem (ptr + of_nat i)) [0..<n]"

text \<open>Outcome \<open>Err ()\<close> is the \<^verbatim>\<open>None\<close> of the source.\<close>

definition copy_from_user ::
  "(u64 \<Rightarrow> bool) \<Rightarrow> (u64 \<Rightarrow> nat list) \<Rightarrow> mmu \<Rightarrow> (u64 \<Rightarrow> u8) \<Rightarrow> u64 \<Rightarrow> nat \<Rightarrow> (unit, bytes) outcome" where
  "copy_from_user va_ok indices mmu mem ptr len =
     (if MAX_USER_TRANSFER < len then Err ()
      else obind (user_range_is_accessible va_ok indices mmu ptr (of_nat len)) (\<lambda>ok.
           if ok then Ok (user_bytes mem ptr len) else Err ()))"

text \<open>\<^verbatim>\<open>copy_from_user_into\<close>: the new contents of the destination, or false and the old ones.\<close>

definition copy_from_user_into ::
  "(u64 \<Rightarrow> bool) \<Rightarrow> (u64 \<Rightarrow> nat list) \<Rightarrow> mmu \<Rightarrow> (u64 \<Rightarrow> u8) \<Rightarrow> u64 \<Rightarrow> bytes \<Rightarrow> (unit, bool \<times> bytes) outcome" where
  "copy_from_user_into va_ok indices mmu mem ptr dest =
     (if dest = [] then Ok (True, dest)
      else obind (user_range_is_accessible va_ok indices mmu ptr (of_nat (length dest))) (\<lambda>ok.
           Ok (if ok then (True, user_bytes mem ptr (length dest)) else (False, dest))))"

primrec write_bytes :: "bytes \<Rightarrow> u64 \<Rightarrow> (u64 \<Rightarrow> u8) \<Rightarrow> (u64 \<Rightarrow> u8)" where
  "write_bytes [] ptr mem = mem"
| "write_bytes (b # bs) ptr mem = write_bytes bs (ptr + 1) (mem(ptr := b))"

definition copy_to_user ::
  "(u64 \<Rightarrow> bool) \<Rightarrow> (u64 \<Rightarrow> nat list) \<Rightarrow> mmu \<Rightarrow> u64 \<Rightarrow> bytes \<Rightarrow> (u64 \<Rightarrow> u8) \<Rightarrow>
   (unit, nat \<times> (u64 \<Rightarrow> u8)) outcome" where
  "copy_to_user va_ok indices mmu ptr bs mem =
     (if MAX_USER_TRANSFER < length bs then Err ()
      else obind (user_range_is_writable va_ok indices mmu ptr (of_nat (length bs))) (\<lambda>ok.
           if ok then Ok (length bs, write_bytes bs ptr mem) else Err ()))"

section \<open>The top-level table\<close>

definition pml4_entries_in_use :: "mmu \<Rightarrow> (unit, nat \<times> nat) outcome" where
  "pml4_entries_in_use mmu =
     (if mmu_offset mmu = OFFSET_UNINITIALIZED then Panic
      else
        (let present = filter (\<lambda>i. pe_present (mmu_tables mmu (mmu_root mmu) i)) [0..<512]
         in Ok (length (filter (\<lambda>i. i < KERNEL_PML4_FIRST_INDEX) present),
                length (filter (\<lambda>i. \<not> i < KERNEL_PML4_FIRST_INDEX) present))))"

definition unused_entry :: page_entry where
  "unused_entry = \<lparr>pe_present = False, pe_user = False, pe_writable = False, pe_huge = False, pe_addr = 0\<rparr>"

definition clear_lower_half_mappings :: "mmu \<Rightarrow> (unit, nat list \<times> mmu) outcome" where
  "clear_lower_half_mappings mmu =
     (if mmu_offset mmu = OFFSET_UNINITIALIZED then Panic
      else
        (let root = mmu_root mmu;
             cleared = filter (\<lambda>i. pe_present (mmu_tables mmu root i)) [0..<KERNEL_PML4_FIRST_INDEX]
         in Ok (cleared,
                mmu\<lparr>mmu_tables := (mmu_tables mmu)
                      (root := (\<lambda>i. if i \<in> set cleared then unused_entry else mmu_tables mmu root i))\<rparr>)))"

section \<open>Pages\<close>

lemma unat_page_of: "unat (page_of a) = unat a div 4096 * 4096"
proof -
  have m: "(0xFFF :: u64) = mask 12" by (simp add: mask_eq_exp_minus_1)
  have "a - (a AND mask 12) = a AND NOT (a AND mask 12)"
    by (rule disjunctive_diff_eq_and_not) (simp add: bit_eq_iff bit_simps)
  also have "\<dots> = a AND NOT (mask 12)" by (auto simp: bit_eq_iff bit_simps)
  finally have p: "page_of a = a - take_bit 12 a" by (simp add: page_of_def m take_bit_eq_mask)
  have t: "unat (take_bit 12 a) = unat a mod 4096" by (simp only: unsigned_take_bit_eq) (simp add: take_bit_eq_mod)
  then have "take_bit 12 a \<le> a" by (simp add: word_le_nat_alt)
  then show ?thesis by (simp add: p unat_sub t minus_mod_eq_div_mult)
qed

lemma page_of_aligned [simp]: "4096 dvd unat (page_of a)"
  by (simp add: unat_page_of)

lemma page_of_mono: "a \<le> b \<Longrightarrow> page_of a \<le> page_of b"
  by (simp add: word_le_nat_alt unat_page_of div_le_mono)

lemma page_of_below: "page_of a \<le> a"
  by (simp add: word_le_nat_alt unat_page_of)

lemma page_step:
  fixes page lst :: u64
  assumes "page < lst" "4096 dvd unat page" "4096 dvd unat lst"
  shows "unat (page + 4096) = unat page + 4096" "page + 4096 \<le> lst"
proof -
  obtain k m where k: "unat page = 4096 * k" and m: "unat lst = 4096 * m" using assms(2,3) by (auto elim!: dvdE)
  with assms(1) have "k < m" by (simp add: word_less_nat_alt)
  then have le: "unat page + 4096 \<le> unat lst" using k m by simp
  then have "unat page + 4096 < 2 ^ 64" using unat_bound [of lst] by simp
  then show u: "unat (page + 4096) = unat page + 4096" by (subst unat_add_lem [THEN iffD1]) simp_all
  show "page + 4096 \<le> lst" using le u by (simp add: word_le_nat_alt)
qed

text \<open>The walk visits every page of the range: it is a bounded check, and it always returns.\<close>

lemma range_walk_exact:
  assumes "page \<le> lst" "4096 dvd unat page" "4096 dvd unat lst"
  shows "range_walk va_ok indices mmu w page lst =
    Ok (\<forall>p. page \<le> p \<and> p \<le> lst \<and> 4096 dvd unat p \<longrightarrow> va_ok p \<and> page_is_user_accessible indices mmu p w)"
  using assms
proof (induction va_ok indices mmu w page lst rule: range_walk.induct)
  case (1 va_ok indices mmu w page lst)
  let ?good = "\<lambda>p. va_ok p \<and> page_is_user_accessible indices mmu p w"
  show ?case
  proof (cases "?good page")
    case False
    then show ?thesis using 1(2-4) by (subst range_walk.simps) auto
  next
    case good: True
    show ?thesis
    proof (cases "page = lst")
      case True
      then show ?thesis using good by (subst range_walk.simps) (auto dest: antisym)
    next
      case False
      with 1(2) have lt: "page < lst" by simp
      note step = page_step [OF lt 1(3,4)]
      have up: "\<not> page + 4096 < page" using step(1) by (simp add: word_less_nat_alt)
      have d: "4096 dvd unat (page + 4096)" using step(1) 1(3) by simp
      have "range_walk va_ok indices mmu w page lst = range_walk va_ok indices mmu w (page + 4096) lst"
        using good False up by (subst range_walk.simps) simp
      also have "\<dots> = Ok (\<forall>p. page + 4096 \<le> p \<and> p \<le> lst \<and> 4096 dvd unat p \<longrightarrow> ?good p)"
        using 1(1) good False up step(2) d 1(4) by blast
      also have "(\<forall>p. page + 4096 \<le> p \<and> p \<le> lst \<and> 4096 dvd unat p \<longrightarrow> ?good p) \<longleftrightarrow>
          (\<forall>p. page \<le> p \<and> p \<le> lst \<and> 4096 dvd unat p \<longrightarrow> ?good p)"
      proof -
        have "p = page \<or> page + 4096 \<le> p" if "page \<le> p" "4096 dvd unat p" for p
        proof (cases "p = page")
          case False
          with that(1) have "page < p" by simp
          from page_step(2) [OF this 1(3) that(2)] show ?thesis by simp
        qed simp
        moreover have "page \<le> p" if "page + 4096 \<le> p" for p
          using that step(1) by (simp add: word_le_nat_alt)
        ultimately show ?thesis using good by metis
      qed
      finally show ?thesis .
    qed
  qed
qed

text \<open>The pages of a range are those of its bytes.\<close>

lemma pages_of_bytes:
  assumes "start \<le> lst"
  shows "(\<forall>p. page_of start \<le> p \<and> p \<le> page_of lst \<and> 4096 dvd unat p \<longrightarrow> good p) \<longleftrightarrow>
    (\<forall>a. start \<le> a \<and> a \<le> lst \<longrightarrow> good (page_of a))"
proof (intro iffI allI impI)
  fix a assume "\<forall>p. page_of start \<le> p \<and> p \<le> page_of lst \<and> 4096 dvd unat p \<longrightarrow> good p" "start \<le> a \<and> a \<le> lst"
  then show "good (page_of a)" using page_of_mono by simp
next
  fix p assume g: "\<forall>a. start \<le> a \<and> a \<le> lst \<longrightarrow> good (page_of a)"
    and p: "page_of start \<le> p \<and> p \<le> page_of lst \<and> 4096 dvd unat p"
  have pp: "page_of q = q" if "4096 dvd unat q" for q
    using that by (auto simp: word_unat_eq_iff unat_page_of)
  show "good p"
  proof (cases "start \<le> p")
    case True
    then have "good (page_of p)" using g p page_of_below [of lst] order_trans by blast
    then show ?thesis using pp p by simp
  next
    case False
    then have "p \<le> start" by simp
    then have "p \<le> page_of start" using page_of_mono [of p start] pp p by simp
    then have "p = page_of start" using p by simp
    then show ?thesis using g assms by simp
  qed
qed

section \<open>What the check and the copies promise\<close>

text \<open>Every byte of the range is a user byte, on a page that is mapped for the program.\<close>

definition user_byte :: "(u64 \<Rightarrow> bool) \<Rightarrow> (u64 \<Rightarrow> nat list) \<Rightarrow> mmu \<Rightarrow> bool \<Rightarrow> u64 \<Rightarrow> bool" where
  "user_byte va_ok indices mmu require_writable a \<longleftrightarrow>
     is_user_address a \<and> va_ok (page_of a) \<and> page_is_user_accessible indices mmu (page_of a) require_writable"

definition user_range :: "(u64 \<Rightarrow> bool) \<Rightarrow> (u64 \<Rightarrow> nat list) \<Rightarrow> mmu \<Rightarrow> bool \<Rightarrow> u64 \<Rightarrow> nat \<Rightarrow> bool" where
  "user_range va_ok indices mmu require_writable start n \<longleftrightarrow>
     n = 0 \<or>
     (unat start + n \<le> 2 ^ 64 \<and> mmu_offset mmu \<noteq> OFFSET_UNINITIALIZED \<and>
      (\<forall>a. unat start \<le> unat a \<and> unat a < unat start + n \<longrightarrow> user_byte va_ok indices mmu require_writable a))"

lemma range_end:
  assumes "len \<noteq> (0 :: u64)"
  shows "\<not> start + (len - 1) < start \<longleftrightarrow> unat start + unat len \<le> 2 ^ 64"
    "unat start + unat len \<le> 2 ^ 64 \<Longrightarrow> unat (start + (len - 1)) = unat start + unat len - 1"
proof -
  have pos: "0 < unat len" using assms by (simp add: unat_gt_0)
  have l: "unat (len - 1) = unat len - 1" using pos by (subst unat_sub) (simp_all add: word_le_nat_alt)
  show 1: "unat (start + (len - 1)) = unat start + unat len - 1" if "unat start + unat len \<le> 2 ^ 64"
    using that pos l by (subst unat_add_lem [THEN iffD1]) simp_all
  show "\<not> start + (len - 1) < start \<longleftrightarrow> unat start + unat len \<le> 2 ^ 64"
  proof
    assume "unat start + unat len \<le> 2 ^ 64"
    from 1 [OF this] pos show "\<not> start + (len - 1) < start" by (simp add: word_less_nat_alt)
  next
    assume n: "\<not> start + (len - 1) < start"
    show "unat start + unat len \<le> 2 ^ 64"
    proof (rule ccontr)
      assume big: "\<not> ?thesis"
      then have "unat (start + (len - 1)) = (unat start + (unat len - 1)) mod 2 ^ 64"
        using l by (simp add: unat_word_ariths)
      also have "\<dots> = unat start + (unat len - 1) - 2 ^ 64"
      proof -
        have "2 ^ 64 \<le> unat start + (unat len - 1)" using big pos by linarith
        moreover have "unat start + (unat len - 1) - 2 ^ 64 < 2 ^ 64"
          using unat_bound [of start] unat_bound [of len] by simp
        ultimately show ?thesis by (simp add: le_mod_geq)
      qed
      finally have "unat (start + (len - 1)) < unat start"
        using big unat_bound [of len] pos by simp
      with n show False by (simp add: word_less_nat_alt)
    qed
  qed
qed

lemma range_is_user_spec:
  "range_is_user va_ok indices mmu start len w = Ok (user_range va_ok indices mmu w start (unat len))"
proof (cases "len = 0 \<or> \<not> unat start + unat len \<le> 2 ^ 64 \<or> mmu_offset mmu = OFFSET_UNINITIALIZED")
  case True
  then show ?thesis using range_end(1) [of len start]
    by (auto simp: range_is_user_def user_range_def Let_def unat_eq_0)
next
  case False
  let ?last = "start + (len - 1)"
  have pos: "0 < unat len" using False by (simp add: unat_gt_0)
  have nw: "\<not> ?last < start" and ul: "unat ?last = unat start + unat len - 1"
    using range_end [of len start] False by auto
  then have le: "start \<le> ?last" by simp
  have in_iff: "start \<le> a \<and> a \<le> ?last \<longleftrightarrow> unat start \<le> unat a \<and> unat a < unat start + unat len" for a
    using ul pos by (auto simp: word_le_nat_alt)
  have both: "is_user_address start \<and> is_user_address ?last \<longleftrightarrow> (\<forall>a. start \<le> a \<and> a \<le> ?last \<longrightarrow> is_user_address a)"
    using le by (auto simp: is_user_address_def)
  have walk: "range_walk va_ok indices mmu w (page_of start) (page_of ?last) =
    Ok (\<forall>a. start \<le> a \<and> a \<le> ?last \<longrightarrow> va_ok (page_of a) \<and> page_is_user_accessible indices mmu (page_of a) w)"
    using range_walk_exact [OF page_of_mono [OF le]] pages_of_bytes [OF le] by simp
  have spec: "user_range va_ok indices mmu w start (unat len) \<longleftrightarrow>
    (\<forall>a. start \<le> a \<and> a \<le> ?last \<longrightarrow> is_user_address a \<and> va_ok (page_of a) \<and> page_is_user_accessible indices mmu (page_of a) w)"
    unfolding user_range_def user_byte_def in_iff using False pos by auto
  show ?thesis
  proof (cases "is_user_address start \<and> is_user_address ?last")
    case True
    have "range_is_user va_ok indices mmu start len w = range_walk va_ok indices mmu w (page_of start) (page_of ?last)"
      using False nw True unfolding range_is_user_def Let_def by simp
    then show ?thesis unfolding walk spec using both True by auto
  next
    case f: False
    then have "range_is_user va_ok indices mmu start len w = Ok False"
      using False nw unfolding range_is_user_def Let_def by auto
    then show ?thesis unfolding spec using both f by auto
  qed
qed

lemma unat_len: "n \<le> MAX_USER_TRANSFER \<Longrightarrow> unat (of_nat n :: u64) = n"
  by (simp add: unat_of_nat take_bit_eq_mod MAX_USER_TRANSFER_def)

lemma copy_from_user_spec:
  "copy_from_user va_ok indices mmu mem ptr len =
     (if len \<le> MAX_USER_TRANSFER \<and> user_range va_ok indices mmu False ptr len
      then Ok (user_bytes mem ptr len) else Err ())"
  by (simp add: copy_from_user_def user_range_is_accessible_def range_is_user_spec unat_len)

lemma copy_to_user_spec:
  "copy_to_user va_ok indices mmu ptr bs mem =
     (if length bs \<le> MAX_USER_TRANSFER \<and> user_range va_ok indices mmu True ptr (length bs)
      then Ok (length bs, write_bytes bs ptr mem) else Err ())"
  by (simp add: copy_to_user_def user_range_is_writable_def range_is_user_spec unat_len)

text \<open>Writing a run of bytes, seen address by address.\<close>

lemma write_bytes_at:
  "unat ptr + length bs \<le> 2 ^ 64 \<Longrightarrow>
   write_bytes bs ptr mem a =
     (if unat ptr \<le> unat a \<and> unat a < unat ptr + length bs then bs ! (unat a - unat ptr) else mem a)"
proof (induction bs arbitrary: ptr mem)
  case (Cons b bs)
  show ?case
  proof (cases "bs = []")
    case True
    then show ?thesis by (auto simp: word_unat_eq_iff)
  next
    case False
    then have "Suc (unat ptr) < 2 ^ 64" using Cons.prems by (cases bs) simp_all
    then have u: "unat (ptr + 1) = Suc (unat ptr)" by (intro unat_inc) simp
    define m where "m = mem(ptr := b)"
    have m: "write_bytes (b # bs) ptr mem = write_bytes bs (ptr + 1) m" "m a = (if a = ptr then b else mem a)"
      by (simp_all add: m_def)
    have "write_bytes bs (ptr + 1) m a =
      (if Suc (unat ptr) \<le> unat a \<and> unat a < Suc (unat ptr) + length bs then bs ! (unat a - Suc (unat ptr))
       else m a)"
      using Cons.IH [of "ptr + 1" m] Cons.prems u by simp
    moreover have "(b # bs) ! (unat a - unat ptr) = bs ! (unat a - Suc (unat ptr))" if "Suc (unat ptr) \<le> unat a"
    proof -
      have "unat a - unat ptr = Suc (unat a - Suc (unat ptr))" using that by simp
      then show ?thesis by simp
    qed
    moreover have "a = ptr \<longleftrightarrow> unat a = unat ptr" by (simp add: word_unat_eq_iff)
    ultimately show ?thesis unfolding m by (auto simp: not_le Suc_le_eq)
  qed
qed auto

lemma user_bytes_written:
  assumes "unat ptr + length bs \<le> 2 ^ 64"
  shows "user_bytes (write_bytes bs ptr mem) ptr (length bs) = bs"
proof (rule nth_equalityI)
  fix i assume "i < length (user_bytes (write_bytes bs ptr mem) ptr (length bs))"
  then have i: "i < length bs" by (simp add: user_bytes_def)
  then have "unat (ptr + of_nat i) = unat ptr + i"
    using assms by (subst unat_add_lem [THEN iffD1]) (simp_all add: unat_of_nat take_bit_eq_mod)
  then show "user_bytes (write_bytes bs ptr mem) ptr (length bs) ! i = bs ! i"
    using i by (simp add: user_bytes_def write_bytes_at [OF assms])
qed (simp add: user_bytes_def)

section \<open>Properties\<close>

text \<open>C18. The check of a user range always returns, without a panic, for every start, length and page
  table, and its answer is exact: true if and only if the range is empty, or it does not wrap, the
  memory manager is initialised, and every byte of it is a user address on a page whose entries
  along the walk are present, user accessible and (where asked) writable.\<close>

theorem range_check_exact:
  "range_is_user va_ok indices mmu start len require_writable =
     Ok (user_range va_ok indices mmu require_writable start (unat len))"
  by (rule range_is_user_spec)

text \<open>C19. The copies touch user memory only. Reading returns exactly the bytes of an accessible range and
  refuses any other without reading it; writing either changes nothing, or makes the range hold
  exactly the given bytes, and every byte it changes was a writable user byte.\<close>

theorem user_copies_confined:
  "copy_from_user va_ok indices mmu mem ptr len =
     (if len \<le> MAX_USER_TRANSFER \<and> user_range va_ok indices mmu False ptr len
      then Ok (user_bytes mem ptr len) else Err ()) \<and>
   (case copy_to_user va_ok indices mmu ptr bs mem of
      Ok (n, mem') \<Rightarrow>
        n = length bs \<and> user_bytes mem' ptr n = bs \<and>
        (\<forall>a. mem' a = mem a \<or> user_byte va_ok indices mmu True a)
    | Err _ \<Rightarrow> \<not> (length bs \<le> MAX_USER_TRANSFER \<and> user_range va_ok indices mmu True ptr (length bs))
    | Panic \<Rightarrow> False)"
proof (cases "length bs \<le> MAX_USER_TRANSFER \<and> user_range va_ok indices mmu True ptr (length bs)")
  case True
  then have "bs = [] \<or> unat ptr + length bs \<le> 2 ^ 64"
    and b: "\<forall>a. unat ptr \<le> unat a \<and> unat a < unat ptr + length bs \<longrightarrow> user_byte va_ok indices mmu True a"
    by (auto simp: user_range_def)
  then have nw: "unat ptr + length bs \<le> 2 ^ 64" using unat_bound [of ptr] by auto
  have "write_bytes bs ptr mem a = mem a \<or> user_byte va_ok indices mmu True a" for a
    using b write_bytes_at [OF nw, of mem a] by auto
  then show ?thesis
    using True user_bytes_written [OF nw] by (simp add: copy_from_user_spec copy_to_user_spec)
qed (auto simp: copy_from_user_spec copy_to_user_spec)

end
