(* ===== verification/Compositor.thy ===== *)
theory Compositor
  imports Graphics Input UserMemory
begin

text \<open>
  The compositor (\<^verbatim>\<open>kernel/src/graphics/compositor.rs\<close>): surfaces, their placement in floating and
  tiling layouts, commits, and the drawing of a frame with the trust bar on top. Surface numbers
  are 64-bit and a wrap of their counter panics; pixel geometry is in natural numbers.
\<close>

unbundle bit_operations_syntax

section \<open>State\<close>

definition TRUST_BAR_HEIGHT :: nat where "TRUST_BAR_HEIGHT = 20"
definition TILE_GAP :: nat where "TILE_GAP = 6"
definition SIGNATURE_BLOCKS :: nat where "SIGNATURE_BLOCKS = 6"
definition MAX_SURFACE_PIXELS :: nat where "MAX_SURFACE_PIXELS = 8 * 1024 * 1024"

datatype layout_mode = Floating | Tiling

primrec layout_name :: "layout_mode \<Rightarrow> bytes" where
  "layout_name Floating = ascii ''floating (desktop)''"
| "layout_name Tiling = ascii ''tiling''"

datatype surface_mode = Windowed | Fullscreen

record surface =
  sf_id :: u64
  sf_pid :: u64
  sf_realm_kind :: u64
  sf_title :: bytes
  sf_x :: nat
  sf_y :: nat
  sf_width :: nat
  sf_height :: nat
  sf_mode :: surface_mode
  sf_pixels :: "u32 list"

record compositor_state =
  cs_framebuffer :: "framebuffer option"
  cs_surfaces :: "surface list"
  cs_next_surface_id :: u64
  cs_focused :: "u64 option"
  cs_theme :: theme
  cs_layout :: layout_mode
  cs_signature :: "colour list"
  cs_frames :: nat
  cs_last_present_tick :: nat
  cs_rejected_commits :: nat

definition compositor_static :: compositor_state where
  "compositor_static =
     \<lparr>cs_framebuffer = None, cs_surfaces = [], cs_next_surface_id = 1, cs_focused = None,
      cs_theme = THEME_DEFAULT, cs_layout = Floating, cs_signature = replicate SIGNATURE_BLOCKS (rgb 0 0 0),
      cs_frames = 0, cs_last_present_tick = 0, cs_rejected_commits = 0\<rparr>"

definition SIGNATURE_PALETTE :: "colour list" where
  "SIGNATURE_PALETTE =
     [rgb 0xE6 0x39 0x46, rgb 0xF7 0x9D 0x1E, rgb 0xFF 0xD1 0x66, rgb 0x4C 0xC9 0x7C,
      rgb 0x2E 0xC4 0xB6, rgb 0x3A 0x86 0xFF, rgb 0x9B 0x5D 0xE5, rgb 0xF1 0x5B 0xB5]"

definition xorshift :: "u64 \<Rightarrow> u64" where
  "xorshift s0 =
     (let s1 = s0 XOR push_bit 13 s0; s2 = s1 XOR drop_bit 7 s1 in s2 XOR push_bit 17 s2)"

primrec signature_from :: "nat \<Rightarrow> u64 \<Rightarrow> colour list" where
  "signature_from 0 s = []"
| "signature_from (Suc n) s =
     (let s' = xorshift s
      in SIGNATURE_PALETTE ! unat (s' mod of_nat (length SIGNATURE_PALETTE)) # signature_from n s')"

text \<open>\<^verbatim>\<open>init\<close>: \<open>seed\<close> is the time stamp counter.\<close>

definition compositor_init ::
  "u64 \<Rightarrow> framebuffer \<Rightarrow> theme \<Rightarrow> compositor_state \<Rightarrow> input_state \<Rightarrow> compositor_state \<times> input_state" where
  "compositor_init seed fb t cs inp =
     (cs\<lparr>cs_framebuffer := Some fb, cs_theme := t, cs_signature := signature_from SIGNATURE_BLOCKS seed\<rparr>,
      set_bounds (of_nat (fb_width fb)) (of_nat (fb_height fb)) inp)"

definition content_region :: "framebuffer \<Rightarrow> nat \<times> nat \<times> nat \<times> nat" where
  "content_region fb = (0, TRUST_BAR_HEIGHT, fb_width fb, fb_height fb - TRUST_BAR_HEIGHT)"

section \<open>Placement\<close>

definition surface_resize :: "nat \<Rightarrow> nat \<Rightarrow> surface \<Rightarrow> surface" where
  "surface_resize width height s =
     (if sf_width s = width \<and> sf_height s = height then s
      else s\<lparr>sf_width := width, sf_height := height, sf_pixels := replicate (width * height) 0\<rparr>)"

text \<open>
  The rectangles of \<open>n\<close> tiled windows, each but the last taking half of what is left along the
  longer axis. Subtracting the gap from a shorter side is an overflow.
\<close>

fun tile_rects :: "nat \<Rightarrow> nat \<Rightarrow> nat \<Rightarrow> nat \<Rightarrow> nat \<Rightarrow> (unit, (nat \<times> nat \<times> nat \<times> nat) list) outcome" where
  "tile_rects 0 x y width height = Ok []"
| "tile_rects (Suc 0) x y width height = Ok [(x, y, width, height)]"
| "tile_rects (Suc (Suc n)) x y width height =
     (if width \<ge> height
      then (if width < TILE_GAP then Panic
            else (let half = (width - TILE_GAP) div 2
                  in obind (tile_rects (Suc n) (x + half + TILE_GAP) y (width - (half + TILE_GAP)) height)
                       (\<lambda>rs. Ok ((x, y, half, height) # rs))))
      else (if height < TILE_GAP then Panic
            else (let half = (height - TILE_GAP) div 2
                  in obind (tile_rects (Suc n) x (y + half + TILE_GAP) width (height - (half + TILE_GAP)))
                       (\<lambda>rs. Ok ((x, y, width, half) # rs)))))"

definition place_tile :: "nat \<times> nat \<times> nat \<times> nat \<Rightarrow> surface \<Rightarrow> surface" where
  "place_tile r s = (case r of (x, y, w, h) \<Rightarrow> surface_resize (max w 1) (max h 1) (s\<lparr>sf_x := x, sf_y := y\<rparr>))"

fun place_tiles :: "surface list \<Rightarrow> (nat \<times> nat \<times> nat \<times> nat) list \<Rightarrow> surface list" where
  "place_tiles [] rs = []"
| "place_tiles (s # ss) rs =
     (if sf_mode s = Windowed
      then (case rs of r # rs' \<Rightarrow> place_tile r s # place_tiles ss rs' | [] \<Rightarrow> s # place_tiles ss [])
      else s # place_tiles ss rs)"

definition relayout :: "compositor_state \<Rightarrow> (unit, compositor_state) outcome" where
  "relayout cs =
     (case cs_framebuffer cs of
        None \<Rightarrow> Ok cs
      | Some fb \<Rightarrow>
          (case content_region fb of (content_x, content_y, content_width, content_height) \<Rightarrow>
             if cs_layout cs = Floating
             then Ok (cs\<lparr>cs_surfaces :=
                    map (\<lambda>s. if sf_mode s = Windowed then s\<lparr>sf_y := max (sf_y s) content_y\<rparr> else s) (cs_surfaces cs)\<rparr>)
             else
               (let count = length (filter (\<lambda>s. sf_mode s = Windowed) (cs_surfaces cs)) in
                if count = 0 then Ok cs
                else obind (tile_rects count (content_x + TILE_GAP) (content_y + TILE_GAP)
                              (content_width - TILE_GAP * 2) (content_height - TILE_GAP * 2))
                       (\<lambda>rs. Ok (cs\<lparr>cs_surfaces := place_tiles (cs_surfaces cs) rs\<rparr>)))))"

text \<open>The first half of \<^verbatim>\<open>create_surface\<close>: where a surface starts and how large it is.\<close>

definition place_surface :: "framebuffer \<Rightarrow> surface_mode \<Rightarrow> nat \<Rightarrow> nat \<Rightarrow> nat \<Rightarrow> nat \<times> nat \<times> nat \<times> nat" where
  "place_surface fb mode index width0 height0 =
     (case content_region fb of (content_x, content_y, content_width, content_height) \<Rightarrow>
        (case mode of
           Fullscreen \<Rightarrow> (content_x, content_y, content_width, content_height)
         | Windowed \<Rightarrow>
             (let width = min width0 content_width;
                  height = min height0 content_height
              in (min (content_x + 40 + index * 30) (content_x + content_width - width),
                  min (content_y + 30 + index * 26) (content_y + (content_height - height)),
                  width, height))))"

definition create_surface ::
  "u64 \<Rightarrow> u64 \<Rightarrow> bytes \<Rightarrow> nat \<Rightarrow> nat \<Rightarrow> surface_mode \<Rightarrow> compositor_state \<Rightarrow>
   (unit, u64 option \<times> compositor_state) outcome" where
  "create_surface pid kind title width0 height0 mode cs =
     (case cs_framebuffer cs of
        None \<Rightarrow> Ok (None, cs)
      | Some fb \<Rightarrow>
          (case place_surface fb mode (length (cs_surfaces cs)) width0 height0 of (x, y, width, height) \<Rightarrow>
             if width = 0 \<or> height = 0 then Ok (None, cs)
             else
               (case checked_mul width height of
                  None \<Rightarrow> Ok (None, cs)
                | Some pixels \<Rightarrow>
                    if MAX_SURFACE_PIXELS < pixels then Ok (None, cs)
                    else if cs_next_surface_id cs = - 1 then Panic
                    else
                      (let sid = cs_next_surface_id cs;
                           s = \<lparr>sf_id = sid, sf_pid = pid, sf_realm_kind = kind, sf_title = title,
                                sf_x = x, sf_y = y, sf_width = width, sf_height = height, sf_mode = mode,
                                sf_pixels = replicate pixels 0\<rparr>
                       in obind (relayout (cs\<lparr>cs_next_surface_id := sid + 1,
                                               cs_surfaces := cs_surfaces cs @ [s],
                                               cs_focused := Some sid\<rparr>))
                            (\<lambda>cs'. Ok (Some sid, cs'))))))"

definition set_layout :: "layout_mode \<Rightarrow> compositor_state \<Rightarrow> (unit, compositor_state) outcome" where
  "set_layout mode cs = (if cs_layout cs = mode then Ok cs else relayout (cs\<lparr>cs_layout := mode\<rparr>))"

definition toggle_layout :: "compositor_state \<Rightarrow> (unit, compositor_state) outcome" where
  "toggle_layout cs = set_layout (case cs_layout cs of Floating \<Rightarrow> Tiling | Tiling \<Rightarrow> Floating) cs"

definition window_rects :: "compositor_state \<Rightarrow> (nat \<times> nat \<times> nat \<times> nat) list" where
  "window_rects cs =
     map (\<lambda>s. (sf_x s, sf_y s, sf_width s, sf_height s)) (filter (\<lambda>s. sf_mode s = Windowed) (cs_surfaces cs))"

definition remove_surfaces_for :: "u64 \<Rightarrow> compositor_state \<Rightarrow> (unit, compositor_state) outcome" where
  "remove_surfaces_for pid cs =
     (let kept = filter (\<lambda>s. sf_pid s \<noteq> pid) (cs_surfaces cs);
          focused = (case cs_focused cs of
                       None \<Rightarrow> None
                     | Some f \<Rightarrow> if f \<in> sf_id ` set kept then Some f
                                 else if kept = [] then None else Some (sf_id (last kept)))
      in relayout (cs\<lparr>cs_surfaces := kept, cs_focused := focused\<rparr>))"

section \<open>Commits\<close>

definition surface_geometry :: "u64 \<Rightarrow> u64 \<Rightarrow> compositor_state \<Rightarrow> (nat \<times> nat) option" where
  "surface_geometry sid pid cs =
     map_option (\<lambda>s. (sf_width s, sf_height s)) (List.find (\<lambda>s. sf_id s = sid \<and> sf_pid s = pid) (cs_surfaces cs))"

text \<open>Replaces the pixels of the first surface with this number.\<close>

fun put_pixels :: "u64 \<Rightarrow> u32 list \<Rightarrow> surface list \<Rightarrow> surface list" where
  "put_pixels sid px [] = []"
| "put_pixels sid px (s # ss) = (if sf_id s = sid then s\<lparr>sf_pixels := px\<rparr> # ss else s # put_pixels sid px ss)"

definition reject_commit :: "compositor_state \<Rightarrow> compositor_state" where
  "reject_commit cs = cs\<lparr>cs_rejected_commits := cs_rejected_commits cs + 1\<rparr>"

definition pixel_words :: "bytes \<Rightarrow> u32 list" where
  "pixel_words bs = map (\<lambda>i. u32_from_le (take 4 (drop (4 * i) bs))) [0..<length bs div 4]"

definition commit_surface_from_user ::
  "(u64 \<Rightarrow> bool) \<Rightarrow> (u64 \<Rightarrow> nat list) \<Rightarrow> mmu \<Rightarrow> (u64 \<Rightarrow> u8) \<Rightarrow> u64 \<Rightarrow> u64 \<Rightarrow> u64 \<Rightarrow> nat \<Rightarrow>
   compositor_state \<Rightarrow> (unit, bool \<times> compositor_state) outcome" where
  "commit_surface_from_user va_ok indices mmu mem sid pid ptr len cs =
     (case List.find (\<lambda>s. sf_id s = sid) (cs_surfaces cs) of
        None \<Rightarrow> Ok (False, cs)
      | Some s \<Rightarrow>
          if sf_pid s \<noteq> pid \<or> len \<noteq> length (sf_pixels s) * 4 then Ok (False, reject_commit cs)
          else obind (copy_from_user_into va_ok indices mmu mem ptr (replicate (length (sf_pixels s) * 4) 0))
            (\<lambda>(ok, bs).
               if ok then Ok (True, cs\<lparr>cs_surfaces := put_pixels sid (pixel_words bs) (cs_surfaces cs)\<rparr>)
               else Ok (False, reject_commit cs)))"

definition commit_surface :: "u64 \<Rightarrow> u64 \<Rightarrow> u32 list \<Rightarrow> compositor_state \<Rightarrow> bool \<times> compositor_state" where
  "commit_surface sid pid px cs =
     (case List.find (\<lambda>s. sf_id s = sid) (cs_surfaces cs) of
        None \<Rightarrow> (False, cs)
      | Some s \<Rightarrow>
          if sf_pid s \<noteq> pid then (False, reject_commit cs)
          else if length px \<noteq> length (sf_pixels s) then (False, reject_commit cs)
          else (True, cs\<lparr>cs_surfaces := put_pixels sid px (cs_surfaces cs)\<rparr>))"

section \<open>Drawing a frame\<close>

definition pixel_colour :: "u32 \<Rightarrow> colour" where
  "pixel_colour p =
     rgb (ucast (drop_bit 16 p AND 0xFF)) (ucast (drop_bit 8 p AND 0xFF)) (ucast (p AND 0xFF))"

text \<open>One surface: its pixels clipped to the content region, then its border. Reading past its pixels panics.\<close>

definition draw_surface :: "framebuffer \<Rightarrow> theme \<Rightarrow> surface \<Rightarrow> screen \<Rightarrow> (unit, screen) outcome" where
  "draw_surface fb t s m =
     (case content_region fb of (_, content_y, content_width, content_height) \<Rightarrow>
       (let x_start = max (sf_x s) 0;
            y_start = max (sf_y s) content_y;
            x_end = min (sf_x s + sf_width s) content_width;
            y_end = min (sf_y s + sf_height s) (content_y + content_height);
            pixels = rect_pixels x_start x_end y_start y_end;
            index = (\<lambda>(column, row). (row - sf_y s) * sf_width s + (column - sf_x s))
        in if \<not> list_all (\<lambda>p. index p < length (sf_pixels s)) pixels then Panic
           else
             (let m1 = fold (\<lambda>p. set_pixel fb (fst p) (snd p) (pixel_colour (sf_pixels s ! index p))) pixels m
              in Ok (if sf_mode s = Windowed \<and> x_end > x_start \<and> y_end > y_start
                     then stroke_rect fb x_start y_start (x_end - x_start) (y_end - y_start)
                            (accent_for_realm t (sf_realm_kind s)) m1
                     else m1))))"

primrec draw_surfaces :: "framebuffer \<Rightarrow> theme \<Rightarrow> surface list \<Rightarrow> screen \<Rightarrow> (unit, screen) outcome" where
  "draw_surfaces fb t [] m = Ok m"
| "draw_surfaces fb t (s # ss) m = obind (draw_surface fb t s m) (draw_surfaces fb t ss)"

definition pointer_pixels :: "(nat \<times> nat) list" where
  "pointer_pixels =
     concat (map (\<lambda>row. map (\<lambda>column. (column, row)) (filter (\<lambda>column. \<not> row + 6 < column) [0..<12 - row])) [0..<12])"

definition draw_pointer :: "framebuffer \<Rightarrow> theme \<Rightarrow> u64 \<times> u64 \<Rightarrow> screen \<Rightarrow> screen" where
  "draw_pointer fb t p m =
     fold (\<lambda>(column, row). set_pixel fb (unat (fst p) + column) (unat (snd p) + row)
             (if column = 0 \<or> column = 11 - row \<or> row = 11 then th_pointer_edge t else th_pointer_fill t))
       pointer_pixels m"

definition realm_label :: "u64 \<Rightarrow> nat list" where
  "realm_label kind =
     (if kind = KIND_GAMING then code_points ''GAMING REALM''
      else if kind = KIND_VAULT then code_points ''VAULT REALM - VERIFIED PUBLISHER''
      else if kind = KIND_SYSTEM then code_points ''SYSTEM''
      else code_points ''HOME REALM'')"

primrec draw_signature :: "framebuffer \<Rightarrow> nat \<Rightarrow> colour list \<Rightarrow> screen \<Rightarrow> screen" where
  "draw_signature fb x [] m = m"
| "draw_signature fb x (c # cs) m = draw_signature fb (x + (10 + 3)) cs (fill_rect fb x 5 10 10 c m)"

definition draw_trust_bar :: "framebuffer \<Rightarrow> theme \<Rightarrow> u64 option \<Rightarrow> colour list \<Rightarrow> screen \<Rightarrow> screen" where
  "draw_trust_bar fb t focused_realm signature m =
     (let m1 = fill_rect fb 0 0 (fb_width fb) TRUST_BAR_HEIGHT (th_trust_bar t) m;
          m2 = fill_rect fb 0 (TRUST_BAR_HEIGHT - 1) (fb_width fb) 1 (th_trust_bar_edge t) m1;
          (label, accent) = (case focused_realm of
                               Some kind \<Rightarrow> (realm_label kind, accent_for_realm t kind)
                             | None \<Rightarrow> (code_points ''NAJM OS'', th_trust_bar_text t));
          m3 = fill_rect fb 6 5 10 10 accent m2;
          m4 = draw_text fb 22 7 label (th_trust_bar_text t) m3
      in draw_signature fb (fb_width fb - (length signature * (10 + 3) + 8)) signature m4)"

definition focused_realm :: "compositor_state \<Rightarrow> u64 option" where
  "focused_realm cs =
     (case cs_focused cs of
        None \<Rightarrow> None
      | Some f \<Rightarrow> map_option sf_realm_kind (List.find (\<lambda>s. sf_id s = f) (cs_surfaces cs)))"

text \<open>\<^verbatim>\<open>present\<close>: the layout hotkey first, then the frame.\<close>

definition draw_frame :: "compositor_state \<Rightarrow> input_state \<Rightarrow> screen \<Rightarrow> (unit, compositor_state \<times> screen) outcome" where
  "draw_frame cs inp m =
     (case cs_framebuffer cs of
        None \<Rightarrow> Ok (cs, m)
      | Some fb \<Rightarrow>
          (case content_region fb of (_, content_y, content_width, content_height) \<Rightarrow>
             (let t = cs_theme cs;
                  m1 = fill_rect fb 0 content_y content_width content_height (th_desktop t) m
              in obind (draw_surfaces fb t (cs_surfaces cs) m1) (\<lambda>m2.
                   (let m3 = draw_pointer fb t (in_pointer inp) m2
                    in Ok (cs\<lparr>cs_frames := cs_frames cs + 1\<rparr>,
                           draw_trust_bar fb t (focused_realm cs) (cs_signature cs) m3))))))"

definition present ::
  "compositor_state \<Rightarrow> input_state \<Rightarrow> screen \<Rightarrow> (unit, compositor_state \<times> input_state \<times> screen) outcome" where
  "present cs0 inp0 m =
     (case take_layout_toggle inp0 of (toggle, inp) \<Rightarrow>
        obind (if toggle then toggle_layout cs0 else Ok cs0) (\<lambda>cs.
        obind (draw_frame cs inp m) (\<lambda>(cs', m'). Ok (cs', inp, m'))))"

definition present_throttled ::
  "nat \<Rightarrow> compositor_state \<Rightarrow> input_state \<Rightarrow> screen \<Rightarrow> (unit, compositor_state \<times> input_state \<times> screen) outcome" where
  "present_throttled now cs inp m =
     (if cs_frames cs > 0 \<and> cs_last_present_tick cs = now then Ok (cs, inp, m)
      else present (cs\<lparr>cs_last_present_tick := now\<rparr>) inp m)"

section \<open>Reports\<close>

definition compositor_stats :: "compositor_state \<Rightarrow> nat \<times> nat \<times> nat" where
  "compositor_stats cs = (length (cs_surfaces cs), cs_frames cs, cs_rejected_commits cs)"

definition any_surface_overlaps_trust_bar :: "compositor_state \<Rightarrow> bool" where
  "any_surface_overlaps_trust_bar cs \<longleftrightarrow> list_ex (\<lambda>s. sf_y s < TRUST_BAR_HEIGHT) (cs_surfaces cs)"

definition read_pixel :: "nat \<Rightarrow> nat \<Rightarrow> compositor_state \<Rightarrow> screen \<Rightarrow> (u8 \<times> u8 \<times> u8) option" where
  "read_pixel x y cs m =
     (case cs_framebuffer cs of
        None \<Rightarrow> None
      | Some fb \<Rightarrow>
          if x \<ge> fb_width fb \<or> y \<ge> fb_height fb then None
          else
            (let off = y * fb_stride fb + x * fb_bytes_per_pixel fb;
                 b0 = m off;
                 b1 = (if fb_bytes_per_pixel fb > 1 then m (off + 1) else 0);
                 b2 = (if fb_bytes_per_pixel fb > 2 then m (off + 2) else 0)
             in Some (if fb_format fb = Bgr then (b2, b1, b0) else (b0, b1, b2))))"

definition signature_block_origin :: "nat \<Rightarrow> compositor_state \<Rightarrow> (nat \<times> nat) option" where
  "signature_block_origin index cs =
     (case cs_framebuffer cs of
        None \<Rightarrow> None
      | Some fb \<Rightarrow>
          (let total = SIGNATURE_BLOCKS * (10 + 3);
               x = fb_width fb - (total + 8) + index * (10 + 3)
           in Some (x + 10 div 2, 5 + 10 div 2)))"

section \<open>Screens that agree\<close>

text \<open>
  Drawing never reads the screen, so two screens that agree on some bytes still agree on them
  after drawing the same thing on both; and a pixel drawn on both agrees whatever was there.
\<close>

definition same_on :: "nat set \<Rightarrow> screen \<Rightarrow> screen \<Rightarrow> bool" where
  "same_on A m m' \<longleftrightarrow> (\<forall>a \<in> A. m a = m' a)"

definition drawing :: "(screen \<Rightarrow> screen) \<Rightarrow> bool" where
  "drawing f \<longleftrightarrow> (\<forall>A m m'. same_on A m m' \<longrightarrow> same_on A (f m) (f m'))"

lemma drawingD: "drawing f \<Longrightarrow> same_on A m m' \<Longrightarrow> same_on A (f m) (f m')"
  by (auto simp: drawing_def)

lemma drawing_write_at: "same_on A m m' \<Longrightarrow> same_on A (put_bytes bs off m) (put_bytes bs off m')"
  by (induction bs arbitrary: off m m') (auto simp: same_on_def)

lemma drawing_set_pixel: "drawing (set_pixel fb x y c)"
  by (auto simp: drawing_def set_pixel_def drawing_write_at)

lemma drawing_fold: "(\<And>p. drawing (f p)) \<Longrightarrow> drawing (fold f ps)"
proof (induction ps)
  case (Cons p ps)
  then show ?case by (simp add: drawing_def)
qed (simp add: drawing_def)

lemma drawing_fill: "drawing (fill_rect fb x y w h c)"
proof -
  have "drawing (fold (\<lambda>(column, row). set_pixel fb column row c) ps)" for ps
    by (rule drawing_fold) (simp add: drawing_set_pixel split: prod.splits)
  then show ?thesis by (simp add: drawing_def fill_rect_def Let_def)
qed

lemma drawing_text: "drawing (draw_text fb x y chs c)"
proof (induction chs arbitrary: x)
  case (Cons ch chs)
  have "drawing (fold (\<lambda>(column, row). set_pixel fb (x + column) (y + row) c) ps)" for ps
    by (rule drawing_fold) (simp add: drawing_set_pixel split: prod.splits)
  with Cons.IH show ?case by (simp add: drawing_def)
qed (simp add: drawing_def)

lemma drawing_signature: "drawing (draw_signature fb x cs)"
proof (induction cs arbitrary: x)
  case (Cons c cs)
  then show ?case using drawing_fill by (simp add: drawing_def)
qed (simp add: drawing_def)

text \<open>The bytes that writing the pixel \<open>(x, y)\<close> sets.\<close>

definition pixel_cells :: "framebuffer \<Rightarrow> nat \<Rightarrow> nat \<Rightarrow> nat set" where
  "pixel_cells fb x y =
     (if fb_len fb < pixel_offset fb x y + fb_bytes_per_pixel fb then {}
      else {pixel_offset fb x y ..< pixel_offset fb x y + length (pixel_bytes fb (rgb 0 0 0))})"

lemma pixel_bytes_length: "length (pixel_bytes fb c) = length (pixel_bytes fb (rgb 0 0 0))"
  by (simp add: pixel_bytes_def split: pixel_format.splits)

lemma write_at_same: "same_on {off ..< off + length bs} (put_bytes bs off m) (put_bytes bs off m')"
proof (induction bs arbitrary: off m m')
  case (Cons b bs)
  have "same_on {off} (put_bytes bs (off + 1) (m(off := b))) (put_bytes bs (off + 1) (m'(off := b)))"
    by (rule drawing_write_at) (simp add: same_on_def)
  moreover have "same_on {off + 1 ..< off + 1 + length bs} (put_bytes bs (off + 1) (m(off := b))) (put_bytes bs (off + 1) (m'(off := b)))"
    by (rule Cons.IH)
  moreover have "{off ..< off + length (b # bs)} = {off} \<union> {off + 1 ..< off + 1 + length bs}" by auto
  ultimately show ?case by (auto simp: same_on_def)
qed (simp add: same_on_def)

lemma set_pixel_same:
  assumes "x < fb_width fb" "y < fb_height fb"
  shows "same_on (pixel_cells fb x y) (set_pixel fb x y c m) (set_pixel fb x y c m')"
  using assms write_at_same [of "pixel_offset fb x y" "pixel_bytes fb c" m m']
  by (auto simp: set_pixel_def pixel_cells_def pixel_bytes_length [of fb c] same_on_def)

lemma fold_pixel_same:
  assumes "(x, y) \<in> set ps" "x < fb_width fb" "y < fb_height fb"
  shows "same_on (pixel_cells fb x y) (fold (\<lambda>(column, row). set_pixel fb column row c) ps m)
    (fold (\<lambda>(column, row). set_pixel fb column row c) ps m')"
  using assms(1)
proof (induction ps arbitrary: m m')
  case (Cons p ps)
  have d: "drawing (fold (\<lambda>(column, row). set_pixel fb column row c) ps)"
    by (rule drawing_fold) (simp add: drawing_set_pixel split: prod.splits)
  show ?case
  proof (cases "p = (x, y)")
    case True
    then show ?thesis using drawingD [OF d set_pixel_same [OF assms(2,3)]] by simp
  next
    case False
    then show ?thesis using Cons by (simp split: prod.splits)
  qed
qed simp

lemma rect_pixels_set: "(x, y) \<in> set (rect_pixels a b c d) \<longleftrightarrow> a \<le> x \<and> x < b \<and> c \<le> y \<and> y < d"
  by (auto simp: rect_pixels_def intro!: bexI [of _ y])

lemma fill_rect_same:
  assumes "x \<le> px" "px < x + w" "y \<le> py" "py < y + h" "px < fb_width fb" "py < fb_height fb"
  shows "same_on (pixel_cells fb px py) (fill_rect fb x y w h c m) (fill_rect fb x y w h c m')"
  using assms unfolding fill_rect_def Let_def
  by (intro fold_pixel_same) (simp_all add: rect_pixels_set)

text \<open>The bytes of the reserved strip.\<close>

definition trust_bar_cells :: "framebuffer \<Rightarrow> nat set" where
  "trust_bar_cells fb =
     (\<Union>x < fb_width fb. \<Union>y < min TRUST_BAR_HEIGHT (fb_height fb). pixel_cells fb x y)"

lemma trust_bar_same:
  "same_on (trust_bar_cells fb) (draw_trust_bar fb t r sig m) (draw_trust_bar fb t r sig m')"
proof -
  have "same_on (trust_bar_cells fb) (fill_rect fb 0 0 (fb_width fb) TRUST_BAR_HEIGHT c m)
      (fill_rect fb 0 0 (fb_width fb) TRUST_BAR_HEIGHT c m')" for c
    using fill_rect_same [of 0 _ "fb_width fb" 0 _ TRUST_BAR_HEIGHT fb c m m']
    by (auto simp: trust_bar_cells_def same_on_def)
  note base = this
  obtain label accent where la: "(case r of Some kind \<Rightarrow> (realm_label kind, accent_for_realm t kind)
      | None \<Rightarrow> (code_points ''NAJM OS'', th_trust_bar_text t)) = (label, accent)"
    by (meson surj_pair)
  show ?thesis
    unfolding draw_trust_bar_def Let_def la prod.case
    by (rule drawingD [OF drawing_signature], rule drawingD [OF drawing_text], rule drawingD [OF drawing_fill],
        rule drawingD [OF drawing_fill], rule base)
qed

section \<open>The invariant of the surfaces\<close>

definition surface_ok :: "surface \<Rightarrow> bool" where
  "surface_ok s \<longleftrightarrow>
     length (sf_pixels s) = sf_width s * sf_height s \<and> 0 < sf_width s \<and> 0 < sf_height s \<and> TRUST_BAR_HEIGHT \<le> sf_y s"

definition comp_ok :: "compositor_state \<Rightarrow> bool" where
  "comp_ok cs \<longleftrightarrow>
     list_all surface_ok (cs_surfaces cs) \<and> distinct (map sf_id (cs_surfaces cs)) \<and>
     list_all (\<lambda>s. sf_id s < cs_next_surface_id cs) (cs_surfaces cs)"

lemma comp_ok_frame:
  "comp_ok cs \<Longrightarrow> cs_surfaces cs' = cs_surfaces cs \<Longrightarrow> cs_next_surface_id cs' = cs_next_surface_id cs \<Longrightarrow> comp_ok cs'"
  by (simp add: comp_ok_def surface_ok_def)

text \<open>Tiles stay below the strip and take over the identity and owner of their surface.\<close>

lemma tile_rects_y:
  "tile_rects n x y w h = Ok rs \<Longrightarrow> (tx, ty, tw, th) \<in> set rs \<Longrightarrow> y \<le> ty"
proof (induction n x y w h arbitrary: rs rule: tile_rects.induct)
  case (3 n x y width height)
  show ?case
  proof (cases "width \<ge> height")
    case True
    then obtain rs' where "tile_rects (Suc n) (x + (width - TILE_GAP) div 2 + TILE_GAP) y
        (width - ((width - TILE_GAP) div 2 + TILE_GAP)) height = Ok rs'"
      "rs = (x, y, (width - TILE_GAP) div 2, height) # rs'" "\<not> width < TILE_GAP"
      using 3(3) by (auto simp: Let_def outcome_simps split: if_splits)
    then show ?thesis using 3(1) True 3(4) by auto
  next
    case False
    then obtain rs' where "tile_rects (Suc n) x (y + (height - TILE_GAP) div 2 + TILE_GAP)
        width (height - ((height - TILE_GAP) div 2 + TILE_GAP)) = Ok rs'"
      "rs = (x, y, width, (height - TILE_GAP) div 2) # rs'" "\<not> height < TILE_GAP"
      using 3(3) by (auto simp: Let_def outcome_simps split: if_splits)
    then show ?thesis using 3(2) False 3(4) by fastforce
  qed
qed auto

lemma place_tile_ok:
  assumes "surface_ok s" "TRUST_BAR_HEIGHT \<le> ty"
  shows "surface_ok (place_tile (tx, ty, tw, th) s)" "sf_id (place_tile (tx, ty, tw, th) s) = sf_id s"
    "sf_pid (place_tile (tx, ty, tw, th) s) = sf_pid s"
    "sf_realm_kind (place_tile (tx, ty, tw, th) s) = sf_realm_kind s"
  using assms by (auto simp: place_tile_def surface_resize_def surface_ok_def)

lemma place_tiles_ok:
  assumes "list_all surface_ok ss" "\<forall>(tx, ty, tw, th) \<in> set rs. TRUST_BAR_HEIGHT \<le> ty"
  shows "list_all surface_ok (place_tiles ss rs) \<and> map sf_id (place_tiles ss rs) = map sf_id ss \<and>
    map sf_pid (place_tiles ss rs) = map sf_pid ss \<and> map sf_realm_kind (place_tiles ss rs) = map sf_realm_kind ss"
  using assms
proof (induction ss rs rule: place_tiles.induct)
  case (2 s ss rs)
  show ?case
  proof (cases rs)
    case Nil
    then show ?thesis using 2 by (simp add: 2)
  next
    case (Cons r rs')
    obtain tx ty tw th where r: "r = (tx, ty, tw, th)" by (cases r) auto
    show ?thesis using 2 Cons r place_tile_ok [of s ty tx tw th] by (simp add: case_prod_beta)
  qed
qed simp

lemma list_all_ids: "list_all (\<lambda>s. sf_id s < n) ss \<longleftrightarrow> (\<forall>i \<in> set (map sf_id ss). i < n)"
  by (induction ss) simp_all

lemma comp_ok_surfaces:
  assumes "comp_ok cs" "list_all surface_ok ss" "map sf_id ss = map sf_id (cs_surfaces cs)"
  shows "comp_ok (cs\<lparr>cs_surfaces := ss\<rparr>)"
proof -
  have "distinct (map sf_id ss)" "\<forall>i \<in> set (map sf_id ss). i < cs_next_surface_id cs"
    using assms(1) unfolding assms(3) comp_ok_def list_all_ids by simp_all
  then show ?thesis using assms(2) unfolding comp_ok_def list_all_ids by simp
qed

text \<open>\<^verbatim>\<open>relayout\<close> keeps the invariant and changes neither who owns a surface nor its Realm.\<close>

lemma relayout_ok:
  assumes "comp_ok cs" "relayout cs = Ok cs'"
  shows "comp_ok cs'" "cs_framebuffer cs' = cs_framebuffer cs" "cs_theme cs' = cs_theme cs"
    "cs_signature cs' = cs_signature cs" "cs_focused cs' = cs_focused cs"
    "map sf_id (cs_surfaces cs') = map sf_id (cs_surfaces cs)"
    "map sf_pid (cs_surfaces cs') = map sf_pid (cs_surfaces cs)"
    "map sf_realm_kind (cs_surfaces cs') = map sf_realm_kind (cs_surfaces cs)"
proof -
  have "comp_ok cs' \<and> cs_framebuffer cs' = cs_framebuffer cs \<and> cs_theme cs' = cs_theme cs \<and>
    cs_signature cs' = cs_signature cs \<and> cs_focused cs' = cs_focused cs \<and>
    map sf_id (cs_surfaces cs') = map sf_id (cs_surfaces cs) \<and>
    map sf_pid (cs_surfaces cs') = map sf_pid (cs_surfaces cs) \<and>
    map sf_realm_kind (cs_surfaces cs') = map sf_realm_kind (cs_surfaces cs)"
  proof (cases "cs_framebuffer cs")
    case None
    then show ?thesis using assms by (simp add: relayout_def)
  next
    case (Some fb)
    show ?thesis
    proof (cases "cs_layout cs = Floating \<or> filter (\<lambda>s. sf_mode s = Windowed) (cs_surfaces cs) = []")
      case True
      let ?f = "\<lambda>s. if sf_mode s = Windowed then s\<lparr>sf_y := max (sf_y s) TRUST_BAR_HEIGHT\<rparr> else s"
      have f: "map sf_id (map ?f (cs_surfaces cs)) = map sf_id (cs_surfaces cs)"
        "map sf_pid (map ?f (cs_surfaces cs)) = map sf_pid (cs_surfaces cs)"
        "map sf_realm_kind (map ?f (cs_surfaces cs)) = map sf_realm_kind (cs_surfaces cs)" by auto
      have ok: "list_all surface_ok (map ?f (cs_surfaces cs))"
        using assms(1) by (auto simp: comp_ok_def list_all_iff surface_ok_def)
      have "cs' = cs \<or> cs' = cs\<lparr>cs_surfaces := map ?f (cs_surfaces cs)\<rparr>"
        using assms(2) Some True by (auto simp: relayout_def content_region_def Let_def split: if_splits)
      moreover have "comp_ok (cs\<lparr>cs_surfaces := map ?f (cs_surfaces cs)\<rparr>)"
        by (rule comp_ok_surfaces [OF assms(1) ok f(1)])
      ultimately show ?thesis using assms(1) f by auto
    next
      case False
      obtain rs where rs: "tile_rects (length (filter (\<lambda>s. sf_mode s = Windowed) (cs_surfaces cs))) TILE_GAP
          (TRUST_BAR_HEIGHT + TILE_GAP) (fb_width fb - TILE_GAP * 2) (fb_height fb - TRUST_BAR_HEIGHT - TILE_GAP * 2) = Ok rs"
        and cs': "cs' = cs\<lparr>cs_surfaces := place_tiles (cs_surfaces cs) rs\<rparr>"
        using assms(2) Some False
        by (auto simp: relayout_def content_region_def Let_def outcome_simps split: if_splits)
      have "\<forall>(tx, ty, tw, th) \<in> set rs. TRUST_BAR_HEIGHT \<le> ty"
        by (auto dest: tile_rects_y [OF rs])
      from place_tiles_ok [OF _ this, of "cs_surfaces cs"] assms(1)
      show ?thesis unfolding cs' using comp_ok_surfaces [OF assms(1)] by (simp add: comp_ok_def [of cs])
    qed
  qed
  then show "comp_ok cs'" "cs_framebuffer cs' = cs_framebuffer cs" "cs_theme cs' = cs_theme cs"
    "cs_signature cs' = cs_signature cs" "cs_focused cs' = cs_focused cs"
    "map sf_id (cs_surfaces cs') = map sf_id (cs_surfaces cs)"
    "map sf_pid (cs_surfaces cs') = map sf_pid (cs_surfaces cs)"
    "map sf_realm_kind (cs_surfaces cs') = map sf_realm_kind (cs_surfaces cs)" by blast+
qed

lemma place_surface_y: "place_surface fb mode i w0 h0 = (x, y, w, h) \<Longrightarrow> 0 < h \<Longrightarrow> TRUST_BAR_HEIGHT \<le> y"
  by (auto simp: place_surface_def content_region_def Let_def split: surface_mode.splits)

lemma create_surface_cases:
  assumes "create_surface pid kind title w0 h0 mode cs = r"
  obtains (refused) "r = Ok (None, cs)"
  | (wrapped) "r = Panic" "cs_next_surface_id cs = - 1"
  | (created) s where "sf_id s = cs_next_surface_id cs" "sf_pid s = pid" "sf_realm_kind s = kind" "sf_mode s = mode"
      "surface_ok s" "sf_pixels s = replicate (sf_width s * sf_height s) 0" "cs_next_surface_id cs \<noteq> - 1"
      "r = obind (relayout (cs\<lparr>cs_next_surface_id := cs_next_surface_id cs + 1, cs_surfaces := cs_surfaces cs @ [s],
             cs_focused := Some (cs_next_surface_id cs)\<rparr>)) (\<lambda>cs'. Ok (Some (cs_next_surface_id cs), cs'))"
      "sf_width s * sf_height s \<le> MAX_SURFACE_PIXELS"
proof (cases "cs_framebuffer cs")
  case None
  then show ?thesis using assms refused by (simp add: create_surface_def)
next
  case (Some fb)
  obtain x y w h where p: "place_surface fb mode (length (cs_surfaces cs)) w0 h0 = (x, y, w, h)"
    by (cases "place_surface fb mode (length (cs_surfaces cs)) w0 h0")
  show ?thesis
  proof (cases "w = 0 \<or> h = 0 \<or> checked_mul w h = None \<or> MAX_SURFACE_PIXELS < w * h")
    case True
    then have "r = Ok (None, cs)"
      using assms Some p by (auto simp: create_surface_def split: option.splits)
    then show ?thesis by (rule refused)
  next
    case False
    then have c: "0 < w" "0 < h" "checked_mul w h = Some (w * h)" "\<not> MAX_SURFACE_PIXELS < w * h"
      by (auto simp: checked_mul_def split: if_splits)
    show ?thesis
    proof (cases "cs_next_surface_id cs = - 1")
      case True
      then show ?thesis using assms Some p c wrapped by (simp add: create_surface_def)
    next
      case id: False
      let ?s = "\<lparr>sf_id = cs_next_surface_id cs, sf_pid = pid, sf_realm_kind = kind, sf_title = title,
        sf_x = x, sf_y = y, sf_width = w, sf_height = h, sf_mode = mode, sf_pixels = replicate (w * h) 0\<rparr>"
      show ?thesis
        by (rule created [of ?s]) (use assms Some p c id place_surface_y [OF p] in
            \<open>simp_all add: create_surface_def surface_ok_def Let_def\<close>)
    qed
  qed
qed

lemma create_surface_ok:
  assumes "comp_ok cs" "create_surface pid kind title w0 h0 mode cs = Ok (r, cs')"
  shows "comp_ok cs'" "cs_framebuffer cs' = cs_framebuffer cs" "cs_signature cs' = cs_signature cs"
proof -
  from assms(2) have "comp_ok cs' \<and> cs_framebuffer cs' = cs_framebuffer cs \<and> cs_signature cs' = cs_signature cs"
  proof (cases rule: create_surface_cases)
    case (created s)
    let ?cs = "cs\<lparr>cs_next_surface_id := cs_next_surface_id cs + 1, cs_surfaces := cs_surfaces cs @ [s],
             cs_focused := Some (cs_next_surface_id cs)\<rparr>"
    have "unat (cs_next_surface_id cs) \<noteq> unat (- 1 :: u64)" using created(7) by (simp only: word_unat_eq_iff) simp
    then have "Suc (unat (cs_next_surface_id cs)) < 2 ^ 64"
      using unat_bound [of "cs_next_surface_id cs"] by (simp add: unsigned_minus_1_eq_mask mask_eq_exp_minus_1)
    then have n: "cs_next_surface_id cs < cs_next_surface_id cs + 1"
      by (simp add: word_less_nat_alt unat_inc)
    have "comp_ok ?cs"
      using assms(1) created(1,5) n by (auto simp: comp_ok_def list_all_iff)
    moreover have "relayout ?cs = Ok cs'" using created(8) by (auto simp: outcome_simps dest: sym)
    ultimately show ?thesis using relayout_ok [of ?cs cs'] by simp
  qed (use assms in auto)
  then show "comp_ok cs'" "cs_framebuffer cs' = cs_framebuffer cs" "cs_signature cs' = cs_signature cs" by blast+
qed

lemma remove_surfaces_ok:
  assumes "comp_ok cs" "remove_surfaces_for pid cs = Ok cs'"
  shows "comp_ok cs'" "cs_framebuffer cs' = cs_framebuffer cs" "pid \<notin> set (map sf_pid (cs_surfaces cs'))"
proof -
  let ?kept = "filter (\<lambda>s. sf_pid s \<noteq> pid) (cs_surfaces cs)"
  obtain f where rl: "relayout (cs\<lparr>cs_surfaces := ?kept, cs_focused := f\<rparr>) = Ok cs'"
    using assms(2) by (auto simp: remove_surfaces_for_def Let_def)
  have "comp_ok (cs\<lparr>cs_surfaces := ?kept, cs_focused := f\<rparr>)"
    using assms(1) by (auto simp: comp_ok_def list_all_iff distinct_map intro: inj_on_subset)
  note k = relayout_ok [OF this rl]
  then show "comp_ok cs'" "cs_framebuffer cs' = cs_framebuffer cs" by simp_all
  show "pid \<notin> set (map sf_pid (cs_surfaces cs'))" unfolding k(7) by auto
qed

lemma draw_surface_ok:
  assumes "surface_ok s"
  shows "\<exists>m'. draw_surface fb t s m = Ok m'"
proof -
  have "(row - sf_y s) * sf_width s + (column - sf_x s) < length (sf_pixels s)"
    if "sf_x s \<le> column" "column < sf_x s + sf_width s" "sf_y s \<le> row" "row < sf_y s + sf_height s" for column row
  proof -
    have "column - sf_x s < sf_width s" "Suc (row - sf_y s) \<le> sf_height s" using that by auto
    then have "(row - sf_y s) * sf_width s + (column - sf_x s) < Suc (row - sf_y s) * sf_width s" by simp
    also have "\<dots> \<le> sf_height s * sf_width s" using \<open>Suc (row - sf_y s) \<le> sf_height s\<close> by (rule mult_le_mono1)
    finally show ?thesis using assms by (simp add: surface_ok_def mult.commute)
  qed
  then show ?thesis
    by (auto simp: draw_surface_def content_region_def Let_def list_all_iff rect_pixels_set)
qed

lemma draw_surfaces_ok: "list_all surface_ok ss \<Longrightarrow> \<exists>m'. draw_surfaces fb t ss m = Ok m'"
proof (induction ss arbitrary: m)
  case (Cons s ss)
  obtain m1 where "draw_surface fb t s m = Ok m1" using draw_surface_ok Cons.prems by fastforce
  with Cons show ?case by simp
qed simp

lemma set_layout_ok:
  assumes "comp_ok cs" "set_layout l cs = Ok cs'"
  shows "comp_ok cs'" "cs_framebuffer cs' = cs_framebuffer cs" "cs_theme cs' = cs_theme cs"
    "cs_signature cs' = cs_signature cs" "cs_focused cs' = cs_focused cs"
    "map sf_id (cs_surfaces cs') = map sf_id (cs_surfaces cs)"
    "map sf_realm_kind (cs_surfaces cs') = map sf_realm_kind (cs_surfaces cs)"
proof -
  have ok: "comp_ok (cs\<lparr>cs_layout := l\<rparr>)" using assms(1) by (simp add: comp_ok_def)
  have "cs' = cs \<or> relayout (cs\<lparr>cs_layout := l\<rparr>) = Ok cs'"
    using assms(2) by (auto simp: set_layout_def split: if_splits)
  then have "comp_ok cs' \<and> cs_framebuffer cs' = cs_framebuffer cs \<and> cs_theme cs' = cs_theme cs \<and>
    cs_signature cs' = cs_signature cs \<and> cs_focused cs' = cs_focused cs \<and>
    map sf_id (cs_surfaces cs') = map sf_id (cs_surfaces cs) \<and>
    map sf_realm_kind (cs_surfaces cs') = map sf_realm_kind (cs_surfaces cs)"
  proof
    assume "relayout (cs\<lparr>cs_layout := l\<rparr>) = Ok cs'"
    from relayout_ok [OF ok this] show ?thesis by simp
  qed (use assms(1) in simp)
  then show "comp_ok cs'" "cs_framebuffer cs' = cs_framebuffer cs" "cs_theme cs' = cs_theme cs"
    "cs_signature cs' = cs_signature cs" "cs_focused cs' = cs_focused cs"
    "map sf_id (cs_surfaces cs') = map sf_id (cs_surfaces cs)"
    "map sf_realm_kind (cs_surfaces cs') = map sf_realm_kind (cs_surfaces cs)" by blast+
qed

lemma draw_frame_bar:
  assumes "draw_frame cs inp m = Ok (cs', m')" "cs_framebuffer cs = Some fb"
  shows "same_on (trust_bar_cells fb) m' (draw_trust_bar fb (cs_theme cs) (focused_realm cs) (cs_signature cs) (\<lambda>_. 0))"
    "cs' = cs\<lparr>cs_frames := cs_frames cs + 1\<rparr>"
  using assms trust_bar_same by (auto simp: draw_frame_def content_region_def Let_def outcome_simps)

lemma draw_frame_ok: "comp_ok cs \<Longrightarrow> \<exists>r. draw_frame cs inp m = Ok r"
proof (cases "cs_framebuffer cs")
  case (Some fb)
  assume "comp_ok cs"
  then have "list_all surface_ok (cs_surfaces cs)" by (simp add: comp_ok_def)
  from draw_surfaces_ok [OF this, of fb "cs_theme cs"] Some show ?thesis
    by (simp add: draw_frame_def content_region_def Let_def) (metis obind.simps(1))
qed (simp add: draw_frame_def)

lemma focused_realm_cong:
  assumes "map sf_id ss = map sf_id ss'" "map sf_realm_kind ss = map sf_realm_kind ss'"
  shows "map_option sf_realm_kind (List.find (\<lambda>s. sf_id s = f) ss) = map_option sf_realm_kind (List.find (\<lambda>s. sf_id s = f) ss')"
  using assms
proof (induction ss arbitrary: ss')
  case (Cons s ss)
  then show ?case by (cases ss') auto
qed simp

lemma toggle_keeps:
  assumes "comp_ok cs" "(if toggle then toggle_layout cs else Ok cs) = Ok cs1"
  shows "comp_ok cs1" "cs_framebuffer cs1 = cs_framebuffer cs" "cs_theme cs1 = cs_theme cs"
    "cs_signature cs1 = cs_signature cs" "focused_realm cs1 = focused_realm cs"
proof -
  have "comp_ok cs1 \<and> cs_framebuffer cs1 = cs_framebuffer cs \<and> cs_theme cs1 = cs_theme cs \<and>
    cs_signature cs1 = cs_signature cs \<and> focused_realm cs1 = focused_realm cs"
  proof (cases toggle)
    case True
    then obtain l where "set_layout l cs = Ok cs1" using assms(2) by (auto simp: toggle_layout_def)
    note k = set_layout_ok [OF assms(1) this]
    show ?thesis
      using k(1-5) focused_realm_cong [OF k(6,7)] by (simp add: focused_realm_def split: option.splits)
  qed (use assms in simp)
  then show "comp_ok cs1" "cs_framebuffer cs1 = cs_framebuffer cs" "cs_theme cs1 = cs_theme cs"
    "cs_signature cs1 = cs_signature cs" "focused_realm cs1 = focused_realm cs" by blast+
qed

section \<open>Properties\<close>

text \<open>C22. The trust bar cannot be forged. Whatever the surfaces contain and wherever they are placed, after
  a frame is presented every byte of the reserved strip is the one that the kernel's own drawing of
  the bar puts there: it depends on the theme, the boot signature and the Realm of the focused
  surface, and on nothing a program drew. And with well-formed surfaces and no pending change of
  layout, presenting a frame does not panic.\<close>

theorem trust_bar_unforgeable:
  assumes "comp_ok cs" "cs_framebuffer cs = Some fb"
  shows "(\<forall>cs' inp' m'. present cs inp m = Ok (cs', inp', m') \<longrightarrow>
      comp_ok cs' \<and>
      same_on (trust_bar_cells fb) m' (draw_trust_bar fb (cs_theme cs) (focused_realm cs) (cs_signature cs) (\<lambda>_. 0))) \<and>
    (\<not> in_layout_toggle inp \<longrightarrow> (\<exists>r. present cs inp m = Ok r))"
proof -
  have "comp_ok cs' \<and> same_on (trust_bar_cells fb) m'
      (draw_trust_bar fb (cs_theme cs) (focused_realm cs) (cs_signature cs) (\<lambda>_. 0))"
    if p: "present cs inp m = Ok (cs', inp', m')" for cs' inp' m'
  proof -
    obtain cs1 where c1: "(if in_layout_toggle inp then toggle_layout cs else Ok cs) = Ok cs1"
      and d: "draw_frame cs1 (inp\<lparr>in_layout_toggle := False\<rparr>) m = Ok (cs', m')"
      using p unfolding present_def take_layout_toggle_def prod.case outcome_simps by auto
    note k = toggle_keeps [OF assms(1) c1]
    have fb: "cs_framebuffer cs1 = Some fb" using k(2) assms(2) by simp
    from draw_frame_bar [OF d fb] k show ?thesis by (simp add: comp_ok_def)
  qed
  moreover have "\<exists>r. present cs inp m = Ok r" if "\<not> in_layout_toggle inp"
    using draw_frame_ok [OF assms(1), of "inp\<lparr>in_layout_toggle := False\<rparr>" m] that
    by (auto simp: present_def take_layout_toggle_def)
  ultimately show ?thesis by blast
qed

definition demo_fb :: framebuffer where
  "demo_fb = \<lparr>fb_width = 1280, fb_height = 720, fb_stride = 5120, fb_bytes_per_pixel = 4, fb_format = Bgr,
     fb_len = 5120 * 720\<rparr>"

definition demo_window :: surface where
  "demo_window = \<lparr>sf_id = 1, sf_pid = 7, sf_realm_kind = KIND_HOME, sf_title = [], sf_x = 0, sf_y = 0,
     sf_width = 2, sf_height = 1, sf_mode = Windowed, sf_pixels = [0xFF0000, 0xFF00]\<rparr>"

theorem trust_bar_unforgeable_witness:
  "\<exists>cs' inp' m'.
     present (compositor_static\<lparr>cs_framebuffer := Some demo_fb, cs_surfaces := [demo_window\<lparr>sf_y := 25\<rparr>],
         cs_next_surface_id := 2\<rparr>) input_init (\<lambda>_. 3) = Ok (cs', inp', m') \<and>
     same_on (trust_bar_cells demo_fb) m'
       (draw_trust_bar demo_fb THEME_DEFAULT None (replicate SIGNATURE_BLOCKS (rgb 0 0 0)) (\<lambda>_. 0))"
proof -
  let ?cs = "compositor_static\<lparr>cs_framebuffer := Some demo_fb, cs_surfaces := [demo_window\<lparr>sf_y := 25\<rparr>], cs_next_surface_id := 2\<rparr>"
  have ok: "comp_ok ?cs" "cs_framebuffer ?cs = Some demo_fb"
    by (simp_all add: comp_ok_def surface_ok_def demo_window_def TRUST_BAR_HEIGHT_def)
  note t = trust_bar_unforgeable [OF ok, of input_init "\<lambda>_. 3"]
  have "\<not> in_layout_toggle input_init" by (simp add: input_init_def)
  then obtain cs' inp' m' where p: "present ?cs input_init (\<lambda>_. 3) = Ok (cs', inp', m')" using t by auto
  with t have "same_on (trust_bar_cells demo_fb) m'
      (draw_trust_bar demo_fb (cs_theme ?cs) (focused_realm ?cs) (cs_signature ?cs) (\<lambda>_. 0))" by blast
  with p show ?thesis by (auto simp: compositor_static_def focused_realm_def)
qed

lemma tile_rects_step:
  "2 \<le> n \<Longrightarrow> tile_rects n x y width height =
     (if width \<ge> height
      then (if width < TILE_GAP then Panic
            else obind (tile_rects (n - 1) (x + (width - TILE_GAP) div 2 + TILE_GAP) y
                   (width - ((width - TILE_GAP) div 2 + TILE_GAP)) height)
                   (\<lambda>rs. Ok ((x, y, (width - TILE_GAP) div 2, height) # rs)))
      else (if height < TILE_GAP then Panic
            else obind (tile_rects (n - 1) x (y + (height - TILE_GAP) div 2 + TILE_GAP) width
                   (height - ((height - TILE_GAP) div 2 + TILE_GAP)))
                   (\<lambda>rs. Ok ((x, y, width, (height - TILE_GAP) div 2) # rs))))"
proof -
  assume "2 \<le> n"
  then obtain m where n: "n = Suc (Suc m)" using le_Suc_ex [of 2 n] by (auto simp: numeral_2_eq_2)
  show ?thesis unfolding n by (simp add: Let_def)
qed

text \<open>C24. A program that may create windows can panic the kernel: on a 1280 by 720 screen in the tiling
  layout, creating the fifteenth window underflows the subtraction of the tile gap.\<close>

theorem tiling_creation_panics:
  assumes "cs_framebuffer cs = Some fb" "fb_width fb = 1280" "fb_height fb = 720" "cs_layout cs = Tiling"
    and "length (filter (\<lambda>s. sf_mode s = Windowed) (cs_surfaces cs)) = 14"
    and "0 < width" "0 < height"
  shows "create_surface pid kind title width height Windowed cs = Panic"
proof -
  have tiles: "tile_rects 15 6 26 1268 688 = Panic"
    by (simp add: tile_rects_step TILE_GAP_def)
  from refl [of "create_surface pid kind title width height Windowed cs"] show ?thesis
  proof (cases rule: create_surface_cases)
    case refused
    have "min width 1280 * min height 700 \<le> 1280 * 700" by (intro mult_le_mono) simp_all
    then have "min width 1280 * min height 700 < usize_lim" "\<not> MAX_SURFACE_PIXELS < min width 1280 * min height 700"
      by (simp_all add: usize_lim_def MAX_SURFACE_PIXELS_def)
    then have False using assms refused
      by (auto simp: create_surface_def place_surface_def content_region_def Let_def TRUST_BAR_HEIGHT_def checked_mul_def
          outcome_simps split: if_splits)
    then show ?thesis ..
  next
    case (created s)
    have "relayout (cs\<lparr>cs_next_surface_id := cs_next_surface_id cs + 1, cs_surfaces := cs_surfaces cs @ [s],
             cs_focused := Some (cs_next_surface_id cs)\<rparr>) = Panic"
      using assms created(4) tiles
      by (simp add: relayout_def content_region_def Let_def TILE_GAP_def TRUST_BAR_HEIGHT_def)
    then show ?thesis using created(8) by simp
  qed
qed

definition demo_tiled :: compositor_state where
  "demo_tiled = compositor_static\<lparr>cs_framebuffer := Some demo_fb, cs_layout := Tiling,
     cs_surfaces := replicate 14 demo_window\<rparr>"

theorem tiling_creation_panics_witness:
  "create_surface 7 KIND_HOME [] 100 100 Windowed demo_tiled = Panic"
proof -
  have "cs_framebuffer demo_tiled = Some demo_fb" "fb_width demo_fb = 1280" "fb_height demo_fb = 720"
    "cs_layout demo_tiled = Tiling" "length (filter (\<lambda>s. sf_mode s = Windowed) (cs_surfaces demo_tiled)) = 14"
    by (simp_all add: demo_tiled_def demo_fb_def demo_window_def)
  from tiling_creation_panics [OF this] show ?thesis by simp
qed

text \<open>Commits touch the pixels of the named surface of the calling process only.\<close>

lemma put_pixels_simps:
  "map sf_id (put_pixels sid px ss) = map sf_id ss" "map sf_pid (put_pixels sid px ss) = map sf_pid ss"
  "length (put_pixels sid px ss) = length ss"
  by (induction ss) auto

lemma put_pixels_nth:
  "i < length ss \<Longrightarrow> sf_id (ss ! i) \<noteq> sid \<Longrightarrow> put_pixels sid px ss ! i = ss ! i"
proof (induction ss arbitrary: i)
  case (Cons s ss)
  then show ?case by (cases i) auto
qed simp

lemma put_pixels_ok:
  assumes "list_all surface_ok ss" "List.find (\<lambda>s. sf_id s = sid) ss = Some s" "length px = length (sf_pixels s)"
  shows "list_all surface_ok (put_pixels sid px ss)"
  using assms by (induction ss) (auto simp: surface_ok_def split: if_splits)

lemma pixel_words_length: "length (pixel_words bs) = length bs div 4"
  by (simp add: pixel_words_def)

lemma commit_ok:
  assumes "comp_ok cs" "commit_surface_from_user va_ok indices mmu mem sid pid ptr len cs = Ok (r, cs')"
  shows "comp_ok cs'" "cs_framebuffer cs' = cs_framebuffer cs"
    "\<forall>i < length (cs_surfaces cs). sf_pid (cs_surfaces cs ! i) \<noteq> pid \<longrightarrow> cs_surfaces cs' ! i = cs_surfaces cs ! i"
proof -
  have rej: "comp_ok (reject_commit cs)" using assms(1) by (simp add: reject_commit_def comp_ok_def)
  have "comp_ok cs' \<and> cs_framebuffer cs' = cs_framebuffer cs \<and>
    (\<forall>i < length (cs_surfaces cs). sf_pid (cs_surfaces cs ! i) \<noteq> pid \<longrightarrow> cs_surfaces cs' ! i = cs_surfaces cs ! i)"
  proof (cases "List.find (\<lambda>s. sf_id s = sid) (cs_surfaces cs)")
    case None
    then show ?thesis using assms by (simp add: commit_surface_from_user_def)
  next
    case (Some s)
    consider "cs' = cs \<or> cs' = reject_commit cs"
      | bs where "sf_pid s = pid" "length bs = length (sf_pixels s) * 4"
        "cs' = cs\<lparr>cs_surfaces := put_pixels sid (pixel_words bs) (cs_surfaces cs)\<rparr>"
    proof -
      let ?bs = "map (\<lambda>i. mem (ptr + word_of_nat i)) [0..<length (sf_pixels s) * 4]"
      have "(cs' = cs \<or> cs' = reject_commit cs) \<or> (sf_pid s = pid \<and>
          cs' = cs\<lparr>cs_surfaces := put_pixels sid (pixel_words ?bs) (cs_surfaces cs)\<rparr>)"
        using assms(2) Some
        by (auto simp: commit_surface_from_user_def copy_from_user_into_def outcome_simps user_bytes_def split: if_splits)
      moreover have "length ?bs = length (sf_pixels s) * 4" by simp
      ultimately show ?thesis using that by blast
    qed
    then show ?thesis
    proof cases
      case 1
      then show ?thesis using assms(1) rej by (auto simp: reject_commit_def)
    next
      case (2 bs)
      let ?px = "pixel_words bs"
      have px: "length ?px = length (sf_pixels s)" using 2(2) by (simp add: pixel_words_length)
      have ok: "comp_ok cs'"
        unfolding 2(3)
        by (rule comp_ok_surfaces [OF assms(1)]) (use put_pixels_ok [OF _ Some px] assms(1) in
            \<open>simp_all add: comp_ok_def put_pixels_simps\<close>)
      have other: "sf_id (cs_surfaces cs ! i) \<noteq> sid" if "i < length (cs_surfaces cs)" "sf_pid (cs_surfaces cs ! i) \<noteq> pid" for i
      proof
        assume "sf_id (cs_surfaces cs ! i) = sid"
        moreover obtain j where "j < length (cs_surfaces cs)" "cs_surfaces cs ! j = s" "sf_id s = sid"
          using Some by (auto simp: find_Some_iff)
        ultimately have "i = j" using assms(1) that(1)
          by (auto simp: comp_ok_def distinct_conv_nth)
        with \<open>cs_surfaces cs ! j = s\<close> that(2) 2(1) show False by simp
      qed
      show ?thesis using ok other put_pixels_nth by (simp add: 2(3))
    qed
  qed
  then show "comp_ok cs'" "cs_framebuffer cs' = cs_framebuffer cs"
    "\<forall>i < length (cs_surfaces cs). sf_pid (cs_surfaces cs ! i) \<noteq> pid \<longrightarrow> cs_surfaces cs' ! i = cs_surfaces cs ! i"
    by blast+
qed

end
