(* ===== verification/Ipc.thy ===== *)
theory Ipc
  imports Machine BTreeMap Utf8
begin

text \<open>
  Message ports (\<^verbatim>\<open>kernel/src/ipc.rs\<close>): a system-wide table of named ports, each owned by the
  process that created it and holding a bounded queue of messages.
\<close>

definition MAX_NAME :: nat where "MAX_NAME = 64"
definition MAX_MESSAGE :: nat where "MAX_MESSAGE = 4096"
definition QUEUE_DEPTH :: nat where "QUEUE_DEPTH = 32"
definition MAX_PORTS :: nat where "MAX_PORTS = 128"

record message =
  ms_from :: u64
  ms_bytes :: bytes

record port =
  pt_handle :: u64
  pt_name :: bytes
  pt_owner :: u64
  pt_queue :: "message list"
  pt_dropped :: u64

datatype ipc_error = BadName | NameTaken | NotFound | BadHandle | TooLarge | WouldBlock | Exhausted

text \<open>\<^verbatim>\<open>NEXT_HANDLE\<close> and \<^verbatim>\<open>PORTS\<close>.\<close>

record ipc_state =
  ip_next :: u64
  ip_ports :: "(u64, port) btree"

definition ipc_init :: ipc_state where
  "ipc_init = \<lparr>ip_next = 1, ip_ports = bt_empty\<rparr>"

definition name_is_valid :: "bytes \<Rightarrow> bool" where
  "name_is_valid name \<longleftrightarrow>
     name \<noteq> [] \<and> length name \<le> MAX_NAME \<and> 0 \<notin> set name \<and>
     list_all (\<lambda>b. 0x21 \<le> b \<and> b \<le> 0x7e) name"

definition ipc_create :: "u64 \<Rightarrow> bytes \<Rightarrow> ipc_state \<Rightarrow> (ipc_error, u64) outcome \<times> ipc_state" where
  "ipc_create owner raw s =
     (if \<not> name_is_valid raw then (Err BadName, s)
      else
        (let name = from_utf8_lossy raw in
         if MAX_PORTS \<le> length (ip_ports s) then (Err Exhausted, s)
         else if \<exists>p \<in> set (bt_values (ip_ports s)). pt_name p = name then (Err NameTaken, s)
         else
           (let handle = ip_next s in
            (Ok handle,
             s\<lparr>ip_next := handle + 1,
               ip_ports := bt_insert (ip_ports s) handle
                 \<lparr>pt_handle = handle, pt_name = name, pt_owner = owner, pt_queue = [], pt_dropped = 0\<rparr>\<rparr>))))"

definition ipc_connect :: "bytes \<Rightarrow> ipc_state \<Rightarrow> (ipc_error, u64) outcome" where
  "ipc_connect raw s =
     (if \<not> name_is_valid raw then Err BadName
      else
        (let name = from_utf8_lossy raw in
         ok_or (map_option pt_handle (List.find (\<lambda>p. pt_name p = name) (bt_values (ip_ports s)))) NotFound))"

text \<open>Counting a refused send is a checked addition in the development profile.\<close>

definition ipc_send :: "u64 \<Rightarrow> u64 \<Rightarrow> bytes \<Rightarrow> ipc_state \<Rightarrow> (ipc_error, nat) outcome \<times> ipc_state" where
  "ipc_send from handle bytes s =
     (if length bytes > MAX_MESSAGE then (Err TooLarge, s)
      else
        (case bt_get (ip_ports s) handle of
           None \<Rightarrow> (Err BadHandle, s)
         | Some port \<Rightarrow>
             if QUEUE_DEPTH \<le> length (pt_queue port) then
               (if pt_dropped port = - 1 then (Panic, s)
                else (Err WouldBlock,
                      s\<lparr>ip_ports := bt_modify (ip_ports s) handle
                          (\<lambda>p. p\<lparr>pt_dropped := pt_dropped p + 1\<rparr>)\<rparr>))
             else
               (Ok (length bytes),
                s\<lparr>ip_ports := bt_modify (ip_ports s) handle
                    (\<lambda>p. p\<lparr>pt_queue := pt_queue p @ [\<lparr>ms_from = from, ms_bytes = bytes\<rparr>]\<rparr>)\<rparr>)))"

definition ipc_recv :: "u64 \<Rightarrow> u64 \<Rightarrow> ipc_state \<Rightarrow> (ipc_error, message) outcome \<times> ipc_state" where
  "ipc_recv receiver handle s =
     (case bt_get (ip_ports s) handle of
        None \<Rightarrow> (Err BadHandle, s)
      | Some port \<Rightarrow>
          if pt_owner port \<noteq> receiver then (Err BadHandle, s)
          else
            (case pt_queue port of
               [] \<Rightarrow> (Err WouldBlock, s)
             | m # rest \<Rightarrow>
                 (Ok m, s\<lparr>ip_ports := bt_modify (ip_ports s) handle (\<lambda>p. p\<lparr>pt_queue := rest\<rparr>)\<rparr>)))"

definition ipc_close :: "u64 \<Rightarrow> u64 \<Rightarrow> ipc_state \<Rightarrow> (ipc_error, unit) outcome \<times> ipc_state" where
  "ipc_close owner handle s =
     (case bt_get (ip_ports s) handle of
        Some port \<Rightarrow>
          if pt_owner port = owner
          then (Ok (), s\<lparr>ip_ports := bt_remove (ip_ports s) handle\<rparr>)
          else (Err BadHandle, s)
      | None \<Rightarrow> (Err BadHandle, s))"

definition close_all_for :: "u64 \<Rightarrow> ipc_state \<Rightarrow> ipc_state" where
  "close_all_for owner s = s\<lparr>ip_ports := bt_retain (ip_ports s) (\<lambda>p. pt_owner p \<noteq> owner)\<rparr>"

definition ipc_stats :: "ipc_state \<Rightarrow> nat \<times> nat \<times> nat" where
  "ipc_stats s =
     (length (ip_ports s),
      sum_list (map (\<lambda>p. length (pt_queue p)) (bt_values (ip_ports s))),
      sum_list (map (\<lambda>p. unat (pt_dropped p)) (bt_values (ip_ports s))))"

section \<open>Runs and their history\<close>

datatype ipc_op =
    OpCreate u64 bytes
  | OpConnect bytes
  | OpSend u64 u64 bytes
  | OpRecv u64 u64
  | OpClose u64 u64
  | OpCloseAll u64

datatype ipc_event =
    Created u64 u64 bytes
  | Sent u64 message
  | Delivered u64 u64 message
  | Panicked

text \<open>One operation on the table, recording what its caller was told.\<close>

fun ipc_exec :: "ipc_op \<Rightarrow> ipc_state \<times> ipc_event list \<Rightarrow> ipc_state \<times> ipc_event list" where
  "ipc_exec (OpCreate owner name) (s, log) =
     (case ipc_create owner name s of
        (Ok h, s') \<Rightarrow> (s', log @ [Created owner h name])
      | (Err _, s') \<Rightarrow> (s', log)
      | (Panic, s') \<Rightarrow> (s', log @ [Panicked]))"
| "ipc_exec (OpConnect name) (s, log) =
     (case ipc_connect name s of Panic \<Rightarrow> (s, log @ [Panicked]) | _ \<Rightarrow> (s, log))"
| "ipc_exec (OpSend from h bytes) (s, log) =
     (case ipc_send from h bytes s of
        (Ok _, s') \<Rightarrow> (s', log @ [Sent h \<lparr>ms_from = from, ms_bytes = bytes\<rparr>])
      | (Err _, s') \<Rightarrow> (s', log)
      | (Panic, s') \<Rightarrow> (s', log @ [Panicked]))"
| "ipc_exec (OpRecv receiver h) (s, log) =
     (case ipc_recv receiver h s of
        (Ok m, s') \<Rightarrow> (s', log @ [Delivered receiver h m])
      | (Err _, s') \<Rightarrow> (s', log)
      | (Panic, s') \<Rightarrow> (s', log @ [Panicked]))"
| "ipc_exec (OpClose owner h) (s, log) = (snd (ipc_close owner h s), log)"
| "ipc_exec (OpCloseAll owner) (s, log) = (close_all_for owner s, log)"

text \<open>The messages accepted on a handle, and those delivered from it, in order.\<close>

fun sent_on :: "u64 \<Rightarrow> ipc_event list \<Rightarrow> message list" where
  "sent_on h [] = []"
| "sent_on h (Sent h' m # log) = (if h' = h then m # sent_on h log else sent_on h log)"
| "sent_on h (_ # log) = sent_on h log"

fun delivered_on :: "u64 \<Rightarrow> ipc_event list \<Rightarrow> message list" where
  "delivered_on h [] = []"
| "delivered_on h (Delivered r h' m # log) = (if h' = h then m # delivered_on h log else delivered_on h log)"
| "delivered_on h (_ # log) = delivered_on h log"

lemma sent_on_append: "sent_on h (xs @ ys) = sent_on h xs @ sent_on h ys"
  by (induction h xs rule: sent_on.induct) auto

lemma delivered_on_append: "delivered_on h (xs @ ys) = delivered_on h xs @ delivered_on h ys"
  by (induction h xs rule: delivered_on.induct) auto

lemma sent_on_ev:
  "sent_on h [Created a b c] = []" "sent_on h [Delivered a b d] = []" "sent_on h [Panicked] = []"
  "sent_on h [Sent b d] = (if b = h then [d] else [])"
  "delivered_on h [Created a b c] = []" "delivered_on h [Sent b d] = []" "delivered_on h [Panicked] = []"
  "delivered_on h [Delivered a b d] = (if b = h then [d] else [])"
  by auto

lemmas history_simps = sent_on_append delivered_on_append sent_on_ev

section \<open>The invariant\<close>

definition port_ok :: "nat \<Rightarrow> u64 \<Rightarrow> u64 \<Rightarrow> port \<Rightarrow> bool" where
  "port_ok n next_handle h p \<longleftrightarrow>
     pt_handle p = h \<and> h < next_handle \<and> name_is_valid (pt_name p) \<and>
     length (pt_queue p) \<le> QUEUE_DEPTH \<and>
     (\<forall>m \<in> set (pt_queue p). length (ms_bytes m) \<le> MAX_MESSAGE) \<and>
     unat (pt_dropped p) \<le> n"

definition table_ok :: "nat \<Rightarrow> ipc_state \<Rightarrow> bool" where
  "table_ok n s \<longleftrightarrow>
     bt_wf (ip_ports s) \<and> unat (ip_next s) \<le> Suc n \<and>
     length (ip_ports s) \<le> MAX_PORTS \<and>
     (\<forall>h p. bt_get (ip_ports s) h = Some p \<longrightarrow> port_ok n (ip_next s) h p) \<and>
     (\<forall>h h' p p'. bt_get (ip_ports s) h = Some p \<longrightarrow> bt_get (ip_ports s) h' = Some p' \<longrightarrow>
        pt_name p = pt_name p' \<longrightarrow> h = h')"

definition history_ok :: "ipc_state \<Rightarrow> ipc_event list \<Rightarrow> bool" where
  "history_ok s log \<longleftrightarrow>
     Panicked \<notin> set log \<and>
     (\<forall>h p. bt_get (ip_ports s) h = Some p \<longrightarrow>
        sent_on h log = delivered_on h log @ pt_queue p \<and>
        Created (pt_owner p) h (pt_name p) \<in> set log) \<and>
     (\<forall>h. \<exists>rest. sent_on h log = delivered_on h log @ rest) \<and>
     (\<forall>h. ip_next s \<le> h \<longrightarrow> sent_on h log = []) \<and>
     (\<forall>o1 h nm. Created o1 h nm \<in> set log \<longrightarrow>
        h < ip_next s \<and> (\<forall>o2 nm'. Created o2 h nm' \<in> set log \<longrightarrow> o2 = o1 \<and> nm' = nm)) \<and>
     (\<forall>r h m. Delivered r h m \<in> set log \<longrightarrow> (\<exists>nm. Created r h nm \<in> set log))"

definition ipc_inv :: "nat \<Rightarrow> ipc_state \<times> ipc_event list \<Rightarrow> bool" where
  "ipc_inv n w \<longleftrightarrow> table_ok n (fst w) \<and> history_ok (fst w) (snd w)"

lemma lossy_valid_name: "name_is_valid name \<Longrightarrow> from_utf8_lossy name = name"
  by (intro lossy_ascii) (auto simp: name_is_valid_def list_all_iff word_le_nat_alt word_less_nat_alt)

lemma port_ok_mono: "port_ok n k h p \<Longrightarrow> n \<le> n' \<Longrightarrow> k \<le> k' \<Longrightarrow> port_ok n' k' h p"
  by (auto simp: port_ok_def)

lemma port_ok_Suc: "port_ok n k h p \<Longrightarrow> port_ok (Suc n) k h p"
  by (simp add: port_ok_def)

lemma table_ok_wf [intro]: "table_ok n s \<Longrightarrow> bt_wf (ip_ports s)"
  by (simp add: table_ok_def)

lemma table_ok_mono: "table_ok n s \<Longrightarrow> table_ok (Suc n) s"
  by (auto simp: table_ok_def intro: port_ok_Suc)

lemma name_free:
  assumes "bt_wf ports" "\<not> (\<exists>p \<in> set (bt_values ports). pt_name p = name)" "bt_get ports h = Some p"
  shows "pt_name p \<noteq> name"
  using assms bt_values_iff [OF assms(1), of p] by metis

lemma create_table:
  assumes ok: "table_ok n s" and n: "Suc n < 2 ^ 64 - 1" and res: "ipc_create owner name s = (r, s')"
  shows "table_ok (Suc n) s'"
proof (cases r)
  case (Ok h)
  let ?p = "\<lparr>pt_handle = ip_next s, pt_name = name, pt_owner = owner, pt_queue = [], pt_dropped = 0\<rparr>"
  have wf: "bt_wf (ip_ports s)" using ok by blast
  have v: "name_is_valid name" and len: "length (ip_ports s) < MAX_PORTS"
    and free: "\<not> (\<exists>p \<in> set (bt_values (ip_ports s)). pt_name p = name)"
    and s': "s' = s\<lparr>ip_next := ip_next s + 1, ip_ports := bt_insert (ip_ports s) (ip_next s) ?p\<rparr>"
    using res Ok by (auto simp: ipc_create_def Let_def lossy_valid_name split: if_splits)
  have u: "unat (ip_next s) \<le> Suc n" using ok by (simp add: table_ok_def)
  then have inc: "unat (ip_next s + 1) = Suc (unat (ip_next s))" using n by (intro unat_inc) simp
  then have lt: "ip_next s < ip_next s + 1" by (simp add: word_less_nat_alt)
  have fresh: "bt_get (ip_ports s) (ip_next s) = None"
    using ok by (cases "bt_get (ip_ports s) (ip_next s)") (auto simp: table_ok_def port_ok_def)
  have new: "port_ok (Suc n) (ip_next s + 1) (ip_next s) ?p"
    using v lt by (simp add: port_ok_def)
  have old: "port_ok (Suc n) (ip_next s + 1) h p" if "bt_get (ip_ports s) h = Some p" for h p
    using ok that lt port_ok_mono [of n "ip_next s" h p "Suc n" "ip_next s + 1"]
    by (auto simp: table_ok_def)
  have names: "h = h'"
    if "bt_get (bt_insert (ip_ports s) (ip_next s) ?p) h = Some p"
      "bt_get (bt_insert (ip_ports s) (ip_next s) ?p) h' = Some p'" "pt_name p = pt_name p'" for h h' p p'
  proof -
    have "bt_get (ip_ports s) k = Some q \<Longrightarrow> pt_name q \<noteq> name" for k q
      using name_free [OF wf free] by blast
    then have free': "bt_get (ip_ports s) k = Some q \<Longrightarrow> pt_name q = name \<Longrightarrow> False" for k q
      by blast
    from that ok show ?thesis
      by (auto simp: bt_get_simps wf table_ok_def split: if_splits dest: free')
  qed
  have ports: "port_ok (Suc n) (ip_next s + 1) h p"
    if "bt_get (bt_insert (ip_ports s) (ip_next s) ?p) h = Some p" for h p
    using that new old by (auto simp: bt_get_simps wf split: if_splits)
  show ?thesis
    unfolding table_ok_def s'
    using wf len u inc bt.size_insert_fresh [OF wf fresh, of ?p] names ports by simp
qed (use res ok in \<open>auto simp: ipc_create_def Let_def intro: table_ok_mono split: if_splits\<close>)

lemma modify_table:
  assumes ok: "table_ok n s" and get: "bt_get (ip_ports s) h = Some p"
    and f: "pt_handle (f p) = pt_handle p" "pt_name (f p) = pt_name p"
      "length (pt_queue (f p)) \<le> QUEUE_DEPTH" "unat (pt_dropped (f p)) \<le> Suc n"
      "\<forall>m \<in> set (pt_queue (f p)). length (ms_bytes m) \<le> MAX_MESSAGE"
  shows "table_ok (Suc n) (s\<lparr>ip_ports := bt_modify (ip_ports s) h f\<rparr>)"
proof -
  have wf: "bt_wf (ip_ports s)" using ok by blast
  have pk: "port_ok n (ip_next s) h p" using ok get by (simp add: table_ok_def)
  then have "port_ok (Suc n) (ip_next s) h (f p)" using f by (simp add: port_ok_def)
  moreover have "port_ok (Suc n) (ip_next s) k q" if "bt_get (ip_ports s) k = Some q" for k q
    using ok that by (auto simp: table_ok_def intro: port_ok_Suc)
  ultimately show ?thesis
    using ok wf f(2) get bt.size_modify [OF wf, of h f]
    by (auto simp: table_ok_def bt_get_simps split: if_splits)
qed

lemma dropped_inc:
  "unat (pt_dropped p) \<le> n \<Longrightarrow> pt_dropped p \<noteq> - 1 \<Longrightarrow> unat (pt_dropped p + 1) \<le> Suc n"
  using unatSuc [of "pt_dropped p"] by (simp add: add.commute eq_neg_iff_add_eq_0)

lemma send_cases:
  assumes "ipc_send from h bytes s = (r, s')"
  obtains (refused) e where "r = Err e" "s' = s"
  | (full) p where "bt_get (ip_ports s) h = Some p" "r = Err WouldBlock" "pt_dropped p \<noteq> - 1"
      "s' = s\<lparr>ip_ports := bt_modify (ip_ports s) h (\<lambda>p. p\<lparr>pt_dropped := pt_dropped p + 1\<rparr>)\<rparr>"
  | (overflow) p where "bt_get (ip_ports s) h = Some p" "r = Panic" "pt_dropped p = - 1" "s' = s"
  | (accepted) p where "bt_get (ip_ports s) h = Some p" "r = Ok (length bytes)"
      "length bytes \<le> MAX_MESSAGE" "length (pt_queue p) < QUEUE_DEPTH"
      "s' = s\<lparr>ip_ports := bt_modify (ip_ports s) h
         (\<lambda>p. p\<lparr>pt_queue := pt_queue p @ [\<lparr>ms_from = from, ms_bytes = bytes\<rparr>]\<rparr>)\<rparr>"
proof (cases "MAX_MESSAGE < length bytes")
  case True
  with assms show ?thesis by (intro refused [of TooLarge]) (simp_all add: ipc_send_def)
next
  case small: False
  show ?thesis
  proof (cases "bt_get (ip_ports s) h")
    case None
    with assms small show ?thesis by (intro refused [of BadHandle]) (simp_all add: ipc_send_def)
  next
    case (Some p)
    show ?thesis
    proof (cases "length (pt_queue p) < QUEUE_DEPTH")
      case True
      with assms small Some show ?thesis by (intro accepted) (auto simp: ipc_send_def)
    next
      case False
      with assms small Some show ?thesis
        by (cases "pt_dropped p = - 1") (auto simp: ipc_send_def intro: full overflow)
    qed
  qed
qed

lemma recv_cases:
  assumes "ipc_recv receiver h s = (r, s')"
  obtains (refused) e where "r = Err e" "s' = s"
  | (delivered) p m rest where "bt_get (ip_ports s) h = Some p" "pt_owner p = receiver"
      "pt_queue p = m # rest" "r = Ok m"
      "s' = s\<lparr>ip_ports := bt_modify (ip_ports s) h (\<lambda>p. p\<lparr>pt_queue := rest\<rparr>)\<rparr>"
proof (cases "bt_get (ip_ports s) h")
  case None
  with assms show ?thesis by (intro refused [of BadHandle]) (simp_all add: ipc_recv_def)
next
  case (Some p)
  with assms show ?thesis
    by (cases "pt_owner p = receiver"; cases "pt_queue p")
      (auto simp: ipc_recv_def intro: refused delivered)
qed

lemma table_port: "table_ok n s \<Longrightarrow> bt_get (ip_ports s) h = Some p \<Longrightarrow> port_ok n (ip_next s) h p"
  by (simp add: table_ok_def)

lemma send_table:
  assumes ok: "table_ok n s" and res: "ipc_send from h bytes s = (r, s')"
  shows "table_ok (Suc n) s'"
  using res
proof (cases rule: send_cases)
  case (full p)
  show ?thesis
    unfolding full(4) using table_port [OF ok full(1)] dropped_inc [OF _ full(3), of n]
    by (intro modify_table [OF ok full(1)]) (simp_all add: port_ok_def)
next
  case (accepted p)
  show ?thesis
    unfolding accepted(5) using table_port [OF ok accepted(1)] accepted(3,4)
    by (intro modify_table [OF ok accepted(1)]) (auto simp: port_ok_def)
qed (use table_ok_mono [OF ok] in simp_all)

lemma recv_table:
  assumes ok: "table_ok n s" and res: "ipc_recv receiver h s = (r, s')"
  shows "table_ok (Suc n) s'"
  using res
proof (cases rule: recv_cases)
  case (delivered p m rest)
  show ?thesis
    unfolding delivered(5) using table_port [OF ok delivered(1)] delivered(3)
    by (intro modify_table [OF ok delivered(1)]) (simp_all add: port_ok_def)
qed (use table_ok_mono [OF ok] in simp)

lemma sub_table:
  assumes ok: "table_ok n s" and wf: "bt_wf ports" and len: "length ports \<le> length (ip_ports s)"
    and sub: "\<And>h p. bt_get ports h = Some p \<Longrightarrow> bt_get (ip_ports s) h = Some p"
  shows "table_ok (Suc n) (s\<lparr>ip_ports := ports\<rparr>)"
  using table_ok_mono [OF ok] wf len sub unfolding table_ok_def by fastforce

lemma close_table:
  assumes "table_ok n s"
  shows "table_ok (Suc n) (snd (ipc_close owner h s))"
proof -
  have wf: "bt_wf (ip_ports s)" using assms by blast
  have "table_ok (Suc n) (s\<lparr>ip_ports := bt_remove (ip_ports s) h\<rparr>)"
    using wf bt.size_remove_le [OF wf]
    by (intro sub_table [OF assms]) (auto simp: bt_get_simps split: if_splits)
  then show ?thesis
    using table_ok_mono [OF assms] by (simp add: ipc_close_def split: option.splits)
qed

lemma close_all_table:
  assumes "table_ok n s"
  shows "table_ok (Suc n) (close_all_for owner s)"
proof -
  have wf: "bt_wf (ip_ports s)" using assms by blast
  show ?thesis
    using wf bt.size_retain_le [OF wf] unfolding close_all_for_def
    by (intro sub_table [OF assms]) (auto simp: bt_get_simps)
qed

section \<open>The history\<close>

lemma history_dest:
  assumes "history_ok s log"
  shows "Panicked \<notin> set log"
    "bt_get (ip_ports s) h = Some p \<Longrightarrow> sent_on h log = delivered_on h log @ pt_queue p"
    "bt_get (ip_ports s) h = Some p \<Longrightarrow> Created (pt_owner p) h (pt_name p) \<in> set log"
    "\<exists>rest. sent_on h log = delivered_on h log @ rest"
    "ip_next s \<le> h \<Longrightarrow> sent_on h log = []"
    "Created o1 h nm \<in> set log \<Longrightarrow> h < ip_next s"
    "Created o1 h nm \<in> set log \<Longrightarrow> Created o2 h nm' \<in> set log \<Longrightarrow> o2 = o1 \<and> nm' = nm"
    "Delivered r h m \<in> set log \<Longrightarrow> \<exists>nm. Created r h nm \<in> set log"
  using assms unfolding history_ok_def by blast+

lemma history_intro:
  assumes "Panicked \<notin> set log"
    "\<And>h p. bt_get (ip_ports s) h = Some p \<Longrightarrow>
       sent_on h log = delivered_on h log @ pt_queue p \<and> Created (pt_owner p) h (pt_name p) \<in> set log"
    "\<And>h. \<exists>rest. sent_on h log = delivered_on h log @ rest"
    "\<And>h. ip_next s \<le> h \<Longrightarrow> sent_on h log = []"
    "\<And>o1 h nm. Created o1 h nm \<in> set log \<Longrightarrow> h < ip_next s"
    "\<And>o1 h nm o2 nm'. Created o1 h nm \<in> set log \<Longrightarrow> Created o2 h nm' \<in> set log \<Longrightarrow> o2 = o1 \<and> nm' = nm"
    "\<And>r h m. Delivered r h m \<in> set log \<Longrightarrow> \<exists>nm. Created r h nm \<in> set log"
  shows "history_ok s log"
  unfolding history_ok_def using assms by blast

lemma history_sub:
  assumes "history_ok s log" "ip_next s' = ip_next s"
    "\<And>h p. bt_get (ip_ports s') h = Some p \<Longrightarrow> \<exists>q. bt_get (ip_ports s) h = Some q \<and>
       pt_queue q = pt_queue p \<and> pt_owner q = pt_owner p \<and> pt_name q = pt_name p"
  shows "history_ok s' log"
proof (rule history_intro)
  fix h p assume "bt_get (ip_ports s') h = Some p"
  then obtain q where "bt_get (ip_ports s) h = Some q" "pt_queue q = pt_queue p"
    "pt_owner q = pt_owner p" "pt_name q = pt_name p" using assms(3) by blast
  then show "sent_on h log = delivered_on h log @ pt_queue p \<and> Created (pt_owner p) h (pt_name p) \<in> set log"
    using history_dest(2,3) [OF assms(1)] by metis
qed (use history_dest [OF assms(1)] assms(2) in auto)

lemma create_history:
  assumes ok: "table_ok n s" and hist: "history_ok s log" and n: "Suc n < 2 ^ 64 - 1"
    and res: "ipc_create owner name s = (Ok h, s')"
  shows "history_ok s' (log @ [Created owner h name])"
proof -
  let ?p = "\<lparr>pt_handle = ip_next s, pt_name = name, pt_owner = owner, pt_queue = [], pt_dropped = 0\<rparr>"
  have wf: "bt_wf (ip_ports s)" using ok by blast
  have s': "s' = s\<lparr>ip_next := ip_next s + 1, ip_ports := bt_insert (ip_ports s) (ip_next s) ?p\<rparr>"
    and h: "h = ip_next s"
    using res by (auto simp: ipc_create_def Let_def lossy_valid_name split: if_splits)
  have "unat (ip_next s + 1) = Suc (unat (ip_next s))"
    using ok n by (intro unat_inc) (simp add: table_ok_def)
  then have lt: "k < ip_next s + 1 \<longleftrightarrow> k \<le> ip_next s" "ip_next s + 1 \<le> k \<Longrightarrow> ip_next s \<le> k" for k
    by (auto simp: word_less_nat_alt word_le_nat_alt)
  note H = history_dest [OF hist]
  have e: "sent_on (ip_next s) log = []" using H(5) by simp
  then have e': "delivered_on (ip_next s) log = []" using H(4) [of "ip_next s"] by simp
  have fresh: "Created o1 (ip_next s) nm \<in> set log \<Longrightarrow> False" for o1 nm
    using H(6) by blast
  show ?thesis
    unfolding s' h
  proof (rule history_intro, goal_cases)
    case (2 k p)
    then show ?case
      using e e' H(2,3) by (auto simp: history_simps bt_get_simps wf split: if_splits)
  next
    case (5 o1 k nm)
    then show ?case using H(6) [of o1 k nm] lt(1) [of k] by auto
  next
    case (6 o1 k nm o2 nm')
    then show ?case by (auto dest: fresh H(7))
  next
    case (7 r k m)
    then show ?case using H(8) [of r k m] by auto
  qed (use H lt(2) in \<open>auto simp: history_simps\<close>)
qed

lemma send_history:
  assumes ok: "table_ok n s" and hist: "history_ok s log" and n: "n < 2 ^ 64 - 1"
    and res: "ipc_send from h bytes s = (r, s')"
  shows "r \<noteq> Panic" "history_ok s' (case r of Ok _ \<Rightarrow> log @ [Sent h \<lparr>ms_from = from, ms_bytes = bytes\<rparr>] | _ \<Rightarrow> log)"
proof -
  have wf: "bt_wf (ip_ports s)" using ok by blast
  have dropped: "pt_dropped p \<noteq> - 1" if "bt_get (ip_ports s) k = Some p" for k p
    using table_port [OF ok that] n by (auto simp: port_ok_def unsigned_minus_1_eq_mask mask_eq_exp_minus_1)
  show "r \<noteq> Panic" using res dropped by (cases rule: send_cases) auto
  show "history_ok s' (case r of Ok _ \<Rightarrow> log @ [Sent h \<lparr>ms_from = from, ms_bytes = bytes\<rparr>] | _ \<Rightarrow> log)"
    using res
  proof (cases rule: send_cases)
    case (full p)
    then show ?thesis by (auto simp: bt_get_simps wf intro!: history_sub [OF hist] split: if_splits)
  next
    case (accepted p)
    have lt: "h < ip_next s" using table_port [OF ok accepted(1)] by (simp add: port_ok_def)
    note H = history_dest [OF hist]
    show ?thesis
      unfolding accepted(2,5) outcome.case
    proof (rule history_intro, goal_cases)
      case (2 k p)
      then show ?case using H(2,3) by (auto simp: history_simps bt_get_simps wf split: if_splits)
    next
      case (3 k)
      obtain rest where "sent_on k log = delivered_on k log @ rest" using H(4) by blast
      then show ?case by (simp add: history_simps)
    next
      case (4 k)
      then show ?case using H(5) lt by (auto simp: history_simps)
    qed (use H in auto)
  qed (use hist dropped in auto)
qed

lemma recv_history:
  assumes ok: "table_ok n s" and hist: "history_ok s log" and res: "ipc_recv receiver h s = (r, s')"
  shows "r \<noteq> Panic" "history_ok s' (case r of Ok m \<Rightarrow> log @ [Delivered receiver h m] | _ \<Rightarrow> log)"
proof -
  have wf: "bt_wf (ip_ports s)" using ok by blast
  show "r \<noteq> Panic" using res by (cases rule: recv_cases) auto
  show "history_ok s' (case r of Ok m \<Rightarrow> log @ [Delivered receiver h m] | _ \<Rightarrow> log)"
    using res
  proof (cases rule: recv_cases)
    case (delivered p m rest)
    have q: "sent_on h log = delivered_on h log @ m # rest"
      and own: "Created receiver h (pt_name p) \<in> set log"
      using history_dest(2,3) [OF hist delivered(1)] delivered(2,3) by auto
    note H = history_dest [OF hist]
    show ?thesis
      unfolding delivered(4,5) outcome.case
    proof (rule history_intro, goal_cases)
      case (2 k p)
      then show ?case using q H(2,3) by (auto simp: history_simps bt_get_simps wf split: if_splits)
    next
      case (3 k)
      obtain rest where "sent_on k log = delivered_on k log @ rest" using H(4) by blast
      then show ?case using q by (auto simp: history_simps)
    next
      case (4 k)
      then show ?case using H(5) by (simp add: history_simps)
    next
      case (7 r k m)
      then show ?case using H(8) [of r k m] own by auto
    qed (use H in auto)
  qed (use hist in simp)
qed

lemma close_history:
  assumes "table_ok n s" "history_ok s log"
  shows "history_ok (snd (ipc_close owner h s)) log" "history_ok (close_all_for owner s) log"
proof -
  have wf: "bt_wf (ip_ports s)" using assms by blast
  have "ip_next (snd (ipc_close owner h s)) = ip_next s"
    by (simp add: ipc_close_def split: option.splits)
  moreover have "bt_get (ip_ports (snd (ipc_close owner h s))) k = Some p \<Longrightarrow>
      bt_get (ip_ports s) k = Some p" for k p
    by (auto simp: ipc_close_def bt_get_simps wf split: option.splits if_splits)
  ultimately show "history_ok (snd (ipc_close owner h s)) log"
    by (intro history_sub [OF assms(2)]) auto
  show "history_ok (close_all_for owner s) log"
    by (intro history_sub [OF assms(2)]) (auto simp: close_all_for_def bt_get_simps wf)
qed

section \<open>The port table as a machine\<close>

lemma ipc_inv_init: "ipc_inv 0 (ipc_init, [])"
  by (simp add: ipc_inv_def table_ok_def history_ok_def ipc_init_def bt.get_empty) (simp add: bt_empty_def)

lemma ipc_inv_exec:
  assumes inv: "ipc_inv n w" and n: "Suc n < 2 ^ 64 - 1"
  shows "ipc_inv (Suc n) (ipc_exec oper w)"
proof -
  obtain s log where w: "w = (s, log)" by force
  have ok: "table_ok n s" and hist: "history_ok s log" using inv by (auto simp: ipc_inv_def w)
  show ?thesis
  proof (cases oper)
    case (OpCreate owner name)
    obtain r s' where r: "ipc_create owner name s = (r, s')" by force
    show ?thesis
    proof (cases r)
      case (Ok h)
      then show ?thesis
        using create_table [OF ok n r] create_history [OF ok hist n] r
        by (simp add: ipc_inv_def w OpCreate)
    next
      case (Err e)
      then have "s' = s" using r by (auto simp: ipc_create_def Let_def split: if_splits)
      then show ?thesis
        using create_table [OF ok n r] hist r Err by (simp add: ipc_inv_def w OpCreate)
    next
      case Panic
      then show ?thesis using r by (auto simp: ipc_create_def Let_def split: if_splits)
    qed
  next
    case (OpConnect name)
    then show ?thesis
      using hist table_ok_mono [OF ok]
      by (auto simp: ipc_inv_def w ipc_connect_def Let_def split: outcome.splits)
  next
    case (OpSend sender h bytes)
    obtain r s' where r: "ipc_send sender h bytes s = (r, s')" by force
    show ?thesis
      using send_table [OF ok r] send_history [OF ok hist _ r] r n
      by (cases r) (simp_all add: ipc_inv_def w OpSend)
  next
    case (OpRecv receiver h)
    obtain r s' where r: "ipc_recv receiver h s = (r, s')" by force
    show ?thesis
      using recv_table [OF ok r] recv_history [OF ok hist r] r
      by (cases r) (simp_all add: ipc_inv_def w OpRecv)
  next
    case (OpClose owner h)
    then show ?thesis
      using close_table [OF ok] close_history [OF ok hist] by (simp add: ipc_inv_def w)
  next
    case (OpCloseAll owner)
    then show ?thesis
      using close_all_table [OF ok] close_history [OF ok hist] by (simp add: ipc_inv_def w)
  qed
qed

interpretation ipc: op_machine "(ipc_init, [])" ipc_exec ipc_inv "2 ^ 64 - 1"
  by unfold_locales (rule ipc_inv_init, rule ipc_inv_exec)

section \<open>Properties\<close>

text \<open>
  C11. The port table stays well formed under every interleaving of fewer than $2^{64} - 1$ calls by
  any processes: at most 128 ports, no two with the same name, every name 1 to 64 printable ASCII
  bytes, every port filed under its own handle, no queue longer than 32 messages and no message
  longer than 4096 bytes; and no call panics.
\<close>
theorem ipc_table_invariant:
  assumes "length ops < 2 ^ 64 - 1" "fold ipc_exec ops (ipc_init, []) = (s, log)"
  shows "length (ip_ports s) \<le> 128 \<and> Panicked \<notin> set log \<and>
    (\<forall>h p. bt_get (ip_ports s) h = Some p \<longrightarrow>
       pt_handle p = h \<and> name_is_valid (pt_name p) \<and> length (pt_queue p) \<le> 32 \<and>
       (\<forall>m \<in> set (pt_queue p). length (ms_bytes m) \<le> 4096) \<and>
       (\<forall>h' p'. bt_get (ip_ports s) h' = Some p' \<and> pt_name p' = pt_name p \<longrightarrow> h' = h))"
  using ipc.inv_run [OF assms(1)] unfolding assms(2)
  by (auto simp: ipc_inv_def table_ok_def port_ok_def history_ok_def MAX_PORTS_def QUEUE_DEPTH_def
      MAX_MESSAGE_def)

text \<open>A service, a client's two messages, one of them received, and a stranger who tries.\<close>

definition ipc_demo :: "ipc_op list" where
  "ipc_demo = [OpCreate 7 [0x61], OpSend 8 1 [1], OpSend 8 1 [2], OpRecv 9 1, OpRecv 7 1]"

lemma ipc_demo_run:
  "fold ipc_exec ipc_demo (ipc_init, []) =
     (\<lparr>ip_next = 2, ip_ports = [(1, \<lparr>pt_handle = 1, pt_name = [0x61], pt_owner = 7,
         pt_queue = [\<lparr>ms_from = 8, ms_bytes = [2]\<rparr>], pt_dropped = 0\<rparr>)]\<rparr>,
      [Created 7 1 [0x61], Sent 1 \<lparr>ms_from = 8, ms_bytes = [1]\<rparr>, Sent 1 \<lparr>ms_from = 8, ms_bytes = [2]\<rparr>,
       Delivered 7 1 \<lparr>ms_from = 8, ms_bytes = [1]\<rparr>])"
proof -
  have "name_is_valid [0x61]" by (simp add: name_is_valid_def MAX_NAME_def)
  then show ?thesis
    by (simp add: ipc_demo_def ipc_create_def ipc_send_def ipc_recv_def ipc_init_def lossy_valid_name
        bt_empty_def bt_values_def bt_get_def bt_modify_def MAX_PORTS_def MAX_MESSAGE_def QUEUE_DEPTH_def)
qed

theorem ipc_table_invariant_witness:
  "length ipc_demo < 2 ^ 64 - 1 \<and> name_is_valid [0x61]"
proof -
  have l: "length ipc_demo < 2 ^ 64 - 1" by (simp add: ipc_demo_def)
  show ?thesis using ipc_table_invariant [OF l ipc_demo_run] l by (force simp: bt_get_def)
qed

text \<open>
  C10. Ports are reliable FIFO channels with a single reader. At every moment of every run, for
  every port: the messages accepted on it are exactly those delivered, in the same order,
  followed by those still queued - nothing is lost, duplicated or reordered while the port
  lives, and after it is closed what was delivered is still a prefix of what was sent. Every
  message that was ever delivered went to the process that created the port.
\<close>
theorem ipc_fifo:
  assumes "length ops < 2 ^ 64 - 1" "fold ipc_exec ops (ipc_init, []) = (s, log)"
  shows "(\<forall>h p. bt_get (ip_ports s) h = Some p \<longrightarrow> sent_on h log = delivered_on h log @ pt_queue p) \<and>
    (\<forall>h. \<exists>rest. sent_on h log = delivered_on h log @ rest) \<and>
    (\<forall>r h m. Delivered r h m \<in> set log \<longrightarrow>
       (\<exists>nm. Created r h nm \<in> set log) \<and>
       (\<forall>r' nm. Created r' h nm \<in> set log \<longrightarrow> r' = r))"
proof -
  have "history_ok s log" using ipc.inv_run [OF assms(1)] by (simp add: ipc_inv_def assms(2))
  note H = history_dest [OF this]
  show ?thesis using H(2,4,8) H(7) by (intro conjI allI impI) (simp, blast+)
qed

theorem ipc_fifo_witness:
  "sent_on 1 (snd (fold ipc_exec ipc_demo (ipc_init, []))) =
     delivered_on 1 (snd (fold ipc_exec ipc_demo (ipc_init, []))) @ [\<lparr>ms_from = 8, ms_bytes = [2]\<rparr>]"
proof -
  have l: "length ipc_demo < 2 ^ 64 - 1" by (simp add: ipc_demo_def)
  show ?thesis
    using ipc_fifo [OF l ipc_demo_run] unfolding ipc_demo_run
    by (metis bt_get_def ipc_state.select_convs(2) map_of_Cons_code(2) port.select_convs(4) snd_conv)
qed

lemma close_all_get:
  assumes "bt_wf (ip_ports s)"
  shows "bt_get (ip_ports (close_all_for owner s)) k = Some q \<longleftrightarrow> bt_get (ip_ports s) k = Some q \<and> pt_owner q \<noteq> owner"
  by (simp add: close_all_for_def bt.retain_Some [OF assms])

lemma close_all_shrinks:
  assumes wf: "bt_wf (ip_ports s)" and p: "bt_get (ip_ports s) h = Some p"
  shows "length (ip_ports (close_all_for (pt_owner p) s)) < length (ip_ports s)"
proof -
  let ?s = "close_all_for (pt_owner p) s"
  have wf': "bt_wf (ip_ports ?s)" using wf by (simp add: close_all_for_def)
  have "dom (bt_get (ip_ports ?s)) \<subseteq> dom (bt_get (ip_ports s)) - {h}" using p by (auto simp: close_all_get [OF wf])
  then have "card (dom (bt_get (ip_ports ?s))) \<le> card (dom (bt_get (ip_ports s)) - {h})"
    using bt.finite_dom_get [OF wf] by (intro card_mono) auto
  also have "\<dots> < card (dom (bt_get (ip_ports s)))"
    using p bt.finite_dom_get [OF wf] by (intro card_Diff1_less) auto
  finally show ?thesis by (simp add: bt.size_is_card wf wf')
qed

text \<open>
  C12. A service can be restarted under its name: in a well-formed table, once everything a dead
  process owned is closed, creating a port under any name it held succeeds, for any owner, and
  connecting to that name then finds the new port; ports of other processes are untouched.
\<close>
theorem ipc_restart:
  assumes "table_ok n s" "bt_get (ip_ports s) h = Some p"
  shows "\<exists>s'. ipc_create owner (pt_name p) (close_all_for (pt_owner p) s) = (Ok (ip_next s), s') \<and>
    ipc_connect (pt_name p) s' = Ok (ip_next s) \<and>
    (\<forall>k q. bt_get (ip_ports s) k = Some q \<and> pt_owner q \<noteq> pt_owner p \<longrightarrow> bt_get (ip_ports s') k = Some q)"
proof -
  let ?s = "close_all_for (pt_owner p) s" and ?name = "pt_name p"
  let ?q = "\<lparr>pt_handle = ip_next s, pt_name = ?name, pt_owner = owner, pt_queue = [], pt_dropped = 0\<rparr>"
  have wf: "bt_wf (ip_ports s)" using assms by blast
  have names: "\<And>k q. bt_get (ip_ports s) k = Some q \<Longrightarrow> pt_name q = ?name \<Longrightarrow> k = h"
    and v: "name_is_valid ?name" and lt: "\<And>k q. bt_get (ip_ports s) k = Some q \<Longrightarrow> k < ip_next s"
    and len: "length (ip_ports s) \<le> MAX_PORTS"
    using assms by (auto simp: table_ok_def port_ok_def)
  note get = close_all_get [OF wf, of "pt_owner p"]
  have wf': "bt_wf (ip_ports ?s)" using wf by (simp add: close_all_for_def)
  have free: "\<not> (\<exists>q \<in> set (bt_values (ip_ports ?s)). pt_name q = ?name)"
    using get names assms(2) by (auto simp: bt_values_iff [OF wf'])
  have "length (ip_ports ?s) < length (ip_ports s)" by (rule close_all_shrinks [OF wf assms(2)])
  then have c: "ipc_create owner ?name ?s =
      (Ok (ip_next s), ?s\<lparr>ip_next := ip_next s + 1, ip_ports := bt_insert (ip_ports ?s) (ip_next s) ?q\<rparr>)"
    using v len free by (simp add: ipc_create_def Let_def lossy_valid_name) (simp add: close_all_for_def)
  let ?t = "?s\<lparr>ip_next := ip_next s + 1, ip_ports := bt_insert (ip_ports ?s) (ip_next s) ?q\<rparr>"
  have wft: "bt_wf (ip_ports ?t)" using wf' by simp
  have gt: "bt_get (ip_ports ?t) = (bt_get (ip_ports ?s))(ip_next s \<mapsto> ?q)" by (simp add: bt.get_insert [OF wf'])
  have only: "q = ?q" if q: "q \<in> set (bt_values (ip_ports ?t))" "pt_name q = ?name" for q
  proof -
    obtain k where "bt_get (ip_ports ?t) k = Some q" using q(1) bt_values_iff [OF wft] by blast
    then show ?thesis using free q(2) bt_values_iff [OF wf', of q] unfolding gt
      by (auto split: if_splits)
  qed
  have "?q \<in> set (bt_values (ip_ports ?t))" using gt bt_values_iff [OF wft] by auto
  then have "List.find (\<lambda>q. pt_name q = ?name) (bt_values (ip_ports ?t)) = Some ?q"
    using only by (cases "List.find (\<lambda>q. pt_name q = ?name) (bt_values (ip_ports ?t))")
      (auto simp: find_None_iff dest: find_Some_iff')
  then have "ipc_connect ?name ?t = Ok (ip_next s)"
    using v by (simp add: ipc_connect_def lossy_valid_name Let_def)
  moreover have "bt_get (ip_ports ?t) k = Some q"
    if "bt_get (ip_ports s) k = Some q" "pt_owner q \<noteq> pt_owner p" for k q
    using that lt [OF that(1)] get unfolding gt by auto
  ultimately show ?thesis using c by blast
qed

theorem ipc_restart_witness:
  "\<exists>s'. ipc_create 12 [0x61] (close_all_for 7 (fst (fold ipc_exec ipc_demo (ipc_init, [])))) = (Ok 2, s')"
proof -
  have l: "length ipc_demo < 2 ^ 64 - 1" by (simp add: ipc_demo_def)
  let ?s = "fst (fold ipc_exec ipc_demo (ipc_init, []))"
  have ok: "table_ok (length ipc_demo) ?s" using ipc.inv_run [OF l] by (simp only: ipc_inv_def)
  have g: "bt_get (ip_ports ?s) 1 = Some \<lparr>pt_handle = 1, pt_name = [0x61], pt_owner = 7,
      pt_queue = [\<lparr>ms_from = 8, ms_bytes = [2]\<rparr>], pt_dropped = 0\<rparr>"
    unfolding ipc_demo_run by (simp add: bt_get_def)
  have "ip_next ?s = 2" unfolding ipc_demo_run by simp
  then show ?thesis using ipc_restart [OF ok g, of 12] by auto
qed

end
