(* ===== verification/Process.thy ===== *)
theory Process
  imports FileSystem Realm Scheduler
begin

text \<open>
  Processes (\<^verbatim>\<open>kernel/src/process.rs\<close>): the process table, the life-cycle states, and the table of
  open files that every process has. The \<^verbatim>\<open>Vec\<close> of open files is a list; a descriptor is its
  index. What ends a program (\<^verbatim>\<open>ProgramExit\<close> of \<^verbatim>\<open>arch/x86_64/usermode.rs\<close>) is here too, with the
  encoding in one register that carries it from Ring 3.
\<close>

unbundle bit_operations_syntax

section \<open>How a program ends\<close>

datatype program_exit = Exited u32 | PageFault | GeneralProtectionFault

definition EXIT_KIND_EXITED :: u64 where "EXIT_KIND_EXITED = 0"
definition EXIT_KIND_PAGE_FAULT :: u64 where "EXIT_KIND_PAGE_FAULT = 1"
definition EXIT_KIND_GENERAL_PROTECTION_FAULT :: u64 where "EXIT_KIND_GENERAL_PROTECTION_FAULT = 2"

primrec exit_encode :: "program_exit \<Rightarrow> u64" where
  "exit_encode (Exited status) = push_bit 32 EXIT_KIND_EXITED OR ucast status"
| "exit_encode PageFault = push_bit 32 EXIT_KIND_PAGE_FAULT"
| "exit_encode GeneralProtectionFault = push_bit 32 EXIT_KIND_GENERAL_PROTECTION_FAULT"

definition exit_decode :: "u64 \<Rightarrow> (unit, program_exit) outcome" where
  "exit_decode raw =
     (let status = ucast raw; kind = drop_bit 32 raw in
      if kind = EXIT_KIND_EXITED then Ok (Exited status)
      else if kind = EXIT_KIND_PAGE_FAULT then Ok PageFault
      else if kind = EXIT_KIND_GENERAL_PROTECTION_FAULT then Ok GeneralProtectionFault
      else Panic)"

section \<open>Open files\<close>

record open_file =
  of_node :: node
  of_position :: nat
  of_path :: bytes
  of_path_len :: nat

definition open_file_new :: "node \<Rightarrow> bytes \<Rightarrow> open_file option" where
  "open_file_new node path =
     (if length path > MAX_PATH then None
      else Some \<lparr>of_node = node, of_position = 0,
                 of_path = path @ replicate (MAX_PATH - length path) 0, of_path_len = length path\<rparr>)"

definition open_file_path :: "open_file \<Rightarrow> bytes" where
  "open_file_path f = (case from_utf8 (take (of_path_len f) (of_path f)) of Some p \<Rightarrow> p | None \<Rightarrow> [])"

type_synonym file_table = "open_file option list"

text \<open>
  The closures that \<^verbatim>\<open>open_file\<close>, \<^verbatim>\<open>get_file\<close>, \<^verbatim>\<open>set_file_position\<close> and \<^verbatim>\<open>close_file\<close> run on the table of
  the current process.
\<close>

definition pad_table :: "file_table \<Rightarrow> file_table" where
  "pad_table files = files @ replicate (unat FD_FIRST_DYNAMIC - length files) None"

definition table_open :: "open_file \<Rightarrow> file_table \<Rightarrow> nat \<times> file_table" where
  "table_open file files0 =
     (let reserved = unat FD_FIRST_DYNAMIC; files = pad_table files0 in
      case position (\<lambda>slot. slot = None) (drop reserved files) of
        Some off \<Rightarrow> (reserved + off, files[reserved + off := Some file])
      | None \<Rightarrow> (length files, files @ [Some file]))"

definition table_get :: "nat \<Rightarrow> file_table \<Rightarrow> open_file option" where
  "table_get d files = (if d < length files then files ! d else None)"

definition table_seek :: "nat \<Rightarrow> nat \<Rightarrow> file_table \<Rightarrow> bool \<times> file_table" where
  "table_seek d pos files =
     (case table_get d files of
        Some f \<Rightarrow> (True, files[d := Some (f\<lparr>of_position := pos\<rparr>)])
      | None \<Rightarrow> (False, files))"

definition table_close :: "nat \<Rightarrow> file_table \<Rightarrow> bool \<times> file_table" where
  "table_close d files =
     (case table_get d files of
        Some _ \<Rightarrow> (True, files[d := None])
      | None \<Rightarrow> (False, files))"

section \<open>The process table\<close>

datatype process_state = Ready | Running | ExitedWith program_exit

record process =
  p_pid :: u64
  p_name :: bytes
  p_profile :: realm_profile
  p_state :: process_state
  p_files :: file_table

text \<open>\<^verbatim>\<open>NEXT_PID\<close> and \<^verbatim>\<open>PROCESSES\<close>; an atomic \<^verbatim>\<open>fetch_add\<close> wraps.\<close>

record processes =
  pr_next_pid :: u64
  pr_table :: "(u64, process) btree"

definition processes_init :: processes where
  "processes_init = \<lparr>pr_next_pid = 1, pr_table = bt_empty\<rparr>"

text \<open>
  The parts of a \<^verbatim>\<open>LoadedImage\<close> that \<^verbatim>\<open>spawn\<close> uses and of the \<^verbatim>\<open>ProcessContext\<close> it hands to the new
  task; an address space is known by its root frame.
\<close>

record loaded_image =
  li_name :: bytes
  li_entry :: u64
  li_stack_top :: u64
  li_root :: u64

record process_context =
  pc_pid :: u64
  pc_entry :: u64
  pc_stack_top :: u64
  pc_root :: u64

definition process_spawn ::
  "kernel_stack option \<Rightarrow> nat \<Rightarrow> loaded_image \<Rightarrow> realm_profile \<Rightarrow> processes \<Rightarrow> scheduler \<Rightarrow>
   (unit, (u64 \<times> process_context) \<times> processes \<times> scheduler) outcome" where
  "process_spawn ks now img profile ps s =
     (let pid = pr_next_pid ps;
          p = \<lparr>p_pid = pid, p_name = li_name img, p_profile = profile, p_state = Ready, p_files = []\<rparr>;
          ps' = ps\<lparr>pr_next_pid := pid + 1, pr_table := bt_insert (pr_table ps) pid p\<rparr>;
          ctx = \<lparr>pc_pid = pid, pc_entry = li_entry img, pc_stack_top = li_stack_top img, pc_root = li_root img\<rparr>
      in obind (spawn_process ks (li_root img) pid (for_realm (rp_kind profile)) now s)
           (\<lambda>s'. Ok ((pid, ctx), ps', s')))"

definition set_state :: "u64 \<Rightarrow> process_state \<Rightarrow> processes \<Rightarrow> processes" where
  "set_state pid st ps = ps\<lparr>pr_table := bt_modify (pr_table ps) pid (\<lambda>p. p\<lparr>p_state := st\<rparr>)\<rparr>"

definition exit_status :: "u64 \<Rightarrow> processes \<Rightarrow> program_exit option" where
  "exit_status pid ps =
     (case bt_get (pr_table ps) pid of
        None \<Rightarrow> None
      | Some p \<Rightarrow> (case p_state p of ExitedWith e \<Rightarrow> Some e | _ \<Rightarrow> None))"

definition process_snapshot :: "processes \<Rightarrow> (u64 \<times> bytes \<times> process_state) list" where
  "process_snapshot ps = map (\<lambda>p. (p_pid p, p_name p, p_state p)) (bt_values (pr_table ps))"

definition process_count :: "processes \<Rightarrow> (unit, u64) outcome" where
  "process_count ps = (if pr_next_pid ps = 0 then Panic else Ok (pr_next_pid ps - 1))"

definition current_profile :: "u64 \<Rightarrow> processes \<Rightarrow> realm_profile option" where
  "current_profile pid ps = (if pid = 0 then None else map_option p_profile (bt_get (pr_table ps) pid))"

text \<open>\<^verbatim>\<open>with_files\<close>: runs \<open>f\<close> on the descriptor table of the process \<open>pid\<close>, the current one.\<close>

definition with_files :: "u64 \<Rightarrow> (file_table \<Rightarrow> 'a \<times> file_table) \<Rightarrow> processes \<Rightarrow> 'a option \<times> processes" where
  "with_files pid f ps =
     (if pid = 0 then (None, ps)
      else
        (case bt_get (pr_table ps) pid of
           None \<Rightarrow> (None, ps)
         | Some p \<Rightarrow>
             (Some (fst (f (p_files p))),
              ps\<lparr>pr_table := bt_modify (pr_table ps) pid (\<lambda>q. q\<lparr>p_files := snd (f (p_files p))\<rparr>)\<rparr>)))"

definition process_open_file :: "u64 \<Rightarrow> open_file \<Rightarrow> processes \<Rightarrow> u64 option \<times> processes" where
  "process_open_file pid file ps =
     with_files pid (\<lambda>files. case table_open file files of (d, files') \<Rightarrow> (of_nat d, files')) ps"

definition get_file :: "u64 \<Rightarrow> u64 \<Rightarrow> processes \<Rightarrow> open_file option" where
  "get_file pid descriptor ps =
     (case fst (with_files pid (\<lambda>files. (table_get (unat descriptor) files, files)) ps) of
        Some (Some f) \<Rightarrow> Some f
      | _ \<Rightarrow> None)"

definition set_file_position :: "u64 \<Rightarrow> u64 \<Rightarrow> nat \<Rightarrow> processes \<Rightarrow> bool \<times> processes" where
  "set_file_position pid descriptor pos ps =
     (case with_files pid (table_seek (unat descriptor) pos) ps of
        (Some b, ps') \<Rightarrow> (b, ps')
      | (None, ps') \<Rightarrow> (False, ps'))"

definition close_file :: "u64 \<Rightarrow> u64 \<Rightarrow> processes \<Rightarrow> bool \<times> processes" where
  "close_file pid descriptor ps =
     (case with_files pid (table_close (unat descriptor)) ps of
        (Some b, ps') \<Rightarrow> (b, ps')
      | (None, ps') \<Rightarrow> (False, ps'))"

section \<open>The contract of a descriptor table\<close>

text \<open>
  What a program may rely on: opening returns the lowest free descriptor that is not reserved for
  the console, and no operation touches any descriptor but the one it names.
\<close>

locale descriptor_table =
  fixes opn :: "'f \<Rightarrow> 't \<Rightarrow> nat \<times> 't"
    and get :: "nat \<Rightarrow> 't \<Rightarrow> 'f option"
    and cls :: "nat \<Rightarrow> 't \<Rightarrow> bool \<times> 't"
    and first :: nat
  assumes open_lowest: "opn f t = (d, t') \<Longrightarrow>
      first \<le> d \<and> get d t = None \<and> (\<forall>e. first \<le> e \<and> e < d \<longrightarrow> get e t \<noteq> None)"
    and open_get: "opn f t = (d, t') \<Longrightarrow> get e t' = (if e = d then Some f else get e t)"
    and close_get: "cls d t = (b, t') \<Longrightarrow> b = (get d t \<noteq> None) \<and> get e t' = (if e = d then None else get e t)"
begin

lemma open_twice: "opn f t = (d, t') \<Longrightarrow> opn g t' = (e, t'') \<Longrightarrow> d < e \<and> get d t'' = Some f"
  using open_lowest [of f t d t'] open_lowest [of g t' e t''] open_get [of f t d t'] open_get [of g t' e t'']
  by (metis linorder_neqE_nat option.distinct(1))

lemma double_close: "cls d t = (b, t') \<Longrightarrow> fst (cls d t') = False"
  using close_get [of d t b t' d] close_get [of d t' "fst (cls d t')" "snd (cls d t')"] by simp

lemma close_reuse:
  assumes "opn f t = (d, t')" "cls d t' = (b, t'')"
  shows "b" "fst (opn g t'') = d"
proof -
  show b using close_get [OF assms(2)] open_get [OF assms(1)] by simp
  obtain e u where e: "opn g t'' = (e, u)" by force
  have same: "get i t'' = get i t" for i
    using close_get [OF assms(2), of i] open_get [OF assms(1), of i] open_lowest [OF assms(1)] by auto
  then have "\<not> e < d" "\<not> d < e"
    using open_lowest [OF e] open_lowest [OF assms(1)] by auto
  with e show "fst (opn g t'') = d" by simp
qed

end

lemma table_get_pad [simp]: "table_get d (pad_table files) = table_get d files"
  by (auto simp: table_get_def pad_table_def nth_append)

lemma length_pad: "length (pad_table files) = max (unat FD_FIRST_DYNAMIC) (length files)"
  by (simp add: pad_table_def)

lemma table_get_update:
  "d < length files \<Longrightarrow> table_get e (files[d := x]) = (if e = d then x else table_get e files)"
  by (auto simp: table_get_def)

lemma table_get_append:
  "table_get e (files @ [x]) = (if e = length files then x else table_get e files)"
  by (auto simp: table_get_def nth_append)

lemma table_open_cases:
  obtains (reuse) d where "table_open f files = (d, (pad_table files)[d := Some f])"
      "d < length (pad_table files)" "unat FD_FIRST_DYNAMIC \<le> d" "table_get d files = None"
      "\<forall>e. unat FD_FIRST_DYNAMIC \<le> e \<and> e < d \<longrightarrow> table_get e files \<noteq> None"
  | (extend) "table_open f files = (length (pad_table files), pad_table files @ [Some f])"
      "\<forall>e. unat FD_FIRST_DYNAMIC \<le> e \<and> e < length (pad_table files) \<longrightarrow> table_get e files \<noteq> None"
proof (cases "position (\<lambda>slot. slot = None) (drop (unat FD_FIRST_DYNAMIC) (pad_table files))")
  case None
  have "table_get e files \<noteq> None" if "unat FD_FIRST_DYNAMIC \<le> e" "e < length (pad_table files)" for e
  proof -
    have "pad_table files ! e \<in> set (drop (unat FD_FIRST_DYNAMIC) (pad_table files))"
      using that by (auto simp: in_set_conv_nth intro!: exI [of _ "e - unat FD_FIRST_DYNAMIC"])
    then have "table_get e (pad_table files) \<noteq> None"
      using None that(2) by (auto simp: position_None table_get_def)
    then show ?thesis by simp
  qed
  with None extend show thesis by (simp add: table_open_def Let_def)
next
  case (Some off)
  let ?r = "unat FD_FIRST_DYNAMIC"
  have off: "?r + off < length (pad_table files)" "table_get (?r + off) (pad_table files) = None"
    "\<forall>j < off. table_get (?r + j) (pad_table files) \<noteq> None"
    using Some by (auto simp: position_Some table_get_def)
  have "table_get e files \<noteq> None" if "?r \<le> e" "e < ?r + off" for e
  proof -
    have "e - ?r < off" "?r + (e - ?r) = e" using that by simp_all
    with off(3) show ?thesis by (metis table_get_pad)
  qed
  with Some off(1,2) reuse [of "?r + off"] show thesis by (simp add: table_open_def Let_def)
qed

interpretation fd: descriptor_table table_open table_get table_close "unat FD_FIRST_DYNAMIC"
proof
  fix f t d t'
  assume o: "table_open f t = (d, t')"
  show "unat FD_FIRST_DYNAMIC \<le> d \<and> table_get d t = None \<and>
      (\<forall>e. unat FD_FIRST_DYNAMIC \<le> e \<and> e < d \<longrightarrow> table_get e t \<noteq> None)"
    using o by (cases rule: table_open_cases [of f t]) (auto simp: length_pad table_get_def)
  fix e
  show "table_get e t' = (if e = d then Some f else table_get e t)"
    using o by (cases rule: table_open_cases [of f t]) (auto simp: table_get_update table_get_append)
next
  fix d t b t' e
  assume "table_close d t = (b, t')"
  then show "b = (table_get d t \<noteq> None) \<and> table_get e t' = (if e = d then None else table_get e t)"
    by (auto simp: table_close_def table_get_def split: option.splits if_splits)
qed

lemma table_seek_get:
  "table_get e (snd (table_seek d pos files)) =
     (if e = d then map_option (\<lambda>f. f\<lparr>of_position := pos\<rparr>) (table_get d files) else table_get e files)"
  "fst (table_seek d pos files) \<longleftrightarrow> table_get d files \<noteq> None"
  by (auto simp: table_seek_def table_get_def split: option.splits if_splits)

section \<open>Descriptors of a process\<close>

lemma with_files_get:
  assumes "bt_wf (pr_table ps)"
  shows "bt_get (pr_table (snd (with_files pid f ps))) q =
    (if q = pid \<and> pid \<noteq> 0 then map_option (\<lambda>p. p\<lparr>p_files := snd (f (p_files p))\<rparr>) (bt_get (pr_table ps) pid)
     else bt_get (pr_table ps) q)"
  using assms by (auto simp: with_files_def bt.get_modify split: option.splits)

lemma with_files_wf: "bt_wf (pr_table ps) \<Longrightarrow> bt_wf (pr_table (snd (with_files pid f ps)))"
  by (auto simp: with_files_def split: option.splits)

lemma get_file_eq:
  "get_file pid d ps =
     (if pid = 0 then None
      else (case bt_get (pr_table ps) pid of None \<Rightarrow> None | Some p \<Rightarrow> table_get (unat d) (p_files p)))"
  by (auto simp: get_file_def with_files_def split: option.splits)

lemma get_file_with_files:
  assumes "bt_wf (pr_table ps)"
  shows "get_file q e (snd (with_files pid f ps)) =
    (if q = pid \<and> pid \<noteq> 0 then
       (case bt_get (pr_table ps) pid of None \<Rightarrow> None | Some p \<Rightarrow> table_get (unat e) (snd (f (p_files p))))
     else get_file q e ps)"
  by (auto simp: get_file_eq with_files_get [OF assms] split: option.splits)

lemma close_file_eq:
  assumes "bt_wf (pr_table ps)"
  shows "fst (close_file pid d ps) \<longleftrightarrow> get_file pid d ps \<noteq> None"
    "get_file q e (snd (close_file pid d ps)) = (if q = pid \<and> e = d then None else get_file q e ps)"
    "bt_wf (pr_table (snd (close_file pid d ps)))"
proof -
  have c: "close_file pid d ps =
    (case fst (with_files pid (table_close (unat d)) ps) of Some b \<Rightarrow> b | None \<Rightarrow> False,
     snd (with_files pid (table_close (unat d)) ps))"
    by (simp add: close_file_def split: prod.split option.split)
  have cg: "fst (table_close (unat d) fs) = (table_get (unat d) fs \<noteq> None)"
    "table_get i (snd (table_close (unat d) fs)) = (if i = unat d then None else table_get i fs)" for fs i
    using fd.close_get [OF surjective_pairing] by blast+
  show "fst (close_file pid d ps) \<longleftrightarrow> get_file pid d ps \<noteq> None"
    unfolding c get_file_eq by (simp add: with_files_def cg split: option.splits)
  show "get_file q e (snd (close_file pid d ps)) = (if q = pid \<and> e = d then None else get_file q e ps)"
    unfolding c snd_conv get_file_with_files [OF assms]
    by (auto simp: cg get_file_eq word_unat_eq_iff [symmetric] split: option.splits)
  show "bt_wf (pr_table (snd (close_file pid d ps)))"
    unfolding c snd_conv by (rule with_files_wf [OF assms])
qed

lemma table_open_length: "table_open f files = (d, files') \<Longrightarrow> d < length files' \<and> length files' \<le> max 4 (Suc (length files))"
  by (cases rule: table_open_cases [of f files]) (auto simp: length_pad FD_FIRST_DYNAMIC_def)

text \<open>Descriptors behave as promised. For a process in the table (with fewer than $2^{64} - 1$ slots),
  opening a file returns the lowest free descriptor from 3 on, never one of the console's; the new
  descriptor then refers to the file and every other descriptor, of this and of every other
  process, is as before. Closing it succeeds once, a second close reports that nothing was open,
  and the next open returns the same number again.\<close>

theorem descriptors_exact:
  assumes "bt_wf (pr_table ps)" "pid \<noteq> 0" "bt_get (pr_table ps) pid = Some p"
    "length (p_files p) < 2 ^ 64 - 1"
  shows "\<exists>d ps'. process_open_file pid file ps = (Some d, ps') \<and>
    FD_FIRST_DYNAMIC \<le> d \<and> get_file pid d ps = None \<and>
    (\<forall>e. FD_FIRST_DYNAMIC \<le> e \<and> e < d \<longrightarrow> get_file pid e ps \<noteq> None) \<and>
    (\<forall>q e. get_file q e ps' = (if q = pid \<and> e = d then Some file else get_file q e ps)) \<and>
    (case close_file pid d ps' of (closed, ps'') \<Rightarrow>
       closed \<and> (\<forall>q e. get_file q e ps'' = get_file q e ps) \<and>
       \<not> fst (close_file pid d ps'') \<and> fst (process_open_file pid file' ps'') = Some d)"
proof -
  obtain n fs where o: "table_open file (p_files p) = (n, fs)" by force
  have n: "n < 2 ^ 64" using table_open_length [OF o] assms(4) by (auto simp: max_def split: if_splits)
  define ps' where "ps' = snd (with_files pid (\<lambda>files. case table_open file files of (d, files') \<Rightarrow> (of_nat d :: u64, files')) ps)"
  define d :: u64 where "d = of_nat n"
  have ud: "unat d = n" using n by (simp add: d_def unat_of_nat take_bit_eq_mod)
  have ude: "unat e = n \<longleftrightarrow> e = d" for e :: u64 using word_unat_eq_iff [of e d] ud by simp
  have open1: "process_open_file pid file ps = (Some d, ps')"
    using assms(2,3) o by (simp add: process_open_file_def ps'_def d_def with_files_def)
  have low: "FD_FIRST_DYNAMIC \<le> d" "get_file pid d ps = None"
    "\<forall>e. FD_FIRST_DYNAMIC \<le> e \<and> e < d \<longrightarrow> get_file pid e ps \<noteq> None"
    using fd.open_lowest [OF o] assms(2,3)
    by (simp_all add: get_file_eq ud word_le_nat_alt word_less_nat_alt)
  have g1: "get_file q e ps' = (if q = pid \<and> e = d then Some file else get_file q e ps)" for q e
    using assms(2,3) o fd.open_get [OF o] unfolding ps'_def get_file_with_files [OF assms(1)]
    by (auto simp: get_file_eq ude)
  have wf1: "bt_wf (pr_table ps')" unfolding ps'_def by (rule with_files_wf [OF assms(1)])
  define ps'' where "ps'' = snd (close_file pid d ps')"
  note cl = close_file_eq [OF wf1, where pid = pid and d = d]
  have closed: "fst (close_file pid d ps')" "\<forall>q e. get_file q e ps'' = get_file q e ps"
    "\<not> fst (close_file pid d ps'')"
    using cl(1,2) g1 low(2) close_file_eq(1) [OF cl(3)] by (auto simp: ps''_def)
  have p1: "bt_get (pr_table ps') pid = Some (p\<lparr>p_files := fs\<rparr>)"
    using assms(2,3) o by (simp add: ps'_def with_files_get [OF assms(1)])
  have "bt_get (pr_table ps'') pid = Some (p\<lparr>p_files := snd (table_close n fs)\<rparr>)"
    using assms(2) p1 unfolding ps''_def close_file_def
    by (simp add: with_files_def bt.get_modify [OF wf1] ud)
  then have "fst (process_open_file pid file' ps'') = Some d"
    using assms(2) fd.close_reuse(2) [OF o surjective_pairing, of file']
    by (auto simp: process_open_file_def with_files_def d_def split: prod.splits)
  with open1 low g1 closed show ?thesis by (auto simp: ps''_def split: prod.splits)
qed

definition demo_process :: process where
  "demo_process = \<lparr>p_pid = 7, p_name = [], p_profile = HOME, p_state = Running, p_files = []\<rparr>"

definition demo_file :: open_file where
  "demo_file = \<lparr>of_node = root_node, of_position = 0, of_path = [], of_path_len = 0\<rparr>"

theorem descriptors_exact_witness:
  "\<exists>d ps'. process_open_file 7 demo_file \<lparr>pr_next_pid = 8, pr_table = [(7, demo_process)]\<rparr> = (Some d, ps') \<and>
     FD_FIRST_DYNAMIC \<le> d \<and> get_file 7 d ps' = Some demo_file"
proof -
  have "bt_wf (pr_table \<lparr>pr_next_pid = 8, pr_table = [(7, demo_process)]\<rparr>)" "(7 :: u64) \<noteq> 0"
    "bt_get (pr_table \<lparr>pr_next_pid = 8, pr_table = [(7, demo_process)]\<rparr>) 7 = Some demo_process"
    "length (p_files demo_process) < 2 ^ 64 - 1"
    by (simp_all add: bt_wf_def bt_get_def demo_process_def)
  from descriptors_exact [OF this, of demo_file demo_file] show ?thesis by auto
qed

lemma exit_roundtrip: "exit_decode (exit_encode e) = Ok e"
proof (cases e)
  case (Exited status)
  have "drop_bit 32 (ucast status :: u64) = 0"
    by (rule bit_eqI) (auto simp: bit_drop_bit_eq bit_ucast_iff dest: bit_imp_le_length)
  moreover have "(ucast (ucast status :: u64) :: u32) = status"
    by (rule bit_eqI) (auto simp: bit_ucast_iff dest: bit_imp_le_length)
  ultimately show ?thesis using Exited
    by (simp add: exit_decode_def EXIT_KIND_EXITED_def)
next
  case PageFault
  have "drop_bit 32 (push_bit 32 (1 :: u64)) = 1" by (simp add: drop_bit_push_bit)
  with PageFault show ?thesis
    by (simp add: exit_decode_def EXIT_KIND_EXITED_def EXIT_KIND_PAGE_FAULT_def)
next
  case GeneralProtectionFault
  have "drop_bit 32 (push_bit 32 (2 :: u64)) = 2" by (simp add: drop_bit_push_bit)
  with GeneralProtectionFault show ?thesis
    by (simp add: exit_decode_def EXIT_KIND_EXITED_def EXIT_KIND_PAGE_FAULT_def EXIT_KIND_GENERAL_PROTECTION_FAULT_def)
qed

end
