(* ===== verification/Kernel.thy ===== *)
theory Kernel
  imports Process Ipc Compositor
begin

text \<open>
  The state of the whole kernel, as the union of the statics of its modules, and what acts on
  several of them at once: the interrupt handlers of \<^verbatim>\<open>arch/x86_64/interrupts.rs\<close>, the life of a
  process in \<^verbatim>\<open>process.rs\<close> (\<^verbatim>\<open>spawn\<close>, \<^verbatim>\<open>process_entry\<close>), and the self-test counters of \<^verbatim>\<open>selftest.rs\<close>.
  User memory is what the page tables of the running program make visible. The console is the
  list of bytes that programs wrote; the kernel's own log lines are not part of the model.
\<close>

section \<open>State\<close>

record selftest =
  st_passed :: u32
  st_failed :: u32

record kernel =
  k_procs :: processes
  k_sched :: scheduler
  k_fs :: "file_system option"
  k_ipc :: ipc_state
  k_comp :: compositor_state
  k_input :: input_state
  k_ticks :: nat
  k_ring3_preemptions :: nat
  k_mem :: "u64 \<Rightarrow> u8"
  k_screen :: screen
  k_console :: bytes
  k_boot_supervisor :: u64
  k_syscalls :: u64
  k_alignment_reported :: bool
  k_selftest :: selftest

definition k_pid :: "kernel \<Rightarrow> u64" where
  "k_pid k = current_pid (k_sched k)"

section \<open>Self-tests\<close>

definition selftest_check :: "bool \<Rightarrow> selftest \<Rightarrow> selftest" where
  "selftest_check passed s =
     (if passed then s\<lparr>st_passed := st_passed s + 1\<rparr> else s\<lparr>st_failed := st_failed s + 1\<rparr>)"

definition selftest_check_eq :: "'a \<Rightarrow> 'a \<Rightarrow> selftest \<Rightarrow> selftest" where
  "selftest_check_eq actual expected = selftest_check (actual = expected)"

definition selftest_failures :: "selftest \<Rightarrow> u32" where
  "selftest_failures s = st_failed s"

text \<open>The total in the summary line is a plain addition.\<close>

definition selftest_report :: "selftest \<Rightarrow> (unit, bool) outcome" where
  "selftest_report s =
     (if st_passed s + st_failed s < st_passed s then Panic else Ok (st_failed s = 0))"

section \<open>Running programs\<close>

text \<open>The resume point of the running context: the field of the current task, or the boot context's.\<close>

definition supervisor_rsp :: "kernel \<Rightarrow> u64" where
  "supervisor_rsp k =
     (case sc_current (k_sched k) of Some t \<Rightarrow> tk_supervisor_rsp t | None \<Rightarrow> k_boot_supervisor k)"

definition set_supervisor_rsp :: "u64 \<Rightarrow> kernel \<Rightarrow> kernel" where
  "set_supervisor_rsp rsp k =
     (case sc_current (k_sched k) of
        Some t \<Rightarrow> k\<lparr>k_sched := (k_sched k)\<lparr>sc_current := Some (t\<lparr>tk_supervisor_rsp := rsp\<rparr>)\<rparr>\<rparr>
      | None \<Rightarrow> k\<lparr>k_boot_supervisor := rsp\<rparr>)"

definition program_is_running :: "kernel \<Rightarrow> bool" where
  "program_is_running k \<longleftrightarrow> supervisor_rsp k \<noteq> 0"

text \<open>\<^verbatim>\<open>end_program\<close>: the stack to resume on and the word that is handed back in RAX.\<close>

definition end_program :: "program_exit \<Rightarrow> kernel \<Rightarrow> (unit, u64 \<times> u64) outcome" where
  "end_program e k = (if supervisor_rsp k = 0 then Panic else Ok (supervisor_rsp k, exit_encode e))"

text \<open>
  \<^verbatim>\<open>run_program\<close> around the excursion to Ring 3: entering writes the resume point \<open>rsp\<close>; when
  \<^verbatim>\<open>end_program\<close> has handed back \<open>raw\<close>, the resume point is cleared and the word decoded.
\<close>

definition run_program_enter :: "u64 \<Rightarrow> kernel \<Rightarrow> (unit, kernel) outcome" where
  "run_program_enter rsp k = (if program_is_running k then Panic else Ok (set_supervisor_rsp rsp k))"

definition run_program_leave :: "u64 \<Rightarrow> kernel \<Rightarrow> (unit, program_exit \<times> kernel) outcome" where
  "run_program_leave raw k = obind (exit_decode raw) (\<lambda>e. Ok (e, set_supervisor_rsp 0 k))"

section \<open>Faults and interrupts\<close>

text \<open>What a page fault or protection fault leads to: the end of the program, or a halt for good.\<close>

datatype fault_outcome = Terminates u64 u64 | Halts

definition end_or_halt_after_fault :: "bool \<Rightarrow> program_exit \<Rightarrow> kernel \<Rightarrow> (unit, fault_outcome) outcome" where
  "end_or_halt_after_fault from_ring3 e k =
     (if from_ring3 \<and> program_is_running k
      then obind (end_program e k) (\<lambda>(rsp, raw). Ok (Terminates rsp raw))
      else Ok Halts)"

definition page_fault_handler :: "bool \<Rightarrow> kernel \<Rightarrow> (unit, fault_outcome) outcome" where
  "page_fault_handler from_ring3 k = end_or_halt_after_fault from_ring3 PageFault k"

definition general_protection_fault_handler :: "bool \<Rightarrow> kernel \<Rightarrow> (unit, fault_outcome) outcome" where
  "general_protection_fault_handler from_ring3 k = end_or_halt_after_fault from_ring3 GeneralProtectionFault k"

definition uptime_ms :: "nat \<Rightarrow> (unit, u64) outcome" where
  "uptime_ms ticks = (if usize_lim \<le> ticks * 1000 then Panic else Ok (of_nat (ticks * 1000 div TIMER_HZ)))"

definition timer_interrupt_handler :: "bool \<Rightarrow> kernel \<Rightarrow> (unit, switch option \<times> kernel) outcome" where
  "timer_interrupt_handler interrupted_ring3 k0 =
     (let k = k0\<lparr>k_ticks := k_ticks k0 + 1\<rparr> in
      if \<not> interrupted_ring3 \<or> current_task_owns_kernel_stack (k_sched k)
      then
        (let k1 = (if interrupted_ring3 then k\<lparr>k_ring3_preemptions := k_ring3_preemptions k + 1\<rparr> else k)
         in case preempt (k_ticks k1) (k_sched k1) of
              (Ok sw, s') \<Rightarrow> Ok (sw, k1\<lparr>k_sched := s'\<rparr>)
            | _ \<Rightarrow> Panic)
      else Ok (None, k))"

definition keyboard_interrupt_handler :: "u8 \<Rightarrow> kernel \<Rightarrow> kernel" where
  "keyboard_interrupt_handler data k = k\<lparr>k_input := on_scancode data (k_input k)\<rparr>"

definition mouse_interrupt_handler :: "u8 \<Rightarrow> kernel \<Rightarrow> (unit, kernel) outcome" where
  "mouse_interrupt_handler data k =
     obind (on_mouse_byte data (k_input k)) (\<lambda>i. Ok (k\<lparr>k_input := i\<rparr>))"

section \<open>The life of a process\<close>

definition kernel_spawn ::
  "kernel_stack option \<Rightarrow> loaded_image \<Rightarrow> realm_profile \<Rightarrow> kernel \<Rightarrow> (unit, (u64 \<times> process_context) \<times> kernel) outcome" where
  "kernel_spawn ks img profile k =
     obind (process_spawn ks (k_ticks k) img profile (k_procs k) (k_sched k))
       (\<lambda>(r, ps', s'). Ok (r, k\<lparr>k_procs := ps', k_sched := s'\<rparr>))"

text \<open>\<^verbatim>\<open>process_entry\<close> up to the program's start, and from its end on to \<^verbatim>\<open>exit_task\<close>.\<close>

definition process_begins :: "process_context \<Rightarrow> kernel \<Rightarrow> kernel" where
  "process_begins ctx k = k\<lparr>k_procs := set_state (pc_pid ctx) Running (k_procs k)\<rparr>"

definition process_cleanup :: "u64 \<Rightarrow> program_exit \<Rightarrow> kernel \<Rightarrow> (unit, kernel) outcome" where
  "process_cleanup pid e k =
     (let k1 = k\<lparr>k_procs := set_state pid (ExitedWith e) (k_procs k)\<rparr> in
      obind (remove_surfaces_for pid (k_comp k1)) (\<lambda>c.
      Ok (k1\<lparr>k_comp := c, k_ipc := close_all_for pid (k_ipc k1)\<rparr>)))"

definition process_ends ::
  "u64 \<Rightarrow> process_context \<Rightarrow> program_exit \<Rightarrow> kernel \<Rightarrow> (unit, (switch \<times> task option) \<times> kernel) outcome" where
  "process_ends boot_privilege_stack ctx e k =
     obind (process_cleanup (pc_pid ctx) e k) (\<lambda>k1.
     case exit_task boot_privilege_stack (k_ticks k1) (k_sched k1) of
       (Ok r, s') \<Rightarrow> Ok (r, k1\<lparr>k_sched := s'\<rparr>)
     | _ \<Rightarrow> Panic)"

end
