(* ===== verification/Syscall.thy ===== *)
theory Syscall
  imports Kernel
begin

text \<open>
  The system calls (\<^verbatim>\<open>kernel/src/syscall.rs\<close>): the dispatcher and all its handlers, over the state
  of the whole kernel. A handler returns the word the program finds in RAX and the new state, or
  panics. The page tables of the calling program, with the two functions of the \<^verbatim>\<open>x86_64\<close> crate that
  the user-memory checks use, are the argument \<open>uv\<close>. A handler that yields returns its word when
  the program is scheduled again; the state it returns is the one at the switch.
\<close>

unbundle bit_operations_syntax

record user_view =
  uv_va_ok :: "u64 \<Rightarrow> bool"
  uv_indices :: "u64 \<Rightarrow> nat list"
  uv_mmu :: mmu

definition copy_in :: "user_view \<Rightarrow> u64 \<Rightarrow> nat \<Rightarrow> kernel \<Rightarrow> (unit, bytes) outcome" where
  "copy_in uv ptr len k = copy_from_user (uv_va_ok uv) (uv_indices uv) (uv_mmu uv) (k_mem k) ptr len"

text \<open>\<^verbatim>\<open>copy_to_user\<close> in the kernel's state; a handler that gets \<^verbatim>\<open>None\<close> returns \<^verbatim>\<open>EFAULT\<close>.\<close>

definition copy_out :: "user_view \<Rightarrow> u64 \<Rightarrow> bytes \<Rightarrow> kernel \<Rightarrow> (unit, nat \<times> kernel) outcome" where
  "copy_out uv ptr bs k =
     obind (copy_to_user (uv_va_ok uv) (uv_indices uv) (uv_mmu uv) ptr bs (k_mem k))
       (\<lambda>(n, mem'). Ok (n, k\<lparr>k_mem := mem'\<rparr>))"

type_synonym handler = "kernel \<Rightarrow> (unit, u64 \<times> kernel) outcome"

definition failing :: "u64 \<Rightarrow> handler" where
  "failing e k = Ok (encode_error e, k)"

text \<open>Ends of handlers that copy out: what is returned on success, \<^verbatim>\<open>EFAULT\<close> otherwise.\<close>

definition copy_out_or_fault :: "user_view \<Rightarrow> u64 \<Rightarrow> bytes \<Rightarrow> (nat \<Rightarrow> u64) \<Rightarrow> handler" where
  "copy_out_or_fault uv ptr bs ret k =
     (case copy_out uv ptr bs k of
        Ok (n, k') \<Rightarrow> Ok (ret n, k')
      | Err _ \<Rightarrow> failing EFAULT k
      | Panic \<Rightarrow> Panic)"

section \<open>Rights and arguments\<close>

definition require :: "u64 \<Rightarrow> kernel \<Rightarrow> bool" where
  "require right k \<longleftrightarrow>
     (case current_profile (k_pid k) (k_procs k) of Some profile \<Rightarrow> allows profile right | None \<Rightarrow> False)"

definition read_user_path :: "user_view \<Rightarrow> u64 \<Rightarrow> u64 \<Rightarrow> kernel \<Rightarrow> (u64, bytes) outcome" where
  "read_user_path uv ptr len k =
     (if len = 0 \<or> unat len > MAX_PATH then Err (encode_error EINVAL)
      else
        (case copy_in uv ptr (unat len) k of
           Ok bytes \<Rightarrow> (if \<not> path_is_valid bytes then Err (encode_error EINVAL) else Ok (from_utf8_lossy bytes))
         | Err _ \<Rightarrow> Err (encode_error EFAULT)
         | Panic \<Rightarrow> Panic))"

definition read_ipc_name :: "user_view \<Rightarrow> u64 \<Rightarrow> u64 \<Rightarrow> kernel \<Rightarrow> (unit, bytes) outcome" where
  "read_ipc_name uv ptr len k =
     (if len = 0 \<or> unat len > MAX_NAME then Err () else copy_in uv ptr (unat len) k)"

primrec ipc_error_number :: "ipc_error \<Rightarrow> u64" where
  "ipc_error_number BadName = EINVAL"
| "ipc_error_number NameTaken = EEXIST"
| "ipc_error_number NotFound = ENOENT"
| "ipc_error_number BadHandle = EBADF"
| "ipc_error_number TooLarge = EINVAL"
| "ipc_error_number WouldBlock = EAGAIN"
| "ipc_error_number Exhausted = ENOMEM"

definition ipc_error_code :: "ipc_error \<Rightarrow> u64" where
  "ipc_error_code e = encode_error (ipc_error_number e)"

section \<open>Console and scheduling\<close>

definition hex_digit_byte :: "u8 \<Rightarrow> u8" where
  "hex_digit_byte n = (if n < 10 then 0x30 + n else 0x61 + (n - 10))"

text \<open>Printable bytes, newlines and tabs as they are, any other byte as a backslash escape.\<close>

definition console_bytes :: "u8 \<Rightarrow> bytes" where
  "console_bytes b =
     (if b = 0x0A \<or> b = 0x09 \<or> (0x20 \<le> b \<and> b \<le> 0x7E) then [b]
      else [0x5C, 0x78, hex_digit_byte (drop_bit 4 b), hex_digit_byte (b AND 0xF)])"

definition sys_write :: "user_view \<Rightarrow> u64 \<Rightarrow> u64 \<Rightarrow> u64 \<Rightarrow> handler" where
  "sys_write uv descriptor ptr len k =
     (if descriptor \<noteq> FD_STDOUT \<and> descriptor \<noteq> FD_STDERR then failing EBADF k
      else
        (case copy_in uv ptr (unat len) k of
           Ok bytes \<Rightarrow> Ok (of_nat (length bytes), k\<lparr>k_console := k_console k @ concat (map console_bytes bytes)\<rparr>)
         | Err _ \<Rightarrow> failing EFAULT k
         | Panic \<Rightarrow> Panic))"

definition MAX_CSTR :: nat where "MAX_CSTR = 4096"

text \<open>How much the loop of \<^verbatim>\<open>write_cstr\<close> asks for: the rest of the page, at most the rest of the limit.\<close>

definition cstr_chunk :: "u64 \<Rightarrow> nat \<Rightarrow> nat" where
  "cstr_chunk address len = min (4096 - unat (address AND 0xFFF)) (MAX_CSTR - len)"

lemma cstr_chunk_pos: "len < MAX_CSTR \<Longrightarrow> 0 < cstr_chunk address len"
proof -
  assume len: "len < MAX_CSTR"
  have "address AND 0xFFF \<le> 0xFFF" by (rule word_and_le1)
  then have "unat (address AND 0xFFF) \<le> 0xFFF" by (simp add: word_le_nat_alt)
  with len show ?thesis by (simp add: cstr_chunk_def)
qed

function cstr_scan :: "user_view \<Rightarrow> kernel \<Rightarrow> nat \<Rightarrow> u64 \<Rightarrow> (unit, nat) outcome" where
  "cstr_scan uv k len address =
     (if len < MAX_CSTR then
        (let want = cstr_chunk address len in
         case copy_in uv address want k of
           Panic \<Rightarrow> Panic
         | Err _ \<Rightarrow> Ok len
         | Ok chunk \<Rightarrow>
             (case position (\<lambda>b. b = 0) chunk of
                Some terminator \<Rightarrow> Ok (len + terminator)
              | None \<Rightarrow>
                  if address + of_nat want < address then Panic
                  else cstr_scan uv k (len + want) (address + of_nat want)))
      else Ok len)"
  by pat_completeness auto
termination
  by (relation "measure (\<lambda>(uv, k, len, address). MAX_CSTR - len)") (auto simp: cstr_chunk_pos intro!: diff_less_mono2)

declare cstr_scan.simps [simp del]

definition sys_write_cstr :: "user_view \<Rightarrow> u64 \<Rightarrow> handler" where
  "sys_write_cstr uv ptr k =
     obind (cstr_scan uv k 0 ptr) (\<lambda>len.
       if len = 0
       then (case copy_in uv ptr 1 k of
               Ok _ \<Rightarrow> Ok (0, k)
             | Err _ \<Rightarrow> failing EFAULT k
             | Panic \<Rightarrow> Panic)
       else sys_write uv FD_STDOUT ptr (of_nat len) k)"

definition sys_yield :: handler where
  "sys_yield k =
     (case yield_from_syscall (k_ticks k) (k_sched k) of
        (Ok _, s') \<Rightarrow> Ok (0, k\<lparr>k_sched := s'\<rparr>)
      | _ \<Rightarrow> Panic)"

section \<open>Files\<close>

definition sys_open :: "user_view \<Rightarrow> u64 \<Rightarrow> u64 \<Rightarrow> u64 \<Rightarrow> handler" where
  "sys_open uv path_ptr path_len flags k =
     (if \<not> require CAP_FILE_READ k then failing EPERM k
      else if flags AND OPEN_WRITE \<noteq> 0 then failing ENOTSUP k
      else
        (case read_user_path uv path_ptr path_len k of
           Panic \<Rightarrow> Panic
         | Err e \<Rightarrow> Ok (e, k)
         | Ok path \<Rightarrow>
             (case fs_lookup (k_fs k) path of
                None \<Rightarrow> failing ENOENT k
              | Some node \<Rightarrow>
                  if flags AND OPEN_DIRECTORY \<noteq> 0 \<and> \<not> nd_is_directory node then failing ENOTSUP k
                  else
                    (case open_file_new node path of
                       None \<Rightarrow> failing EINVAL k
                     | Some file \<Rightarrow>
                         (case process_open_file (k_pid k) file (k_procs k) of
                            (Some descriptor, ps') \<Rightarrow> Ok (descriptor, k\<lparr>k_procs := ps'\<rparr>)
                          | (None, ps') \<Rightarrow> failing ENOMEM (k\<lparr>k_procs := ps'\<rparr>))))))"

definition sys_read :: "user_view \<Rightarrow> u64 \<Rightarrow> u64 \<Rightarrow> u64 \<Rightarrow> handler" where
  "sys_read uv descriptor ptr len k =
     (if descriptor = FD_STDIN then Ok (0, k)
      else if descriptor = FD_STDOUT \<or> descriptor = FD_STDERR then failing EBADF k
      else
        (case get_file (k_pid k) descriptor (k_procs k) of
           None \<Rightarrow> failing EBADF k
         | Some file \<Rightarrow>
             if nd_is_directory (of_node file) then failing ENOTSUP k
             else
               obind (fs_read (k_fs k) (of_node file) (of_position file) (min (unat len) MAX_USER_TRANSFER))
                 (\<lambda>got.
                    (case copy_out uv ptr got k of
                       Panic \<Rightarrow> Panic
                     | Err _ \<Rightarrow> failing EFAULT k
                     | Ok (written, k') \<Rightarrow>
                         if usize_lim \<le> of_position file + written then Panic
                         else Ok (of_nat written,
                                  k'\<lparr>k_procs := snd (set_file_position (k_pid k) descriptor
                                                      (of_position file + written) (k_procs k'))\<rparr>)))))"

definition sys_close :: "u64 \<Rightarrow> handler" where
  "sys_close descriptor k =
     (case close_file (k_pid k) descriptor (k_procs k) of
        (ok, ps') \<Rightarrow> if ok then Ok (0, k\<lparr>k_procs := ps'\<rparr>) else failing EBADF (k\<lparr>k_procs := ps'\<rparr>))"

definition seek_position :: "open_file \<Rightarrow> u64 \<Rightarrow> u64 \<Rightarrow> nat option" where
  "seek_position file off whence =
     (if whence = SEEK_SET then Some (unat off)
      else if whence = SEEK_CURRENT then Some (saturating_add (of_position file) (unat off))
      else if whence = SEEK_END then Some (node_size (of_node file) - unat off)
      else None)"

definition sys_seek :: "u64 \<Rightarrow> u64 \<Rightarrow> u64 \<Rightarrow> handler" where
  "sys_seek descriptor off whence k =
     (case get_file (k_pid k) descriptor (k_procs k) of
        None \<Rightarrow> failing EBADF k
      | Some file \<Rightarrow>
          (case seek_position file off whence of
             None \<Rightarrow> failing EINVAL k
           | Some pos0 \<Rightarrow>
               (let pos = min pos0 (node_size (of_node file)) in
                case set_file_position (k_pid k) descriptor pos (k_procs k) of
                  (ok, ps') \<Rightarrow> if ok then Ok (of_nat pos, k\<lparr>k_procs := ps'\<rparr>) else failing EBADF (k\<lparr>k_procs := ps'\<rparr>))))"

text \<open>A \<^verbatim>\<open>repr(C)\<close> structure of \<^verbatim>\<open>u64\<close> fields, as bytes.\<close>

definition struct_bytes :: "u64 list \<Rightarrow> bytes" where
  "struct_bytes ws = concat (map u64_to_le ws)"

definition file_info_bytes :: "file_info \<Rightarrow> bytes" where
  "file_info_bytes i = struct_bytes [fi_size i, fi_is_directory i]"

definition sys_stat :: "user_view \<Rightarrow> u64 \<Rightarrow> u64 \<Rightarrow> u64 \<Rightarrow> handler" where
  "sys_stat uv path_ptr path_len out_ptr k =
     (if \<not> require CAP_FILE_READ k then failing EPERM k
      else
        (case read_user_path uv path_ptr path_len k of
           Panic \<Rightarrow> Panic
         | Err e \<Rightarrow> Ok (e, k)
         | Ok path \<Rightarrow>
             (case fs_lookup (k_fs k) path of
                None \<Rightarrow> failing ENOENT k
              | Some node \<Rightarrow>
                  copy_out_or_fault uv out_ptr
                    (file_info_bytes \<lparr>fi_size = of_nat (node_size node),
                                      fi_is_directory = (if nd_is_directory node then 1 else 0)\<rparr>)
                    (\<lambda>_. 0) k)))"

fun pack_names :: "bytes list \<Rightarrow> nat \<Rightarrow> bytes \<Rightarrow> bytes" where
  "pack_names [] buf_len out = out"
| "pack_names (child # children) buf_len out =
     (let name = basename child in
      if length out + length name + 1 > buf_len then out
      else pack_names children buf_len (out @ name @ [0]))"

definition sys_readdir :: "user_view \<Rightarrow> u64 \<Rightarrow> u64 \<Rightarrow> u64 \<Rightarrow> handler" where
  "sys_readdir uv descriptor buf_ptr buf_len k =
     (case get_file (k_pid k) descriptor (k_procs k) of
        None \<Rightarrow> failing EBADF k
      | Some file \<Rightarrow>
          if \<not> nd_is_directory (of_node file) then failing ENOTSUP k
          else
            (case read_dir (k_fs k) (open_file_path file) of
               None \<Rightarrow> failing ENOENT k
             | Some children \<Rightarrow>
                 copy_out_or_fault uv buf_ptr (pack_names children (unat buf_len) []) of_nat k))"

section \<open>Ports\<close>

definition ipc_result :: "(ipc_error, 'a) outcome \<times> ipc_state \<Rightarrow> ('a \<Rightarrow> u64) \<Rightarrow> handler" where
  "ipc_result r ret k =
     (case r of
        (Ok a, s') \<Rightarrow> Ok (ret a, k\<lparr>k_ipc := s'\<rparr>)
      | (Err e, s') \<Rightarrow> Ok (ipc_error_code e, k\<lparr>k_ipc := s'\<rparr>)
      | (Panic, s') \<Rightarrow> Panic)"

definition sys_port_create :: "user_view \<Rightarrow> u64 \<Rightarrow> u64 \<Rightarrow> handler" where
  "sys_port_create uv name_ptr name_len k =
     (if \<not> require CAP_IPC_CREATE k then failing EPERM k
      else if k_pid k = 0 then failing EPERM k
      else
        (case read_ipc_name uv name_ptr name_len k of
           Panic \<Rightarrow> Panic
         | Err _ \<Rightarrow> failing EINVAL k
         | Ok name \<Rightarrow> ipc_result (ipc_create (k_pid k) name (k_ipc k)) (\<lambda>h. h) k))"

definition sys_port_connect :: "user_view \<Rightarrow> u64 \<Rightarrow> u64 \<Rightarrow> handler" where
  "sys_port_connect uv name_ptr name_len k =
     (if \<not> require CAP_IPC_CONNECT k then failing EPERM k
      else
        (case read_ipc_name uv name_ptr name_len k of
           Panic \<Rightarrow> Panic
         | Err _ \<Rightarrow> failing EINVAL k
         | Ok name \<Rightarrow> ipc_result (ipc_connect name (k_ipc k), k_ipc k) (\<lambda>h. h) k))"

definition sys_port_send :: "user_view \<Rightarrow> u64 \<Rightarrow> u64 \<Rightarrow> u64 \<Rightarrow> handler" where
  "sys_port_send uv handle ptr len k =
     (if \<not> require CAP_IPC_CONNECT k then failing EPERM k
      else if k_pid k = 0 then failing EPERM k
      else if unat len > MAX_MESSAGE then failing EINVAL k
      else
        (case copy_in uv ptr (unat len) k of
           Panic \<Rightarrow> Panic
         | Err _ \<Rightarrow> failing EFAULT k
         | Ok bytes \<Rightarrow> ipc_result (ipc_send (k_pid k) handle bytes (k_ipc k)) of_nat k))"

definition sys_port_recv :: "user_view \<Rightarrow> u64 \<Rightarrow> u64 \<Rightarrow> u64 \<Rightarrow> handler" where
  "sys_port_recv uv handle ptr len k =
     (if k_pid k = 0 then failing EPERM k
      else
        (case ipc_recv (k_pid k) handle (k_ipc k) of
           (Panic, s') \<Rightarrow> Panic
         | (Err e, s') \<Rightarrow> Ok (ipc_error_code e, k\<lparr>k_ipc := s'\<rparr>)
         | (Ok m, s') \<Rightarrow>
             copy_out_or_fault uv ptr (take (min (length (ms_bytes m)) (unat len)) (ms_bytes m)) of_nat
               (k\<lparr>k_ipc := s'\<rparr>)))"

definition sys_port_close :: "u64 \<Rightarrow> handler" where
  "sys_port_close handle k =
     (if k_pid k = 0 then failing EPERM k
      else ipc_result (ipc_close (k_pid k) handle (k_ipc k)) (\<lambda>_. 0) k)"

section \<open>Surfaces, input and Realms\<close>

definition sys_surface_create :: "u64 \<Rightarrow> u64 \<Rightarrow> handler" where
  "sys_surface_create width height k =
     (if \<not> require CAP_SURFACE_CREATE k then failing EPERM k
      else
        (case current_profile (k_pid k) (k_procs k) of
           None \<Rightarrow> failing EPERM k
         | Some profile \<Rightarrow>
             (let mode = (if allows profile CAP_EXCLUSIVE_SCANOUT then Fullscreen else Windowed) in
              obind (create_surface (k_pid k) (rp_kind profile) (rp_name profile) (unat width) (unat height)
                       mode (k_comp k))
                (\<lambda>(r, c).
                   (case r of
                      Some sid \<Rightarrow> Ok (sid, k\<lparr>k_comp := c\<rparr>)
                    | None \<Rightarrow> failing ENOMEM (k\<lparr>k_comp := c\<rparr>))))))"

definition sys_surface_commit :: "user_view \<Rightarrow> u64 \<Rightarrow> u64 \<Rightarrow> u64 \<Rightarrow> handler" where
  "sys_surface_commit uv sid pixels_ptr len k =
     (if k_pid k = 0 then failing EPERM k
      else
        (case surface_geometry sid (k_pid k) (k_comp k) of
           None \<Rightarrow> failing EBADF k
         | Some (width, height) \<Rightarrow>
             (let expected = width * height * 4 in
              if usize_lim \<le> expected then Panic
              else if unat len \<noteq> expected then failing EINVAL k
              else
                obind (commit_surface_from_user (uv_va_ok uv) (uv_indices uv) (uv_mmu uv) (k_mem k)
                         sid (k_pid k) pixels_ptr expected (k_comp k))
                  (\<lambda>(ok, c).
                     if \<not> ok then failing EFAULT (k\<lparr>k_comp := c\<rparr>)
                     else
                       obind (present_throttled (k_ticks k) c (k_input k) (k_screen k))
                         (\<lambda>(c', inp', m'). Ok (0, k\<lparr>k_comp := c', k_input := inp', k_screen := m'\<rparr>))))))"

definition surface_info_bytes :: "surface_info \<Rightarrow> bytes" where
  "surface_info_bytes i = struct_bytes [si_width i, si_height i, si_stride i, si_bytes_per_pixel i]"

definition sys_surface_info :: "user_view \<Rightarrow> u64 \<Rightarrow> u64 \<Rightarrow> handler" where
  "sys_surface_info uv sid out_ptr k =
     (case surface_geometry sid (k_pid k) (k_comp k) of
        None \<Rightarrow> failing EBADF k
      | Some (width, height) \<Rightarrow>
          if usize_lim \<le> width * 4 then Panic
          else
            copy_out_or_fault uv out_ptr
              (surface_info_bytes \<lparr>si_width = of_nat width, si_height = of_nat height,
                                   si_stride = of_nat (width * 4), si_bytes_per_pixel = 4\<rparr>)
              (\<lambda>_. 0) k)"

definition input_event_bytes :: "input_event \<Rightarrow> bytes" where
  "input_event_bytes e = struct_bytes [ev_kind e, ev_code e, ev_x e, ev_y e]"

definition sys_input_poll :: "user_view \<Rightarrow> u64 \<Rightarrow> u64 \<Rightarrow> handler" where
  "sys_input_poll uv out_ptr max_events k =
     (if \<not> require CAP_INPUT_READ k then failing EPERM k
      else
        (let wanted = min (unat max_events) 64 in
         if wanted = 0 then Ok (0, k)
         else
           (case poll_events wanted (in_queue (k_input k)) of
              (events, q') \<Rightarrow>
                (let k' = k\<lparr>k_input := (k_input k)\<lparr>in_queue := q'\<rparr>\<rparr>; count = length events in
                 if count = 0 then Ok (0, k')
                 else copy_out_or_fault uv out_ptr (concat (map input_event_bytes events)) (\<lambda>_. of_nat count) k'))))"

definition realm_info_bytes :: "realm_info \<Rightarrow> bytes" where
  "realm_info_bytes i = struct_bytes [ri_kind i, ri_pid i, ri_capabilities i]"

definition sys_realm_info :: "user_view \<Rightarrow> u64 \<Rightarrow> handler" where
  "sys_realm_info uv out_ptr k =
     (case current_profile (k_pid k) (k_procs k) of
        None \<Rightarrow> failing EPERM k
      | Some profile \<Rightarrow>
          copy_out_or_fault uv out_ptr
            (realm_info_bytes \<lparr>ri_kind = rp_kind profile, ri_pid = k_pid k,
                               ri_capabilities = rp_capabilities profile\<rparr>)
            (\<lambda>_. 0) k)"

section \<open>The dispatcher\<close>

definition check_stack_alignment :: "u64 \<Rightarrow> kernel \<Rightarrow> kernel" where
  "check_stack_alignment rsp_at_call k =
     (if k_alignment_reported k then k
      else k\<lparr>k_alignment_reported := True,
             k_selftest := selftest_check (rsp_at_call mod 16 = 0) (k_selftest k)\<rparr>)"

text \<open>A call returns a word, or ends the program and never returns.\<close>

datatype sys_result = Returns u64 | Ends program_exit

definition returning :: "(unit, u64 \<times> kernel) outcome \<Rightarrow> (unit, sys_result \<times> kernel) outcome" where
  "returning m = obind m (\<lambda>(v, k). Ok (Returns v, k))"

definition sys_exit :: "u64 \<Rightarrow> kernel \<Rightarrow> (unit, sys_result \<times> kernel) outcome" where
  "sys_exit status_arg k =
     (if program_is_running k then Ok (Ends (Exited (ucast status_arg)), k)
      else returning (failing EINVAL k))"

definition sys_handler :: "user_view \<Rightarrow> u64 \<Rightarrow> u64 \<Rightarrow> u64 \<Rightarrow> u64 \<Rightarrow> kernel \<Rightarrow> (unit, sys_result \<times> kernel) outcome" where
  "sys_handler uv number arg1 arg2 arg3 k =
     (if number = SYS_EXIT then sys_exit arg1 k
      else if number = SYS_YIELD then returning (sys_yield k)
      else if number = SYS_WRITE then returning (sys_write uv arg1 arg2 arg3 k)
      else if number = SYS_TICKS then returning (Ok (of_nat (k_ticks k), k))
      else if number = SYS_UPTIME_MS then returning (obind (uptime_ms (k_ticks k)) (\<lambda>v. Ok (v, k)))
      else if number = SYS_GETPID then returning (Ok (k_pid k, k))
      else if number = SYS_OPEN then returning (sys_open uv arg1 arg2 arg3 k)
      else if number = SYS_READ then returning (sys_read uv arg1 arg2 arg3 k)
      else if number = SYS_CLOSE then returning (sys_close arg1 k)
      else if number = SYS_SEEK then returning (sys_seek arg1 arg2 arg3 k)
      else if number = SYS_STAT then returning (sys_stat uv arg1 arg2 arg3 k)
      else if number = SYS_READDIR then returning (sys_readdir uv arg1 arg2 arg3 k)
      else if number = SYS_WRITE_CSTR then returning (sys_write_cstr uv arg1 k)
      else if number = SYS_PORT_CREATE then returning (sys_port_create uv arg1 arg2 k)
      else if number = SYS_PORT_CONNECT then returning (sys_port_connect uv arg1 arg2 k)
      else if number = SYS_PORT_SEND then returning (sys_port_send uv arg1 arg2 arg3 k)
      else if number = SYS_PORT_RECV then returning (sys_port_recv uv arg1 arg2 arg3 k)
      else if number = SYS_PORT_CLOSE then returning (sys_port_close arg1 k)
      else if number = SYS_SURFACE_CREATE then returning (sys_surface_create arg1 arg2 k)
      else if number = SYS_SURFACE_COMMIT then returning (sys_surface_commit uv arg1 arg2 arg3 k)
      else if number = SYS_SURFACE_INFO then returning (sys_surface_info uv arg1 arg2 k)
      else if number = SYS_INPUT_POLL then returning (sys_input_poll uv arg1 arg2 k)
      else if number = SYS_REALM_INFO then returning (sys_realm_info uv arg1 k)
      else returning (failing ENOSYS k))"

definition dispatch ::
  "user_view \<Rightarrow> u64 \<Rightarrow> u64 \<Rightarrow> u64 \<Rightarrow> u64 \<Rightarrow> u64 \<Rightarrow> kernel \<Rightarrow> (unit, sys_result \<times> kernel) outcome" where
  "dispatch uv number arg1 arg2 arg3 rsp_at_call k =
     (let k1 = check_stack_alignment rsp_at_call k;
          k2 = k1\<lparr>k_syscalls := k_syscalls k1 + 1\<rparr>
      in sys_handler uv number arg1 arg2 arg3 k2)"

end
