(* ===== verification/SyscallProofs.thy ===== *)
theory SyscallProofs
  imports Syscall SchedulerProofs
begin

text \<open>
  What the system calls guarantee: the invariant of the kernel state that every call keeps, the
  bounds on what one call can touch, the gating by capabilities, and exact behaviour of reads.
\<close>

unbundle bit_operations_syntax

section \<open>The invariant of the kernel\<close>

text \<open>Open files: the extent of a file fits the address space and the position is inside it.\<close>

definition file_ok :: "open_file \<Rightarrow> bool" where
  "file_ok f \<longleftrightarrow>
     (nd_is_directory (of_node f) \<or> nd_offset (of_node f) + nd_len (of_node f) < usize_lim) \<and>
     of_position f \<le> nd_len (of_node f) \<and> nd_len (of_node f) < usize_lim"

definition procs_ok :: "processes \<Rightarrow> bool" where
  "procs_ok ps \<longleftrightarrow>
     bt_wf (pr_table ps) \<and>
     (\<forall>pid p d f. bt_get (pr_table ps) pid = Some p \<longrightarrow> table_get d (p_files p) = Some f \<longrightarrow> file_ok f)"

definition fb_ok :: "framebuffer option \<Rightarrow> bool" where
  "fb_ok fb \<longleftrightarrow> (case fb of None \<Rightarrow> True | Some f \<Rightarrow> max 1 (fb_width f) * max 1 (fb_height f) * 4 < usize_lim)"

definition small_surface :: "surface \<Rightarrow> bool" where
  "small_surface s \<longleftrightarrow> sf_width s * sf_height s * 4 < usize_lim"

text \<open>\<open>n\<close> bounds the number of calls so far, and with it the counters that calls advance.\<close>

definition kernel_ok :: "nat \<Rightarrow> kernel \<Rightarrow> bool" where
  "kernel_ok n k \<longleftrightarrow>
     procs_ok (k_procs k) \<and> fs_ok (k_fs k) \<and> table_ok n (k_ipc k) \<and>
     comp_ok (k_comp k) \<and> unat (cs_next_surface_id (k_comp k)) \<le> Suc n \<and>
     fb_ok (cs_framebuffer (k_comp k)) \<and> list_all small_surface (cs_surfaces (k_comp k)) \<and>
     policy_ok (k_ticks k) (k_sched k) \<and> k_ticks k * 1000 < usize_lim"

section \<open>What one call may touch\<close>

definition surface_owners :: "surface list \<Rightarrow> (u64 \<times> u64 \<times> u64) list" where
  "surface_owners ss = map (\<lambda>s. (sf_id s, sf_pid s, sf_realm_kind s)) ss"

definition printable :: "u8 \<Rightarrow> bool" where
  "printable b \<longleftrightarrow> b = 0x0A \<or> b = 0x09 \<or> (0x20 \<le> b \<and> b \<le> 0x7E)"

text \<open>Every process but the caller as it was; the caller with the same identity, rights and state.\<close>

definition procs_confined :: "u64 \<Rightarrow> processes \<Rightarrow> processes \<Rightarrow> bool" where
  "procs_confined pid ps ps' \<longleftrightarrow>
     pr_next_pid ps' = pr_next_pid ps \<and>
     (\<forall>q. if q = pid
          then map_option (\<lambda>p. p\<lparr>p_files := []\<rparr>) (bt_get (pr_table ps') q) =
               map_option (\<lambda>p. p\<lparr>p_files := []\<rparr>) (bt_get (pr_table ps) q)
          else bt_get (pr_table ps') q = bt_get (pr_table ps) q)"

text \<open>Ports of other processes keep identity and queue; messages of the caller may be added at the end.\<close>

definition ports_confined :: "u64 \<Rightarrow> ipc_state \<Rightarrow> ipc_state \<Rightarrow> bool" where
  "ports_confined pid s s' \<longleftrightarrow>
     (\<forall>h p. bt_get (ip_ports s) h = Some p \<and> pt_owner p \<noteq> pid \<longrightarrow>
        (\<exists>msgs d. (\<forall>m \<in> set msgs. ms_from m = pid) \<and>
           bt_get (ip_ports s') h = Some (p\<lparr>pt_queue := pt_queue p @ msgs, pt_dropped := d\<rparr>))) \<and>
     (\<forall>h p. bt_get (ip_ports s') h = Some p \<and> pt_owner p \<noteq> pid \<longrightarrow> bt_get (ip_ports s) h \<noteq> None)"

definition surfaces_confined :: "u64 \<Rightarrow> surface list \<Rightarrow> surface list \<Rightarrow> bool" where
  "surfaces_confined pid ss ss' \<longleftrightarrow>
     filter (\<lambda>t. fst (snd t) \<noteq> pid) (surface_owners ss') = filter (\<lambda>t. fst (snd t) \<noteq> pid) (surface_owners ss)"

definition memory_confined :: "user_view \<Rightarrow> (u64 \<Rightarrow> u8) \<Rightarrow> (u64 \<Rightarrow> u8) \<Rightarrow> bool" where
  "memory_confined uv m m' \<longleftrightarrow>
     (\<forall>a. m' a = m a \<or> user_byte (uv_va_ok uv) (uv_indices uv) (uv_mmu uv) True a)"

definition confined :: "user_view \<Rightarrow> kernel \<Rightarrow> kernel \<Rightarrow> bool" where
  "confined uv k k' \<longleftrightarrow>
     k_fs k' = k_fs k \<and> k_ticks k' = k_ticks k \<and>
     memory_confined uv (k_mem k) (k_mem k') \<and>
     procs_confined (k_pid k) (k_procs k) (k_procs k') \<and>
     ports_confined (k_pid k) (k_ipc k) (k_ipc k') \<and>
     surfaces_confined (k_pid k) (cs_surfaces (k_comp k)) (cs_surfaces (k_comp k')) \<and>
     (\<exists>out. k_console k' = k_console k @ out \<and> list_all printable out)"

text \<open>The two together, for the outcome of a handler.\<close>

definition good :: "user_view \<Rightarrow> nat \<Rightarrow> kernel \<Rightarrow> (unit, 'a \<times> kernel) outcome \<Rightarrow> bool" where
  "good uv n k m \<longleftrightarrow>
     (case m of Ok (v, k') \<Rightarrow> confined uv k k' \<and> kernel_ok (Suc n) k' | _ \<Rightarrow> False)"

lemma good_simps [simp]:
  "good uv n k (Ok (v, k')) \<longleftrightarrow> confined uv k k' \<and> kernel_ok (Suc n) k'"
  "\<not> good uv n k (Err e)" "\<not> good uv n k Panic"
  by (simp_all add: good_def)

section \<open>Frame rules\<close>

lemma memory_confined_refl [simp]: "memory_confined uv m m"
  by (simp add: memory_confined_def)

lemma procs_confined_refl [simp]: "procs_confined pid ps ps"
  by (simp add: procs_confined_def)

lemma ports_confined_refl [simp]: "ports_confined pid s s"
  unfolding ports_confined_def
proof (intro conjI allI impI)
  fix h p assume "bt_get (ip_ports s) h = Some p \<and> pt_owner p \<noteq> pid"
  then show "\<exists>msgs d. (\<forall>m \<in> set msgs. ms_from m = pid) \<and>
      bt_get (ip_ports s) h = Some (p\<lparr>pt_queue := pt_queue p @ msgs, pt_dropped := d\<rparr>)"
    by (intro exI [of _ "[]"] exI [of _ "pt_dropped p"]) simp
qed simp

lemma surfaces_confined_refl [simp]: "surfaces_confined pid ss ss"
  by (simp add: surfaces_confined_def)

lemma confined_refl [simp]: "confined uv k k"
  by (simp add: confined_def)

lemma confined_updates:
  "memory_confined uv (k_mem k) m \<Longrightarrow> confined uv k (k\<lparr>k_mem := m\<rparr>)"
  "procs_confined (k_pid k) (k_procs k) ps \<Longrightarrow> confined uv k (k\<lparr>k_procs := ps\<rparr>)"
  "ports_confined (k_pid k) (k_ipc k) s \<Longrightarrow> confined uv k (k\<lparr>k_ipc := s\<rparr>)"
  "surfaces_confined (k_pid k) (cs_surfaces (k_comp k)) (cs_surfaces c) \<Longrightarrow> confined uv k (k\<lparr>k_comp := c\<rparr>)"
  "list_all printable out \<Longrightarrow> confined uv k (k\<lparr>k_console := k_console k @ out\<rparr>)"
  "confined uv k (k\<lparr>k_input := inp\<rparr>)" "confined uv k (k\<lparr>k_sched := s'\<rparr>)"
  by (simp_all add: confined_def)

lemma kernel_ok_mono: "kernel_ok n k \<Longrightarrow> kernel_ok (Suc n) k"
  by (simp add: kernel_ok_def table_ok_mono)

lemma kernel_ok_updates:
  "kernel_ok n k \<Longrightarrow> kernel_ok (Suc n) (k\<lparr>k_mem := m\<rparr>)"
  "kernel_ok n k \<Longrightarrow> kernel_ok (Suc n) (k\<lparr>k_console := c\<rparr>)"
  "kernel_ok n k \<Longrightarrow> kernel_ok (Suc n) (k\<lparr>k_input := inp\<rparr>)"
  "kernel_ok n k \<Longrightarrow> procs_ok ps \<Longrightarrow> kernel_ok (Suc n) (k\<lparr>k_procs := ps\<rparr>)"
  "kernel_ok n k \<Longrightarrow> table_ok (Suc n) s \<Longrightarrow> kernel_ok (Suc n) (k\<lparr>k_ipc := s\<rparr>)"
  by (simp_all add: kernel_ok_def table_ok_mono)

lemma good_failing: "kernel_ok n k \<Longrightarrow> good uv n k (failing e k)"
  by (simp add: failing_def kernel_ok_mono)

lemma copy_in_spec:
  "copy_in uv ptr len k =
     (if len \<le> MAX_USER_TRANSFER \<and> user_range (uv_va_ok uv) (uv_indices uv) (uv_mmu uv) False ptr len
      then Ok (user_bytes (k_mem k) ptr len) else Err ())"
  by (simp add: copy_in_def copy_from_user_spec)

lemma copy_in_not_Panic [simp]: "copy_in uv ptr len k \<noteq> Panic"
  by (simp add: copy_in_spec)

lemma write_bytes_confined:
  assumes "user_range (uv_va_ok uv) (uv_indices uv) (uv_mmu uv) True ptr (length bs)"
  shows "memory_confined uv m (write_bytes bs ptr m)"
proof (cases "bs = []")
  case False
  then have r: "unat ptr + length bs \<le> 2 ^ 64"
    "\<forall>a. unat ptr \<le> unat a \<and> unat a < unat ptr + length bs \<longrightarrow>
       user_byte (uv_va_ok uv) (uv_indices uv) (uv_mmu uv) True a"
    using assms by (auto simp: user_range_def)
  then show ?thesis by (auto simp: memory_confined_def write_bytes_at)
qed simp

lemma copy_out_cases:
  obtains (ok) "copy_out uv ptr bs k = Ok (length bs, k\<lparr>k_mem := write_bytes bs ptr (k_mem k)\<rparr>)"
      "length bs \<le> MAX_USER_TRANSFER" "user_range (uv_va_ok uv) (uv_indices uv) (uv_mmu uv) True ptr (length bs)"
      "memory_confined uv (k_mem k) (write_bytes bs ptr (k_mem k))"
  | (fault) "copy_out uv ptr bs k = Err ()"
  using write_bytes_confined
  by (cases "length bs \<le> MAX_USER_TRANSFER \<and> user_range (uv_va_ok uv) (uv_indices uv) (uv_mmu uv) True ptr (length bs)")
    (auto simp: copy_out_def copy_to_user_spec)

lemma good_copy_out: "kernel_ok n k \<Longrightarrow> good uv n k (copy_out_or_fault uv ptr bs ret k)"
  by (cases rule: copy_out_cases [of uv ptr bs k])
    (simp_all add: copy_out_or_fault_def good_failing kernel_ok_updates confined_updates)

section \<open>Console and scheduling\<close>

lemma hex_digit_printable:
  assumes "n < 16"
  shows "printable (hex_digit_byte n)"
proof -
  have "\<forall>m \<in> set [0..<16]. n = of_nat m \<longrightarrow> printable (hex_digit_byte n)"
    by (simp add: upt_rec printable_def hex_digit_byte_def)
  moreover have "unat n \<in> set [0..<16]" using assms by (simp add: word_less_nat_alt)
  moreover have "n = of_nat (unat n)" by simp
  ultimately show ?thesis by blast
qed

lemma console_printable: "list_all printable (concat (map console_bytes bs))"
proof -
  have "list_all printable (console_bytes b)" for b
  proof (cases "printable b")
    case True
    then show ?thesis by (simp add: console_bytes_def printable_def)
  next
    case False
    have "unat (drop_bit 4 b) < 16" using unat_bound [of b] by (simp add: drop_bit_eq_div unat_div)
    then have hi: "drop_bit 4 b < 16" by (simp add: word_less_nat_alt)
    have "b AND 0xF \<le> 0xF" by (rule word_and_le1)
    then have lo: "b AND 0xF < 16" by (simp add: word_le_nat_alt word_less_nat_alt)
    have "\<not> (b = 0x0A \<or> b = 0x09 \<or> (0x20 \<le> b \<and> b \<le> 0x7E))" using False unfolding printable_def .
    then have "console_bytes b = [0x5C, 0x78, hex_digit_byte (drop_bit 4 b), hex_digit_byte (b AND 0xF)]"
      by (simp only: console_bytes_def if_False)
    moreover have "printable 0x5C" "printable 0x78" by (simp_all add: printable_def)
    ultimately show ?thesis using hex_digit_printable [OF hi] hex_digit_printable [OF lo] by simp
  qed
  then show ?thesis by (induction bs) (simp_all add: list_all_append)
qed

lemma good_write: "kernel_ok n k \<Longrightarrow> good uv n k (sys_write uv d ptr len k)"
  by (auto simp: sys_write_def copy_in_spec good_failing kernel_ok_updates confined_updates console_printable)

text \<open>A range that was read does not reach the end of the address space.\<close>

lemma copy_in_below:
  assumes "copy_in uv ptr len k = Ok bs" "0 < len"
  shows "unat ptr + len < 2 ^ 64" "length bs = len"
proof -
  have r: "unat ptr + len \<le> 2 ^ 64" "len \<le> MAX_USER_TRANSFER"
    "\<forall>a. unat ptr \<le> unat a \<and> unat a < unat ptr + len \<longrightarrow> user_byte (uv_va_ok uv) (uv_indices uv) (uv_mmu uv) False a"
    using assms by (auto simp: copy_in_spec user_range_def split: if_splits)
  obtain m where m: "len = Suc m" using assms(2) by (cases len) simp_all
  have u: "unat (ptr + of_nat m) = unat ptr + m"
    using r(1,2) m by (subst unat_add_lem [THEN iffD1]) (simp_all add: unat_of_nat take_bit_eq_mod MAX_USER_TRANSFER_def)
  then have "user_byte (uv_va_ok uv) (uv_indices uv) (uv_mmu uv) False (ptr + of_nat m)"
    using r(3) m by simp
  then have "unat (ptr + of_nat m) < 0x7ffffffff000"
    by (simp add: user_byte_def is_user_address_def USER_SPACE_END_def word_less_nat_alt)
  with u m show "unat ptr + len < 2 ^ 64" by simp
  show "length bs = len" using assms(1) by (auto simp: copy_in_spec user_bytes_def split: if_splits)
qed

lemma cstr_scan_total: "\<exists>v. cstr_scan uv k len address = Ok v"
proof (induction uv k len address rule: cstr_scan.induct)
  case (1 uv k len address)
  show ?case
  proof (cases "len < MAX_CSTR")
    case True
    let ?w = "cstr_chunk address len"
    show ?thesis
    proof (cases "copy_in uv address ?w k")
      case (Ok chunk)
      note b = copy_in_below [OF Ok cstr_chunk_pos [OF True]]
      have "unat (address + of_nat ?w) = unat address + ?w"
        using b(1) by (subst unat_add_lem [THEN iffD1]) (simp_all add: unat_of_nat take_bit_eq_mod)
      then have nw: "\<not> address + of_nat ?w < address" by (simp add: word_less_nat_alt)
      show ?thesis
        using 1 [OF True refl Ok _ nw] True Ok nw
        by (subst cstr_scan.simps) (simp add: Let_def split: option.splits)
    qed (use True in \<open>simp_all add: cstr_scan.simps [of uv k len]\<close>)
  qed (simp add: cstr_scan.simps)
qed

lemma good_write_cstr:
  assumes "kernel_ok n k"
  shows "good uv n k (sys_write_cstr uv ptr k)"
proof -
  obtain len where len: "cstr_scan uv k 0 ptr = Ok len" using cstr_scan_total by blast
  then show ?thesis
    using good_write [OF assms] good_failing [OF assms] kernel_ok_mono [OF assms] copy_in_not_Panic [of uv ptr 1 k]
    by (simp add: sys_write_cstr_def split: outcome.splits)
qed

lemma good_yield:
  assumes "kernel_ok n k"
  shows "good uv n k (sys_yield k)"
proof -
  obtain r s' where y: "yield_from_syscall (k_ticks k) (k_sched k) = (r, s')" by force
  then have p: "plan_switch VoluntaryFromUser (k_ticks k) (k_sched k) = (r, s')" by (simp add: yield_from_syscall_def)
  have pol: "policy_ok (k_ticks k) (k_sched k)" using assms by (simp add: kernel_ok_def)
  have "(\<exists>sw. r = Ok sw) \<and> policy_ok (k_ticks k) s'"
  proof (cases "sc_current (k_sched k)")
    case None
    from plan_switch_idle [OF pol order_refl this p] show ?thesis by simp
  next
    case (Some cur)
    from plan_switch_policy [OF pol order_refl this p] show ?thesis by simp
  qed
  then obtain sw where "r = Ok sw" "policy_ok (k_ticks k) s'" by blast
  moreover have "kernel_ok (Suc n) (k\<lparr>k_sched := s'\<rparr>)"
    using kernel_ok_mono [OF assms] calculation(2) by (simp add: kernel_ok_def)
  ultimately show ?thesis using y by (simp add: sys_yield_def confined_updates)
qed

section \<open>Files\<close>

lemma with_files_good:
  assumes "procs_ok ps"
    and "\<And>files. \<forall>d f. table_get d files = Some f \<longrightarrow> file_ok f \<Longrightarrow>
      \<forall>d f. table_get d (snd (F files)) = Some f \<longrightarrow> file_ok f"
  shows "procs_ok (snd (with_files pid F ps))" "procs_confined pid ps (snd (with_files pid F ps))"
proof -
  have wf: "bt_wf (pr_table ps)" using assms(1) by (simp add: procs_ok_def)
  have f: "\<forall>d f. table_get d (p_files p) = Some f \<longrightarrow> file_ok f" if "bt_get (pr_table ps) q = Some p" for q p
    using assms(1) that unfolding procs_ok_def by blast
  have "file_ok f" if h1: "bt_get (pr_table (snd (with_files pid F ps))) q = Some p"
    and h2: "table_get d (p_files p) = Some f" for q p d f
  proof (cases "q = pid \<and> pid \<noteq> 0")
    case True
    then obtain p0 where "bt_get (pr_table ps) pid = Some p0" "p = p0\<lparr>p_files := snd (F (p_files p0))\<rparr>"
      using h1 by (auto simp: with_files_get [OF wf])
    then show ?thesis using assms(2) [OF f] h2 by fastforce
  next
    case False
    then have "bt_get (pr_table ps) q = Some p" using h1 by (simp add: with_files_get [OF wf] split: if_splits)
    then show ?thesis using f h2 by blast
  qed
  then show "procs_ok (snd (with_files pid F ps))"
    using with_files_wf [OF wf] unfolding procs_ok_def by blast
  have n: "pr_next_pid (snd (with_files pid F ps)) = pr_next_pid ps"
    by (simp add: with_files_def split: option.splits)
  show "procs_confined pid ps (snd (with_files pid F ps))"
    unfolding procs_confined_def n with_files_get [OF wf] by (auto simp: option.map_comp comp_def)
qed

lemma seek_files_ok:
  assumes "\<forall>d f. table_get d files = Some f \<longrightarrow> file_ok f"
    and "\<And>f. table_get e files = Some f \<Longrightarrow> pos \<le> nd_len (of_node f)"
  shows "\<forall>d f. table_get d (snd (table_seek e pos files)) = Some f \<longrightarrow> file_ok f"
proof (intro allI impI)
  fix d f assume s: "table_get d (snd (table_seek e pos files)) = Some f"
  show "file_ok f"
  proof (cases "d = e")
    case True
    then obtain g where g: "table_get e files = Some g" "f = g\<lparr>of_position := pos\<rparr>"
      using s by (auto simp: table_seek_get)
    with assms(1) have "file_ok g" by blast
    with g assms(2) [OF g(1)] show ?thesis by (simp add: file_ok_def)
  next
    case False
    then show ?thesis using s assms(1) by (auto simp: table_seek_get)
  qed
qed

lemma close_files_ok:
  assumes "\<forall>d f. table_get d files = Some f \<longrightarrow> file_ok f"
  shows "\<forall>d f. table_get d (snd (table_close e files)) = Some f \<longrightarrow> file_ok f"
  using assms fd.close_get [of e files, OF surjective_pairing] by simp

lemma open_files_ok:
  assumes "\<forall>d f. table_get d files = Some f \<longrightarrow> file_ok f" "file_ok fl"
  shows "\<forall>d f. table_get d (snd (table_open fl files)) = Some f \<longrightarrow> file_ok f"
  using assms fd.open_get [of fl files, OF surjective_pairing] by simp

lemma open_file_new_ok:
  assumes "fs_ok st" "fs_lookup st path = Some node" "open_file_new node path' = Some f"
  shows "file_ok f"
proof -
  obtain fs :: file_system where "node_ok (fs_image fs) node" using fs_lookup_node_ok [OF assms(1,2)] by blast
  with assms(3) show ?thesis
    by (auto simp: open_file_new_def file_ok_def node_ok_def usize_lim_def split: if_splits)
qed

lemma procs_updates:
  assumes "kernel_ok n k" "procs_ok ps" "procs_confined (k_pid k) (k_procs k) ps"
  shows "good uv n k (Ok (v, k\<lparr>k_procs := ps\<rparr>))"
  using assms by (simp add: kernel_ok_updates confined_updates)

lemma good_open:
  assumes "kernel_ok n k"
  shows "good uv n k (sys_open uv ptr len flags k)"
proof -
  have ok: "procs_ok (k_procs k)" "fs_ok (k_fs k)" using assms by (simp_all add: kernel_ok_def)
  have o: "good uv n k (case process_open_file (k_pid k) fl (k_procs k) of
      (Some descriptor, ps') \<Rightarrow> Ok (descriptor, k\<lparr>k_procs := ps'\<rparr>)
    | (None, ps') \<Rightarrow> failing ENOMEM (k\<lparr>k_procs := ps'\<rparr>))" if "file_ok fl" for fl
  proof -
    let ?F = "\<lambda>files. case table_open fl files of (d, files') \<Rightarrow> (of_nat d :: u64, files')"
    have "snd (?F files) = snd (table_open fl files)" for files by (simp split: prod.split)
    then have "\<forall>d f. table_get d (snd (?F files)) = Some f \<longrightarrow> file_ok f"
      if "\<forall>d f. table_get d files = Some f \<longrightarrow> file_ok f" for files
      using open_files_ok [OF that \<open>file_ok fl\<close>] by simp
    note w = with_files_good [of _ ?F, OF ok(1) this]
    show ?thesis
      using procs_updates [OF assms w(1,2)]
      by (auto simp: process_open_file_def failing_def split: prod.splits option.splits)
  qed
  show ?thesis
    using good_failing [OF assms] kernel_ok_mono [OF assms] o open_file_new_ok [OF ok(2)]
    by (auto simp: sys_open_def read_user_path_def split: outcome.splits option.splits)
qed

lemma seek_good:
  assumes "kernel_ok n k" "get_file (k_pid k) d (k_procs k) = Some f" "pos \<le> nd_len (of_node f)"
  shows "procs_ok (snd (set_file_position (k_pid k) d pos (k_procs k)))"
    "procs_confined (k_pid k) (k_procs k) (snd (set_file_position (k_pid k) d pos (k_procs k)))"
proof -
  have ok: "procs_ok (k_procs k)" using assms(1) by (simp add: kernel_ok_def)
  obtain p where p: "k_pid k \<noteq> 0" "bt_get (pr_table (k_procs k)) (k_pid k) = Some p" "table_get (unat d) (p_files p) = Some f"
    using assms(2) by (auto simp: get_file_eq split: if_splits option.splits)
  text \<open>Any other table is left alone, so the bound is only needed for the file that is open.\<close>
  let ?F = "\<lambda>files. if table_get (unat d) files = Some f then table_seek (unat d) pos files else (False, files)"
  have "\<forall>e g. table_get e (snd (?F files)) = Some g \<longrightarrow> file_ok g"
    if "\<forall>e g. table_get e files = Some g \<longrightarrow> file_ok g" for files
  proof (cases "table_get (unat d) files = Some f")
    case True
    then have "\<And>g. table_get (unat d) files = Some g \<Longrightarrow> pos \<le> nd_len (of_node g)" using assms(3) by simp
    then have "\<forall>e g. table_get e (snd (table_seek (unat d) pos files)) = Some g \<longrightarrow> file_ok g"
      by (rule seek_files_ok [OF that])
    with True show ?thesis by simp
  qed (use that in simp)
  note w = with_files_good [of _ ?F, OF ok this]
  have "snd (set_file_position (k_pid k) d pos (k_procs k)) = snd (with_files (k_pid k) ?F (k_procs k))"
    using p by (simp add: set_file_position_def with_files_def split: prod.splits)
  with w show "procs_ok (snd (set_file_position (k_pid k) d pos (k_procs k)))"
    "procs_confined (k_pid k) (k_procs k) (snd (set_file_position (k_pid k) d pos (k_procs k)))" by simp_all
qed

lemma get_file_ok: "kernel_ok n k \<Longrightarrow> get_file pid d (k_procs k) = Some f \<Longrightarrow> file_ok f"
  unfolding kernel_ok_def procs_ok_def get_file_eq by (auto split: if_splits option.splits)

lemma fs_read_total:
  assumes "file_ok f" "\<not> nd_is_directory (of_node f)"
  obtains bs where "fs_read st (of_node f) (of_position f) m = Ok bs" "of_position f + length bs \<le> nd_len (of_node f)"
proof -
  have l: "nd_offset (of_node f) + nd_len (of_node f) < usize_lim" "of_position f \<le> nd_len (of_node f)"
    using assms by (auto simp: file_ok_def)
  then have "nd_offset (of_node f) + of_position f + min (nd_len (of_node f) - of_position f) m < usize_lim" by linarith
  then have "\<exists>bs. fs_read st (of_node f) (of_position f) m = Ok bs"
    using assms(2) by (simp add: fs_read_def Let_def split: option.split)
  then obtain bs where bs: "fs_read st (of_node f) (of_position f) m = Ok bs" by blast
  have "of_position f + length bs \<le> nd_len (of_node f)" using fs_read_length [OF bs] l(2) by linarith
  with bs show thesis by (rule that)
qed

lemma good_read:
  assumes "kernel_ok n k"
  shows "good uv n k (sys_read uv d ptr len k)"
proof (cases "d = FD_STDIN \<or> d = FD_STDOUT \<or> d = FD_STDERR \<or> get_file (k_pid k) d (k_procs k) = None")
  case True
  then show ?thesis using good_failing [OF assms] kernel_ok_mono [OF assms] by (auto simp: sys_read_def)
next
  case False
  then obtain f where f: "get_file (k_pid k) d (k_procs k) = Some f" by blast
  note fok = get_file_ok [OF assms f]
  show ?thesis
  proof (cases "nd_is_directory (of_node f)")
    case True
    then show ?thesis using f False good_failing [OF assms] by (simp add: sys_read_def)
  next
    case reg: False
    obtain bs where bs: "fs_read (k_fs k) (of_node f) (of_position f) (min (unat len) MAX_USER_TRANSFER) = Ok bs"
      and pos: "of_position f + length bs \<le> nd_len (of_node f)"
      using fs_read_total [OF fok reg] by blast
    have nov: "\<not> usize_lim \<le> of_position f + length bs" using pos fok by (simp add: file_ok_def)
    note sk = seek_good [OF assms f pos]
    show ?thesis
    proof (cases rule: copy_out_cases [of uv ptr bs k])
      case ok
      have "good uv n k (Ok (of_nat (length bs) :: u64, k\<lparr>k_mem := write_bytes bs ptr (k_mem k),
          k_procs := snd (set_file_position (k_pid k) d (of_position f + length bs) (k_procs k))\<rparr>))"
        using kernel_ok_mono [OF assms] sk ok(4) by (simp add: confined_def kernel_ok_def)
      then show ?thesis using False f reg bs ok(1) nov by (simp add: sys_read_def)
    next
      case fault
      then show ?thesis using False f reg bs good_failing [OF assms] by (simp add: sys_read_def)
    qed
  qed
qed

lemma good_seek:
  assumes "kernel_ok n k"
  shows "good uv n k (sys_seek d off whence k)"
proof (cases "get_file (k_pid k) d (k_procs k)")
  case None
  then show ?thesis using good_failing [OF assms] by (simp add: sys_seek_def)
next
  case (Some f)
  have "good uv n k (Ok (v, k\<lparr>k_procs := snd (set_file_position (k_pid k) d (min pos (node_size (of_node f))) (k_procs k))\<rparr>))"
    for pos and v :: u64
    using procs_updates [OF assms seek_good [OF assms Some]] by (simp add: node_size_def)
  then show ?thesis
    using Some good_failing [OF assms]
    by (auto simp: sys_seek_def failing_def Let_def split: option.splits prod.splits)
      (metis snd_conv good_simps(1))+
qed

lemma good_close:
  assumes "kernel_ok n k"
  shows "good uv n k (sys_close d k)"
proof -
  have ok: "procs_ok (k_procs k)" using assms by (simp add: kernel_ok_def)
  note w = with_files_good [where F = "table_close (unat d)" and pid = "k_pid k", OF ok close_files_ok]
  have "snd (close_file (k_pid k) d (k_procs k)) = snd (with_files (k_pid k) (table_close (unat d)) (k_procs k))"
    by (simp add: close_file_def split: prod.split option.split)
  then have "good uv n k (Ok (v, k\<lparr>k_procs := snd (close_file (k_pid k) d (k_procs k))\<rparr>))" for v :: u64
    using procs_updates [OF assms w] by simp
  then show ?thesis
    by (cases "close_file (k_pid k) d (k_procs k)") (simp add: sys_close_def failing_def)
qed

lemma good_stat: "kernel_ok n k \<Longrightarrow> good uv n k (sys_stat uv ptr len out k)"
  using good_failing good_copy_out kernel_ok_mono
  by (auto simp: sys_stat_def read_user_path_def split: outcome.splits option.splits)

lemma good_readdir: "kernel_ok n k \<Longrightarrow> good uv n k (sys_readdir uv d ptr len k)"
  using good_failing good_copy_out by (auto simp: sys_readdir_def split: option.splits)

section \<open>Ports\<close>

lemma ports_confined_modify:
  assumes "bt_wf (ip_ports s)" "bt_get (ip_ports s) h = Some p"
    and "pt_owner p = pid \<and> pt_owner (f p) = pid \<or>
      (\<exists>msgs d. (\<forall>m \<in> set msgs. ms_from m = pid) \<and> f p = p\<lparr>pt_queue := pt_queue p @ msgs, pt_dropped := d\<rparr>)"
  shows "ports_confined pid s (s\<lparr>ip_ports := bt_modify (ip_ports s) h f\<rparr>)"
  unfolding ports_confined_def
proof (intro conjI allI impI)
  fix i q assume q: "bt_get (ip_ports s) i = Some q \<and> pt_owner q \<noteq> pid"
  show "\<exists>msgs d. (\<forall>m \<in> set msgs. ms_from m = pid) \<and>
      bt_get (ip_ports (s\<lparr>ip_ports := bt_modify (ip_ports s) h f\<rparr>)) i =
        Some (q\<lparr>pt_queue := pt_queue q @ msgs, pt_dropped := d\<rparr>)"
  proof (cases "i = h")
    case True
    then show ?thesis using q assms by (auto simp: bt.get_modify)
  next
    case False
    then show ?thesis using q assms(1)
      by (intro exI [of _ "[]"] exI [of _ "pt_dropped q"]) (simp add: bt.get_modify)
  qed
qed (use assms in \<open>auto simp: bt.get_modify split: if_splits\<close>)

lemma create_ports:
  assumes "table_ok n s" "ipc_create pid name s = (r, s')"
  shows "ports_confined pid s s'" "r \<noteq> Panic"
proof -
  have wf: "bt_wf (ip_ports s)" using assms(1) by blast
  have fresh: "bt_get (ip_ports s) (ip_next s) = None"
    using assms(1) by (cases "bt_get (ip_ports s) (ip_next s)") (auto simp: table_ok_def port_ok_def)
  let ?new = "\<lambda>nm. \<lparr>pt_handle = ip_next s, pt_name = nm, pt_owner = pid, pt_queue = [], pt_dropped = 0\<rparr>"
  have c: "s' = s \<or> (\<exists>nm. s' = s\<lparr>ip_next := ip_next s + 1, ip_ports := bt_insert (ip_ports s) (ip_next s) (?new nm)\<rparr>)"
    "r \<noteq> Panic"
    using assms(2) by (auto simp: ipc_create_def Let_def split: if_splits)
  show "r \<noteq> Panic" by (rule c(2))
  have "ports_confined pid s (s\<lparr>ip_next := ip_next s + 1, ip_ports := bt_insert (ip_ports s) (ip_next s) (?new nm)\<rparr>)" for nm
    unfolding ports_confined_def
  proof (intro conjI allI impI)
    fix i q assume q: "bt_get (ip_ports s) i = Some q \<and> pt_owner q \<noteq> pid"
    then show "\<exists>msgs d. (\<forall>m \<in> set msgs. ms_from m = pid) \<and>
        bt_get (ip_ports (s\<lparr>ip_next := ip_next s + 1, ip_ports := bt_insert (ip_ports s) (ip_next s) (?new nm)\<rparr>)) i =
          Some (q\<lparr>pt_queue := pt_queue q @ msgs, pt_dropped := d\<rparr>)"
      using fresh wf by (intro exI [of _ "[]"] exI [of _ "pt_dropped q"]) (auto simp: bt.get_insert)
  qed (use wf in \<open>auto simp: bt.get_insert split: if_splits\<close>)
  with c(1) show "ports_confined pid s s'" by auto
qed

lemma send_ports:
  assumes "table_ok n s" "n < 2 ^ 64 - 2" "ipc_send pid h bytes s = (r, s')"
  shows "ports_confined pid s s'" "r \<noteq> Panic"
proof -
  have wf: "bt_wf (ip_ports s)" using assms(1) by blast
  from assms(3) have "ports_confined pid s s' \<and> r \<noteq> Panic"
  proof (cases rule: send_cases)
    case (full p)
    have "ports_confined pid s s'" unfolding full(4)
      by (rule ports_confined_modify [OF wf full(1)]) (rule disjI2, rule exI [of _ "[]"], rule exI [of _ "pt_dropped p + 1"], simp)
    with full show ?thesis by simp
  next
    case (overflow p)
    have "unat (pt_dropped p) \<le> n" using table_port [OF assms(1) overflow(1)] by (simp add: port_ok_def)
    then show ?thesis using assms(2) overflow(3) by (simp add: unsigned_minus_1_eq_mask mask_eq_exp_minus_1)
  next
    case (accepted p)
    have "ports_confined pid s s'" unfolding accepted(5)
      by (rule ports_confined_modify [OF wf accepted(1)])
        (rule disjI2, rule exI [of _ "[\<lparr>ms_from = pid, ms_bytes = bytes\<rparr>]"], rule exI [of _ "pt_dropped p"], simp)
    with accepted show ?thesis by simp
  qed simp
  then show "ports_confined pid s s'" "r \<noteq> Panic" by blast+
qed

lemma recv_ports:
  assumes "table_ok n s" "ipc_recv pid h s = (r, s')"
  shows "ports_confined pid s s'" "r \<noteq> Panic"
proof -
  have wf: "bt_wf (ip_ports s)" using assms(1) by blast
  from assms(2) have "ports_confined pid s s' \<and> r \<noteq> Panic"
  proof (cases rule: recv_cases)
    case (delivered p m rest)
    have "ports_confined pid s s'" unfolding delivered(5)
      by (rule ports_confined_modify [OF wf delivered(1)]) (simp add: delivered(2))
    with delivered show ?thesis by simp
  qed simp
  then show "ports_confined pid s s'" "r \<noteq> Panic" by blast+
qed

lemma close_ports:
  assumes "table_ok n s"
  shows "ports_confined pid s (snd (ipc_close pid h s))" "fst (ipc_close pid h s) \<noteq> Panic"
proof -
  have wf: "bt_wf (ip_ports s)" using assms by blast
  show "fst (ipc_close pid h s) \<noteq> Panic" by (simp add: ipc_close_def split: option.split)
  have "ports_confined pid s (s\<lparr>ip_ports := bt_remove (ip_ports s) h\<rparr>)"
    if "bt_get (ip_ports s) h = Some p" "pt_owner p = pid" for p
    unfolding ports_confined_def
  proof (intro conjI allI impI)
    fix i q assume q: "bt_get (ip_ports s) i = Some q \<and> pt_owner q \<noteq> pid"
    then show "\<exists>msgs d. (\<forall>m \<in> set msgs. ms_from m = pid) \<and>
        bt_get (ip_ports (s\<lparr>ip_ports := bt_remove (ip_ports s) h\<rparr>)) i =
          Some (q\<lparr>pt_queue := pt_queue q @ msgs, pt_dropped := d\<rparr>)"
      using wf that by (intro exI [of _ "[]"] exI [of _ "pt_dropped q"]) (auto simp: bt.get_remove)
  qed (use wf in \<open>auto simp: bt.get_remove split: if_splits\<close>)
  then show "ports_confined pid s (snd (ipc_close pid h s))"
    by (auto simp: ipc_close_def split: option.split)
qed

lemma good_ipc_result:
  assumes "kernel_ok n k" "fst r \<noteq> Panic" "table_ok (Suc n) (snd r)" "ports_confined (k_pid k) (k_ipc k) (snd r)"
  shows "good uv n k (ipc_result r ret k)"
  using assms by (cases r; cases "fst r") (auto simp: ipc_result_def confined_updates kernel_ok_updates)

lemma kernel_ports: "kernel_ok n k \<Longrightarrow> table_ok n (k_ipc k)"
  by (simp add: kernel_ok_def)

lemma good_port_create:
  assumes "kernel_ok n k" "n < 2 ^ 64 - 2"
  shows "good uv n k (sys_port_create uv ptr len k)"
proof -
  have "good uv n k (ipc_result (ipc_create (k_pid k) name (k_ipc k)) (\<lambda>h. h) k)" for name
    using create_ports [OF kernel_ports [OF assms(1)] surjective_pairing]
      create_table [OF kernel_ports [OF assms(1)] _ surjective_pairing] assms
    by (intro good_ipc_result) auto
  then show ?thesis
    using good_failing [OF assms(1)] by (auto simp: sys_port_create_def read_ipc_name_def split: outcome.splits)
qed

lemma good_port_connect:
  assumes "kernel_ok n k"
  shows "good uv n k (sys_port_connect uv ptr len k)"
proof -
  have "good uv n k (ipc_result (ipc_connect name (k_ipc k), k_ipc k) (\<lambda>h. h) k)" for name
    using table_ok_mono [OF kernel_ports [OF assms]] assms
    by (intro good_ipc_result) (auto simp: ipc_connect_def Let_def)
  then show ?thesis
    using good_failing [OF assms] by (auto simp: sys_port_connect_def read_ipc_name_def split: outcome.splits)
qed

lemma good_port_send:
  assumes "kernel_ok n k" "n < 2 ^ 64 - 2"
  shows "good uv n k (sys_port_send uv h ptr len k)"
proof -
  have "good uv n k (ipc_result (ipc_send (k_pid k) h bytes (k_ipc k)) of_nat k)" for bytes
    using send_ports [OF kernel_ports [OF assms(1)] assms(2) surjective_pairing]
      send_table [OF kernel_ports [OF assms(1)] surjective_pairing] assms(1)
    by (intro good_ipc_result) auto
  then show ?thesis
    using good_failing [OF assms(1)] by (auto simp: sys_port_send_def split: outcome.splits)
qed

lemma good_port_recv:
  assumes "kernel_ok n k"
  shows "good uv n k (sys_port_recv uv h ptr len k)"
proof -
  obtain r s' where r: "ipc_recv (k_pid k) h (k_ipc k) = (r, s')" by force
  note p = recv_ports [OF kernel_ports [OF assms] r] recv_table [OF kernel_ports [OF assms] r]
  have k1: "confined uv k (k\<lparr>k_ipc := s'\<rparr>)" "kernel_ok (Suc n) (k\<lparr>k_ipc := s'\<rparr>)"
    using p assms by (simp_all add: confined_updates kernel_ok_updates)
  have "good uv n k (copy_out_or_fault uv ptr bs of_nat (k\<lparr>k_ipc := s'\<rparr>))" for bs
    using k1 by (cases rule: copy_out_cases [of uv ptr bs "k\<lparr>k_ipc := s'\<rparr>"])
      (auto simp: copy_out_or_fault_def failing_def confined_def kernel_ok_def)
  then show ?thesis
    using good_failing [OF assms] k1 p(2) r by (auto simp: sys_port_recv_def split: outcome.splits)
qed

lemma good_port_close:
  assumes "kernel_ok n k"
  shows "good uv n k (sys_port_close h k)"
proof -
  note t = kernel_ports [OF assms]
  from good_ipc_result [OF assms close_ports(2) [OF t] close_table [OF t] close_ports(1) [OF t]]
  show ?thesis using good_failing [OF assms] by (auto simp: sys_port_close_def)
qed

section \<open>Surfaces\<close>

lemma surface_owners_cong:
  assumes "map sf_id ss' = map sf_id ss" "map sf_pid ss' = map sf_pid ss" "map sf_realm_kind ss' = map sf_realm_kind ss"
  shows "surface_owners ss' = surface_owners ss"
proof -
  have "surface_owners t = zip (map sf_id t) (zip (map sf_pid t) (map sf_realm_kind t))" for t
    by (induction t) (simp_all add: surface_owners_def)
  with assms show ?thesis by simp
qed

lemma tile_rects_size:
  "tile_rects n x y w h = Ok rs \<Longrightarrow> (tx, ty, tw, th) \<in> set rs \<Longrightarrow> tw \<le> w \<and> th \<le> h"
proof (induction n x y w h arbitrary: rs rule: tile_rects.induct)
  case (3 n x y width height)
  show ?case
  proof (cases "width \<ge> height")
    case True
    then obtain rs' where "tile_rects (Suc n) (x + (width - TILE_GAP) div 2 + TILE_GAP) y
        (width - ((width - TILE_GAP) div 2 + TILE_GAP)) height = Ok rs'"
      "rs = (x, y, (width - TILE_GAP) div 2, height) # rs'" "\<not> width < TILE_GAP"
      using 3(3) by (auto simp: Let_def outcome_simps split: if_splits)
    then show ?thesis using 3(1) True 3(4) by fastforce
  next
    case False
    then obtain rs' where "tile_rects (Suc n) x (y + (height - TILE_GAP) div 2 + TILE_GAP)
        width (height - ((height - TILE_GAP) div 2 + TILE_GAP)) = Ok rs'"
      "rs = (x, y, width, (height - TILE_GAP) div 2) # rs'" "\<not> height < TILE_GAP"
      using 3(3) by (auto simp: Let_def outcome_simps split: if_splits)
    then show ?thesis using 3(2) False 3(4) by fastforce
  qed
qed auto

lemma place_tiles_small:
  assumes "list_all small_surface ss" "\<forall>(tx, ty, tw, th) \<in> set rs. max tw 1 * max th 1 * 4 < usize_lim"
  shows "list_all small_surface (place_tiles ss rs)"
  using assms
proof (induction ss rs rule: place_tiles.induct)
  case (2 s ss rs)
  then show ?case
    by (auto simp: place_tile_def surface_resize_def small_surface_def split: list.splits prod.splits)
qed simp

lemma relayout_small:
  assumes "fb_ok (cs_framebuffer cs)" "list_all small_surface (cs_surfaces cs)" "relayout cs = Ok cs'"
  shows "list_all small_surface (cs_surfaces cs')"
proof (cases "cs_framebuffer cs")
  case None
  then show ?thesis using assms by (simp add: relayout_def)
next
  case (Some fb)
  show ?thesis
  proof (cases "cs_layout cs = Floating")
    case True
    then show ?thesis using assms Some
      by (auto simp: relayout_def content_region_def list_all_iff small_surface_def)
  next
    case False
    consider "cs' = cs" | n rs where
      "tile_rects n (0 + TILE_GAP) (TRUST_BAR_HEIGHT + TILE_GAP) (fb_width fb - TILE_GAP * 2)
         (fb_height fb - TRUST_BAR_HEIGHT - TILE_GAP * 2) = Ok rs"
      "cs_surfaces cs' = place_tiles (cs_surfaces cs) rs"
      using assms(3) Some False
      by (auto simp: relayout_def content_region_def Let_def outcome_simps split: if_splits)
    then show ?thesis
    proof cases
      case 1
      then show ?thesis using assms(2) by simp
    next
      case (2 n rs)
      have "max tw 1 * max th 1 * 4 < usize_lim" if "(tx, ty, tw, th) \<in> set rs" for tx ty tw th
      proof -
        have "tw \<le> fb_width fb" "th \<le> fb_height fb" using tile_rects_size [OF 2(1) that] by auto
        then have "max tw 1 * max th 1 * 4 \<le> max 1 (fb_width fb) * max 1 (fb_height fb) * 4"
          by (intro mult_le_mono) auto
        with assms(1) Some show ?thesis by (simp add: fb_ok_def)
      qed
      then show ?thesis unfolding 2(2) using assms(2) by (intro place_tiles_small) auto
    qed
  qed
qed

lemma relayout_next: "relayout cs = Ok cs' \<Longrightarrow> cs_next_surface_id cs' = cs_next_surface_id cs \<and> cs_layout cs' = cs_layout cs"
  by (auto simp: relayout_def content_region_def Let_def outcome_simps split: option.splits if_splits)

lemma relayout_floating: "cs_layout cs = Floating \<Longrightarrow> \<exists>cs'. relayout cs = Ok cs'"
  by (simp add: relayout_def content_region_def split: option.split)

lemma tile_rects_not_Err: "tile_rects n x y w h \<noteq> Err e"
  by (induction n x y w h rule: tile_rects.induct) (auto simp: Let_def outcome_simps)

lemma relayout_not_Err: "relayout cs \<noteq> Err e"
  by (auto simp: relayout_def content_region_def Let_def outcome_simps tile_rects_not_Err split: option.split)

text \<open>The part of the invariant that speaks of the compositor.\<close>

definition screen_ok :: "nat \<Rightarrow> compositor_state \<Rightarrow> bool" where
  "screen_ok n c \<longleftrightarrow>
     comp_ok c \<and> unat (cs_next_surface_id c) \<le> Suc n \<and> fb_ok (cs_framebuffer c) \<and>
     list_all small_surface (cs_surfaces c)"

lemma screen_ok_frame:
  "screen_ok n c \<Longrightarrow> cs_surfaces c' = cs_surfaces c \<Longrightarrow> cs_next_surface_id c' = cs_next_surface_id c \<Longrightarrow>
   cs_framebuffer c' = cs_framebuffer c \<Longrightarrow> screen_ok n c'"
  by (auto simp: screen_ok_def intro: comp_ok_frame)

lemma screen_relayout:
  assumes "screen_ok n c" "relayout c = Ok c'"
  shows "screen_ok n c'" "surface_owners (cs_surfaces c') = surface_owners (cs_surfaces c)"
proof -
  have ok: "comp_ok c" "fb_ok (cs_framebuffer c)" "list_all small_surface (cs_surfaces c)"
    using assms(1) by (simp_all add: screen_ok_def)
  note r = relayout_ok [OF ok(1) assms(2)]
  show "screen_ok n c'"
    using assms(1) r(1,2) relayout_small [OF ok(2,3) assms(2)] relayout_next [OF assms(2)] by (simp add: screen_ok_def)
  show "surface_owners (cs_surfaces c') = surface_owners (cs_surfaces c)"
    using r(6-8) by (rule surface_owners_cong)
qed

lemma kernel_screen:
  "kernel_ok n k \<Longrightarrow> screen_ok n (k_comp k)"
  "kernel_ok n k \<Longrightarrow> screen_ok (Suc n) c \<Longrightarrow> kernel_ok (Suc n) (k\<lparr>k_comp := c\<rparr>)"
  by (simp_all add: kernel_ok_def screen_ok_def table_ok_mono)

lemma good_surface_create:
  assumes "kernel_ok n k" "n < 2 ^ 64 - 2"
  shows "good uv n k (sys_surface_create w h k) \<or> (sys_surface_create w h k = Panic \<and> cs_layout (k_comp k) = Tiling)"
proof -
  note ok = kernel_screen(1) [OF assms(1)]
  have "(\<exists>r c. create_surface pid kind title w0 h0 mode (k_comp k) = Ok (r, c) \<and> screen_ok (Suc n) c \<and>
      surfaces_confined pid (cs_surfaces (k_comp k)) (cs_surfaces c)) \<or>
    create_surface pid kind title w0 h0 mode (k_comp k) = Panic \<and> cs_layout (k_comp k) = Tiling"
    for pid kind title w0 h0 mode
    using refl [of "create_surface pid kind title w0 h0 mode (k_comp k)"]
  proof (cases rule: create_surface_cases)
    case refused
    then show ?thesis using ok by (auto simp: screen_ok_def)
  next
    case wrapped
    then show ?thesis using ok assms(2)
      by (simp add: screen_ok_def unsigned_minus_1_eq_mask mask_eq_exp_minus_1)
  next
    case (created s)
    let ?c = "(k_comp k)\<lparr>cs_next_surface_id := cs_next_surface_id (k_comp k) + 1,
      cs_surfaces := cs_surfaces (k_comp k) @ [s], cs_focused := Some (cs_next_surface_id (k_comp k))\<rparr>"
    have u: "unat (cs_next_surface_id (k_comp k)) \<le> Suc n" using ok by (simp add: screen_ok_def)
    then have inc: "unat (cs_next_surface_id (k_comp k) + 1) = Suc (unat (cs_next_surface_id (k_comp k)))"
      using assms(2) by (intro unat_inc) simp
    have "x * 4 < usize_lim" if "x \<le> MAX_SURFACE_PIXELS" for x
      using that by (simp add: MAX_SURFACE_PIXELS_def usize_lim_def)
    from this [OF created(9)] have small: "small_surface s" by (simp only: small_surface_def)
    have c: "screen_ok (Suc n) ?c"
      using ok created(1,5) inc u small
      by (auto simp: screen_ok_def comp_ok_def list_all_iff word_less_nat_alt less_Suc_eq)
    have owners: "filter (\<lambda>t. fst (snd t) \<noteq> pid) (surface_owners (cs_surfaces ?c)) =
        filter (\<lambda>t. fst (snd t) \<noteq> pid) (surface_owners (cs_surfaces (k_comp k)))"
      by (simp add: surface_owners_def created(2))
    show ?thesis
    proof (cases "relayout ?c")
      case (Ok c')
      then show ?thesis using created(8) screen_relayout [OF c Ok] owners by (simp add: surfaces_confined_def)
    next
      case (Err e)
      then show ?thesis by (simp add: relayout_not_Err)
    next
      case Panic
      then have "cs_layout ?c \<noteq> Floating" using relayout_floating [of ?c] by auto
      then show ?thesis using created(8) Panic by (cases "cs_layout (k_comp k)") simp_all
    qed
  qed
  note c = this
  show ?thesis
  proof (cases "\<not> require CAP_SURFACE_CREATE k \<or> current_profile (k_pid k) (k_procs k) = None")
    case True
    then show ?thesis using good_failing [OF assms(1)] by (auto simp: sys_surface_create_def)
  next
    case False
    then obtain p where p: "current_profile (k_pid k) (k_procs k) = Some p" "require CAP_SURFACE_CREATE k" by blast
    let ?m = "if allows p CAP_EXCLUSIVE_SCANOUT then Fullscreen else Windowed"
    from c [of "k_pid k" "rp_kind p" "rp_name p" "unat w" "unat h" ?m] show ?thesis
    proof (elim disjE exE conjE)
      fix r cs assume cs: "create_surface (k_pid k) (rp_kind p) (rp_name p) (unat w) (unat h) ?m (k_comp k) = Ok (r, cs)"
        "screen_ok (Suc n) cs" "surfaces_confined (k_pid k) (cs_surfaces (k_comp k)) (cs_surfaces cs)"
      have "good uv n k (Ok (v, k\<lparr>k_comp := cs\<rparr>))" for v :: u64
        using cs(2,3) kernel_screen(2) [OF assms(1)] by (simp add: confined_updates)
      then show ?thesis using p cs(1) by (simp add: sys_surface_create_def Let_def failing_def split: option.split)
    qed (use p in \<open>simp add: sys_surface_create_def Let_def\<close>)
  qed
qed

lemma put_pixels_small: "list_all small_surface ss \<Longrightarrow> list_all small_surface (put_pixels sid px ss)"
  by (induction ss) (auto simp: small_surface_def)

lemma put_pixels_owners: "surface_owners (put_pixels sid px ss) = surface_owners ss"
  by (induction ss) (auto simp: surface_owners_def)

lemma commit_total:
  "\<exists>r c. commit_surface_from_user va_ok indices mmu mem sid pid ptr len cs = Ok (r, c) \<and>
     (cs_surfaces c = cs_surfaces cs \<or> (\<exists>px. cs_surfaces c = put_pixels sid px (cs_surfaces cs))) \<and>
     cs_next_surface_id c = cs_next_surface_id cs \<and> cs_framebuffer c = cs_framebuffer cs"
  by (auto simp: commit_surface_from_user_def copy_from_user_into_def user_range_is_accessible_def
      range_is_user_spec reject_commit_def split: option.split)

lemma commit_screen:
  assumes "screen_ok n cs" "commit_surface_from_user va_ok indices mmu mem sid pid ptr len cs = Ok (r, c)"
  shows "screen_ok n c" "surface_owners (cs_surfaces c) = surface_owners (cs_surfaces cs)"
proof -
  have k: "cs_surfaces c = cs_surfaces cs \<or> (\<exists>px. cs_surfaces c = put_pixels sid px (cs_surfaces cs))"
    "cs_next_surface_id c = cs_next_surface_id cs" "cs_framebuffer c = cs_framebuffer cs"
    using commit_total [of va_ok indices mmu mem sid pid ptr len cs] assms(2) by auto
  have "comp_ok cs" using assms(1) by (simp add: screen_ok_def)
  from commit_ok(1) [OF this assms(2)] show "screen_ok n c"
    using assms(1) k put_pixels_small by (auto simp: screen_ok_def)
  show "surface_owners (cs_surfaces c) = surface_owners (cs_surfaces cs)"
    using k(1) put_pixels_owners by auto
qed

lemma present_screen:
  assumes "screen_ok n cs" "present cs inp m = Ok (c, i, m')"
  shows "screen_ok n c" "surface_owners (cs_surfaces c) = surface_owners (cs_surfaces cs)"
proof -
  obtain cs1 where t: "(if in_layout_toggle inp then toggle_layout cs else Ok cs) = Ok cs1"
    and d: "draw_frame cs1 (inp\<lparr>in_layout_toggle := False\<rparr>) m = Ok (c, m')"
    using assms(2) unfolding present_def take_layout_toggle_def prod.case outcome_simps by auto
  have "cs1 = cs \<or> (\<exists>l. relayout (cs\<lparr>cs_layout := l\<rparr>) = Ok cs1)"
    using t by (auto simp: toggle_layout_def set_layout_def split: if_splits)
  then have c1: "screen_ok n cs1 \<and> surface_owners (cs_surfaces cs1) = surface_owners (cs_surfaces cs)"
  proof (elim disjE exE)
    fix l assume r: "relayout (cs\<lparr>cs_layout := l\<rparr>) = Ok cs1"
    have "screen_ok n (cs\<lparr>cs_layout := l\<rparr>)" by (rule screen_ok_frame [OF assms(1)]) simp_all
    from screen_relayout [OF this r] show ?thesis by simp
  qed (use assms(1) in simp)
  have "c = cs1 \<or> c = cs1\<lparr>cs_frames := cs_frames cs1 + 1\<rparr>"
    using d by (auto simp: draw_frame_def content_region_def Let_def outcome_simps split: option.splits)
  then show "screen_ok n c" "surface_owners (cs_surfaces c) = surface_owners (cs_surfaces cs)"
    using c1 screen_ok_frame [of n cs1 c] by auto
qed

lemma present_total:
  assumes "screen_ok n cs" "\<not> in_layout_toggle inp"
  shows "\<exists>r. present cs inp m = Ok r"
proof -
  have "comp_ok cs" using assms(1) by (simp add: screen_ok_def)
  from draw_frame_ok [OF this, of "inp\<lparr>in_layout_toggle := False\<rparr>" m] obtain c m' where
    "draw_frame cs (inp\<lparr>in_layout_toggle := False\<rparr>) m = Ok (c, m')" by force
  with assms(2) show ?thesis by (simp add: present_def take_layout_toggle_def)
qed

lemma present_not_Err: "present cs inp m \<noteq> Err e"
proof -
  have "toggle_layout cs \<noteq> Err e" for e
    by (simp add: toggle_layout_def set_layout_def relayout_not_Err)
  moreover have "draw_frame cs i m \<noteq> Err e" for cs i m e
  proof -
    have "draw_surfaces fb t ss m1 \<noteq> Err e" for fb t ss m1 e
      by (induction ss arbitrary: m1) (auto simp: outcome_simps draw_surface_def content_region_def Let_def)
    then show ?thesis by (auto simp: draw_frame_def content_region_def Let_def outcome_simps split: option.split)
  qed
  ultimately show ?thesis by (auto simp: present_def take_layout_toggle_def outcome_simps)
qed

lemma geometry_small:
  assumes "list_all small_surface (cs_surfaces cs)" "list_all surface_ok (cs_surfaces cs)"
    "surface_geometry sid pid cs = Some (w, h)"
  shows "w * h * 4 < usize_lim" "w * 4 < usize_lim"
proof -
  obtain s where s: "s \<in> set (cs_surfaces cs)" "sf_width s = w" "sf_height s = h"
    using assms(3) by (fastforce simp: surface_geometry_def find_Some_iff in_set_conv_nth)
  then have *: "w * h * 4 < usize_lim" "0 < h"
    using assms(1,2) by (auto simp: list_all_iff small_surface_def surface_ok_def)
  then show "w * h * 4 < usize_lim" by simp
  have "w * 4 \<le> w * h * 4" using *(2) by (cases h) simp_all
  from le_less_trans [OF this *(1)] show "w * 4 < usize_lim" .
qed

lemma good_surface_commit:
  assumes "kernel_ok n k"
  shows "good uv n k (sys_surface_commit uv sid ptr len k) \<or>
    (sys_surface_commit uv sid ptr len k = Panic \<and> in_layout_toggle (k_input k))"
proof (cases "k_pid k = 0 \<or> surface_geometry sid (k_pid k) (k_comp k) = None")
  case True
  then show ?thesis using good_failing [OF assms] by (auto simp: sys_surface_commit_def)
next
  case False
  then obtain w h where g: "surface_geometry sid (k_pid k) (k_comp k) = Some (w, h)" "k_pid k \<noteq> 0" by auto
  note ok = kernel_screen(1) [OF assms]
  have nov: "\<not> usize_lim \<le> w * h * 4"
    using geometry_small(1) [OF _ _ g(1)] ok by (simp add: screen_ok_def comp_ok_def)
  obtain r c where c: "commit_surface_from_user (uv_va_ok uv) (uv_indices uv) (uv_mmu uv) (k_mem k)
      sid (k_pid k) ptr (w * h * 4) (k_comp k) = Ok (r, c)"
    using commit_total by blast
  note cs = commit_screen [OF ok c]
  have rej: "good uv n k (failing EFAULT (k\<lparr>k_comp := c\<rparr>))"
    using cs kernel_screen(2) [OF assms, of c]
    by (simp add: failing_def confined_updates surfaces_confined_def screen_ok_def)
  define c1 where "c1 = c\<lparr>cs_last_present_tick := k_ticks k\<rparr>"
  have c1: "screen_ok n c1" "surface_owners (cs_surfaces c1) = surface_owners (cs_surfaces (k_comp k))"
    using cs screen_ok_frame [of n c c1] by (simp_all add: c1_def)
  have fin: "good uv n k (Ok (0 :: u64, k\<lparr>k_comp := c', k_input := i, k_screen := m'\<rparr>))"
    if "screen_ok n c'" "surface_owners (cs_surfaces c') = surface_owners (cs_surfaces (k_comp k))" for c' i m'
    using that kernel_ok_mono [OF assms] by (simp add: confined_def surfaces_confined_def kernel_ok_def screen_ok_def)
  let ?p = "present_throttled (k_ticks k) c (k_input k) (k_screen k)"
  have "(\<exists>c' i m'. ?p = Ok (c', i, m') \<and> screen_ok n c' \<and>
      surface_owners (cs_surfaces c') = surface_owners (cs_surfaces (k_comp k))) \<or> (?p = Panic \<and> in_layout_toggle (k_input k))"
  proof (cases "cs_frames c > 0 \<and> cs_last_present_tick c = k_ticks k")
    case True
    then show ?thesis using cs by (simp add: present_throttled_def)
  next
    case False
    then have p: "?p = present c1 (k_input k) (k_screen k)" by (auto simp: present_throttled_def c1_def)
    show ?thesis
    proof (cases "present c1 (k_input k) (k_screen k)")
      case (Ok r)
      then show ?thesis using p present_screen [OF c1(1)] c1(2) by (cases r) auto
    qed (use p present_not_Err present_total [OF c1(1), of "k_input k" "k_screen k"] in auto)
  qed
  then show ?thesis
    using g nov c rej fin good_failing [OF assms] by (auto simp: sys_surface_commit_def Let_def)
qed

lemma good_surface_info:
  assumes "kernel_ok n k"
  shows "good uv n k (sys_surface_info uv sid ptr k)"
proof (cases "surface_geometry sid (k_pid k) (k_comp k)")
  case None
  then show ?thesis using good_failing [OF assms] by (simp add: sys_surface_info_def)
next
  case (Some g)
  obtain w h where g: "g = (w, h)" by force
  have "\<not> usize_lim \<le> w * 4"
    using geometry_small(2) [OF _ _ Some [unfolded g]] assms by (simp add: kernel_ok_def comp_ok_def)
  then show ?thesis using Some g good_copy_out [OF assms] by (simp add: sys_surface_info_def)
qed

section \<open>Input, Realms and the clock\<close>

lemma good_input_poll:
  assumes "kernel_ok n k"
  shows "good uv n k (sys_input_poll uv ptr m k)"
proof -
  obtain evs q where p: "poll_events (min (unat m) 64) (in_queue (k_input k)) = (evs, q)" by force
  let ?k = "k\<lparr>k_input := (k_input k)\<lparr>in_queue := q\<rparr>\<rparr>"
  have k1: "confined uv k ?k" "kernel_ok (Suc n) ?k"
    using assms by (simp_all add: confined_updates kernel_ok_updates)
  have "good uv n k (copy_out_or_fault uv ptr bs ret ?k)" for bs ret
    using k1 by (cases rule: copy_out_cases [of uv ptr bs ?k])
      (auto simp: copy_out_or_fault_def failing_def confined_def kernel_ok_def)
  then show ?thesis
    using good_failing [OF assms] kernel_ok_mono [OF assms] k1 p by (simp add: sys_input_poll_def Let_def)
qed

lemma good_realm_info: "kernel_ok n k \<Longrightarrow> good uv n k (sys_realm_info uv ptr k)"
  using good_failing good_copy_out by (auto simp: sys_realm_info_def split: option.splits)

lemma good_uptime: "kernel_ok n k \<Longrightarrow> good uv n k (obind (uptime_ms (k_ticks k)) (\<lambda>v. Ok (v, k)))"
  using kernel_ok_mono [of n k] by (auto simp: uptime_ms_def kernel_ok_def)

section \<open>The dispatcher\<close>

lemma good_returning: "good uv n k m \<Longrightarrow> good uv n k (returning m)"
  by (auto simp: good_def returning_def split: outcome.splits)

lemma good_exit: "kernel_ok n k \<Longrightarrow> good uv n k (sys_exit status k)"
  using good_returning [OF good_failing] kernel_ok_mono by (auto simp: sys_exit_def)

lemma good_plain: "kernel_ok n k \<Longrightarrow> good uv n k (Ok (v, k))"
  by (simp add: kernel_ok_mono)

lemma good_if: "(c \<Longrightarrow> good uv n k a) \<Longrightarrow> (\<not> c \<Longrightarrow> good uv n k b) \<Longrightarrow> good uv n k (if c then a else b)"
  by simp

lemmas good_handlers = good_exit good_plain good_failing good_write good_write_cstr good_yield good_open good_read good_close
  good_seek good_stat good_readdir good_port_create good_port_connect good_port_send good_port_recv
  good_port_close good_surface_info good_input_poll good_realm_info good_uptime

text \<open>The two calls that can panic, and when.\<close>

definition layout_hazard :: "u64 \<Rightarrow> kernel \<Rightarrow> bool" where
  "layout_hazard number k \<longleftrightarrow>
     number = SYS_SURFACE_CREATE \<and> cs_layout (k_comp k) = Tiling \<or>
     number = SYS_SURFACE_COMMIT \<and> in_layout_toggle (k_input k)"

lemma handler_good:
  assumes "kernel_ok n k" "n < 2 ^ 64 - 2"
  shows "good uv n k (sys_handler uv number a1 a2 a3 k) \<or>
    (sys_handler uv number a1 a2 a3 k = Panic \<and> layout_hazard number k)"
proof (cases "number = SYS_SURFACE_CREATE \<or> number = SYS_SURFACE_COMMIT")
  case False
  then have "good uv n k (sys_handler uv number a1 a2 a3 k)"
    unfolding sys_handler_def by (intro good_if good_returning good_handlers assms) (use False in blast)+
  then show ?thesis ..
next
  case True
  then consider "number = SYS_SURFACE_CREATE" "sys_handler uv number a1 a2 a3 k = returning (sys_surface_create a1 a2 k)"
    | "number = SYS_SURFACE_COMMIT" "sys_handler uv number a1 a2 a3 k = returning (sys_surface_commit uv a1 a2 a3 k)"
    by (auto simp: sys_handler_def abi_defs)
  then show ?thesis
  proof cases
    case 1
    then show ?thesis using good_surface_create [OF assms, of uv a1 a2] good_returning
      by (auto simp: layout_hazard_def returning_def)
  next
    case 2
    then show ?thesis using good_surface_commit [OF assms(1), of uv a1 a2 a3] good_returning
      by (auto simp: layout_hazard_def returning_def)
  qed
qed

definition counted :: "u64 \<Rightarrow> kernel \<Rightarrow> kernel" where
  "counted rsp k = (check_stack_alignment rsp k)\<lparr>k_syscalls := k_syscalls k + 1\<rparr>"

lemma dispatch_eq: "dispatch uv number a1 a2 a3 rsp k = sys_handler uv number a1 a2 a3 (counted rsp k)"
  by (simp add: dispatch_def counted_def check_stack_alignment_def Let_def)

lemma counted_simps [simp]:
  "k_procs (counted rsp k) = k_procs k" "k_sched (counted rsp k) = k_sched k" "k_fs (counted rsp k) = k_fs k"
  "k_ipc (counted rsp k) = k_ipc k" "k_comp (counted rsp k) = k_comp k" "k_input (counted rsp k) = k_input k"
  "k_ticks (counted rsp k) = k_ticks k" "k_mem (counted rsp k) = k_mem k" "k_console (counted rsp k) = k_console k"
  "k_boot_supervisor (counted rsp k) = k_boot_supervisor k" "k_screen (counted rsp k) = k_screen k" "k_pid (counted rsp k) = k_pid k" "require r (counted rsp k) = require r k"
  by (simp_all add: counted_def check_stack_alignment_def k_pid_def require_def)

lemma counted_ok [simp]: "kernel_ok n (counted rsp k) \<longleftrightarrow> kernel_ok n k"
  by (simp add: kernel_ok_def)

lemma counted_confined: "confined uv (counted rsp k) k' \<longleftrightarrow> confined uv k k'"
  by (simp add: confined_def)

lemma get_file_seek:
  assumes "bt_wf (pr_table ps)" "get_file pid d ps = Some f"
  shows "get_file q e (snd (set_file_position pid d pos ps)) =
    (if q = pid \<and> e = d then Some (f\<lparr>of_position := pos\<rparr>) else get_file q e ps)"
proof -
  have s: "snd (set_file_position pid d pos ps) = snd (with_files pid (table_seek (unat d) pos) ps)"
    by (simp add: set_file_position_def split: prod.split option.split)
  obtain p where p: "pid \<noteq> 0" "bt_get (pr_table ps) pid = Some p" "table_get (unat d) (p_files p) = Some f"
    using assms(2) by (auto simp: get_file_eq split: if_splits option.splits)
  then show ?thesis
    unfolding s get_file_with_files [OF assms(1)]
    by (auto simp: table_seek_get get_file_eq word_unat_eq_iff [symmetric])
qed

section \<open>Properties\<close>

definition required_right :: "u64 \<Rightarrow> u64 option" where
  "required_right number =
     (if number = SYS_OPEN \<or> number = SYS_STAT then Some CAP_FILE_READ
      else if number = SYS_PORT_CREATE then Some CAP_IPC_CREATE
      else if number = SYS_PORT_CONNECT \<or> number = SYS_PORT_SEND then Some CAP_IPC_CONNECT
      else if number = SYS_SURFACE_CREATE then Some CAP_SURFACE_CREATE
      else if number = SYS_INPUT_POLL then Some CAP_INPUT_READ
      else None)"

lemma gated_refused:
  assumes "required_right number = Some r" "\<not> require r k"
  shows "dispatch uv number a1 a2 a3 rsp k = Ok (Returns (encode_error EPERM), counted rsp k)"
proof -
  have d: "\<not> require r (counted rsp k)" using assms(2) by simp
  have "number \<in> {SYS_OPEN, SYS_STAT, SYS_PORT_CREATE, SYS_PORT_CONNECT, SYS_PORT_SEND, SYS_SURFACE_CREATE, SYS_INPUT_POLL}"
    using assms(1) by (auto simp: required_right_def split: if_splits)
  then show ?thesis
    unfolding dispatch_eq using d assms(1)
    by (elim insertE emptyE)
      (simp_all add: sys_handler_def required_right_def returning_def failing_def sys_open_def sys_stat_def
        sys_port_create_def sys_port_connect_def sys_port_send_def sys_surface_create_def sys_input_poll_def abi_defs)
qed

text \<open>C25. Capabilities gate the calls that need them. When no process is current, or the Realm of the
  current process lacks the right, then opening or inspecting a file, creating or connecting to
  a port, sending, creating a surface and polling input return \<^verbatim>\<open>EPERM\<close> whatever their arguments
  are, and the only thing that changes in the kernel is its count of calls and the one-time
  report on stack alignment.\<close>

theorem syscalls_gated:
  assumes "required_right number = Some r"
    and "\<forall>p. k_pid k \<noteq> 0 \<and> bt_get (pr_table (k_procs k)) (k_pid k) = Some p \<longrightarrow> \<not> allows (p_profile p) r"
  shows "dispatch uv number a1 a2 a3 rsp k = Ok (Returns (encode_error EPERM), counted rsp k)"
proof (rule gated_refused [OF assms(1)])
  show "\<not> require r k"
    using assms(2) by (auto simp: require_def current_profile_def split: if_splits option.splits)
qed



text \<open>C28. A read delivers the file. For a descriptor open on a regular file of the mounted file system,
  a read of \<open>len\<close> bytes into a writable buffer returns the number of bytes from the current
  position to the end of the file, cut at \<open>len\<close> and at the transfer limit, puts exactly these
  bytes into the buffer, and moves this descriptor's position, and no other's, past them. Into a
  buffer that is not writable it returns \<^verbatim>\<open>EFAULT\<close> and does not move the position.\<close>

theorem read_delivers:
  assumes "kernel_ok n k" "FD_FIRST_DYNAMIC \<le> d" "get_file (k_pid k) d (k_procs k) = Some f"
    "k_fs k = Some fs" "node_ok (fs_image fs) (of_node f)" "\<not> nd_is_directory (of_node f)"
    "bs = take (min (unat len) MAX_USER_TRANSFER)
       (drop (of_position f) (take (nd_len (of_node f)) (drop (nd_offset (of_node f)) (fs_image fs))))"
  shows "if user_range (uv_va_ok uv) (uv_indices uv) (uv_mmu uv) True ptr (length bs)
    then \<exists>k'. dispatch uv SYS_READ d ptr len rsp k = Ok (Returns (of_nat (length bs)), k') \<and>
      user_bytes (k_mem k') ptr (length bs) = bs \<and>
      (\<forall>q e. get_file q e (k_procs k') =
         (if q = k_pid k \<and> e = d then Some (f\<lparr>of_position := of_position f + length bs\<rparr>) else get_file q e (k_procs k)))
    else dispatch uv SYS_READ d ptr len rsp k = Ok (Returns (encode_error EFAULT), counted rsp k)"
proof -
  let ?k = "counted rsp k"
  have fd: "d \<noteq> FD_STDIN" "d \<noteq> FD_STDOUT" "d \<noteq> FD_STDERR"
    using assms(2) by (auto simp: abi_defs word_le_nat_alt)
  have read: "fs_read (k_fs ?k) (of_node f) (of_position f) (min (unat len) MAX_USER_TRANSFER) = Ok bs"
    unfolding assms(7) using fs_read_file [OF assms(5,6)] assms(4) by simp
  have len: "length bs \<le> MAX_USER_TRANSFER" unfolding assms(7) by simp
  have fok: "file_ok f" by (rule get_file_ok [OF assms(1,3)])
  have "of_position f + length bs \<le> nd_len (of_node f)"
    using fs_read_length [OF read] fok unfolding file_ok_def by linarith
  then have nov: "\<not> usize_lim \<le> of_position f + length bs" using fok by (simp add: file_ok_def)
  have h: "dispatch uv SYS_READ d ptr len rsp k = returning (sys_read uv d ptr len ?k)"
    by (simp add: dispatch_eq sys_handler_def abi_defs)
  have wf: "bt_wf (pr_table (k_procs k))" using assms(1) by (simp add: kernel_ok_def procs_ok_def)
  show ?thesis
  proof (cases "user_range (uv_va_ok uv) (uv_indices uv) (uv_mmu uv) True ptr (length bs)")
    case True
    let ?m = "write_bytes bs ptr (k_mem k)"
    let ?ps = "snd (set_file_position (k_pid k) d (of_position f + length bs) (k_procs k))"
    have out: "copy_out uv ptr bs ?k = Ok (length bs, ?k\<lparr>k_mem := ?m\<rparr>)"
      using True len by (simp add: copy_out_def copy_to_user_spec)
    have "dispatch uv SYS_READ d ptr len rsp k = Ok (Returns (of_nat (length bs)), ?k\<lparr>k_mem := ?m, k_procs := ?ps\<rparr>)"
      using fd assms(3,6) read out nov by (simp add: h sys_read_def returning_def)
    moreover have "unat ptr + length bs \<le> 2 ^ 64"
      using True unat_bound [of ptr] by (auto simp: user_range_def)
    then have "user_bytes ?m ptr (length bs) = bs" by (rule user_bytes_written)
    moreover have "get_file q e ?ps =
        (if q = k_pid k \<and> e = d then Some (f\<lparr>of_position := of_position f + length bs\<rparr>) else get_file q e (k_procs k))" for q e
      by (rule get_file_seek [OF wf assms(3)])
    ultimately show ?thesis using True by (auto intro!: exI [of _ "?k\<lparr>k_mem := ?m, k_procs := ?ps\<rparr>"])
  next
    case False
    then have "copy_out uv ptr bs ?k = Err ()" by (simp add: copy_out_def copy_to_user_spec)
    then show ?thesis
      using False fd assms(3,6) read by (simp add: h sys_read_def returning_def failing_def)
  qed
qed

section \<open>A concrete kernel\<close>

text \<open>
  For the witnesses: the process 7 of the Home Realm runs, with \<^verbatim>\<open>/a\<close> of the small file system open
  on descriptor 3, one byte into it. Addresses are canonical and indexed as on x86-64, and every
  page is mapped writable for the program.
\<close>

definition demo_open :: open_file where
  "demo_open = \<lparr>of_node = \<lparr>nd_offset = 1, nd_len = 3, nd_is_directory = False\<rparr>, of_position = 1,
     of_path = [SLASH, 97] @ replicate 118 0, of_path_len = 2\<rparr>"

definition demo_kernel :: kernel where
  "demo_kernel =
     \<lparr>k_procs = \<lparr>pr_next_pid = 8, pr_table = [(7, demo_process\<lparr>p_files := [None, None, None, Some demo_open]\<rparr>)]\<rparr>,
      k_sched = sched_new\<lparr>sc_current := Some ((task_new (demo_stack 1))\<lparr>tk_pid := 7\<rparr>)\<rparr>,
      k_fs = Some tiny_fs, k_ipc = ipc_init, k_comp = compositor_static, k_input = input_init,
      k_ticks = 0, k_ring3_preemptions = 0, k_mem = (\<lambda>_. 0), k_screen = (\<lambda>_. 0), k_console = [],
      k_boot_supervisor = 0, k_syscalls = 0, k_alignment_reported = False,
      k_selftest = \<lparr>st_passed = 0, st_failed = 0\<rparr>\<rparr>"

definition demo_view :: user_view where
  "demo_view =
     \<lparr>uv_va_ok = (\<lambda>a. a < 0x800000000000 \<or> 0xffff800000000000 \<le> a),
      uv_indices = (\<lambda>a. map (\<lambda>s. unat (drop_bit s a AND 511)) [39, 30, 21, 12]),
      uv_mmu = \<lparr>mmu_offset = 0, mmu_root = 0,
                mmu_tables = (\<lambda>_ _. \<lparr>pe_present = True, pe_user = True, pe_writable = True, pe_huge = False, pe_addr = 0\<rparr>)\<rparr>\<rparr>"

lemma demo_kernel_simps [simp]:
  "k_pid demo_kernel = 7" "k_fs demo_kernel = Some tiny_fs"
  "get_file 7 3 (k_procs demo_kernel) = Some demo_open"
  by (simp_all add: demo_kernel_def k_pid_def current_pid_def get_file_eq bt_get_def demo_process_def table_get_def)

lemma demo_kernel_ok: "kernel_ok 0 demo_kernel"
proof -
  have "file_ok demo_open" by (simp add: file_ok_def demo_open_def usize_lim_def)
  then have "procs_ok (k_procs demo_kernel)"
    by (auto simp: procs_ok_def demo_kernel_def bt_wf_def bt_get_def table_get_def nth_Cons split: if_splits nat.splits)
  moreover have "table_ok 0 (k_ipc demo_kernel)"
    by (simp add: demo_kernel_def table_ok_def ipc_init_def bt_empty_def bt_wf_def bt_get_def)
  moreover have "policy_ok 0 (k_sched demo_kernel)"
    using sched_ok_new [of 0]
    by (auto simp: demo_kernel_def policy_ok_def sched_ok_def sched_new_def promo_total_def live_tasks_def task_new_def
        sup_ok_def numeral_3_eq_3)
  ultimately show ?thesis
    using tiny_fs_ok
    by (simp add: kernel_ok_def demo_kernel_def comp_ok_def compositor_static_def fb_ok_def usize_lim_def)
qed

lemma demo_range:
  "unat ptr + n \<le> 0x7ffffffff000 \<Longrightarrow> user_range (uv_va_ok demo_view) (uv_indices demo_view) (uv_mmu demo_view) w ptr n"
proof -
  assume n: "unat ptr + n \<le> 0x7ffffffff000"
  have "user_byte (uv_va_ok demo_view) (uv_indices demo_view) (uv_mmu demo_view) w a" if "unat a < unat ptr + n" for a
  proof -
    have a: "unat a < 0x7ffffffff000" using that n by simp
    moreover have "unat (page_of a) \<le> unat a" using page_of_below [of a] by (simp add: word_le_nat_alt)
    ultimately show ?thesis
      by (simp add: user_byte_def is_user_address_def USER_SPACE_END_def demo_view_def word_less_nat_alt
          page_is_user_accessible_def Let_def)
  qed
  then show ?thesis using n by (auto simp: user_range_def demo_view_def OFFSET_UNINITIALIZED_def)
qed

theorem syscalls_gated_witness:
  "dispatch demo_view SYS_PORT_CREATE 0x1000 3 0 16 (demo_kernel\<lparr>k_procs := \<lparr>pr_next_pid = 8,
       pr_table = [(7, demo_process\<lparr>p_profile := VAULT\<rparr>)]\<rparr>\<rparr>) =
   Ok (Returns (encode_error EPERM), counted 16 (demo_kernel\<lparr>k_procs := \<lparr>pr_next_pid = 8,
       pr_table = [(7, demo_process\<lparr>p_profile := VAULT\<rparr>)]\<rparr>\<rparr>))"
  by (rule syscalls_gated [of _ CAP_IPC_CREATE])
    (simp_all add: required_right_def abi_defs bt_get_def k_pid_def demo_kernel_def current_pid_def allows_def VAULT_def)



theorem read_delivers_witness:
  "\<exists>k'. dispatch demo_view SYS_READ 3 0x1000 10 16 demo_kernel = Ok (Returns 2, k') \<and>
     user_bytes (k_mem k') 0x1000 2 = [8, 9]"
proof -
  have "node_ok (fs_image tiny_fs) (of_node demo_open)" "\<not> nd_is_directory (of_node demo_open)"
    "[8, 9] = take (min (unat (10 :: u64)) MAX_USER_TRANSFER) (drop (of_position demo_open)
       (take (nd_len (of_node demo_open)) (drop (nd_offset (of_node demo_open)) (fs_image tiny_fs))))"
    by (simp_all add: node_ok_def demo_open_def tiny_fs_def usize_lim_def MAX_USER_TRANSFER_def)
  note r = read_delivers [OF demo_kernel_ok _ _ _ this, where d = 3 and uv = demo_view and ptr = "0x1000" and rsp = 16]
  have "user_range (uv_va_ok demo_view) (uv_indices demo_view) (uv_mmu demo_view) True 0x1000 (length [8 :: u8, 9])"
    by (rule demo_range) simp
  with r show ?thesis by (auto simp: FD_FIRST_DYNAMIC_def numeral_2_eq_2)
qed

end
