(* ===== verification/UserMode.thy ===== *)
theory UserMode
  imports ContextSwitch Kernel
begin

text \<open>
  The transitions between Ring 0 and Ring 3: \<^verbatim>\<open>enter_usermode_and_wait\<close> and \<^verbatim>\<open>return_to_supervisor\<close> of
  \<^verbatim>\<open>arch/x86_64/usermode.rs\<close>, and the entry stub \<^verbatim>\<open>syscall_entry\<close> of \<^verbatim>\<open>arch/x86_64/interrupts.rs\<close>, as the
  instructions they are made of. The compiled dispatcher that the stub calls is an argument, of
  which only the System V calling convention is assumed.
\<close>

section \<open>The naked functions\<close>

definition enter_usermode_and_wait :: "instr list" where
  "enter_usermode_and_wait =
     [Push RBP, Push RBX, Push R12, Push R13, Push R14, Push R15,
      StoreSp R8, LeaSp RAX 8, Store R9 RAX,
      Push RCX, Push RSI, MovImm RAX 0x202, Push RAX, Push RDX, Push RDI,
      Clear RAX, Clear RBX, Clear RCX, Clear RDX, Clear RSI, Clear RDI, Clear RBP,
      Clear R8, Clear R9, Clear R10, Clear R11, Clear R12, Clear R13, Clear R14, Clear R15,
      Iretq]"

definition return_to_supervisor :: "instr list" where
  "return_to_supervisor =
     [LoadSp RDI, Mov RAX RSI, Pop R15, Pop R14, Pop R13, Pop R12, Pop RBX, Pop RBP, Ret]"

definition syscall_save :: "instr list" where
  "syscall_save =
     [Push RAX, Push RCX, Push RDX, Push RSI, Push RDI, Push R8, Push R9, Push R10, Push R11,
      Mov RCX RDX, Mov RDX RSI, Mov RSI RDI, Mov RDI RAX, ReadSp R8]"

definition syscall_restore :: "instr list" where
  "syscall_restore =
     [StoreStack 64 RAX, Pop R11, Pop R10, Pop R9, Pop R8, Pop RDI, Pop RSI, Pop RDX, Pop RCX, Pop RAX, Iretq]"

text \<open>The stub around the call of the dispatcher.\<close>

definition syscall_entry :: "(cpu \<Rightarrow> cpu) \<Rightarrow> cpu \<Rightarrow> cpu" where
  "syscall_entry call_dispatch c = run_code syscall_restore (call_dispatch (run_code syscall_save c))"

section \<open>Frames\<close>

text \<open>The seven cells between the saved stack pointer and the return address of the caller.\<close>

definition supervisor_frame :: "u64 \<Rightarrow> u64 list" where
  "supervisor_frame sp = [sp - 48, sp - 40, sp - 32, sp - 24, sp - 16, sp - 8, sp]"

text \<open>The cells the entry writes below it while it builds the frame of the \<^verbatim>\<open>iretq\<close>.\<close>

definition iretq_frame :: "u64 \<Rightarrow> u64 list" where
  "iretq_frame sp = [sp - 56, sp - 64, sp - 72, sp - 80, sp - 88]"

definition cleared_regs :: "reg list" where
  "cleared_regs = [RAX, RBX, RCX, RDX, RSI, RDI, RBP, R8, R9, R10, R11, R12, R13, R14, R15]"

lemma enter_parts:
  "enter_usermode_and_wait =
     [Push RBP, Push RBX, Push R12, Push R13, Push R14, Push R15, StoreSp R8, LeaSp RAX 8, Store R9 RAX] @
     [Push RCX, Push RSI, MovImm RAX 0x202, Push RAX, Push RDX, Push RDI] @
     map Clear cleared_regs @ [Iretq]"
  by (simp add: enter_usermode_and_wait_def cleared_regs_def)

lemma enter_save:
  "run_code [Push RBP, Push RBX, Push R12, Push R13, Push R14, Push R15, StoreSp R8, LeaSp RAX 8, Store R9 RAX] c =
   c\<lparr>cpu_sp := cpu_sp c - 48, cpu_regs := (cpu_regs c)(RAX := cpu_sp c - 56),
     cpu_mem := (cpu_mem c)
       (cpu_sp c - 8 := cpu_regs c RBP, cpu_sp c - 16 := cpu_regs c RBX, cpu_sp c - 24 := cpu_regs c R12,
        cpu_sp c - 32 := cpu_regs c R13, cpu_sp c - 40 := cpu_regs c R14, cpu_sp c - 48 := cpu_regs c R15,
        cpu_regs c R8 := cpu_sp c - 48, cpu_regs c R9 := cpu_sp c - 56)\<rparr>"
  by (simp add: run_code_def diff_diff_eq)

lemma enter_push:
  "run_code [Push RCX, Push RSI, MovImm RAX 0x202, Push RAX, Push RDX, Push RDI] c =
   c\<lparr>cpu_sp := cpu_sp c - 40, cpu_regs := (cpu_regs c)(RAX := 0x202),
     cpu_mem := (cpu_mem c)
       (cpu_sp c - 8 := cpu_regs c RCX, cpu_sp c - 16 := cpu_regs c RSI, cpu_sp c - 24 := 0x202,
        cpu_sp c - 32 := cpu_regs c RDX, cpu_sp c - 40 := cpu_regs c RDI)\<rparr>"
  by (simp add: run_code_def diff_diff_eq)

lemma run_clear:
  "cpu_mem (run_code (map Clear rs) c) = cpu_mem c" "cpu_sp (run_code (map Clear rs) c) = cpu_sp c"
  "cpu_regs (run_code (map Clear rs) c) r = (if r \<in> set rs then 0 else cpu_regs c r)"
  by (induction rs arbitrary: c) (simp_all add: run_code_def)

lemma cleared_all [simp]: "r \<in> set cleared_regs"
  by (cases r) (simp_all add: cleared_regs_def)

lemma run_iretq: "run_code [Iretq] c = exec_instr Iretq c"
  by (simp add: run_code_def)

lemma iretq_result:
  "cpu_ip (exec_instr Iretq c) = cpu_mem c (cpu_sp c)" "cpu_cs (exec_instr Iretq c) = cpu_mem c (cpu_sp c + 8)"
  "cpu_flags (exec_instr Iretq c) = cpu_mem c (cpu_sp c + 16)" "cpu_sp (exec_instr Iretq c) = cpu_mem c (cpu_sp c + 24)"
  "cpu_ss (exec_instr Iretq c) = cpu_mem c (cpu_sp c + 32)" "cpu_regs (exec_instr Iretq c) = cpu_regs c"
  "cpu_mem (exec_instr Iretq c) = cpu_mem c"
  by simp_all

text \<open>What the program starts with, and what the kernel has saved.\<close>

lemma enter_result:
  fixes c defines "u \<equiv> run_code enter_usermode_and_wait c"
  assumes "cpu_regs c R8 \<notin> set (iretq_frame (cpu_sp c)) \<union> set (supervisor_frame (cpu_sp c))"
    and "cpu_regs c R9 \<notin> set (iretq_frame (cpu_sp c)) \<union> set (supervisor_frame (cpu_sp c))"
    and "cpu_regs c R8 \<noteq> cpu_regs c R9"
  shows "cpu_ip u = cpu_regs c RDI" "cpu_sp u = cpu_regs c RSI" "cpu_cs u = cpu_regs c RDX" "cpu_ss u = cpu_regs c RCX"
    "cpu_flags u = 0x202" "cpu_regs u r = 0"
    "cpu_mem u (cpu_regs c R8) = cpu_sp c - 48" "cpu_mem u (cpu_regs c R9) = cpu_sp c - 56"
    "map (cpu_mem u) (supervisor_frame (cpu_sp c)) =
       [cpu_regs c R15, cpu_regs c R14, cpu_regs c R13, cpu_regs c R12, cpu_regs c RBX, cpu_regs c RBP, cpu_mem c (cpu_sp c)]"
proof -
  define s where "s = run_code [Push RCX, Push RSI, MovImm RAX 0x202, Push RAX, Push RDX, Push RDI]
    (run_code [Push RBP, Push RBX, Push R12, Push R13, Push R14, Push R15, StoreSp R8, LeaSp RAX 8, Store R9 RAX] c)"
  have u: "u = exec_instr Iretq (run_code (map Clear cleared_regs) s)"
    unfolding u_def s_def enter_parts run_code_append run_iretq ..
  have sp: "cpu_sp s = cpu_sp c - 88" unfolding s_def enter_push enter_save by (simp add: diff_diff_eq)
  have mem: "cpu_mem s = (cpu_mem c)
       (cpu_sp c - 8 := cpu_regs c RBP, cpu_sp c - 16 := cpu_regs c RBX, cpu_sp c - 24 := cpu_regs c R12,
        cpu_sp c - 32 := cpu_regs c R13, cpu_sp c - 40 := cpu_regs c R14, cpu_sp c - 48 := cpu_regs c R15,
        cpu_regs c R8 := cpu_sp c - 48, cpu_regs c R9 := cpu_sp c - 56,
        cpu_sp c - 56 := cpu_regs c RCX, cpu_sp c - 64 := cpu_regs c RSI, cpu_sp c - 72 := 0x202,
        cpu_sp c - 80 := cpu_regs c RDX, cpu_sp c - 88 := cpu_regs c RDI)"
    unfolding s_def enter_push enter_save by (simp add: diff_diff_eq)
  have off: "cpu_sp c - 88 + 8 = cpu_sp c - 80" "cpu_sp c - 88 + 16 = cpu_sp c - 72"
    "cpu_sp c - 88 + 24 = cpu_sp c - 64" "cpu_sp c - 88 + 32 = cpu_sp c - 56"
    by (simp_all add: algebra_simps)
  have um: "cpu_mem u = cpu_mem s" unfolding u iretq_result run_clear ..
  have cells: "cpu_mem s (cpu_sp c - 88) = cpu_regs c RDI" "cpu_mem s (cpu_sp c - 80) = cpu_regs c RDX"
    "cpu_mem s (cpu_sp c - 72) = 0x202" "cpu_mem s (cpu_sp c - 64) = cpu_regs c RSI" "cpu_mem s (cpu_sp c - 56) = cpu_regs c RCX"
    unfolding mem by simp_all
  show "cpu_ip u = cpu_regs c RDI" "cpu_sp u = cpu_regs c RSI" "cpu_cs u = cpu_regs c RDX" "cpu_ss u = cpu_regs c RCX"
    "cpu_flags u = 0x202" "cpu_regs u r = 0"
    by (simp_all only: u iretq_result run_clear sp off cells cleared_all if_True)
  have ne: "\<forall>x\<in>set (supervisor_frame (cpu_sp c)). x \<noteq> a" if "a \<notin> set (supervisor_frame (cpu_sp c))" for a
    using that by blast
  have ne8: "\<forall>x\<in>set (supervisor_frame (cpu_sp c)). x \<noteq> cpu_regs c R8" using assms(2) by (intro ne) blast
  have ne9: "\<forall>x\<in>set (supervisor_frame (cpu_sp c)). x \<noteq> cpu_regs c R9" using assms(3) by (intro ne) blast
  note ne8 = ne8 [unfolded supervisor_frame_def list.set ball_simps] and ne9 = ne9 [unfolded supervisor_frame_def list.set ball_simps]
  show "cpu_mem u (cpu_regs c R8) = cpu_sp c - 48" "cpu_mem u (cpu_regs c R9) = cpu_sp c - 56"
    using assms(2-4) unfolding um mem iretq_frame_def by auto
  show "map (cpu_mem u) (supervisor_frame (cpu_sp c)) =
       [cpu_regs c R15, cpu_regs c R14, cpu_regs c R13, cpu_regs c R12, cpu_regs c RBX, cpu_regs c RBP, cpu_mem c (cpu_sp c)]"
    using ne8 ne9 unfolding um mem supervisor_frame_def by simp
qed

lemma return_result:
  "run_code return_to_supervisor d =
   d\<lparr>cpu_regs := (cpu_regs d)(RAX := cpu_regs d RSI,
        R15 := cpu_mem d (cpu_regs d RDI), R14 := cpu_mem d (cpu_regs d RDI + 8),
        R13 := cpu_mem d (cpu_regs d RDI + 16), R12 := cpu_mem d (cpu_regs d RDI + 24),
        RBX := cpu_mem d (cpu_regs d RDI + 32), RBP := cpu_mem d (cpu_regs d RDI + 40)),
     cpu_ip := cpu_mem d (cpu_regs d RDI + 48), cpu_sp := cpu_regs d RDI + 56\<rparr>"
  by (simp add: run_code_def return_to_supervisor_def add.assoc)

text \<open>Interrupt frames go below the saved frame, on a boundary of 16 bytes.\<close>

lemma interrupt_below:
  "map (cpu_mem (enter_kernel (sp - 56) cs handler c)) (supervisor_frame sp) = map (cpu_mem c) (supervisor_frame sp)"
  by (simp add: enter_kernel_def supervisor_frame_def diff_diff_eq)

lemma mod_16_diff: "((x::u64) - y) mod 16 = (x mod 16 - y mod 16) mod 16"
proof -
  have "take_bit 4 (uint x - uint y) = take_bit 4 (take_bit 4 (uint x) - take_bit 4 (uint y))" by (simp add: take_bit_diff)
  then show ?thesis by (simp add: word_uint_eq_iff uint_mod uint_word_ariths take_bit_eq_mod mod_mod_cancel)
qed

text \<open>
  A stay in Ring 3: the program and the handlers change the machine in any way that keeps the
  \<open>live\<close> cells, and interrupts push their frames on the stack that RSP0 names.
\<close>

inductive ring3_run :: "u64 \<Rightarrow> u64 set \<Rightarrow> cpu \<Rightarrow> cpu \<Rightarrow> bool" for rsp0 live c where
  entered: "ring3_run rsp0 live c c"
| executed: "ring3_run rsp0 live c d \<Longrightarrow> \<forall>a\<in>live. cpu_mem e a = cpu_mem d a \<Longrightarrow> ring3_run rsp0 live c e"
| interrupted: "ring3_run rsp0 live c d \<Longrightarrow> ring3_run rsp0 live c (enter_kernel rsp0 kernel_cs handler d)"

lemma ring3_run_keeps:
  assumes "ring3_run (sp - 56) (set (supervisor_frame sp)) c d"
  shows "map (cpu_mem d) (supervisor_frame sp) = map (cpu_mem c) (supervisor_frame sp)"
  using assms
proof (induction rule: ring3_run.induct)
  case (interrupted d kernel_cs handler)
  then show ?case by (simp only: interrupt_below)
qed simp_all

lemma save_result:
  "run_code syscall_save c =
   c\<lparr>cpu_sp := cpu_sp c - 72,
     cpu_regs := (cpu_regs c)(RCX := cpu_regs c RDX, RDX := cpu_regs c RSI, RSI := cpu_regs c RDI,
       RDI := cpu_regs c RAX, R8 := cpu_sp c - 72),
     cpu_mem := (cpu_mem c)(cpu_sp c - 8 := cpu_regs c RAX, cpu_sp c - 16 := cpu_regs c RCX,
       cpu_sp c - 24 := cpu_regs c RDX, cpu_sp c - 32 := cpu_regs c RSI, cpu_sp c - 40 := cpu_regs c RDI,
       cpu_sp c - 48 := cpu_regs c R8, cpu_sp c - 56 := cpu_regs c R9, cpu_sp c - 64 := cpu_regs c R10,
       cpu_sp c - 72 := cpu_regs c R11)\<rparr>"
  by (simp add: run_code_def syscall_save_def diff_diff_eq)

lemma restore_result:
  fixes c defines "v \<equiv> run_code syscall_restore c" and "m \<equiv> \<lambda>n. cpu_mem c (cpu_sp c + n)"
  shows "cpu_regs v = (cpu_regs c)(R11 := m 0, R10 := m 8, R9 := m 16, R8 := m 24, RDI := m 32, RSI := m 40,
      RDX := m 48, RCX := m 56, RAX := cpu_regs c RAX)"
    "cpu_ip v = m 72" "cpu_cs v = m 80" "cpu_flags v = m 88" "cpu_sp v = m 96" "cpu_ss v = m 104"
  unfolding v_def m_def by (simp_all add: run_code_def syscall_restore_def add.assoc)

section \<open>Properties\<close>

text \<open>C29. A program starts clean and its end returns to the kernel. With a stack aligned as after a call,
  entering Ring 3 starts the program at the given entry, stack and selectors, with interrupts on
  and every general-purpose register zero, and publishes an interrupt stack that is aligned to 16
  bytes. However often the program is interrupted, no interrupt frame reaches the saved context:
  when the program is ended with the published resume point, the kernel continues after the call
  that entered Ring 3, with its stack pointer and callee-saved registers back and the way the
  program ended as the decoded result.\<close>

theorem ring3_roundtrip:
  fixes c defines "u \<equiv> run_code enter_usermode_and_wait c"
  assumes "cpu_sp c mod 16 = 8"
    and "cpu_regs c R8 \<notin> set (iretq_frame (cpu_sp c)) \<union> set (supervisor_frame (cpu_sp c))"
    and "cpu_regs c R9 \<notin> set (iretq_frame (cpu_sp c)) \<union> set (supervisor_frame (cpu_sp c))"
    and "cpu_regs c R8 \<noteq> cpu_regs c R9"
    and "ring3_run (cpu_mem u (cpu_regs c R9)) (set (supervisor_frame (cpu_sp c))) u d"
    and "cpu_regs d RDI = cpu_mem u (cpu_regs c R8)" "cpu_regs d RSI = exit_encode e"
  shows "cpu_ip u = cpu_regs c RDI \<and> cpu_sp u = cpu_regs c RSI \<and> cpu_cs u = cpu_regs c RDX \<and> cpu_ss u = cpu_regs c RCX \<and>
    cpu_flags u = 0x202 \<and> (\<forall>r. cpu_regs u r = 0) \<and> cpu_mem u (cpu_regs c R9) mod 16 = 0 \<and>
    (let v = run_code return_to_supervisor d in
       cpu_ip v = cpu_mem c (cpu_sp c) \<and> cpu_sp v = cpu_sp c + 8 \<and>
       (\<forall>r\<in>set callee_saved. cpu_regs v r = cpu_regs c r) \<and> exit_decode (cpu_regs v RAX) = Ok e)"
proof -
  note r = enter_result [OF assms(3-5), folded u_def]
  have al: "cpu_mem u (cpu_regs c R9) mod 16 = 0"
    unfolding r using assms(2) by (simp add: mod_16_diff [of "cpu_sp c"])
  have "ring3_run (cpu_sp c - 56) (set (supervisor_frame (cpu_sp c))) u d" using assms(6) unfolding r .
  note fr = ring3_run_keeps [OF this, unfolded r]
  have rdi: "cpu_regs d RDI = cpu_sp c - 48" using assms(7) unfolding r .
  have off: "cpu_sp c - 48 + 8 = cpu_sp c - 40" "cpu_sp c - 48 + 16 = cpu_sp c - 32" "cpu_sp c - 48 + 24 = cpu_sp c - 24"
    "cpu_sp c - 48 + 32 = cpu_sp c - 16" "cpu_sp c - 48 + 40 = cpu_sp c - 8" "cpu_sp c - 48 + 48 = cpu_sp c"
    "cpu_sp c - 48 + 56 = cpu_sp c + 8"
    by (simp_all add: algebra_simps)
  have v: "cpu_ip (run_code return_to_supervisor d) = cpu_mem c (cpu_sp c)"
    "cpu_sp (run_code return_to_supervisor d) = cpu_sp c + 8"
    "\<forall>r\<in>set callee_saved. cpu_regs (run_code return_to_supervisor d) r = cpu_regs c r"
    "cpu_regs (run_code return_to_supervisor d) RAX = exit_encode e"
    using fr unfolding return_result rdi off supervisor_frame_def by (simp_all add: callee_saved_def assms(8))
  show ?thesis unfolding Let_def using r(1-6) al v exit_roundtrip by simp
qed

definition demo_entering :: cpu where
  "demo_entering = \<lparr>cpu_regs = (\<lambda>_. 1)(RDI := 0x400000, RSI := 0x800000, RDX := 0x33, RCX := 0x2b, R8 := 0x6000, R9 := 0x7000, RBX := 99),
     cpu_sp = 0x10008, cpu_flags = 0x202, cpu_ip = 0, cpu_cs = 8, cpu_ss = 16, cpu_mem = (\<lambda>_. 0)(0x10008 := 0x1234)\<rparr>"

definition demo_ended :: cpu where
  "demo_ended = (let k = enter_kernel 0xffd0 8 0x5000 (run_code enter_usermode_and_wait demo_entering) in
     k\<lparr>cpu_regs := (cpu_regs k)(RDI := 0xffd8, RSI := exit_encode (Exited 3))\<rparr>)"

lemma demo_slots:
  "cpu_mem (run_code enter_usermode_and_wait demo_entering) 0x6000 = 0xffd8"
  "cpu_mem (run_code enter_usermode_and_wait demo_entering) 0x7000 = 0xffd0"
  by (simp_all add: run_code_def enter_usermode_and_wait_def demo_entering_def)

theorem ring3_roundtrip_witness:
  "cpu_regs (run_code return_to_supervisor demo_ended) RBX = 99 \<and>
   exit_decode (cpu_regs (run_code return_to_supervisor demo_ended) RAX) = Ok (Exited 3)"
proof -
  have run: "ring3_run 0xffd0 live u d" if d: "d = (let k = enter_kernel 0xffd0 8 0x5000 u in k\<lparr>cpu_regs := f k\<rparr>)" for live u d f
  proof -
    have "ring3_run 0xffd0 live u (enter_kernel 0xffd0 8 0x5000 u)" by (intro ring3_run.interrupted ring3_run.entered)
    then show ?thesis by (rule ring3_run.executed) (simp add: d Let_def)
  qed
  show ?thesis
    using ring3_roundtrip [of demo_entering demo_ended "Exited 3"] run [OF demo_ended_def] demo_slots
    by (simp add: demo_entering_def iretq_frame_def supervisor_frame_def callee_saved_def Let_def demo_ended_def)
qed

text \<open>The entry stub calls a compiled function. It keeps the callee-saved registers and the stack
  pointer, and it does not write above the stack it was called with.\<close>

definition sysv_call :: "(cpu \<Rightarrow> cpu) \<Rightarrow> bool" where
  "sysv_call call = (\<forall>c. cpu_sp (call c) = cpu_sp c \<and> (\<forall>r\<in>set callee_saved. cpu_regs (call c) r = cpu_regs c r) \<and>
     (\<forall>i<14. cpu_mem (call c) (cpu_sp c + 8 * of_nat i) = cpu_mem c (cpu_sp c + 8 * of_nat i)))"

text \<open>C30. The system-call stub is transparent. When a program executes \<^verbatim>\<open>int 0x80\<close> and the interrupt stack is
  aligned, the dispatcher is called with the number from RAX and the arguments from RDI, RSI and
  RDX, on a stack aligned to 16 bytes whose address it also receives; and whatever the
  dispatcher does within the calling convention, the program continues after its \<^verbatim>\<open>int\<close> with its
  own stack, flags and selectors and every general-purpose register as it was, except RAX,
  which holds the dispatcher's result.\<close>

theorem syscall_entry_exact:
  fixes p rsp0 kernel_cs handler defines "c \<equiv> enter_kernel rsp0 kernel_cs handler p"
  assumes "rsp0 mod 16 = 0" "sysv_call call"
  shows "(let a = run_code syscall_save c in
      (cpu_regs a RDI, cpu_regs a RSI, cpu_regs a RDX, cpu_regs a RCX) =
        (cpu_regs p RAX, cpu_regs p RDI, cpu_regs p RSI, cpu_regs p RDX) \<and>
      cpu_regs a R8 = cpu_sp a \<and> cpu_sp a mod 16 = 0) \<and>
    (let v = syscall_entry call c in
      cpu_regs v = (cpu_regs p)(RAX := cpu_regs (call (run_code syscall_save c)) RAX) \<and>
      (cpu_ip v, cpu_cs v, cpu_flags v, cpu_sp v, cpu_ss v) = (cpu_ip p, cpu_cs p, cpu_flags p, cpu_sp p, cpu_ss p))"
proof -
  define a where "a = run_code syscall_save c"
  have c: "cpu_sp c = rsp0 - 40" "cpu_regs c = cpu_regs p" unfolding c_def by (simp_all add: enter_kernel_def)
  have sp: "cpu_sp a = rsp0 - 112" unfolding a_def save_result by (simp add: c diff_diff_eq)
  have al: "(rsp0 - 112) mod 16 = 0" using assms(2) by (simp add: mod_16_diff [of rsp0])
  have k: "cpu_mem (call a) (rsp0 - 112 + 8 * of_nat i) = cpu_mem a (rsp0 - 112 + 8 * of_nat i)" if "i < 14" for i
    using assms(3) that unfolding sysv_call_def sp [symmetric] by blast
  have off: "rsp0 - 112 + 8 = rsp0 - 104" "rsp0 - 112 + 16 = rsp0 - 96" "rsp0 - 112 + 24 = rsp0 - 88"
    "rsp0 - 112 + 32 = rsp0 - 80" "rsp0 - 112 + 40 = rsp0 - 72" "rsp0 - 112 + 48 = rsp0 - 64"
    "rsp0 - 112 + 56 = rsp0 - 56" "rsp0 - 112 + 64 = rsp0 - 48" "rsp0 - 112 + 72 = rsp0 - 40"
    "rsp0 - 112 + 80 = rsp0 - 32" "rsp0 - 112 + 88 = rsp0 - 24" "rsp0 - 112 + 96 = rsp0 - 16"
    "rsp0 - 112 + 104 = rsp0 - 8" by (simp_all add: algebra_simps)
  have mem: "cpu_mem a = (cpu_mem p)(rsp0 - 8 := cpu_ss p, rsp0 - 16 := cpu_sp p, rsp0 - 24 := cpu_flags p,
       rsp0 - 32 := cpu_cs p, rsp0 - 40 := cpu_ip p, rsp0 - 48 := cpu_regs p RAX, rsp0 - 56 := cpu_regs p RCX,
       rsp0 - 64 := cpu_regs p RDX, rsp0 - 72 := cpu_regs p RSI, rsp0 - 80 := cpu_regs p RDI,
       rsp0 - 88 := cpu_regs p R8, rsp0 - 96 := cpu_regs p R9, rsp0 - 104 := cpu_regs p R10, rsp0 - 112 := cpu_regs p R11)"
    unfolding a_def save_result c_def by (simp add: enter_kernel_def diff_diff_eq)
  have csp: "cpu_sp (call a) = rsp0 - 112" using assms(3) by (simp add: sysv_call_def sp)
  have kept: "\<forall>r\<in>set callee_saved. cpu_regs (call a) r = cpu_regs p r"
    using assms(3) by (simp add: sysv_call_def a_def save_result c callee_saved_def)
  have cells: "map (\<lambda>n. cpu_mem (call a) (rsp0 - 112 + n)) [0, 8, 16, 24, 32, 40, 48, 56, 72, 80, 88, 96, 104] =
     [cpu_regs p R11, cpu_regs p R10, cpu_regs p R9, cpu_regs p R8, cpu_regs p RDI, cpu_regs p RSI, cpu_regs p RDX,
      cpu_regs p RCX, cpu_ip p, cpu_cs p, cpu_flags p, cpu_sp p, cpu_ss p]"
    using k [of 0] k [of 1] k [of 2] k [of 3] k [of 4] k [of 5] k [of 6] k [of 7] k [of 9] k [of 10] k [of 11] k [of 12] k [of 13]
    by (simp add: off mem)
  have regs: "cpu_regs (syscall_entry call c) = (cpu_regs p)(RAX := cpu_regs (call a) RAX)"
  proof
    fix r
    show "cpu_regs (syscall_entry call c) r = ((cpu_regs p)(RAX := cpu_regs (call a) RAX)) r"
      using cells kept unfolding syscall_entry_def a_def [symmetric] restore_result csp
      by (cases r) (simp_all add: callee_saved_def)
  qed
  show ?thesis
    unfolding Let_def a_def [symmetric] regs sp
    using cells al unfolding syscall_entry_def a_def [symmetric] restore_result csp
    by (simp add: a_def save_result c diff_diff_eq)
qed

definition demo_call :: "cpu \<Rightarrow> cpu" where
  "demo_call c = c\<lparr>cpu_regs := (cpu_regs c)(RAX := cpu_regs c RDI + 1, RDI := 0, RCX := 77, R11 := 5)\<rparr>"

theorem syscall_entry_exact_witness:
  "(let v = syscall_entry demo_call (enter_kernel 0x8000 8 0x5000 demo_entering) in
     cpu_regs v RAX = 2 \<and> cpu_regs v RDI = 0x400000 \<and> cpu_sp v = 0x10008)"
proof -
  have "sysv_call demo_call" by (simp add: sysv_call_def demo_call_def callee_saved_def)
  from syscall_entry_exact [of "0x8000" demo_call, OF _ this, of 8 "0x5000" demo_entering]
  show ?thesis by (simp add: Let_def demo_entering_def demo_call_def save_result enter_kernel_def)
qed

end
