(* ===== verification/Rtc.thy ===== *)
theory Rtc
  imports Prelude "HOL-Library.Signed_Division"
begin

text \<open>
  The CMOS clock (\<^verbatim>\<open>kernel/src/drivers/rtc.rs\<close>): decoding the registers, the plausibility check, and the
  conversion to Unix time, which is shown to count the days of the calendar. The chip is an argument:
  a list of the readings it gives.
\<close>

unbundle bit_operations_syntax

section \<open>Dates\<close>

record date_time =
  dt_year :: u16
  dt_month :: u8
  dt_day :: u8
  dt_hour :: u8
  dt_minute :: u8
  dt_second :: u8

definition is_plausible :: "date_time \<Rightarrow> bool" where
  "is_plausible d \<longleftrightarrow>
     dt_year d \<ge> 2000 \<and> dt_year d \<le> 2199 \<and> 1 \<le> dt_month d \<and> dt_month d \<le> 12 \<and>
     1 \<le> dt_day d \<and> dt_day d \<le> 31 \<and> dt_hour d < 24 \<and> dt_minute d < 60 \<and> dt_second d \<le> 60"

text \<open>
  \<^verbatim>\<open>to_unix_seconds\<close>. Its \<^verbatim>\<open>i64\<close> arithmetic on fields of at most 16 bits stays far from the bounds of the
  type (\<open>unix_seconds_in_range\<close> below), and \<^verbatim>\<open>/\<close> truncates towards zero.
\<close>

definition days_of :: "int \<Rightarrow> int \<Rightarrow> int \<Rightarrow> int" where
  "days_of y m d =
     (let year = (if m \<le> 2 then y - 1 else y);
          era = (if year \<ge> 0 then year else year - 399) sdiv 400;
          year_of_era = year - era * 400;
          month_shifted = (if m > 2 then m - 3 else m + 9);
          day_of_year = (153 * month_shifted + 2) sdiv 5 + d - 1;
          day_of_era = year_of_era * 365 + year_of_era sdiv 4 - year_of_era sdiv 100 + day_of_year
      in era * 146097 + day_of_era - 719468)"

definition unix_seconds :: "date_time \<Rightarrow> int" where
  "unix_seconds d =
     days_of (uint (dt_year d)) (uint (dt_month d)) (uint (dt_day d)) * 86400 +
     uint (dt_hour d) * 3600 + uint (dt_minute d) * 60 + uint (dt_second d)"

definition to_unix_seconds :: "date_time \<Rightarrow> u64" where
  "to_unix_seconds d = of_int (max (unix_seconds d) 0)"

section \<open>Reading the chip\<close>

definition from_bcd :: "u8 \<Rightarrow> u8" where
  "from_bcd v = (v AND 0x0F) + drop_bit 4 v * 10"

text \<open>The registers of one reading, by number.\<close>

type_synonym cmos = "u8 \<Rightarrow> u8"

definition REG_SECONDS :: u8 where "REG_SECONDS = 0x00"
definition REG_MINUTES :: u8 where "REG_MINUTES = 0x02"
definition REG_HOURS :: u8 where "REG_HOURS = 0x04"
definition REG_DAY :: u8 where "REG_DAY = 0x07"
definition REG_MONTH :: u8 where "REG_MONTH = 0x08"
definition REG_YEAR :: u8 where "REG_YEAR = 0x09"
definition REG_STATUS_B :: u8 where "REG_STATUS_B = 0x0B"

definition rtc_hour :: "bool \<Rightarrow> bool \<Rightarrow> u8 \<Rightarrow> u8" where
  "rtc_hour binary_mode twenty_four_hour raw =
     (let convert = (\<lambda>v. if binary_mode then v else from_bcd v);
          pm = \<not> twenty_four_hour \<and> raw AND 0x80 \<noteq> 0;
          hour = convert (raw AND 0x7F)
      in if pm \<and> hour \<noteq> 12 then hour + 12
         else if \<not> twenty_four_hour \<and> \<not> pm \<and> hour = 12 then 0
         else hour)"

definition rtc_year :: "u8 \<Rightarrow> u16" where
  "rtc_year v = (if (ucast v :: u16) < 70 then 2000 + ucast v else 1900 + ucast v)"

text \<open>What \<^verbatim>\<open>read_raw\<close> makes of the registers, once no update is in progress.\<close>

definition read_raw :: "cmos \<Rightarrow> date_time" where
  "read_raw cmos =
     (let status_b = cmos REG_STATUS_B;
          binary_mode = status_b AND 0x04 \<noteq> 0;
          twenty_four_hour = status_b AND 0x02 \<noteq> 0;
          convert = (\<lambda>v. if binary_mode then v else from_bcd v)
      in \<lparr>dt_year = rtc_year (convert (cmos REG_YEAR)), dt_month = convert (cmos REG_MONTH),
          dt_day = convert (cmos REG_DAY), dt_hour = rtc_hour binary_mode twenty_four_hour (cmos REG_HOURS),
          dt_minute = convert (cmos REG_MINUTES), dt_second = convert (cmos REG_SECONDS)\<rparr>)"

text \<open>\<^verbatim>\<open>now\<close>: at most ten more readings, until two in a row agree. The \<open>n\<close>-th reading is \<open>reads n\<close>.\<close>

primrec now_loop :: "nat \<Rightarrow> (nat \<Rightarrow> date_time) \<Rightarrow> nat \<Rightarrow> date_time \<Rightarrow> date_time" where
  "now_loop 0 reads n previous = previous"
| "now_loop (Suc tries) reads n previous =
     (if reads n = previous then reads n else now_loop tries reads (Suc n) (reads n))"

definition rtc_now :: "(nat \<Rightarrow> date_time) \<Rightarrow> date_time" where
  "rtc_now reads = now_loop 10 reads 1 (reads 0)"

definition rtc_init :: "(nat \<Rightarrow> date_time) \<Rightarrow> date_time option" where
  "rtc_init reads = (let d = rtc_now reads in if is_plausible d then Some d else None)"

section \<open>The calendar\<close>

definition leap_year :: "int \<Rightarrow> bool" where
  "leap_year y \<longleftrightarrow> y mod 4 = 0 \<and> (y mod 100 \<noteq> 0 \<or> y mod 400 = 0)"

definition month_days :: "int \<Rightarrow> int \<Rightarrow> int" where
  "month_days y m = (if m = 2 then (if leap_year y then 29 else 28) else if m \<in> {4, 6, 9, 11} then 30 else 31)"

definition year_days :: "int \<Rightarrow> int" where
  "year_days y = (if leap_year y then 366 else 365)"

text \<open>Days since 1 January 1970: whole years, whole months, days.\<close>

definition calendar_days :: "int \<Rightarrow> int \<Rightarrow> int \<Rightarrow> int" where
  "calendar_days y m d = (\<Sum>k\<in>{1970..<y}. year_days k) + (\<Sum>k\<in>{1..<m}. month_days y k) + d - 1"

lemma sdiv_pos: "0 \<le> a \<Longrightarrow> 0 < b \<Longrightarrow> a sdiv b = a div (b :: int)"
  by (cases "a = 0") (simp_all add: signed_divide_int_def)

text \<open>The days before a year that starts in March, and the months of such a year.\<close>

definition march_days :: "int \<Rightarrow> int" where
  "march_days s = 365 * s + s div 4 - s div 100 + s div 400"

lemma march_days_era:
  assumes "0 \<le> s"
  shows "march_days s = s div 400 * 146097 + (s mod 400 * 365 + s mod 400 div 4 - s mod 400 div 100)"
proof -
  define e r where "e = s div 400" and "r = s mod 400"
  have s: "s = 400 * e + r" "0 \<le> r" "r < 400" using assms by (simp_all add: e_def r_def)
  have q: "s = r + e * 100 * 4" "s = r + e * 4 * 100" using s(1) by simp_all
  have d: "s div 4 = e * 100 + r div 4" "s div 100 = e * 4 + r div 100"
    by (subst q(1), rule div_mult_self1, simp) (subst q(2), rule div_mult_self1, simp)
  show ?thesis unfolding march_days_def d r_def [symmetric] e_def [symmetric] using s(1) by linarith
qed

lemma days_of_march:
  assumes "1970 \<le> y" "1 \<le> m" "m \<le> 12" "1 \<le> d"
  shows "days_of y m d =
    march_days (if m \<le> 2 then y - 1 else y) + (153 * (if m > 2 then m - 3 else m + 9) + 2) div 5 + d - 719469"
proof -
  define s where "s = (if m \<le> 2 then y - 1 else y)"
  define k where "k = (if m > 2 then m - 3 else m + 9)"
  have nn: "0 \<le> s" "0 \<le> k" using assms by (simp_all add: s_def k_def)
  have r: "s - s div 400 * 400 = s mod 400" by (simp add: minus_div_mult_eq_mod)
  have "days_of y m d = s div 400 * 146097 + (s mod 400 * 365 + s mod 400 div 4 - s mod 400 div 100 +
      ((153 * k + 2) div 5 + d - 1)) - 719468"
    unfolding days_of_def Let_def s_def [symmetric] k_def [symmetric]
    using nn by (simp add: sdiv_pos r)
  then show ?thesis unfolding march_days_era [OF nn(1)] s_def [symmetric] k_def [symmetric] by simp
qed

lemma march_days_next: "march_days y = march_days (y - 1) + year_days y"
proof -
  have d: "y div n = (y - 1) div n + (if y mod n = 0 then 1 else 0)" if "0 < n" for n :: int
  proof (cases "y mod n = 0")
    case True
    have "y - 1 = n * (y div n - 1) + (n - 1)" using div_mult_mod_eq [of y n] True by (simp add: algebra_simps)
    from int_div_pos_eq [OF this] that True show ?thesis by simp
  next
    case False
    have "y - 1 = n * (y div n) + (y mod n - 1)" using div_mult_mod_eq [of y n] by (simp add: algebra_simps)
    from int_div_pos_eq [OF this] that False pos_mod_bound [OF that, of y] pos_mod_sign [OF that, of y] show ?thesis by simp
  qed
  have "y mod 400 = 0 \<Longrightarrow> y mod 100 = 0" "y mod 100 = 0 \<Longrightarrow> y mod 4 = 0"
    using mod_mod_cancel [of 100 400 y] mod_mod_cancel [of 4 100 y] by auto
  then show ?thesis
    unfolding march_days_def d [of 4, simplified] d [of 100, simplified] d [of 400, simplified] year_days_def leap_year_def
    by (cases "y mod 4 = 0"; cases "y mod 100 = 0"; cases "y mod 400 = 0") simp_all
qed

lemma months_from_march:
  assumes "1 \<le> m" "m \<le> 12"
  shows "(\<Sum>k\<in>{1..<m}. month_days y k) =
    (if m \<le> 2 then (153 * (m + 9) + 2) div 5 - 306 else (153 * (m - 3) + 2) div 5 + 59 + (if leap_year y then 1 else 0))"
proof -
  have st: "(\<Sum>k\<in>{1..<i + 1}. month_days y k) = (\<Sum>k\<in>{1..<i}. month_days y k) + month_days y i" if "1 \<le> i" for i
  proof -
    have "{1..<i + 1} = insert i {1..<i}" using that by auto
    then show ?thesis by simp
  qed
  note sums = st [of 1, simplified] st [of 2, simplified] st [of 3, simplified] st [of 4, simplified] st [of 5, simplified]
    st [of 6, simplified] st [of 7, simplified] st [of 8, simplified] st [of 9, simplified] st [of 10, simplified] st [of 11, simplified]
  have "nat m \<in> set [1..<13]" using assms by auto
  then have "nat m = 1 \<or> nat m = 2 \<or> nat m = 3 \<or> nat m = 4 \<or> nat m = 5 \<or> nat m = 6 \<or> nat m = 7 \<or> nat m = 8 \<or>
      nat m = 9 \<or> nat m = 10 \<or> nat m = 11 \<or> nat m = 12" by (simp add: upt_rec numeral_eq_Suc)
  then have "m = 1 \<or> m = 2 \<or> m = 3 \<or> m = 4 \<or> m = 5 \<or> m = 6 \<or> m = 7 \<or> m = 8 \<or> m = 9 \<or> m = 10 \<or> m = 11 \<or> m = 12"
    using assms(1) by (simp add: nat_eq_iff)
  moreover have "month_days y 1 = 31" "month_days y 2 = 28 + (if leap_year y then 1 else 0)" "month_days y 3 = 31"
    "month_days y 4 = 30" "month_days y 5 = 31" "month_days y 6 = 30" "month_days y 7 = 31" "month_days y 8 = 31"
    "month_days y 9 = 30" "month_days y 10 = 31" "month_days y 11 = 30"
    by (simp_all add: month_days_def)
  ultimately show ?thesis by (elim disjE) (simp_all add: sums)
qed

lemma years_from_march: "1970 \<le> y \<Longrightarrow> (\<Sum>k\<in>{1970..<y}. year_days k) = march_days (y - 1) - march_days 1969"
proof (induction y rule: int_ge_induct)
  case (step y)
  have "{1970..<y + 1} = insert y {1970..<y}" using step(1) by auto
  then show ?case using step(2) march_days_next [of y] by simp
qed simp

lemma days_of_calendar:
  assumes "1970 \<le> y" "1 \<le> m" "m \<le> 12" "1 \<le> d"
  shows "days_of y m d = calendar_days y m d"
proof -
  have "march_days 1969 = 719162" by (simp add: march_days_def)
  then show ?thesis
    using months_from_march [OF assms(2,3), of y] years_from_march [OF assms(1)] march_days_next [of y]
    by (auto simp: days_of_march [OF assms] calendar_days_def year_days_def)
qed

lemma calendar_bounds:
  assumes "1970 \<le> y" "y < 2 ^ 16" "1 \<le> m" "m \<le> 12" "1 \<le> d" "d < 256"
  shows "0 \<le> calendar_days y m d" "calendar_days y m d < 2 ^ 25"
proof -
  have "0 \<le> (\<Sum>k\<in>{1970..<y}. year_days k)" "0 \<le> (\<Sum>k\<in>{1..<m}. month_days y k)"
    by (rule sum_nonneg, simp add: year_days_def) (rule sum_nonneg, simp add: month_days_def)
  then show "0 \<le> calendar_days y m d" using assms(5) by (simp add: calendar_days_def)
  have "(\<Sum>k\<in>{1970..<y}. year_days k) \<le> (\<Sum>k\<in>{1970..<y}. 366)" by (rule sum_mono) (simp add: year_days_def)
  moreover have "(\<Sum>k\<in>{1..<m}. month_days y k) \<le> (\<Sum>k\<in>{1..<m}. 31)" by (rule sum_mono) (simp add: month_days_def)
  ultimately show "calendar_days y m d < 2 ^ 25" using assms by (simp add: calendar_days_def)
qed

text \<open>The readings \<^verbatim>\<open>now\<close> trusts: one that repeats its predecessor, or the last of eleven that all differ.\<close>

lemma now_loop_exact:
  "(\<exists>i<tries. reads (n + i) = (if i = 0 then previous else reads (n + i - 1)) \<and> now_loop tries reads n previous = reads (n + i)) \<or>
   (now_loop tries reads n previous = (if tries = 0 then previous else reads (n + tries - 1)))"
proof (induction tries arbitrary: n previous)
  case (Suc tries)
  show ?case
  proof (cases "reads n = previous")
    case False
    have "(\<exists>i<tries. reads (Suc n + i) = (if i = 0 then reads n else reads (Suc n + i - 1)) \<and>
        now_loop tries reads (Suc n) (reads n) = reads (Suc n + i)) \<or>
      (now_loop tries reads (Suc n) (reads n) = (if tries = 0 then reads n else reads (Suc n + tries - 1)))"
      by (rule Suc.IH)
    then show ?thesis
    proof (elim disjE exE conjE)
      fix i assume "i < tries" "reads (Suc n + i) = (if i = 0 then reads n else reads (Suc n + i - 1))"
        "now_loop tries reads (Suc n) (reads n) = reads (Suc n + i)"
      then show ?thesis using False by (intro disjI1 exI [of _ "Suc i"]) (auto split: if_splits)
    qed (use False in auto)
  qed (auto intro!: exI [of _ 0])
qed simp

section \<open>Properties\<close>

text \<open>
  C40. The clock's Unix time is the calendar's: for every reading that start-up accepts, the number
  that the closed formula gives is the days of the whole years since 1970, leap years by the
  Gregorian rule, the days of the whole months and the seconds of the day, with no overflow.
\<close>

theorem unix_time_exact:
  assumes "rtc_init reads = Some d"
  shows "uint (to_unix_seconds d) =
    calendar_days (uint (dt_year d)) (uint (dt_month d)) (uint (dt_day d)) * 86400 +
    uint (dt_hour d) * 3600 + uint (dt_minute d) * 60 + uint (dt_second d)"
proof -
  have p: "is_plausible d" using assms by (auto simp: rtc_init_def Let_def split: if_splits)
  have y: "1970 \<le> uint (dt_year d)" "uint (dt_year d) < 2 ^ 16"
    using p uint_bounded [of "dt_year d"] by (simp_all add: is_plausible_def word_le_def)
  have m: "1 \<le> uint (dt_month d)" "uint (dt_month d) \<le> 12" "1 \<le> uint (dt_day d)" "uint (dt_day d) < 256"
    using p uint_bounded [of "dt_day d"] by (simp_all add: is_plausible_def word_le_def)
  have t: "uint (dt_hour d) < 256" "uint (dt_minute d) < 256" "uint (dt_second d) < 256"
    "0 \<le> uint (dt_hour d)" "0 \<le> uint (dt_minute d)" "0 \<le> uint (dt_second d)"
    using uint_bounded [of "dt_hour d"] uint_bounded [of "dt_minute d"] uint_bounded [of "dt_second d"] by simp_all
  note c = calendar_bounds [OF y m]
  have u: "unix_seconds d = calendar_days (uint (dt_year d)) (uint (dt_month d)) (uint (dt_day d)) * 86400 +
    uint (dt_hour d) * 3600 + uint (dt_minute d) * 60 + uint (dt_second d)"
    by (simp only: unix_seconds_def days_of_calendar [OF y(1) m(1,2,3)])
  have "0 \<le> unix_seconds d" unfolding u using c(1) t by linarith
  moreover have "unix_seconds d < 2 ^ 64" unfolding u using c(2) t by simp
  ultimately have "uint (to_unix_seconds d) = unix_seconds d"
    by (simp add: to_unix_seconds_def uint_word_of_int_eq take_bit_int_eq_self max_def)
  then show ?thesis unfolding u .
qed

text \<open>A chip in BCD and 12-hour mode that says 29 February 2024, 11:59:58 in the evening.\<close>

definition demo_cmos :: cmos where
  "demo_cmos r = (if r = REG_YEAR then 0x24 else if r = REG_MONTH then 0x02 else if r = REG_DAY then 0x29
     else if r = REG_HOURS then 0x91 else if r = REG_MINUTES then 0x59 else if r = REG_SECONDS then 0x58 else 0)"

theorem unix_time_exact_witness:
  "\<exists>d. rtc_init (\<lambda>_. read_raw demo_cmos) = Some d \<and> dt_hour d = 23 \<and> uint (to_unix_seconds d) = 1709251198"
proof -
  have d: "rtc_init (\<lambda>_. read_raw demo_cmos) = Some \<lparr>dt_year = 2024, dt_month = 2, dt_day = 29, dt_hour = 23, dt_minute = 59, dt_second = 58\<rparr>"
    by code_simp
  have "calendar_days 2024 2 29 = days_of 2024 2 29" by (rule days_of_calendar [symmetric]) simp_all
  also have "\<dots> = 19782" by (simp add: days_of_def sdiv_pos)
  finally show ?thesis using d unix_time_exact [OF d] by simp
qed

end
