(* ===== verification/AddressSpace.thy ===== *)
theory AddressSpace
  imports Frames UserMemory
begin

text \<open>
  Per-process address spaces (\<^verbatim>\<open>kernel/src/mm/address_space.rs\<close>) over physical memory. Physical
  memory is one array of bytes per frame, so a page table and the data of a page are the same kind
  of thing and writes alias as they do on the machine: a page-table entry is eight little-endian
  bytes of a frame. The kernel reaches a frame through its window of physical memory; the window
  is the memory itself here. Two operations of the \<^verbatim>\<open>x86_64\<close> crate, \<^verbatim>\<open>map_to\<close> and \<^verbatim>\<open>update_flags\<close>, are
  fields of the environment; what they document is the locale \<open>page_mapper\<close>.
\<close>

unbundle bit_operations_syntax

section \<open>Addresses in a page\<close>

lemma page_walk_decreases:
  fixes page :: u64
  assumes "\<not> page + 4096 < page"
  shows "2 ^ 64 - unat (page + 4096) < 2 ^ 64 - unat page"
proof -
  have "unat page \<le> unat (page + 4096)" "page + 4096 \<noteq> page"
    using assms by (simp_all add: not_less flip: word_le_nat_alt)
  then have "unat page < unat (page + 4096)" by (metis nat_less_le word_unat_eq_iff)
  moreover have "unat (page + 4096) < 2 ^ 64" using unat_bound [of "page + 4096"] by simp
  ultimately show ?thesis by simp
qed

lemma page_offset_mod: "unat (a AND 0xFFF :: u64) = unat a mod 4096"
proof -
  have m: "(0xFFF :: u64) = mask 12" by (simp add: mask_eq_exp_minus_1)
  have "a AND mask 12 = take_bit 12 a" by (simp add: take_bit_eq_mask)
  then show ?thesis unfolding m by (simp only: unsigned_take_bit_eq) (simp add: take_bit_eq_mod)
qed

lemma page_offset_bound: "unat (a AND 0xFFF :: u64) < 4096"
  by (simp add: page_offset_mod)

section \<open>Page-table entries\<close>

type_synonym phys = "u64 \<Rightarrow> nat \<Rightarrow> u8"

definition pt_entry :: "phys \<Rightarrow> u64 \<Rightarrow> nat \<Rightarrow> u64" where
  "pt_entry m f i = u64_from_le (map (m f) [8 * i..<8 * i + 8])"

definition set_pt_entry :: "phys \<Rightarrow> u64 \<Rightarrow> nat \<Rightarrow> u64 \<Rightarrow> phys" where
  "set_pt_entry m f i e =
     m(f := (\<lambda>k. if 8 * i \<le> k \<and> k < 8 * i + 8 then u64_to_le e ! (k - 8 * i) else m f k))"

definition PTE_PRESENT :: u64 where "PTE_PRESENT = 1"
definition PTE_WRITABLE :: u64 where "PTE_WRITABLE = 2"
definition PTE_USER :: u64 where "PTE_USER = 4"
definition PTE_HUGE :: u64 where "PTE_HUGE = 0x80"
definition PTE_NO_EXECUTE :: u64 where "PTE_NO_EXECUTE = 0x8000000000000000"
definition PTE_ADDR_MASK :: u64 where "PTE_ADDR_MASK = 0x000ffffffffff000"

definition contains_flags :: "u64 \<Rightarrow> u64 \<Rightarrow> bool" where
  "contains_flags e f \<longleftrightarrow> e AND f = f"

definition entry_addr :: "u64 \<Rightarrow> u64" where
  "entry_addr e = e AND PTE_ADDR_MASK"

definition entry_flags :: "u64 \<Rightarrow> u64" where
  "entry_flags e = e AND NOT PTE_ADDR_MASK"

section \<open>State\<close>

record vm =
  vm_phys :: phys
  vm_frames :: frame_world
  vm_cr3 :: u64
  vm_kernel_root :: "u64 option"

record address_space =
  as_root :: u64
  as_owned :: "u64 list"

datatype map_error =
    NotUserAddress u64 | NotUserAccessible u64 | MapOutOfMemory | NotMapped u64 | PagingError bytes

text \<open>\<^verbatim>\<open>TrackingAllocator\<close>: the allocator it wraps and the frames it handed out.\<close>

record tracker =
  tr_frames :: frame_world
  tr_allocated :: "u64 list"

text \<open>
  What the operations run on: the boot loader's memory map and the addresses the hardware accepts,
  whether the processor has NX, the table indices of an address (\<^verbatim>\<open>p4_index\<close> to \<^verbatim>\<open>p1_index\<close>), and the
  two mapping operations. \<^verbatim>\<open>map_to\<close> takes the allocator, the root table, the page, the frame and the
  flags; a failure carries its printed form.
\<close>

record paging =
  pg_phys_ok :: "u64 \<Rightarrow> bool"
  pg_regions :: "memory_region list"
  pg_va_ok :: "u64 \<Rightarrow> bool"
  pg_nx :: bool
  pg_indices :: "u64 \<Rightarrow> nat list"
  pg_map_to :: "(tracker \<Rightarrow> u64 option \<times> tracker) \<Rightarrow> u64 \<Rightarrow> u64 \<Rightarrow> u64 \<Rightarrow> u64 \<Rightarrow> phys \<Rightarrow> tracker \<Rightarrow>
     (bytes + unit) \<times> phys \<times> tracker"
  pg_update_flags :: "u64 \<Rightarrow> u64 \<Rightarrow> u64 \<Rightarrow> phys \<Rightarrow> (bytes + unit) \<times> phys"

section \<open>Frames\<close>

definition take_frame :: "paging \<Rightarrow> frame_world \<Rightarrow> (unit, u64 option) outcome \<times> frame_world" where
  "take_frame env w =
     (fst (allocate_frame (pg_phys_ok env) (pg_regions env) (fw_alloc w, fw_pool w)),
      frame_exec (pg_phys_ok env) (pg_regions env) FrAlloc w)"

text \<open>\<^verbatim>\<open>frame_pool::release\<close>, with the record of who holds what kept up to date.\<close>

definition give_back :: "u64 \<Rightarrow> frame_world \<Rightarrow> frame_world" where
  "give_back f w =
     w\<lparr>fw_pool := frame_release f (fw_pool w), fw_held := remove1 f (fw_held w),
       fw_released := fw_released w + (if f \<in> set (fw_held w) then 1 else 0)\<rparr>"

definition tracking_allocate :: "paging \<Rightarrow> tracker \<Rightarrow> u64 option \<times> tracker" where
  "tracking_allocate env tr =
     (case take_frame env (tr_frames tr) of
        (Ok (Some f), w) \<Rightarrow> (Some f, \<lparr>tr_frames = w, tr_allocated = tr_allocated tr @ [f]\<rparr>)
      | (_, w) \<Rightarrow> (None, tr\<lparr>tr_frames := w\<rparr>))"

section \<open>Building a space\<close>

definition zero_frame :: "u64 \<Rightarrow> phys \<Rightarrow> phys" where
  "zero_frame f m = m(f := (\<lambda>_. 0))"

definition kernel_indices :: "nat list" where
  "kernel_indices = [KERNEL_PML4_FIRST_INDEX..<512]"

definition kernel_half :: "phys \<Rightarrow> u64 \<Rightarrow> u64 list" where
  "kernel_half m kernel_root = map (pt_entry m kernel_root) kernel_indices"

definition set_entries :: "u64 \<Rightarrow> (nat \<times> u64) list \<Rightarrow> phys \<Rightarrow> phys" where
  "set_entries root ies m = fold (\<lambda>(i, e) m. set_pt_entry m root i e) ies m"

definition address_space_new :: "paging \<Rightarrow> vm \<Rightarrow> (unit, address_space option) outcome \<times> vm" where
  "address_space_new env v =
     (case take_frame env (vm_frames v) of
        (Ok (Some root), w) \<Rightarrow>
          (let half = kernel_half (vm_phys v) (vm_cr3 v);
               kernel_entries = length (filter (\<lambda>e. contains_flags e PTE_PRESENT) half);
               v' = v\<lparr>vm_frames := w,
                      vm_phys := set_entries root (zip kernel_indices half) (zero_frame root (vm_phys v))\<rparr>
           in if kernel_entries > 0 then (Ok (Some \<lparr>as_root = root, as_owned = []\<rparr>), v') else (Panic, v'))
      | (Ok None, w) \<Rightarrow> (Ok None, v\<lparr>vm_frames := w\<rparr>)
      | (_, w) \<Rightarrow> (Panic, v\<lparr>vm_frames := w\<rparr>))"

definition root_frame :: "address_space \<Rightarrow> u64" where
  "root_frame sp = as_root sp"

definition owned_frame_count :: "address_space \<Rightarrow> nat" where
  "owned_frame_count sp = length (as_owned sp)"

section \<open>Mapping and protecting a page\<close>

definition map_page ::
  "paging \<Rightarrow> u64 \<Rightarrow> u64 \<Rightarrow> vm \<times> address_space \<Rightarrow> (map_error, unit) outcome \<times> vm \<times> address_space" where
  "map_page env page flags = (\<lambda>(v, sp).
     if \<not> is_user_address page then (Err (NotUserAddress page), v, sp)
     else if \<not> contains_flags flags PTE_USER then (Err (NotUserAccessible page), v, sp)
     else
       (case take_frame env (vm_frames v) of
          (Ok (Some frame), w) \<Rightarrow>
            (case pg_map_to env (tracking_allocate env) (as_root sp) page frame flags (vm_phys v)
                    \<lparr>tr_frames = w, tr_allocated = []\<rparr> of
               (r, m, tr) \<Rightarrow>
                 (let v' = v\<lparr>vm_phys := m, vm_frames := tr_frames tr\<rparr> in
                  if fw_panicked (tr_frames tr) then (Panic, v', sp)
                  else (case r of
                      Inr _ \<Rightarrow> (Ok (), v', sp\<lparr>as_owned := as_owned sp @ [frame] @ tr_allocated tr\<rparr>)
                    | Inl msg \<Rightarrow> (Err (PagingError msg), v', sp\<lparr>as_owned := as_owned sp @ tr_allocated tr\<rparr>))))
        | (Ok None, w) \<Rightarrow> (Err MapOutOfMemory, v\<lparr>vm_frames := w\<rparr>, sp)
        | (_, w) \<Rightarrow> (Panic, v\<lparr>vm_frames := w\<rparr>, sp)))"

definition protect_page ::
  "paging \<Rightarrow> u64 \<Rightarrow> u64 \<Rightarrow> vm \<times> address_space \<Rightarrow> (map_error, unit) outcome \<times> vm \<times> address_space" where
  "protect_page env page flags = (\<lambda>(v, sp).
     if \<not> is_user_address page then (Err (NotUserAddress page), v, sp)
     else
       (case pg_update_flags env (as_root sp) page flags (vm_phys v) of
          (Inr _, m) \<Rightarrow> (Ok (), v\<lparr>vm_phys := m\<rparr>, sp)
        | (Inl msg, m) \<Rightarrow> (Err (PagingError msg), v\<lparr>vm_phys := m\<rparr>, sp)))"

section \<open>Walks\<close>

fun translate_levels :: "phys \<Rightarrow> nat \<Rightarrow> nat list \<Rightarrow> u64 \<Rightarrow> u64 option" where
  "translate_levels m level [] frame = Some frame"
| "translate_levels m level (i # is) frame =
     (let e = pt_entry m frame i in
      if \<not> contains_flags e PTE_PRESENT then None
      else if level < 3 \<and> contains_flags e PTE_HUGE then None
      else translate_levels m (level + 1) is (entry_addr e))"

definition translate :: "paging \<Rightarrow> phys \<Rightarrow> u64 \<Rightarrow> u64 \<Rightarrow> u64 option" where
  "translate env m root addr =
     (if pg_va_ok env addr then translate_levels m 0 (pg_indices env addr) root else None)"

fun accessible_levels :: "phys \<Rightarrow> bool \<Rightarrow> nat list \<Rightarrow> u64 \<Rightarrow> bool" where
  "accessible_levels m require_writable [] frame = True"
| "accessible_levels m require_writable (i # is) frame =
     (let flags = pt_entry m frame i in
      if \<not> contains_flags flags PTE_PRESENT \<or> \<not> contains_flags flags PTE_USER then False
      else if require_writable \<and> \<not> contains_flags flags PTE_WRITABLE then False
      else accessible_levels m require_writable is (entry_addr flags))"

definition page_is_accessible :: "paging \<Rightarrow> phys \<Rightarrow> u64 \<Rightarrow> u64 \<Rightarrow> bool \<Rightarrow> bool" where
  "page_is_accessible env m root addr require_writable =
     (if pg_va_ok env addr then accessible_levels m require_writable (pg_indices env addr) root else False)"

function accessible_walk :: "paging \<Rightarrow> phys \<Rightarrow> u64 \<Rightarrow> bool \<Rightarrow> u64 \<Rightarrow> u64 \<Rightarrow> (unit, bool) outcome" where
  "accessible_walk env m root require_writable page last_page =
     (if \<not> page_is_accessible env m root page require_writable then Ok False
      else if page = last_page then Ok True
      else if page + 4096 < page then Panic
      else accessible_walk env m root require_writable (page + 4096) last_page)"
  by pat_completeness auto
termination
proof (relation "measure (\<lambda>(env, m, root, w, page, last_page). 2 ^ 64 - unat page)")
  fix env :: paging and m :: phys and root :: u64 and w and page last_page :: u64
  assume "\<not> page + 4096 < page"
  then show "((env, m, root, w, page + 4096, last_page), env, m, root, w, page, last_page)
      \<in> measure (\<lambda>(env, m, root, w, page, last_page). 2 ^ 64 - unat page)"
    using page_walk_decreases by simp
qed simp

declare accessible_walk.simps [simp del]

definition range_is_accessible :: "paging \<Rightarrow> phys \<Rightarrow> u64 \<Rightarrow> u64 \<Rightarrow> u64 \<Rightarrow> bool \<Rightarrow> (unit, bool) outcome" where
  "range_is_accessible env m root start len require_writable =
     (if len = 0 then Ok True
      else if start + (len - 1) < start then Ok False
      else
        (let last = start + (len - 1) in
         if \<not> is_user_address start \<or> \<not> is_user_address last then Ok False
         else accessible_walk env m root require_writable (page_of start) (page_of last)))"

section \<open>Filling pages\<close>

text \<open>A copy into one frame: \<open>data\<close> at offset \<open>at\<close>.\<close>

definition store_bytes :: "u64 \<Rightarrow> nat \<Rightarrow> bytes \<Rightarrow> phys \<Rightarrow> phys" where
  "store_bytes frame at data m =
     m(frame := (\<lambda>k. if at \<le> k \<and> k < at + length data then data ! (k - at) else m frame k))"

text \<open>
  The loop of \<^verbatim>\<open>write_at\<close>, with the bytes still to be written; \<open>addr\<close> is the start and \<open>written\<close> the
  count so far. The sum \<^verbatim>\<open>addr + written\<close> panics when it overflows.
\<close>

function write_loop ::
  "paging \<Rightarrow> u64 \<Rightarrow> u64 \<Rightarrow> bytes \<Rightarrow> nat \<Rightarrow> phys \<Rightarrow> (map_error, unit) outcome \<times> phys" where
  "write_loop env root addr data written m =
     (if written < length data then
        (if unat addr + written \<ge> usize_lim then (Panic, m)
         else
           (let target = addr + of_nat written;
                page_offset = unat (target AND 0xFFF);
                chunk = min (4096 - page_offset) (length data - written)
            in case translate env m root target of
                 None \<Rightarrow> (Err (NotMapped target), m)
               | Some frame \<Rightarrow>
                   write_loop env root addr data (written + chunk)
                     (store_bytes frame page_offset (take chunk (drop written data)) m)))
      else (Ok (), m))"
  by pat_completeness auto
termination
proof (relation "measure (\<lambda>(env, root, addr, data, written, m). length data - written)")
  fix addr :: u64 and data :: bytes and written :: nat and target :: u64 and page_offset chunk
  assume "written < length data" "page_offset = unat (target AND 0xFFF)"
    "chunk = min (4096 - page_offset) (length data - written)"
  moreover have "unat (target AND 0xFFF :: u64) < 4096" by (rule page_offset_bound)
  ultimately have "written < written + chunk" by simp
  with \<open>written < length data\<close>
  show "((env, root, addr, data, written + chunk, m'), env, root, addr, data, written, m)
      \<in> measure (\<lambda>(env, root, addr, data, written, m). length data - written)" for env :: paging and root :: u64 and m m' :: phys
    by simp
qed simp

declare write_loop.simps [simp del]

definition write_at ::
  "paging \<Rightarrow> u64 \<Rightarrow> bytes \<Rightarrow> vm \<times> address_space \<Rightarrow> (map_error, unit) outcome \<times> vm \<times> address_space" where
  "write_at env addr data = (\<lambda>(v, sp).
     case write_loop env (as_root sp) addr data 0 (vm_phys v) of (r, m) \<Rightarrow> (r, v\<lparr>vm_phys := m\<rparr>, sp))"

text \<open>\<^verbatim>\<open>zero_at\<close> is the same loop with a run of zeros in place of the data.\<close>

definition zero_at ::
  "paging \<Rightarrow> u64 \<Rightarrow> nat \<Rightarrow> vm \<times> address_space \<Rightarrow> (map_error, unit) outcome \<times> vm \<times> address_space" where
  "zero_at env addr len = write_at env addr (replicate len 0)"

section \<open>Teardown and switching\<close>

definition address_space_drop :: "address_space \<Rightarrow> vm \<Rightarrow> vm" where
  "address_space_drop sp v =
     v\<lparr>vm_frames := give_back (as_root sp) (fold give_back (as_owned sp) (vm_frames v))\<rparr>"

text \<open>\<^verbatim>\<open>activate\<close> and \<^verbatim>\<open>restore\<close> write CR3 only when it changes.\<close>

definition activate :: "address_space \<Rightarrow> vm \<Rightarrow> u64 \<times> vm" where
  "activate sp v = (vm_cr3 v, if vm_cr3 v \<noteq> as_root sp then v\<lparr>vm_cr3 := as_root sp\<rparr> else v)"

definition restore :: "u64 \<Rightarrow> vm \<Rightarrow> vm" where
  "restore root v = (if vm_cr3 v \<noteq> root then v\<lparr>vm_cr3 := root\<rparr> else v)"

definition record_kernel_root :: "vm \<Rightarrow> vm" where
  "record_kernel_root v = (if vm_kernel_root v = None then v\<lparr>vm_kernel_root := Some (vm_cr3 v)\<rparr> else v)"

definition kernel_root :: "vm \<Rightarrow> (unit, u64) outcome" where
  "kernel_root v = (case vm_kernel_root v of None \<Rightarrow> Panic | Some r \<Rightarrow> Ok r)"

definition current_root :: "vm \<Rightarrow> u64" where
  "current_root v = vm_cr3 v"

end
