(* ===== verification/AddressSpaceProofs.thy ===== *)
theory AddressSpaceProofs
  imports AddressSpace "HOL-Library.Multiset"
begin

text \<open>
  What an address space is: a map from pages to permissions and contents. The contract of the two
  mapping operations of the \<^verbatim>\<open>x86_64\<close> crate is the locale \<open>page_mapper\<close>; inside it every operation of
  \<^verbatim>\<open>address_space.rs\<close> is shown to act on that map, to keep the frames it owns apart, and to give them
  all back at the end.
\<close>

unbundle bit_operations_syntax

section \<open>Entries\<close>

lemma pt_entry_set [simp]:
  "pt_entry (set_pt_entry m f i e) g j = (if g = f \<and> j = i then e else pt_entry m g j)"
proof (cases "g = f")
  case True
  show ?thesis
  proof (cases "j = i")
    case True
    have l: "length (u64_to_le e) = 8" by simp
    have "map (set_pt_entry m f i e f) [8 * i..<8 * i + 8] = u64_to_le e"
      by (rule nth_equalityI) (simp_all add: l set_pt_entry_def)
    with True \<open>g = f\<close> show ?thesis by (simp add: pt_entry_def u64_from_to_le)
  next
    case False
    then have "map (set_pt_entry m f i e f) [8 * j..<8 * j + 8] = map (m f) [8 * j..<8 * j + 8]"
      by (auto simp: set_pt_entry_def)
    with False \<open>g = f\<close> show ?thesis by (simp add: pt_entry_def del: map_eq_conv)
  qed
qed (simp add: pt_entry_def set_pt_entry_def)

lemma pt_entry_cong: "m f = m' f \<Longrightarrow> pt_entry m f i = pt_entry m' f i"
  by (simp add: pt_entry_def)

lemma set_pt_entry_other: "g \<noteq> f \<Longrightarrow> set_pt_entry m f i e g = m g"
  by (simp add: set_pt_entry_def)

definition frame_ok :: "u64 \<Rightarrow> bool" where
  "frame_ok f \<longleftrightarrow> f AND PTE_ADDR_MASK = f"

definition flags_ok :: "u64 \<Rightarrow> bool" where
  "flags_ok fl \<longleftrightarrow> fl AND PTE_ADDR_MASK = 0"

lemma frame_okI:
  assumes "4096 dvd unat f" "unat f < 2 ^ 52"
  shows "frame_ok f"
proof -
  have u: "unat (take_bit n f) = unat f mod 2 ^ n" for n by (simp only: unsigned_take_bit_eq) (simp add: take_bit_eq_mod)
  have t: "take_bit 12 f = 0" "take_bit 52 f = f"
    unfolding word_unat_eq_iff u using assms by (simp_all add: mod_eq_0_iff_dvd)
  have lo: "\<not> bit f n" if "n < 12" for n
    using t(1) that by (metis bit_take_bit_iff bit_0_eq bot_apply bot_bool_def)
  have hi: "\<not> bit f n" if "52 \<le> n" for n
    using t(2) that by (metis bit_take_bit_iff not_le)
  have m: "bit PTE_ADDR_MASK n \<longleftrightarrow> 12 \<le> n \<and> n < 52" if "n < 64" for n
  proof -
    have M: "PTE_ADDR_MASK = mask 52 AND NOT (mask 12)" by (simp add: PTE_ADDR_MASK_def mask_eq_exp_minus_1)
    show ?thesis using that unfolding M by (auto simp: bit_simps)
  qed
  show ?thesis unfolding frame_ok_def
    by (rule bit_word_eqI) (use m lo hi in \<open>simp add: bit_simps, metis not_le\<close>)
qed

lemma entry_parts:
  assumes "frame_ok f" "flags_ok fl"
  shows "entry_addr (f OR fl) = f" "entry_flags (f OR fl) = fl"
proof -
  have f: "bit f n \<longleftrightarrow> bit f n \<and> bit PTE_ADDR_MASK n" for n
    using assms(1) unfolding frame_ok_def by (metis bit_and_iff)
  have fl: "\<not> (bit fl n \<and> bit PTE_ADDR_MASK n)" for n
    using assms(2) unfolding flags_ok_def by (metis bit_and_iff bit_0_eq bot_apply bot_bool_def)
  show "entry_addr (f OR fl) = f" unfolding entry_addr_def
    by (rule bit_word_eqI) (use f fl in \<open>auto simp: bit_simps\<close>)
  show "entry_flags (f OR fl) = fl" unfolding entry_flags_def
    by (rule bit_word_eqI) (use f fl in \<open>auto simp: bit_simps\<close>)
qed

lemma frame_ok_addr [simp]: "frame_ok (entry_addr e)"
  by (simp add: frame_ok_def entry_addr_def and.assoc)

lemma flags_ok_consts [simp]:
  "flags_ok PTE_PRESENT" "flags_ok PTE_WRITABLE" "flags_ok PTE_USER" "flags_ok PTE_HUGE" "flags_ok PTE_NO_EXECUTE"
  by (simp_all add: flags_ok_def PTE_PRESENT_def PTE_WRITABLE_def PTE_USER_def PTE_HUGE_def PTE_NO_EXECUTE_def PTE_ADDR_MASK_def)

lemma flags_ok_or [simp]: "flags_ok a \<Longrightarrow> flags_ok b \<Longrightarrow> flags_ok (a OR b)"
  unfolding flags_ok_def by (simp add: bit.conj_disj_distrib2)

lemma contains_entry_flags: "flags_ok b \<Longrightarrow> contains_flags (entry_flags e) b = contains_flags e b"
proof -
  assume "flags_ok b"
  then have b: "\<not> (bit b n \<and> bit PTE_ADDR_MASK n)" for n
    unfolding flags_ok_def by (metis bit_and_iff bit_0_eq bot_apply bot_bool_def)
  have "entry_flags e AND b = e AND b" unfolding entry_flags_def
    by (rule bit_word_eqI) (use b in \<open>auto simp: bit_simps\<close>)
  then show ?thesis by (simp add: contains_flags_def)
qed

lemma contains_bits: "contains_flags e b \<longleftrightarrow> (\<forall>n. bit b n \<longrightarrow> bit e n)"
proof
  assume "\<forall>n. bit b n \<longrightarrow> bit e n"
  then show "contains_flags e b" unfolding contains_flags_def by (intro bit_word_eqI) (auto simp: bit_simps)
qed (unfold contains_flags_def, metis bit_and_iff)

lemma contains_or: "contains_flags e b \<Longrightarrow> contains_flags (e OR e') b"
  by (auto simp: contains_bits bit_simps)

lemma contains_trans: "contains_flags e b \<Longrightarrow> contains_flags b c \<Longrightarrow> contains_flags e c"
  unfolding contains_flags_def by (metis and.assoc)

definition LOAD_FLAGS :: u64 where
  "LOAD_FLAGS = PTE_PRESENT OR PTE_WRITABLE OR PTE_USER"

lemma load_flags_contains:
  "contains_flags LOAD_FLAGS PTE_PRESENT" "contains_flags LOAD_FLAGS PTE_WRITABLE" "contains_flags LOAD_FLAGS PTE_USER"
  "flags_ok LOAD_FLAGS"
  by (simp_all add: LOAD_FLAGS_def contains_flags_def flags_ok_def PTE_PRESENT_def PTE_WRITABLE_def PTE_USER_def PTE_ADDR_MASK_def)

lemma contains_load_flags:
  "contains_flags e LOAD_FLAGS \<longleftrightarrow> contains_flags e PTE_PRESENT \<and> contains_flags e PTE_WRITABLE \<and> contains_flags e PTE_USER"
  by (auto simp: contains_bits LOAD_FLAGS_def bit_simps)

lemma set_entries_other: "f \<noteq> root \<Longrightarrow> set_entries root ies m f = m f"
  by (induction ies arbitrary: m) (auto simp: set_entries_def set_pt_entry_other)

lemma pt_entry_set_entries:
  "distinct (map fst ies) \<Longrightarrow>
   pt_entry (set_entries root ies m) root i = (case map_of ies i of None \<Rightarrow> pt_entry m root i | Some e \<Rightarrow> e)"
proof (induction ies arbitrary: m)
  case (Cons ie ies)
  have "set_entries root (ie # ies) m = set_entries root ies (set_pt_entry m root (fst ie) (snd ie))"
    by (cases ie) (simp add: set_entries_def)
  moreover have "map_of ies (fst ie) = None" using Cons(2) by (simp add: map_of_eq_None_iff)
  ultimately show ?case using Cons by (cases ie) (auto split: option.splits)
qed (simp add: set_entries_def)

section \<open>Leaves\<close>

text \<open>The entry that maps an address, when the walk reaches one, and the tables the walk reads.\<close>

fun leaf_levels :: "phys \<Rightarrow> nat list \<Rightarrow> u64 \<Rightarrow> u64 option" where
  "leaf_levels m [] frame = None"
| "leaf_levels m [i] frame = (let e = pt_entry m frame i in if contains_flags e PTE_PRESENT then Some e else None)"
| "leaf_levels m (i # j # is) frame =
     (let e = pt_entry m frame i in
      if contains_flags e PTE_PRESENT \<and> \<not> contains_flags e PTE_HUGE then leaf_levels m (j # is) (entry_addr e) else None)"

fun walk_tables :: "phys \<Rightarrow> nat list \<Rightarrow> u64 \<Rightarrow> u64 list" where
  "walk_tables m [] frame = []"
| "walk_tables m [i] frame = [frame]"
| "walk_tables m (i # j # is) frame =
     frame # (let e = pt_entry m frame i in
      if contains_flags e PTE_PRESENT \<and> \<not> contains_flags e PTE_HUGE then walk_tables m (j # is) (entry_addr e) else [])"

text \<open>Every table entry above the leaf lets Ring 3 read and write below it.\<close>

fun open_levels :: "phys \<Rightarrow> nat list \<Rightarrow> u64 \<Rightarrow> bool" where
  "open_levels m [] frame = True"
| "open_levels m [i] frame = True"
| "open_levels m (i # j # is) frame =
     (let e = pt_entry m frame i in contains_flags e LOAD_FLAGS \<and> open_levels m (j # is) (entry_addr e))"

text \<open>No entry above the last level is a large page.\<close>

fun small_levels :: "phys \<Rightarrow> nat list \<Rightarrow> u64 \<Rightarrow> bool" where
  "small_levels m [] frame = True"
| "small_levels m [i] frame = True"
| "small_levels m (i # j # is) frame =
     (let e = pt_entry m frame i in
      contains_flags e PTE_PRESENT \<longrightarrow> \<not> contains_flags e PTE_HUGE \<and> small_levels m (j # is) (entry_addr e))"

lemma small_accessible:
  "small_levels m is frame \<Longrightarrow> accessible_levels m w is frame \<Longrightarrow> is \<noteq> [] \<Longrightarrow> leaf_levels m is frame \<noteq> None"
  by (induction m "is" frame rule: small_levels.induct) (auto simp: Let_def split: if_splits)

lemma walk_cong:
  "\<forall>f\<in>set (walk_tables m is frame). m' f = m f \<Longrightarrow>
   leaf_levels m' is frame = leaf_levels m is frame \<and> walk_tables m' is frame = walk_tables m is frame"
proof (induction m "is" frame rule: walk_tables.induct)
  case (2 m i frame)
  then show ?case by (simp add: pt_entry_def)
next
  case (3 m i j "is" frame)
  have e: "pt_entry m' frame i = pt_entry m frame i" using 3(2) by (simp add: pt_entry_def Let_def)
  show ?case using 3 by (auto simp: e Let_def)
qed simp

lemma open_cong:
  "leaf_levels m is frame \<noteq> None \<Longrightarrow> \<forall>f\<in>set (walk_tables m is frame). m' f = m f \<Longrightarrow>
   open_levels m' is frame = open_levels m is frame"
proof (induction m "is" frame rule: walk_tables.induct)
  case (3 m i j "is" frame)
  have e: "pt_entry m' frame i = pt_entry m frame i" using 3(3) by (simp add: pt_entry_def Let_def)
  show ?case using 3 by (auto simp: e Let_def split: if_splits)
qed simp_all

section \<open>Frames taken and given back\<close>

lemma held_distinct:
  assumes "frames.pool_ok regions phys_ok free (mset held) s"
  shows "distinct held"
  unfolding distinct_count_atmost_1
proof
  fix f
  show "count (mset held) f = (if f \<in> set held then 1 else 0)"
    using frames.pool_held_once [OF assms, of f]
    by (cases "f \<in> set held") (auto simp: count_mset_absent le_Suc_eq count_eq_zero_iff)
qed

definition frames_ok :: "paging \<Rightarrow> frame_world \<Rightarrow> bool" where
  "frames_ok env w \<longleftrightarrow> regions_ok (pg_regions env) \<and> accepts_physical (pg_phys_ok env) \<and>
     frame_inv (pg_phys_ok env) (pg_regions env) 0 w"

lemma frames_okD:
  assumes "frames_ok env w"
  shows "distinct (fw_held w)" "f \<in> set (fw_held w) \<Longrightarrow> frame_ok f" "\<not> fw_panicked w"
    "set (fw_held w) \<inter> set (fp_free (fw_pool w)) = {}"
proof -
  from assms have r: "regions_ok (pg_regions env)" "accepts_physical (pg_phys_ok env)"
    and i: "\<not> fw_panicked w"
      "frames.pool_ok (pg_regions env) (pg_phys_ok env) (fp_free (fw_pool w)) (mset (fw_held w)) (fw_alloc w)"
      "\<forall>f\<in>set (fw_held w) \<union> set (fp_free (fw_pool w)). in_usable (pg_regions env) f \<and> 4096 dvd unat f"
    by (auto simp: frames_ok_def frame_inv_def)
  show "distinct (fw_held w)" by (rule held_distinct [OF i(2)])
  show "\<not> fw_panicked w" by (rule i(1))
  show "set (fw_held w) \<inter> set (fp_free (fw_pool w)) = {}" using frames.pool_not_both [OF i(2)] by auto
  show "frame_ok f" if "f \<in> set (fw_held w)"
  proof (rule frame_okI)
    from i(3) that show "4096 dvd unat f" by blast
    from i(3) that obtain r where "r \<in> set (pg_regions env)" "unat f + 4096 \<le> unat (mr_end r)"
      by (auto simp: in_usable_def)
    then show "unat f < 2 ^ 52" using r(1) by (auto simp: regions_ok_def region_ok_def list_all_iff)
  qed
qed

lemma take_frame_ok:
  assumes "frames_ok env w" "take_frame env w = (r, w')"
  obtains x where "r = Ok x" "frames_ok env w'" "fw_held w' = fw_held w @ (case x of None \<Rightarrow> [] | Some f \<Rightarrow> [f])"
proof -
  have inv: "frame_inv (pg_phys_ok env) (pg_regions env) 0 w" using assms(1) by (simp add: frames_ok_def)
  have w': "w' = frame_exec (pg_phys_ok env) (pg_regions env) FrAlloc w"
    and r: "r = fst (allocate_frame (pg_phys_ok env) (pg_regions env) (fw_alloc w, fw_pool w))"
    using assms(2) by (simp_all add: take_frame_def)
  have ok: "frames_ok env w'" using assms(1) frame_inv_alloc [OF inv] by (simp add: frames_ok_def w')
  have "\<not> fw_panicked w'" using frames_okD(3) [OF ok] .
  then obtain x where x: "r = Ok x" "fw_held w' = fw_held w @ (case x of None \<Rightarrow> [] | Some f \<Rightarrow> [f])"
    unfolding w' r by (auto split: prod.splits outcome.splits option.splits)
  show thesis by (rule that [OF x(1) ok x(2)])
qed

inductive allocs :: "('s \<Rightarrow> 'f option \<times> 's) \<Rightarrow> 's \<Rightarrow> 'f list \<Rightarrow> 's \<Rightarrow> bool" for alloc where
  allocs_nil: "allocs alloc s [] s"
| allocs_some: "alloc s = (Some f, s') \<Longrightarrow> allocs alloc s' fs s'' \<Longrightarrow> allocs alloc s (f # fs) s''"
| allocs_none: "alloc s = (None, s') \<Longrightarrow> allocs alloc s' fs s'' \<Longrightarrow> allocs alloc s fs s''"

lemma tracking_allocate_ok:
  assumes "frames_ok env (tr_frames tr)" "tracking_allocate env tr = (x, tr')"
  shows "frames_ok env (tr_frames tr')"
    "fw_held (tr_frames tr') = fw_held (tr_frames tr) @ (case x of None \<Rightarrow> [] | Some f \<Rightarrow> [f])"
    "tr_allocated tr' = tr_allocated tr @ (case x of None \<Rightarrow> [] | Some f \<Rightarrow> [f])"
proof -
  obtain r w' where t: "take_frame env (tr_frames tr) = (r, w')" by force
  from take_frame_ok [OF assms(1) t] obtain y where y: "r = Ok y" "frames_ok env w'"
    "fw_held w' = fw_held (tr_frames tr) @ (case y of None \<Rightarrow> [] | Some f \<Rightarrow> [f])" .
  have "tr' = \<lparr>tr_frames = w', tr_allocated = tr_allocated tr @ (case y of None \<Rightarrow> [] | Some f \<Rightarrow> [f])\<rparr> \<and> x = y"
    using assms(2) t y(1) by (auto simp: tracking_allocate_def split: option.splits)
  with y show "frames_ok env (tr_frames tr')"
    "fw_held (tr_frames tr') = fw_held (tr_frames tr) @ (case x of None \<Rightarrow> [] | Some f \<Rightarrow> [f])"
    "tr_allocated tr' = tr_allocated tr @ (case x of None \<Rightarrow> [] | Some f \<Rightarrow> [f])" by simp_all
qed

lemma allocs_tracking:
  assumes "allocs (tracking_allocate env) tr fs tr'" "frames_ok env (tr_frames tr)"
  shows "frames_ok env (tr_frames tr') \<and> fw_held (tr_frames tr') = fw_held (tr_frames tr) @ fs \<and>
    tr_allocated tr' = tr_allocated tr @ fs"
  using assms
proof (induction rule: allocs.induct)
  case (allocs_some s f s' fs s'')
  with tracking_allocate_ok [OF allocs_some(4,1)] show ?case by simp
next
  case (allocs_none s s' fs s'')
  with tracking_allocate_ok [OF allocs_none(4,1)] show ?case by simp
qed simp

lemma give_back_exec:
  assumes "f \<in> set (fw_held w)"
  shows "\<exists>i. give_back f w = frame_exec phys_ok regions (FrRelease i) w"
proof -
  obtain as bs where h: "fw_held w = as @ f # bs" "f \<notin> set as" using split_list_first [OF assms] by blast
  then have "give_back f w = frame_exec phys_ok regions (FrRelease (length as)) w"
    by (simp add: give_back_def remove1_append)
  then show ?thesis ..
qed

lemma give_back_ok:
  assumes "frames_ok env w" "f \<in> set (fw_held w)"
  shows "frames_ok env (give_back f w)" "fw_held (give_back f w) = remove1 f (fw_held w)"
    "fp_free (fw_pool (give_back f w)) = fp_free (fw_pool w) @ [f]"
proof -
  obtain i where i: "give_back f w = frame_exec (pg_phys_ok env) (pg_regions env) (FrRelease i) w"
    using give_back_exec [OF assms(2)] by blast
  show "frames_ok env (give_back f w)"
    using assms(1) frame_inv_release unfolding i frames_ok_def by blast
  show "fw_held (give_back f w) = remove1 f (fw_held w)" by (simp add: give_back_def)
  show "fp_free (fw_pool (give_back f w)) = fp_free (fw_pool w) @ [f]"
    using frames_okD(4) [OF assms(1)] assms(2) by (auto simp: give_back_def frame_release_def)
qed

lemma give_back_all:
  assumes "frames_ok env w" "distinct fs" "set fs \<subseteq> set (fw_held w)"
  shows "frames_ok env (fold give_back fs w)" "mset (fw_held (fold give_back fs w)) = mset (fw_held w) - mset fs"
    "fp_free (fw_pool (fold give_back fs w)) = fp_free (fw_pool w) @ fs"
proof -
  have "frames_ok env (fold give_back fs w) \<and> mset (fw_held (fold give_back fs w)) = mset (fw_held w) - mset fs \<and>
    fp_free (fw_pool (fold give_back fs w)) = fp_free (fw_pool w) @ fs"
    using assms
  proof (induction fs arbitrary: w)
    case (Cons f fs)
    note g = give_back_ok [OF Cons(2), of f]
    have "set fs \<subseteq> set (fw_held (give_back f w))"
      using Cons(3,4) frames_okD(1) [OF Cons(2)] g(2) by auto
    with Cons g show ?case by simp
  qed simp
  then show "frames_ok env (fold give_back fs w)" "mset (fw_held (fold give_back fs w)) = mset (fw_held w) - mset fs"
    "fp_free (fw_pool (fold give_back fs w)) = fp_free (fw_pool w) @ fs" by auto
qed

section \<open>The contract of the mapper\<close>

definition leaf :: "paging \<Rightarrow> phys \<Rightarrow> u64 \<Rightarrow> u64 \<Rightarrow> u64 option" where
  "leaf env m root a = leaf_levels m (pg_indices env a) root"

definition upper_open :: "paging \<Rightarrow> phys \<Rightarrow> u64 \<Rightarrow> u64 \<Rightarrow> bool" where
  "upper_open env m root a = open_levels m (pg_indices env a) root"

text \<open>
  What \<^verbatim>\<open>map_to\<close> and \<^verbatim>\<open>update_flags\<close> leave alone: everything but the tables \<open>T\<close>, the kernel's half of
  the root table, and the entries of other pages.
\<close>

definition tables_effect :: "paging \<Rightarrow> u64 \<Rightarrow> u64 \<Rightarrow> phys \<Rightarrow> phys \<Rightarrow> u64 set \<Rightarrow> bool" where
  "tables_effect env root page m m' T \<longleftrightarrow>
     (\<forall>f. f \<notin> T \<longrightarrow> m' f = m f) \<and>
     (\<forall>i. KERNEL_PML4_FIRST_INDEX \<le> i \<longrightarrow> pt_entry m' root i = pt_entry m root i) \<and>
     (\<forall>a. is_user_address a \<and> page_of a \<noteq> page \<longrightarrow> leaf env m' root a = leaf env m root a) \<and>
     (\<forall>a. is_user_address a \<and> leaf env m root a \<noteq> None \<and> upper_open env m root a \<longrightarrow> upper_open env m' root a)"

section \<open>The abstract address space\<close>

text \<open>What a space maps: the flags and the contents of every user page.\<close>

definition page_view :: "paging \<Rightarrow> phys \<Rightarrow> u64 \<Rightarrow> u64 \<Rightarrow> (u64 \<times> (nat \<Rightarrow> u8)) option" where
  "page_view env m root p =
     (if is_user_address p \<and> page_of p = p
      then map_option (\<lambda>e. (entry_flags e, m (entry_addr e))) (leaf env m root p)
      else None)"

definition pages :: "paging \<Rightarrow> vm \<times> address_space \<Rightarrow> u64 \<Rightarrow> (u64 \<times> (nat \<Rightarrow> u8)) option" where
  "pages env s = page_view env (vm_phys (fst s)) (as_root (snd s))"

text \<open>The flags and the byte at an address.\<close>

definition cell :: "paging \<Rightarrow> phys \<Rightarrow> u64 \<Rightarrow> u64 \<Rightarrow> (u64 \<times> u8) option" where
  "cell env m root a =
     (if is_user_address a
      then map_option (\<lambda>e. (entry_flags e, m (entry_addr e) (unat a mod 4096))) (leaf env m root a)
      else None)"

definition cells :: "paging \<Rightarrow> vm \<times> address_space \<Rightarrow> u64 \<Rightarrow> (u64 \<times> u8) option" where
  "cells env s = cell env (vm_phys (fst s)) (as_root (snd s))"

definition space_frames :: "address_space \<Rightarrow> u64 list" where
  "space_frames sp = as_root sp # as_owned sp"

text \<open>
  A sound space: the frames it owns are its own, the tables are among them, and every mapped page
  has a frame of the space to itself.
\<close>

definition space_ok :: "paging \<Rightarrow> (phys \<Rightarrow> u64 \<Rightarrow> u64 set \<Rightarrow> bool) \<Rightarrow> u64 set \<Rightarrow> vm \<times> address_space \<Rightarrow> bool" where
  "space_ok env pt_inv T = (\<lambda>(v, sp).
     frames_ok env (vm_frames v) \<and>
     distinct (space_frames sp) \<and> set (space_frames sp) \<subseteq> set (fw_held (vm_frames v)) \<and>
     pt_inv (vm_phys v) (as_root sp) T \<and> as_root sp \<in> T \<and> T \<subseteq> set (space_frames sp) \<and>
     (\<forall>a e. is_user_address a \<longrightarrow> leaf env (vm_phys v) (as_root sp) a = Some e \<longrightarrow>
        entry_addr e \<in> set (space_frames sp) - T \<and> upper_open env (vm_phys v) (as_root sp) a) \<and>
     (\<forall>a b e e'. is_user_address a \<longrightarrow> is_user_address b \<longrightarrow> leaf env (vm_phys v) (as_root sp) a = Some e \<longrightarrow>
        leaf env (vm_phys v) (as_root sp) b = Some e' \<longrightarrow> entry_addr e = entry_addr e' \<longrightarrow> page_of a = page_of b))"

text \<open>Everything outside the space: other frames, the kernel's half of the root, and CR3.\<close>

definition outside_same :: "vm \<times> address_space \<Rightarrow> vm \<times> address_space \<Rightarrow> bool" where
  "outside_same s s' \<longleftrightarrow>
     as_root (snd s') = as_root (snd s) \<and> vm_cr3 (fst s') = vm_cr3 (fst s) \<and>
     vm_kernel_root (fst s') = vm_kernel_root (fst s) \<and>
     (\<forall>i. KERNEL_PML4_FIRST_INDEX \<le> i \<longrightarrow>
        pt_entry (vm_phys (fst s')) (as_root (snd s)) i = pt_entry (vm_phys (fst s)) (as_root (snd s)) i) \<and>
     (\<forall>f. f \<in> set (fw_held (vm_frames (fst s))) - set (space_frames (snd s)) \<longrightarrow>
        vm_phys (fst s') f = vm_phys (fst s) f)"

lemma outside_same_refl [simp]: "outside_same s s"
  by (simp add: outside_same_def)

text \<open>
  What a sequence of operations on a space does to the rest of the machine: it takes frames for the
  space, loses the frames \<open>lost\<close>, and leaves everything else as it was.
\<close>

definition space_extends :: "u64 multiset \<Rightarrow> vm \<times> address_space \<Rightarrow> vm \<times> address_space \<Rightarrow> bool" where
  "space_extends lost s s' \<longleftrightarrow> outside_same s s' \<and>
     (\<exists>fs. as_owned (snd s') = as_owned (snd s) @ fs \<and>
        mset (fw_held (vm_frames (fst s'))) = mset (fw_held (vm_frames (fst s))) + mset fs + lost)"

lemma space_extends_refl [simp]: "space_extends {#} s s"
  by (auto simp: space_extends_def intro: exI [of _ "[]"])

lemma space_extends_trans:
  assumes "space_extends l1 s0 s1" "space_extends l2 s1 s2" "distinct (fw_held (vm_frames (fst s2)))"
  shows "space_extends (l1 + l2) s0 s2"
proof -
  let ?H = "\<lambda>s. mset (fw_held (vm_frames (fst s)))"
  obtain f1 where f1: "as_owned (snd s1) = as_owned (snd s0) @ f1" "?H s1 = ?H s0 + mset f1 + l1" "outside_same s0 s1"
    using assms(1) by (auto simp: space_extends_def)
  obtain f2 where f2: "as_owned (snd s2) = as_owned (snd s1) @ f2" "?H s2 = ?H s1 + mset f2 + l2" "outside_same s1 s2"
    using assms(2) by (auto simp: space_extends_def)
  have "?H s2 = ?H s0 + mset f1 + (l1 + mset f2 + l2)" using f1(2) f2(2) by simp
  then have sum: "count (?H s2) f = count (?H s0) f + count (mset f1) f + count (l1 + mset f2 + l2) f" for f by simp
  have one: "count (?H s2) f \<le> 1" for f using assms(3) by (simp add: distinct_count_atmost_1)
  have dis: "f \<notin> set f1" if "f \<in> set (fw_held (vm_frames (fst s0)))" for f
  proof
    assume "f \<in> set f1"
    then have "0 < count (mset f1) f" "0 < count (?H s0) f" using that by (simp_all add: count_greater_zero_iff)
    then show False using sum [of f] one [of f] by linarith
  qed
  have sub: "set (fw_held (vm_frames (fst s0))) \<subseteq> set (fw_held (vm_frames (fst s1)))"
    using arg_cong [OF f1(2), of set_mset] by auto
  have roots: "as_root (snd s1) = as_root (snd s0)" using f1(3) by (simp add: outside_same_def)
  have "outside_same s0 s2"
    using f1(1,3) f2(3) dis sub unfolding outside_same_def roots space_frames_def by (auto simp: subset_iff)
  then show ?thesis using f1 f2 by (auto simp: space_extends_def)
qed

text \<open>
  The documented behaviour of the mapper. \<open>pt_inv m root T\<close> is the mapper's own invariant on the
  lower half of the tables below \<open>root\<close>, all of which are in \<open>T\<close>: a root with an empty lower half
  satisfies it, it depends on nothing but \<open>T\<close>, and no page below such a root is a huge one. Given a fresh frame, \<^verbatim>\<open>map_to\<close> takes further frames
  only through the allocator it is handed, uses them as tables, refuses a page that is mapped, and
  on success maps the page to the frame with the flags, every table above it at least as permissive
  as the flags ask; \<^verbatim>\<open>update_flags\<close> replaces the flags of a mapped page and refuses any other.
\<close>

locale page_mapper =
  fixes env :: paging and pt_inv :: "phys \<Rightarrow> u64 \<Rightarrow> u64 set \<Rightarrow> bool"
  assumes va_ok_upto: "a \<le> USER_SPACE_END \<Longrightarrow> pg_va_ok env a"
    and indices_user: "is_user_address a \<Longrightarrow> \<exists>i j k l. pg_indices env a = [i, j, k, l] \<and> i < KERNEL_PML4_FIRST_INDEX"
    and indices_page: "is_user_address a \<Longrightarrow> is_user_address b \<Longrightarrow>
      pg_indices env a = pg_indices env b \<longleftrightarrow> page_of a = page_of b"
    and inv_init: "frame_ok root \<Longrightarrow> (\<And>i. i < KERNEL_PML4_FIRST_INDEX \<Longrightarrow> pt_entry m root i = 0) \<Longrightarrow> pt_inv m root {root}"
    and inv_frame: "pt_inv m root T \<Longrightarrow> (\<And>f. f \<in> T \<Longrightarrow> m' f = m f) \<Longrightarrow> pt_inv m' root T"
    and inv_walk: "pt_inv m root T \<Longrightarrow> is_user_address a \<Longrightarrow> set (walk_tables m (pg_indices env a) root) \<subseteq> T"
    and inv_small: "pt_inv m root T \<Longrightarrow> is_user_address a \<Longrightarrow> small_levels m (pg_indices env a) root"
    and map_to_law: "pt_inv m root T \<Longrightarrow> is_user_address page \<Longrightarrow> page_of page = page \<Longrightarrow>
      frame_ok frame \<Longrightarrow> frame \<notin> T \<Longrightarrow> flags_ok flags \<Longrightarrow> contains_flags flags LOAD_FLAGS \<Longrightarrow>
      pg_map_to env alloc root page frame flags m tr = (r, m', tr') \<Longrightarrow>
      \<exists>fs. allocs alloc tr fs tr' \<and>
        (distinct fs \<and> set fs \<inter> insert frame T = {} \<and> (\<forall>f\<in>set fs. frame_ok f) \<longrightarrow>
          pt_inv m' root (T \<union> set fs) \<and> tables_effect env root page m m' (T \<union> set fs) \<and>
          (case r of Inl _ \<Rightarrow> leaf env m' root page = leaf env m root page
           | Inr _ \<Rightarrow> leaf env m root page = None \<and> leaf env m' root page = Some (frame OR flags) \<and>
               upper_open env m' root page))"
    and update_law: "pt_inv m root T \<Longrightarrow> is_user_address page \<Longrightarrow> page_of page = page \<Longrightarrow>
      flags_ok flags \<Longrightarrow> contains_flags flags PTE_PRESENT \<Longrightarrow>
      pg_update_flags env root page flags m = (r, m') \<Longrightarrow>
      pt_inv m' root T \<and> tables_effect env root page m m' T \<and>
      (case r of Inl _ \<Rightarrow> leaf env m root page = None \<and> m' = m
       | Inr _ \<Rightarrow> (\<exists>e. leaf env m root page = Some e \<and> leaf env m' root page = Some (entry_addr e OR flags)))"
begin

lemma user_va: "is_user_address a \<Longrightarrow> pg_va_ok env a"
  by (rule va_ok_upto) (simp add: is_user_address_def)

lemma leaf_page_eq: "is_user_address a \<Longrightarrow> is_user_address b \<Longrightarrow> page_of a = page_of b \<Longrightarrow> leaf env m root a = leaf env m root b"
  using indices_page [of a b] by (simp add: leaf_def)

lemma accessible_mapped:
  assumes "pt_inv m root T" "is_user_address a" "accessible_levels m w (pg_indices env a) root"
  shows "leaf env m root a \<noteq> None"
  using small_accessible [OF inv_small [OF assms(1,2)] assms(3)] indices_user [OF assms(2)] by (auto simp: leaf_def)

lemma user_page_of: "is_user_address a \<Longrightarrow> is_user_address (page_of a) \<and> page_of (page_of a) = page_of a"
proof
  show "page_of (page_of a) = page_of a" by (rule word_unat_eq_iff [THEN iffD2]) (simp add: unat_page_of)
qed (use page_of_below [of a] in \<open>auto simp: is_user_address_def\<close>)

lemma leaf_page_of: "is_user_address a \<Longrightarrow> leaf env m root (page_of a) = leaf env m root a"
  using user_page_of leaf_page_eq by blast

lemma leaf_frame_cong:
  assumes "pt_inv m root T" "\<And>f. f \<in> T \<Longrightarrow> m' f = m f" "is_user_address a"
  shows "leaf env m' root a = leaf env m root a"
    "leaf env m root a \<noteq> None \<Longrightarrow> upper_open env m' root a = upper_open env m root a"
proof -
  have "\<forall>f\<in>set (walk_tables m (pg_indices env a) root). m' f = m f"
    using inv_walk [OF assms(1,3)] assms(2) by blast
  then show "leaf env m' root a = leaf env m root a"
    "leaf env m root a \<noteq> None \<Longrightarrow> upper_open env m' root a = upper_open env m root a"
    using walk_cong open_cong unfolding leaf_def upper_open_def by blast+
qed

lemma translate_leaf:
  assumes "is_user_address a"
  shows "translate env m root a = map_option entry_addr (leaf env m root a)"
proof -
  obtain i j k l where ix: "pg_indices env a = [i, j, k, l]" using indices_user [OF assms] by blast
  show ?thesis using user_va [OF assms] by (simp add: translate_def leaf_def ix Let_def)
qed

text \<open>What Ring 3 may do with a page is what the flags of its entry say.\<close>

lemma accessible_leaf:
  assumes "is_user_address a" "leaf env m root a = Some e" "upper_open env m root a"
  shows "page_is_accessible env m root a w \<longleftrightarrow>
    contains_flags e PTE_PRESENT \<and> contains_flags e PTE_USER \<and> (w \<longrightarrow> contains_flags e PTE_WRITABLE)"
proof -
  obtain i j k l where ix: "pg_indices env a = [i, j, k, l]" using indices_user [OF assms(1)] by blast
  show ?thesis using assms(2,3) user_va [OF assms(1)]
    by (simp add: page_is_accessible_def leaf_def upper_open_def ix Let_def contains_load_flags split: if_split_asm)
qed

text \<open>A step that changes tables only where the mapper may, and takes the frames \<open>fs\<close> for the space.\<close>

lemma tables_step:
  assumes ok: "space_ok env pt_inv T (v, sp)"
    and eff: "tables_effect env (as_root sp) page (vm_phys v) m' (T \<union> set fs)"
    and fresh: "set fs \<inter> set (fw_held (vm_frames v)) = {}"
    and q: "q \<noteq> page \<or> leaf env m' (as_root sp) q = leaf env (vm_phys v) (as_root sp) q"
  shows "page_view env m' (as_root sp) q = page_view env (vm_phys v) (as_root sp) q"
proof (cases "is_user_address q \<and> page_of q = q")
  case True
  have l: "leaf env m' (as_root sp) q = leaf env (vm_phys v) (as_root sp) q"
    using eff q True by (auto simp: tables_effect_def)
  show ?thesis
  proof (cases "leaf env (vm_phys v) (as_root sp) q")
    case (Some e)
    have "entry_addr e \<in> set (space_frames sp) - T" using ok Some True by (auto simp: space_ok_def)
    moreover have "set (space_frames sp) \<subseteq> set (fw_held (vm_frames v))" using ok by (simp add: space_ok_def)
    ultimately have "entry_addr e \<notin> T \<union> set fs" using fresh by auto
    then have "m' (entry_addr e) = vm_phys v (entry_addr e)" using eff by (simp add: tables_effect_def)
    with l Some show ?thesis by (simp add: page_view_def)
  qed (use l in \<open>simp add: page_view_def\<close>)
qed (auto simp: page_view_def)

lemma space_step:
  assumes ok: "space_ok env pt_inv T (v, sp)"
    and eff: "tables_effect env (as_root sp) page (vm_phys v) m' (T \<union> set fs)"
    and inv: "pt_inv m' (as_root sp) (T \<union> set fs)"
    and w: "frames_ok env w" "fw_held w = fw_held (vm_frames v) @ lost @ nf @ fs"
    and pg: "\<And>a. is_user_address a \<Longrightarrow> page_of a = page \<Longrightarrow>
      map_option entry_addr (leaf env m' (as_root sp) a) = map_option entry_addr (leaf env (vm_phys v) (as_root sp) a) \<or>
      (\<exists>f e. nf = [f] \<and> leaf env m' (as_root sp) a = Some e \<and> entry_addr e = f \<and> upper_open env m' (as_root sp) a)"
  shows "space_ok env pt_inv (T \<union> set fs) (v\<lparr>vm_phys := m', vm_frames := w\<rparr>, sp\<lparr>as_owned := as_owned sp @ nf @ fs\<rparr>)"
    "outside_same (v, sp) (v\<lparr>vm_phys := m', vm_frames := w\<rparr>, sp\<lparr>as_owned := as_owned sp @ nf @ fs\<rparr>)"
proof -
  let ?R = "as_root sp" and ?m = "vm_phys v" and ?F = "set (space_frames sp)"
  have d: "distinct (fw_held (vm_frames v) @ lost @ nf @ fs)" using frames_okD(1) [OF w(1)] w(2) by simp
  from ok have S: "distinct (space_frames sp)" "?F \<subseteq> set (fw_held (vm_frames v))" "?R \<in> T" "T \<subseteq> ?F"
    and lf: "\<And>a e. is_user_address a \<Longrightarrow> leaf env ?m ?R a = Some e \<Longrightarrow> entry_addr e \<in> ?F - T \<and> upper_open env ?m ?R a"
    and inj: "\<And>a b e e'. is_user_address a \<Longrightarrow> is_user_address b \<Longrightarrow> leaf env ?m ?R a = Some e \<Longrightarrow>
        leaf env ?m ?R b = Some e' \<Longrightarrow> entry_addr e = entry_addr e' \<Longrightarrow> page_of a = page_of b"
    unfolding space_ok_def by blast+
  have F': "set (space_frames (sp\<lparr>as_owned := as_owned sp @ nf @ fs\<rparr>)) = ?F \<union> set nf \<union> set fs"
    by (auto simp: space_frames_def)
  have old: "leaf env m' ?R a = leaf env ?m ?R a" if "is_user_address a" "page_of a \<noteq> page" for a
    using eff that by (simp add: tables_effect_def)
  have opn: "upper_open env m' ?R a" if "is_user_address a" "leaf env ?m ?R a = Some e" for a e
    using eff that lf [OF that] by (simp add: tables_effect_def)
  have frame: "map_option entry_addr (leaf env m' ?R a) = map_option entry_addr (leaf env ?m ?R a) \<or>
      (\<exists>e. page_of a = page \<and> nf = [entry_addr e] \<and> leaf env m' ?R a = Some e \<and> upper_open env m' ?R a)"
    if "is_user_address a" for a
    using old [OF that] pg [OF that] by (cases "page_of a = page") auto
  have cases: "(\<exists>e0. leaf env ?m ?R a = Some e0 \<and> entry_addr e0 = entry_addr e \<and> entry_addr e \<in> ?F - T) \<or>
      nf = [entry_addr e] \<and> page_of a = page"
    if u: "is_user_address a" "leaf env m' ?R a = Some e" for a e
    using frame [OF u(1)] u(2) lf [OF u(1)] by (cases "leaf env ?m ?R a") auto
  have nF: "set nf \<inter> (?F \<union> T \<union> set fs) = {}" "set fs \<inter> ?F = {}" using d S(2,4) by auto
  have leaves: "entry_addr e \<in> (?F \<union> set nf \<union> set fs) - (T \<union> set fs) \<and> upper_open env m' ?R a"
    if u: "is_user_address a" "leaf env m' ?R a = Some e" for a e
  proof
    show "entry_addr e \<in> (?F \<union> set nf \<union> set fs) - (T \<union> set fs)" using cases [OF u] nF by auto
    show "upper_open env m' ?R a"
      using frame [OF u(1)] opn [OF u(1)] u(2) by (cases "leaf env ?m ?R a") auto
  qed
  have single: "page_of a = page_of b"
    if u: "is_user_address a" "is_user_address b" "leaf env m' ?R a = Some e" "leaf env m' ?R b = Some e'"
      "entry_addr e = entry_addr e'" for a b e e'
  proof -
    have "page_of a = page_of b" if "leaf env ?m ?R a = Some x" "leaf env ?m ?R b = Some y"
      "entry_addr x = entry_addr e" "entry_addr y = entry_addr e'" for x y
      using inj [OF u(1,2) that(1,2)] that(3,4) u(5) by simp
    then show ?thesis using cases [OF u(1,3)] cases [OF u(2,4)] u(5) nF by auto
  qed
  show "space_ok env pt_inv (T \<union> set fs) (v\<lparr>vm_phys := m', vm_frames := w\<rparr>, sp\<lparr>as_owned := as_owned sp @ nf @ fs\<rparr>)"
    unfolding space_ok_def split_conv
  proof (intro conjI allI impI)
    show "distinct (space_frames (sp\<lparr>as_owned := as_owned sp @ nf @ fs\<rparr>))"
      using d S(1,2) by (auto simp: space_frames_def)
    show "set (space_frames (sp\<lparr>as_owned := as_owned sp @ nf @ fs\<rparr>)) \<subseteq> set (fw_held (vm_frames (v\<lparr>vm_phys := m', vm_frames := w\<rparr>)))"
      using S(2) by (auto simp: F' w(2))
    show "T \<union> set fs \<subseteq> set (space_frames (sp\<lparr>as_owned := as_owned sp @ nf @ fs\<rparr>))" using S(4) by (auto simp: F')
    fix a e assume u: "is_user_address a"
      "leaf env (vm_phys (v\<lparr>vm_phys := m', vm_frames := w\<rparr>)) (as_root (sp\<lparr>as_owned := as_owned sp @ nf @ fs\<rparr>)) a = Some e"
    have l: "leaf env m' ?R a = Some e" using u(2) by simp
    show "entry_addr e \<in> set (space_frames (sp\<lparr>as_owned := as_owned sp @ nf @ fs\<rparr>)) - (T \<union> set fs)"
      unfolding F' using leaves [OF u(1) l] by blast
    show "upper_open env (vm_phys (v\<lparr>vm_phys := m', vm_frames := w\<rparr>)) (as_root (sp\<lparr>as_owned := as_owned sp @ nf @ fs\<rparr>)) a"
      using leaves [OF u(1) l] by simp
    fix b e' assume u': "is_user_address b" "entry_addr e = entry_addr e'"
      "leaf env (vm_phys (v\<lparr>vm_phys := m', vm_frames := w\<rparr>)) (as_root (sp\<lparr>as_owned := as_owned sp @ nf @ fs\<rparr>)) b = Some e'"
    have "leaf env m' ?R b = Some e'" using u'(3) by simp
    then show "page_of a = page_of b" by (rule single [OF u(1) u'(1) l _ u'(2)])
  qed (use w(1) inv S(3) in simp_all)
  show "outside_same (v, sp) (v\<lparr>vm_phys := m', vm_frames := w\<rparr>, sp\<lparr>as_owned := as_owned sp @ nf @ fs\<rparr>)"
    using eff d S(4) by (auto simp: outside_same_def tables_effect_def)
qed

lemma space_ok_frames:
  assumes "space_ok env pt_inv T (v, sp)" "frames_ok env w" "set (fw_held (vm_frames v)) \<subseteq> set (fw_held w)"
  shows "space_ok env pt_inv T (v\<lparr>vm_frames := w\<rparr>, sp)"
proof -
  have p: "vm_phys (v\<lparr>vm_frames := w\<rparr>) = vm_phys v" "vm_frames (v\<lparr>vm_frames := w\<rparr>) = w" by simp_all
  show ?thesis using assms unfolding space_ok_def split_conv p by blast
qed

lemma map_page_ok:
  assumes ok: "space_ok env pt_inv T (v, sp)" and page: "page_of page = page"
    and fl: "flags_ok flags" "contains_flags flags LOAD_FLAGS"
    and step: "map_page env page flags (v, sp) = (r, s')"
  shows "\<exists>T' fs lost. space_ok env pt_inv T' s' \<and> outside_same (v, sp) s' \<and>
    fw_held (vm_frames (fst s')) = fw_held (vm_frames v) @ lost @ fs \<and> as_owned (snd s') = as_owned sp @ fs \<and>
    (case r of
       Ok _ \<Rightarrow> lost = [] \<and> is_user_address page \<and> pages env (v, sp) page = None \<and>
         (\<exists>c. pages env s' = (pages env (v, sp))(page \<mapsto> (flags, c)))
     | Err e \<Rightarrow> length lost \<le> 1 \<and> pages env s' = pages env (v, sp)
     | Panic \<Rightarrow> False)"
proof (cases "is_user_address page")
  case False
  then show ?thesis using step ok by (auto simp: map_page_def intro!: exI [of _ T])
next
  case user: True
  have us: "contains_flags flags PTE_USER" using fl(2) by (simp add: contains_load_flags)
  have fo: "frames_ok env (vm_frames v)" using ok by (simp add: space_ok_def)
  obtain r0 w where t0: "take_frame env (vm_frames v) = (r0, w)" by force
  obtain x where x: "r0 = Ok x" and t1: "frames_ok env w"
    "fw_held w = fw_held (vm_frames v) @ (case x of None \<Rightarrow> [] | Some f \<Rightarrow> [f])"
    by (rule take_frame_ok [OF fo t0])
  note t = t0 [unfolded x] t1
  show ?thesis
  proof (cases x)
    case None
    then have "r = Err MapOutOfMemory" "s' = (v\<lparr>vm_frames := w\<rparr>, sp)" "fw_held w = fw_held (vm_frames v)"
      using step user us t by (auto simp: map_page_def)
    moreover have "pages env (v\<lparr>vm_frames := w\<rparr>, sp) = pages env (v, sp)" by (simp add: pages_def)
    moreover have "space_ok env pt_inv T (v\<lparr>vm_frames := w\<rparr>, sp)"
      by (rule space_ok_frames [OF ok t(2)]) (simp add: t(3) None)
    ultimately show ?thesis
      by (intro exI [of _ T] exI [of _ "[]"]) (simp add: outside_same_def)
  next
    case (Some frame)
    note t = t [unfolded Some, simplified]
    let ?tr = "\<lparr>tr_frames = w, tr_allocated = []\<rparr>"
    obtain b m tr where mt: "pg_map_to env (tracking_allocate env) (as_root sp) page frame flags (vm_phys v) ?tr = (b, m, tr)"
      by (metis surj_pair)
    have hd: "distinct (fw_held w)" "frame_ok frame"
      using frames_okD(1,2) [OF t(2)] t(3) by auto
    have inv: "pt_inv (vm_phys v) (as_root sp) T" "T \<subseteq> set (fw_held (vm_frames v))"
      using ok by (auto simp: space_ok_def)
    have fT: "frame \<notin> T" using hd(1) t(3) inv(2) by auto
    from map_to_law [OF inv(1) user page hd(2) fT fl mt] obtain fs where
      fs: "allocs (tracking_allocate env) ?tr fs tr" and
      law: "distinct fs \<and> set fs \<inter> insert frame T = {} \<and> (\<forall>f\<in>set fs. frame_ok f) \<longrightarrow>
          pt_inv m (as_root sp) (T \<union> set fs) \<and> tables_effect env (as_root sp) page (vm_phys v) m (T \<union> set fs) \<and>
          (case b of Inl _ \<Rightarrow> leaf env m (as_root sp) page = leaf env (vm_phys v) (as_root sp) page
           | Inr _ \<Rightarrow> leaf env (vm_phys v) (as_root sp) page = None \<and>
               leaf env m (as_root sp) page = Some (frame OR flags) \<and> upper_open env m (as_root sp) page)" by blast
    from allocs_tracking [OF fs] t(2) have tr: "frames_ok env (tr_frames tr)"
      "fw_held (tr_frames tr) = fw_held (vm_frames v) @ frame # fs" "tr_allocated tr = fs"
      using t(3) by simp_all
    have d: "distinct (fw_held (vm_frames v) @ frame # fs)" using frames_okD(1) [OF tr(1)] tr(2) by simp
    have fsok: "\<forall>f\<in>set fs. frame_ok f" using frames_okD(2) [OF tr(1)] tr(2) by auto
    from law d inv(2) fsok have L: "pt_inv m (as_root sp) (T \<union> set fs)"
      "tables_effect env (as_root sp) page (vm_phys v) m (T \<union> set fs)"
      "case b of Inl _ \<Rightarrow> leaf env m (as_root sp) page = leaf env (vm_phys v) (as_root sp) page
           | Inr _ \<Rightarrow> leaf env (vm_phys v) (as_root sp) page = None \<and>
               leaf env m (as_root sp) page = Some (frame OR flags) \<and> upper_open env m (as_root sp) page"
      by auto
    have np: "\<not> fw_panicked (tr_frames tr)" using frames_okD(3) [OF tr(1)] .
    have fresh: "set fs \<inter> set (fw_held (vm_frames v)) = {}" using d by auto
    note others = tables_step [OF ok L(2) fresh]
    note stp = step [unfolded map_page_def split_conv Let_def] user us t(1) mt np tr
    have pa: "leaf env n (as_root sp) a = leaf env n (as_root sp) page" if "is_user_address a" "page_of a = page" for n a
      using leaf_page_eq [OF that(1) user] that(2) page by simp
    show ?thesis
    proof (cases b)
      case (Inl msg)
      then have s': "r = Err (PagingError msg)" "s' = (v\<lparr>vm_phys := m, vm_frames := tr_frames tr\<rparr>, sp\<lparr>as_owned := as_owned sp @ [] @ fs\<rparr>)"
        using stp by auto
      have l: "leaf env m (as_root sp) page = leaf env (vm_phys v) (as_root sp) page" using L(3) Inl by simp
      have "page_view env m (as_root sp) q = page_view env (vm_phys v) (as_root sp) q" for q
        using l by (intro others) auto
      then have "pages env s' = pages env (v, sp)" by (auto simp: pages_def s')
      then show ?thesis
        using space_step [OF ok L(2,1) tr(1), of "[frame]" "[]"] tr(2) pa l
        by (intro exI [of _ "T \<union> set fs"] exI [of _ fs] exI [of _ "[frame]"]) (simp add: s')
    next
      case (Inr u)
      then have s': "r = Ok ()" "s' = (v\<lparr>vm_phys := m, vm_frames := tr_frames tr\<rparr>, sp\<lparr>as_owned := as_owned sp @ [frame] @ fs\<rparr>)"
        using stp by auto
      have l: "leaf env (vm_phys v) (as_root sp) page = None" "leaf env m (as_root sp) page = Some (frame OR flags)"
        "upper_open env m (as_root sp) page" using L(3) Inr by auto
      note ep = entry_parts [OF hd(2) fl(1)]
      have pv: "page_view env m (as_root sp) = (page_view env (vm_phys v) (as_root sp))(page \<mapsto> (flags, m frame))"
        using others user page l(2) ep by (auto simp: fun_eq_iff page_view_def)
      have uo: "upper_open env m (as_root sp) a" if "is_user_address a" "page_of a = page" for a
        using l(3) that page indices_page [OF that(1) user] by (simp add: upper_open_def)
      have "page_view env (vm_phys v) (as_root sp) page = None" using l(1) by (simp add: page_view_def)
      then show ?thesis
        using space_step [OF ok L(2,1) tr(1), of "[]" "[frame]"] tr(2) pa l ep uo user pv
        by (intro exI [of _ "T \<union> set fs"] exI [of _ "frame # fs"] exI [of _ "[]"]) (auto simp: s' pages_def)
    qed
  qed
qed

lemma protect_page_ok:
  assumes ok: "space_ok env pt_inv T (v, sp)" and page: "page_of page = page"
    and fl: "flags_ok flags" "contains_flags flags PTE_PRESENT"
    and step: "protect_page env page flags (v, sp) = (r, s')"
  shows "space_ok env pt_inv T s' \<and> outside_same (v, sp) s' \<and> vm_frames (fst s') = vm_frames v \<and> snd s' = sp \<and>
    (case r of
       Ok _ \<Rightarrow> (\<exists>fl c. pages env (v, sp) page = Some (fl, c) \<and> pages env s' = (pages env (v, sp))(page \<mapsto> (flags, c)))
     | Err e \<Rightarrow> pages env (v, sp) page = None \<and> pages env s' = pages env (v, sp)
     | Panic \<Rightarrow> False)"
proof (cases "is_user_address page")
  case False
  then show ?thesis using step ok by (auto simp: protect_page_def pages_def page_view_def)
next
  case user: True
  obtain b m where up: "pg_update_flags env (as_root sp) page flags (vm_phys v) = (b, m)" by force
  have inv: "pt_inv (vm_phys v) (as_root sp) T" using ok by (simp add: space_ok_def)
  have s': "s' = (v\<lparr>vm_phys := m\<rparr>, sp)" "r = (case b of Inr _ \<Rightarrow> Ok () | Inl msg \<Rightarrow> Err (PagingError msg))"
    using step user up by (auto simp: protect_page_def split: sum.splits)
  note L = update_law [OF inv user page fl up]
  have eff: "tables_effect env (as_root sp) page (vm_phys v) m (T \<union> set [])" using L by simp
  have same: "map_option entry_addr (leaf env m (as_root sp) page) = map_option entry_addr (leaf env (vm_phys v) (as_root sp) page)"
    using L fl by (auto simp: entry_parts split: sum.splits)
  have ad: "leaf env n (as_root sp) a = leaf env n (as_root sp) page" if "is_user_address a" "page_of a = page" for n a
    using leaf_page_eq [OF that(1) user] that(2) page by simp
  have vw: "v\<lparr>vm_phys := m, vm_frames := vm_frames v\<rparr> = v\<lparr>vm_phys := m\<rparr>" "sp\<lparr>as_owned := as_owned sp @ [] @ []\<rparr> = sp" by simp_all
  have fo: "frames_ok env (vm_frames v)" using ok by (simp add: space_ok_def)
  have "space_ok env pt_inv (T \<union> set []) (v\<lparr>vm_phys := m, vm_frames := vm_frames v\<rparr>, sp\<lparr>as_owned := as_owned sp @ [] @ []\<rparr>)"
    "outside_same (v, sp) (v\<lparr>vm_phys := m, vm_frames := vm_frames v\<rparr>, sp\<lparr>as_owned := as_owned sp @ [] @ []\<rparr>)"
    by (rule space_step [OF ok eff _ fo, where lost = "[]" and nf = "[]"]; use L ad same in simp)+
  then have st: "space_ok env pt_inv T s'" "outside_same (v, sp) s'" unfolding vw s' by simp_all
  have others: "page_view env m (as_root sp) q = page_view env (vm_phys v) (as_root sp) q"
    if "q \<noteq> page \<or> leaf env m (as_root sp) q = leaf env (vm_phys v) (as_root sp) q" for q
    by (rule tables_step [OF ok eff _ that]) simp
  show ?thesis
  proof (cases b)
    case (Inl msg)
    with L st show ?thesis by (auto simp: s' pages_def page_view_def)
  next
    case (Inr u)
    with L obtain e where e: "leaf env (vm_phys v) (as_root sp) page = Some e"
      "leaf env m (as_root sp) page = Some (entry_addr e OR flags)" by auto
    have "entry_addr e \<in> set (space_frames sp) - T" using ok e(1) user by (auto simp: space_ok_def)
    then have c: "m (entry_addr e) = vm_phys v (entry_addr e)" using eff by (simp add: tables_effect_def)
    have "page_view env m (as_root sp) = (page_view env (vm_phys v) (as_root sp))(page \<mapsto> (flags, vm_phys v (entry_addr e)))"
    proof
      fix q
      show "page_view env m (as_root sp) q = ((page_view env (vm_phys v) (as_root sp))(page \<mapsto> (flags, vm_phys v (entry_addr e)))) q"
        using others [of q] user page e(2) c fl by (cases "q = page") (simp_all add: page_view_def entry_parts)
    qed
    then show ?thesis using st Inr e(1) user page by (simp add: s' pages_def page_view_def)
  qed
qed

lemma store_ok:
  fixes m sp v e data at a
  defines "m' \<equiv> store_bytes (entry_addr e) at data m"
  assumes ok: "space_ok env pt_inv T (v\<lparr>vm_phys := m\<rparr>, sp)"
    and a: "is_user_address a" "leaf env m (as_root sp) a = Some e"
  shows "space_ok env pt_inv T (v\<lparr>vm_phys := m'\<rparr>, sp)"
    "outside_same (v\<lparr>vm_phys := m\<rparr>, sp) (v\<lparr>vm_phys := m'\<rparr>, sp)"
    "is_user_address b \<Longrightarrow> leaf env m' (as_root sp) b = leaf env m (as_root sp) b"
    "is_user_address b \<Longrightarrow> cell env m' (as_root sp) b =
       (if page_of b = page_of a \<and> at \<le> unat b mod 4096 \<and> unat b mod 4096 < at + length data
        then Some (entry_flags e, data ! (unat b mod 4096 - at)) else cell env m (as_root sp) b)"
proof -
  let ?R = "as_root sp"
  have vm: "v\<lparr>vm_phys := m\<rparr>\<lparr>vm_phys := m', vm_frames := vm_frames v\<rparr> = v\<lparr>vm_phys := m'\<rparr>"
    "sp\<lparr>as_owned := as_owned sp @ [] @ []\<rparr> = sp" "vm_phys (v\<lparr>vm_phys := m\<rparr>) = m" "vm_frames (v\<lparr>vm_phys := m\<rparr>) = vm_frames v"
    by simp_all
  have inv: "pt_inv m ?R T" "?R \<in> T" and e: "entry_addr e \<in> set (space_frames sp) - T" and fo: "frames_ok env (vm_frames v)"
    using ok a by (auto simp: space_ok_def)
  have T: "m' f = m f" if "f \<in> T" for f using e that by (auto simp: m'_def store_bytes_def)
  note cong = leaf_frame_cong [OF inv(1) T]
  show leaf: "leaf env m' ?R b = leaf env m ?R b" if "is_user_address b" for b by (rule cong(1) [OF _ that])
  have inv': "pt_inv m' ?R T" by (rule inv_frame [OF inv(1) T])
  have "m' ?R = m ?R" using inv(2) T by blast
  have opn: "upper_open env m' ?R b" if "is_user_address b" "leaf env m ?R b \<noteq> None" "upper_open env m ?R b" for b
    using cong(2) that by blast
  have p: "vm_phys (v\<lparr>vm_phys := x\<rparr>) = x" "vm_frames (v\<lparr>vm_phys := x\<rparr>) = vm_frames v" for x by simp_all
  show "space_ok env pt_inv T (v\<lparr>vm_phys := m'\<rparr>, sp)"
    using ok inv' leaf opn unfolding space_ok_def split_conv p by (metis option.distinct(1))
  show "outside_same (v\<lparr>vm_phys := m\<rparr>, sp) (v\<lparr>vm_phys := m'\<rparr>, sp)"
    using e \<open>m' ?R = m ?R\<close> by (auto simp: outside_same_def m'_def store_bytes_def pt_entry_def)
  have single: "page_of b = page_of a" if "is_user_address b" "leaf env m ?R b = Some e'" "entry_addr e' = entry_addr e" for b e'
    using ok that a unfolding space_ok_def split_conv p by blast
  show "cell env m' ?R b =
       (if page_of b = page_of a \<and> at \<le> unat b mod 4096 \<and> unat b mod 4096 < at + length data
        then Some (entry_flags e, data ! (unat b mod 4096 - at)) else cell env m ?R b)" if b: "is_user_address b"
  proof (cases "page_of b = page_of a")
    case True
    then have "leaf env m ?R b = Some e" using leaf_page_eq [OF b a(1) True] a(2) by simp
    then show ?thesis using True b leaf [OF b] by (simp add: cell_def m'_def store_bytes_def)
  next
    case False
    have "m' (entry_addr e') = m (entry_addr e')" if "leaf env m ?R b = Some e'" for e'
      using single [OF b that] False by (auto simp: m'_def store_bytes_def)
    then show ?thesis using False b leaf [OF b] by (cases "leaf env m ?R b") (simp_all add: cell_def)
  qed
qed

lemma same_page_range:
  fixes a t :: u64
  assumes "unat t mod 4096 + chunk \<le> 4096"
  shows "page_of a = page_of t \<and> unat t mod 4096 \<le> unat a mod 4096 \<and> unat a mod 4096 < unat t mod 4096 + chunk \<longleftrightarrow>
    unat t \<le> unat a \<and> unat a < unat t + chunk"
proof -
  let ?d = "\<lambda>x :: u64. unat x div 4096" and ?r = "\<lambda>x :: u64. unat x mod 4096"
  have u: "unat x = ?d x * 4096 + ?r x" "?r x < 4096" for x :: u64 by simp_all
  have pg: "page_of a = page_of t \<longleftrightarrow> ?d a = ?d t" by (simp add: word_unat_eq_iff unat_page_of)
  have eq: "?d a = ?d t" if "unat t \<le> unat a" "unat a < unat t + chunk"
  proof -
    have "?d t * 4096 \<le> unat a" using u(1) [of t] that by linarith
    moreover have "(?d t + 1) * 4096 = ?d t * 4096 + 4096" by simp
    then have "unat a < (?d t + 1) * 4096" using u(1) [of t] that assms by linarith
    ultimately have "?d t * 4096 \<le> unat a" "unat a < (?d t + 1) * 4096" .
    then show ?thesis by (metis Suc_eq_plus1 div_nat_eqI mult.commute)
  qed
  have "unat t \<le> unat a \<and> unat a < unat t + chunk" if "?d a = ?d t" "?r t \<le> ?r a" "?r a < ?r t + chunk"
    using u(1) [of a] u(1) [of t] that by linarith
  moreover have "?r t \<le> ?r a \<and> ?r a < ?r t + chunk" if "?d a = ?d t" "unat t \<le> unat a" "unat a < unat t + chunk"
    using u(1) [of a] u(1) [of t] that by linarith
  ultimately show ?thesis using pg eq by blast
qed

lemma write_loop_ok:
  assumes "space_ok env pt_inv T (v\<lparr>vm_phys := m\<rparr>, sp)" "unat addr + length data \<le> unat USER_SPACE_END"
    "written \<le> length data" "write_loop env (as_root sp) addr data written m = (r, m')"
  shows "space_ok env pt_inv T (v\<lparr>vm_phys := m'\<rparr>, sp) \<and> outside_same (v\<lparr>vm_phys := m\<rparr>, sp) (v\<lparr>vm_phys := m'\<rparr>, sp) \<and>
    (\<forall>a. is_user_address a \<longrightarrow> leaf env m' (as_root sp) a = leaf env m (as_root sp) a) \<and>
    (\<forall>a. is_user_address a \<and> \<not> (unat addr + written \<le> unat a \<and> unat a < unat addr + length data) \<longrightarrow>
       cell env m' (as_root sp) a = cell env m (as_root sp) a) \<and>
    (case r of
       Ok _ \<Rightarrow> \<forall>a. unat addr + written \<le> unat a \<and> unat a < unat addr + length data \<longrightarrow>
         (\<exists>fl b. cell env m (as_root sp) a = Some (fl, b) \<and>
            cell env m' (as_root sp) a = Some (fl, data ! (unat a - unat addr)))
     | Err e \<Rightarrow> (\<exists>a. unat addr \<le> unat a \<and> unat a < unat addr + length data \<and> e = NotMapped a \<and> leaf env m (as_root sp) a = None)
     | Panic \<Rightarrow> False)"
  using assms
proof (induction "length data - written" arbitrary: written m r m' rule: less_induct)
  case less
  note loop = less.prems(4) [unfolded write_loop.simps [of env "as_root sp" addr data written m]]
  show ?case
  proof (cases "written < length data")
    case False
    then have "r = Ok ()" "m' = m" using loop by simp_all
    then show ?thesis using less.prems(1) False by auto
  next
    case True
    define target where "target = addr + of_nat written"
    define off where "off = unat target mod 4096"
    define chunk where "chunk = min (4096 - off) (length data - written)"
    have lim: "unat addr + length data < 2 ^ 64" using less.prems(2) unat_bound [of USER_SPACE_END] by simp
    have ut: "unat target = unat addr + written"
      using True lim by (simp add: target_def unat_word_ariths unat_of_nat take_bit_eq_mod)
    have tu: "is_user_address target"
      using True less.prems(2) by (simp add: is_user_address_def word_less_nat_alt ut)
    have ch: "0 < chunk" "off + chunk \<le> 4096" "written + chunk \<le> length data"
      using True by (auto simp: chunk_def off_def)
    have po: "unat (target AND 0xFFF) = off" by (simp add: page_offset_mod off_def)
    have nov: "\<not> unat addr + written \<ge> usize_lim" using True lim by (simp add: usize_lim_def)
    show ?thesis
    proof (cases "leaf env m (as_root sp) target")
      case None
      then have "r = Err (NotMapped target)" "m' = m"
        using loop True nov translate_leaf [OF tu] by (simp_all add: target_def [symmetric] Let_def po)
      then show ?thesis using less.prems(1) None ut True by auto
    next
      case (Some e)
      let ?data = "take chunk (drop written data)"
      define m1 where "m1 = store_bytes (entry_addr e) off ?data m"
      have len: "length ?data = chunk" using ch by simp
      have rec: "write_loop env (as_root sp) addr data (written + chunk) m1 = (r, m')"
        using loop True nov translate_leaf [OF tu] Some
        by (simp add: target_def [symmetric] Let_def po chunk_def [symmetric] m1_def)
      note st = store_ok [OF less.prems(1) tu Some, where at = off and data = ?data, folded m1_def]
      have dec: "length data - (written + chunk) < length data - written" using True ch(1) by linarith
      note IH = less.hyps [OF dec st(1) less.prems(2) ch(3) rec]
      have here: "cell env m1 (as_root sp) b =
          (if unat addr + written \<le> unat b \<and> unat b < unat addr + written + chunk
           then Some (entry_flags e, data ! (unat b - unat addr)) else cell env m (as_root sp) b)"
        if "is_user_address b" for b
      proof -
        have "unat b mod 4096 - off = unat b - unat addr - written"
          if "page_of b = page_of target" "off \<le> unat b mod 4096"
        proof -
          have "unat b div 4096 = unat target div 4096"
            using that(1) by (simp add: word_unat_eq_iff unat_page_of)
          then have "unat b = unat target div 4096 * 4096 + unat b mod 4096" "unat target = unat target div 4096 * 4096 + off"
            using div_mult_mod_eq [of "unat b" 4096] div_mult_mod_eq [of "unat target" 4096] by (simp_all add: off_def)
          then show ?thesis using that(2) ut by linarith
        qed
        note eqs = this
        have rng: "page_of b = page_of target \<and> off \<le> unat b mod 4096 \<and> unat b mod 4096 < off + chunk \<longleftrightarrow>
            unat addr + written \<le> unat b \<and> unat b < unat addr + written + chunk"
          using same_page_range [of target chunk b, folded off_def, OF ch(2)] unfolding ut by blast
        have dat: "?data ! (unat b mod 4096 - off) = data ! (unat b - unat addr)"
          if "page_of b = page_of target" "off \<le> unat b mod 4096" "unat b mod 4096 < off + chunk"
        proof -
          have "written + (unat b - unat addr - written) = unat b - unat addr" using rng that by linarith
          moreover have "unat b mod 4096 - off < chunk" using that(2,3) by linarith
          ultimately show ?thesis using eqs [OF that(1,2)] ch(3) by simp
        qed
        show ?thesis unfolding st(4) [OF \<open>is_user_address b\<close>] len rng [symmetric] by (rule if_cong) (use dat in blast)+
      qed
      have user: "is_user_address b" if "unat b < unat addr + length data" for b
        using that less.prems(2) by (simp add: is_user_address_def word_less_nat_alt)
      have inside: "\<exists>fl b. cell env m (as_root sp) a = Some (fl, b) \<and> cell env m' (as_root sp) a = Some (fl, data ! (unat a - unat addr))"
        if rok: "r = Ok u" and lo: "unat addr + written \<le> unat a" and hi: "unat a < unat addr + length data" for u a
      proof (cases "unat a < unat addr + written + chunk")
        case True
        with here [OF user [OF hi]] lo
        have c: "cell env m1 (as_root sp) a = Some (entry_flags e, data ! (unat a - unat addr))" by simp
        then obtain b where "cell env m (as_root sp) a = Some (entry_flags e, b)"
          using st(3) [OF user [OF hi]] by (auto simp: cell_def split: if_splits)
        moreover have "cell env m' (as_root sp) a = cell env m1 (as_root sp) a"
          using IH user [OF hi] True by simp
        ultimately show ?thesis using c by simp
      next
        case False
        with here [OF user [OF hi]] have "cell env m1 (as_root sp) a = cell env m (as_root sp) a" by simp
        moreover have "unat addr + (written + chunk) \<le> unat a" using False by linarith
        then have "\<exists>fl b. cell env m1 (as_root sp) a = Some (fl, b) \<and> cell env m' (as_root sp) a = Some (fl, data ! (unat a - unat addr))"
          using IH hi unfolding rok outcome.case by blast
        ultimately show ?thesis by simp
      qed
      have outside: "cell env m' (as_root sp) a = cell env m (as_root sp) a"
        if "is_user_address a" "\<not> (unat addr + written \<le> unat a \<and> unat a < unat addr + length data)" for a
      proof -
        have "\<not> (unat addr + written \<le> unat a \<and> unat a < unat addr + written + chunk)" using that(2) ch(3) by linarith
        then have "cell env m1 (as_root sp) a = cell env m (as_root sp) a" unfolding here [OF that(1)] by (rule if_not_P)
        moreover have "cell env m' (as_root sp) a = cell env m1 (as_root sp) a" using IH that by auto
        ultimately show ?thesis by simp
      qed
      have tr: "outside_same (v\<lparr>vm_phys := m\<rparr>, sp) (v\<lparr>vm_phys := m'\<rparr>, sp)"
        using st(2) IH by (auto simp: outside_same_def)
      have lv: "leaf env m' (as_root sp) a = leaf env m (as_root sp) a" if "is_user_address a" for a
        using IH st(3) that by simp
      have er: "\<exists>a. unat addr \<le> unat a \<and> unat a < unat addr + length data \<and> x = NotMapped a \<and> leaf env m (as_root sp) a = None"
        if "r = Err x" for x
        using IH that st(3) user by fastforce
      have np: "r \<noteq> Panic" using IH by (cases r) simp_all
      show ?thesis using IH tr lv outside inside er np by (simp split: outcome.split)
    qed
  qed
qed

lemma user_page_iff: "is_user_address (page_of a) \<longleftrightarrow> is_user_address a"
proof
  assume "is_user_address (page_of a)"
  then have "unat a div 4096 * 4096 < unat USER_SPACE_END" by (simp add: is_user_address_def word_less_nat_alt unat_page_of)
  then have "unat a div 4096 < unat USER_SPACE_END div 4096" by (simp add: USER_SPACE_END_def)
  then have "unat a < unat USER_SPACE_END" by (metis div_le_mono not_le)
  then show "is_user_address a" by (simp add: is_user_address_def word_less_nat_alt)
qed (use user_page_of in blast)

lemma cells_pages:
  "cells env s a = (case pages env s (page_of a) of None \<Rightarrow> None | Some (fl, c) \<Rightarrow> Some (fl, c (unat a mod 4096)))"
proof (cases "is_user_address a")
  case True
  then show ?thesis
    using user_page_of [OF True] leaf_page_of [OF True]
    by (cases "leaf env (vm_phys (fst s)) (as_root (snd s)) a") (simp_all add: cells_def cell_def pages_def page_view_def)
next
  case False
  then show ?thesis using user_page_iff [of a] by (simp add: cells_def cell_def pages_def page_view_def)
qed

lemma map_page_cells:
  assumes "space_ok env pt_inv T (v, sp)" "page_of page = page" "flags_ok flags" "contains_flags flags LOAD_FLAGS"
    "map_page env page flags (v, sp) = (r, s')"
  obtains T' fs lost where "space_ok env pt_inv T' s'" "outside_same (v, sp) s'"
    "fw_held (vm_frames (fst s')) = fw_held (vm_frames v) @ lost @ fs" "as_owned (snd s') = as_owned sp @ fs"
    "case r of
       Ok _ \<Rightarrow> lost = [] \<and> is_user_address page \<and>
         (\<forall>a. if page_of a = page then cells env (v, sp) a = None \<and> (\<exists>b. cells env s' a = Some (flags, b))
              else cells env s' a = cells env (v, sp) a)
     | Err e \<Rightarrow> length lost \<le> 1 \<and> cells env s' = cells env (v, sp)
     | Panic \<Rightarrow> False"
proof -
  from map_page_ok [OF assms] obtain T' fs lost where m: "space_ok env pt_inv T' s'" "outside_same (v, sp) s'"
    "fw_held (vm_frames (fst s')) = fw_held (vm_frames v) @ lost @ fs" "as_owned (snd s') = as_owned sp @ fs"
    "case r of
       Ok _ \<Rightarrow> lost = [] \<and> is_user_address page \<and> pages env (v, sp) page = None \<and>
         (\<exists>c. pages env s' = (pages env (v, sp))(page \<mapsto> (flags, c)))
     | Err e \<Rightarrow> length lost \<le> 1 \<and> pages env s' = pages env (v, sp)
     | Panic \<Rightarrow> False" by blast
  have "case r of
       Ok _ \<Rightarrow> lost = [] \<and> is_user_address page \<and>
         (\<forall>a. if page_of a = page then cells env (v, sp) a = None \<and> (\<exists>b. cells env s' a = Some (flags, b))
              else cells env s' a = cells env (v, sp) a)
     | Err e \<Rightarrow> length lost \<le> 1 \<and> cells env s' = cells env (v, sp)
     | Panic \<Rightarrow> False"
    using m(5) by (cases r) (auto simp: cells_pages fun_eq_iff)
  with m(1-4) show thesis by (rule that)
qed

lemma protect_page_cells:
  assumes "space_ok env pt_inv T (v, sp)" "page_of page = page" "flags_ok flags" "contains_flags flags PTE_PRESENT"
    "protect_page env page flags (v, sp) = (r, s')"
  shows "space_ok env pt_inv T s'" "outside_same (v, sp) s'" "vm_frames (fst s') = vm_frames v" "snd s' = sp"
    "case r of
       Ok _ \<Rightarrow> cells env (v, sp) page \<noteq> None \<and>
         (\<forall>a. cells env s' a =
            (if page_of a = page then map_option (\<lambda>(fl, b). (flags, b)) (cells env (v, sp) a) else cells env (v, sp) a))
     | Err e \<Rightarrow> cells env (v, sp) page = None \<and> cells env s' = cells env (v, sp)
     | Panic \<Rightarrow> False"
proof -
  note p = protect_page_ok [OF assms]
  then show "space_ok env pt_inv T s'" "outside_same (v, sp) s'" "vm_frames (fst s') = vm_frames v" "snd s' = sp"
    by auto
  show "case r of
       Ok _ \<Rightarrow> cells env (v, sp) page \<noteq> None \<and>
         (\<forall>a. cells env s' a =
            (if page_of a = page then map_option (\<lambda>(fl, b). (flags, b)) (cells env (v, sp) a) else cells env (v, sp) a))
     | Err e \<Rightarrow> cells env (v, sp) page = None \<and> cells env s' = cells env (v, sp)
     | Panic \<Rightarrow> False"
    using p assms(2) by (cases r) (auto simp: cells_pages fun_eq_iff)
qed

lemma write_at_cells:
  assumes ok: "space_ok env pt_inv T (v, sp)" and b: "unat addr + length data \<le> unat USER_SPACE_END"
    and step: "write_at env addr data (v, sp) = (r, s')"
  shows "space_ok env pt_inv T s'" "outside_same (v, sp) s'" "vm_frames (fst s') = vm_frames v" "snd s' = sp"
    "map_option fst (cells env s' a) = map_option fst (cells env (v, sp) a)"
    "\<not> (unat addr \<le> unat a \<and> unat a < unat addr + length data) \<Longrightarrow> cells env s' a = cells env (v, sp) a"
    "case r of
       Ok _ \<Rightarrow> \<forall>a. unat addr \<le> unat a \<and> unat a < unat addr + length data \<longrightarrow>
         (\<exists>fl b. cells env (v, sp) a = Some (fl, b) \<and> cells env s' a = Some (fl, data ! (unat a - unat addr)))
     | Err e \<Rightarrow> (\<exists>a. unat addr \<le> unat a \<and> unat a < unat addr + length data \<and> cells env (v, sp) a = None)
     | Panic \<Rightarrow> False"
proof -
  obtain m' where w: "write_loop env (as_root sp) addr data 0 (vm_phys v) = (r, m')" and s': "s' = (v\<lparr>vm_phys := m'\<rparr>, sp)"
    using step by (auto simp: write_at_def split: prod.splits)
  have ok': "space_ok env pt_inv T (v\<lparr>vm_phys := vm_phys v\<rparr>, sp)" using ok by simp
  note L = write_loop_ok [OF ok' b le0 w, simplified]
  from L show "space_ok env pt_inv T s'" "outside_same (v, sp) s'" "vm_frames (fst s') = vm_frames v" "snd s' = sp"
    by (simp_all add: s')
  show "map_option fst (cells env s' a) = map_option fst (cells env (v, sp) a)"
    using L by (auto simp: s' cells_def cell_def option.map_comp comp_def)
  show "cells env s' a = cells env (v, sp) a" if "\<not> (unat addr \<le> unat a \<and> unat a < unat addr + length data)"
    using L that by (cases "is_user_address a") (auto simp: s' cells_def cell_def)
  show "case r of
       Ok _ \<Rightarrow> \<forall>a. unat addr \<le> unat a \<and> unat a < unat addr + length data \<longrightarrow>
         (\<exists>fl b. cells env (v, sp) a = Some (fl, b) \<and> cells env s' a = Some (fl, data ! (unat a - unat addr)))
     | Err e \<Rightarrow> (\<exists>a. unat addr \<le> unat a \<and> unat a < unat addr + length data \<and> cells env (v, sp) a = None)
     | Panic \<Rightarrow> False"
    using L by (cases r) (auto simp: s' cells_def cell_def)
qed

text \<open>A new space maps nothing for the user and shares the kernel's half.\<close>

lemma address_space_new_ok:
  assumes fo: "frames_ok env (vm_frames v)" and step: "address_space_new env v = (r, v')"
  shows "case r of
      Ok None \<Rightarrow> frames_ok env (vm_frames v') \<and> fw_held (vm_frames v') = fw_held (vm_frames v) \<and> vm_phys v' = vm_phys v
    | Ok (Some sp) \<Rightarrow> space_ok env pt_inv {as_root sp} (v', sp) \<and> as_owned sp = [] \<and>
        fw_held (vm_frames v') = fw_held (vm_frames v) @ [as_root sp] \<and> (\<forall>a. cells env (v', sp) a = None) \<and>
        (\<forall>i\<in>set kernel_indices. pt_entry (vm_phys v') (as_root sp) i = pt_entry (vm_phys v) (vm_cr3 v) i) \<and>
        (\<forall>f. f \<noteq> as_root sp \<longrightarrow> vm_phys v' f = vm_phys v f)
    | Panic \<Rightarrow> \<forall>i\<in>set kernel_indices. \<not> contains_flags (pt_entry (vm_phys v) (vm_cr3 v) i) PTE_PRESENT
    | Err _ \<Rightarrow> False"
    and "vm_cr3 v' = vm_cr3 v \<and> vm_kernel_root v' = vm_kernel_root v"
proof -
  obtain r0 w where t0: "take_frame env (vm_frames v) = (r0, w)" by force
  obtain x where x: "r0 = Ok x" and t1: "frames_ok env w"
    "fw_held w = fw_held (vm_frames v) @ (case x of None \<Rightarrow> [] | Some f \<Rightarrow> [f])"
    by (rule take_frame_ok [OF fo t0])
  show "vm_cr3 v' = vm_cr3 v \<and> vm_kernel_root v' = vm_kernel_root v"
    using step by (auto simp: address_space_new_def Let_def split: prod.splits outcome.splits option.splits if_splits)
  show "case r of
      Ok None \<Rightarrow> frames_ok env (vm_frames v') \<and> fw_held (vm_frames v') = fw_held (vm_frames v) \<and> vm_phys v' = vm_phys v
    | Ok (Some sp) \<Rightarrow> space_ok env pt_inv {as_root sp} (v', sp) \<and> as_owned sp = [] \<and>
        fw_held (vm_frames v') = fw_held (vm_frames v) @ [as_root sp] \<and> (\<forall>a. cells env (v', sp) a = None) \<and>
        (\<forall>i\<in>set kernel_indices. pt_entry (vm_phys v') (as_root sp) i = pt_entry (vm_phys v) (vm_cr3 v) i) \<and>
        (\<forall>f. f \<noteq> as_root sp \<longrightarrow> vm_phys v' f = vm_phys v f)
    | Panic \<Rightarrow> \<forall>i\<in>set kernel_indices. \<not> contains_flags (pt_entry (vm_phys v) (vm_cr3 v) i) PTE_PRESENT
    | Err _ \<Rightarrow> False"
  proof (cases x)
    case None
    then show ?thesis using step t0 x t1 by (auto simp: address_space_new_def)
  next
    case (Some root)
    define half where "half = kernel_half (vm_phys v) (vm_cr3 v)"
    define m where "m = set_entries root (zip kernel_indices half) (zero_frame root (vm_phys v))"
    define n where "n = length (filter (\<lambda>e. contains_flags e PTE_PRESENT) half)"
    have st: "address_space_new env v =
        (if n > 0 then Ok (Some \<lparr>as_root = root, as_owned = []\<rparr>) else Panic, v\<lparr>vm_frames := w, vm_phys := m\<rparr>)"
      using t0 x Some by (simp add: address_space_new_def Let_def half_def m_def n_def)
    show ?thesis
    proof (cases "n > 0")
      case False
      then have "r = Panic" using step st by simp
      then show ?thesis using False by (simp add: n_def half_def kernel_half_def filter_empty_conv)
    next
      case True
      let ?sp = "\<lparr>as_root = root, as_owned = []\<rparr>"
      have r: "r = Ok (Some ?sp)" "v' = v\<lparr>vm_frames := w, vm_phys := m\<rparr>" using step st True by simp_all
      have h: "fw_held w = fw_held (vm_frames v) @ [root]" using t1(2) Some by simp
      have rok: "frame_ok root" using frames_okD(2) [OF t1(1)] h by simp
      have dk: "distinct (map fst (zip kernel_indices half))" by (simp add: half_def kernel_half_def kernel_indices_def)
      have z: "pt_entry (zero_frame root (vm_phys v)) root i = 0" for i
        by (simp add: pt_entry_def zero_frame_def u64_from_le_def comp_def upt_rec map_replicate_const)
      have low: "pt_entry m root i = 0" if "i < KERNEL_PML4_FIRST_INDEX" for i
      proof -
        have "map_of (zip kernel_indices half) i = None"
          using that unfolding map_of_eq_None_iff
          by (auto simp: half_def kernel_half_def kernel_indices_def dest: set_zip_leftD)
        then show ?thesis by (simp add: m_def pt_entry_set_entries [OF dk] z)
      qed
      have high: "pt_entry m root i = pt_entry (vm_phys v) (vm_cr3 v) i" if "i \<in> set kernel_indices" for i
      proof -
        have "map_of (zip kernel_indices half) i = Some (pt_entry (vm_phys v) (vm_cr3 v) i)"
          using that unfolding half_def kernel_half_def by (simp add: map_of_zip_map)
        then show ?thesis by (simp add: m_def pt_entry_set_entries [OF dk])
      qed
      have inv: "pt_inv m root {root}" by (rule inv_init [OF rok low])
      have none: "leaf env m root a = None" if u: "is_user_address a" for a
      proof -
        obtain i j k l where "pg_indices env a = [i, j, k, l]" "i < KERNEL_PML4_FIRST_INDEX" using indices_user [OF u] by blast
        then show ?thesis using low by (simp add: leaf_def contains_flags_def PTE_PRESENT_def)
      qed
      have "space_ok env pt_inv {root} (v', ?sp)"
        using t1(1) h inv none by (simp add: r space_ok_def space_frames_def)
      moreover have "\<forall>f. f \<noteq> root \<longrightarrow> m f = vm_phys v f" by (simp add: m_def set_entries_other zero_frame_def)
      ultimately show ?thesis using r h high none by (auto simp: cells_def cell_def)
    qed
  qed
qed

text \<open>The end of a space gives back what it owns.\<close>

lemma address_space_drop_ok:
  assumes "space_ok env pt_inv T (v, sp)"
  shows "frames_ok env (vm_frames (address_space_drop sp v))"
    "mset (fw_held (vm_frames (address_space_drop sp v))) = mset (fw_held (vm_frames v)) - mset (space_frames sp)"
    "fp_free (fw_pool (vm_frames (address_space_drop sp v))) = fp_free (fw_pool (vm_frames v)) @ as_owned sp @ [as_root sp]"
proof -
  have ok: "frames_ok env (vm_frames v)" "distinct (as_owned sp @ [as_root sp])"
    "set (as_owned sp @ [as_root sp]) \<subseteq> set (fw_held (vm_frames v))"
    using assms by (auto simp: space_ok_def space_frames_def)
  have d: "vm_frames (address_space_drop sp v) = fold give_back (as_owned sp @ [as_root sp]) (vm_frames v)"
    by (simp add: address_space_drop_def)
  note g = give_back_all [OF ok]
  show "frames_ok env (vm_frames (address_space_drop sp v))" unfolding d by (rule g(1))
  show "mset (fw_held (vm_frames (address_space_drop sp v))) = mset (fw_held (vm_frames v)) - mset (space_frames sp)"
    unfolding d g(2) by (simp add: space_frames_def)
  show "fp_free (fw_pool (vm_frames (address_space_drop sp v))) = fp_free (fw_pool (vm_frames v)) @ as_owned sp @ [as_root sp]"
    unfolding d g(3) by simp
qed

end

end
