(* ===== verification/Steps.thy ===== *)
theory Steps
  imports Prelude
begin

text \<open>
  Operations that change a state and may fail, as the loaders use them: a step takes a state to an
  outcome and the state afterwards, which is there also when the step fails. The second half is a
  small logic of triples for them.
\<close>

type_synonym ('s, 'e, 'a) step = "'s \<Rightarrow> ('e, 'a) outcome \<times> 's"

definition ret :: "'a \<Rightarrow> ('s, 'e, 'a) step" where
  "ret a s = (Ok a, s)"

definition fail_with :: "'e \<Rightarrow> ('s, 'e, 'a) step" where
  "fail_with e s = (Err e, s)"

definition crash :: "('s, 'e, 'a) step" where
  "crash s = (Panic, s)"

definition pure_step :: "('e, 'a) outcome \<Rightarrow> ('s, 'e, 'a) step" where
  "pure_step x s = (x, s)"

definition bind_step :: "('s, 'e, 'a) step \<Rightarrow> ('a \<Rightarrow> ('s, 'e, 'b) step) \<Rightarrow> ('s, 'e, 'b) step" where
  "bind_step m f s = (case m s of (Ok a, s') \<Rightarrow> f a s' | (Err e, s') \<Rightarrow> (Err e, s') | (Panic, s') \<Rightarrow> (Panic, s'))"

text \<open>\<^verbatim>\<open>map_err\<close>.\<close>

definition map_err :: "('e \<Rightarrow> 'f) \<Rightarrow> ('s, 'e, 'a) step \<Rightarrow> ('s, 'f, 'a) step" where
  "map_err g m s = (case m s of (Ok a, s') \<Rightarrow> (Ok a, s') | (Err e, s') \<Rightarrow> (Err (g e), s') | (Panic, s') \<Rightarrow> (Panic, s'))"

text \<open>A \<^verbatim>\<open>for\<close> loop over the elements of a list.\<close>

primrec for_each :: "('x \<Rightarrow> ('s, 'e, unit) step) \<Rightarrow> 'x list \<Rightarrow> ('s, 'e, unit) step" where
  "for_each f [] = ret ()"
| "for_each f (x # xs) = bind_step (f x) (\<lambda>_. for_each f xs)"

lemma bind_pure [simp]:
  "bind_step (pure_step (Ok a)) f = f a" "bind_step (pure_step (Err e)) f = fail_with e"
  "bind_step (pure_step Panic) f = crash" "bind_step (fail_with e) f = fail_with e" "bind_step (ret a) f = f a"
  "map_err g (pure_step (Ok a)) = ret a" "map_err g (pure_step (Err d)) = fail_with (g d)"
  "map_err g (pure_step Panic) = crash" "bind_step crash f = crash"
  by (simp_all add: fun_eq_iff bind_step_def pure_step_def fail_with_def crash_def ret_def map_err_def)

section \<open>Triples\<close>

text \<open>
  From a state with \<open>P\<close>, a step that succeeds ends with \<open>Q\<close>, one that fails ends with \<open>E\<close>, and one
  that panics does so only where \<open>N\<close> allows it.
\<close>

definition holds ::
  "('s \<Rightarrow> bool) \<Rightarrow> ('s, 'e, 'a) step \<Rightarrow> ('a \<Rightarrow> 's \<Rightarrow> bool) \<Rightarrow> ('e \<Rightarrow> 's \<Rightarrow> bool) \<Rightarrow> bool \<Rightarrow> bool" where
  "holds P m Q E N \<longleftrightarrow> (\<forall>s. P s \<longrightarrow> (case m s of (Ok a, s') \<Rightarrow> Q a s' | (Err e, s') \<Rightarrow> E e s' | (Panic, s') \<Rightarrow> N))"

lemma holdsI:
  "(\<And>s r s'. P s \<Longrightarrow> m s = (r, s') \<Longrightarrow> (case r of Ok a \<Rightarrow> Q a s' | Err e \<Rightarrow> E e s' | Panic \<Rightarrow> N)) \<Longrightarrow> holds P m Q E N"
  by (auto simp: holds_def split: prod.split outcome.split)

lemma holdsD:
  "holds P m Q E N \<Longrightarrow> P s \<Longrightarrow> m s = (r, s') \<Longrightarrow> (case r of Ok a \<Rightarrow> Q a s' | Err e \<Rightarrow> E e s' | Panic \<Rightarrow> N)"
  unfolding holds_def by (drule spec [of _ s]) simp

lemma holds_bind:
  assumes "holds P m Q E N" "\<And>a. holds (Q a) (f a) R E N"
  shows "holds P (bind_step m f) R E N"
proof (rule holdsI)
  fix s r s' assume s: "P s" "bind_step m f s = (r, s')"
  obtain r0 s0 where m: "m s = (r0, s0)" by force
  show "case r of Ok b \<Rightarrow> R b s' | Err e \<Rightarrow> E e s' | Panic \<Rightarrow> N"
    using holdsD [OF assms(1) s(1) m] s(2) m holdsD [OF assms(2)]
    by (cases r0) (auto simp: bind_step_def)
qed

lemma holds_ret: "(\<And>s. P s \<Longrightarrow> Q a s) \<Longrightarrow> holds P (ret a) Q E N"
  by (simp add: holds_def ret_def)

lemma holds_fail: "(\<And>s. P s \<Longrightarrow> E e s) \<Longrightarrow> holds P (fail_with e) Q E N"
  by (simp add: holds_def fail_with_def)

lemma holds_crash: "N \<Longrightarrow> holds P crash Q E N"
  by (simp add: holds_def crash_def)

lemma holds_pure:
  "(\<And>s. P s \<Longrightarrow> (case x of Ok a \<Rightarrow> Q a s | Err e \<Rightarrow> E e s | Panic \<Rightarrow> N)) \<Longrightarrow> holds P (pure_step x) Q E N"
  by (auto simp: holds_def pure_step_def split: outcome.split)

lemma holds_map_err: "holds P m Q (\<lambda>e. E (g e)) N \<Longrightarrow> holds P (map_err g m) Q E N"
proof (rule holdsI)
  fix s r s' assume h: "holds P m Q (\<lambda>e. E (g e)) N" and s: "P s" "map_err g m s = (r, s')"
  obtain r0 s0 where m: "m s = (r0, s0)" by force
  show "case r of Ok b \<Rightarrow> Q b s' | Err e \<Rightarrow> E e s' | Panic \<Rightarrow> N"
    using holdsD [OF h s(1) m] s(2) m by (cases r0) (auto simp: map_err_def)
qed

lemma holds_if: "(c \<Longrightarrow> holds P m Q E N) \<Longrightarrow> (\<not> c \<Longrightarrow> holds P m' Q E N) \<Longrightarrow> holds P (if c then m else m') Q E N"
  by simp

lemma holds_conseq:
  "holds P m Q E N \<Longrightarrow> (\<And>s. P' s \<Longrightarrow> P s) \<Longrightarrow> (\<And>a s. Q a s \<Longrightarrow> Q' a s) \<Longrightarrow> (\<And>e s. E e s \<Longrightarrow> E' e s) \<Longrightarrow> (N \<Longrightarrow> N') \<Longrightarrow>
   holds P' m Q' E' N'"
proof (rule holdsI)
  fix s r s' assume h: "holds P m Q E N" and c: "\<And>s. P' s \<Longrightarrow> P s" "\<And>a s. Q a s \<Longrightarrow> Q' a s" "\<And>e s. E e s \<Longrightarrow> E' e s" "N \<Longrightarrow> N'"
    and s: "P' s" "m s = (r, s')"
  show "case r of Ok b \<Rightarrow> Q' b s' | Err e \<Rightarrow> E' e s' | Panic \<Rightarrow> N'"
    using holdsD [OF h c(1) [OF s(1)] s(2)] c by (cases r) auto
qed

lemma holds_pre: "holds P m Q E N \<Longrightarrow> (\<And>s. P' s \<Longrightarrow> P s) \<Longrightarrow> holds P' m Q E N"
  by (erule holds_conseq) assumption+

lemma holds_ex: "(\<And>x. holds (P x) m Q E N) \<Longrightarrow> holds (\<lambda>s. \<exists>x. P x s) m Q E N"
  by (rule holdsI) (elim exE, rule holdsD)

lemma holds_and: "(c \<Longrightarrow> holds P m Q E N) \<Longrightarrow> holds (\<lambda>s. c \<and> P s) m Q E N"
  by (rule holdsI) (elim conjE, rule holdsD)

text \<open>The loop keeps an invariant of the elements done so far.\<close>

lemma holds_for_each:
  assumes "\<And>ys x zs. xs = ys @ x # zs \<Longrightarrow> holds (I ys) (f x) (\<lambda>_. I (ys @ [x])) E N"
  shows "holds (I []) (for_each f xs) (\<lambda>_. I xs) E N"
proof -
  have "holds (I ys) (for_each f zs) (\<lambda>_. I xs) E N" if "xs = ys @ zs" for ys zs
    using that
  proof (induction zs arbitrary: ys)
    case (Cons z zs)
    have "holds (I ys) (f z) (\<lambda>_. I (ys @ [z])) E N" by (rule assms [OF Cons.prems])
    moreover have "holds (I (ys @ [z])) (for_each f zs) (\<lambda>_. I xs) E N" by (rule Cons.IH) (simp add: Cons.prems)
    ultimately show ?case unfolding for_each.simps by (rule holds_bind)
  qed (simp add: holds_ret)
  from this [of "[]" xs] show ?thesis by simp
qed

end
