(* ===== verification/Loader.thy ===== *)
theory Loader
  imports AddressSpaceProofs Steps Process
begin

text \<open>
  The ELF loader (\<^verbatim>\<open>kernel/src/loader.rs\<close>): the header check, the permissions of a segment, and
  \<^verbatim>\<open>load_image\<close>, which builds a private address space out of a file. An early return drops the space
  built so far, as the \<^verbatim>\<open>Drop\<close> of \<^verbatim>\<open>AddressSpace\<close> does. The progress messages are left out.
\<close>

unbundle bit_operations_syntax

section \<open>The file format\<close>

definition ELF_MAGIC :: bytes where "ELF_MAGIC = [0x7F, 0x45, 0x4C, 0x46]"
definition ELFCLASS64 :: u8 where "ELFCLASS64 = 2"
definition ELFDATA2LSB :: u8 where "ELFDATA2LSB = 1"
definition ET_EXEC :: u16 where "ET_EXEC = 2"
definition EM_X86_64 :: u16 where "EM_X86_64 = 0x3E"
definition PT_LOAD :: u32 where "PT_LOAD = 1"
definition PF_X :: u32 where "PF_X = 1"
definition PF_W :: u32 where "PF_W = 2"
definition PF_R :: u32 where "PF_R = 4"

lemmas elf_defs = ELF_MAGIC_def ELFCLASS64_def ELFDATA2LSB_def ET_EXEC_def EM_X86_64_def PT_LOAD_def PF_X_def PF_W_def PF_R_def

datatype load_error =
    NotAnElf string | BadSegment nat u64 string | Mapping map_error | LoadOutOfMemory

record elf_header =
  eh_entry :: u64
  eh_phoff :: nat
  eh_phentsize :: nat
  eh_phnum :: nat

definition read_u16 :: "bytes \<Rightarrow> nat \<Rightarrow> ('e, u16) outcome" where
  "read_u16 data at = obind (slice data at (at + 2)) (\<lambda>b. Ok (u16_from_le b))"

definition read_u32 :: "bytes \<Rightarrow> nat \<Rightarrow> ('e, u32) outcome" where
  "read_u32 data at = obind (slice data at (at + 4)) (\<lambda>b. Ok (u32_from_le b))"

definition read_u64 :: "bytes \<Rightarrow> nat \<Rightarrow> ('e, u64) outcome" where
  "read_u64 data at = obind (slice data at (at + 8)) (\<lambda>b. Ok (u64_from_le b))"

definition segment_flags :: "u32 \<Rightarrow> bool \<Rightarrow> (string, u64) outcome" where
  "segment_flags p_flags nx_available =
     (let readable = p_flags AND PF_R \<noteq> 0;
          writable = p_flags AND PF_W \<noteq> 0;
          executable = p_flags AND PF_X \<noteq> 0
      in if \<not> readable then Err ''segment is not readable - x86_64 paging cannot express that''
         else if writable \<and> executable then
           Err ''segment requests both write and execute permission; Najm OS enforces W^X, so a writable segment can never be executable. Split it into separate PT_LOAD segments on page boundaries.''
         else
           (let flags = PTE_PRESENT OR PTE_USER;
                flags = (if writable then flags OR PTE_WRITABLE else flags);
                flags = (if \<not> executable \<and> nx_available then flags OR PTE_NO_EXECUTE else flags)
            in Ok flags))"

definition parse_header :: "bytes \<Rightarrow> (load_error, elf_header) outcome" where
  "parse_header data =
     (if length data < 64 then Err (NotAnElf ''smaller than an ELF64 header'')
      else if take 4 data \<noteq> ELF_MAGIC then Err (NotAnElf ''wrong magic number'')
      else if data ! 4 \<noteq> ELFCLASS64 then Err (NotAnElf ''not 64-bit'')
      else if data ! 5 \<noteq> ELFDATA2LSB then Err (NotAnElf ''not little-endian'')
      else
        obind (read_u16 data 16) (\<lambda>e_type.
        if e_type \<noteq> ET_EXEC then Err (NotAnElf ''not ET_EXEC - PIE and dynamic linking are not supported'')
        else
        obind (read_u16 data 18) (\<lambda>e_machine.
        if e_machine \<noteq> EM_X86_64 then Err (NotAnElf ''not x86_64'')
        else
        obind (read_u64 data 32) (\<lambda>phoff.
        obind (read_u16 data 54) (\<lambda>phentsize.
        obind (read_u16 data 56) (\<lambda>phnum.
        if unat phentsize < 56 then
          Err (NotAnElf ''program header entries are too small to contain the fields the loader reads'')
        else
        obind (ok_or (checked_mul (unat phnum) (unat phentsize)) (NotAnElf ''program header table size overflows'')) (\<lambda>table_size.
        obind (ok_or (checked_add (unat phoff) table_size) (NotAnElf ''program header table offset overflows'')) (\<lambda>table_end.
        if table_end > length data then
          Err (NotAnElf ''program header table extends past the end of the image'')
        else
        obind (read_u64 data 24) (\<lambda>entry.
          Ok \<lparr>eh_entry = entry, eh_phoff = unat phoff, eh_phentsize = unat phentsize, eh_phnum = unat phnum\<rparr>)))))))))"

section \<open>Loading\<close>

text \<open>The space under construction and \<^verbatim>\<open>mapped_pages\<close>.\<close>

type_synonym load_state = "(vm \<times> address_space) \<times> u64 set"

definition on_space ::
  "(vm \<times> address_space \<Rightarrow> (map_error, unit) outcome \<times> vm \<times> address_space) \<Rightarrow> (load_state, load_error, unit) step" where
  "on_space oper = map_err Mapping (\<lambda>(s, mapped). case oper s of (r, s') \<Rightarrow> (r, s', mapped))"

text \<open>\<^verbatim>\<open>Page::containing_address(VirtAddr::new(a))\<close>, which panics on an address that is not canonical.\<close>

definition page_containing :: "paging \<Rightarrow> u64 \<Rightarrow> ('s, 'e, u64) step" where
  "page_containing env a = pure_step (if pg_va_ok env a then Ok (page_of a) else Panic)"

text \<open>
  A loop over \<^verbatim>\<open>Page::range_inclusive\<close>: stepping to the next page panics when its address is not
  canonical.
\<close>

function for_pages ::
  "paging \<Rightarrow> (u64 \<Rightarrow> ('s, 'e, unit) step) \<Rightarrow> u64 \<Rightarrow> u64 \<Rightarrow> ('s, 'e, unit) step" where
  "for_pages env f page last_page =
     (if page > last_page then ret ()
      else bind_step (f page) (\<lambda>_.
        if page = last_page then ret ()
        else if page + 4096 < page \<or> \<not> pg_va_ok env (page + 4096) then crash
        else for_pages env f (page + 4096) last_page))"
  by pat_completeness auto
termination
proof (relation "measure (\<lambda>(env, f, page, last_page). 2 ^ 64 - unat page)")
  fix env :: paging and f :: "u64 \<Rightarrow> ('s, 'e, unit) step" and page last_page :: u64
  assume "\<not> (page + 4096 < page \<or> \<not> pg_va_ok env (page + 4096))"
  then show "((env, f, page + 4096, last_page), env, f, page, last_page)
      \<in> measure (\<lambda>(env, f, page, last_page). 2 ^ 64 - unat page)"
    using page_walk_decreases by simp
qed simp

declare for_pages.simps [simp del]

definition claim_page :: "nat \<Rightarrow> u64 \<Rightarrow> (load_state, load_error, unit) step" where
  "claim_page i page = (\<lambda>(s, mapped).
     if page \<in> mapped then
       (Err (BadSegment i page ''two segments share a page, so they cannot have different permissions - page-align them in the linker script''), s, mapped)
     else (Ok (), s, insert page mapped))"

definition load_segment :: "paging \<Rightarrow> bytes \<Rightarrow> elf_header \<Rightarrow> nat \<Rightarrow> (load_state, load_error, unit) step" where
  "load_segment env data h i =
     (let ph_offset = eh_phoff h + i * eh_phentsize h in
      bind_step (pure_step (read_u32 data ph_offset)) (\<lambda>p_type.
      if p_type \<noteq> PT_LOAD then ret ()
      else
      bind_step (pure_step (read_u32 data (ph_offset + 4))) (\<lambda>p_flags.
      bind_step (pure_step (read_u64 data (ph_offset + 8))) (\<lambda>p_offset.
      bind_step (pure_step (read_u64 data (ph_offset + 16))) (\<lambda>p_vaddr.
      bind_step (pure_step (read_u64 data (ph_offset + 32))) (\<lambda>p_filesz.
      bind_step (pure_step (read_u64 data (ph_offset + 40))) (\<lambda>p_memsz.
      bind_step (map_err (\<lambda>reason. BadSegment i p_vaddr reason) (pure_step (segment_flags p_flags (pg_nx env)))) (\<lambda>final_flags.
      if \<not> is_user_address p_vaddr then fail_with (BadSegment i p_vaddr ''load address is outside user space'')
      else if unat p_filesz > unat p_memsz then fail_with (BadSegment i p_vaddr ''file size exceeds memory size'')
      else
      bind_step (pure_step (ok_or (checked_add (unat p_offset) (unat p_filesz)) (BadSegment i p_vaddr ''file offset + size overflows'')))
        (\<lambda>file_end.
      if file_end > length data then fail_with (BadSegment i p_vaddr ''segment extends past the end of the image'')
      else
      bind_step (pure_step (ok_or (checked_add (unat p_vaddr) (unat p_memsz)) (BadSegment i p_vaddr ''vaddr + memsz overflows'')))
        (\<lambda>segment_end.
      if p_memsz = 0 then ret ()
      else
      bind_step (page_containing env p_vaddr) (\<lambda>start_page.
      bind_step (page_containing env (of_nat segment_end - 1)) (\<lambda>end_page.
      bind_step (for_pages env (\<lambda>page. bind_step (claim_page i page) (\<lambda>_. on_space (map_page env page LOAD_FLAGS)))
        start_page end_page) (\<lambda>_.
      bind_step (if unat end_page + 4096 \<ge> usize_lim \<or> unat end_page + 4096 < unat start_page then crash
         else on_space (zero_at env start_page (unat end_page + 4096 - unat start_page))) (\<lambda>_.
      bind_step (pure_step (slice data (unat p_offset) file_end)) (\<lambda>contents.
      bind_step (on_space (write_at env p_vaddr contents)) (\<lambda>_.
      for_pages env (\<lambda>page. on_space (protect_page env page final_flags)) start_page end_page))))))))))))))))"

definition stack_flags :: "paging \<Rightarrow> u64" where
  "stack_flags env =
     (let flags = PTE_PRESENT OR PTE_WRITABLE OR PTE_USER in
      if pg_nx env then flags OR PTE_NO_EXECUTE else flags)"

definition map_stack :: "paging \<Rightarrow> (load_state, load_error, unit) step" where
  "map_stack env =
     bind_step (for_each (\<lambda>i.
         bind_step (page_containing env (USER_STACK_BOTTOM + of_nat i * 4096)) (\<lambda>page.
           on_space (map_page env page (stack_flags env)))) [0..<unat USER_STACK_PAGES])
       (\<lambda>_. on_space (zero_at env USER_STACK_BOTTOM (unat (USER_STACK_PAGES * 4096))))"

definition load_contents :: "paging \<Rightarrow> bytes \<Rightarrow> elf_header \<Rightarrow> (load_state, load_error, unit) step" where
  "load_contents env data h =
     bind_step (for_each (load_segment env data h) [0..<eh_phnum h]) (\<lambda>_. map_stack env)"

text \<open>The image carries the space it owns; its root is \<open>li_root\<close>.\<close>

definition load_image :: "paging \<Rightarrow> bytes \<Rightarrow> bytes \<Rightarrow> vm \<Rightarrow> (load_error, loaded_image \<times> address_space) outcome \<times> vm" where
  "load_image env data name v =
     (case parse_header data of
        Err e \<Rightarrow> (Err e, v)
      | Panic \<Rightarrow> (Panic, v)
      | Ok h \<Rightarrow>
          (case address_space_new env v of
             (Ok (Some sp), v0) \<Rightarrow>
               (case load_contents env data h ((v0, sp), {}) of
                  (Ok _, (v1, sp1), _) \<Rightarrow>
                    (Ok (\<lparr>li_name = name, li_entry = eh_entry h,
                          li_stack_top = USER_STACK_BOTTOM + USER_STACK_PAGES * 4096, li_root = root_frame sp1\<rparr>, sp1), v1)
                | (Err e, (v1, sp1), _) \<Rightarrow> (Err e, address_space_drop sp1 v1)
                | (Panic, (v1, sp1), _) \<Rightarrow> (Panic, v1))
           | (Ok None, v0) \<Rightarrow> (Err LoadOutOfMemory, v0)
           | (_, v0) \<Rightarrow> (Panic, v0)))"

end
