(* ===== verification/LoaderProofs.thy ===== *)
theory LoaderProofs
  imports Loader
begin

text \<open>
  The correctness of \<^verbatim>\<open>load_image\<close>: the triples of the address-space operations in terms of what a
  space maps, the loop over the pages of a segment, and the image that results.
\<close>

unbundle bit_operations_syntax

section \<open>The header\<close>

lemma read_ok:
  "at + 2 \<le> length data \<Longrightarrow> read_u16 data at = Ok (u16_from_le (take 2 (drop at data)))"
  "at + 4 \<le> length data \<Longrightarrow> read_u32 data at = Ok (u32_from_le (take 4 (drop at data)))"
  "at + 8 \<le> length data \<Longrightarrow> read_u64 data at = Ok (u64_from_le (take 8 (drop at data)))"
  by (simp_all add: read_u16_def read_u32_def read_u64_def slice_def)

lemma parse_header_total: "parse_header data \<noteq> Panic"
  unfolding parse_header_def
  by (cases "length data < 64") (simp_all add: read_ok ok_or_def split: option.split)

lemma parse_header_ok:
  assumes "parse_header data = Ok h"
  shows "64 \<le> length data" "56 \<le> eh_phentsize h" "eh_phoff h + eh_phnum h * eh_phentsize h \<le> length data"
    "eh_entry h = u64_from_le (take 8 (drop 24 data))"
proof -
  have l: "64 \<le> length data" using assms by (auto simp: parse_header_def split: if_splits)
  note r = assms [unfolded parse_header_def]
  show "64 \<le> length data" by (rule l)
  show "56 \<le> eh_phentsize h" "eh_phoff h + eh_phnum h * eh_phentsize h \<le> length data"
    "eh_entry h = u64_from_le (take 8 (drop 24 data))"
    using r l by (auto simp: read_ok outcome_simps split: if_splits)
qed

section \<open>Segments\<close>

record segment =
  sg_type :: u32
  sg_flags :: u32
  sg_offset :: nat
  sg_vaddr :: u64
  sg_filesz :: nat
  sg_memsz :: nat

definition segment_at :: "bytes \<Rightarrow> elf_header \<Rightarrow> nat \<Rightarrow> segment" where
  "segment_at data h i =
     (let at = eh_phoff h + i * eh_phentsize h;
          u32 = (\<lambda>k. u32_from_le (take 4 (drop (at + k) data)));
          u64 = (\<lambda>k. u64_from_le (take 8 (drop (at + k) data)))
      in \<lparr>sg_type = u32 0, sg_flags = u32 4, sg_offset = unat (u64 8), sg_vaddr = u64 16,
          sg_filesz = unat (u64 32), sg_memsz = unat (u64 40)\<rparr>)"

definition seg_first :: "segment \<Rightarrow> nat" where
  "seg_first sg = unat (sg_vaddr sg) div 4096 * 4096"

definition seg_limit :: "segment \<Rightarrow> nat" where
  "seg_limit sg = (unat (sg_vaddr sg) + sg_memsz sg - 1) div 4096 * 4096 + 4096"

text \<open>The addresses on the pages of a loaded segment.\<close>

definition seg_covers :: "segment \<Rightarrow> u64 \<Rightarrow> bool" where
  "seg_covers sg a \<longleftrightarrow> sg_type sg = PT_LOAD \<and> 0 < sg_memsz sg \<and> seg_first sg \<le> unat a \<and> unat a < seg_limit sg"

text \<open>What the image puts there: the bytes of the file, and zeros around them.\<close>

definition seg_byte :: "bytes \<Rightarrow> segment \<Rightarrow> u64 \<Rightarrow> u8" where
  "seg_byte data sg a =
     (if unat (sg_vaddr sg) \<le> unat a \<and> unat a < unat (sg_vaddr sg) + sg_filesz sg
      then data ! (sg_offset sg + (unat a - unat (sg_vaddr sg))) else 0)"

definition seg_cell :: "paging \<Rightarrow> bytes \<Rightarrow> segment \<Rightarrow> u64 \<Rightarrow> (u64 \<times> u8) option" where
  "seg_cell env data sg a =
     (case segment_flags (sg_flags sg) (pg_nx env) of Ok fl \<Rightarrow> Some (fl, seg_byte data sg a) | _ \<Rightarrow> None)"

text \<open>The end of a segment that the processor does not accept as an address.\<close>

definition load_hazard :: "paging \<Rightarrow> bytes \<Rightarrow> elf_header \<Rightarrow> bool" where
  "load_hazard env data h \<longleftrightarrow>
     (\<exists>i < eh_phnum h. sg_type (segment_at data h i) = PT_LOAD \<and>
        \<not> pg_va_ok env (of_nat (unat (sg_vaddr (segment_at data h i)) + sg_memsz (segment_at data h i)) - 1))"

lemma segment_flags_ok:
  assumes "segment_flags p nx = Ok fl"
  shows "flags_ok fl" "contains_flags fl PTE_PRESENT" "contains_flags fl PTE_USER"
    "contains_flags fl PTE_WRITABLE \<longleftrightarrow> p AND PF_W \<noteq> 0"
    "contains_flags fl PTE_NO_EXECUTE \<longleftrightarrow> nx \<and> p AND PF_X = 0"
    "\<not> (p AND PF_W \<noteq> 0 \<and> p AND PF_X \<noteq> 0)" "p AND PF_R \<noteq> 0"
  using assms
  by (auto simp: segment_flags_def Let_def contains_flags_def flags_ok_def PTE_PRESENT_def PTE_USER_def
      PTE_WRITABLE_def PTE_NO_EXECUTE_def PTE_ADDR_MASK_def split: if_splits)

lemma stack_flags_ok:
  "flags_ok (stack_flags env)" "contains_flags (stack_flags env) LOAD_FLAGS"
  "contains_flags (stack_flags env) PTE_NO_EXECUTE \<longleftrightarrow> pg_nx env"
  by (simp_all add: stack_flags_def Let_def contains_flags_def flags_ok_def LOAD_FLAGS_def PTE_PRESENT_def PTE_USER_def
      PTE_WRITABLE_def PTE_NO_EXECUTE_def PTE_ADDR_MASK_def)

section \<open>Pages as ranges\<close>

lemma page_range: "page_of p = p \<Longrightarrow> page_of a = p \<longleftrightarrow> unat p \<le> unat a \<and> unat a < unat p + 4096"
proof -
  assume p: "page_of p = p"
  have d: "4096 dvd unat p" using page_of_aligned [of p] unfolding p .
  have "page_of a = p \<longleftrightarrow> unat a div 4096 * 4096 = unat p" by (simp add: word_unat_eq_iff unat_page_of)
  also have "\<dots> \<longleftrightarrow> unat p \<le> unat a \<and> unat a < unat p + 4096"
  proof -
    obtain k where k: "unat p = k * 4096" using d by (metis dvd_div_mult_self)
    have "unat a div 4096 = k \<longleftrightarrow> k * 4096 \<le> unat a \<and> unat a < k * 4096 + 4096"
      using div_mult_mod_eq [of "unat a" 4096] mod_less_divisor [of 4096 "unat a"]
      by (metis add.commute div_nat_eqI le_add2 mult.commute mult_Suc_right nat_add_left_cancel_less zero_less_numeral)
    then show ?thesis unfolding k by simp
  qed
  finally show ?thesis .
qed

lemma page_of_page_of [simp]: "page_of (page_of a) = page_of a"
  by (rule word_unat_eq_iff [THEN iffD2]) (simp add: unat_page_of)

lemma unat_page_limit: "unat (page_of a) + 4096 \<le> 2 ^ 64"
proof -
  have "unat a div 4096 < 2 ^ 52" using unat_bound [of a] by (simp add: div_less_iff_less_mult)
  then have "unat a div 4096 + 1 \<le> 2 ^ 52" by simp
  then have "(unat a div 4096 + 1) * 4096 \<le> 2 ^ 52 * 4096" by (rule mult_le_mono1)
  then show ?thesis by (simp add: unat_page_of)
qed

lemma user_limit:
  assumes "is_user_address p" "page_of p = p"
  shows "unat p + 4096 \<le> unat USER_SPACE_END"
proof -
  have "unat p div 4096 * 4096 = unat p" using unat_page_of [of p] assms(2) by simp
  moreover have "unat p < unat USER_SPACE_END" using assms(1) by (simp add: is_user_address_def word_less_nat_alt)
  then have "unat p div 4096 < unat USER_SPACE_END div 4096" using calculation by (simp add: USER_SPACE_END_def)
  ultimately show ?thesis by (simp add: USER_SPACE_END_def)
qed

section \<open>Triples of the operations on a space\<close>

text \<open>
  Since the state \<open>s0\<close> the space is sound and has lost no frame, or, after a failure, at most one.
\<close>

definition sound_since :: "paging \<Rightarrow> (phys \<Rightarrow> u64 \<Rightarrow> u64 set \<Rightarrow> bool) \<Rightarrow> vm \<times> address_space \<Rightarrow> vm \<times> address_space \<Rightarrow> bool" where
  "sound_since env pt_inv s0 s \<longleftrightarrow> (\<exists>T. space_ok env pt_inv T s) \<and> space_extends {#} s0 s"

definition failed_since :: "paging \<Rightarrow> (phys \<Rightarrow> u64 \<Rightarrow> u64 set \<Rightarrow> bool) \<Rightarrow> vm \<times> address_space \<Rightarrow> vm \<times> address_space \<Rightarrow> bool" where
  "failed_since env pt_inv s0 s \<longleftrightarrow>
     (\<exists>T. space_ok env pt_inv T s) \<and> (\<exists>lost. space_extends lost s0 s \<and> size lost \<le> 1)"

lemma sound_failed: "sound_since env pt_inv s0 s \<Longrightarrow> failed_since env pt_inv s0 s"
  by (auto simp: sound_since_def failed_since_def intro: exI [of _ "{#}"])

text \<open>An assertion on what the space maps and on the pages claimed.\<close>

type_synonym amap = "u64 \<Rightarrow> (u64 \<times> u8) option"

definition with_map ::
  "paging \<Rightarrow> (phys \<Rightarrow> u64 \<Rightarrow> u64 set \<Rightarrow> bool) \<Rightarrow> vm \<times> address_space \<Rightarrow> (amap \<Rightarrow> u64 set \<Rightarrow> bool) \<Rightarrow> load_state \<Rightarrow> bool" where
  "with_map env pt_inv s0 R = (\<lambda>(s, mapped). sound_since env pt_inv s0 s \<and> R (cells env s) mapped)"

definition with_failure ::
  "paging \<Rightarrow> (phys \<Rightarrow> u64 \<Rightarrow> u64 set \<Rightarrow> bool) \<Rightarrow> vm \<times> address_space \<Rightarrow> load_state \<Rightarrow> bool" where
  "with_failure env pt_inv s0 = (\<lambda>(s, mapped). failed_since env pt_inv s0 s)"

lemma with_map_failure: "with_map env pt_inv s0 R s \<Longrightarrow> with_failure env pt_inv s0 s"
  by (auto simp: with_map_def with_failure_def sound_failed)

context page_mapper
begin

abbreviation triple :: "vm \<times> address_space \<Rightarrow> (amap \<Rightarrow> u64 set \<Rightarrow> bool) \<Rightarrow> (load_state, load_error, 'a) step \<Rightarrow>
    (amap \<Rightarrow> u64 set \<Rightarrow> bool) \<Rightarrow> bool \<Rightarrow> bool" where
  "triple s0 R m R' N \<equiv> holds (with_map env pt_inv s0 R) m (\<lambda>_. with_map env pt_inv s0 R') (\<lambda>_. with_failure env pt_inv s0) N"

lemma on_space_triple:
  assumes "\<And>T s r s' M. space_ok env pt_inv T s \<Longrightarrow> R (cells env s) M \<Longrightarrow> oper s = (r, s') \<Longrightarrow>
    (case r of
       Ok _ \<Rightarrow> (\<exists>T'. space_ok env pt_inv T' s') \<and> space_extends {#} s s' \<and> R' (cells env s') M
     | Err e \<Rightarrow> (\<exists>T'. space_ok env pt_inv T' s') \<and> (\<exists>lost. space_extends lost s s' \<and> size lost \<le> 1)
     | Panic \<Rightarrow> N)"
  shows "triple s0 R (on_space oper) R' N"
  unfolding on_space_def
proof (rule holds_map_err, rule holdsI)
  fix sm r sm'
  assume pre: "with_map env pt_inv s0 R sm" and step: "(case sm of (s, mapped) \<Rightarrow> case oper s of (r, s') \<Rightarrow> (r, s', mapped)) = (r, sm')"
  obtain s M where sm: "sm = (s, M)" by (rule prod.exhaust)
  obtain s' where o: "oper s = (r, s')" "sm' = (s', M)" using step by (auto simp: sm split: prod.splits)
  obtain T where T: "space_ok env pt_inv T s" and ext: "space_extends {#} s0 s" and R: "R (cells env s) M"
    using pre by (auto simp: sm with_map_def sound_since_def)
  have d: "distinct (fw_held (vm_frames (fst s')))" if "space_ok env pt_inv T' s'" for T'
    using that by (cases s') (auto simp: space_ok_def intro: frames_okD(1))
  show "case r of Ok a \<Rightarrow> with_map env pt_inv s0 R' sm' | Err e \<Rightarrow> with_failure env pt_inv s0 sm' | Panic \<Rightarrow> N"
  proof (cases r)
    case (Ok a)
    then have a: "\<exists>T'. space_ok env pt_inv T' s'" "space_extends {#} s s'" "R' (cells env s') M"
      using assms [OF T R o(1)] by simp_all
    then have "space_extends {#} s0 s'" using space_extends_trans [OF ext a(2)] d by fastforce
    with a Ok show ?thesis by (simp add: o(2) with_map_def sound_since_def)
  next
    case (Err e)
    then obtain T' lost where a: "space_ok env pt_inv T' s'" "space_extends lost s s'" "size lost \<le> 1"
      using assms [OF T R o(1)] by auto
    have "space_extends lost s0 s'" using space_extends_trans [OF ext a(2) d [OF a(1)]] by simp
    with a Err show ?thesis by (auto simp: o(2) with_failure_def failed_since_def)
  qed (use assms [OF T R o(1)] in simp)
qed

lemma map_triple:
  assumes page: "page_of page = page" and fl: "flags_ok flags" "contains_flags flags LOAD_FLAGS"
    and R': "\<And>A A' M. R A M \<Longrightarrow> is_user_address page \<Longrightarrow>
      (\<And>a. page_of a = page \<Longrightarrow> A a = None \<and> (\<exists>b. A' a = Some (flags, b))) \<Longrightarrow>
      (\<And>a. page_of a \<noteq> page \<Longrightarrow> A' a = A a) \<Longrightarrow> R' A' M"
  shows "triple s0 R (on_space (map_page env page flags)) R' N"
proof (rule on_space_triple)
  fix T s r s' M assume a: "space_ok env pt_inv T s" "R (cells env s) M" "map_page env page flags s = (r, s')"
  obtain v sp where s: "s = (v, sp)" by force
  obtain T' fs lost where m: "space_ok env pt_inv T' s'" "outside_same (v, sp) s'"
    "fw_held (vm_frames (fst s')) = fw_held (vm_frames v) @ lost @ fs" "as_owned (snd s') = as_owned sp @ fs"
    and c: "case r of
       Ok _ \<Rightarrow> lost = [] \<and> is_user_address page \<and>
         (\<forall>a. if page_of a = page then cells env (v, sp) a = None \<and> (\<exists>b. cells env s' a = Some (flags, b))
              else cells env s' a = cells env (v, sp) a)
     | Err e \<Rightarrow> length lost \<le> 1 \<and> cells env s' = cells env (v, sp)
     | Panic \<Rightarrow> False"
    by (rule map_page_cells [OF a(1) [unfolded s] page fl a(3) [unfolded s]])
  have ext: "space_extends (mset lost) s s'" using m(2-4) by (auto simp: s space_extends_def intro!: exI [of _ fs])
  show "case r of
       Ok _ \<Rightarrow> (\<exists>T'. space_ok env pt_inv T' s') \<and> space_extends {#} s s' \<and> R' (cells env s') M
     | Err e \<Rightarrow> (\<exists>T'. space_ok env pt_inv T' s') \<and> (\<exists>lost. space_extends lost s s' \<and> size lost \<le> 1)
     | Panic \<Rightarrow> N"
  proof (cases r)
    case (Ok u)
    have all: "if page_of a = page then cells env s a = None \<and> (\<exists>b. cells env s' a = Some (flags, b))
              else cells env s' a = cells env s a" for a using c Ok s by simp
    have "R' (cells env s') M"
    proof (rule R' [OF a(2)])
      show "is_user_address page" using c Ok by simp
      show "cells env s a = None \<and> (\<exists>b. cells env s' a = Some (flags, b))" if "page_of a = page" for a using all [of a] that by simp
      show "cells env s' a = cells env s a" if "page_of a \<noteq> page" for a using all [of a] that by simp
    qed
    then show ?thesis using Ok c m(1) ext by auto
  next
    case (Err e)
    then show ?thesis using c m(1) ext by (auto intro!: exI [of _ "mset lost"])
  qed (use c in simp)
qed

lemma same_frames_extends:
  "outside_same (v, sp) s' \<Longrightarrow> vm_frames (fst s') = vm_frames v \<Longrightarrow> snd s' = sp \<Longrightarrow> space_extends {#} (v, sp) s'"
  by (auto simp: space_extends_def intro: exI [of _ "[]"])

lemma protect_triple:
  assumes page: "page_of page = page" and fl: "flags_ok flags" "contains_flags flags PTE_PRESENT"
    and R': "\<And>A M. R A M \<Longrightarrow> A page \<noteq> None \<Longrightarrow>
      R' (\<lambda>a. if page_of a = page then map_option (\<lambda>(fl, b). (flags, b)) (A a) else A a) M"
  shows "triple s0 R (on_space (protect_page env page flags)) R' N"
proof (rule on_space_triple)
  fix T s r s' M assume a: "space_ok env pt_inv T s" "R (cells env s) M" "protect_page env page flags s = (r, s')"
  obtain v sp where s: "s = (v, sp)" by force
  note p = protect_page_cells [OF a(1) [unfolded s] page fl a(3) [unfolded s]]
  have ext: "space_extends {#} s s'" unfolding s by (rule same_frames_extends [OF p(2-4)])
  show "case r of
       Ok _ \<Rightarrow> (\<exists>T'. space_ok env pt_inv T' s') \<and> space_extends {#} s s' \<and> R' (cells env s') M
     | Err e \<Rightarrow> (\<exists>T'. space_ok env pt_inv T' s') \<and> (\<exists>lost. space_extends lost s s' \<and> size lost \<le> 1)
     | Panic \<Rightarrow> N"
  proof (cases r)
    case (Ok u)
    then have c: "cells env s page \<noteq> None" "cells env s' =
        (\<lambda>a. if page_of a = page then map_option (\<lambda>(fl, b). (flags, b)) (cells env s a) else cells env s a)"
      using p(5) s by (auto simp: fun_eq_iff)
    show ?thesis using Ok p(1) ext R' [OF a(2) c(1)] c(2) by auto
  next
    case (Err e)
    then show ?thesis using p(1) ext by (auto intro!: exI [of _ "{#}"])
  qed (use p(5) in simp)
qed

lemma write_triple:
  assumes b: "unat addr + length data \<le> unat USER_SPACE_END"
    and R': "\<And>A M. R A M \<Longrightarrow> (\<And>a. unat addr \<le> unat a \<Longrightarrow> unat a < unat addr + length data \<Longrightarrow> A a \<noteq> None) \<Longrightarrow>
      R' (\<lambda>a. if unat addr \<le> unat a \<and> unat a < unat addr + length data
              then map_option (\<lambda>(fl, x). (fl, data ! (unat a - unat addr))) (A a) else A a) M"
  shows "triple s0 R (on_space (write_at env addr data)) R' N"
proof (rule on_space_triple)
  fix T s r s' M assume a: "space_ok env pt_inv T s" "R (cells env s) M" "write_at env addr data s = (r, s')"
  obtain v sp where s: "s = (v, sp)" by force
  note p = write_at_cells [OF a(1) [unfolded s] b a(3) [unfolded s]]
  have ext: "space_extends {#} s s'" unfolding s by (rule same_frames_extends [OF p(2-4)])
  show "case r of
       Ok _ \<Rightarrow> (\<exists>T'. space_ok env pt_inv T' s') \<and> space_extends {#} s s' \<and> R' (cells env s') M
     | Err e \<Rightarrow> (\<exists>T'. space_ok env pt_inv T' s') \<and> (\<exists>lost. space_extends lost s s' \<and> size lost \<le> 1)
     | Panic \<Rightarrow> N"
  proof (cases r)
    case (Ok u)
    have inn: "\<exists>fl x. cells env s a = Some (fl, x) \<and> cells env s' a = Some (fl, data ! (unat a - unat addr))"
      if "unat addr \<le> unat a" "unat a < unat addr + length data" for a
      using p(7) Ok that by (simp add: s)
    have "cells env s' = (\<lambda>a. if unat addr \<le> unat a \<and> unat a < unat addr + length data
              then map_option (\<lambda>(fl, x). (fl, data ! (unat a - unat addr))) (cells env s a) else cells env s a)"
    proof
      fix a show "cells env s' a = (if unat addr \<le> unat a \<and> unat a < unat addr + length data
              then map_option (\<lambda>(fl, x). (fl, data ! (unat a - unat addr))) (cells env s a) else cells env s a)"
        using inn [of a] p(6) [of a] by (auto simp: s)
    qed
    moreover have "R' (\<lambda>a. if unat addr \<le> unat a \<and> unat a < unat addr + length data
              then map_option (\<lambda>(fl, x). (fl, data ! (unat a - unat addr))) (cells env s a) else cells env s a) M"
      using inn by (intro R' [OF a(2)]) force
    ultimately show ?thesis using Ok p(1) ext by auto
  next
    case (Err e)
    then show ?thesis using p(1) ext by (auto intro!: exI [of _ "{#}"])
  qed (use p(7) in simp)
qed

lemma holds_for_pages:
  assumes "page_of page = page" "page_of lst = lst" "page \<le> lst"
    and "\<And>p. page_of p = p \<Longrightarrow> page \<le> p \<Longrightarrow> p \<le> lst \<Longrightarrow>
      holds (J (unat p)) (f p) (\<lambda>_ s. is_user_address p \<and> J (unat p + 4096) s) E N"
  shows "holds (J (unat page)) (for_pages env f page lst) (\<lambda>_. J (unat lst + 4096)) E N"
  using assms
proof (induction "unat lst - unat page" arbitrary: page rule: less_induct)
  case less
  have body: "holds (J (unat page)) (f page) (\<lambda>_ s. is_user_address page \<and> J (unat page + 4096) s) E N"
    using less.prems(4) [OF less.prems(1) order_refl less.prems(3)] .
  have le: "\<not> page > lst" using less.prems(3) by simp
  have rest: "holds (J (unat page + 4096))
      (if page = lst then ret ()
       else if page + 4096 < page \<or> \<not> pg_va_ok env (page + 4096) then crash
       else for_pages env f (page + 4096) lst) (\<lambda>_. J (unat lst + 4096)) E N" if user: "is_user_address page"
  proof (cases "page = lst")
    case True
    then show ?thesis by (simp add: holds_ret)
  next
    case False
    then have lt: "page < lst" using less.prems(3) by simp
    have al: "4096 dvd unat page" "4096 dvd unat lst" using page_of_aligned [of page] page_of_aligned [of lst] less.prems(1,2) by simp_all
    note st = page_step [OF lt al]
    have up: "page \<le> page + 4096" using st(1) by (simp add: word_le_nat_alt)
    have pg: "page_of (page + 4096) = page + 4096"
      using al(1) by (intro word_unat_eq_iff [THEN iffD2]) (simp add: unat_page_of st(1))
    have va: "pg_va_ok env (page + 4096)"
      using user_limit [OF user less.prems(1)] st(1) by (intro va_ok_upto) (simp add: word_le_nat_alt)
    have closer: "unat lst - unat (page + 4096) < unat lst - unat page"
      using lt st(1) by (simp add: word_less_nat_alt)
    have "holds (J (unat (page + 4096))) (for_pages env f (page + 4096) lst) (\<lambda>_. J (unat lst + 4096)) E N"
    proof (rule less.hyps [OF closer pg less.prems(2) st(2)])
      fix p :: u64 assume p: "page_of p = p" "page + 4096 \<le> p" "p \<le> lst"
      show "holds (J (unat p)) (f p) (\<lambda>_ s. is_user_address p \<and> J (unat p + 4096) s) E N"
        by (rule less.prems(4) [OF p(1) order_trans [OF up p(2)] p(3)])
    qed
    moreover have "\<not> (page + 4096 < page \<or> \<not> pg_va_ok env (page + 4096))" using up va by (simp add: leD)
    ultimately show ?thesis using False st(1) by (simp only: if_False if_not_P)
  qed
  show ?case
    unfolding for_pages.simps [of env f page lst] if_not_P [OF le]
    by (rule holds_bind [OF body]) (rule holds_and [OF rest])
qed

lemma with_map_and: "with_map env pt_inv s0 (\<lambda>A M. c \<and> R A M) s \<longleftrightarrow> c \<and> with_map env pt_inv s0 R s"
  by (auto simp: with_map_def)

lemma claim_triple:
  assumes "\<And>A M. R A M \<Longrightarrow> page \<notin> M \<Longrightarrow> R' A (insert page M)"
  shows "triple s0 R (claim_page i page) R' N"
proof (rule holdsI)
  fix sm r sm' assume pre: "with_map env pt_inv s0 R sm" and step: "claim_page i page sm = (r, sm')"
  obtain s M where sm: "sm = (s, M)" by (rule prod.exhaust)
  show "case r of Ok a \<Rightarrow> with_map env pt_inv s0 R' sm' | Err e \<Rightarrow> with_failure env pt_inv s0 sm' | Panic \<Rightarrow> N"
    using pre step assms with_map_failure [OF pre] by (auto simp: sm claim_page_def with_map_def split: if_splits)
qed

lemma fail_triple: "triple s0 R (fail_with e) R' N"
  by (rule holds_fail) (rule with_map_failure)

end

text \<open>The pages of a map.\<close>

definition pages_of :: "amap \<Rightarrow> u64 set" where
  "pages_of A = {p. page_of p = p \<and> A p \<noteq> None}"

text \<open>The first loop of a segment: every page of the range is new, and is mapped to be written.\<close>

definition mapped_upto :: "nat \<Rightarrow> amap \<Rightarrow> nat \<Rightarrow> amap \<Rightarrow> u64 set \<Rightarrow> bool" where
  "mapped_upto first B n A M \<longleftrightarrow>
     (\<forall>a. first \<le> unat a \<and> unat a < n \<longrightarrow> is_user_address a \<and> B a = None \<and> (\<exists>b. A a = Some (LOAD_FLAGS, b))) \<and>
     (\<forall>a. \<not> (first \<le> unat a \<and> unat a < n) \<longrightarrow> A a = B a) \<and> M = pages_of A"

context page_mapper
begin

lemma map_pages_triple:
  assumes "page_of page = page" "page_of lst = lst" "page \<le> lst"
  shows "triple s0 (\<lambda>A M. A = B \<and> M = pages_of B)
    (for_pages env (\<lambda>page. bind_step (claim_page i page) (\<lambda>_. on_space (map_page env page LOAD_FLAGS))) page lst)
    (mapped_upto (unat page) B (unat lst + 4096)) N"
proof -
  have body: "holds (with_map env pt_inv s0 (mapped_upto (unat page) B (unat p)))
      (bind_step (claim_page i p) (\<lambda>_. on_space (map_page env p LOAD_FLAGS)))
      (\<lambda>_ s. is_user_address p \<and> with_map env pt_inv s0 (mapped_upto (unat page) B (unat p + 4096)) s)
      (\<lambda>_. with_failure env pt_inv s0) N"
    if p: "page_of p = p" "page \<le> p" for p
    unfolding with_map_and [symmetric]
  proof (rule holds_bind, rule claim_triple [where R' = "\<lambda>A M. mapped_upto (unat page) B (unat p) A (pages_of A) \<and> M = insert p (pages_of A)"])
    show "triple s0 (\<lambda>A M. mapped_upto (unat page) B (unat p) A (pages_of A) \<and> M = insert p (pages_of A))
      (on_space (map_page env p LOAD_FLAGS)) (\<lambda>A M. is_user_address p \<and> mapped_upto (unat page) B (unat p + 4096) A M) N"
    proof (rule map_triple [OF p(1) load_flags_contains(4)])
      show "contains_flags LOAD_FLAGS LOAD_FLAGS" by (simp add: contains_flags_def)
      fix A A' :: amap and M
      assume R: "mapped_upto (unat page) B (unat p) A (pages_of A) \<and> M = insert p (pages_of A)" and u: "is_user_address p"
        and new: "\<And>a. page_of a = p \<Longrightarrow> A a = None \<and> (\<exists>b. A' a = Some (LOAD_FLAGS, b))"
        and old: "\<And>a. page_of a \<noteq> p \<Longrightarrow> A' a = A a"
      note rng = page_range [OF p(1)]
      have le: "unat page \<le> unat p" using p(2) by (simp add: word_le_nat_alt)
      have "pages_of A' = insert p (pages_of A)"
        using new [OF p(1)] old p(1) by (auto simp: pages_of_def) metis+
      moreover have "is_user_address a \<and> B a = None \<and> (\<exists>b. A' a = Some (LOAD_FLAGS, b))"
        if "unat page \<le> unat a" "unat a < unat p + 4096" for a
      proof (cases "page_of a = p")
        case True
        then have "is_user_address a" "\<not> unat a < unat p" using u user_page_iff [of a] rng [of a] by simp_all
        then show ?thesis using R new [OF True] by (auto simp: mapped_upto_def)
      next
        case False
        then have "unat a < unat p" using rng [of a] that(2) by simp
        then show ?thesis using R old [OF False] that(1) by (simp add: mapped_upto_def)
      qed
      moreover have "A' a = B a" if "\<not> (unat page \<le> unat a \<and> unat a < unat p + 4096)" for a
        using R old [of a] rng [of a] le that by (auto simp: mapped_upto_def)
      ultimately show "is_user_address p \<and> mapped_upto (unat page) B (unat p + 4096) A' M"
        using R u by (simp add: mapped_upto_def)
    qed
  qed (auto simp: mapped_upto_def)
  have "holds (with_map env pt_inv s0 (mapped_upto (unat page) B (unat page)))
    (for_pages env (\<lambda>page. bind_step (claim_page i page) (\<lambda>_. on_space (map_page env page LOAD_FLAGS))) page lst)
    (\<lambda>_. with_map env pt_inv s0 (mapped_upto (unat page) B (unat lst + 4096))) (\<lambda>_. with_failure env pt_inv s0) N"
    by (rule holds_for_pages [OF assms]) (rule body)
  then show ?thesis by (rule holds_pre) (auto simp: with_map_def mapped_upto_def)
qed

text \<open>A fact that the assertion before a step gives.\<close>

lemma triple_know:
  assumes "\<And>A M. R A M \<Longrightarrow> c" "c \<Longrightarrow> triple s0 R m R' N"
  shows "triple s0 R m R' N"
proof (rule holdsI)
  fix s r s' assume pre: "with_map env pt_inv s0 R s" and step: "m s = (r, s')"
  have c using pre assms(1) by (auto simp: with_map_def)
  from holdsD [OF assms(2) [OF this] pre step]
  show "case r of Ok a \<Rightarrow> with_map env pt_inv s0 R' s' | Err e \<Rightarrow> with_failure env pt_inv s0 s' | Panic \<Rightarrow> N" .
qed

end

text \<open>The map \<open>B\<close> with a range of new pages, whose cells are \<open>g\<close>.\<close>

definition filled :: "nat \<Rightarrow> nat \<Rightarrow> amap \<Rightarrow> (u64 \<Rightarrow> u64 \<times> u8) \<Rightarrow> amap \<Rightarrow> u64 set \<Rightarrow> bool" where
  "filled first n B g A M \<longleftrightarrow>
     (\<forall>a. first \<le> unat a \<and> unat a < n \<longrightarrow> is_user_address a \<and> B a = None) \<and>
     A = (\<lambda>a. if first \<le> unat a \<and> unat a < n then Some (g a) else B a) \<and> M = pages_of A"

lemma pages_of_cong: "(\<And>a. A a = None \<longleftrightarrow> A' a = None) \<Longrightarrow> pages_of A = pages_of A'"
  by (simp add: pages_of_def)

lemma range_user:
  assumes "\<forall>a :: u64. first \<le> unat a \<and> unat a < n \<longrightarrow> is_user_address a \<and> Q a" "first < n" "n \<le> 2 ^ 64"
  shows "n \<le> unat USER_SPACE_END"
proof -
  have u: "unat (of_nat (n - 1) :: u64) = n - 1" unfolding unat_of_nat using assms(2,3) by (intro mod_less) simp
  then have "is_user_address (of_nat (n - 1))" using assms by auto
  then show ?thesis using u assms(2) by (simp add: is_user_address_def word_less_nat_alt)
qed

context page_mapper
begin

lemma zero_pages_triple:
  assumes "unat page < n" "n \<le> 2 ^ 64"
  shows "triple s0 (mapped_upto (unat page) B n) (on_space (zero_at env page (n - unat page)))
    (filled (unat page) n B (\<lambda>_. (LOAD_FLAGS, 0))) N"
proof (rule triple_know)
  show "n \<le> unat USER_SPACE_END" if "mapped_upto (unat page) B n A M" for A M
    using that assms by (intro range_user [of "unat page" n "\<lambda>a. B a = None"]) (auto simp: mapped_upto_def)
next
  assume lim: "n \<le> unat USER_SPACE_END"
  show "triple s0 (mapped_upto (unat page) B n) (on_space (zero_at env page (n - unat page)))
    (filled (unat page) n B (\<lambda>_. (LOAD_FLAGS, 0))) N"
    unfolding zero_at_def
  proof (rule write_triple)
    show "unat page + length (replicate (n - unat page) (0 :: u8)) \<le> unat USER_SPACE_END" using assms lim by simp
    fix A :: amap and M assume m: "mapped_upto (unat page) B n A M"
    let ?A = "\<lambda>a. if unat page \<le> unat a \<and> unat a < unat page + length (replicate (n - unat page) (0 :: u8))
        then map_option (\<lambda>(fl, x). (fl, replicate (n - unat page) 0 ! (unat a - unat page))) (A a) else A a"
    have A: "?A = (\<lambda>a. if unat page \<le> unat a \<and> unat a < n then Some (LOAD_FLAGS, 0) else B a)"
      using m assms by (fastforce simp: mapped_upto_def fun_eq_iff)
    have "pages_of A = pages_of ?A" by (rule pages_of_cong) simp
    then show "filled (unat page) n B (\<lambda>_. (LOAD_FLAGS, 0)) ?A M" using m A by (auto simp: filled_def mapped_upto_def)
  qed
qed

lemma copy_triple:
  assumes "first \<le> unat addr" "unat addr + length contents \<le> n" "first < n" "n \<le> 2 ^ 64"
  shows "triple s0 (filled first n B (\<lambda>_. (LOAD_FLAGS, 0))) (on_space (write_at env addr contents))
    (filled first n B (\<lambda>a. (LOAD_FLAGS,
       if unat addr \<le> unat a \<and> unat a < unat addr + length contents then contents ! (unat a - unat addr) else 0))) N"
proof (rule triple_know)
  show "n \<le> unat USER_SPACE_END" if "filled first n B g A M" for g A M
    using that assms(3,4) by (intro range_user [of first n "\<lambda>a. B a = None"]) (auto simp: filled_def)
next
  assume lim: "n \<le> unat USER_SPACE_END"
  show "triple s0 (filled first n B (\<lambda>_. (LOAD_FLAGS, 0))) (on_space (write_at env addr contents))
    (filled first n B (\<lambda>a. (LOAD_FLAGS,
       if unat addr \<le> unat a \<and> unat a < unat addr + length contents then contents ! (unat a - unat addr) else 0))) N"
  proof (rule write_triple)
    show "unat addr + length contents \<le> unat USER_SPACE_END" using assms(2) lim by simp
    fix A :: amap and M assume m: "filled first n B (\<lambda>_. (LOAD_FLAGS, 0)) A M"
    let ?A = "\<lambda>a. if unat addr \<le> unat a \<and> unat a < unat addr + length contents
        then map_option (\<lambda>(fl, x). (fl, contents ! (unat a - unat addr))) (A a) else A a"
    have "pages_of A = pages_of ?A" by (rule pages_of_cong) simp
    then show "filled first n B (\<lambda>a. (LOAD_FLAGS,
       if unat addr \<le> unat a \<and> unat a < unat addr + length contents then contents ! (unat a - unat addr) else 0)) ?A M"
      using m assms(1,2) by (auto simp: filled_def fun_eq_iff)
  qed
qed

lemma protect_pages_triple:
  assumes "page_of page = page" "page_of lst = lst" "page \<le> lst" "flags_ok fl" "contains_flags fl PTE_PRESENT"
  shows "triple s0 (filled (unat page) (unat lst + 4096) B (\<lambda>a. (LOAD_FLAGS, g a)))
    (for_pages env (\<lambda>page. on_space (protect_page env page fl)) page lst)
    (filled (unat page) (unat lst + 4096) B (\<lambda>a. (fl, g a))) N"
proof -
  define J where "J n = filled (unat page) (unat lst + 4096) B (\<lambda>a. (if unat a < n then fl else LOAD_FLAGS, g a))" for n
  have body: "holds (with_map env pt_inv s0 (J (unat p))) (on_space (protect_page env p fl))
      (\<lambda>_ s. is_user_address p \<and> with_map env pt_inv s0 (J (unat p + 4096)) s) (\<lambda>_. with_failure env pt_inv s0) N"
    if p: "page_of p = p" "page \<le> p" "p \<le> lst" for p
    unfolding with_map_and [symmetric]
  proof (rule protect_triple [OF p(1) assms(4,5)])
    fix A :: amap and M assume J: "J (unat p) A M"
    note rng = page_range [OF p(1)]
    have le: "unat page \<le> unat p" "unat p \<le> unat lst" using p(2,3) by (simp_all add: word_le_nat_alt)
    let ?A = "\<lambda>a. if page_of a = p then map_option (\<lambda>(_, b). (fl, b)) (A a) else A a"
    have "pages_of A = pages_of ?A" by (rule pages_of_cong) simp
    moreover have "?A = (\<lambda>a. if unat page \<le> unat a \<and> unat a < unat lst + 4096
        then Some (if unat a < unat p + 4096 then fl else LOAD_FLAGS, g a) else B a)"
      using J le by (auto simp: J_def filled_def rng fun_eq_iff)
    ultimately show "is_user_address p \<and> J (unat p + 4096) ?A M"
      using J le by (simp add: J_def filled_def)
  qed
  have "holds (with_map env pt_inv s0 (J (unat page))) (for_pages env (\<lambda>page. on_space (protect_page env page fl)) page lst)
    (\<lambda>_. with_map env pt_inv s0 (J (unat lst + 4096))) (\<lambda>_. with_failure env pt_inv s0) N"
    by (rule holds_for_pages [OF assms(1-3)]) (rule body)
  moreover have "J (unat page) = filled (unat page) (unat lst + 4096) B (\<lambda>a. (LOAD_FLAGS, g a))"
    "J (unat lst + 4096) = filled (unat page) (unat lst + 4096) B (\<lambda>a. (fl, g a))"
    by (auto simp: J_def filled_def fun_eq_iff)
  ultimately show ?thesis by simp
qed

end

section \<open>One segment\<close>

definition seg_loaded :: "segment \<Rightarrow> bool" where
  "seg_loaded sg \<longleftrightarrow> sg_type sg = PT_LOAD \<and> 0 < sg_memsz sg"

text \<open>What a segment that was loaded satisfies.\<close>

definition seg_valid :: "paging \<Rightarrow> bytes \<Rightarrow> segment \<Rightarrow> bool" where
  "seg_valid env data sg \<longleftrightarrow>
     is_user_address (sg_vaddr sg) \<and> sg_filesz sg \<le> sg_memsz sg \<and> sg_offset sg + sg_filesz sg \<le> length data \<and>
     unat (sg_vaddr sg) + sg_memsz sg < 2 ^ 64 \<and> (\<exists>fl. segment_flags (sg_flags sg) (pg_nx env) = Ok fl)"

text \<open>The map \<open>B\<close> with the segment added.\<close>

definition with_segment :: "paging \<Rightarrow> bytes \<Rightarrow> segment \<Rightarrow> amap \<Rightarrow> amap \<Rightarrow> u64 set \<Rightarrow> bool" where
  "with_segment env data sg B A M \<longleftrightarrow>
     (seg_loaded sg \<longrightarrow> seg_valid env data sg) \<and>
     (\<forall>a. seg_covers sg a \<longrightarrow> is_user_address a \<and> B a = None) \<and>
     A = (\<lambda>a. if seg_covers sg a then seg_cell env data sg a else B a) \<and> M = pages_of A"

lemma seg_covers_loaded: "seg_covers sg a \<longleftrightarrow> seg_loaded sg \<and> seg_first sg \<le> unat a \<and> unat a < seg_limit sg"
  by (simp add: seg_covers_def seg_loaded_def)

lemma with_segment_skip: "\<not> seg_loaded sg \<Longrightarrow> M = pages_of B \<Longrightarrow> with_segment env data sg B B M"
  by (simp add: with_segment_def seg_covers_loaded)

lemma holds_pure_cases:
  "(\<And>a. x = Ok a \<Longrightarrow> holds P (f a) Q E N) \<Longrightarrow> (\<And>e. x = Err e \<Longrightarrow> holds P (fail_with e) Q E N) \<Longrightarrow>
   (x = Panic \<Longrightarrow> N) \<Longrightarrow> holds P (bind_step (pure_step x) f) Q E N"
  by (cases x) (simp_all add: holds_crash)

context page_mapper
begin

lemma pages_triple:
  assumes sg: "seg_loaded sg" "seg_valid env data sg" "segment_flags (sg_flags sg) (pg_nx env) = Ok fl"
    and first: "first = page_of (sg_vaddr sg)" and lst: "lst = page_of (of_nat (unat (sg_vaddr sg) + sg_memsz sg) - 1)"
    and contents: "contents = take (sg_filesz sg) (drop (sg_offset sg) data)"
  shows "triple s0 (\<lambda>A M. A = B \<and> M = pages_of B)
    (bind_step (for_pages env (\<lambda>page. bind_step (claim_page i page) (\<lambda>_. on_space (map_page env page LOAD_FLAGS)))
        first lst) (\<lambda>_.
      bind_step (if unat lst + 4096 \<ge> usize_lim \<or> unat lst + 4096 < unat first then crash
         else on_space (zero_at env first (unat lst + 4096 - unat first))) (\<lambda>_.
      bind_step (on_space (write_at env (sg_vaddr sg) contents)) (\<lambda>_.
      for_pages env (\<lambda>page. on_space (protect_page env page fl)) first lst))))
    (with_segment env data sg B) N"
proof -
  let ?n = "unat lst + 4096"
  have end_bound: "unat (sg_vaddr sg) + sg_memsz sg < 2 ^ 64" and pos: "0 < sg_memsz sg"
    using sg(1,2) by (simp_all add: seg_valid_def seg_loaded_def)
  have e: "unat (of_nat (unat (sg_vaddr sg) + sg_memsz sg) - 1 :: u64) = unat (sg_vaddr sg) + sg_memsz sg - 1"
  proof -
    have "(of_nat (unat (sg_vaddr sg) + sg_memsz sg) - 1 :: u64) = of_nat (unat (sg_vaddr sg) + sg_memsz sg - 1)"
      using pos by (simp add: of_nat_diff)
    moreover have "unat (sg_vaddr sg) + sg_memsz sg - 1 < 2 ^ 64" using end_bound by simp
    ultimately show ?thesis by (simp add: unat_of_nat)
  qed
  have pg: "page_of first = first" "page_of lst = lst" by (simp_all add: first lst)
  have lim: "unat first = seg_first sg" "?n = seg_limit sg"
    by (simp_all only: first lst unat_page_of seg_first_def seg_limit_def e)
  have le: "first \<le> lst"
    unfolding first lst by (rule page_of_mono) (unfold word_le_nat_alt e, use pos in simp)
  have n: "unat first < ?n" using le by (simp add: word_le_nat_alt)
  have n64: "?n \<le> 2 ^ 64" using unat_page_limit by (simp add: lst)
  have flen: "length contents = sg_filesz sg" using sg(2) by (auto simp: contents seg_valid_def)
  have inside: "unat first \<le> unat (sg_vaddr sg)" "unat (sg_vaddr sg) + length contents \<le> ?n"
  proof -
    show "unat first \<le> unat (sg_vaddr sg)" by (simp add: first unat_page_of)
    have "unat (sg_vaddr sg) + sg_memsz sg - 1 < ?n"
      unfolding lim seg_limit_def using div_mult_mod_eq [of "unat (sg_vaddr sg) + sg_memsz sg - 1" 4096]
        mod_less_divisor [of 4096 "unat (sg_vaddr sg) + sg_memsz sg - 1"] by linarith
    moreover have "sg_filesz sg \<le> sg_memsz sg" using sg(2) by (simp add: seg_valid_def)
    ultimately show "unat (sg_vaddr sg) + length contents \<le> ?n" unfolding flen using pos by linarith
  qed
  note fl = segment_flags_ok [OF sg(3)]
  have zero: "triple s0 (mapped_upto (unat first) B ?n)
      (if ?n \<ge> usize_lim \<or> ?n < unat first then crash else on_space (zero_at env first (?n - unat first)))
      (filled (unat first) ?n B (\<lambda>_. (LOAD_FLAGS, 0))) N"
  proof (rule triple_know)
    show "?n \<le> unat USER_SPACE_END" if "mapped_upto (unat first) B ?n A M" for A M
      using that n n64 by (intro range_user [of "unat first" ?n "\<lambda>a. B a = None"]) (auto simp: mapped_upto_def)
  next
    assume u: "?n \<le> unat USER_SPACE_END"
    then have c: "\<not> (?n \<ge> usize_lim \<or> ?n < unat first)" using n by (simp add: USER_SPACE_END_def usize_lim_def)
    show "triple s0 (mapped_upto (unat first) B ?n)
      (if ?n \<ge> usize_lim \<or> ?n < unat first then crash else on_space (zero_at env first (?n - unat first)))
      (filled (unat first) ?n B (\<lambda>_. (LOAD_FLAGS, 0))) N"
      unfolding if_not_P [OF c] by (rule zero_pages_triple [OF n n64])
  qed
  let ?g = "\<lambda>a. if unat (sg_vaddr sg) \<le> unat a \<and> unat a < unat (sg_vaddr sg) + length contents
     then contents ! (unat a - unat (sg_vaddr sg)) else 0"
  have nth: "contents ! k = data ! (sg_offset sg + k)" if "k < sg_filesz sg" for k
    using sg(2) that by (auto simp: contents seg_valid_def)
  have g: "?g a = seg_byte data sg a" for a
  proof (cases "unat (sg_vaddr sg) \<le> unat a \<and> unat a < unat (sg_vaddr sg) + sg_filesz sg")
    case True
    then have "unat a - unat (sg_vaddr sg) < sg_filesz sg" by linarith
    from nth [OF this] True show ?thesis by (simp only: flen seg_byte_def if_True)
  next
    case False
    then show ?thesis by (simp only: flen seg_byte_def if_False)
  qed
  have final: "with_segment env data sg B A M" if "filled (unat first) ?n B (\<lambda>a. (fl, ?g a)) A M" for A M
    using that sg by (auto simp: filled_def with_segment_def seg_covers_loaded lim g seg_cell_def fun_eq_iff)
  have "triple s0 (\<lambda>A M. A = B \<and> M = pages_of B)
    (bind_step (for_pages env (\<lambda>page. bind_step (claim_page i page) (\<lambda>_. on_space (map_page env page LOAD_FLAGS)))
        first lst) (\<lambda>_.
      bind_step (if ?n \<ge> usize_lim \<or> ?n < unat first then crash
         else on_space (zero_at env first (?n - unat first))) (\<lambda>_.
      bind_step (on_space (write_at env (sg_vaddr sg) contents)) (\<lambda>_.
      for_pages env (\<lambda>page. on_space (protect_page env page fl)) first lst))))
    (filled (unat first) ?n B (\<lambda>a. (fl, ?g a))) N"
    by (intro holds_bind [OF map_pages_triple [OF pg le]] holds_bind [OF zero]
        holds_bind [OF copy_triple [OF inside n n64]] protect_pages_triple [OF pg le fl(1,2)])
  then show ?thesis by (rule holds_conseq) (auto simp: with_map_def dest: final)
qed

lemma segment_reads:
  assumes h: "parse_header data = Ok h" and i: "i < eh_phnum h"
  defines "at \<equiv> eh_phoff h + i * eh_phentsize h"
  shows "read_u32 data at = Ok (sg_type (segment_at data h i))"
    "read_u32 data (at + 4) = Ok (sg_flags (segment_at data h i))"
    "\<exists>x. read_u64 data (at + 8) = Ok x \<and> unat x = sg_offset (segment_at data h i)"
    "read_u64 data (at + 16) = Ok (sg_vaddr (segment_at data h i))"
    "\<exists>x. read_u64 data (at + 32) = Ok x \<and> unat x = sg_filesz (segment_at data h i)"
    "\<exists>x. read_u64 data (at + 40) = Ok x \<and> unat x = sg_memsz (segment_at data h i)"
proof -
  have "Suc i * eh_phentsize h \<le> eh_phnum h * eh_phentsize h" using i by (intro mult_le_mono1) simp
  then have l: "at + 56 \<le> length data" using parse_header_ok(2,3) [OF h] by (simp add: at_def)
  show "read_u32 data at = Ok (sg_type (segment_at data h i))"
    "read_u32 data (at + 4) = Ok (sg_flags (segment_at data h i))"
    "\<exists>x. read_u64 data (at + 8) = Ok x \<and> unat x = sg_offset (segment_at data h i)"
    "read_u64 data (at + 16) = Ok (sg_vaddr (segment_at data h i))"
    "\<exists>x. read_u64 data (at + 32) = Ok x \<and> unat x = sg_filesz (segment_at data h i)"
    "\<exists>x. read_u64 data (at + 40) = Ok x \<and> unat x = sg_memsz (segment_at data h i)"
    using l by (simp_all add: read_ok segment_at_def Let_def flip: at_def)
qed

lemma load_segment_triple:
  assumes h: "parse_header data = Ok h" and i: "i < eh_phnum h"
  shows "triple s0 (\<lambda>A M. A = B \<and> M = pages_of B) (load_segment env data h i)
    (with_segment env data (segment_at data h i) B) (load_hazard env data h)"
proof -
  define sg where "sg = segment_at data h i"
  define at where "at = eh_phoff h + i * eh_phentsize h"
  note r = segment_reads [OF h i, folded at_def sg_def]
  obtain off where off: "(read_u64 data (at + 8) :: (load_error, u64) outcome) = Ok off" "unat off = sg_offset sg" using r(3) by blast
  obtain fsz where fsz: "(read_u64 data (at + 32) :: (load_error, u64) outcome) = Ok fsz" "unat fsz = sg_filesz sg" using r(5) by blast
  obtain msz where msz: "(read_u64 data (at + 40) :: (load_error, u64) outcome) = Ok msz" "unat msz = sg_memsz sg" using r(6) by blast
  note reads = r(1,2,4) off(1) fsz(1) msz(1)
  have skip: "triple s0 (\<lambda>A M. A = B \<and> M = pages_of B) (ret ()) (with_segment env data sg B) N" if "\<not> seg_loaded sg" for N
    using that by (intro holds_ret) (auto simp: with_map_def intro: with_segment_skip)
  have ms: "msz = 0 \<longleftrightarrow> sg_memsz sg = 0" using msz(2) by (metis unat_0 unat_eq_0)
  show ?thesis
    unfolding load_segment_def Let_def sg_def [symmetric] at_def [symmetric] reads bind_pure(1) off(2) fsz(2) msz(2)
  proof (rule holds_if)
    assume "sg_type sg \<noteq> PT_LOAD"
    then show "triple s0 (\<lambda>A M. A = B \<and> M = pages_of B) (ret ()) (with_segment env data sg B) (load_hazard env data h)"
      by (intro skip) (simp add: seg_loaded_def)
  next
    assume ty: "\<not> sg_type sg \<noteq> PT_LOAD"
    let ?ok = "(\<lambda>A M. A = B \<and> M = pages_of B) :: amap \<Rightarrow> u64 set \<Rightarrow> bool"
    have fo: "ok_or (checked_add a b) e = (if a + b < usize_lim then Ok (a + b) else Err e)" for a b :: nat and e :: load_error
      by (simp add: checked_add_def)
    show "triple s0 ?ok
      (bind_step (map_err (\<lambda>reason. BadSegment i (sg_vaddr sg) reason) (pure_step (segment_flags (sg_flags sg) (pg_nx env))))
        (\<lambda>final_flags.
      if \<not> is_user_address (sg_vaddr sg) then fail_with (BadSegment i (sg_vaddr sg) ''load address is outside user space'')
      else if sg_filesz sg > sg_memsz sg then fail_with (BadSegment i (sg_vaddr sg) ''file size exceeds memory size'')
      else
      bind_step (pure_step (ok_or (checked_add (sg_offset sg) (sg_filesz sg)) (BadSegment i (sg_vaddr sg) ''file offset + size overflows'')))
        (\<lambda>file_end.
      if file_end > length data then fail_with (BadSegment i (sg_vaddr sg) ''segment extends past the end of the image'')
      else
      bind_step (pure_step (ok_or (checked_add (unat (sg_vaddr sg)) (sg_memsz sg)) (BadSegment i (sg_vaddr sg) ''vaddr + memsz overflows'')))
        (\<lambda>segment_end.
      if msz = 0 then ret ()
      else
      bind_step (page_containing env (sg_vaddr sg)) (\<lambda>start_page.
      bind_step (page_containing env (of_nat segment_end - 1)) (\<lambda>end_page.
      bind_step (for_pages env (\<lambda>page. bind_step (claim_page i page) (\<lambda>_. on_space (map_page env page LOAD_FLAGS)))
        start_page end_page) (\<lambda>_.
      bind_step (if unat end_page + 4096 \<ge> usize_lim \<or> unat end_page + 4096 < unat start_page then crash
         else on_space (zero_at env start_page (unat end_page + 4096 - unat start_page))) (\<lambda>_.
      bind_step (pure_step (slice data (sg_offset sg) file_end)) (\<lambda>contents.
      bind_step (on_space (write_at env (sg_vaddr sg) contents)) (\<lambda>_.
      for_pages env (\<lambda>page. on_space (protect_page env page final_flags)) start_page end_page))))))))))
      (with_segment env data sg B) (load_hazard env data h)"
    proof (cases "segment_flags (sg_flags sg) (pg_nx env)")
      case (Err e)
      then show ?thesis by (simp add: fail_triple)
    next
      case Panic
      then show ?thesis by (simp add: segment_flags_def Let_def split: if_splits)
    next
      case (Ok fl)
      consider "\<not> is_user_address (sg_vaddr sg)" | "is_user_address (sg_vaddr sg)" "sg_memsz sg < sg_filesz sg"
        | "is_user_address (sg_vaddr sg)" "sg_filesz sg \<le> sg_memsz sg" "\<not> sg_offset sg + sg_filesz sg < usize_lim"
        | "is_user_address (sg_vaddr sg)" "sg_filesz sg \<le> sg_memsz sg" "sg_offset sg + sg_filesz sg < usize_lim"
          "length data < sg_offset sg + sg_filesz sg"
        | "is_user_address (sg_vaddr sg)" "sg_filesz sg \<le> sg_memsz sg" "sg_offset sg + sg_filesz sg < usize_lim"
          "sg_offset sg + sg_filesz sg \<le> length data" "\<not> unat (sg_vaddr sg) + sg_memsz sg < usize_lim"
        | "is_user_address (sg_vaddr sg)" "sg_filesz sg \<le> sg_memsz sg" "sg_offset sg + sg_filesz sg < usize_lim"
          "sg_offset sg + sg_filesz sg \<le> length data" "unat (sg_vaddr sg) + sg_memsz sg < usize_lim"
        by linarith
      then show ?thesis
      proof cases
        case 6
        have nofail: "\<not> \<not> is_user_address (sg_vaddr sg)" "\<not> sg_filesz sg > sg_memsz sg"
          "\<not> sg_offset sg + sg_filesz sg > length data" using 6 by simp_all
        show ?thesis
          unfolding Ok fo bind_pure if_not_P [OF nofail(1)] if_not_P [OF nofail(2)] if_P [OF 6(3)] if_not_P [OF nofail(3)]
            if_P [OF 6(5)]
        proof (rule holds_if)
          assume "msz = 0"
          then show "triple s0 ?ok (ret ()) (with_segment env data sg B) (load_hazard env data h)"
            by (intro skip) (simp add: ms seg_loaded_def)
        next
          assume "msz \<noteq> 0"
          then have l: "seg_loaded sg" using ty ms by (simp add: seg_loaded_def)
          have v: "seg_valid env data sg" using 6 Ok by (simp add: seg_valid_def usize_lim_def)
          have sl: "slice data (sg_offset sg) (sg_offset sg + sg_filesz sg) = Ok (take (sg_filesz sg) (drop (sg_offset sg) data))"
            using 6(4) by (simp add: slice_def)
          let ?e = "of_nat (unat (sg_vaddr sg) + sg_memsz sg) - 1 :: u64"
          have pc: "page_containing env (sg_vaddr sg) = pure_step (Ok (page_of (sg_vaddr sg)))"
            using user_va [OF 6(1)] by (simp add: page_containing_def)
          have hz: "pg_va_ok env ?e \<or> load_hazard env data h"
            using i ty unfolding load_hazard_def sg_def by blast
          show "triple s0 ?ok
           (bind_step (page_containing env (sg_vaddr sg)) (\<lambda>start_page.
            bind_step (page_containing env ?e) (\<lambda>end_page.
            bind_step (for_pages env (\<lambda>page. bind_step (claim_page i page) (\<lambda>_. on_space (map_page env page LOAD_FLAGS)))
              start_page end_page) (\<lambda>_.
            bind_step (if unat end_page + 4096 \<ge> usize_lim \<or> unat end_page + 4096 < unat start_page then crash
               else on_space (zero_at env start_page (unat end_page + 4096 - unat start_page))) (\<lambda>_.
            bind_step (pure_step (slice data (sg_offset sg) (sg_offset sg + sg_filesz sg))) (\<lambda>contents.
            bind_step (on_space (write_at env (sg_vaddr sg) contents)) (\<lambda>_.
            for_pages env (\<lambda>page. on_space (protect_page env page fl)) start_page end_page)))))))
            (with_segment env data sg B) (load_hazard env data h)"
          proof (cases "pg_va_ok env ?e")
            case True
            then have pe: "page_containing env ?e = pure_step (Ok (page_of ?e))" by (simp add: page_containing_def)
            show ?thesis unfolding pc pe sl bind_pure by (rule pages_triple [OF l v Ok refl refl refl])
          next
            case False
            then have pe: "page_containing env ?e = crash" by (simp add: page_containing_def fun_eq_iff crash_def pure_step_def)
            show ?thesis unfolding pc pe bind_pure by (rule holds_crash) (use hz False in blast)
          qed
        qed
      next
        case 1 then show ?thesis by (simp add: Ok fo fail_triple)
      next
        case 2 then show ?thesis by (simp add: Ok fo fail_triple)
      next
        case 3 then show ?thesis by (simp add: Ok fo fail_triple)
      next
        case 4 then show ?thesis by (simp add: Ok fo fail_triple)
      next
        case 5 then show ?thesis by (simp add: Ok fo fail_triple)
      qed
    qed
  qed
qed

end

section \<open>The image\<close>

text \<open>The segments that have been loaded, as the map they make.\<close>

definition segments_loaded :: "paging \<Rightarrow> bytes \<Rightarrow> elf_header \<Rightarrow> nat list \<Rightarrow> amap \<Rightarrow> bool" where
  "segments_loaded env data h ys A \<longleftrightarrow>
     (\<forall>i\<in>set ys. seg_loaded (segment_at data h i) \<longrightarrow> seg_valid env data (segment_at data h i)) \<and>
     (\<forall>i\<in>set ys. \<forall>a. seg_covers (segment_at data h i) a \<longrightarrow>
        is_user_address a \<and> A a = seg_cell env data (segment_at data h i) a) \<and>
     (\<forall>a. A a \<noteq> None \<longrightarrow> (\<exists>i\<in>set ys. seg_covers (segment_at data h i) a)) \<and>
     (\<forall>i\<in>set ys. \<forall>j\<in>set ys. \<forall>a. seg_covers (segment_at data h i) a \<longrightarrow> seg_covers (segment_at data h j) a \<longrightarrow> i = j)"

lemma seg_cell_some: "seg_valid env data sg \<Longrightarrow> seg_cell env data sg a \<noteq> None"
  by (auto simp: seg_valid_def seg_cell_def)

lemma segments_loadedD:
  assumes "segments_loaded env data h ys A" "i \<in> set ys"
  shows "seg_loaded (segment_at data h i) \<Longrightarrow> seg_valid env data (segment_at data h i)"
    "seg_covers (segment_at data h i) a \<Longrightarrow> is_user_address a"
    "seg_covers (segment_at data h i) a \<Longrightarrow> A a = seg_cell env data (segment_at data h i) a"
    "j \<in> set ys \<Longrightarrow> seg_covers (segment_at data h i) a \<Longrightarrow> seg_covers (segment_at data h j) a \<Longrightarrow> i = j"
  using assms unfolding segments_loaded_def by blast+

lemma segments_loaded_step:
  assumes "segments_loaded env data h ys B" "with_segment env data (segment_at data h x) B A M"
  shows "segments_loaded env data h (ys @ [x]) A"
proof -
  note D = segments_loadedD [OF assms(1)]
  have apart: "\<not> seg_covers (segment_at data h x) a" if i: "i \<in> set ys" "seg_covers (segment_at data h i) a" for i a
  proof
    assume "seg_covers (segment_at data h x) a"
    then have "B a = None" using assms(2) by (simp add: with_segment_def)
    moreover have "seg_valid env data (segment_at data h i)" using D(1) [OF i(1)] i(2) by (simp add: seg_covers_loaded)
    ultimately show False using D(3) [OF i] seg_cell_some by metis
  qed
  have old: "A a = B a" if "\<not> seg_covers (segment_at data h x) a" for a using assms(2) that by (simp add: with_segment_def)
  have new: "is_user_address a \<and> A a = seg_cell env data (segment_at data h x) a" if "seg_covers (segment_at data h x) a" for a
    using assms(2) that by (simp add: with_segment_def)
  have valid: "seg_loaded (segment_at data h x) \<longrightarrow> seg_valid env data (segment_at data h x)"
    using assms(2) by (simp add: with_segment_def)
  show ?thesis
    unfolding segments_loaded_def
  proof (intro conjI ballI allI impI)
    fix i assume i: "i \<in> set (ys @ [x])"
    have cs: "i \<in> set ys \<or> i = x" using i by auto
    show "seg_valid env data (segment_at data h i)" if "seg_loaded (segment_at data h i)"
      using cs that valid D(1) by blast
    fix a assume c: "seg_covers (segment_at data h i) a"
    show "is_user_address a" using cs c new D(2) by blast
    show "A a = seg_cell env data (segment_at data h i) a"
    proof (cases "i = x")
      case True
      then show ?thesis using new c by blast
    next
      case False
      then have "i \<in> set ys" using cs by blast
      from D(3) [OF this c] old [OF apart [OF this c]] show ?thesis by simp
    qed
    fix j assume j: "j \<in> set (ys @ [x])" "seg_covers (segment_at data h j) a"
    have cj: "j \<in> set ys \<or> j = x" using j(1) by auto
    show "i = j" using cs cj c j(2) apart D(4) by blast
  next
    fix a assume "A a \<noteq> None"
    then show "\<exists>i\<in>set (ys @ [x]). seg_covers (segment_at data h i) a"
      using old assms(1) by (cases "seg_covers (segment_at data h x) a") (auto simp: segments_loaded_def)
  qed
qed

definition stack_address :: "u64 \<Rightarrow> bool" where
  "stack_address a \<longleftrightarrow> USER_STACK_BOTTOM \<le> a \<and> a < USER_STACK_TOP"

text \<open>The memory of a freshly loaded program.\<close>

definition image_cell :: "paging \<Rightarrow> bytes \<Rightarrow> elf_header \<Rightarrow> u64 \<Rightarrow> (u64 \<times> u8) option" where
  "image_cell env data h a =
     (if stack_address a then Some (stack_flags env, 0)
      else case find (\<lambda>i. seg_covers (segment_at data h i) a) [0..<eh_phnum h] of
             None \<Rightarrow> None
           | Some i \<Rightarrow> seg_cell env data (segment_at data h i) a)"

text \<open>What a program file has to satisfy: its segments are valid, apart from each other and from the stack.\<close>

definition image_valid :: "paging \<Rightarrow> bytes \<Rightarrow> elf_header \<Rightarrow> bool" where
  "image_valid env data h \<longleftrightarrow>
     (\<forall>i<eh_phnum h. seg_loaded (segment_at data h i) \<longrightarrow> seg_valid env data (segment_at data h i)) \<and>
     (\<forall>i<eh_phnum h. \<forall>a. seg_covers (segment_at data h i) a \<longrightarrow> is_user_address a \<and> \<not> stack_address a) \<and>
     (\<forall>i<eh_phnum h. \<forall>j<eh_phnum h. \<forall>a. seg_covers (segment_at data h i) a \<longrightarrow> seg_covers (segment_at data h j) a \<longrightarrow> i = j)"

lemma segments_image:
  assumes "segments_loaded env data h [0..<eh_phnum h] B" "\<And>a. stack_address a \<Longrightarrow> B a = None"
  shows "(if stack_address a then Some (stack_flags env, 0) else B a) = image_cell env data h a" "image_valid env data h"
proof -
  note D = segments_loadedD [OF assms(1)]
  have B: "B a = seg_cell env data (segment_at data h i) a" if "i < eh_phnum h" "seg_covers (segment_at data h i) a" for i a
    by (rule D(3)) (use that in simp_all)
  have N: "\<exists>i<eh_phnum h. seg_covers (segment_at data h i) a" if "B a \<noteq> None" for a
  proof -
    have "\<exists>i\<in>set [0..<eh_phnum h]. seg_covers (segment_at data h i) a"
      using assms(1) that unfolding segments_loaded_def by blast
    then show ?thesis by (metis atLeastLessThan_iff set_upt)
  qed
  show "(if stack_address a then Some (stack_flags env, 0) else B a) = image_cell env data h a"
  proof (cases "find (\<lambda>i. seg_covers (segment_at data h i) a) [0..<eh_phnum h]")
    case None
    then have "\<forall>i<eh_phnum h. \<not> seg_covers (segment_at data h i) a" by (simp add: find_None_iff)
    then have "B a = None" using N [of a] by blast
    then show ?thesis using None by (simp add: image_cell_def)
  next
    case (Some i)
    then have "i < eh_phnum h" "seg_covers (segment_at data h i) a" by (auto simp: find_Some_iff)
    from B [OF this] show ?thesis using Some by (simp add: image_cell_def)
  qed
  have away: "\<not> stack_address a" if "i < eh_phnum h" "seg_covers (segment_at data h i) a" for i a
  proof
    assume "stack_address a"
    then have "seg_cell env data (segment_at data h i) a = None" using assms(2) B [OF that] by simp
    moreover have "seg_valid env data (segment_at data h i)" using D(1) that by (simp add: seg_covers_loaded)
    ultimately show False using seg_cell_some by metis
  qed
  show "image_valid env data h"
    unfolding image_valid_def
  proof (intro conjI allI impI)
    fix i assume "i < eh_phnum h"
    then have i: "i \<in> set [0..<eh_phnum h]" by simp
    show "seg_valid env data (segment_at data h i)" if "seg_loaded (segment_at data h i)" by (rule D(1) [OF i that])
    fix a assume c: "seg_covers (segment_at data h i) a"
    show "is_user_address a" by (rule D(2) [OF i c])
    show "\<not> stack_address a" by (rule away) (use i c in simp_all)
    fix j assume "j < eh_phnum h" "seg_covers (segment_at data h j) a"
    then show "i = j" by (intro D(4) [OF i _ c]) simp_all
  qed
qed

text \<open>The stack, page by page.\<close>

definition stack_upto :: "paging \<Rightarrow> nat \<Rightarrow> amap \<Rightarrow> amap \<Rightarrow> bool" where
  "stack_upto env n B A \<longleftrightarrow>
     (\<forall>a. if unat USER_STACK_BOTTOM \<le> unat a \<and> unat a < unat USER_STACK_BOTTOM + n * 4096
          then B a = None \<and> (\<exists>b. A a = Some (stack_flags env, b)) else A a = B a)"

lemma stack_page:
  assumes "i < unat USER_STACK_PAGES"
  shows "unat (USER_STACK_BOTTOM + of_nat i * 4096) = unat USER_STACK_BOTTOM + i * 4096"
    "page_of (USER_STACK_BOTTOM + of_nat i * 4096) = USER_STACK_BOTTOM + of_nat i * 4096"
proof -
  have e: "USER_STACK_BOTTOM + of_nat i * 4096 = (of_nat (unat USER_STACK_BOTTOM + i * 4096) :: u64)" by simp
  show u: "unat (USER_STACK_BOTTOM + of_nat i * 4096) = unat USER_STACK_BOTTOM + i * 4096"
    unfolding e unat_of_nat using assms by (intro mod_less) (simp add: abi_defs)
  show "page_of (USER_STACK_BOTTOM + of_nat i * 4096) = USER_STACK_BOTTOM + of_nat i * 4096"
    by (rule word_unat_eq_iff [THEN iffD2]) (simp add: unat_page_of u, simp add: abi_defs)
qed

lemma stack_address_range:
  "stack_address a \<longleftrightarrow> unat USER_STACK_BOTTOM \<le> unat a \<and> unat a < unat USER_STACK_BOTTOM + unat USER_STACK_PAGES * 4096"
proof -
  have "unat USER_STACK_TOP = unat USER_STACK_BOTTOM + unat USER_STACK_PAGES * 4096" by (simp add: abi_defs)
  then show ?thesis unfolding stack_address_def word_le_nat_alt word_less_nat_alt by simp
qed

context page_mapper
begin

lemma stack_pages_triple:
  "triple s0 (\<lambda>A M. A = B)
     (for_each (\<lambda>i. bind_step (page_containing env (USER_STACK_BOTTOM + of_nat i * 4096))
        (\<lambda>page. on_space (map_page env page (stack_flags env)))) [0..<unat USER_STACK_PAGES])
     (\<lambda>A M. stack_upto env (unat USER_STACK_PAGES) B A) N"
proof -
  have "triple s0 (\<lambda>A M. stack_upto env (length ([] :: nat list)) B A)
     (for_each (\<lambda>i. bind_step (page_containing env (USER_STACK_BOTTOM + of_nat i * 4096))
        (\<lambda>page. on_space (map_page env page (stack_flags env)))) [0..<unat USER_STACK_PAGES])
     (\<lambda>A M. stack_upto env (length [0..<unat USER_STACK_PAGES]) B A) N"
  proof (rule holds_for_each)
    fix ys :: "nat list" and i zs assume l: "[0..<unat USER_STACK_PAGES] = ys @ i # zs"
    have i: "i = length ys" "i < unat USER_STACK_PAGES"
    proof -
      have "[0..<unat USER_STACK_PAGES] ! length ys = i" "length ys < length [0..<unat USER_STACK_PAGES]"
        unfolding l by simp_all
      then show "i = length ys" "i < unat USER_STACK_PAGES" by simp_all
    qed
    let ?page = "USER_STACK_BOTTOM + of_nat i * 4096 :: u64"
    note pg = stack_page [OF i(2)]
    have "unat ?page \<le> unat USER_SPACE_END" unfolding pg(1) using i(2) by (simp add: abi_defs USER_SPACE_END_def)
    then have va: "pg_va_ok env ?page" by (intro va_ok_upto) (simp add: word_le_nat_alt)
    have pc: "page_containing env ?page = pure_step (Ok ?page)" using va pg(2) by (simp add: page_containing_def)
    show "triple s0 (\<lambda>A M. stack_upto env (length ys) B A)
      (bind_step (page_containing env ?page) (\<lambda>page. on_space (map_page env page (stack_flags env))))
      (\<lambda>A M. stack_upto env (length (ys @ [i])) B A) N"
      unfolding pc bind_pure
    proof (rule map_triple [OF pg(2) stack_flags_ok(1,2)])
      fix A A' :: amap assume up: "stack_upto env (length ys) B A"
        and new: "\<And>a. page_of a = ?page \<Longrightarrow> A a = None \<and> (\<exists>b. A' a = Some (stack_flags env, b))"
        and old: "\<And>a. page_of a \<noteq> ?page \<Longrightarrow> A' a = A a"
      note rng = page_range [OF pg(2), unfolded pg(1)]
      show "stack_upto env (length (ys @ [i])) B A'"
        unfolding stack_upto_def
      proof
        fix a
        have s: "if unat USER_STACK_BOTTOM \<le> unat a \<and> unat a < unat USER_STACK_BOTTOM + i * 4096
          then B a = None \<and> (\<exists>b. A a = Some (stack_flags env, b)) else A a = B a"
          using up unfolding stack_upto_def i(1) by blast
        show "if unat USER_STACK_BOTTOM \<le> unat a \<and> unat a < unat USER_STACK_BOTTOM + length (ys @ [i]) * 4096
          then B a = None \<and> (\<exists>b. A' a = Some (stack_flags env, b)) else A' a = B a"
        proof (cases "page_of a = ?page")
          case True
          then have "\<not> unat a < unat USER_STACK_BOTTOM + i * 4096" "unat USER_STACK_BOTTOM \<le> unat a"
            "unat a < unat USER_STACK_BOTTOM + length (ys @ [i]) * 4096"
            using rng [of a] i(1) by simp_all
          then show ?thesis using s new [OF True] by simp
        next
          case False
          then have "unat a < unat USER_STACK_BOTTOM + length (ys @ [i]) * 4096 \<longleftrightarrow> unat a < unat USER_STACK_BOTTOM + i * 4096"
            using rng [of a] i(1) by auto
          then show ?thesis using s old [OF False] by simp
        qed
      qed
    qed
  qed
  then show ?thesis by (rule holds_conseq) (auto simp: with_map_def stack_upto_def)
qed

lemma map_stack_triple:
  "triple s0 (\<lambda>A M. A = B) (map_stack env)
     (\<lambda>A M. (\<forall>a. stack_address a \<longrightarrow> B a = None) \<and> A = (\<lambda>a. if stack_address a then Some (stack_flags env, 0) else B a)) N"
  unfolding map_stack_def zero_at_def
proof (rule holds_bind [OF stack_pages_triple], rule write_triple)
  let ?z = "replicate (unat (USER_STACK_PAGES * 4096)) (0 :: u8)"
  have len: "length ?z = unat USER_STACK_PAGES * 4096" by (simp add: abi_defs)
  show "unat USER_STACK_BOTTOM + length ?z \<le> unat USER_SPACE_END" unfolding len by (simp add: abi_defs USER_SPACE_END_def)
  fix A :: amap assume up: "stack_upto env (unat USER_STACK_PAGES) B A"
  have cs: "if stack_address a then B a = None \<and> (\<exists>b. A a = Some (stack_flags env, b)) else A a = B a" for a
    using up unfolding stack_upto_def stack_address_range by blast
  have z: "?z ! k = 0" if "k < unat USER_STACK_PAGES * 4096" for k using that len by (metis length_replicate nth_replicate)
  show "(\<forall>a. stack_address a \<longrightarrow> B a = None) \<and>
    (\<lambda>a. if unat USER_STACK_BOTTOM \<le> unat a \<and> unat a < unat USER_STACK_BOTTOM + length ?z
         then map_option (\<lambda>(fl, x). (fl, ?z ! (unat a - unat USER_STACK_BOTTOM))) (A a) else A a) =
    (\<lambda>a. if stack_address a then Some (stack_flags env, 0) else B a)"
    unfolding len
  proof (intro conjI allI impI ext)
    fix a
    show "B a = None" if "stack_address a" using cs [of a] that by simp
    show "(if unat USER_STACK_BOTTOM \<le> unat a \<and> unat a < unat USER_STACK_BOTTOM + unat USER_STACK_PAGES * 4096
         then map_option (\<lambda>(fl, x). (fl, ?z ! (unat a - unat USER_STACK_BOTTOM))) (A a) else A a) =
      (if stack_address a then Some (stack_flags env, 0) else B a)"
    proof (cases "stack_address a")
      case True
      then have r: "unat USER_STACK_BOTTOM \<le> unat a \<and> unat a < unat USER_STACK_BOTTOM + unat USER_STACK_PAGES * 4096"
        by (simp only: stack_address_range)
      then have "?z ! (unat a - unat USER_STACK_BOTTOM) = 0" by (intro z) linarith
      moreover obtain b where "A a = Some (stack_flags env, b)" using cs [of a] True by auto
      ultimately show ?thesis unfolding if_P [OF r] if_P [OF True] by simp
    next
      case False
      then show ?thesis using cs [of a] by (simp only: stack_address_range if_False)
    qed
  qed
qed

text \<open>A triple for every map the assertion allows.\<close>

lemma triple_cases:
  assumes "\<And>B. R B (pages_of B) \<Longrightarrow> triple s0 (\<lambda>A M. A = B \<and> M = pages_of B) m R' N" "\<And>A M. R A M \<Longrightarrow> M = pages_of A"
  shows "triple s0 R m R' N"
proof (rule holdsI)
  fix sm r sm' assume pre: "with_map env pt_inv s0 R sm" and step: "m sm = (r, sm')"
  obtain s M where sm: "sm = (s, M)" by (rule prod.exhaust)
  have R: "R (cells env s) M" "sound_since env pt_inv s0 s" using pre by (auto simp: sm with_map_def)
  have M: "M = pages_of (cells env s)" by (rule assms(2) [OF R(1)])
  have "with_map env pt_inv s0 (\<lambda>A M. A = cells env s \<and> M = pages_of (cells env s)) sm"
    using R(2) M by (simp add: sm with_map_def)
  from holdsD [OF assms(1) [OF R(1) [unfolded M]] this step]
  show "case r of Ok a \<Rightarrow> with_map env pt_inv s0 R' sm' | Err e \<Rightarrow> with_failure env pt_inv s0 sm' | Panic \<Rightarrow> N" .
qed

lemma load_contents_triple:
  assumes h: "parse_header data = Ok h"
  shows "triple s0 (\<lambda>A M. A = (\<lambda>_. None) \<and> M = {}) (load_contents env data h)
    (\<lambda>A M. A = image_cell env data h \<and> image_valid env data h) (load_hazard env data h)"
proof -
  let ?N = "load_hazard env data h"
  let ?I = "\<lambda>ys A M. segments_loaded env data h ys A \<and> M = pages_of A"
  have "triple s0 (?I []) (for_each (load_segment env data h) [0..<eh_phnum h]) (?I [0..<eh_phnum h]) ?N"
  proof (rule holds_for_each)
    fix ys i zs assume l: "[0..<eh_phnum h] = ys @ i # zs"
    have "i \<in> set [0..<eh_phnum h]" unfolding l by simp
    then have i: "i < eh_phnum h" by simp
    show "triple s0 (?I ys) (load_segment env data h i) (?I (ys @ [i])) ?N"
    proof (rule triple_cases)
      fix B assume "segments_loaded env data h ys B \<and> pages_of B = pages_of B"
      then have B: "segments_loaded env data h ys B" by simp
      show "triple s0 (\<lambda>A M. A = B \<and> M = pages_of B) (load_segment env data h i) (?I (ys @ [i])) ?N"
        using load_segment_triple [OF h i]
      proof (rule holds_conseq)
        fix s assume "with_map env pt_inv s0 (with_segment env data (segment_at data h i) B) s"
        then show "with_map env pt_inv s0 (?I (ys @ [i])) s"
          using segments_loaded_step [OF B] by (auto simp: with_map_def with_segment_def)
      qed
    qed simp
  qed
  then have loop: "triple s0 (\<lambda>A M. A = (\<lambda>_. None) \<and> M = {}) (for_each (load_segment env data h) [0..<eh_phnum h])
      (?I [0..<eh_phnum h]) ?N"
    by (rule holds_pre) (auto simp: with_map_def segments_loaded_def pages_of_def)
  show ?thesis
    unfolding load_contents_def
  proof (rule holds_bind [OF loop], rule triple_cases)
    fix B assume "segments_loaded env data h [0..<eh_phnum h] B \<and> pages_of B = pages_of B"
    then have B: "segments_loaded env data h [0..<eh_phnum h] B" by simp
    have "triple s0 (\<lambda>A M. A = B) (map_stack env) (\<lambda>A M. A = image_cell env data h \<and> image_valid env data h) ?N"
      using map_stack_triple
    proof (rule holds_conseq)
      fix s assume "with_map env pt_inv s0 (\<lambda>A M. (\<forall>a. stack_address a \<longrightarrow> B a = None) \<and>
          A = (\<lambda>a. if stack_address a then Some (stack_flags env, 0) else B a)) s"
      then show "with_map env pt_inv s0 (\<lambda>A M. A = image_cell env data h \<and> image_valid env data h) s"
        using segments_image [OF B] by (auto simp: with_map_def fun_eq_iff)
    qed
    then show "triple s0 (\<lambda>A M. A = B \<and> M = pages_of B) (map_stack env)
        (\<lambda>A M. A = image_cell env data h \<and> image_valid env data h) ?N"
      by (rule holds_pre) (auto simp: with_map_def)
  qed simp
qed

end

section \<open>The outcome of a load\<close>

definition kernel_half_present :: "vm \<Rightarrow> bool" where
  "kernel_half_present v \<longleftrightarrow> (\<exists>i\<in>set kernel_indices. contains_flags (pt_entry (vm_phys v) (vm_cr3 v) i) PTE_PRESENT)"

definition held :: "vm \<Rightarrow> u64 multiset" where
  "held v = mset (fw_held (vm_frames v))"

text \<open>Nothing that was in use before the load has changed.\<close>

definition rest_same :: "vm \<Rightarrow> vm \<Rightarrow> bool" where
  "rest_same v v' \<longleftrightarrow> vm_cr3 v' = vm_cr3 v \<and> vm_kernel_root v' = vm_kernel_root v \<and>
     (\<forall>f\<in>set (fw_held (vm_frames v)). vm_phys v' f = vm_phys v f)"

text \<open>The space \<open>sp\<close> is what the program file asks for.\<close>

definition loaded_from :: "paging \<Rightarrow> bytes \<Rightarrow> elf_header \<Rightarrow> vm \<Rightarrow> address_space \<Rightarrow> vm \<Rightarrow> bool" where
  "loaded_from env data h v sp v' \<longleftrightarrow>
     image_valid env data h \<and> (\<forall>a. cells env (v', sp) a = image_cell env data h a) \<and>
     (\<forall>i\<in>set kernel_indices. pt_entry (vm_phys v') (as_root sp) i = pt_entry (vm_phys v) (vm_cr3 v) i) \<and>
     held v' = held v + mset (space_frames sp)"

context page_mapper
begin

text \<open>A fresh space that has been worked on, and the same space given up.\<close>

lemma new_space_outcome:
  assumes fo: "frames_ok env (vm_frames v)" and new: "address_space_new env v = (Ok (Some sp), v0)"
    and ok: "space_ok env pt_inv T (v1, sp1)" and ext: "space_extends lost (v0, sp) (v1, sp1)"
  shows "rest_same v v1" "held v1 = held v + mset (space_frames sp1) + lost"
    "\<forall>i\<in>set kernel_indices. pt_entry (vm_phys v1) (as_root sp1) i = pt_entry (vm_phys v) (vm_cr3 v) i"
    "frames_ok env (vm_frames (address_space_drop sp1 v1))" "rest_same v (address_space_drop sp1 v1)"
    "held (address_space_drop sp1 v1) = held v + lost"
proof -
  note n = address_space_new_ok [OF fo new]
  have sp: "space_ok env pt_inv {as_root sp} (v0, sp)" "as_owned sp = []"
    "fw_held (vm_frames v0) = fw_held (vm_frames v) @ [as_root sp]"
    "\<And>i. i \<in> set kernel_indices \<Longrightarrow> pt_entry (vm_phys v0) (as_root sp) i = pt_entry (vm_phys v) (vm_cr3 v) i"
    "\<And>f. f \<noteq> as_root sp \<Longrightarrow> vm_phys v0 f = vm_phys v f"
    using n(1) by simp_all
  have fresh: "f \<noteq> as_root sp" if "f \<in> set (fw_held (vm_frames v))" for f
    using sp(1,3) that by (auto simp: space_ok_def dest!: frames_okD(1))
  have root: "as_root sp1 = as_root sp" using ext by (simp add: space_extends_def outside_same_def)
  show rest: "rest_same v v1"
    using ext sp(2,3) fresh sp(5) n(2) by (auto simp: space_extends_def outside_same_def rest_same_def space_frames_def)
  show held: "held v1 = held v + mset (space_frames sp1) + lost"
    using ext sp(2,3) by (auto simp: space_extends_def held_def space_frames_def root)
  show "\<forall>i\<in>set kernel_indices. pt_entry (vm_phys v1) (as_root sp1) i = pt_entry (vm_phys v) (vm_cr3 v) i"
    using ext sp(4) by (auto simp: space_extends_def outside_same_def root kernel_indices_def)
  note d = address_space_drop_ok [OF ok]
  show "frames_ok env (vm_frames (address_space_drop sp1 v1))" by (rule d(1))
  show "rest_same v (address_space_drop sp1 v1)" using rest by (simp add: rest_same_def address_space_drop_def)
  show "held (address_space_drop sp1 v1) = held v + lost"
    unfolding held_def d(2) held [unfolded held_def] by simp
qed

text \<open>A fresh space as the triples want it.\<close>

lemma new_space_start:
  assumes "frames_ok env (vm_frames v)" "address_space_new env v = (Ok (Some sp), v0)"
  shows "sound_since env pt_inv (v0, sp) (v0, sp)" "cells env (v0, sp) = (\<lambda>_. None)"
  using address_space_new_ok(1) [OF assms] by (auto simp: sound_since_def fun_eq_iff)

lemma load_image_ok:
  assumes fo: "frames_ok env (vm_frames v)" and step: "load_image env data name v = (r, v')"
  shows "case r of
      Ok (img, sp) \<Rightarrow> \<exists>h. parse_header data = Ok h \<and> loaded_from env data h v sp v' \<and> rest_same v v' \<and>
        (\<exists>T. space_ok env pt_inv T (v', sp)) \<and>
        img = \<lparr>li_name = name, li_entry = eh_entry h, li_stack_top = USER_STACK_TOP, li_root = as_root sp\<rparr>
    | Err e \<Rightarrow> frames_ok env (vm_frames v') \<and> rest_same v v' \<and> (\<exists>lost. held v' = held v + lost \<and> size lost \<le> 1)
    | Panic \<Rightarrow> \<not> kernel_half_present v \<or> (\<exists>h. parse_header data = Ok h \<and> load_hazard env data h)"
proof (cases "parse_header data")
  case (Err e)
  then show ?thesis using step fo by (auto simp: load_image_def rest_same_def intro: exI [of _ "{#}"])
next
  case Panic
  then show ?thesis using parse_header_total by blast
next
  case (Ok h)
  obtain r0 v0 where new: "address_space_new env v = (r0, v0)" by force
  note n = address_space_new_ok [OF fo new]
  show ?thesis
  proof (cases r0)
    case Panic
    then have "r = Panic" using step new Ok by (simp add: load_image_def)
    then show ?thesis using n(1) Panic by (simp add: kernel_half_present_def)
  next
    case (Err e)
    then show ?thesis using n(1) by simp
  next
    case r0: (Ok x)
    show ?thesis
    proof (cases x)
      case None
      then have "r = Err LoadOutOfMemory" "v' = v0" using step new Ok r0 by (simp_all add: load_image_def)
      then show ?thesis using n r0 None by (auto simp: rest_same_def held_def intro: exI [of _ "{#}"])
    next
      case (Some sp)
      obtain r1 v1 sp1 M where c: "load_contents env data h ((v0, sp), {}) = (r1, (v1, sp1), M)" by (metis surj_pair)
      have new': "address_space_new env v = (Ok (Some sp), v0)" using new r0 Some by simp
      have pre: "with_map env pt_inv (v0, sp) (\<lambda>A M. A = (\<lambda>_. None) \<and> M = {}) ((v0, sp), {})"
        using new_space_start [OF fo new'] by (simp add: with_map_def)
      note L = holdsD [OF load_contents_triple [OF Ok] pre c] and out = new_space_outcome [OF fo new']
      show ?thesis
      proof (cases r1)
        case Panic
        then have "r = Panic" using step new Ok r0 Some c by (simp add: load_image_def)
        then show ?thesis using L Panic Ok by simp
      next
        case (Err e)
        then have r: "r = Err e" "v' = address_space_drop sp1 v1" using step new Ok r0 Some c by (simp_all add: load_image_def)
        obtain T lost where f: "space_ok env pt_inv T (v1, sp1)" "space_extends lost (v0, sp) (v1, sp1)" "size lost \<le> 1"
          using L Err by (auto simp: with_failure_def failed_since_def)
        show ?thesis using out(4-6) [OF f(1,2)] f(3) r by auto
      next
        case (Ok u)
        have top: "USER_STACK_BOTTOM + USER_STACK_PAGES * 4096 = USER_STACK_TOP" by (simp add: abi_defs)
        have r: "r = Ok (\<lparr>li_name = name, li_entry = eh_entry h, li_stack_top = USER_STACK_TOP, li_root = as_root sp1\<rparr>, sp1)" "v' = v1"
          using step new \<open>parse_header data = Ok h\<close> r0 Some c Ok by (simp_all add: load_image_def root_frame_def top)
        obtain T where f: "space_ok env pt_inv T (v1, sp1)" "space_extends {#} (v0, sp) (v1, sp1)"
          "cells env (v1, sp1) = image_cell env data h" "image_valid env data h"
          using L Ok by (auto simp: with_map_def sound_since_def)
        have "loaded_from env data h v sp1 v1" using f(3,4) out(2,3) [OF f(1,2)] by (simp add: loaded_from_def)
        then show ?thesis using r f(1) out(1) [OF f(1,2)] \<open>parse_header data = Ok h\<close> by auto
      qed
    qed
  qed
qed

end

lemma image_flags:
  assumes "image_cell env data h a = Some (fl, b)"
  shows "flags_ok fl" "contains_flags fl PTE_PRESENT" "contains_flags fl PTE_USER"
    "pg_nx env \<Longrightarrow> contains_flags fl PTE_WRITABLE \<Longrightarrow> contains_flags fl PTE_NO_EXECUTE"
proof -
  consider "fl = stack_flags env" | p where "segment_flags p (pg_nx env) = Ok fl"
    using assms by (auto simp: image_cell_def seg_cell_def split: if_splits option.splits outcome.splits)
  then have "flags_ok fl \<and> contains_flags fl PTE_PRESENT \<and> contains_flags fl PTE_USER \<and>
    (pg_nx env \<longrightarrow> contains_flags fl PTE_WRITABLE \<longrightarrow> contains_flags fl PTE_NO_EXECUTE)"
  proof cases
    case 1
    then show ?thesis using stack_flags_ok [of env] by (simp add: contains_load_flags)
  next
    case 2
    from segment_flags_ok [OF 2] show ?thesis by blast
  qed
  then show "flags_ok fl" "contains_flags fl PTE_PRESENT" "contains_flags fl PTE_USER"
    "pg_nx env \<Longrightarrow> contains_flags fl PTE_WRITABLE \<Longrightarrow> contains_flags fl PTE_NO_EXECUTE" by simp_all
qed

text \<open>Ring 3 can fetch instructions from an address unless its page says otherwise.\<close>

definition fetchable :: "paging \<Rightarrow> phys \<Rightarrow> u64 \<Rightarrow> u64 \<Rightarrow> bool" where
  "fetchable env m root a \<longleftrightarrow>
     (case leaf env m root a of None \<Rightarrow> False | Some e \<Rightarrow> \<not> contains_flags e PTE_NO_EXECUTE)"

context page_mapper
begin

text \<open>What ring 3 may do at an address is what the flags of its cell say.\<close>

lemma space_permissions:
  assumes "space_ok env pt_inv T (v', sp)" "is_user_address a"
    and "\<And>fl b. cells env (v', sp) a = Some (fl, b) \<Longrightarrow> contains_flags fl PTE_PRESENT \<and> contains_flags fl PTE_USER"
  shows "page_is_accessible env (vm_phys v') (as_root sp) a w \<longleftrightarrow>
      (case cells env (v', sp) a of None \<Rightarrow> False | Some (fl, b) \<Rightarrow> w \<longrightarrow> contains_flags fl PTE_WRITABLE)"
    "fetchable env (vm_phys v') (as_root sp) a \<longleftrightarrow>
      (case cells env (v', sp) a of None \<Rightarrow> False | Some (fl, b) \<Rightarrow> \<not> contains_flags fl PTE_NO_EXECUTE)"
proof -
  have e: "cells env (v', sp) a =
      map_option (\<lambda>e. (entry_flags e, vm_phys v' (entry_addr e) (unat a mod 4096))) (leaf env (vm_phys v') (as_root sp) a)"
    using assms(2) by (simp add: cells_def cell_def)
  have flags: "contains_flags e PTE_PRESENT" "contains_flags e PTE_USER"
    if "leaf env (vm_phys v') (as_root sp) a = Some e" for e
    using assms(3) [of "entry_flags e"] e that by (simp_all add: contains_entry_flags)
  show "page_is_accessible env (vm_phys v') (as_root sp) a w \<longleftrightarrow>
      (case cells env (v', sp) a of None \<Rightarrow> False | Some (fl, b) \<Rightarrow> w \<longrightarrow> contains_flags fl PTE_WRITABLE)"
  proof (cases "leaf env (vm_phys v') (as_root sp) a")
    case None
    have "pt_inv (vm_phys v') (as_root sp) T" using assms(1) by (simp add: space_ok_def)
    from accessible_mapped [OF this assms(2)] None
    have "\<not> accessible_levels (vm_phys v') w (pg_indices env a) (as_root sp)" by blast
    then show ?thesis using None by (simp add: e page_is_accessible_def)
  next
    case (Some l)
    then have "upper_open env (vm_phys v') (as_root sp) a" using assms(1,2) by (auto simp: space_ok_def)
    from accessible_leaf [OF assms(2) Some this] flags [OF Some] Some show ?thesis
      by (simp add: e contains_entry_flags)
  qed
  show "fetchable env (vm_phys v') (as_root sp) a \<longleftrightarrow>
      (case cells env (v', sp) a of None \<Rightarrow> False | Some (fl, b) \<Rightarrow> \<not> contains_flags fl PTE_NO_EXECUTE)"
    by (cases "leaf env (vm_phys v') (as_root sp) a") (simp_all add: fetchable_def e contains_entry_flags)
qed

text \<open>The permissions of a loaded program are those its file asks for, and never write and execute.\<close>

lemma loaded_permissions:
  assumes "space_ok env pt_inv T (v', sp)" "loaded_from env data h v sp v'" "is_user_address a"
  shows "page_is_accessible env (vm_phys v') (as_root sp) a w \<longleftrightarrow>
      (case image_cell env data h a of None \<Rightarrow> False | Some (fl, b) \<Rightarrow> w \<longrightarrow> contains_flags fl PTE_WRITABLE)"
    "fetchable env (vm_phys v') (as_root sp) a \<longleftrightarrow>
      (case image_cell env data h a of None \<Rightarrow> False | Some (fl, b) \<Rightarrow> \<not> contains_flags fl PTE_NO_EXECUTE)"
proof -
  have c: "cells env (v', sp) a = image_cell env data h a" using assms(2) by (simp add: loaded_from_def)
  note p = space_permissions [OF assms(1,3), unfolded c, OF conjI [OF image_flags(2,3)]]
  show "page_is_accessible env (vm_phys v') (as_root sp) a w \<longleftrightarrow>
      (case image_cell env data h a of None \<Rightarrow> False | Some (fl, b) \<Rightarrow> w \<longrightarrow> contains_flags fl PTE_WRITABLE)"
    by (rule p(1))
  show "fetchable env (vm_phys v') (as_root sp) a \<longleftrightarrow>
      (case image_cell env data h a of None \<Rightarrow> False | Some (fl, b) \<Rightarrow> \<not> contains_flags fl PTE_NO_EXECUTE)"
    by (rule p(2))
qed

end

end
