(* ===== verification/PageTables.thy ===== *)
theory PageTables
  imports AddressSpaceProofs
begin

text \<open>
  The contract \<open>page_mapper\<close> is not empty: the four-level algorithm that the processor's manual
  suggests, a table created where an entry is missing, satisfies it. The tables below a root form
  a tree, described by a partial map from index paths to frames.
\<close>

unbundle bit_operations_syntax

section \<open>A four-level mapper\<close>

definition next_table ::
  "('s \<Rightarrow> u64 option \<times> 's) \<Rightarrow> u64 \<Rightarrow> nat \<Rightarrow> phys \<Rightarrow> 's \<Rightarrow> (bytes + u64) \<times> phys \<times> 's" where
  "next_table alloc t i m tr =
     (let e = pt_entry m t i in
      if e = 0 then
        (case alloc tr of
           (Some f, tr') \<Rightarrow> (Inr f, set_pt_entry (zero_frame f m) t i (f OR LOAD_FLAGS), tr')
         | (None, tr') \<Rightarrow> (Inl (ascii ''FrameAllocationFailed''), m, tr'))
      else if contains_flags e PTE_HUGE then (Inl (ascii ''ParentEntryHugePage''), m, tr)
      else (Inr (entry_addr e), set_pt_entry m t i (e OR LOAD_FLAGS), tr))"

definition sum_bind :: "('e + 'a) \<times> 'm \<times> 's \<Rightarrow> ('a \<Rightarrow> 'm \<Rightarrow> 's \<Rightarrow> ('e + 'b) \<times> 'm \<times> 's) \<Rightarrow> ('e + 'b) \<times> 'm \<times> 's" where
  "sum_bind x f = (case x of (Inl e, m, s) \<Rightarrow> (Inl e, m, s) | (Inr a, m, s) \<Rightarrow> f a m s)"

definition indices4 :: "u64 \<Rightarrow> nat list" where
  "indices4 a = map (\<lambda>s. unat a div 2 ^ s mod 512) [39, 30, 21, 12]"

definition map_to4 ::
  "(tracker \<Rightarrow> u64 option \<times> tracker) \<Rightarrow> u64 \<Rightarrow> u64 \<Rightarrow> u64 \<Rightarrow> u64 \<Rightarrow> phys \<Rightarrow> tracker \<Rightarrow> (bytes + unit) \<times> phys \<times> tracker" where
  "map_to4 alloc root page frame flags m tr =
     (case indices4 page of
        [i, j, k, l] \<Rightarrow>
          sum_bind (next_table alloc root i m tr) (\<lambda>t3 m tr.
          sum_bind (next_table alloc t3 j m tr) (\<lambda>t2 m tr.
          sum_bind (next_table alloc t2 k m tr) (\<lambda>t1 m tr.
            if pt_entry m t1 l = 0 then (Inr (), set_pt_entry m t1 l (frame OR flags), tr)
            else (Inl (ascii ''PageAlreadyMapped''), m, tr))))
      | _ \<Rightarrow> (Inl [], m, tr))"

definition update_flags4 :: "u64 \<Rightarrow> u64 \<Rightarrow> u64 \<Rightarrow> phys \<Rightarrow> (bytes + unit) \<times> phys" where
  "update_flags4 root page flags m =
     (case indices4 page of
        [i, j, k, l] \<Rightarrow>
          (case translate_levels m 0 [i, j, k] root of
             Some t1 \<Rightarrow>
               if pt_entry m t1 l = 0 then (Inl (ascii ''PageNotMapped''), m)
               else (Inr (), set_pt_entry m t1 l (entry_addr (pt_entry m t1 l) OR flags))
           | None \<Rightarrow> (Inl (ascii ''PageNotMapped''), m))
      | _ \<Rightarrow> (Inl [], m))"

section \<open>The tree of tables\<close>

definition path_ok :: "nat list \<Rightarrow> bool" where
  "path_ok p \<longleftrightarrow> (case p of [] \<Rightarrow> True | i # _ \<Rightarrow> i < KERNEL_PML4_FIRST_INDEX)"

definition table_tree :: "phys \<Rightarrow> u64 \<Rightarrow> (nat list \<Rightarrow> u64 option) \<Rightarrow> bool" where
  "table_tree m root tab \<longleftrightarrow>
     tab [] = Some root \<and> (\<forall>f\<in>ran tab. frame_ok f) \<and> inj_on tab (dom tab) \<and>
     (\<forall>p i. tab (p @ [i]) \<noteq> None \<longrightarrow> tab p \<noteq> None \<and> path_ok (p @ [i])) \<and>
     (\<forall>p t i. tab p = Some t \<longrightarrow> length p < 3 \<longrightarrow> path_ok (p @ [i]) \<longrightarrow>
        (case tab (p @ [i]) of
           None \<Rightarrow> pt_entry m t i = 0
         | Some u \<Rightarrow> contains_flags (pt_entry m t i) PTE_PRESENT \<and> \<not> contains_flags (pt_entry m t i) PTE_HUGE \<and>
             entry_addr (pt_entry m t i) = u)) \<and>
     (\<forall>p t l. tab p = Some t \<longrightarrow> length p = 3 \<longrightarrow> pt_entry m t l = 0 \<or> contains_flags (pt_entry m t l) PTE_PRESENT)"

definition tree_inv :: "phys \<Rightarrow> u64 \<Rightarrow> u64 set \<Rightarrow> bool" where
  "tree_inv m root T \<longleftrightarrow> (\<exists>tab. table_tree m root tab \<and> ran tab = T)"

lemma no_flags: "\<not> contains_flags 0 PTE_PRESENT" "\<not> contains_flags 0 LOAD_FLAGS"
  by (simp_all add: contains_flags_def PTE_PRESENT_def PTE_WRITABLE_def PTE_USER_def LOAD_FLAGS_def)

text \<open>A walk follows the tree.\<close>

lemma tree_walk:
  assumes "table_tree m root tab" "path_ok [i]"
  shows "leaf_levels m [i, j, k, l] root =
      (case tab [i, j, k] of None \<Rightarrow> None
       | Some t \<Rightarrow> if contains_flags (pt_entry m t l) PTE_PRESENT then Some (pt_entry m t l) else None)"
    "set (walk_tables m [i, j, k, l] root) \<subseteq> ran tab"
    "translate_levels m 0 [i, j, k] root = tab [i, j, k]"
    "tab [i, j, k] \<noteq> None \<Longrightarrow> \<exists>t3 t2. tab [i] = Some t3 \<and> tab [i, j] = Some t2 \<and>
      open_levels m [i, j, k, l] root =
        (contains_flags (pt_entry m root i) LOAD_FLAGS \<and> contains_flags (pt_entry m t3 j) LOAD_FLAGS \<and>
         contains_flags (pt_entry m t2 k) LOAD_FLAGS)"
    "small_levels m [i, j, k, l] root"
proof -
  from assms(1) have r: "tab [] = Some root"
    and up: "\<And>p i. tab (p @ [i]) \<noteq> None \<Longrightarrow> tab p \<noteq> None"
    and en: "\<And>p t i. tab p = Some t \<Longrightarrow> length p < 3 \<Longrightarrow> path_ok (p @ [i]) \<Longrightarrow>
        (case tab (p @ [i]) of
           None \<Rightarrow> pt_entry m t i = 0
         | Some u \<Rightarrow> contains_flags (pt_entry m t i) PTE_PRESENT \<and> \<not> contains_flags (pt_entry m t i) PTE_HUGE \<and>
             entry_addr (pt_entry m t i) = u)"
    unfolding table_tree_def by blast+
  have ok: "path_ok [i, j]" "path_ok [i, j, k]" using assms(2) by (simp_all add: path_ok_def)
  note e1 = en [of "[]", simplified, OF r, of i, OF assms(2)]
  note e2 = en [of "[i]" _ j, simplified, OF _ ok(1)]
  note e3 = en [of "[i, j]" _ k, simplified, OF _ ok(2)]
  note u1 = up [of "[]" i, simplified] and u2 = up [of "[i]" j, simplified] and u3 = up [of "[i, j]" k, simplified]
  note R = ranI [of tab]
  show "leaf_levels m [i, j, k, l] root =
      (case tab [i, j, k] of None \<Rightarrow> None
       | Some t \<Rightarrow> if contains_flags (pt_entry m t l) PTE_PRESENT then Some (pt_entry m t l) else None)"
    "translate_levels m 0 [i, j, k] root = tab [i, j, k]"
    using e1 e2 e3 u2 u3 no_flags
    by (cases "tab [i]"; cases "tab [i, j]"; cases "tab [i, j, k]"; simp add: Let_def)+
  show "set (walk_tables m [i, j, k, l] root) \<subseteq> ran tab"
    using e1 e2 e3 u2 u3 no_flags R r
    by (cases "tab [i]"; cases "tab [i, j]"; cases "tab [i, j, k]"; simp add: Let_def)
  show "\<exists>t3 t2. tab [i] = Some t3 \<and> tab [i, j] = Some t2 \<and>
      open_levels m [i, j, k, l] root =
        (contains_flags (pt_entry m root i) LOAD_FLAGS \<and> contains_flags (pt_entry m t3 j) LOAD_FLAGS \<and>
         contains_flags (pt_entry m t2 k) LOAD_FLAGS)" if "tab [i, j, k] \<noteq> None"
    using e1 e2 e3 u2 u3 that
    by (cases "tab [i]"; cases "tab [i, j]"; cases "tab [i, j, k]"; simp add: Let_def)
  show "small_levels m [i, j, k, l] root"
    using e1 e2 e3 u2 u3 no_flags
    by (cases "tab [i]"; cases "tab [i, j]"; cases "tab [i, j, k]"; simp add: Let_def)
qed

lemma entry_or_flags: "flags_ok fl \<Longrightarrow> entry_addr (e OR fl) = entry_addr e"
  unfolding entry_addr_def flags_ok_def by (simp add: bit.conj_disj_distrib2)

lemma huge_or_load: "contains_flags (e OR LOAD_FLAGS) PTE_HUGE \<longleftrightarrow> contains_flags e PTE_HUGE"
proof -
  have "LOAD_FLAGS AND PTE_HUGE = 0"
    by (simp add: LOAD_FLAGS_def PTE_PRESENT_def PTE_WRITABLE_def PTE_USER_def PTE_HUGE_def)
  then show ?thesis by (simp add: contains_flags_def bit.conj_disj_distrib2)
qed

lemma frame_no_huge: "frame_ok f \<Longrightarrow> \<not> contains_flags (f OR LOAD_FLAGS) PTE_HUGE"
proof -
  assume "frame_ok f"
  moreover have "PTE_ADDR_MASK AND PTE_HUGE = 0" by (simp add: PTE_ADDR_MASK_def PTE_HUGE_def)
  ultimately have "f AND PTE_HUGE = 0" unfolding frame_ok_def by (metis and.assoc bit.conj_zero_right)
  then have "\<not> contains_flags f PTE_HUGE" by (simp add: contains_flags_def) (simp add: PTE_HUGE_def)
  then show ?thesis unfolding huge_or_load .
qed

text \<open>
  The effect of \<open>next_table\<close> on the tree: at most one new table, empty, under the entry looked at;
  every other entry of the old tables is kept.
\<close>

definition grows :: "phys \<Rightarrow> phys \<Rightarrow> (nat list \<Rightarrow> u64 option) \<Rightarrow> (nat list \<Rightarrow> u64 option) \<Rightarrow> bool" where
  "grows m m' tab tab' \<longleftrightarrow>
     tab \<subseteq>\<^sub>m tab' \<and> (\<forall>f. f \<notin> ran tab' \<longrightarrow> m' f = m f) \<and>
     (\<forall>q u j. tab q = Some u \<longrightarrow> length q = 3 \<or> \<not> path_ok (q @ [j]) \<longrightarrow> pt_entry m' u j = pt_entry m u j) \<and>
     (\<forall>q u j. tab q = Some u \<longrightarrow> contains_flags (pt_entry m u j) LOAD_FLAGS \<longrightarrow> contains_flags (pt_entry m' u j) LOAD_FLAGS) \<and>
     (\<forall>q u j. tab' q = Some u \<longrightarrow> length q = 3 \<longrightarrow> tab q = None \<longrightarrow> pt_entry m' u j = 0)"

lemma next_table_old:
  assumes tree: "table_tree m root tab" and t: "tab p = Some t" "length p < 3" "path_ok (p @ [i])"
    and e: "pt_entry m t i = e" "e \<noteq> 0" "\<not> contains_flags e PTE_HUGE"
  shows "table_tree (set_pt_entry m t i (e OR LOAD_FLAGS)) root tab" "grows m (set_pt_entry m t i (e OR LOAD_FLAGS)) tab tab"
    "tab (p @ [i]) = Some (entry_addr e)" "contains_flags (e OR LOAD_FLAGS) LOAD_FLAGS"
proof -
  let ?m = "set_pt_entry m t i (e OR LOAD_FLAGS)"
  have T: "tab [] = Some root" "inj_on tab (dom tab)"
    and en: "\<And>p t i. tab p = Some t \<Longrightarrow> length p < 3 \<Longrightarrow> path_ok (p @ [i]) \<Longrightarrow>
        (case tab (p @ [i]) of
           None \<Rightarrow> pt_entry m t i = 0
         | Some u \<Rightarrow> contains_flags (pt_entry m t i) PTE_PRESENT \<and> \<not> contains_flags (pt_entry m t i) PTE_HUGE \<and>
             entry_addr (pt_entry m t i) = u)"
    using tree unfolding table_tree_def by blast+
  have uniq: "q = p" if "tab q = Some t" for q
    using T(2) t(1) that by (metis domI inj_onD)
  have L: "contains_flags (x OR LOAD_FLAGS) LOAD_FLAGS" for x by (simp add: contains_bits bit_simps)
  then show "contains_flags (e OR LOAD_FLAGS) LOAD_FLAGS" .
  from en [OF t] e show pi: "tab (p @ [i]) = Some (entry_addr e)" by (auto split: option.splits)
  show "table_tree ?m root tab"
    unfolding table_tree_def
  proof (intro conjI allI impI)
    fix q u j assume q: "tab q = Some u" "length q < 3" "path_ok (q @ [j])"
    show "case tab (q @ [j]) of
           None \<Rightarrow> pt_entry ?m u j = 0
         | Some u' \<Rightarrow> contains_flags (pt_entry ?m u j) PTE_PRESENT \<and> \<not> contains_flags (pt_entry ?m u j) PTE_HUGE \<and>
             entry_addr (pt_entry ?m u j) = u'"
    proof (cases "u = t \<and> j = i")
      case True
      then have "q = p" using uniq q(1) by simp
      with True pi e(3) L [of e] show ?thesis
        by (simp add: entry_or_flags load_flags_contains huge_or_load contains_load_flags)
    next
      case False
      then have pe: "pt_entry ?m u j = pt_entry m u j" by auto
      show ?thesis unfolding pe by (rule en [OF q])
    qed
  next
    fix q u l assume "tab q = Some u" "length q = 3"
    then show "pt_entry ?m u l = 0 \<or> contains_flags (pt_entry ?m u l) PTE_PRESENT"
      using tree uniq t(2) unfolding table_tree_def by (cases "u = t") auto
  qed (use tree in \<open>unfold table_tree_def, blast+\<close>)
  show "grows m ?m tab tab"
    unfolding grows_def
  proof (intro conjI allI impI)
    show "?m f = m f" if "f \<notin> ran tab" for f
      using that t(1) by (intro set_pt_entry_other) (auto intro: ranI)
  next
    fix q u j assume q: "tab q = Some u" "length q = 3 \<or> \<not> path_ok (q @ [j])"
    have "\<not> (u = t \<and> j = i)" using uniq [of q] q t by auto
    then show "pt_entry ?m u j = pt_entry m u j" by auto
  next
    fix q u j assume "contains_flags (pt_entry m u j) LOAD_FLAGS"
    then show "contains_flags (pt_entry ?m u j) LOAD_FLAGS" using L by auto
  qed auto
qed

lemma next_table_new:
  assumes tree: "table_tree m root tab" and t: "tab p = Some t" "length p < 3" "path_ok (p @ [i])"
    and e: "pt_entry m t i = 0" and f: "f \<notin> ran tab" "frame_ok f"
  defines "m' \<equiv> set_pt_entry (zero_frame f m) t i (f OR LOAD_FLAGS)" and "tab' \<equiv> tab(p @ [i] \<mapsto> f)"
  shows "table_tree m' root tab'" "grows m m' tab tab'" "ran tab' = insert f (ran tab)"
proof -
  have T: "tab [] = Some root" "inj_on tab (dom tab)"
    and up: "\<And>p i. tab (p @ [i]) \<noteq> None \<Longrightarrow> tab p \<noteq> None \<and> path_ok (p @ [i])"
    and en: "\<And>p t i. tab p = Some t \<Longrightarrow> length p < 3 \<Longrightarrow> path_ok (p @ [i]) \<Longrightarrow>
        (case tab (p @ [i]) of
           None \<Rightarrow> pt_entry m t i = 0
         | Some u \<Rightarrow> contains_flags (pt_entry m t i) PTE_PRESENT \<and> \<not> contains_flags (pt_entry m t i) PTE_HUGE \<and>
             entry_addr (pt_entry m t i) = u)"
    using tree unfolding table_tree_def by blast+
  have uniq: "q = p" if "tab q = Some t" for q
    using T(2) t(1) that by (metis domI inj_onD)
  have none: "tab (p @ [i]) = None"
    using en [OF t] e no_flags by (auto split: option.splits)
  have below: "tab (p @ [i] @ [j]) = None" for j
    using up [of "p @ [i]" j] none by (cases "tab (p @ [i] @ [j])") auto
  have z: "pt_entry (zero_frame f m) u j = (if u = f then 0 else pt_entry m u j)" for u j
    by (simp add: pt_entry_def zero_frame_def u64_from_le_def upt_rec map_replicate_const)
  have me: "pt_entry m' u j = (if u = t \<and> j = i then f OR LOAD_FLAGS else if u = f then 0 else pt_entry m u j)" for u j
    by (simp add: m'_def z)
  have tf: "t \<noteq> f" using f(1) t(1) by (auto intro: ranI)
  have old: "u \<noteq> f" if "tab q = Some u" for q u using f(1) that by (auto intro: ranI)
  have L: "contains_flags (f OR LOAD_FLAGS) LOAD_FLAGS" by (simp add: contains_bits bit_simps)
  have ne: "p @ [i] \<noteq> p" by simp
  show ran: "ran tab' = insert f (ran tab)" using none by (simp add: tab'_def)
  show "table_tree m' root tab'"
    unfolding table_tree_def
  proof (intro conjI allI impI)
    show "tab' [] = Some root" using T(1) by (simp add: tab'_def)
    show "\<forall>f\<in>ran tab'. frame_ok f" using tree f(2) unfolding ran table_tree_def by blast
    have inj: "q = q'" if "tab q = Some u" "tab q' = Some u" for q q' u using that T(2) by (metis domI inj_onD)
    have "q = q'" if "tab' q = Some u" "tab' q' = Some u" for q q' u
      using that inj [of q u q'] old [of q u] old [of q' u] by (auto simp: tab'_def split: if_splits)
    then show "inj_on tab' (dom tab')" by (auto simp: inj_on_def)
    fix q j assume "tab' (q @ [j]) \<noteq> None"
    then show "tab' q \<noteq> None" "path_ok (q @ [j])" using up [of q j] t by (auto simp: tab'_def split: if_splits)
  next
    fix q u j assume q: "tab' q = Some u" "length q < 3" "path_ok (q @ [j])"
    show "case tab' (q @ [j]) of
           None \<Rightarrow> pt_entry m' u j = 0
         | Some u' \<Rightarrow> contains_flags (pt_entry m' u j) PTE_PRESENT \<and> \<not> contains_flags (pt_entry m' u j) PTE_HUGE \<and>
             entry_addr (pt_entry m' u j) = u'"
    proof (cases "q = p @ [i]")
      case True
      then have "u = f" "tab' (q @ [j]) = None" using q(1) below [of j] by (auto simp: tab'_def)
      then show ?thesis using tf by (simp add: me)
    next
      case nq: False
      then have qt: "tab q = Some u" using q(1) by (simp add: tab'_def)
      show ?thesis
      proof (cases "u = t \<and> j = i")
        case True
        then have "q = p" using uniq qt by simp
        with True L f(2) show ?thesis
          by (simp add: me tab'_def entry_or_flags frame_no_huge contains_load_flags load_flags_contains frame_ok_def [symmetric])
            (simp add: entry_addr_def frame_ok_def)
      next
        case False
        then have "q @ [j] \<noteq> p @ [i]" using qt t(1) by auto
        then have "tab' (q @ [j]) = tab (q @ [j])" unfolding tab'_def by (rule fun_upd_other)
        moreover have "pt_entry m' u j = pt_entry m u j" using False old [OF qt] me by auto
        ultimately show ?thesis using en [OF qt q(2,3)] by (simp only:)
      qed
    qed
  next
    fix q u l assume q: "tab' q = Some u" "length q = 3"
    show "pt_entry m' u l = 0 \<or> contains_flags (pt_entry m' u l) PTE_PRESENT"
    proof (cases "q = p @ [i]")
      case True
      then show ?thesis using q(1) tf by (simp add: tab'_def me)
    next
      case False
      then have qt: "tab q = Some u" using q(1) by (simp add: tab'_def)
      then have "u \<noteq> t" using uniq q(2) t(2) by auto
      then show ?thesis using tree qt q(2) unfolding table_tree_def by (auto simp: me)
    qed
  qed
  show "grows m m' tab tab'"
    unfolding grows_def
  proof (intro conjI allI impI)
    show "tab \<subseteq>\<^sub>m tab'" using none by (auto simp: tab'_def map_le_def)
    show "m' g = m g" if "g \<notin> ran tab'" for g
      using that t(1) unfolding ran by (auto simp: m'_def set_pt_entry_def zero_frame_def intro: ranI)
  next
    fix q u j assume q: "tab q = Some u" "length q = 3 \<or> \<not> path_ok (q @ [j])"
    have "\<not> (u = t \<and> j = i)" using uniq [of q] q t by auto
    then show "pt_entry m' u j = pt_entry m u j" using old [OF q(1)] unfolding me by auto
  next
    fix q u j assume q: "tab q = Some u" "contains_flags (pt_entry m u j) LOAD_FLAGS"
    then show "contains_flags (pt_entry m' u j) LOAD_FLAGS" using L old [OF q(1)] unfolding me by auto
  next
    fix q u j assume "tab' q = Some u" "tab q = None"
    then have "u = f" by (auto simp: tab'_def split: if_splits)
    then show "pt_entry m' u j = 0" using tf unfolding me by auto
  qed
qed

lemma next_table_tree:
  assumes step: "next_table alloc t i m tr = (r, m', tr')"
  shows "\<exists>fs. allocs alloc tr fs tr' \<and> (\<forall>root tab p. table_tree m root tab \<and> tab p = Some t \<and> length p < 3 \<and>
     path_ok (p @ [i]) \<and> set fs \<inter> ran tab = {} \<and> (\<forall>f\<in>set fs. frame_ok f) \<longrightarrow>
    (\<exists>tab'. table_tree m' root tab' \<and> grows m m' tab tab' \<and> ran tab' = ran tab \<union> set fs \<and>
       (\<forall>u. r = Inr u \<longrightarrow> tab' (p @ [i]) = Some u \<and> contains_flags (pt_entry m' t i) LOAD_FLAGS)))"
proof -
  have grefl: "grows m m tab tab" for tab by (auto simp: grows_def)
  show ?thesis
  proof (cases "pt_entry m t i = 0")
    case True
    obtain x tr1 where a: "alloc tr = (x, tr1)" by force
    show ?thesis
    proof (cases x)
      case None
      then have "r = Inl (ascii ''FrameAllocationFailed'')" "m' = m" "tr' = tr1"
        using step True a by (auto simp: next_table_def)
      then show ?thesis using grefl a None
        by (intro exI [of _ "[]"] conjI allI impI) (auto intro: allocs.intros)
    next
      case (Some f)
      then have r: "r = Inr f" "m' = set_pt_entry (zero_frame f m) t i (f OR LOAD_FLAGS)" "tr' = tr1"
        using step True a by (auto simp: next_table_def Let_def)
      have al: "allocs alloc tr [f] tr'" using a Some r(3) by (auto intro: allocs.intros)
      have "\<exists>tab'. table_tree m' root tab' \<and> grows m m' tab tab' \<and> ran tab' = ran tab \<union> set [f] \<and>
         (\<forall>u. r = Inr u \<longrightarrow> tab' (p @ [i]) = Some u \<and> contains_flags (pt_entry m' t i) LOAD_FLAGS)"
        if tree: "table_tree m root tab" and t: "tab p = Some t" "length p < 3" "path_ok (p @ [i])"
          and f: "f \<notin> ran tab" "frame_ok f" for root tab p
      proof -
        note n = next_table_new [OF tree t True f]
        show ?thesis
          by (rule exI [of _ "tab(p @ [i] \<mapsto> f)"]) (use n in \<open>simp add: r contains_bits bit_simps\<close>)
      qed
      then show ?thesis using al by (intro exI [of _ "[f]"]) simp
    qed
  next
    case False
    show ?thesis
    proof (cases "contains_flags (pt_entry m t i) PTE_HUGE")
      case True
      then have "r = Inl (ascii ''ParentEntryHugePage'')" "m' = m" "tr' = tr"
        using step False by (auto simp: next_table_def)
      then show ?thesis using grefl
        by (intro exI [of _ "[]"] conjI allI impI) (auto intro: allocs.intros)
    next
      case nh: False
      then have r: "r = Inr (entry_addr (pt_entry m t i))" "m' = set_pt_entry m t i (pt_entry m t i OR LOAD_FLAGS)" "tr' = tr"
        using step False by (auto simp: next_table_def Let_def)
      have "\<exists>tab'. table_tree m' root tab' \<and> grows m m' tab tab' \<and> ran tab' = ran tab \<and>
         (\<forall>u. r = Inr u \<longrightarrow> tab' (p @ [i]) = Some u \<and> contains_flags (pt_entry m' t i) LOAD_FLAGS)"
        if tree: "table_tree m root tab" and t: "tab p = Some t" "length p < 3" "path_ok (p @ [i])" for root tab p
        using next_table_old [OF tree t refl [of "pt_entry m t i"] False nh] by (intro exI [of _ tab]) (simp add: r)
      then show ?thesis by (intro exI [of _ "[]"]) (auto simp: r intro: allocs.intros)
    qed
  qed
qed

section \<open>Growing keeps every leaf\<close>

lemma grows_leaf:
  assumes g: "grows m m' tab tab'" and t: "table_tree m root tab" "table_tree m' root tab'" and p: "path_ok [i]"
  shows "leaf_levels m' [i, j, k, l] root = leaf_levels m [i, j, k, l] root"
    "leaf_levels m [i, j, k, l] root \<noteq> None \<Longrightarrow> open_levels m [i, j, k, l] root \<Longrightarrow> open_levels m' [i, j, k, l] root"
proof -
  from g have le: "tab \<subseteq>\<^sub>m tab'"
    and same: "\<And>q u j. tab q = Some u \<Longrightarrow> length q = 3 \<Longrightarrow> pt_entry m' u j = pt_entry m u j"
    and load: "\<And>q u j. tab q = Some u \<Longrightarrow> contains_flags (pt_entry m u j) LOAD_FLAGS \<Longrightarrow> contains_flags (pt_entry m' u j) LOAD_FLAGS"
    and new: "\<And>q u j. tab' q = Some u \<Longrightarrow> length q = 3 \<Longrightarrow> tab q = None \<Longrightarrow> pt_entry m' u j = 0"
    unfolding grows_def by blast+
  have up: "tab' q = Some u" if "tab q = Some u" for q u using le that by (auto simp: map_le_def dom_def)
  note w = tree_walk(1,4) [OF t(1) p, where j = j and k = k and l = l]
    and w' = tree_walk(1,4) [OF t(2) p, where j = j and k = k and l = l]
  show "leaf_levels m' [i, j, k, l] root = leaf_levels m [i, j, k, l] root"
  proof (cases "tab [i, j, k]")
    case None
    then show ?thesis using w(1) w'(1) new [of "[i, j, k]"] no_flags by (cases "tab' [i, j, k]") auto
  next
    case (Some t1)
    then show ?thesis using w(1) w'(1) up [OF Some] same [OF Some] by simp
  qed
  assume lf: "leaf_levels m [i, j, k, l] root \<noteq> None" and op: "open_levels m [i, j, k, l] root"
  then have "tab [i, j, k] \<noteq> None" using w(1) by (auto split: option.splits)
  from w(2) [OF this] obtain t3 t2 where a: "tab [i] = Some t3" "tab [i, j] = Some t2"
    "contains_flags (pt_entry m root i) LOAD_FLAGS" "contains_flags (pt_entry m t3 j) LOAD_FLAGS" "contains_flags (pt_entry m t2 k) LOAD_FLAGS"
    using op by auto
  have "tab' [i, j, k] \<noteq> None" using up \<open>tab [i, j, k] \<noteq> None\<close> by auto
  moreover have "tab [] = Some root" using t(1) by (simp add: table_tree_def)
  ultimately show "open_levels m' [i, j, k, l] root"
    using w'(2) up [OF a(1)] up [OF a(2)] load a by auto
qed

lemma grows_trans:
  assumes "grows m m1 tab tab1" "grows m1 m2 tab1 tab2"
  shows "grows m m2 tab tab2"
proof -
  from assms have le: "tab \<subseteq>\<^sub>m tab1" "tab1 \<subseteq>\<^sub>m tab2" by (simp_all add: grows_def)
  have up: "tab1 q = Some u" if "tab q = Some u" for q u using le(1) that by (auto simp: map_le_def dom_def)
  have up2: "tab2 q = Some u" if "tab1 q = Some u" for q u using le(2) that by (auto simp: map_le_def dom_def)
  have ran: "f \<in> ran tab2" if "f \<in> ran tab1" for f using that up2 by (auto simp: ran_def)
  note g = assms [unfolded grows_def]
  show ?thesis unfolding grows_def
  proof (intro conjI allI impI)
    show "tab \<subseteq>\<^sub>m tab2" using le by (rule map_le_trans)
    show "m2 f = m f" if "f \<notin> ran tab2" for f using g that ran by metis
    show "pt_entry m2 u j = pt_entry m u j" if "tab q = Some u" "length q = 3 \<or> \<not> path_ok (q @ [j])" for q u j
      using g that up by metis
    show "contains_flags (pt_entry m2 u j) LOAD_FLAGS" if "tab q = Some u" "contains_flags (pt_entry m u j) LOAD_FLAGS" for q u j
      using g that up by metis
    fix q u j assume q: "tab2 q = Some u" "length q = 3" "tab q = None"
    show "pt_entry m2 u j = 0"
    proof (cases "tab1 q")
      case (Some u1)
      then have u: "tab1 q = Some u" using up2 q(1) by force
      then have "pt_entry m1 u j = 0" using g(1) q(2,3) by blast
      moreover have "pt_entry m2 u j = pt_entry m1 u j" using g(2) u q(2) by blast
      ultimately show ?thesis by simp
    qed (use g(2) q in blast)
  qed
qed

section \<open>The laws\<close>

definition paging4 :: "(u64 \<Rightarrow> bool) \<Rightarrow> memory_region list \<Rightarrow> bool \<Rightarrow> paging" where
  "paging4 phys_ok regions nx =
     \<lparr>pg_phys_ok = phys_ok, pg_regions = regions,
      pg_va_ok = (\<lambda>a. unat a < 2 ^ 47 \<or> 2 ^ 64 - 2 ^ 47 \<le> unat a), pg_nx = nx,
      pg_indices = indices4, pg_map_to = map_to4, pg_update_flags = update_flags4\<rparr>"

lemma paging4_simps [simp]:
  "pg_phys_ok (paging4 phys_ok regions nx) = phys_ok" "pg_regions (paging4 phys_ok regions nx) = regions"
  "pg_va_ok (paging4 phys_ok regions nx) a \<longleftrightarrow> unat a < 2 ^ 47 \<or> 2 ^ 64 - 2 ^ 47 \<le> unat a"
  "pg_nx (paging4 phys_ok regions nx) = nx" "pg_indices (paging4 phys_ok regions nx) = indices4"
  "pg_map_to (paging4 phys_ok regions nx) = map_to4" "pg_update_flags (paging4 phys_ok regions nx) = update_flags4"
  by (simp_all add: paging4_def)

lemma user_below: "is_user_address a \<Longrightarrow> unat a < 2 ^ 47"
  by (simp add: is_user_address_def USER_SPACE_END_def word_less_nat_alt)

lemma indices4_path:
  assumes "is_user_address a"
  obtains i j k l where "indices4 a = [i, j, k, l]" "path_ok [i]"
proof -
  have "unat a div 2 ^ 39 < 256" using user_below [OF assms] by (simp add: div_less_iff_less_mult)
  then show thesis by (intro that) (simp_all add: indices4_def path_ok_def KERNEL_PML4_FIRST_INDEX_def)
qed

lemma digits:
  fixes x y :: nat
  assumes "x mod 512 = y mod 512" "x div 512 = y div 512"
  shows "x = y"
  using assms by (metis div_mult_mod_eq)

lemma indices4_page:
  assumes "is_user_address a" "is_user_address b"
  shows "indices4 a = indices4 b \<longleftrightarrow> page_of a = page_of b"
proof -
  have pg: "page_of a = page_of b \<longleftrightarrow> unat a div 4096 = unat b div 4096"
    by (simp add: word_unat_eq_iff unat_page_of)
  have sh: "unat c div 2 ^ 21 = unat c div 4096 div 512" "unat c div 2 ^ 30 = unat c div 4096 div 512 div 512"
    "unat c div 2 ^ 39 = unat c div 4096 div 512 div 512 div 512" "unat c div 2 ^ 12 = unat c div 4096" for c :: u64
    by (simp_all add: div_mult2_eq [symmetric])
  have top: "unat c div 4096 div 512 div 512 div 512 < 512" if "is_user_address c" for c
    using user_below [OF that] by (simp add: div_mult2_eq [symmetric] div_less_iff_less_mult)
  have "unat a div 4096 = unat b div 4096" if "indices4 a = indices4 b"
  proof -
    from that have e: "unat a div 4096 div 512 div 512 div 512 mod 512 = unat b div 4096 div 512 div 512 div 512 mod 512"
      "unat a div 4096 div 512 div 512 mod 512 = unat b div 4096 div 512 div 512 mod 512"
      "unat a div 4096 div 512 mod 512 = unat b div 4096 div 512 mod 512"
      "unat a div 4096 mod 512 = unat b div 4096 mod 512"
      unfolding indices4_def list.map sh list.inject by blast+
    have "unat a div 4096 div 512 div 512 div 512 = unat b div 4096 div 512 div 512 div 512"
      using e(1) top assms by simp
    then show ?thesis using digits e(2-4) by blast
  qed
  then show ?thesis unfolding pg unfolding indices4_def list.map sh by auto
qed

text \<open>Writing a leaf entry.\<close>

lemma set_leaf:
  assumes t: "table_tree m root tab" and p: "path_ok [i]" and t1: "tab [i, j, k] = Some t"
    and x: "x = 0 \<or> contains_flags x PTE_PRESENT"
  shows "table_tree (set_pt_entry m t l x) root tab"
    "path_ok [a] \<Longrightarrow> [a, b, c, d] \<noteq> [i, j, k, l] \<Longrightarrow>
      leaf_levels (set_pt_entry m t l x) [a, b, c, d] root = leaf_levels m [a, b, c, d] root"
    "leaf_levels (set_pt_entry m t l x) [i, j, k, l] root = (if contains_flags x PTE_PRESENT then Some x else None)"
    "path_ok [a] \<Longrightarrow> tab [a, b, c] \<noteq> None \<Longrightarrow>
      open_levels (set_pt_entry m t l x) [a, b, c, d] root = open_levels m [a, b, c, d] root"
proof -
  let ?m = "set_pt_entry m t l x"
  have inj: "inj_on tab (dom tab)" using t by (simp add: table_tree_def)
  have uniq: "q = [i, j, k]" if "tab q = Some t" for q
    using inj t1 that by (metis domI inj_onD)
  have upper: "pt_entry ?m u y = pt_entry m u y" if "tab q = Some u" "length q < 3" for q u y
    using uniq [of q] that by auto
  show tree: "table_tree ?m root tab"
    unfolding table_tree_def
  proof (intro conjI allI impI)
    fix q u y assume q: "tab q = Some u" "length q < 3" "path_ok (q @ [y])"
    show "case tab (q @ [y]) of None \<Rightarrow> pt_entry ?m u y = 0
       | Some u' \<Rightarrow> contains_flags (pt_entry ?m u y) PTE_PRESENT \<and> \<not> contains_flags (pt_entry ?m u y) PTE_HUGE \<and>
           entry_addr (pt_entry ?m u y) = u'"
      unfolding upper [OF q(1,2)] using t q unfolding table_tree_def by blast
  next
    fix q u y assume q: "tab q = Some u" "length q = 3"
    then have "pt_entry m u y = 0 \<or> contains_flags (pt_entry m u y) PTE_PRESENT" using t unfolding table_tree_def by blast
    then show "pt_entry ?m u y = 0 \<or> contains_flags (pt_entry ?m u y) PTE_PRESENT" using x by auto
  qed (use t in \<open>unfold table_tree_def, blast+\<close>)
  show "leaf_levels ?m [i, j, k, l] root = (if contains_flags x PTE_PRESENT then Some x else None)"
    using tree_walk(1) [OF tree p] t1 by simp
  show "leaf_levels ?m [a, b, c, d] root = leaf_levels m [a, b, c, d] root"
    if "path_ok [a]" "[a, b, c, d] \<noteq> [i, j, k, l]"
  proof (cases "tab [a, b, c]")
    case (Some u)
    have "u \<noteq> t \<or> d \<noteq> l" using uniq [of "[a, b, c]"] Some that(2) by auto
    then have "pt_entry ?m u d = pt_entry m u d" by auto
    then show ?thesis using tree_walk(1) [OF tree that(1)] tree_walk(1) [OF t that(1)] Some by simp
  next
    case None
    then show ?thesis unfolding tree_walk(1) [OF tree that(1)] tree_walk(1) [OF t that(1)] by simp
  qed
  show "open_levels ?m [a, b, c, d] root = open_levels m [a, b, c, d] root"
    if pa: "path_ok [a]" and pb: "tab [a, b, c] \<noteq> None"
  proof -
    obtain t3 t2 where o: "tab [a] = Some t3" "tab [a, b] = Some t2" "open_levels m [a, b, c, d] root =
        (contains_flags (pt_entry m root a) LOAD_FLAGS \<and> contains_flags (pt_entry m t3 b) LOAD_FLAGS \<and>
         contains_flags (pt_entry m t2 c) LOAD_FLAGS)" using tree_walk(4) [OF t pa pb] by blast
    have r: "tab [] = Some root" using t by (simp add: table_tree_def)
    obtain t3' t2' where o': "tab [a] = Some t3'" "tab [a, b] = Some t2'" "open_levels ?m [a, b, c, d] root =
        (contains_flags (pt_entry ?m root a) LOAD_FLAGS \<and> contains_flags (pt_entry ?m t3' b) LOAD_FLAGS \<and>
         contains_flags (pt_entry ?m t2' c) LOAD_FLAGS)" using tree_walk(4) [OF tree pa pb] by blast
    have "t3' = t3" "t2' = t2" using o o' by simp_all
    with o o' show ?thesis using upper [OF r, of a] upper [OF o(1), of b] upper [OF o(2), of c] by simp
  qed
qed

lemma tree_init:
  assumes "frame_ok root" "\<And>i. i < KERNEL_PML4_FIRST_INDEX \<Longrightarrow> pt_entry m root i = 0"
  shows "tree_inv m root {root}"
  unfolding tree_inv_def
  by (rule exI [of _ "[[] \<mapsto> root]"])
    (use assms in \<open>auto simp: table_tree_def path_ok_def split: if_splits\<close>)

lemma tree_frame:
  assumes "tree_inv m root T" "\<And>f. f \<in> T \<Longrightarrow> m' f = m f"
  shows "tree_inv m' root T"
proof -
  obtain tab where t: "table_tree m root tab" "ran tab = T" using assms(1) by (auto simp: tree_inv_def)
  have e: "pt_entry m' u i = pt_entry m u i" if "tab p = Some u" for p u i
  proof (rule pt_entry_cong)
    have "u \<in> T" using that t(2) by (auto intro: ranI)
    then show "m' u = m u" by (rule assms(2))
  qed
  have "table_tree m' root tab"
    unfolding table_tree_def
  proof (intro conjI allI impI)
    fix p u i assume "tab p = Some u" "length p < 3" "path_ok (p @ [i])"
    then show "case tab (p @ [i]) of None \<Rightarrow> pt_entry m' u i = 0
       | Some u' \<Rightarrow> contains_flags (pt_entry m' u i) PTE_PRESENT \<and> \<not> contains_flags (pt_entry m' u i) PTE_HUGE \<and>
           entry_addr (pt_entry m' u i) = u'"
      unfolding e [OF \<open>tab p = Some u\<close>] using t(1) unfolding table_tree_def by blast
  next
    fix p u l assume "tab p = Some u" "length p = 3"
    then show "pt_entry m' u l = 0 \<or> contains_flags (pt_entry m' u l) PTE_PRESENT"
      unfolding e [OF \<open>tab p = Some u\<close>] using t(1) unfolding table_tree_def by blast
  qed (use t(1) in \<open>unfold table_tree_def, blast+\<close>)
  with t(2) show ?thesis by (auto simp: tree_inv_def)
qed

lemma allocs_append: "allocs alloc s fs s' \<Longrightarrow> allocs alloc s' gs s'' \<Longrightarrow> allocs alloc s (fs @ gs) s''"
  by (induction rule: allocs.induct) (auto intro: allocs.intros)

text \<open>The tables for one path, whichever of them were there before.\<close>

definition path_tables ::
  "(tracker \<Rightarrow> u64 option \<times> tracker) \<Rightarrow> u64 \<Rightarrow> nat \<Rightarrow> nat \<Rightarrow> nat \<Rightarrow> phys \<Rightarrow> tracker \<Rightarrow> (bytes + u64) \<times> phys \<times> tracker" where
  "path_tables alloc root i j k m tr =
     sum_bind (next_table alloc root i m tr) (\<lambda>t3 m tr.
     sum_bind (next_table alloc t3 j m tr) (\<lambda>t2 m tr. next_table alloc t2 k m tr))"

lemma map_to4_eq:
  "indices4 page = [i, j, k, l] \<Longrightarrow> map_to4 alloc root page frame flags m tr =
     sum_bind (path_tables alloc root i j k m tr) (\<lambda>t1 m tr.
       if pt_entry m t1 l = 0 then (Inr (), set_pt_entry m t1 l (frame OR flags), tr)
       else (Inl (ascii ''PageAlreadyMapped''), m, tr))"
  by (simp add: map_to4_def path_tables_def sum_bind_def split: prod.split sum.split)

text \<open>One step down the path: at most one frame is taken, and the tree grows by it.\<close>

definition descends ::
  "phys \<Rightarrow> phys \<Rightarrow> u64 \<Rightarrow> (nat list \<Rightarrow> u64 option) \<Rightarrow> u64 list \<Rightarrow> nat list \<Rightarrow> bytes + u64 \<Rightarrow> bool" where
  "descends m m' root tab fs q r \<longleftrightarrow>
     (set fs \<inter> ran tab = {} \<and> distinct fs \<and> (\<forall>f\<in>set fs. frame_ok f) \<longrightarrow>
      (\<exists>tab'. table_tree m' root tab' \<and> grows m m' tab tab' \<and> ran tab' = ran tab \<union> set fs \<and>
         (\<forall>u. r = Inr u \<longrightarrow> tab' q = Some u \<and>
            (\<forall>n < length q. \<exists>t. tab' (take n q) = Some t \<and> contains_flags (pt_entry m' t (q ! n)) LOAD_FLAGS))))"

lemma next_table_descends:
  assumes step: "next_table alloc t i m tr = (r, m', tr')"
  shows "\<exists>fs. allocs alloc tr fs tr' \<and> (\<forall>root tab p. table_tree m root tab \<and> tab p = Some t \<and> length p < 3 \<and>
     path_ok (p @ [i]) \<and>
     (\<forall>n < length p. \<exists>t. tab (take n p) = Some t \<and> contains_flags (pt_entry m t (p ! n)) LOAD_FLAGS) \<longrightarrow>
     descends m m' root tab fs (p @ [i]) r)"
proof -
  from next_table_tree [OF step] obtain fs where al: "allocs alloc tr fs tr'"
    and ex: "\<forall>root tab p. table_tree m root tab \<and> tab p = Some t \<and> length p < 3 \<and>
     path_ok (p @ [i]) \<and> set fs \<inter> ran tab = {} \<and> (\<forall>f\<in>set fs. frame_ok f) \<longrightarrow>
    (\<exists>tab'. table_tree m' root tab' \<and> grows m m' tab tab' \<and> ran tab' = ran tab \<union> set fs \<and>
       (\<forall>u. r = Inr u \<longrightarrow> tab' (p @ [i]) = Some u \<and> contains_flags (pt_entry m' t i) LOAD_FLAGS))"
    by (elim exE conjE) (rule that)
  note ex = ex [THEN spec, THEN spec, THEN spec, THEN mp, OF conjI, OF _ conjI, OF _ _ conjI, OF _ _ _ conjI, OF _ _ _ _ conjI]
  have "descends m m' root tab fs (p @ [i]) r"
    if tree: "table_tree m root tab" and t: "tab p = Some t" "length p < 3" "path_ok (p @ [i])"
      and op: "\<forall>n < length p. \<exists>t. tab (take n p) = Some t \<and> contains_flags (pt_entry m t (p ! n)) LOAD_FLAGS"
    for root tab p
    unfolding descends_def
  proof (rule impI, elim conjE)
    assume f: "set fs \<inter> ran tab = {}" "distinct fs" "\<forall>f\<in>set fs. frame_ok f"
    from ex [OF tree t f(1,3)] obtain tab' where T: "table_tree m' root tab'" "grows m m' tab tab'" "ran tab' = ran tab \<union> set fs"
      "\<And>u. r = Inr u \<Longrightarrow> tab' (p @ [i]) = Some u \<and> contains_flags (pt_entry m' t i) LOAD_FLAGS" by blast
    have up: "tab' q = Some u" if "tab q = Some u" for q u using T(2) that by (auto simp: grows_def map_le_def dom_def)
    have keep: "contains_flags (pt_entry m' u j) LOAD_FLAGS" if "tab q = Some u" "contains_flags (pt_entry m u j) LOAD_FLAGS" for q u j
      using T(2) that by (auto simp: grows_def)
    have "\<exists>u. tab' (take n (p @ [i])) = Some u \<and> contains_flags (pt_entry m' u ((p @ [i]) ! n)) LOAD_FLAGS"
      if "n < length (p @ [i])" "r = Inr v" for n v
    proof (cases "n < length p")
      case True
      then obtain u where u: "tab (take n p) = Some u" "contains_flags (pt_entry m u (p ! n)) LOAD_FLAGS" using op by blast
      from up [OF u(1)] keep [OF u] True show ?thesis by (simp add: nth_append)
    next
      case False
      then have "n = length p" using that(1) by simp
      then show ?thesis using up [OF t(1)] T(4) [OF that(2)] by simp
    qed
    with T show "\<exists>tab'. table_tree m' root tab' \<and> grows m m' tab tab' \<and> ran tab' = ran tab \<union> set fs \<and>
       (\<forall>u. r = Inr u \<longrightarrow> tab' (p @ [i]) = Some u \<and>
          (\<forall>n < length (p @ [i]). \<exists>t. tab' (take n (p @ [i])) = Some t \<and> contains_flags (pt_entry m' t ((p @ [i]) ! n)) LOAD_FLAGS))"
      by blast
  qed
  with al show ?thesis by blast
qed

text \<open>A further step after one that succeeded.\<close>

lemma descends_step:
  assumes d: "descends m m1 root tab fs1 p (Inr t)"
    and step: "\<And>tab1. table_tree m1 root tab1 \<Longrightarrow> tab1 p = Some t \<Longrightarrow>
      \<forall>n < length p. \<exists>t. tab1 (take n p) = Some t \<and> contains_flags (pt_entry m1 t (p ! n)) LOAD_FLAGS \<Longrightarrow>
      descends m1 m2 root tab1 fs2 q r"
  shows "descends m m2 root tab (fs1 @ fs2) q r"
  unfolding descends_def
proof (rule impI, elim conjE)
  assume f: "set (fs1 @ fs2) \<inter> ran tab = {}" "distinct (fs1 @ fs2)" "\<forall>f\<in>set (fs1 @ fs2). frame_ok f"
  then have "set fs1 \<inter> ran tab = {} \<and> distinct fs1 \<and> (\<forall>f\<in>set fs1. frame_ok f)" by auto
  with d obtain tab1 where T: "table_tree m1 root tab1" "grows m m1 tab tab1" "ran tab1 = ran tab \<union> set fs1"
    "tab1 p = Some t" "\<forall>n < length p. \<exists>t. tab1 (take n p) = Some t \<and> contains_flags (pt_entry m1 t (p ! n)) LOAD_FLAGS"
    unfolding descends_def by blast
  have "set fs2 \<inter> ran tab1 = {} \<and> distinct fs2 \<and> (\<forall>f\<in>set fs2. frame_ok f)" using f T(3) by auto
  with step [OF T(1,4,5)] obtain tab2 where T2: "table_tree m2 root tab2" "grows m1 m2 tab1 tab2" "ran tab2 = ran tab1 \<union> set fs2"
    "\<forall>u. r = Inr u \<longrightarrow> tab2 q = Some u \<and>
       (\<forall>n < length q. \<exists>t. tab2 (take n q) = Some t \<and> contains_flags (pt_entry m2 t (q ! n)) LOAD_FLAGS)"
    unfolding descends_def by blast
  show "\<exists>tab'. table_tree m2 root tab' \<and> grows m m2 tab tab' \<and> ran tab' = ran tab \<union> set (fs1 @ fs2) \<and>
     (\<forall>u. r = Inr u \<longrightarrow> tab' q = Some u \<and>
        (\<forall>n < length q. \<exists>t. tab' (take n q) = Some t \<and> contains_flags (pt_entry m2 t (q ! n)) LOAD_FLAGS))"
    using T(3) T2 grows_trans [OF T(2) T2(2)] by (intro exI [of _ tab2]) auto
qed

lemma descends_Inl: "descends m m' root tab fs p (Inl e) \<Longrightarrow> descends m m' root tab fs q (Inl e)"
  by (simp add: descends_def)

lemma path_tables_descends:
  assumes step: "path_tables alloc root i j k m tr = (r, m', tr')"
  shows "\<exists>fs. allocs alloc tr fs tr' \<and> (\<forall>tab. table_tree m root tab \<and> path_ok [i] \<longrightarrow> descends m m' root tab fs [i, j, k] r)"
proof -
  have ok: "path_ok ([i] @ [x])" "path_ok ([i, x] @ [y])" if "path_ok [i]" for x y using that by (simp_all add: path_ok_def)
  have root: "tab [] = Some root" if "table_tree m root tab" for tab m using that by (simp add: table_tree_def)
  obtain r1 m1 tr1 where s1: "next_table alloc root i m tr = (r1, m1, tr1)" by (metis surj_pair)
  obtain fs1 where a1: "allocs alloc tr fs1 tr1" and d1: "\<forall>rt tab p. table_tree m rt tab \<and> tab p = Some root \<and> length p < 3 \<and>
     path_ok (p @ [i]) \<and>
     (\<forall>n < length p. \<exists>t. tab (take n p) = Some t \<and> contains_flags (pt_entry m t (p ! n)) LOAD_FLAGS) \<longrightarrow>
     descends m m1 rt tab fs1 (p @ [i]) r1"
    using next_table_descends [OF s1] by (elim exE conjE) (rule that)
  have D1: "descends m m1 root tab fs1 [i] r1" if "table_tree m root tab" "path_ok [i]" for tab
    using d1 [rule_format, of root tab "[]"] that root by simp
  show ?thesis
  proof (cases r1)
    case (Inl e)
    then have "r = Inl e" "m' = m1" "tr' = tr1" using step s1 by (simp_all add: path_tables_def sum_bind_def)
    then show ?thesis using a1 D1 Inl descends_Inl by (intro exI [of _ fs1]) blast
  next
    case (Inr t3)
    obtain r2 m2 tr2 where s2: "next_table alloc t3 j m1 tr1 = (r2, m2, tr2)" by (metis surj_pair)
    obtain fs2 where a2: "allocs alloc tr1 fs2 tr2" and d2: "\<forall>rt tab p. table_tree m1 rt tab \<and> tab p = Some t3 \<and> length p < 3 \<and>
       path_ok (p @ [j]) \<and>
       (\<forall>n < length p. \<exists>t. tab (take n p) = Some t \<and> contains_flags (pt_entry m1 t (p ! n)) LOAD_FLAGS) \<longrightarrow>
       descends m1 m2 rt tab fs2 (p @ [j]) r2"
      using next_table_descends [OF s2] by (elim exE conjE) (rule that)
    have D2: "descends m m2 root tab (fs1 @ fs2) [i, j] r2" if "table_tree m root tab" "path_ok [i]" for tab
    proof (rule descends_step [OF D1 [OF that, unfolded Inr]])
      fix tab1 assume "table_tree m1 root tab1" "tab1 [i] = Some t3"
        "\<forall>n<length [i]. \<exists>t. tab1 (take n [i]) = Some t \<and> contains_flags (pt_entry m1 t ([i] ! n)) LOAD_FLAGS"
      then show "descends m1 m2 root tab1 fs2 [i, j] r2"
        using d2 [rule_format, of root tab1 "[i]"] ok(1) [OF that(2)] by simp
    qed
    have al2: "allocs alloc tr (fs1 @ fs2) tr2" by (rule allocs_append [OF a1 a2])
    show ?thesis
    proof (cases r2)
      case (Inl e)
      then have "r = Inl e" "m' = m2" "tr' = tr2" using step s1 s2 Inr by (simp_all add: path_tables_def sum_bind_def)
      then show ?thesis using al2 D2 Inl descends_Inl by (intro exI [of _ "fs1 @ fs2"]) blast
    next
      case (Inr t2)
      have s3: "next_table alloc t2 k m2 tr2 = (r, m', tr')"
        using step s1 s2 \<open>r1 = Inr t3\<close> Inr by (simp add: path_tables_def sum_bind_def)
      obtain fs3 where a3: "allocs alloc tr2 fs3 tr'" and d3: "\<forall>rt tab p. table_tree m2 rt tab \<and> tab p = Some t2 \<and> length p < 3 \<and>
         path_ok (p @ [k]) \<and>
         (\<forall>n < length p. \<exists>t. tab (take n p) = Some t \<and> contains_flags (pt_entry m2 t (p ! n)) LOAD_FLAGS) \<longrightarrow>
         descends m2 m' rt tab fs3 (p @ [k]) r"
        using next_table_descends [OF s3] by (elim exE conjE) (rule that)
      have D3: "descends m m' root tab ((fs1 @ fs2) @ fs3) [i, j, k] r" if "table_tree m root tab" "path_ok [i]" for tab
      proof (rule descends_step [OF D2 [OF that, unfolded Inr]])
        fix tab1 assume "table_tree m2 root tab1" "tab1 [i, j] = Some t2"
          "\<forall>n<length [i, j]. \<exists>t. tab1 (take n [i, j]) = Some t \<and> contains_flags (pt_entry m2 t ([i, j] ! n)) LOAD_FLAGS"
        then show "descends m2 m' root tab1 fs3 [i, j, k] r"
          using d3 [rule_format, of root tab1 "[i, j]"] ok(2) [OF that(2)] by simp
      qed
      show ?thesis using allocs_append [OF al2 a3] D3 by (intro exI [of _ "(fs1 @ fs2) @ fs3"]) blast
    qed
  qed
qed

lemma tree_effect:
  assumes t: "table_tree m root tab" "table_tree m' root tab'" and g: "grows m m' tab tab'"
  shows "tables_effect (paging4 phys_ok regions nx) root page m m' (ran tab')"
    "is_user_address a \<Longrightarrow> leaf (paging4 phys_ok regions nx) m' root a = leaf (paging4 phys_ok regions nx) m root a"
proof -
  have eq: "leaf (paging4 phys_ok regions nx) m' root a = leaf (paging4 phys_ok regions nx) m root a \<and>
     (leaf (paging4 phys_ok regions nx) m root a \<noteq> None \<and> upper_open (paging4 phys_ok regions nx) m root a \<longrightarrow>
       upper_open (paging4 phys_ok regions nx) m' root a)" if u: "is_user_address a" for a
  proof -
    obtain i j k l where ix: "indices4 a = [i, j, k, l]" "path_ok [i]" by (rule indices4_path [OF u])
    show ?thesis using grows_leaf [OF g t ix(2), of j k l] by (simp add: leaf_def upper_open_def ix(1))
  qed
  then show "leaf (paging4 phys_ok regions nx) m' root a = leaf (paging4 phys_ok regions nx) m root a" if "is_user_address a"
    using that by blast
  have "tab [] = Some root" using t(1) by (simp add: table_tree_def)
  then have "pt_entry m' root i = pt_entry m root i" if "KERNEL_PML4_FIRST_INDEX \<le> i" for i
    using g that unfolding grows_def by (auto simp: path_ok_def)
  then show "tables_effect (paging4 phys_ok regions nx) root page m m' (ran tab')"
    using g eq unfolding tables_effect_def grows_def by blast
qed

lemma map_to4_law:
  fixes phys_ok regions nx defines "env \<equiv> paging4 phys_ok regions nx"
  assumes inv: "tree_inv m root T" and page: "is_user_address page" "page_of page = page"
    and frame: "frame_ok frame" "frame \<notin> T" and fl: "flags_ok flags" "contains_flags flags LOAD_FLAGS"
    and step: "map_to4 alloc root page frame flags m tr = (r, m', tr')"
  shows "\<exists>fs. allocs alloc tr fs tr' \<and>
        (distinct fs \<and> set fs \<inter> insert frame T = {} \<and> (\<forall>f\<in>set fs. frame_ok f) \<longrightarrow>
          tree_inv m' root (T \<union> set fs) \<and> tables_effect env root page m m' (T \<union> set fs) \<and>
          (case r of Inl _ \<Rightarrow> leaf env m' root page = leaf env m root page
           | Inr _ \<Rightarrow> leaf env m root page = None \<and> leaf env m' root page = Some (frame OR flags) \<and>
               upper_open env m' root page))"
proof -
  obtain tab where t: "table_tree m root tab" "ran tab = T" using inv by (auto simp: tree_inv_def)
  obtain i j k l where ix: "indices4 page = [i, j, k, l]" and p: "path_ok [i]" by (rule indices4_path [OF page(1)])
  obtain r1 m1 tr1 where s1: "path_tables alloc root i j k m tr = (r1, m1, tr1)" by (metis surj_pair)
  from path_tables_descends [OF s1] obtain fs where al: "allocs alloc tr fs tr1"
    and d: "descends m m1 root tab fs [i, j, k] r1" using t(1) p by blast
  note stp = step [unfolded map_to4_eq [OF ix] s1 sum_bind_def split_conv]
  have tr': "tr' = tr1" using stp by (auto split: sum.splits if_splits)
  have "tree_inv m' root (T \<union> set fs) \<and> tables_effect env root page m m' (T \<union> set fs) \<and>
          (case r of Inl _ \<Rightarrow> leaf env m' root page = leaf env m root page
           | Inr _ \<Rightarrow> leaf env m root page = None \<and> leaf env m' root page = Some (frame OR flags) \<and>
               upper_open env m' root page)"
    if f: "distinct fs" "set fs \<inter> insert frame T = {}" "\<forall>f\<in>set fs. frame_ok f"
  proof -
    obtain tab' where T: "table_tree m1 root tab'" "grows m m1 tab tab'" "ran tab' = T \<union> set fs"
      and r1: "\<And>u. r1 = Inr u \<Longrightarrow> tab' [i, j, k] = Some u \<and>
        (\<forall>n < 3. \<exists>t. tab' (take n [i, j, k]) = Some t \<and> contains_flags (pt_entry m1 t ([i, j, k] ! n)) LOAD_FLAGS)"
      using d f t(2) unfolding descends_def by (auto simp: numeral_3_eq_3)
    note eff = tree_effect [OF t(1) T(1,2), where phys_ok = phys_ok and regions = regions and nx = nx, folded env_def]
    show ?thesis
    proof (cases "\<exists>t1. r1 = Inr t1 \<and> pt_entry m1 t1 l = 0")
      case False
      then have "m' = m1" "\<exists>e. r = Inl e" using stp by (auto split: sum.splits if_splits)
      then show ?thesis using T(1,3) eff page(1) by (auto simp: tree_inv_def)
    next
      case True
      then obtain t1 where t1: "r1 = Inr t1" "pt_entry m1 t1 l = 0" by blast
      have rm: "r = Inr ()" "m' = set_pt_entry m1 t1 l (frame OR flags)" using stp t1 by auto
      note tab1 = r1 [OF t1(1)]
      have pr: "contains_flags (frame OR flags) PTE_PRESENT"
        using fl(2) contains_or [of flags PTE_PRESENT frame] by (simp add: contains_load_flags or.commute)
      note sl = set_leaf [OF T(1) p conjunct1 [OF tab1] disjI2 [OF pr], where l = l, folded rm(2)]
      have lp: "leaf env m1 root page = None"
        using tree_walk(1) [OF T(1) p, of j k l] tab1 t1(2) no_flags by (simp add: leaf_def env_def ix)
      have lp': "leaf env m' root page = Some (frame OR flags)" using sl(3) pr by (simp add: leaf_def env_def ix)
      have "\<exists>t3 t2. tab' [i] = Some t3 \<and> tab' [i, j] = Some t2 \<and> open_levels m1 [i, j, k, l] root =
        (contains_flags (pt_entry m1 root i) LOAD_FLAGS \<and> contains_flags (pt_entry m1 t3 j) LOAD_FLAGS \<and>
         contains_flags (pt_entry m1 t2 k) LOAD_FLAGS)"
        using tree_walk(4) [OF T(1) p, of j k l] tab1 by simp
      moreover have "tab' [] = Some root" using T(1) by (simp add: table_tree_def)
      ultimately have "open_levels m1 [i, j, k, l] root"
        using conjunct2 [OF tab1, rule_format, of 0] conjunct2 [OF tab1, rule_format, of 1] conjunct2 [OF tab1, rule_format, of 2]
        by auto
      then have op: "upper_open env m' root page" using sl(4) [OF p, of j k l] tab1 by (simp add: upper_open_def env_def ix)
      have "tables_effect env root page m m' (T \<union> set fs)"
        unfolding tables_effect_def
      proof (intro conjI allI impI)
        show "m' f = m f" if "f \<notin> T \<union> set fs" for f
        proof -
          have "f \<noteq> t1" using that tab1 T(3) by (auto intro: ranI)
          then show ?thesis using eff(1) that unfolding rm T(3) by (simp add: set_pt_entry_other tables_effect_def)
        qed
        show "pt_entry m' root x = pt_entry m root x" if "KERNEL_PML4_FIRST_INDEX \<le> x" for x
        proof -
          have "root \<noteq> t1"
          proof
            assume "root = t1"
            then have "tab' [] = tab' [i, j, k]" using tab1 T(1) by (simp add: table_tree_def)
            moreover have "inj_on tab' (dom tab')" using T(1) by (simp add: table_tree_def)
            ultimately show False using tab1 by (metis domI inj_onD list.distinct(1))
          qed
          then show ?thesis using eff(1) that unfolding rm T(3) by (simp add: tables_effect_def)
        qed
      next
        fix a assume a: "is_user_address a \<and> page_of a \<noteq> page"
        obtain i' j' k' l' where ix': "indices4 a = [i', j', k', l']" "path_ok [i']" by (rule indices4_path) (use a in blast)
        have "indices4 a \<noteq> indices4 page" using indices4_page [of a page] a page by simp
        then have "leaf env m' root a = leaf env m1 root a" using sl(2) ix ix' by (simp add: leaf_def env_def)
        then show "leaf env m' root a = leaf env m root a" using eff(2) a by simp
      next
        fix a assume a: "is_user_address a \<and> leaf env m root a \<noteq> None \<and> upper_open env m root a"
        obtain i' j' k' l' where ix': "indices4 a = [i', j', k', l']" "path_ok [i']" by (rule indices4_path) (use a in blast)
        have "upper_open env m1 root a" using eff(1) a by (simp add: tables_effect_def)
        moreover have "leaf env m1 root a \<noteq> None" using eff(2) a by simp
        then have "tab' [i', j', k'] \<noteq> None"
          using tree_walk(1) [OF T(1) ix'(2)] by (auto simp: leaf_def env_def ix' split: option.splits)
        ultimately show "upper_open env m' root a" using sl(4) [OF ix'(2)] by (simp add: upper_open_def env_def ix')
      qed
      then show ?thesis using sl(1) T(3) lp lp' op eff(2) page(1) rm(1) by (auto simp: tree_inv_def)
    qed
  qed
  with al show ?thesis unfolding tr' by blast
qed

lemma update_flags4_law:
  fixes phys_ok regions nx defines "env \<equiv> paging4 phys_ok regions nx"
  assumes inv: "tree_inv m root T" and page: "is_user_address page" "page_of page = page"
    and fl: "flags_ok flags" "contains_flags flags PTE_PRESENT"
    and step: "update_flags4 root page flags m = (r, m')"
  shows "tree_inv m' root T \<and> tables_effect env root page m m' T \<and>
      (case r of Inl _ \<Rightarrow> leaf env m root page = None \<and> m' = m
       | Inr _ \<Rightarrow> (\<exists>e. leaf env m root page = Some e \<and> leaf env m' root page = Some (entry_addr e OR flags)))"
proof -
  obtain tab where t: "table_tree m root tab" "ran tab = T" using inv by (auto simp: tree_inv_def)
  obtain i j k l where ix: "indices4 page = [i, j, k, l]" and p: "path_ok [i]" by (rule indices4_path [OF page(1)])
  note w = tree_walk [OF t(1) p, of j k]
  note stp = step [unfolded update_flags4_def ix list.case w(3)]
  have grefl: "grows m m tab tab" by (auto simp: grows_def)
  note eff0 = tree_effect(1) [OF t(1) t(1) grefl, where phys_ok = phys_ok and regions = regions and nx = nx, folded env_def]
  show ?thesis
  proof (cases "tab [i, j, k]")
    case None
    then have "m' = m" "\<exists>e. r = Inl e" using stp by auto
    then show ?thesis using inv eff0 t(2) w(1) [of l] None by (auto simp: leaf_def env_def ix)
  next
    case (Some t1)
    show ?thesis
    proof (cases "pt_entry m t1 l = 0")
      case True
      then have "m' = m" "\<exists>e. r = Inl e" using stp Some by auto
      then show ?thesis using inv eff0 t(2) w(1) [of l] Some True no_flags by (auto simp: leaf_def env_def ix)
    next
      case False
      define e where "e = pt_entry m t1 l"
      have e: "contains_flags e PTE_PRESENT" using t(1) Some False unfolding table_tree_def e_def by force
      have rm: "r = Inr ()" "m' = set_pt_entry m t1 l (entry_addr e OR flags)" using stp Some False by (auto simp: e_def)
      have pr: "contains_flags (entry_addr e OR flags) PTE_PRESENT"
        using contains_or [OF fl(2), of "entry_addr e"] by (simp add: or.commute)
      note sl = set_leaf [OF t(1) p Some disjI2 [OF pr], where l = l, folded rm(2)]
      have lp: "leaf env m root page = Some e" using w(1) [of l] Some e by (simp add: leaf_def env_def ix e_def)
      have lp': "leaf env m' root page = Some (entry_addr e OR flags)" using sl(3) pr by (simp add: leaf_def env_def ix)
      have "t1 \<noteq> root"
      proof
        assume "t1 = root"
        then have "tab [] = tab [i, j, k]" using Some t(1) by (simp add: table_tree_def)
        moreover have "inj_on tab (dom tab)" using t(1) by (simp add: table_tree_def)
        ultimately show False using Some by (metis domI inj_onD list.distinct(1))
      qed
      have "t1 \<in> T" using Some t(2) by (auto intro: ranI)
      then have out: "m' f = m f" if "f \<notin> T" for f
        using that unfolding rm(2) by (intro set_pt_entry_other) blast
      have others: "leaf env m' root a = leaf env m root a" if u: "is_user_address a" and np: "page_of a \<noteq> page" for a
      proof -
        obtain i' j' k' l' where ix': "indices4 a = [i', j', k', l']" "path_ok [i']" by (rule indices4_path [OF u])
        have "indices4 a \<noteq> indices4 page" using indices4_page [of a page] u np page by simp
        then show ?thesis using sl(2) ix ix' by (simp add: leaf_def env_def)
      qed
      have open': "upper_open env m' root a" if u: "is_user_address a" and la: "leaf env m root a \<noteq> None" and ua: "upper_open env m root a" for a
      proof -
        obtain i' j' k' l' where ix': "indices4 a = [i', j', k', l']" "path_ok [i']" by (rule indices4_path [OF u])
        have "tab [i', j', k'] \<noteq> None"
          using tree_walk(1) [OF t(1) ix'(2)] la by (auto simp: leaf_def env_def ix' split: option.splits)
        then show ?thesis using sl(4) [OF ix'(2)] ua by (simp add: upper_open_def env_def ix')
      qed
      have "pt_entry m' root x = pt_entry m root x" for x using \<open>t1 \<noteq> root\<close> by (simp add: rm(2))
      then have "tables_effect env root page m m' T"
        using out others open' by (simp add: tables_effect_def)
      then show ?thesis using sl(1) t(2) lp lp' rm(1) by (auto simp: tree_inv_def)
    qed
  qed
qed

interpretation four: page_mapper "paging4 phys_ok regions nx" tree_inv for phys_ok regions nx
proof
  show "pg_va_ok (paging4 phys_ok regions nx) a" if "a \<le> USER_SPACE_END" for a
    using that by (simp add: USER_SPACE_END_def word_le_nat_alt)
  show "\<exists>i j k l. pg_indices (paging4 phys_ok regions nx) a = [i, j, k, l] \<and> i < KERNEL_PML4_FIRST_INDEX"
    if u: "is_user_address a" for a
  proof -
    obtain i j k l where "indices4 a = [i, j, k, l]" "path_ok [i]" by (rule indices4_path [OF u])
    then show ?thesis by (simp add: path_ok_def)
  qed
  show "(pg_indices (paging4 phys_ok regions nx) a = pg_indices (paging4 phys_ok regions nx) b) = (page_of a = page_of b)"
    if "is_user_address a" "is_user_address b" for a b using indices4_page [OF that] by simp
  show "tree_inv m root {root}" if "frame_ok root" "\<And>i. i < KERNEL_PML4_FIRST_INDEX \<Longrightarrow> pt_entry m root i = 0" for root m
    using tree_init [OF that] .
  show "tree_inv m' root T" if "tree_inv m root T" "\<And>f. f \<in> T \<Longrightarrow> m' f = m f" for m m' root T
    using tree_frame [OF that] .
  show "set (walk_tables m (pg_indices (paging4 phys_ok regions nx) a) root) \<subseteq> T" if i: "tree_inv m root T" and u: "is_user_address a"
    for m root T a
  proof -
    obtain i j k l where ix: "indices4 a = [i, j, k, l]" "path_ok [i]" by (rule indices4_path [OF u])
    obtain tab where t: "table_tree m root tab" "ran tab = T" using i by (auto simp: tree_inv_def)
    show ?thesis unfolding paging4_simps ix(1) t(2) [symmetric] by (rule tree_walk(2) [OF t(1) ix(2)])
  qed
  show "small_levels m (pg_indices (paging4 phys_ok regions nx) a) root" if i: "tree_inv m root T" and u: "is_user_address a"
    for m root T a
  proof -
    obtain i j k l where ix: "indices4 a = [i, j, k, l]" "path_ok [i]" by (rule indices4_path [OF u])
    obtain tab where t: "table_tree m root tab" using i by (auto simp: tree_inv_def)
    show ?thesis unfolding paging4_simps ix(1) by (rule tree_walk(5) [OF t ix(2)])
  qed
qed (unfold paging4_simps, (rule map_to4_law; assumption), (rule update_flags4_law; assumption))

end
