(* ===== verification/AddressSpaceSpec.thy ===== *)
theory AddressSpaceSpec
  imports PageTables
begin

text \<open>
  The abstract address space: a map from addresses to permissions and bytes, on which mapping,
  protecting and writing are plain updates. Every sequence of operations on the detailed model is a
  sequence of these, nothing outside the space changes, and the end of the space gives its frames
  back.
\<close>

unbundle bit_operations_syntax

section \<open>The specification\<close>

datatype space_op = MapPage u64 u64 | ProtectPage u64 u64 | WriteAt u64 bytes | ZeroAt u64 nat

text \<open>What the callers in the kernel keep to: whole pages, flags outside the address bits, user ranges.\<close>

fun space_op_ok :: "space_op \<Rightarrow> bool" where
  "space_op_ok (MapPage page flags) \<longleftrightarrow> page_of page = page \<and> flags_ok flags \<and> contains_flags flags LOAD_FLAGS"
| "space_op_ok (ProtectPage page flags) \<longleftrightarrow> page_of page = page \<and> flags_ok flags \<and> contains_flags flags PTE_PRESENT"
| "space_op_ok (WriteAt addr data) \<longleftrightarrow> unat addr + length data \<le> unat USER_SPACE_END"
| "space_op_ok (ZeroAt addr len) \<longleftrightarrow> unat addr + len \<le> unat USER_SPACE_END"

fun space_exec :: "paging \<Rightarrow> space_op \<Rightarrow> vm \<times> address_space \<Rightarrow> (map_error, unit) outcome \<times> vm \<times> address_space" where
  "space_exec env (MapPage page flags) = map_page env page flags"
| "space_exec env (ProtectPage page flags) = protect_page env page flags"
| "space_exec env (WriteAt addr data) = write_at env addr data"
| "space_exec env (ZeroAt addr len) = zero_at env addr len"

type_synonym space_map = "u64 \<Rightarrow> (u64 \<times> u8) option"

definition overwrite :: "u64 \<Rightarrow> bytes \<Rightarrow> space_map \<Rightarrow> space_map" where
  "overwrite addr data A = (\<lambda>a.
     if unat addr \<le> unat a \<and> unat a < unat addr + length data
     then map_option (\<lambda>(fl, _). (fl, data ! (unat a - unat addr))) (A a) else A a)"

text \<open>A write either happens or stops at a page that is not there, having changed bytes of the range only.\<close>

definition write_spec :: "u64 \<Rightarrow> bytes \<Rightarrow> space_map \<Rightarrow> (map_error, unit) outcome \<Rightarrow> space_map \<Rightarrow> bool" where
  "write_spec addr data A r A' \<longleftrightarrow>
     (case r of
        Ok _ \<Rightarrow> (\<forall>a. unat addr \<le> unat a \<and> unat a < unat addr + length data \<longrightarrow> A a \<noteq> None) \<and> A' = overwrite addr data A
      | Err _ \<Rightarrow> (\<exists>a. unat addr \<le> unat a \<and> unat a < unat addr + length data \<and> A a = None) \<and>
          (\<forall>a. map_option fst (A' a) = map_option fst (A a)) \<and>
          (\<forall>a. \<not> (unat addr \<le> unat a \<and> unat a < unat addr + length data) \<longrightarrow> A' a = A a)
      | Panic \<Rightarrow> False)"

fun space_spec :: "space_op \<Rightarrow> space_map \<Rightarrow> (map_error, unit) outcome \<Rightarrow> space_map \<Rightarrow> bool" where
  "space_spec (MapPage page flags) A r A' \<longleftrightarrow>
     (case r of
        Ok _ \<Rightarrow> is_user_address page \<and> (\<forall>a. page_of a = page \<longrightarrow> A a = None) \<and>
          (\<exists>c. A' = (\<lambda>a. if page_of a = page then Some (flags, c a) else A a))
      | Err _ \<Rightarrow> A' = A
      | Panic \<Rightarrow> False)"
| "space_spec (ProtectPage page flags) A r A' \<longleftrightarrow>
     (case r of
        Ok _ \<Rightarrow> A page \<noteq> None \<and> A' = (\<lambda>a. if page_of a = page then map_option (\<lambda>(_, b). (flags, b)) (A a) else A a)
      | Err _ \<Rightarrow> A page = None \<and> A' = A
      | Panic \<Rightarrow> False)"
| "space_spec (WriteAt addr data) A r A' \<longleftrightarrow> write_spec addr data A r A'"
| "space_spec (ZeroAt addr len) A r A' \<longleftrightarrow> write_spec addr (replicate len 0) A r A'"

text \<open>A run, with the results the operations returned.\<close>

fun space_run ::
  "paging \<Rightarrow> space_op list \<Rightarrow> vm \<times> address_space \<Rightarrow> (map_error, unit) outcome list \<times> vm \<times> address_space" where
  "space_run env [] s = ([], s)"
| "space_run env (oper # ops) s =
     (case space_exec env oper s of (r, s1) \<Rightarrow> (case space_run env ops s1 of (rs, s') \<Rightarrow> (r # rs, s')))"

fun space_trace :: "space_op list \<Rightarrow> (map_error, unit) outcome list \<Rightarrow> space_map \<Rightarrow> space_map \<Rightarrow> bool" where
  "space_trace [] [] A A' \<longleftrightarrow> A' = A"
| "space_trace (oper # ops) (r # rs) A A' \<longleftrightarrow> (\<exists>A1. space_spec oper A r A1 \<and> space_trace ops rs A1 A')"
| "space_trace _ _ _ _ \<longleftrightarrow> False"

text \<open>The frames that failed mappings have lost at most.\<close>

fun may_lose :: "space_op list \<Rightarrow> (map_error, unit) outcome list \<Rightarrow> nat" where
  "may_lose (MapPage _ _ # ops) (Err _ # rs) = Suc (may_lose ops rs)"
| "may_lose (_ # ops) (_ # rs) = may_lose ops rs"
| "may_lose _ _ = 0"

section \<open>Refinement\<close>

lemma distinct_sub: "distinct xs \<Longrightarrow> set xs \<subseteq> set ys \<Longrightarrow> mset xs \<subseteq># mset ys"
proof (rule mset_subset_eqI)
  fix a assume "distinct xs" "set xs \<subseteq> set ys"
  then show "count (mset xs) a \<le> count (mset ys) a"
    unfolding distinct_count_atmost_1 by (cases "a \<in> set xs") (auto simp: Suc_le_eq count_eq_zero_iff)
qed

context page_mapper
begin

lemma write_refines:
  assumes ok: "space_ok env pt_inv T s" and b: "unat addr + length data \<le> unat USER_SPACE_END"
    and step: "write_at env addr data s = (r, s')"
  shows "space_ok env pt_inv T s' \<and> space_extends {#} s s' \<and> write_spec addr data (cells env s) r (cells env s')"
proof -
  obtain v sp where s: "s = (v, sp)" by force
  note p = write_at_cells [OF ok [unfolded s] b step [unfolded s]]
  have ext: "space_extends {#} s s'" using p(2-4) by (auto simp: s space_extends_def intro: exI [of _ "[]"])
  have "write_spec addr data (cells env s) r (cells env s')"
  proof (cases r)
    case (Ok u)
    have "cells env s' a = overwrite addr data (cells env s) a" for a
      using p(6) [of a] p(7) Ok by (force simp: s overwrite_def)
    moreover have "\<forall>a. unat addr \<le> unat a \<and> unat a < unat addr + length data \<longrightarrow> cells env s a \<noteq> None"
      using p(7) Ok by (force simp: s)
    ultimately show ?thesis using Ok by (auto simp: write_spec_def)
  qed (use p(5-7) in \<open>simp_all add: write_spec_def s\<close>)
  then show ?thesis using p(1) ext by simp
qed

lemma exec_refines:
  assumes ok: "space_ok env pt_inv T s" and oper: "space_op_ok oper" and step: "space_exec env oper s = (r, s')"
  shows "(\<exists>T'. space_ok env pt_inv T' s') \<and> space_spec oper (cells env s) r (cells env s') \<and>
    (\<exists>lost. space_extends lost s s' \<and> size lost \<le> may_lose [oper] [r])"
proof -
  obtain v sp where s: "s = (v, sp)" by force
  show ?thesis
  proof (cases oper)
    case (MapPage page flags)
    have a: "page_of page = page" "flags_ok flags" "contains_flags flags LOAD_FLAGS" "map_page env page flags (v, sp) = (r, s')"
      using oper step by (simp_all add: MapPage s)
    obtain T' fs lost where m: "space_ok env pt_inv T' s'" "outside_same (v, sp) s'"
      "fw_held (vm_frames (fst s')) = fw_held (vm_frames v) @ lost @ fs" "as_owned (snd s') = as_owned sp @ fs"
      and c: "case r of
         Ok _ \<Rightarrow> lost = [] \<and> is_user_address page \<and>
           (\<forall>a. if page_of a = page then cells env (v, sp) a = None \<and> (\<exists>b. cells env s' a = Some (flags, b))
                else cells env s' a = cells env (v, sp) a)
       | Err e \<Rightarrow> length lost \<le> 1 \<and> cells env s' = cells env (v, sp)
       | Panic \<Rightarrow> False"
      by (rule map_page_cells [OF ok [unfolded s] a])
    have ext: "space_extends (mset lost) s s'" using m(2-4) by (auto simp: s space_extends_def intro!: exI [of _ fs])
    show ?thesis
    proof (cases r)
      case (Ok u)
      have all: "if page_of a = page then cells env s a = None \<and> (\<exists>b. cells env s' a = Some (flags, b))
                else cells env s' a = cells env s a" for a using c Ok s by simp
      have "cells env s' = (\<lambda>a. if page_of a = page then Some (flags, snd (the (cells env s' a))) else cells env s a)"
      proof
        fix a show "cells env s' a = (if page_of a = page then Some (flags, snd (the (cells env s' a))) else cells env s a)"
          using all [of a] by auto
      qed
      then have "\<exists>c. cells env s' = (\<lambda>a. if page_of a = page then Some (flags, c a) else cells env s a)"
        by (rule exI [of _ "\<lambda>a. snd (the (cells env s' a))"])
      moreover have "\<forall>a. page_of a = page \<longrightarrow> cells env s a = None" using all by metis
      ultimately show ?thesis using Ok c m(1) ext by (auto simp: MapPage)
    next
      case (Err e)
      then show ?thesis using c m(1) ext s by (auto simp: MapPage intro!: exI [of _ "mset lost"])
    qed (use c in simp)
  next
    case (ProtectPage page flags)
    have a: "page_of page = page" "flags_ok flags" "contains_flags flags PTE_PRESENT" "protect_page env page flags (v, sp) = (r, s')"
      using oper step by (simp_all add: ProtectPage s)
    note p = protect_page_cells [OF ok [unfolded s] a]
    have ext: "space_extends {#} s s'" using p(2-4) by (auto simp: s space_extends_def intro: exI [of _ "[]"])
    have "space_spec oper (cells env s) r (cells env s')"
      using p(5) by (cases r) (auto simp: ProtectPage s fun_eq_iff)
    then show ?thesis using p(1) ext by (auto intro!: exI [of _ "{#}"])
  next
    case (WriteAt addr data)
    from write_refines [OF ok, of addr data r s'] oper step show ?thesis by (auto simp: WriteAt intro!: exI [of _ "{#}"])
  next
    case (ZeroAt addr len)
    from write_refines [OF ok, of addr "replicate len 0" r s'] oper step
    show ?thesis by (auto simp: ZeroAt zero_at_def intro!: exI [of _ "{#}"])
  qed
qed

lemma run_refines:
  assumes "space_ok env pt_inv T s" "\<forall>oper\<in>set ops. space_op_ok oper" "space_run env ops s = (rs, s')"
  shows "(\<exists>T'. space_ok env pt_inv T' s') \<and> space_trace ops rs (cells env s) (cells env s') \<and>
    (\<exists>lost. space_extends lost s s' \<and> size lost \<le> may_lose ops rs)"
  using assms
proof (induction ops arbitrary: T s rs)
  case Nil
  then show ?case by (auto intro!: exI [of _ "{#}"])
next
  case (Cons oper ops)
  obtain r s1 where e: "space_exec env oper s = (r, s1)" by (cases "space_exec env oper s")
  obtain rs1 where rs: "space_run env ops s1 = (rs1, s')" "rs = r # rs1" using Cons.prems(3) e by (auto split: prod.splits)
  obtain T1 l1 where one: "space_ok env pt_inv T1 s1" "space_spec oper (cells env s) r (cells env s1)"
    "space_extends l1 s s1" "size l1 \<le> may_lose [oper] [r]"
    using exec_refines [OF Cons.prems(1) _ e] Cons.prems(2) by auto
  obtain T2 l2 where rest: "space_ok env pt_inv T2 s'" "space_trace ops rs1 (cells env s1) (cells env s')"
    "space_extends l2 s1 s'" "size l2 \<le> may_lose ops rs1"
    using Cons.IH [OF one(1) _ rs(1)] Cons.prems(2) by auto
  have "distinct (fw_held (vm_frames (fst s')))"
    using rest(1) by (cases s') (auto simp: space_ok_def intro: frames_okD(1))
  from space_extends_trans [OF one(3) rest(3) this] have "space_extends (l1 + l2) s s'" .
  moreover have "size (l1 + l2) \<le> may_lose (oper # ops) rs"
    using one(4) rest(4) rs(2) by (cases oper; cases r) auto
  ultimately show ?case using rest(1,2) one(2) rs(2) by auto
qed

lemma run_drop:
  assumes "space_ok env pt_inv T (v, sp)" "\<forall>oper\<in>set ops. space_op_ok oper"
    and "space_run env ops (v, sp) = (rs, v', sp')"
  shows "space_trace ops rs (cells env (v, sp)) (cells env (v', sp')) \<and>
    outside_same (v, sp) (v', sp') \<and> frames_ok env (vm_frames (address_space_drop sp' v')) \<and>
    (\<exists>lost. mset (fw_held (vm_frames (address_space_drop sp' v'))) + mset (space_frames sp) =
         mset (fw_held (vm_frames v)) + lost \<and> size lost \<le> may_lose ops rs)"
proof -
  from run_refines [OF assms(1-3)] obtain T' lost where r: "space_ok env pt_inv T' (v', sp')"
    "space_trace ops rs (cells env (v, sp)) (cells env (v', sp'))"
    "space_extends lost (v, sp) (v', sp')" "size lost \<le> may_lose ops rs" by blast
  note d = address_space_drop_ok [OF r(1)]
  obtain fs where fs: "as_owned sp' = as_owned sp @ fs"
    "mset (fw_held (vm_frames v')) = mset (fw_held (vm_frames v)) + mset fs + lost" "outside_same (v, sp) (v', sp')"
    using r(3) by (auto simp: space_extends_def)
  have root: "as_root sp' = as_root sp" using fs(3) by (simp add: outside_same_def)
  have sub: "mset (space_frames sp) \<subseteq># mset (fw_held (vm_frames v))"
    using assms(1) by (intro distinct_sub) (auto simp: space_ok_def)
  have "mset (fw_held (vm_frames (address_space_drop sp' v'))) + mset (space_frames sp) =
      mset (fw_held (vm_frames v)) + lost"
  proof -
    obtain Y where Y: "mset (fw_held (vm_frames v)) = mset (space_frames sp) + Y"
      using sub unfolding mset_subset_eq_exists_conv by blast
    have X: "mset (space_frames sp') = mset (space_frames sp) + mset fs" by (simp add: space_frames_def fs(1) root)
    show ?thesis unfolding d(2) fs(2) X Y by simp
  qed
  with d(1) r(2,4) fs(3) show ?thesis by blast
qed

end

text \<open>
  C31. A private address space is a map from addresses to permissions and bytes. For every sequence
  of mapping, protecting, writing and zeroing, whatever each of them returns, the detailed model and
  the abstract map agree after every step, and no step panics; the frames in use outside the space
  and the kernel's half of its tables are as before; and when the space is dropped every frame is
  given back, but for at most one per mapping that failed.
\<close>

theorem address_space_refines:
  assumes "page_mapper env pt_inv" "space_ok env pt_inv T (v, sp)" "\<forall>oper\<in>set ops. space_op_ok oper"
    and "space_run env ops (v, sp) = (rs, v', sp')"
  shows "space_trace ops rs (cells env (v, sp)) (cells env (v', sp')) \<and>
    outside_same (v, sp) (v', sp') \<and> frames_ok env (vm_frames (address_space_drop sp' v')) \<and>
    (\<exists>lost. mset (fw_held (vm_frames (address_space_drop sp' v'))) + mset (space_frames sp) =
         mset (fw_held (vm_frames v)) + lost \<and> size lost \<le> may_lose ops rs)"
  by (rule page_mapper.run_drop [OF assms])

section \<open>A machine\<close>

definition demo_paging :: paging where
  "demo_paging = paging4 (\<lambda>_. True) [\<lparr>mr_start = 0x1000, mr_end = 0x1000000, mr_usable = True\<rparr>] True"

text \<open>CR3 is frame 0, where one entry of the kernel's half is present.\<close>

definition demo_vm :: vm where
  "demo_vm = \<lparr>vm_phys = (\<lambda>f k. if f = 0 \<and> k = 2048 then 1 else 0),
     vm_frames = frame_world_init (pg_regions demo_paging), vm_cr3 = 0, vm_kernel_root = None\<rparr>"

lemma demo_frames_ok: "frames_ok demo_paging (vm_frames demo_vm)"
proof -
  have "regions_ok (pg_regions demo_paging)" "accepts_physical (pg_phys_ok demo_paging)"
    by (simp_all add: demo_paging_def regions_ok_def region_ok_def accepts_physical_def)
  then show ?thesis by (simp add: frames_ok_def demo_vm_def frame_inv_init)
qed

lemma demo_mapper: "page_mapper demo_paging tree_inv"
  unfolding demo_paging_def by (rule four.page_mapper_axioms)

lemma demo_take: "\<exists>w. take_frame demo_paging (vm_frames demo_vm) = (Ok (Some 0x1000), w)"
  by (simp add: take_frame_def demo_vm_def demo_paging_def frame_world_init_def boot_alloc_init_def allocate_frame_def
      acquire_def pool_init_def skip_to_usable_region.simps bump_frame.simps)

lemma demo_half: "\<exists>i\<in>set kernel_indices. contains_flags (pt_entry (vm_phys demo_vm) (vm_cr3 demo_vm) i) PTE_PRESENT"
proof
  show "256 \<in> set kernel_indices" by (simp add: kernel_indices_def KERNEL_PML4_FIRST_INDEX_def)
  have "pt_entry (vm_phys demo_vm) (vm_cr3 demo_vm) 256 = 1"
    by (simp add: pt_entry_def demo_vm_def upt_rec u64_from_le_def)
  then show "contains_flags (pt_entry (vm_phys demo_vm) (vm_cr3 demo_vm) 256) PTE_PRESENT"
    by (simp add: contains_flags_def PTE_PRESENT_def)
qed

lemma demo_new:
  obtains v0 where "address_space_new demo_paging demo_vm = (Ok (Some \<lparr>as_root = 0x1000, as_owned = []\<rparr>), v0)"
proof -
  obtain w where t: "take_frame demo_paging (vm_frames demo_vm) = (Ok (Some 0x1000), w)" using demo_take by blast
  have "filter (\<lambda>e. contains_flags e PTE_PRESENT) (kernel_half (vm_phys demo_vm) (vm_cr3 demo_vm)) \<noteq> []"
    using demo_half by (auto simp: filter_empty_conv kernel_half_def)
  then show thesis using that by (simp add: address_space_new_def t Let_def)
qed

definition demo_space_ops :: "space_op list" where
  "demo_space_ops = [MapPage 0x400000 7, WriteAt 0x400010 [1, 2, 3], ProtectPage 0x400000 5, WriteAt 0x500000 [1]]"

theorem address_space_refines_witness:
  "case address_space_new demo_paging demo_vm of
     (Ok (Some sp), v) \<Rightarrow>
       (case space_run demo_paging demo_space_ops (v, sp) of
          (rs, v', sp') \<Rightarrow>
            space_trace demo_space_ops rs (cells demo_paging (v, sp)) (cells demo_paging (v', sp')) \<and>
            length rs = 4 \<and> frames_ok demo_paging (vm_frames (address_space_drop sp' v')))
   | _ \<Rightarrow> False"
proof -
  obtain v0 where new: "address_space_new demo_paging demo_vm = (Ok (Some \<lparr>as_root = 0x1000, as_owned = []\<rparr>), v0)"
    by (rule demo_new)
  let ?sp = "\<lparr>as_root = 0x1000, as_owned = []\<rparr>"
  obtain rs v' sp' where run: "space_run demo_paging demo_space_ops (v0, ?sp) = (rs, v', sp')"
    by (rule prod_cases3)
  have ok: "space_ok demo_paging tree_inv {0x1000} (v0, ?sp)"
    using page_mapper.address_space_new_ok(1) [OF demo_mapper demo_frames_ok new] by simp
  have ops: "\<forall>oper\<in>set demo_space_ops. space_op_ok oper"
    by (simp add: demo_space_ops_def page_of_def flags_ok_def contains_flags_def LOAD_FLAGS_def PTE_PRESENT_def
        PTE_WRITABLE_def PTE_USER_def PTE_ADDR_MASK_def USER_SPACE_END_def)
  have "length rs = 4" using run by (auto simp: demo_space_ops_def split: prod.splits)
  with address_space_refines [OF demo_mapper ok ops run] show ?thesis by (simp add: new run)
qed

end
