(* ===== verification/Images.thy ===== *)
theory Images
  imports LoaderProofs AddressSpaceSpec
begin

text \<open>
  The loader's theorems: what a loaded program is, and what its pages allow. The witnesses run on the
  four-level mapper and a small program file.
\<close>

unbundle bit_operations_syntax

section \<open>A program file\<close>

text \<open>One segment, read and execute, of four bytes at \<^verbatim>\<open>0x400000\<close> and eight in memory.\<close>

definition elf_with :: "bytes \<Rightarrow> bytes" where
  "elf_with memsz =
     [0x7F, 0x45, 0x4C, 0x46, 2, 1, 1, 0, 0, 0, 0, 0, 0, 0, 0, 0,
      2, 0, 0x3E, 0, 1, 0, 0, 0, 0, 0, 0x40, 0, 0, 0, 0, 0,
      64, 0, 0, 0, 0, 0, 0, 0, 0, 0, 0, 0, 0, 0, 0, 0,
      0, 0, 0, 0, 64, 0, 56, 0, 1, 0, 0, 0, 0, 0, 0, 0,
      1, 0, 0, 0, 5, 0, 0, 0, 120, 0, 0, 0, 0, 0, 0, 0,
      0, 0, 0x40, 0, 0, 0, 0, 0, 0, 0, 0x40, 0, 0, 0, 0, 0,
      4, 0, 0, 0, 0, 0, 0, 0] @ memsz @
     [0, 0x10, 0, 0, 0, 0, 0, 0, 0xCD, 0x80, 0xEB, 0xFC]"

definition demo_elf :: bytes where "demo_elf = elf_with [8, 0, 0, 0, 0, 0, 0, 0]"

text \<open>A segment that ends where the lower half of the address space does.\<close>

definition long_elf :: bytes where "long_elf = elf_with [0, 0, 0, 0, 0, 0x80, 0, 0]"

definition demo_header :: elf_header where
  "demo_header = \<lparr>eh_entry = 0x400000, eh_phoff = 64, eh_phentsize = 56, eh_phnum = 1\<rparr>"

lemma demo_parse: "parse_header (elf_with [a, b, c, d, e, f, g, h]) = Ok demo_header"
  by (simp add: parse_header_def elf_with_def read_ok elf_defs demo_header_def u16_from_le_def u64_from_le_def le_nat_def
      checked_mul_def checked_add_def usize_lim_def)

lemma demo_kernel_half: "kernel_half_present demo_vm"
  unfolding kernel_half_present_def using demo_half by blast

section \<open>Properties\<close>

text \<open>
  C32. Loading a program file has one of three outcomes. It succeeds, and then the new space holds,
  address for address, the bytes and the permissions the file asks for, zeros around them and a
  zeroed stack, nothing else, with the kernel's half shared and every frame accounted for. It fails,
  and then no frame in use has changed and every frame it took is given back, but for at most one.
  Or the kernel panics, which takes a segment whose end is not an address of the processor (or a
  machine without a kernel half).
\<close>

theorem load_image_exact:
  assumes "page_mapper env pt_inv" "frames_ok env (vm_frames v)"
  shows "case load_image env data name v of
      (Ok (img, sp), v') \<Rightarrow> \<exists>h. parse_header data = Ok h \<and> loaded_from env data h v sp v' \<and> rest_same v v' \<and>
        (\<exists>T. space_ok env pt_inv T (v', sp)) \<and>
        img = \<lparr>li_name = name, li_entry = eh_entry h, li_stack_top = USER_STACK_TOP, li_root = as_root sp\<rparr>
    | (Err e, v') \<Rightarrow> frames_ok env (vm_frames v') \<and> rest_same v v' \<and> (\<exists>lost. held v' = held v + lost \<and> size lost \<le> 1)
    | (Panic, v') \<Rightarrow> \<not> kernel_half_present v \<or> (\<exists>h. parse_header data = Ok h \<and> load_hazard env data h)"
proof -
  obtain r v' where l: "load_image env data name v = (r, v')" by (cases "load_image env data name v")
  from page_mapper.load_image_ok [OF assms l] show ?thesis unfolding l by (cases r) simp_all
qed

lemma demo_phnum [simp]: "eh_phnum demo_header = 1"
  by (simp add: demo_header_def)

lemma demo_segment: "segment_at (elf_with [a, b, c, d, e, f, g, h]) demo_header 0 =
    \<lparr>sg_type = 1, sg_flags = 5, sg_offset = 120, sg_vaddr = 0x400000, sg_filesz = 4,
     sg_memsz = unat (u64_from_le [a, b, c, d, e, f, g, h])\<rparr>"
  by (simp add: segment_at_def demo_header_def elf_with_def u32_from_le_def u64_from_le_def le_nat_def)

lemma demo_no_hazard: "\<not> load_hazard demo_paging demo_elf demo_header"
  by (simp add: load_hazard_def demo_elf_def demo_segment demo_paging_def u64_from_le_def le_nat_def)

lemma demo_seg0: "segment_at demo_elf demo_header 0 =
    \<lparr>sg_type = 1, sg_flags = 5, sg_offset = 120, sg_vaddr = 0x400000, sg_filesz = 4, sg_memsz = 8\<rparr>"
  by (simp add: demo_elf_def demo_segment u64_from_le_def le_nat_def)

lemma demo_code: "demo_elf ! 121 = 0x80"
  by (simp add: demo_elf_def elf_with_def)

text \<open>The image of the demonstration file: code, padding, a hole, and the stack.\<close>

lemma demo_image:
  "image_cell demo_paging demo_elf demo_header 0x400001 = Some (5, 0x80)"
  "image_cell demo_paging demo_elf demo_header 0x400004 = Some (5, 0)"
  "image_cell demo_paging demo_elf demo_header 0x401000 = None"
  "image_cell demo_paging demo_elf demo_header 0x7fffeffffff8 = Some (0x8000000000000007, 0)"
  by (simp_all add: image_cell_def stack_address_def abi_defs demo_seg0
      seg_covers_def seg_first_def seg_limit_def seg_cell_def seg_byte_def segment_flags_def stack_flags_def Let_def
      elf_defs demo_paging_def demo_code PTE_PRESENT_def PTE_USER_def PTE_WRITABLE_def PTE_NO_EXECUTE_def)

theorem load_image_exact_witness:
  "case load_image demo_paging demo_elf (ascii ''init'') demo_vm of
      (Ok (img, sp), v') \<Rightarrow> li_entry img = 0x400000 \<and> cells demo_paging (v', sp) 0x400001 = Some (5, 0x80) \<and>
        cells demo_paging (v', sp) 0x400004 = Some (5, 0) \<and> cells demo_paging (v', sp) 0x401000 = None \<and>
        cells demo_paging (v', sp) 0x7fffeffffff8 = Some (0x8000000000000007, 0)
    | (Err e, v') \<Rightarrow> frames_ok demo_paging (vm_frames v')
    | (Panic, v') \<Rightarrow> False"
proof -
  have p: "parse_header demo_elf = Ok demo_header" unfolding demo_elf_def by (rule demo_parse)
  note t = load_image_exact [OF demo_mapper demo_frames_ok, of demo_elf "ascii ''init''"]
  show ?thesis
    using t p demo_no_hazard demo_kernel_half demo_image
    by (auto simp: loaded_from_def demo_header_def split: prod.splits outcome.splits)
qed

text \<open>
  C33. Ring 3 can read, write and fetch from the memory of a loaded program exactly where the file and
  the stack allow it; with NX available no address is both writable and executable, whatever the
  file asks for.
\<close>

theorem loaded_never_wx:
  assumes "page_mapper env pt_inv" "frames_ok env (vm_frames v)" "pg_nx env"
  shows "case load_image env data name v of
      (Ok (img, sp), v') \<Rightarrow> \<exists>h. parse_header data = Ok h \<and> (\<forall>a. is_user_address a \<longrightarrow>
        (\<forall>w. page_is_accessible env (vm_phys v') (li_root img) a w \<longleftrightarrow>
           (case image_cell env data h a of None \<Rightarrow> False | Some (fl, b) \<Rightarrow> w \<longrightarrow> contains_flags fl PTE_WRITABLE)) \<and>
        (fetchable env (vm_phys v') (li_root img) a \<longleftrightarrow>
           (case image_cell env data h a of None \<Rightarrow> False | Some (fl, b) \<Rightarrow> \<not> contains_flags fl PTE_NO_EXECUTE)) \<and>
        \<not> (page_is_accessible env (vm_phys v') (li_root img) a True \<and> fetchable env (vm_phys v') (li_root img) a))
    | _ \<Rightarrow> True"
proof -
  obtain r v' where l: "load_image env data name v = (r, v')" by (cases "load_image env data name v")
  note t = page_mapper.load_image_ok [OF assms(1,2) l]
  show ?thesis
  proof (cases r)
    case (Ok x)
    obtain img sp where x: "x = (img, sp)" by (cases x)
    from t obtain h T where h: "parse_header data = Ok h" "loaded_from env data h v sp v'" "space_ok env pt_inv T (v', sp)"
      "li_root img = as_root sp" by (auto simp: Ok x)
    have "(\<forall>w. page_is_accessible env (vm_phys v') (as_root sp) a w \<longleftrightarrow>
           (case image_cell env data h a of None \<Rightarrow> False | Some (fl, b) \<Rightarrow> w \<longrightarrow> contains_flags fl PTE_WRITABLE)) \<and>
        (fetchable env (vm_phys v') (as_root sp) a \<longleftrightarrow>
           (case image_cell env data h a of None \<Rightarrow> False | Some (fl, b) \<Rightarrow> \<not> contains_flags fl PTE_NO_EXECUTE)) \<and>
        \<not> (page_is_accessible env (vm_phys v') (as_root sp) a True \<and> fetchable env (vm_phys v') (as_root sp) a)"
      if u: "is_user_address a" for a
      using page_mapper.loaded_permissions [OF assms(1) h(3,2) u] image_flags(4) [of env data h a] assms(3)
      by (auto split: option.splits)
    then show ?thesis using h(1,4) by (auto simp: l Ok x)
  qed (simp_all add: l)
qed

theorem loaded_never_wx_witness:
  "case load_image demo_paging demo_elf (ascii ''init'') demo_vm of
      (Ok (img, sp), v') \<Rightarrow>
        page_is_accessible demo_paging (vm_phys v') (li_root img) 0x400001 False \<and>
        \<not> page_is_accessible demo_paging (vm_phys v') (li_root img) 0x400001 True \<and>
        fetchable demo_paging (vm_phys v') (li_root img) 0x400001 \<and>
        page_is_accessible demo_paging (vm_phys v') (li_root img) 0x7fffeffffff8 True \<and>
        \<not> fetchable demo_paging (vm_phys v') (li_root img) 0x7fffeffffff8
    | _ \<Rightarrow> True"
proof -
  have p: "parse_header demo_elf = Ok demo_header" unfolding demo_elf_def by (rule demo_parse)
  have nx: "pg_nx demo_paging" by (simp add: demo_paging_def)
  have u: "is_user_address 0x400001" "is_user_address 0x7fffeffffff8"
    by (simp_all add: is_user_address_def USER_SPACE_END_def)
  obtain r v' where l: "load_image demo_paging demo_elf (ascii ''init'') demo_vm = (r, v')"
    by (cases "load_image demo_paging demo_elf (ascii ''init'') demo_vm")
  note t = loaded_never_wx [OF demo_mapper demo_frames_ok nx, of demo_elf "ascii ''init''", unfolded l]
  show ?thesis
  proof (cases r)
    case (Ok x)
    obtain img sp where x: "x = (img, sp)" by (cases x)
    from t p have a: "\<forall>a. is_user_address a \<longrightarrow>
        (\<forall>w. page_is_accessible demo_paging (vm_phys v') (li_root img) a w \<longleftrightarrow>
           (case image_cell demo_paging demo_elf demo_header a of None \<Rightarrow> False | Some (fl, b) \<Rightarrow> w \<longrightarrow> contains_flags fl PTE_WRITABLE)) \<and>
        (fetchable demo_paging (vm_phys v') (li_root img) a \<longleftrightarrow>
           (case image_cell demo_paging demo_elf demo_header a of None \<Rightarrow> False | Some (fl, b) \<Rightarrow> \<not> contains_flags fl PTE_NO_EXECUTE))"
      by (auto simp: Ok x)
    show ?thesis
      using a [rule_format, OF u(1)] a [rule_format, OF u(2)]
      by (simp add: l Ok x demo_image contains_flags_def PTE_WRITABLE_def PTE_NO_EXECUTE_def)
  qed (simp_all add: l)
qed

section \<open>A file that stops the kernel\<close>

text \<open>The end of a segment is not checked before it is made an address: a segment that reaches the end of
  the lower half panics, before anything is mapped.\<close>

lemma long_segment_panics: "load_segment demo_paging long_elf demo_header 0 s = (Panic, s)"
proof -
  have p: "parse_header long_elf = Ok demo_header" unfolding long_elf_def by (rule demo_parse)
  have sg: "segment_at long_elf demo_header 0 =
    \<lparr>sg_type = 1, sg_flags = 5, sg_offset = 120, sg_vaddr = 0x400000, sg_filesz = 4, sg_memsz = 0x800000000000\<rparr>"
    by (simp add: long_elf_def demo_segment u64_from_le_def le_nat_def)
  have i: "0 < eh_phnum demo_header" and at: "eh_phoff demo_header + 0 * eh_phentsize demo_header = 64"
    by (simp_all add: demo_header_def)
  note r = page_mapper.segment_reads [OF demo_mapper p i, unfolded sg at, simplified]
  obtain off where off: "(read_u64 long_elf 72 :: (load_error, u64) outcome) = Ok off" "unat off = 120" using r(3) by blast
  obtain fsz where fsz: "(read_u64 long_elf 96 :: (load_error, u64) outcome) = Ok fsz" "unat fsz = 4" using r(5) by blast
  obtain msz where msz: "(read_u64 long_elf 104 :: (load_error, u64) outcome) = Ok msz" "unat msz = 0x800000000000" using r(6) by blast
  have nz: "msz \<noteq> 0" using msz(2) by auto
  have len: "length long_elf = 124" by (simp add: long_elf_def elf_with_def)
  have fl: "(segment_flags 5 True :: (string, u64) outcome) = Ok 5"
    by (simp add: segment_flags_def Let_def elf_defs PTE_PRESENT_def PTE_USER_def)
  show ?thesis
    using nz
    by (simp add: r(1,2,4) off fsz msz len load_segment_def Let_def at [simplified] elf_defs fl demo_paging_def is_user_address_def USER_SPACE_END_def
        checked_add_def usize_lim_def page_containing_def crash_def)
qed

lemma long_image_panics: "fst (load_image demo_paging long_elf name demo_vm) = Panic"
proof -
  have p: "parse_header long_elf = Ok demo_header" unfolding long_elf_def by (rule demo_parse)
  obtain v0 where new: "address_space_new demo_paging demo_vm = (Ok (Some \<lparr>as_root = 0x1000, as_owned = []\<rparr>), v0)"
    by (rule demo_new)
  show ?thesis
    by (simp add: load_image_def p new load_contents_def long_segment_panics bind_step_def)
qed

end
