(* ===== verification/UserSpaces.thy ===== *)
theory UserSpaces
  imports Images
begin

text \<open>
  Two readers of the same page tables: the check of user ranges in \<^verbatim>\<open>mm/memory.rs\<close>, which every system
  call relies on, and the address space that the loader built through \<^verbatim>\<open>mm/address_space.rs\<close>. They agree,
  so a system call reaches what the program's file asked for and nothing else.
\<close>

unbundle bit_operations_syntax

section \<open>The tables the check walks\<close>

definition entry_view :: "u64 \<Rightarrow> page_entry" where
  "entry_view e =
     \<lparr>pe_present = contains_flags e PTE_PRESENT, pe_user = contains_flags e PTE_USER,
      pe_writable = contains_flags e PTE_WRITABLE, pe_huge = contains_flags e PTE_HUGE, pe_addr = entry_addr e\<rparr>"

text \<open>The tables under CR3, seen through the window of physical memory at \<open>offset\<close>.\<close>

definition mmu_of :: "u64 \<Rightarrow> vm \<Rightarrow> mmu" where
  "mmu_of offset v =
     \<lparr>mmu_offset = offset, mmu_root = vm_cr3 v, mmu_tables = (\<lambda>frame i. entry_view (pt_entry (vm_phys v) frame i))\<rparr>"

text \<open>Without large pages the two walks give the same answer.\<close>

lemma walk_agrees:
  "small_levels (vm_phys v) is frame \<Longrightarrow> level + length is = 4 \<Longrightarrow>
   walk_levels (mmu_of offset v) w level is frame = accessible_levels (vm_phys v) w is frame"
proof (induction "vm_phys v" "is" frame arbitrary: level rule: small_levels.induct)
  case (3 i j "is" frame)
  have e: "mmu_tables (mmu_of offset v) frame i = entry_view (pt_entry (vm_phys v) frame i)" by (simp add: mmu_of_def)
  show ?case
    using 3 unfolding walk_levels.simps(2) [of _ _ level i "j # is"] accessible_levels.simps(2) [of _ _ i "j # is"] Let_def e entry_view_def
    by (auto simp: Let_def simp del: walk_levels.simps accessible_levels.simps)
qed (simp_all add: Let_def mmu_of_def entry_view_def)

definition space_bytes :: "paging \<Rightarrow> vm \<times> address_space \<Rightarrow> u64 \<Rightarrow> u8" where
  "space_bytes env s a = (case cells env s a of Some (fl, b) \<Rightarrow> b | None \<Rightarrow> 0)"

context page_mapper
begin

lemma user_byte_cells:
  assumes ok: "space_ok env pt_inv T (v, sp)" and root: "vm_cr3 v = as_root sp"
    and flags: "\<And>a fl b. cells env (v, sp) a = Some (fl, b) \<Longrightarrow> contains_flags fl PTE_PRESENT \<and> contains_flags fl PTE_USER"
  shows "user_byte (pg_va_ok env) (pg_indices env) (mmu_of offset v) w a \<longleftrightarrow>
    (\<exists>fl b. cells env (v, sp) a = Some (fl, b) \<and> (w \<longrightarrow> contains_flags fl PTE_WRITABLE))"
proof (cases "is_user_address a")
  case True
  let ?p = "page_of a"
  have p: "is_user_address ?p" using user_page_of [OF True] by simp
  obtain i j k l where ix: "pg_indices env ?p = [i, j, k, l]" using indices_user [OF p] by blast
  have inv: "pt_inv (vm_phys v) (as_root sp) T" using ok by (simp add: space_ok_def)
  have "page_is_user_accessible (pg_indices env) (mmu_of offset v) ?p w =
      accessible_levels (vm_phys v) w (pg_indices env ?p) (as_root sp)"
    unfolding page_is_user_accessible_def using walk_agrees [OF inv_small [OF inv p], of 0 offset w] ix
    by (simp add: mmu_of_def root)
  also have "\<dots> = page_is_accessible env (vm_phys v) (as_root sp) ?p w" by (simp add: page_is_accessible_def user_va [OF p])
  also have "\<dots> \<longleftrightarrow> (case cells env (v, sp) ?p of None \<Rightarrow> False | Some (fl, b) \<Rightarrow> w \<longrightarrow> contains_flags fl PTE_WRITABLE)"
    by (rule space_permissions [OF ok p flags])
  also have "\<dots> \<longleftrightarrow> (\<exists>fl b. cells env (v, sp) a = Some (fl, b) \<and> (w \<longrightarrow> contains_flags fl PTE_WRITABLE))"
    using leaf_page_of [OF True] True p by (cases "leaf env (vm_phys v) (as_root sp) a") (simp_all add: cells_def cell_def)
  finally show ?thesis using True user_va [OF p] by (simp add: user_byte_def)
qed (simp add: user_byte_def cells_def cell_def)

end

section \<open>The buffers of a loaded program\<close>

text \<open>Every byte of a range is in the image, on a page whose permissions satisfy \<open>P\<close>.\<close>

definition image_range :: "(u64 \<Rightarrow> bool) \<Rightarrow> (u64 \<Rightarrow> (u64 \<times> u8) option) \<Rightarrow> u64 \<Rightarrow> nat \<Rightarrow> bool" where
  "image_range P A ptr n \<longleftrightarrow>
     n = 0 \<or> (unat ptr + n \<le> 2 ^ 64 \<and>
       (\<forall>a. unat ptr \<le> unat a \<and> unat a < unat ptr + n \<longrightarrow> (\<exists>fl b. A a = Some (fl, b) \<and> P fl)))"

definition image_bytes :: "(u64 \<Rightarrow> (u64 \<times> u8) option) \<Rightarrow> u64 \<Rightarrow> nat \<Rightarrow> bytes" where
  "image_bytes A ptr n = map (\<lambda>i. snd (the (A (ptr + of_nat i)))) [0..<n]"

lemma user_bytes_space:
  assumes "image_range P (cells env s) ptr n"
  shows "user_bytes (space_bytes env s) ptr n = image_bytes (cells env s) ptr n"
proof -
  have "space_bytes env s (ptr + of_nat i) = snd (the (cells env s (ptr + of_nat i)))" if i: "i < n" for i
  proof -
    have n: "unat ptr + n \<le> 2 ^ 64" using assms i by (auto simp: image_range_def)
    then have "unat (ptr + of_nat i) = unat ptr + i"
      using i by (subst unat_add_lem [THEN iffD1]) (simp_all add: unat_of_nat mod_less)
    then have "unat ptr \<le> unat (ptr + of_nat i) \<and> unat (ptr + of_nat i) < unat ptr + n" using i by simp
    then obtain fl b where "cells env s (ptr + of_nat i) = Some (fl, b)" using assms i unfolding image_range_def by blast
    then show ?thesis by (simp add: space_bytes_def)
  qed
  then show ?thesis by (simp add: user_bytes_def image_bytes_def)
qed

context page_mapper
begin

lemma copies_of_space:
  assumes ok: "space_ok env pt_inv T (v, sp)" and root: "vm_cr3 v = as_root sp" and off: "offset \<noteq> OFFSET_UNINITIALIZED"
    and flags: "\<And>a fl b. cells env (v, sp) a = Some (fl, b) \<Longrightarrow> contains_flags fl PTE_PRESENT \<and> contains_flags fl PTE_USER"
  shows "copy_from_user (pg_va_ok env) (pg_indices env) (mmu_of offset v) (space_bytes env (v, sp)) ptr len =
      (if len \<le> MAX_USER_TRANSFER \<and> image_range (\<lambda>_. True) (cells env (v, sp)) ptr len
       then Ok (image_bytes (cells env (v, sp)) ptr len) else Err ())"
    "copy_to_user (pg_va_ok env) (pg_indices env) (mmu_of offset v) ptr bs (space_bytes env (v, sp)) =
      (if length bs \<le> MAX_USER_TRANSFER \<and> image_range (\<lambda>fl. contains_flags fl PTE_WRITABLE) (cells env (v, sp)) ptr (length bs)
       then Ok (length bs, write_bytes bs ptr (space_bytes env (v, sp))) else Err ())"
proof -
  have o: "mmu_offset (mmu_of offset v) \<noteq> OFFSET_UNINITIALIZED" using off by (simp add: mmu_of_def)
  have ub: "user_byte (pg_va_ok env) (pg_indices env) (mmu_of offset v) w a \<longleftrightarrow>
      (\<exists>fl b. cells env (v, sp) a = Some (fl, b) \<and> (w \<longrightarrow> contains_flags fl PTE_WRITABLE))" for w a
    by (rule user_byte_cells [OF ok root flags])
  have r: "user_range (pg_va_ok env) (pg_indices env) (mmu_of offset v) w ptr n =
      image_range (\<lambda>fl. w \<longrightarrow> contains_flags fl PTE_WRITABLE) (cells env (v, sp)) ptr n" for w n
    unfolding user_range_def image_range_def ub by (simp only: o simp_thms)
  show "copy_from_user (pg_va_ok env) (pg_indices env) (mmu_of offset v) (space_bytes env (v, sp)) ptr len =
      (if len \<le> MAX_USER_TRANSFER \<and> image_range (\<lambda>_. True) (cells env (v, sp)) ptr len
       then Ok (image_bytes (cells env (v, sp)) ptr len) else Err ())"
    unfolding copy_from_user_spec r using user_bytes_space [of "\<lambda>_. True" env "(v, sp)" ptr len] by simp
  show "copy_to_user (pg_va_ok env) (pg_indices env) (mmu_of offset v) ptr bs (space_bytes env (v, sp)) =
      (if length bs \<le> MAX_USER_TRANSFER \<and> image_range (\<lambda>fl. contains_flags fl PTE_WRITABLE) (cells env (v, sp)) ptr (length bs)
       then Ok (length bs, write_bytes bs ptr (space_bytes env (v, sp))) else Err ())"
    unfolding copy_to_user_spec r by simp
qed

lemma space_active:
  assumes "space_ok env pt_inv T (v, sp)" "activate sp v = (old, w)"
  shows "space_ok env pt_inv T (w, sp)" "cells env (w, sp) = cells env (v, sp)" "vm_cr3 w = as_root sp"
proof -
  have w: "vm_phys w = vm_phys v" "vm_frames w = vm_frames v" and "vm_cr3 w = as_root sp"
    using assms(2) by (auto simp: activate_def split: if_splits)
  then show "vm_cr3 w = as_root sp" by simp
  show "space_ok env pt_inv T (w, sp)" using assms(1) unfolding space_ok_def prod.case w .
  show "cells env (w, sp) = cells env (v, sp)" by (simp add: cells_def w)
qed

end

section \<open>Properties\<close>

text \<open>
  C34. What system calls can reach in a loaded program. Once a program's space is active, the check that
  every system call makes of a buffer accepts it for reading exactly when all its bytes are in the
  image that the file and the stack define, and then reads the bytes that the image has there; for
  writing exactly when all of them are on writable pages of it. Everything else, the kernel's
  memory included, is refused, and the check never panics.
\<close>

theorem loaded_buffers_exact:
  assumes "page_mapper env pt_inv" "frames_ok env (vm_frames v)" "offset \<noteq> OFFSET_UNINITIALIZED"
  shows "case load_image env data name v of
      (Ok (img, sp), v') \<Rightarrow> \<exists>h. parse_header data = Ok h \<and>
        (let w = snd (activate sp v'); A = image_cell env data h in
          copy_from_user (pg_va_ok env) (pg_indices env) (mmu_of offset w) (space_bytes env (w, sp)) ptr len =
            (if len \<le> MAX_USER_TRANSFER \<and> image_range (\<lambda>_. True) A ptr len then Ok (image_bytes A ptr len) else Err ()) \<and>
          copy_to_user (pg_va_ok env) (pg_indices env) (mmu_of offset w) ptr bs (space_bytes env (w, sp)) =
            (if length bs \<le> MAX_USER_TRANSFER \<and> image_range (\<lambda>fl. contains_flags fl PTE_WRITABLE) A ptr (length bs)
             then Ok (length bs, write_bytes bs ptr (space_bytes env (w, sp))) else Err ()))
    | _ \<Rightarrow> True"
proof -
  obtain r v' where l: "load_image env data name v = (r, v')" by (cases "load_image env data name v")
  show ?thesis
  proof (cases r)
    case (Ok x)
    obtain img sp where x: "x = (img, sp)" by (cases x)
    from page_mapper.load_image_ok [OF assms(1,2) l] obtain h T where h: "parse_header data = Ok h"
      "loaded_from env data h v sp v'" "space_ok env pt_inv T (v', sp)" by (auto simp: Ok x)
    obtain old w where w: "activate sp v' = (old, w)" by (cases "activate sp v'")
    note s = page_mapper.space_active [OF assms(1) h(3) w]
    have c: "cells env (w, sp) = image_cell env data h" using h(2) s(2) by (auto simp: loaded_from_def)
    show ?thesis
      using page_mapper.copies_of_space [OF assms(1) s(1,3) assms(3), unfolded c, OF conjI [OF image_flags(2,3)]] h(1)
      by (simp add: l Ok x w Let_def)
  qed (simp_all add: l)
qed

theorem loaded_buffers_exact_witness:
  "case load_image demo_paging demo_elf (ascii ''init'') demo_vm of
      (Ok (img, sp), v') \<Rightarrow>
        (let w = snd (activate sp v') in
          copy_from_user (pg_va_ok demo_paging) (pg_indices demo_paging) (mmu_of 0 w) (space_bytes demo_paging (w, sp)) 0x400001 1 = Ok [0x80] \<and>
          copy_to_user (pg_va_ok demo_paging) (pg_indices demo_paging) (mmu_of 0 w) 0x400001 [0] (space_bytes demo_paging (w, sp)) = Err () \<and>
          copy_from_user (pg_va_ok demo_paging) (pg_indices demo_paging) (mmu_of 0 w) (space_bytes demo_paging (w, sp)) 0x401000 1 = Err ())
    | _ \<Rightarrow> True"
proof -
  have p: "parse_header demo_elf = Ok demo_header" unfolding demo_elf_def by (rule demo_parse)
  have off: "(0 :: u64) \<noteq> OFFSET_UNINITIALIZED" by (simp add: OFFSET_UNINITIALIZED_def)
  have one: "image_range P A ptr 1 \<longleftrightarrow> (\<exists>fl b. A ptr = Some (fl, b) \<and> P fl)" for P A and ptr :: u64
  proof -
    have "unat ptr \<le> unat a \<and> unat a < unat ptr + 1 \<longleftrightarrow> a = ptr" for a by (auto simp: word_unat_eq_iff)
    then show ?thesis using unat_bound [of ptr] by (simp add: image_range_def)
  qed
  have m: "(1 :: nat) \<le> MAX_USER_TRANSFER" "length [0 :: u8] = 1" by (simp_all add: MAX_USER_TRANSFER_def)
  note t = loaded_buffers_exact [OF demo_mapper demo_frames_ok off, where data = demo_elf and name = "ascii ''init''"]
  show ?thesis
    using t [where ptr = "0x400001" and len = 1 and bs = "[0]"] t [where ptr = "0x401000" and len = 1 and bs = "[]"] unfolding one m(2)
    by (auto simp: p demo_image m(1) m(1) [unfolded One_nat_def] image_bytes_def Let_def contains_flags_def PTE_WRITABLE_def one split: prod.splits outcome.splits)
qed

end
