(* ===== verification/Pe.thy ===== *)
theory Pe
  imports Utf8 AddressSpace
begin

text \<open>
  Mirage's PE32+ parser (\<^verbatim>\<open>kernel/src/mirage/pe.rs\<close>): the headers, the section table, the import
  directory and the base relocations, with every check, every error, and every place where an index
  or a sum panics.
\<close>

unbundle bit_operations_syntax

definition DOS_MAGIC :: u16 where "DOS_MAGIC = 0x5A4D"
definition PE_MAGIC :: u32 where "PE_MAGIC = 0x00004550"
definition MACHINE_AMD64 :: u16 where "MACHINE_AMD64 = 0x8664"
definition PE32_PLUS_MAGIC :: u16 where "PE32_PLUS_MAGIC = 0x20B"
definition IMAGE_SCN_MEM_EXECUTE :: u32 where "IMAGE_SCN_MEM_EXECUTE = 0x20000000"
definition IMAGE_SCN_MEM_READ :: u32 where "IMAGE_SCN_MEM_READ = 0x40000000"
definition IMAGE_SCN_MEM_WRITE :: u32 where "IMAGE_SCN_MEM_WRITE = 0x80000000"
definition DIRECTORY_IMPORT :: nat where "DIRECTORY_IMPORT = 1"
definition DIRECTORY_BASERELOC :: nat where "DIRECTORY_BASERELOC = 5"
definition IMAGE_REL_BASED_ABSOLUTE :: u16 where "IMAGE_REL_BASED_ABSOLUTE = 0"
definition IMAGE_REL_BASED_DIR64 :: u16 where "IMAGE_REL_BASED_DIR64 = 10"
definition MAX_SECTIONS :: nat where "MAX_SECTIONS = 96"
definition MAX_IMPORTS :: nat where "MAX_IMPORTS = 512"
definition MAX_RELOCATIONS :: nat where "MAX_RELOCATIONS = 65536"

lemmas pe_defs = DOS_MAGIC_def PE_MAGIC_def MACHINE_AMD64_def PE32_PLUS_MAGIC_def IMAGE_SCN_MEM_EXECUTE_def
  IMAGE_SCN_MEM_READ_def IMAGE_SCN_MEM_WRITE_def DIRECTORY_IMPORT_def DIRECTORY_BASERELOC_def
  IMAGE_REL_BASED_ABSOLUTE_def IMAGE_REL_BASED_DIR64_def

text \<open>\<^verbatim>\<open>MirageError\<close> of \<^verbatim>\<open>mirage.rs\<close>.\<close>

datatype mirage_error =
    NotPe string | UnimplementedImport bytes | Malformed string | MirageMapping map_error | MirageOutOfMemory

record pe_section =
  ps_virtual_address :: u32
  ps_virtual_size :: u32
  ps_raw_offset :: nat
  ps_raw_size :: nat
  ps_executable :: bool
  ps_writable :: bool
  ps_readable :: bool

record pe_import =
  pi_name :: bytes
  pi_iat_rva :: u32

record pe_image =
  pe_entry_rva :: u32
  pe_preferred_base :: u64
  pe_image_size :: nat
  pe_headers_size :: nat
  pe_sections :: "pe_section list"
  pe_imports :: "pe_import list"
  pe_relocations :: "u32 list"

section \<open>Reading fields\<close>

definition u16_at :: "bytes \<Rightarrow> nat \<Rightarrow> (mirage_error, u16) outcome" where
  "u16_at data at = ok_or (map_option u16_from_le (get_range data at (at + 2))) (Malformed ''read past the end of the image'')"

definition u32_at :: "bytes \<Rightarrow> nat \<Rightarrow> (mirage_error, u32) outcome" where
  "u32_at data at = ok_or (map_option u32_from_le (get_range data at (at + 4))) (Malformed ''read past the end of the image'')"

definition u64_at :: "bytes \<Rightarrow> nat \<Rightarrow> (mirage_error, u64) outcome" where
  "u64_at data at = ok_or (map_option u64_from_le (get_range data at (at + 8))) (Malformed ''read past the end of the image'')"

text \<open>A \<^verbatim>\<open>u32\<close> sum, which panics when it overflows.\<close>

definition add_u32 :: "u32 \<Rightarrow> u32 \<Rightarrow> ('e, u32) outcome" where
  "add_u32 a b = (if unat a + unat b < 2 ^ 32 then Ok (a + b) else Panic)"

section \<open>Sections and addresses\<close>

definition read_section :: "bytes \<Rightarrow> nat \<Rightarrow> nat \<Rightarrow> (mirage_error, pe_section) outcome" where
  "read_section data image_size at =
     (if at + 40 > length data then Err (Malformed ''the section table extends past the end of the file'')
      else
        obind (u32_at data (at + 8)) (\<lambda>virtual_size.
        obind (u32_at data (at + 12)) (\<lambda>virtual_address.
        obind (u32_at data (at + 16)) (\<lambda>raw_size.
        obind (u32_at data (at + 20)) (\<lambda>raw_offset.
        obind (u32_at data (at + 36)) (\<lambda>characteristics.
        obind (if unat raw_size > 0
               then obind (ok_or (checked_add (unat raw_offset) (unat raw_size)) (Malformed ''section file range overflows''))
                      (\<lambda>e. ensure (e \<le> length data) (Malformed ''a section's data extends past the end of the file''))
               else Ok ()) (\<lambda>_.
        obind (ok_or (checked_add (unat virtual_address) (max (unat virtual_size) 1)) (Malformed ''section memory range overflows''))
          (\<lambda>memory_end.
        if memory_end > image_size then Err (Malformed ''a section extends past SizeOfImage'')
        else Ok \<lparr>ps_virtual_address = virtual_address, ps_virtual_size = virtual_size,
                 ps_raw_offset = unat raw_offset, ps_raw_size = unat raw_size,
                 ps_executable = (characteristics AND IMAGE_SCN_MEM_EXECUTE \<noteq> 0),
                 ps_writable = (characteristics AND IMAGE_SCN_MEM_WRITE \<noteq> 0),
                 ps_readable = (characteristics AND IMAGE_SCN_MEM_READ \<noteq> 0)\<rparr>))))))))"

primrec read_sections :: "bytes \<Rightarrow> nat \<Rightarrow> nat \<Rightarrow> nat list \<Rightarrow> (mirage_error, pe_section list) outcome" where
  "read_sections data image_size section_table [] = Ok []"
| "read_sections data image_size section_table (index # is) =
     obind (read_section data image_size (section_table + index * 40)) (\<lambda>s.
     obind (read_sections data image_size section_table is) (\<lambda>ss. Ok (s # ss)))"

primrec section_offset :: "u32 \<Rightarrow> pe_section list \<Rightarrow> ('e, nat option) outcome" where
  "section_offset rva [] = Ok None"
| "section_offset rva (s # ss) =
     obind (add_u32 (ps_virtual_address s) (max (ps_virtual_size s) (of_nat (ps_raw_size s)))) (\<lambda>last.
       if rva \<ge> ps_virtual_address s \<and> rva < last
       then (let delta = unat (rva - ps_virtual_address s) in
             Ok (if delta \<ge> ps_raw_size s then None else Some (ps_raw_offset s + delta)))
       else section_offset rva ss)"

definition rva_to_offset :: "nat \<Rightarrow> pe_section list \<Rightarrow> u32 \<Rightarrow> ('e, nat option) outcome" where
  "rva_to_offset headers_size sections rva =
     (if unat rva < headers_size then Ok (Some (unat rva)) else section_offset rva sections)"

definition mapped_offset :: "(u32 \<Rightarrow> (mirage_error, nat option) outcome) \<Rightarrow> u32 \<Rightarrow> string \<Rightarrow> (mirage_error, nat) outcome" where
  "mapped_offset rva_to rva why = obind (rva_to rva) (\<lambda>x. ok_or x (Malformed why))"

section \<open>Imports\<close>

definition import_name :: "bytes \<Rightarrow> nat \<Rightarrow> (mirage_error, bytes) outcome" where
  "import_name data hint_name =
     (let name_start = hint_name + 2 in
      if name_start > length data then Panic
      else
        obind (ok_or (position (\<lambda>b. b = 0) (drop name_start data))
                 (Malformed ''an import name is not NUL-terminated before the end of the file'')) (\<lambda>n.
          Ok (from_utf8_lossy (take n (drop name_start data)))))"

primrec import_entries ::
  "bytes \<Rightarrow> (u32 \<Rightarrow> (mirage_error, nat option) outcome) \<Rightarrow> nat \<Rightarrow> nat \<Rightarrow> u32 \<Rightarrow> pe_import list \<Rightarrow>
   (mirage_error, pe_import list) outcome" where
  "import_entries data rva_to 0 names slot_rva imports = Ok imports"
| "import_entries data rva_to (Suc tries) names slot_rva imports =
     (if length imports \<ge> MAX_IMPORTS then Err (Malformed ''implausible number of imports'')
      else
        obind (u64_at data names) (\<lambda>entry.
        if entry = 0 then Ok imports
        else if entry AND 0x8000000000000000 \<noteq> 0 then
          Err (Malformed ''the image imports by ordinal; Mirage resolves imports by name, since there is no DLL export table to index into'')
        else
          obind (mapped_offset rva_to (ucast (entry AND 0x7FFFFFFF)) ''an import name RVA is unmapped'') (\<lambda>hint_name.
          obind (import_name data hint_name) (\<lambda>name.
          obind (add_u32 slot_rva 8) (\<lambda>next_slot.
            import_entries data rva_to tries (names + 8) next_slot
              (imports @ [\<lparr>pi_name = name, pi_iat_rva = slot_rva\<rparr>]))))))"

primrec import_descriptors ::
  "bytes \<Rightarrow> (u32 \<Rightarrow> (mirage_error, nat option) outcome) \<Rightarrow> nat \<Rightarrow> nat \<Rightarrow> pe_import list \<Rightarrow>
   (mirage_error, pe_import list) outcome" where
  "import_descriptors data rva_to 0 descriptor imports = Ok imports"
| "import_descriptors data rva_to (Suc tries) descriptor imports =
     (if descriptor + 20 > length data then Err (Malformed ''the import descriptor list runs past the end of the file'')
      else
        obind (u32_at data descriptor) (\<lambda>lookup_rva.
        obind (u32_at data (descriptor + 12)) (\<lambda>name_rva.
        obind (u32_at data (descriptor + 16)) (\<lambda>iat_rva.
        if lookup_rva = 0 \<and> name_rva = 0 \<and> iat_rva = 0 then Ok imports
        else
          obind (mapped_offset rva_to (if lookup_rva \<noteq> 0 then lookup_rva else iat_rva) ''an import lookup table is unmapped'') (\<lambda>names.
          obind (import_entries data rva_to MAX_IMPORTS names iat_rva imports) (\<lambda>imports.
            import_descriptors data rva_to tries (descriptor + 20) imports))))))"

definition parse_imports ::
  "bytes \<Rightarrow> u32 \<times> u32 \<Rightarrow> (u32 \<Rightarrow> (mirage_error, nat option) outcome) \<Rightarrow> (mirage_error, pe_import list) outcome" where
  "parse_imports data directory rva_to =
     (if fst directory = 0 then Ok []
      else obind (mapped_offset rva_to (fst directory) ''the import directory RVA is unmapped'') (\<lambda>descriptor.
        import_descriptors data rva_to MAX_IMPORTS descriptor []))"

section \<open>Relocations\<close>

primrec relocation_entries ::
  "bytes \<Rightarrow> u32 \<Rightarrow> nat \<Rightarrow> nat list \<Rightarrow> u32 list \<Rightarrow> (mirage_error, u32 list) outcome" where
  "relocation_entries data page_rva at [] relocations = Ok relocations"
| "relocation_entries data page_rva at (index # is) relocations =
     (if length relocations \<ge> MAX_RELOCATIONS then Err (Malformed ''implausible number of relocations'')
      else
        obind (u16_at data (at + 8 + index * 2)) (\<lambda>entry.
          let kind = drop_bit 12 entry; offset = entry AND 0x0FFF in
          if kind = IMAGE_REL_BASED_ABSOLUTE then relocation_entries data page_rva at is relocations
          else if kind = IMAGE_REL_BASED_DIR64 then
            obind (add_u32 page_rva (ucast offset)) (\<lambda>rva. relocation_entries data page_rva at is (relocations @ [rva]))
          else Err (Malformed ''an unsupported relocation type is present; only 64-bit absolute relocations are handled'')))"

function relocation_blocks ::
  "bytes \<Rightarrow> nat \<Rightarrow> nat \<Rightarrow> u32 list \<Rightarrow> (mirage_error, u32 list) outcome" where
  "relocation_blocks data at end_at relocations =
     (if at + 8 \<le> end_at then
        obind (u32_at data at) (\<lambda>page_rva.
        obind (u32_at data (at + 4)) (\<lambda>block_size.
        if unat block_size < 8 \<or> at + unat block_size > end_at then Err (Malformed ''a relocation block has a bad size'')
        else
          obind (relocation_entries data page_rva at [0..<(unat block_size - 8) div 2] relocations) (\<lambda>relocations.
            relocation_blocks data (at + unat block_size) end_at relocations)))
      else Ok relocations)"
  by pat_completeness auto
termination
  by (relation "measure (\<lambda>(data, at, end_at, relocations). end_at - at)") auto

declare relocation_blocks.simps [simp del]

definition parse_relocations ::
  "bytes \<Rightarrow> u32 \<times> u32 \<Rightarrow> (u32 \<Rightarrow> (mirage_error, nat option) outcome) \<Rightarrow> (mirage_error, u32 list) outcome" where
  "parse_relocations data directory rva_to =
     (if fst directory = 0 \<or> snd directory = 0 then Ok []
      else
        obind (mapped_offset rva_to (fst directory) ''the relocation directory is unmapped'') (\<lambda>start.
        obind (ok_or (case checked_add start (unat (snd directory)) of
                        Some e \<Rightarrow> if e \<le> length data then Some e else None | None \<Rightarrow> None)
                 (Malformed ''the relocation directory extends past the end of the file'')) (\<lambda>end_at.
          relocation_blocks data start end_at [])))"

section \<open>The image\<close>

definition read_directory :: "bytes \<Rightarrow> nat \<Rightarrow> nat \<Rightarrow> nat \<Rightarrow> (mirage_error, u32 \<times> u32) outcome" where
  "read_directory data directories directory_count index =
     (if index \<ge> directory_count then Ok (0, 0)
      else
        obind (u32_at data (directories + index * 8)) (\<lambda>a.
        obind (u32_at data (directories + index * 8 + 4)) (\<lambda>b. Ok (a, b))))"

text \<open>The checks up to the optional header; the result is its offset and the two counts that go with it.\<close>

definition pe_headers :: "bytes \<Rightarrow> (mirage_error, nat \<times> nat \<times> nat) outcome" where
  "pe_headers data =
     (if length data < 64 then Err (NotPe ''smaller than a DOS header'')
      else
        obind (u16_at data 0) (\<lambda>magic.
        if magic \<noteq> DOS_MAGIC then Err (NotPe ''no MZ signature'')
        else
        obind (u32_at data 0x3C) (\<lambda>lfanew.
        let pe_offset = unat lfanew in
        if pe_offset + 24 > length data then Err (NotPe ''PE header offset is outside the file'')
        else
        obind (u32_at data pe_offset) (\<lambda>magic.
        if magic \<noteq> PE_MAGIC then Err (NotPe ''no PE signature at e_lfanew'')
        else
        obind (u16_at data (pe_offset + 4)) (\<lambda>machine.
        if machine \<noteq> MACHINE_AMD64 then
          Err (NotPe ''not an x86_64 image - Mirage runs Windows binaries natively rather than emulating them, so the instruction set has to match the CPU'')
        else
        obind (u16_at data (pe_offset + 6)) (\<lambda>section_count.
        obind (u16_at data (pe_offset + 20)) (\<lambda>optional_header_size.
        let optional_header = pe_offset + 24 in
        if unat section_count > MAX_SECTIONS then Err (Malformed ''implausible section count'')
        else if optional_header + unat optional_header_size > length data then
          Err (NotPe ''optional header extends past the file'')
        else
        obind (u16_at data optional_header) (\<lambda>magic.
        if magic \<noteq> PE32_PLUS_MAGIC then
          Err (NotPe ''not PE32+ - a 32-bit PE would need a different address space layout and a 32-bit thunk ABI, neither of which exists here'')
        else Ok (optional_header, unat section_count, unat optional_header_size)))))))))"

text \<open>Everything but the two directories: the image without imports and relocations, and the two entries.\<close>

definition pe_layout :: "bytes \<Rightarrow> (mirage_error, pe_image \<times> nat \<times> nat) outcome" where
  "pe_layout data =
     obind (pe_headers data) (\<lambda>(optional_header, section_count, optional_header_size).
     obind (u32_at data (optional_header + 16)) (\<lambda>entry_rva.
     obind (u64_at data (optional_header + 24)) (\<lambda>preferred_base.
     obind (u32_at data (optional_header + 56)) (\<lambda>image_size.
     obind (u32_at data (optional_header + 60)) (\<lambda>headers_size.
     obind (u32_at data (optional_header + 108)) (\<lambda>directory_count.
     if unat image_size = 0 \<or> unat image_size > 512 * 1024 * 1024 then
       Err (Malformed ''SizeOfImage is zero or implausibly large'')
     else if unat headers_size > length data then
       Err (Malformed ''SizeOfHeaders extends past the end of the file'')
     else
     obind (read_sections data (unat image_size) (optional_header + optional_header_size) [0..<section_count]) (\<lambda>sections.
       Ok (\<lparr>pe_entry_rva = entry_rva, pe_preferred_base = preferred_base, pe_image_size = unat image_size,
            pe_headers_size = unat headers_size, pe_sections = sections, pe_imports = [], pe_relocations = []\<rparr>,
           optional_header + 112, unat directory_count))))))))"

definition pe_rva :: "pe_image \<Rightarrow> u32 \<Rightarrow> ('e, nat option) outcome" where
  "pe_rva img = rva_to_offset (pe_headers_size img) (pe_sections img)"

definition pe_parse :: "bytes \<Rightarrow> (mirage_error, pe_image) outcome" where
  "pe_parse data =
     obind (pe_layout data) (\<lambda>(img, directories, directory_count).
     obind (read_directory data directories directory_count DIRECTORY_IMPORT) (\<lambda>import_directory.
     obind (parse_imports data import_directory (pe_rva img)) (\<lambda>imports.
     obind (read_directory data directories directory_count DIRECTORY_BASERELOC) (\<lambda>reloc_directory.
     obind (parse_relocations data reloc_directory (pe_rva img)) (\<lambda>relocations.
       Ok (img\<lparr>pe_imports := imports, pe_relocations := relocations\<rparr>))))))"

section \<open>What a parsed image guarantees\<close>

definition pe_section_ok :: "bytes \<Rightarrow> nat \<Rightarrow> pe_section \<Rightarrow> bool" where
  "pe_section_ok data image_size s \<longleftrightarrow>
     (ps_raw_size s > 0 \<longrightarrow> ps_raw_offset s + ps_raw_size s \<le> length data) \<and>
     unat (ps_virtual_address s) + max (unat (ps_virtual_size s)) 1 \<le> image_size \<and> ps_raw_size s < 2 ^ 32"

definition pe_image_ok :: "bytes \<Rightarrow> pe_image \<Rightarrow> bool" where
  "pe_image_ok data img \<longleftrightarrow>
     0 < pe_image_size img \<and> pe_image_size img \<le> 2 ^ 29 \<and> pe_headers_size img \<le> length data \<and>
     length (pe_sections img) \<le> MAX_SECTIONS \<and> (\<forall>s\<in>set (pe_sections img). pe_section_ok data (pe_image_size img) s) \<and>
     length (pe_imports img) \<le> MAX_IMPORTS \<and> length (pe_relocations img) \<le> MAX_RELOCATIONS"

text \<open>
  The input that can stop the parser: a file of several gigabytes, a 32-bit field in the last page of
  the 32-bit range, or a name entry that resolves to the last byte of the file.
\<close>

definition pe_hazard :: "bytes \<Rightarrow> pe_image \<Rightarrow> bool" where
  "pe_hazard data img \<longleftrightarrow>
     2 ^ 31 \<le> length data \<or>
     (\<exists>at w. u32_at data at = Ok w \<and> 2 ^ 32 - 4096 \<le> unat w) \<or>
     (\<exists>at e. u64_at data at = Ok e \<and> pe_rva img (ucast (e AND 0x7FFFFFFF)) = (Ok (Some (length data - 1)) :: (mirage_error, nat option) outcome))"

lemma field_total [simp]: "u16_at data at \<noteq> Panic" "u32_at data at \<noteq> Panic" "u64_at data at \<noteq> Panic"
  by (simp_all add: u16_at_def u32_at_def u64_at_def)

lemma read_section_ok:
  "read_section data n at \<noteq> Panic" "read_section data n at = Ok s \<Longrightarrow> pe_section_ok data n s"
proof -
  show "read_section data n at \<noteq> Panic"
    unfolding read_section_def by (auto simp: outcome_simps split: if_splits)
  have lt: "unat w < 4294967296" for w :: u32 using unat_bound [of w] by simp
  assume "read_section data n at = Ok s"
  then show "pe_section_ok data n s"
    by (auto simp: lt read_section_def pe_section_ok_def outcome_simps not_less split: if_splits)
qed

lemma read_sections_ok:
  "read_sections data n table is \<noteq> Panic"
  "read_sections data n table is = Ok ss \<Longrightarrow> length ss = length is \<and> (\<forall>s\<in>set ss. pe_section_ok data n s)"
  by (induction "is" arbitrary: ss) (auto simp: outcome_simps read_section_ok)

lemma pe_headers_ok:
  "pe_headers data \<noteq> Panic" "pe_headers data = Ok (oh, n, sz) \<Longrightarrow> n \<le> MAX_SECTIONS"
  by (auto simp: pe_headers_def Let_def outcome_simps split: if_splits)

lemma pe_layout_ok:
  "pe_layout data \<noteq> Panic"
  "pe_layout data = Ok (img, d, n) \<Longrightarrow> pe_image_ok data img \<and> pe_imports img = [] \<and> pe_relocations img = []"
proof -
  show "pe_layout data \<noteq> Panic"
    using pe_headers_ok(1) read_sections_ok(1) by (auto simp: pe_layout_def outcome_simps split: if_splits)
  assume "pe_layout data = Ok (img, d, n)"
  then show "pe_image_ok data img \<and> pe_imports img = [] \<and> pe_relocations img = []"
    using pe_headers_ok(2) read_sections_ok(2)
    by (fastforce simp: pe_layout_def pe_image_ok_def outcome_simps not_less split: if_splits)
qed

text \<open>An RVA of a parsed image resolves inside the file or not at all.\<close>

lemma section_offset_ok:
  assumes "\<forall>s\<in>set ss. pe_section_ok data n s" "n \<le> 2 ^ 29" "length data < 2 ^ 31"
  shows "section_offset rva ss \<noteq> Panic" "section_offset rva ss = Ok (Some k) \<Longrightarrow> k < length data"
proof -
  have "section_offset rva ss \<noteq> Panic \<and> (section_offset rva ss = Ok (Some k) \<longrightarrow> k < length data)"
    using assms(1)
  proof (induction ss)
    case (Cons s ss)
    have s: "pe_section_ok data n s" using Cons.prems by simp
    have raw: "ps_raw_size s \<le> length data" using s by (cases "ps_raw_size s = 0") (auto simp: pe_section_ok_def)
    have u: "unat (of_nat (ps_raw_size s) :: u32) = ps_raw_size s"
      using s unfolding unat_of_nat by (intro mod_less) (simp add: pe_section_ok_def)
    have "unat (max (ps_virtual_size s) (of_nat (ps_raw_size s))) \<le> max (unat (ps_virtual_size s)) (ps_raw_size s)"
      by (simp add: max_def u)
    moreover have "unat (ps_virtual_address s) \<le> 2 ^ 29" "unat (ps_virtual_size s) \<le> 2 ^ 29"
      using s assms(2) by (auto simp: pe_section_ok_def max_def split: if_splits)
    ultimately have "unat (ps_virtual_address s) + unat (max (ps_virtual_size s) (of_nat (ps_raw_size s))) < 2 ^ 32"
      using raw assms(3) by (simp add: max_def split: if_splits)
    then have add: "(add_u32 (ps_virtual_address s) (max (ps_virtual_size s) (of_nat (ps_raw_size s))) :: ('e, u32) outcome) =
        Ok (ps_virtual_address s + max (ps_virtual_size s) (of_nat (ps_raw_size s)))" for s' :: 's
      by (simp add: add_u32_def)
    show ?case using Cons s by (auto simp: add Let_def pe_section_ok_def)
  qed simp
  then show "section_offset rva ss \<noteq> Panic" "section_offset rva ss = Ok (Some k) \<Longrightarrow> k < length data" by auto
qed

lemma pe_rva_ok:
  assumes "pe_image_ok data img" "length data < 2 ^ 31"
  shows "pe_rva img rva \<noteq> Panic" "pe_rva img rva = Ok (Some k) \<Longrightarrow> k < length data"
  using section_offset_ok [of "pe_sections img" data "pe_image_size img" rva] assms
  by (auto simp: pe_rva_def rva_to_offset_def pe_image_ok_def split: if_splits)

lemma mapped_offset_ok:
  assumes "pe_image_ok data img" "length data < 2 ^ 31"
  shows "mapped_offset (pe_rva img) rva why \<noteq> Panic"
    "mapped_offset (pe_rva img) rva why = Ok k \<Longrightarrow> k < length data \<and> pe_rva img rva = (Ok (Some k) :: (mirage_error, nat option) outcome)"
  using pe_rva_ok(2) [OF assms, of rva k] pe_rva_ok(1) [OF assms, of rva]
  by (auto simp: mapped_offset_def outcome_simps)

lemma import_name_ok: "hint + 2 \<le> length data \<Longrightarrow> import_name data hint \<noteq> Panic"
  by (auto simp: import_name_def Let_def outcome_simps)

section \<open>The directories\<close>

lemma import_entries_ok:
  assumes "pe_image_ok data img" "\<not> pe_hazard data img" "length acc \<le> MAX_IMPORTS" "unat slot + 8 * tries < 2 ^ 32"
  shows "case import_entries data (pe_rva img) tries names slot acc of
    Ok is \<Rightarrow> length is \<le> MAX_IMPORTS | Err e \<Rightarrow> True | Panic \<Rightarrow> False"
  using assms(3,4)
proof (induction tries arbitrary: names slot acc)
  case (Suc tries)
  have len: "length data < 2 ^ 31" using assms(2) by (simp add: pe_hazard_def)
  note M = mapped_offset_ok [OF assms(1) len]
  have name: "import_name data k \<noteq> Panic"
    if e: "u64_at data names = Ok e" and k: "mapped_offset (pe_rva img) (ucast (e AND 0x7FFFFFFF)) why = Ok k" for e k why
  proof (rule import_name_ok)
    have "k \<noteq> length data - 1" using M(2) [OF k] e assms(2) by (auto simp: pe_hazard_def)
    then show "k + 2 \<le> length data" using M(2) [OF k] by linarith
  qed
  have slot: "(add_u32 slot 8 :: (mirage_error, u32) outcome) = Ok (slot + 8)" "unat (slot + 8) + 8 * tries < 2 ^ 32"
  proof -
    have u: "unat slot + unat (8 :: u32) < 2 ^ 32" using Suc.prems(2) by simp
    then show "(add_u32 slot 8 :: (mirage_error, u32) outcome) = Ok (slot + 8)" by (simp add: add_u32_def)
    have "unat (slot + 8) = unat slot + 8" using u by (subst unat_add_lem [THEN iffD1]) simp_all
    then show "unat (slot + 8) + 8 * tries < 2 ^ 32" using Suc.prems(2) by simp
  qed
  show ?case
  proof (cases "length acc \<ge> MAX_IMPORTS")
    case False
    then have l: "length (acc @ [i]) \<le> MAX_IMPORTS" for i by simp
    note IH = Suc.IH [OF l slot(2)]
    show ?thesis
    proof (cases "u64_at data names")
      case e: (Ok e)
      show ?thesis
      proof (cases "mapped_offset (pe_rva img) (ucast (e AND 0x7FFFFFFF)) ''an import name RVA is unmapped''")
        case k: (Ok k)
        show ?thesis using False Suc.prems(1) e k slot(1) IH name [OF e k] by (cases "import_name data k") simp_all
      qed (use False Suc.prems(1) e M(1) in simp_all)
    qed (use False in simp_all)
  qed simp
qed (use assms(3) in simp)

lemma import_descriptors_ok:
  assumes "pe_image_ok data img" "\<not> pe_hazard data img" "length acc \<le> MAX_IMPORTS"
  shows "case import_descriptors data (pe_rva img) tries descriptor acc of
    Ok is \<Rightarrow> length is \<le> MAX_IMPORTS | Err e \<Rightarrow> True | Panic \<Rightarrow> False"
  using assms(3)
proof (induction tries arbitrary: descriptor acc)
  case (Suc tries)
  have len: "length data < 2 ^ 31" using assms(2) by (simp add: pe_hazard_def)
  note M = mapped_offset_ok [OF assms(1) len]
  show ?case
  proof (cases "descriptor + 20 > length data")
    case small: False
    show ?thesis
    proof (cases "u32_at data descriptor"; cases "u32_at data (descriptor + 12)"; cases "u32_at data (descriptor + 16)")
      fix l n iat assume f: "u32_at data descriptor = Ok l" "u32_at data (descriptor + 12) = Ok n" "u32_at data (descriptor + 16) = Ok iat"
      have "\<not> 2 ^ 32 - 4096 \<le> unat iat" using f(3) assms(2) unfolding pe_hazard_def by blast
      then have slot: "unat iat + 8 * MAX_IMPORTS < 2 ^ 32" by (simp add: MAX_IMPORTS_def)
      show ?thesis
      proof (cases "l = 0 \<and> n = 0 \<and> iat = 0")
        case False
        show ?thesis
        proof (cases "mapped_offset (pe_rva img) (if l \<noteq> 0 then l else iat) ''an import lookup table is unmapped''")
          case k: (Ok k)
          show ?thesis
            using small f False k import_entries_ok [OF assms(1,2) Suc.prems slot, of k] Suc.IH Suc.prems
            by (cases "import_entries data (pe_rva img) MAX_IMPORTS k iat acc") simp_all
        qed (use small f False M(1) Suc.prems in simp_all)
      qed (use small f Suc.prems in simp)
    qed (use small in simp_all)
  qed simp
qed simp

lemma parse_imports_ok:
  assumes "pe_image_ok data img" "\<not> pe_hazard data img"
  shows "case parse_imports data dir (pe_rva img) of Ok is \<Rightarrow> length is \<le> MAX_IMPORTS | Err e \<Rightarrow> True | Panic \<Rightarrow> False"
proof (cases "mapped_offset (pe_rva img) (fst dir) ''the import directory RVA is unmapped''")
  case (Ok k)
  then show ?thesis using import_descriptors_ok [OF assms, of "[]" MAX_IMPORTS k] by (simp add: parse_imports_def)
next
  case Panic
  then show ?thesis using mapped_offset_ok(1) [OF assms(1)] assms(2) by (simp add: pe_hazard_def)
qed (simp add: parse_imports_def)

lemma relocation_entries_ok:
  assumes "unat page < 2 ^ 32 - 4096" "length acc \<le> MAX_RELOCATIONS"
  shows "case relocation_entries data page at is acc of Ok rs \<Rightarrow> length rs \<le> MAX_RELOCATIONS | Err e \<Rightarrow> True | Panic \<Rightarrow> False"
  using assms(2)
proof (induction "is" arbitrary: acc)
  case (Cons i "is")
  have add: "(add_u32 page (ucast (e AND 0x0FFF)) :: (mirage_error, u32) outcome) = Ok (page + ucast (e AND 0x0FFF))" for e :: u16
  proof -
    have "e AND 0x0FFF = take_bit 12 e" by (simp add: take_bit_eq_mask mask_eq_exp_minus_1)
    then have "unat (e AND 0x0FFF) < 2 ^ 12" by (simp only: unsigned_take_bit_eq) (simp add: take_bit_eq_mod)
    moreover have "unat (ucast (e AND 0x0FFF) :: u32) \<le> unat (e AND 0x0FFF)"
      by (simp add: unsigned_ucast_eq take_bit_nat_less_eq_self)
    ultimately have "unat page + unat (ucast (e AND 0x0FFF) :: u32) < 2 ^ 32" using assms(1) by simp
    then show ?thesis by (simp add: add_u32_def)
  qed
  show ?case
  proof (cases "length acc \<ge> MAX_RELOCATIONS")
    case False
    then have l: "length (acc @ [r]) \<le> MAX_RELOCATIONS" for r by simp
    show ?thesis
      using False Cons.prems Cons.IH [OF Cons.prems] Cons.IH [OF l]
      by (cases "u16_at data (at + 8 + i * 2)") (simp_all add: Let_def add)
  qed simp
qed simp

lemma relocation_blocks_ok:
  assumes "\<not> pe_hazard data img" "length acc \<le> MAX_RELOCATIONS"
  shows "case relocation_blocks data at end_at acc of Ok rs \<Rightarrow> length rs \<le> MAX_RELOCATIONS | Err e \<Rightarrow> True | Panic \<Rightarrow> False"
  using assms
proof (induction data at end_at acc rule: relocation_blocks.induct)
  case (1 data at end_at acc)
  show ?case
  proof (cases "at + 8 \<le> end_at")
    case True
    show ?thesis
    proof (cases "u32_at data at"; cases "u32_at data (at + 4)")
      fix page size assume f: "u32_at data at = Ok page" "u32_at data (at + 4) = Ok size"
      have "\<not> 2 ^ 32 - 4096 \<le> unat page" using f(1) 1(2) unfolding pe_hazard_def by blast
      then have page: "unat page < 2 ^ 32 - 4096" by simp
      show ?thesis
      proof (cases "unat size < 8 \<or> at + unat size > end_at")
        case False
        note E = relocation_entries_ok [OF page 1(3), of data at "[0..<(unat size - 8) div 2]"]
        show ?thesis
        proof (cases "relocation_entries data page at [0..<(unat size - 8) div 2] acc")
          case (Ok rs)
          then have "length rs \<le> MAX_RELOCATIONS" using E by simp
          from 1(1) [OF True False 1(2) this] show ?thesis
            by (subst relocation_blocks.simps) (use True f False Ok in simp)
        qed (use E in \<open>simp_all add: relocation_blocks.simps [of data at] True f False\<close>)
      qed (simp add: relocation_blocks.simps [of data at] True f)
    qed (simp_all add: relocation_blocks.simps [of data at] True)
  qed (use 1(3) in \<open>simp add: relocation_blocks.simps [of data at]\<close>)
qed

lemma parse_relocations_ok:
  assumes "pe_image_ok data img" "\<not> pe_hazard data img"
  shows "case parse_relocations data dir (pe_rva img) of Ok rs \<Rightarrow> length rs \<le> MAX_RELOCATIONS | Err e \<Rightarrow> True | Panic \<Rightarrow> False"
proof -
  have len: "length data < 2 ^ 31" using assms(2) by (simp add: pe_hazard_def)
  note M = mapped_offset_ok(1) [OF assms(1) len]
  show ?thesis
    using M relocation_blocks_ok [OF assms(2), of "[]"]
    by (cases "mapped_offset (pe_rva img) (fst dir) ''the relocation directory is unmapped''")
      (auto simp: parse_relocations_def ok_or_def split: option.split)
qed

lemma read_directory_total [simp]: "read_directory data d n i \<noteq> Panic"
  by (simp add: read_directory_def outcome_simps)

text \<open>The header fields are those of the layout, and imports and relocations have nothing to do with them.\<close>

lemma pe_parse_ok:
  assumes "pe_layout data = Ok (img, d, n)" "\<not> pe_hazard data img"
  shows "case pe_parse data of Ok img' \<Rightarrow> pe_image_ok data img' | Err e \<Rightarrow> True | Panic \<Rightarrow> False"
proof -
  have ok: "pe_image_ok data img" using pe_layout_ok(2) [OF assms(1)] by simp
  note I = parse_imports_ok [OF ok assms(2)] and R = parse_relocations_ok [OF ok assms(2)]
  show ?thesis
  proof (cases "read_directory data d n DIRECTORY_IMPORT")
    case di: (Ok di)
    show ?thesis
    proof (cases "parse_imports data di (pe_rva img)")
      case im: (Ok im)
      show ?thesis
      proof (cases "read_directory data d n DIRECTORY_BASERELOC")
        case dr: (Ok dr)
        show ?thesis
          using I [of di] R [of dr] ok
          by (cases "parse_relocations data dr (pe_rva img)") (simp_all add: pe_parse_def assms(1) di im dr pe_image_ok_def)
      qed (simp_all add: pe_parse_def assms(1) di im)
    qed (use I [of di] in \<open>simp_all add: pe_parse_def assms(1) di\<close>)
  qed (simp_all add: pe_parse_def assms(1))
qed

section \<open>Properties\<close>

text \<open>
  C39. Parsing a Windows program never stops the kernel, whatever its bytes, unless they hold one of
  the three things \<open>pe_hazard\<close> lists; and an image it accepts is within bounds: every section lies
  inside the file and inside the image, the image is at most 512 MiB, and sections, imports and
  relocations are within the loader's limits.
\<close>

theorem pe_parse_safe:
  assumes "\<And>img d n. pe_layout data = Ok (img, d, n) \<Longrightarrow> \<not> pe_hazard data img"
  shows "case pe_parse data of Ok img \<Rightarrow> pe_image_ok data img | Err e \<Rightarrow> True | Panic \<Rightarrow> False"
proof (cases "pe_layout data")
  case (Ok x)
  obtain img d n where x: "x = (img, d, n)" by (rule prod_cases3)
  from pe_parse_ok [OF _ assms] Ok x show ?thesis by blast
next
  case (Err e)
  then show ?thesis by (simp add: pe_parse_def)
next
  case Panic
  then show ?thesis using pe_layout_ok(1) by blast
qed

text \<open>A program without sections that imports one function; its name entry is an argument.\<close>

definition pe_with :: "bytes \<Rightarrow> bytes" where
  "pe_with entry =
     [77, 90, 0, 0, 0, 0, 0, 0, 0, 0, 0, 0, 0, 0, 0, 0, 0, 0, 0, 0, 0, 0, 0, 0, 0, 0, 0, 0, 0, 0, 0, 0,
      0, 0, 0, 0, 0, 0, 0, 0, 0, 0, 0, 0, 0, 0, 0, 0, 0, 0, 0, 0, 0, 0, 0, 0, 0, 0, 0, 0, 64, 0, 0, 0,
      80, 69, 0, 0, 100, 134, 0, 0, 0, 0, 0, 0, 0, 0, 0, 0, 0, 0, 0, 0, 128, 0, 0, 0, 11, 2, 0, 0, 0, 0, 0, 0,
      0, 0, 0, 0, 0, 0, 0, 0, 0, 16, 0, 0, 0, 0, 0, 0, 0, 0, 0, 64, 1, 0, 0, 0, 0, 0, 0, 0, 0, 0, 0, 0,
      0, 0, 0, 0, 0, 0, 0, 0, 0, 0, 0, 0, 0, 0, 0, 0, 0, 32, 0, 0, 24, 1, 0, 0, 0, 0, 0, 0, 0, 0, 0, 0,
      0, 0, 0, 0, 0, 0, 0, 0, 0, 0, 0, 0, 0, 0, 0, 0, 0, 0, 0, 0, 0, 0, 0, 0, 0, 0, 0, 0, 0, 0, 0, 0,
      0, 0, 0, 0, 2, 0, 0, 0, 0, 0, 0, 0, 0, 0, 0, 0, 216, 0, 0, 0, 0, 0, 0, 0, 0, 1, 0, 0, 0, 0, 0, 0,
      0, 0, 0, 0, 0, 0, 0, 0, 0, 1, 0, 0, 0, 0, 0, 0, 0, 0, 0, 0, 0, 0, 0, 0, 0, 0, 0, 0, 0, 0, 0, 0] @ entry @
     [0, 0, 0, 0, 0, 0, 0, 0, 0, 0, 83, 108, 101, 101, 112, 0]"

definition demo_pe :: bytes where "demo_pe = pe_with [16, 1, 0, 0, 0, 0, 0, 0]"

definition demo_pe_layout :: pe_image where
  "demo_pe_layout = \<lparr>pe_entry_rva = 0x1000, pe_preferred_base = 0x140000000, pe_image_size = 0x2000, pe_headers_size = 280,
     pe_sections = [], pe_imports = [], pe_relocations = []\<rparr>"

lemma pe_with_layout: "pe_layout (pe_with [a, b, c, d, e, f, g, h]) = Ok (demo_pe_layout, 200, 2)"
  by (simp add: pe_layout_def pe_headers_def pe_with_def Let_def u16_at_def u32_at_def u64_at_def get_range_def pe_defs
      u16_from_le_def u32_from_le_def u64_from_le_def le_nat_def demo_pe_layout_def MAX_SECTIONS_def)

lemma pe_with_imports:
  assumes "length entry = 8"
  shows "pe_parse (pe_with entry) = obind (import_descriptors (pe_with entry) (pe_rva demo_pe_layout) 512 216 []) (\<lambda>im.
     Ok (demo_pe_layout\<lparr>pe_imports := im, pe_relocations := []\<rparr>))"
proof -
  obtain a b c d e f g h where entry: "entry = [a, b, c, d, e, f, g, h]"
    using assms by (auto simp: numeral_eq_Suc length_Suc_conv)
  have "read_directory (pe_with entry) 200 2 DIRECTORY_IMPORT = Ok (216, 0)"
    by (simp add: entry read_directory_def pe_defs u32_at_def get_range_def pe_with_def u32_from_le_def le_nat_def)
  moreover have "read_directory (pe_with entry) 200 2 DIRECTORY_BASERELOC = Ok (0, 0)"
    by (simp add: read_directory_def pe_defs)
  moreover have "pe_rva demo_pe_layout 216 = (Ok (Some 216) :: (mirage_error, nat option) outcome)"
    by (simp add: pe_rva_def rva_to_offset_def demo_pe_layout_def)
  ultimately show ?thesis
    unfolding pe_parse_def entry pe_with_layout
    by (simp add: parse_imports_def parse_relocations_def mapped_offset_def MAX_IMPORTS_def)
qed

lemma pe_hint_at_end_panics: "pe_parse (pe_with [23, 1, 0, 0, 0, 0, 0, 0]) = Panic"
proof -
  let ?data = "pe_with [23, 1, 0, 0, 0, 0, 0, 0]"
  have len: "length ?data = 280" by (simp add: pe_with_def)
  have f: "u32_at ?data 216 = Ok 256" "u32_at ?data 228 = Ok 0" "u32_at ?data 232 = Ok 256" "u64_at ?data 256 = Ok 279"
    by (simp_all add: u32_at_def u64_at_def get_range_def pe_with_def u32_from_le_def u64_from_le_def le_nat_def)
  have r: "pe_rva demo_pe_layout 256 = (Ok (Some 256) :: (mirage_error, nat option) outcome)"
    "pe_rva demo_pe_layout 279 = (Ok (Some 279) :: (mirage_error, nat option) outcome)"
    by (simp_all add: pe_rva_def rva_to_offset_def demo_pe_layout_def)
  have s: "(512 :: nat) = Suc 511" "MAX_IMPORTS = Suc 511" by (simp_all add: MAX_IMPORTS_def)
  have e: "import_entries ?data (pe_rva demo_pe_layout) MAX_IMPORTS 256 256 [] = Panic"
    unfolding s(2) import_entries.simps by (simp add: f r mapped_offset_def import_name_def len)
  have "import_descriptors ?data (pe_rva demo_pe_layout) (Suc 511) 216 [] = Panic"
    unfolding import_descriptors.simps by (simp add: f r e len mapped_offset_def)
  from this [folded s(1)] show ?thesis by (subst pe_with_imports) simp_all
qed

text \<open>A file none of whose bytes is \<open>0xFF\<close> or the low byte of its last offset has nothing to fear.\<close>

lemma get_range_Some: "get_range data at k = Some bs \<Longrightarrow> at \<le> k \<and> k \<le> length data \<and> bs = take (k - at) (drop at data)"
  by (auto simp: get_range_def split: if_splits)

lemma plain_no_hazard:
  assumes "0xFF \<notin> set data" "of_nat (length data - 1) \<notin> set data" "length data < 2 ^ 31" "pe_sections img = []"
  shows "\<not> pe_hazard data img"
proof -
  have small: "unat w < 2 ^ 32 - 4096" if rd: "u32_at data at = Ok w" for at w
  proof -
    obtain bs where bs: "get_range data at (at + 4) = Some bs" "u32_from_le bs = w"
      using rd by (auto simp: u32_at_def outcome_simps)
    note g = get_range_Some [OF bs(1)]
    then have l: "length bs = 4" and sub: "set bs \<subseteq> set data" by (auto dest: in_set_takeD in_set_dropD)
    obtain a b c d where abcd: "bs = [a, b, c, d]" using l by (auto simp: numeral_eq_Suc length_Suc_conv)
    have "d \<noteq> 0xFF" using sub assms(1) by (auto simp: abcd)
    then have "unat d \<noteq> 255" by (simp add: word_unat_eq_iff)
    then have "unat d < 255" using unat_bound [of d] by simp
    moreover have "unat a < 256" "unat b < 256" "unat c < 256" using unat_bound [of a] unat_bound [of b] unat_bound [of c] by simp_all
    moreover have "unat w = unat a + 256 * (unat b + 256 * (unat c + 256 * unat d))"
      using unat_u32_from_le [OF l] by (simp add: bs(2) [symmetric] abcd)
    ultimately show ?thesis by simp
  qed
  have hint: "pe_rva img (ucast (e AND 0x7FFFFFFF)) \<noteq> (Ok (Some (length data - 1)) :: (mirage_error, nat option) outcome)"
    if rd: "u64_at data at = Ok e" for at e
  proof
    obtain bs where bs: "get_range data at (at + 8) = Some bs" "u64_from_le bs = e"
      using rd by (auto simp: u64_at_def outcome_simps)
    note g = get_range_Some [OF bs(1)]
    then have l: "length bs = 8" and sub: "set bs \<subseteq> set data" by (auto dest: in_set_takeD in_set_dropD)
    obtain a rest where ar: "bs = a # rest" using l by (cases bs) auto
    have "unat e = unat a + 256 * le_nat rest" using unat_u64_from_le [OF l] by (simp add: bs(2) [symmetric] ar)
    then have low: "unat e mod 256 = unat a" using unat_bound [of a] by simp
    assume "pe_rva img (ucast (e AND 0x7FFFFFFF)) = (Ok (Some (length data - 1)) :: (mirage_error, nat option) outcome)"
    then have r: "unat (ucast (e AND 0x7FFFFFFF) :: u32) = length data - 1"
      using assms(4) by (auto simp: pe_rva_def rva_to_offset_def split: if_splits)
    have "e AND 0x7FFFFFFF = take_bit 31 e" by (simp add: take_bit_eq_mask mask_eq_exp_minus_1)
    then have "unat (e AND 0x7FFFFFFF) = unat e mod 2 ^ 31" by (simp only: unsigned_take_bit_eq) (simp add: take_bit_eq_mod)
    then have "unat (ucast (e AND 0x7FFFFFFF) :: u32) = unat e mod 2 ^ 31"
      by (simp add: unsigned_ucast_eq take_bit_eq_mod)
    then have "(length data - 1) mod 256 = unat e mod 2 ^ 31 mod 256" using r by simp
    also have "\<dots> = unat a" using low mod_mod_cancel [of 256 "2 ^ 31" "unat e"] by simp
    finally have "(of_nat (length data - 1) :: u8) = a"
      by (intro word_unat_eq_iff [THEN iffD2]) (simp add: unat_of_nat take_bit_eq_mod)
    then show False using assms(2) sub ar by auto
  qed
  show ?thesis using small hint assms(3) unfolding pe_hazard_def by (metis not_le)
qed

lemma demo_pe_parse:
  "pe_parse demo_pe = Ok (demo_pe_layout\<lparr>pe_imports := [\<lparr>pi_name = ascii ''Sleep'', pi_iat_rva = 256\<rparr>]\<rparr>)"
proof -
  have len: "length demo_pe = 280" by (simp add: demo_pe_def pe_with_def)
  have f: "u32_at demo_pe 216 = Ok 256" "u32_at demo_pe 228 = Ok 0" "u32_at demo_pe 232 = Ok 256" "u64_at demo_pe 256 = Ok 272"
    "u64_at demo_pe 264 = Ok 0" "u32_at demo_pe 236 = Ok 0" "u32_at demo_pe 248 = Ok 0" "u32_at demo_pe 252 = Ok 0"
    by (simp_all add: demo_pe_def u32_at_def u64_at_def get_range_def pe_with_def u32_from_le_def u64_from_le_def le_nat_def)
  have r: "pe_rva demo_pe_layout 256 = (Ok (Some 256) :: (mirage_error, nat option) outcome)"
    "pe_rva demo_pe_layout 272 = (Ok (Some 272) :: (mirage_error, nat option) outcome)"
    by (simp_all add: pe_rva_def rva_to_offset_def demo_pe_layout_def)
  have bytes: "drop 274 demo_pe = ascii ''Sleep'' @ [0]"
    by (simp add: demo_pe_def pe_with_def ascii_def)
  have name: "import_name demo_pe 272 = Ok (ascii ''Sleep'')"
    by (simp add: import_name_def len bytes ascii_def lossy_ascii)
  have s: "(512 :: nat) = Suc (Suc 510)" "MAX_IMPORTS = Suc (Suc 510)" by (simp_all add: MAX_IMPORTS_def)
  have e: "import_entries demo_pe (pe_rva demo_pe_layout) MAX_IMPORTS 256 256 [] = Ok [\<lparr>pi_name = ascii ''Sleep'', pi_iat_rva = 256\<rparr>]"
    unfolding s(2) import_entries.simps by (simp add: f r name mapped_offset_def add_u32_def)
  have "import_descriptors demo_pe (pe_rva demo_pe_layout) (Suc (Suc 510)) 216 [] = Ok [\<lparr>pi_name = ascii ''Sleep'', pi_iat_rva = 256\<rparr>]"
    unfolding import_descriptors.simps by (simp add: f r e len mapped_offset_def)
  from this [folded s(1)] show ?thesis
    unfolding demo_pe_def by (subst pe_with_imports) (simp_all add: demo_pe_layout_def)
qed

theorem pe_parse_safe_witness: "\<exists>img. pe_parse demo_pe = Ok img \<and> length (pe_imports img) = 1 \<and> pe_image_ok demo_pe img"
proof -
  have "\<not> pe_hazard demo_pe img" if "pe_layout demo_pe = Ok (img, d, n)" for img d n
  proof (rule plain_no_hazard)
    have "img = demo_pe_layout" using that by (simp add: demo_pe_def pe_with_layout)
    then show "pe_sections img = []" by (simp add: demo_pe_layout_def)
  qed (simp_all add: demo_pe_def pe_with_def)
  from pe_parse_safe [OF this] demo_pe_parse show ?thesis by (simp add: demo_pe_layout_def)
qed

end
