(* ===== verification/Thunks.thy ===== *)
theory Thunks
  imports Cpu Abi
begin

text \<open>
  The Win32 side of Mirage (\<^verbatim>\<open>kernel/src/mirage/win32.rs\<close>): the table of functions, and the machine code
  generated for each. The code is judged by running it: a decoder for the instructions it is made
  of, and a processor that follows them.
\<close>

unbundle bit_operations_syntax

section \<open>The table and the generator\<close>

record thunk =
  tk_name :: bytes
  tk_syscall :: u64
  tk_args :: u8

definition THUNKS :: "thunk list" where
  "THUNKS =
     [\<lparr>tk_name = ascii ''ExitProcess'', tk_syscall = SYS_EXIT, tk_args = 1\<rparr>,
      \<lparr>tk_name = ascii ''GetTickCount'', tk_syscall = SYS_UPTIME_MS, tk_args = 0\<rparr>,
      \<lparr>tk_name = ascii ''Sleep'', tk_syscall = SYS_YIELD, tk_args = 1\<rparr>,
      \<lparr>tk_name = ascii ''OutputDebugStringA'', tk_syscall = SYS_WRITE_CSTR, tk_args = 1\<rparr>]"

text \<open>\<^verbatim>\<open>lookup\<close> of \<^verbatim>\<open>win32.rs\<close>.\<close>

definition lookup_thunk :: "bytes \<Rightarrow> thunk option" where
  "lookup_thunk name = find (\<lambda>t. tk_name t = name) THUNKS"

definition THUNK_STRIDE :: nat where "THUNK_STRIDE = 32"

text \<open>The closure \<^verbatim>\<open>emit\<close>: the code and the position after it; a write past the end panics.\<close>

definition emit :: "bytes \<Rightarrow> bytes \<times> nat \<Rightarrow> ('e, bytes \<times> nat) outcome" where
  "emit bs = (\<lambda>(code, at).
     if at + length bs \<le> length code
     then Ok (take at code @ bs @ drop (at + length bs) code, at + length bs) else Panic)"

definition generate_thunk :: "thunk \<Rightarrow> ('e, bytes) outcome" where
  "generate_thunk t =
     obind (if tk_args t \<ge> 1 then emit [0x48, 0x89, 0xCF] (replicate THUNK_STRIDE 0x90, 0)
            else Ok (replicate THUNK_STRIDE 0x90, 0)) (\<lambda>s.
     obind (if tk_args t \<ge> 2 then emit [0x48, 0x89, 0xD6] s else Ok s) (\<lambda>s.
     obind (if tk_args t \<ge> 3 then emit [0x4C, 0x89, 0xC2] s else Ok s) (\<lambda>s.
     obind (emit [0x48, 0xC7, 0xC0] s) (\<lambda>s.
     obind (emit (u32_to_le (ucast (tk_syscall t))) s) (\<lambda>s.
     obind (emit [0xCD, 0x80] s) (\<lambda>s.
     obind (emit [0xC3] s) (\<lambda>(code, _). Ok code)))))))"

section \<open>Running machine code\<close>

text \<open>
  The instructions a thunk is made of, as the processor's manual encodes them: \<^verbatim>\<open>nop\<close>, \<^verbatim>\<open>ret\<close>, \<^verbatim>\<open>int n\<close>,
  and between registers \<^verbatim>\<open>REX.W 89 /r\<close> and \<^verbatim>\<open>REX.W C7 /0 id\<close> with its sign-extended operand.
\<close>

datatype decoded = Plain instr | Nop | IntN u8

fun reg_number :: "nat \<Rightarrow> reg option" where
  "reg_number n =
     (if n < 16 \<and> n \<noteq> 4
      then Some ([RAX, RCX, RDX, RBX, RAX, RBP, RSI, RDI, R8, R9, R10, R11, R12, R13, R14, R15] ! n) else None)"

definition sign_extend32 :: "u32 \<Rightarrow> u64" where
  "sign_extend32 w = (if bit w 31 then ucast w OR 0xFFFFFFFF00000000 else ucast w)"

text \<open>The register operands of a prefix and a ModRM byte that names two registers: \<^verbatim>\<open>r/m\<close> and \<^verbatim>\<open>reg\<close>.\<close>

definition modrm_regs :: "u8 \<Rightarrow> u8 \<Rightarrow> (reg \<times> reg) option" where
  "modrm_regs rex modrm =
     (if unat rex div 8 = 9 \<and> unat modrm div 64 = 3
      then (case (reg_number (unat modrm mod 8 + 8 * (unat rex mod 2)),
                  reg_number (unat modrm div 8 mod 8 + 8 * (unat rex div 4 mod 2))) of
              (Some rm, Some r) \<Rightarrow> Some (rm, r) | _ \<Rightarrow> None)
      else None)"

definition decode_instr :: "bytes \<Rightarrow> (decoded \<times> nat) option" where
  "decode_instr bs =
     (case bs of
        b # rest \<Rightarrow>
          if b = 0x90 then Some (Nop, 1)
          else if b = 0xC3 then Some (Plain Ret, 1)
          else if b = 0xCD then (case rest of n # _ \<Rightarrow> Some (IntN n, 2) | _ \<Rightarrow> None)
          else
            (case rest of
               opc # modrm # tail \<Rightarrow>
                 (case modrm_regs b modrm of
                    None \<Rightarrow> None
                  | Some (rm, r) \<Rightarrow>
                      if opc = 0x89 then Some (Plain (Mov rm r), 3)
                      else if opc = 0xC7 \<and> unat modrm div 8 mod 8 = 0 \<and> 4 \<le> length tail
                      then Some (Plain (MovImm rm (sign_extend32 (u32_from_le (take 4 tail)))), 7)
                      else None)
             | _ \<Rightarrow> None)
      | [] \<Rightarrow> None)"

text \<open>
  The processor from an offset of the code on, until a \<^verbatim>\<open>ret\<close>. The system call is an argument that may
  not come back. \<open>Left\<close> is the state when execution leaves the code without a \<^verbatim>\<open>ret\<close>.
\<close>

datatype code_exit = Returned cpu | Ended | Fell cpu | Bad

fun run_bytes :: "nat \<Rightarrow> (u8 \<Rightarrow> cpu \<Rightarrow> cpu option) \<Rightarrow> bytes \<Rightarrow> cpu \<Rightarrow> code_exit" where
  "run_bytes 0 intr code c = Bad"
| "run_bytes (Suc fuel) intr code c =
     (if code = [] then Fell c
      else case decode_instr code of
        None \<Rightarrow> Bad
      | Some (Nop, n) \<Rightarrow> run_bytes fuel intr (drop n code) c
      | Some (Plain Ret, n) \<Rightarrow> Returned (exec_instr Ret c)
      | Some (Plain i, n) \<Rightarrow> run_bytes fuel intr (drop n code) (exec_instr i c)
      | Some (IntN v, n) \<Rightarrow> (case intr v c of None \<Rightarrow> Ended | Some c' \<Rightarrow> run_bytes fuel intr (drop n code) c'))"

section \<open>What a thunk does\<close>

text \<open>The call a thunk makes: number and arguments in the registers of the native convention.\<close>

definition native_call :: "thunk \<Rightarrow> cpu \<Rightarrow> cpu" where
  "native_call t c =
     c\<lparr>cpu_regs := (cpu_regs c)
        (RDI := if tk_args t \<ge> 1 then cpu_regs c RCX else cpu_regs c RDI,
         RSI := if tk_args t \<ge> 2 then cpu_regs c RDX else cpu_regs c RSI,
         RDX := if tk_args t \<ge> 3 then cpu_regs c R8 else cpu_regs c RDX,
         RAX := tk_syscall t)\<rparr>"

definition thunk_body :: "thunk \<Rightarrow> bytes" where
  "thunk_body t =
     (if tk_args t \<ge> 1 then [0x48, 0x89, 0xCF] else []) @ (if tk_args t \<ge> 2 then [0x48, 0x89, 0xD6] else []) @
     (if tk_args t \<ge> 3 then [0x4C, 0x89, 0xC2] else []) @ [0x48, 0xC7, 0xC0] @ u32_to_le (ucast (tk_syscall t)) @
     [0xCD, 0x80, 0xC3]"

lemma thunk_body_length: "length (thunk_body t) \<le> 19"
  by (simp add: thunk_body_def)

text \<open>The code, and the padding after it.\<close>

lemma generate_thunk_bytes:
  "generate_thunk t = Ok (thunk_body t @ replicate (THUNK_STRIDE - length (thunk_body t)) 0x90)"
  by (auto simp: generate_thunk_def thunk_body_def emit_def THUNK_STRIDE_def not_le)

lemma sign_extend_small:
  assumes "unat s < 2 ^ 31"
  shows "sign_extend32 (ucast (s :: u64)) = s"
proof -
  have "take_bit 31 s = s"
    by (rule word_unat_eq_iff [THEN iffD2]) (use assms in \<open>simp only: unsigned_take_bit_eq take_bit_nat_eq_self\<close>)
  then have b: "\<not> bit s n" if "31 \<le> n" for n using that by (metis bit_take_bit_iff not_le)
  have "(ucast (ucast s :: u32) :: u64) = s"
  proof (rule bit_word_eqI)
    fix n
    have "bit s n \<Longrightarrow> n < 32" using b [of n] by (cases "31 \<le> n") simp_all
    then show "bit (ucast (ucast s :: u32) :: u64) n = bit s n" if "n < LENGTH(64)" using that by (auto simp: bit_simps)
  qed
  then show ?thesis using b [of 31] by (simp add: sign_extend32_def bit_simps)
qed

lemma decode_moves:
  "decode_instr (0x48 # 0x89 # 0xCF # rest) = Some (Plain (Mov RDI RCX), 3)"
  "decode_instr (0x48 # 0x89 # 0xD6 # rest) = Some (Plain (Mov RSI RDX), 3)"
  "decode_instr (0x4C # 0x89 # 0xC2 # rest) = Some (Plain (Mov RDX R8), 3)"
  "decode_instr (0xCD # 0x80 # rest) = Some (IntN 0x80, 2)" "decode_instr (0xC3 # rest) = Some (Plain Ret, 1)"
  "decode_instr (0x90 # rest) = Some (Nop, 1)"
  by (simp_all add: decode_instr_def modrm_regs_def)

lemma decode_number:
  "decode_instr (0x48 # 0xC7 # 0xC0 # u32_to_le w @ rest) = Some (Plain (MovImm RAX (sign_extend32 w)), 7)"
  by (simp add: decode_instr_def modrm_regs_def u32_from_to_le)

text \<open>The processor on the code of a thunk, whatever follows it.\<close>

lemma run_moves:
  "run_bytes (Suc n) intr (0x48 # 0x89 # 0xCF # rest) c = run_bytes n intr rest (exec_instr (Mov RDI RCX) c)"
  "run_bytes (Suc n) intr (0x48 # 0x89 # 0xD6 # rest) c = run_bytes n intr rest (exec_instr (Mov RSI RDX) c)"
  "run_bytes (Suc n) intr (0x4C # 0x89 # 0xC2 # rest) c = run_bytes n intr rest (exec_instr (Mov RDX R8) c)"
  by (simp_all add: decode_moves)

lemma run_tail:
  assumes "unat s < 2 ^ 31"
  shows "run_bytes (Suc (Suc (Suc n))) intr (0x48 # 0xC7 # 0xC0 # u32_to_le (ucast s) @ 0xCD # 0x80 # 0xC3 # rest) d =
    (case intr 0x80 (exec_instr (MovImm RAX s) d) of None \<Rightarrow> Ended | Some c' \<Rightarrow> Returned (exec_instr Ret c'))"
  by (simp add: decode_number decode_moves sign_extend_small [OF assms] split: option.split)

declare run_bytes.simps(2) [simp del]

lemma run_thunk:
  assumes "unat (tk_syscall t) < 2 ^ 31"
  shows "run_bytes (Suc (Suc (Suc (Suc (Suc (Suc fuel)))))) intr (thunk_body t @ rest) c =
    (case intr 0x80 (native_call t c) of None \<Rightarrow> Ended | Some c' \<Rightarrow> Returned (exec_instr Ret c'))"
proof -
  note tail = run_tail [OF assms]
  have mono: "2 \<le> tk_args t \<Longrightarrow> 1 \<le> tk_args t" "3 \<le> tk_args t \<Longrightarrow> 2 \<le> tk_args t"
    by (auto elim: order_trans [rotated])
  consider "\<not> 1 \<le> tk_args t" "\<not> 2 \<le> tk_args t" "\<not> 3 \<le> tk_args t"
    | "1 \<le> tk_args t" "\<not> 2 \<le> tk_args t" "\<not> 3 \<le> tk_args t"
    | "1 \<le> tk_args t" "2 \<le> tk_args t" "\<not> 3 \<le> tk_args t"
    | "1 \<le> tk_args t" "2 \<le> tk_args t" "3 \<le> tk_args t"
    using mono by blast
  then show ?thesis
  proof cases
    case 1
    then have e: "native_call t c = exec_instr (MovImm RAX (tk_syscall t)) c" by (simp add: native_call_def fun_eq_iff)
    from 1 show ?thesis by (simp add: thunk_body_def e tail run_moves del: exec_instr.simps)
  next
    case 2
    then have e: "native_call t c = exec_instr (MovImm RAX (tk_syscall t)) (exec_instr (Mov RDI RCX) c)"
      by (simp add: native_call_def fun_eq_iff)
    from 2 show ?thesis by (simp add: thunk_body_def e tail run_moves del: exec_instr.simps)
  next
    case 3
    then have e: "native_call t c = exec_instr (MovImm RAX (tk_syscall t)) (exec_instr (Mov RSI RDX) (exec_instr (Mov RDI RCX) c))"
      by (simp add: native_call_def fun_eq_iff)
    from 3 show ?thesis by (simp add: thunk_body_def e tail run_moves del: exec_instr.simps)
  next
    case 4
    then have e: "native_call t c = exec_instr (MovImm RAX (tk_syscall t))
        (exec_instr (Mov RDX R8) (exec_instr (Mov RSI RDX) (exec_instr (Mov RDI RCX) c)))"
      by (simp add: native_call_def fun_eq_iff)
    from 4 show ?thesis by (simp add: thunk_body_def e tail run_moves del: exec_instr.simps)
  qed
qed

text \<open>
  The padding after the code does not lead back to its \<^verbatim>\<open>ret\<close>: execution that starts there runs into
  whatever follows the thunk.
\<close>

lemma run_padding: "run_bytes (k + fuel) intr (replicate k 0x90 @ rest) c = run_bytes fuel intr rest c"
  by (induction k) (simp_all add: run_bytes.simps(2) decode_moves)

lemma thunk_padding_falls_through:
  assumes "generate_thunk t = Ok code" "length (thunk_body t) \<le> k" "k \<le> THUNK_STRIDE"
  shows "run_bytes (THUNK_STRIDE - k + fuel) intr (drop k code @ rest) c = run_bytes fuel intr rest c"
proof -
  have "code = thunk_body t @ replicate (THUNK_STRIDE - length (thunk_body t)) 0x90"
    using assms(1) unfolding generate_thunk_bytes by simp
  then have "drop k code = replicate (THUNK_STRIDE - k) 0x90" using assms(2,3) by simp
  then show ?thesis by (simp add: run_padding)
qed

section \<open>Properties\<close>

text \<open>
  C38. The code generated for a Win32 function translates the calling convention. Run on a processor,
  whatever follows it in memory, it issues exactly one system call, with the function's number in
  RAX and the first arguments of the Microsoft convention (RCX, RDX, R8) in the registers of the
  native one (RDI, RSI, RDX), no other register, no memory and no flag changed; and if the call
  comes back it returns to its caller with the result.
\<close>

theorem thunk_translates:
  assumes "unat (tk_syscall t) < 2 ^ 31"
  shows "\<exists>code. generate_thunk t = Ok code \<and> length code = THUNK_STRIDE \<and>
    (\<forall>intr rest c. run_bytes 6 intr (code @ rest) c =
       (case intr 0x80
          (c\<lparr>cpu_regs := \<lambda>r. if r = RAX then tk_syscall t
               else if r = RDI \<and> tk_args t \<ge> 1 then cpu_regs c RCX
               else if r = RSI \<and> tk_args t \<ge> 2 then cpu_regs c RDX
               else if r = RDX \<and> tk_args t \<ge> 3 then cpu_regs c R8
               else cpu_regs c r\<rparr>) of
          None \<Rightarrow> Ended
        | Some c' \<Rightarrow> Returned (c'\<lparr>cpu_sp := cpu_sp c' + 8, cpu_ip := cpu_mem c' (cpu_sp c')\<rparr>)))"
proof -
  have n: "native_call t c =
      c\<lparr>cpu_regs := \<lambda>r. if r = RAX then tk_syscall t
               else if r = RDI \<and> tk_args t \<ge> 1 then cpu_regs c RCX
               else if r = RSI \<and> tk_args t \<ge> 2 then cpu_regs c RDX
               else if r = RDX \<and> tk_args t \<ge> 3 then cpu_regs c R8
               else cpu_regs c r\<rparr>" for c
    by (auto simp: native_call_def fun_eq_iff)
  have six: "(6 :: nat) = Suc (Suc (Suc (Suc (Suc (Suc 0)))))" by simp
  have "run_bytes 6 intr ((thunk_body t @ replicate (THUNK_STRIDE - length (thunk_body t)) 0x90) @ rest) c =
      (case intr 0x80 (native_call t c) of None \<Rightarrow> Ended | Some c' \<Rightarrow> Returned (exec_instr Ret c'))" for intr rest c
    unfolding six append_assoc by (rule run_thunk [OF assms])
  then show ?thesis using thunk_body_length [of t]
    by (auto simp: generate_thunk_bytes n THUNK_STRIDE_def split: option.split)
qed

text \<open>\<^verbatim>\<open>OutputDebugStringA\<close> on a machine whose system call returns the first argument.\<close>

theorem thunk_translates_witness:
  "\<exists>t code. lookup_thunk (ascii ''OutputDebugStringA'') = Some t \<and> generate_thunk t = (Ok code :: (unit, bytes) outcome) \<and>
     (\<forall>c. run_bytes 6 (\<lambda>v d. Some (d\<lparr>cpu_regs := (cpu_regs d)(RAX := cpu_regs d RDI)\<rparr>)) code c =
        Returned (c\<lparr>cpu_regs := (cpu_regs c)(RDI := cpu_regs c RCX, RAX := cpu_regs c RCX),
                    cpu_sp := cpu_sp c + 8, cpu_ip := cpu_mem c (cpu_sp c)\<rparr>))"
proof -
  let ?t = "THUNKS ! 3"
  have l: "lookup_thunk (ascii ''OutputDebugStringA'') = Some ?t" by code_simp
  have s: "unat (tk_syscall ?t) < 2 ^ 31" "tk_args ?t = 1" by (simp_all add: THUNKS_def abi_defs)
  from thunk_translates [OF s(1)] obtain code where code: "generate_thunk ?t = (Ok code :: (unit, bytes) outcome)"
    "\<And>intr rest c. run_bytes 6 intr (code @ rest) c =
       (case intr 0x80
          (c\<lparr>cpu_regs := \<lambda>r. if r = RAX then tk_syscall ?t
               else if r = RDI \<and> tk_args ?t \<ge> 1 then cpu_regs c RCX
               else if r = RSI \<and> tk_args ?t \<ge> 2 then cpu_regs c RDX
               else if r = RDX \<and> tk_args ?t \<ge> 3 then cpu_regs c R8
               else cpu_regs c r\<rparr>) of
          None \<Rightarrow> Ended
        | Some c' \<Rightarrow> Returned (c'\<lparr>cpu_sp := cpu_sp c' + 8, cpu_ip := cpu_mem c' (cpu_sp c')\<rparr>))" by blast
  have run: "run_bytes 6 (\<lambda>v d. Some (d\<lparr>cpu_regs := (cpu_regs d)(RAX := cpu_regs d RDI)\<rparr>)) code c =
      Returned (c\<lparr>cpu_regs := (cpu_regs c)(RDI := cpu_regs c RCX, RAX := cpu_regs c RCX),
                  cpu_sp := cpu_sp c + 8, cpu_ip := cpu_mem c (cpu_sp c)\<rparr>)" for c
  proof -
    have e: "(\<lambda>r. if r = RAX then tk_syscall ?t
               else if r = RDI \<and> tk_args ?t \<ge> 1 then cpu_regs c RCX
               else if r = RSI \<and> tk_args ?t \<ge> 2 then cpu_regs c RDX
               else if r = RDX \<and> tk_args ?t \<ge> 3 then cpu_regs c R8
               else cpu_regs c r) = (cpu_regs c)(RDI := cpu_regs c RCX, RAX := tk_syscall ?t)"
      unfolding s(2) by (rule ext) (simp add: word_le_nat_alt)
    show ?thesis using code(2) [of _ "[]" c] unfolding e by simp
  qed
  show ?thesis using l code(1) run by blast
qed

end
