(* ===== verification/Mirage.thy ===== *)
theory Mirage
  imports Pe Thunks Images
begin

text \<open>
  Mirage's loader (\<^verbatim>\<open>kernel/src/mirage.rs\<close>): a Windows program laid out in a private address space,
  relocated, its imports bound to generated code, its pages protected. What the resulting pages
  allow is stated exactly. The progress messages are left out.
\<close>

unbundle bit_operations_syntax

section \<open>Relocations and imports\<close>

type_synonym 'a mirage_step = "(vm \<times> address_space, mirage_error, 'a) step"

definition mapped :: "(vm \<times> address_space \<Rightarrow> (map_error, unit) outcome \<times> vm \<times> address_space) \<Rightarrow> unit mirage_step" where
  "mapped oper = map_err MirageMapping oper"

text \<open>One relocation: the eight bytes at the address, through one translation.\<close>

definition relocate :: "paging \<Rightarrow> u64 \<Rightarrow> u64 \<Rightarrow> unit mirage_step" where
  "relocate env delta address = (\<lambda>(v, sp).
     case translate env (vm_phys v) (as_root sp) address of
       None \<Rightarrow> (Err (Malformed ''a relocation points outside the mapped image''), v, sp)
     | Some frame \<Rightarrow>
         (let off = unat (address AND 0xFFF) in
          if off > 4096 - 8 then (Err (Malformed ''a relocation straddles a page boundary''), v, sp)
          else
            (let value = u64_from_le (map (vm_phys v frame) [off..<off + 8]) in
             (Ok (), v\<lparr>vm_phys := store_bytes frame off (u64_to_le (value + delta)) (vm_phys v)\<rparr>, sp))))"

definition apply_relocations :: "paging \<Rightarrow> pe_image \<Rightarrow> u64 \<Rightarrow> unit mirage_step" where
  "apply_relocations env img base =
     (let delta = base - pe_preferred_base img in
      if delta = 0 \<or> pe_relocations img = [] then ret ()
      else for_each (\<lambda>rva. relocate env delta (base + ucast rva)) (pe_relocations img))"

definition image_pages :: "pe_image \<Rightarrow> nat" where
  "image_pages img = (pe_image_size img + 4095) div 4096"

definition bind_import :: "paging \<Rightarrow> u64 \<Rightarrow> u64 \<Rightarrow> nat \<times> pe_import \<Rightarrow> unit mirage_step" where
  "bind_import env base thunk_base = (\<lambda>(index, i).
     bind_step (pure_step (ok_or (lookup_thunk (pi_name i)) (UnimplementedImport (pi_name i)))) (\<lambda>t.
     bind_step (pure_step (generate_thunk t)) (\<lambda>code.
     let address = thunk_base + of_nat (index * THUNK_STRIDE) in
     if address + of_nat THUNK_STRIDE > thunk_base + 4096 then
       fail_with (Malformed ''too many imports to fit in one page of thunks'')
     else
       bind_step (mapped (write_at env address code)) (\<lambda>_.
       mapped (write_at env (base + ucast (pi_iat_rva i)) (u64_to_le address))))))"

definition THUNK_FLAGS :: u64 where
  "THUNK_FLAGS = PTE_PRESENT OR PTE_USER"

definition bind_imports :: "paging \<Rightarrow> pe_image \<Rightarrow> u64 \<Rightarrow> u64 mirage_step" where
  "bind_imports env img base =
     (let thunk_base = base + of_nat (image_pages img * 4096) in
      bind_step (page_containing env thunk_base) (\<lambda>page.
      bind_step (mapped (map_page env page LOAD_FLAGS)) (\<lambda>_.
      bind_step (mapped (zero_at env thunk_base 4096)) (\<lambda>_.
      bind_step (for_each (bind_import env base thunk_base) (enumerate 0 (pe_imports img))) (\<lambda>_.
      bind_step (mapped (protect_page env page THUNK_FLAGS)) (\<lambda>_.
      ret thunk_base))))))"

section \<open>Sections\<close>

definition copy_section :: "paging \<Rightarrow> bytes \<Rightarrow> u64 \<Rightarrow> pe_section \<Rightarrow> unit mirage_step" where
  "copy_section env data base s =
     (if ps_raw_size s = 0 then ret ()
      else
        bind_step (pure_step (slice data (ps_raw_offset s) (ps_raw_offset s + ps_raw_size s))) (\<lambda>contents.
        mapped (write_at env (base + ucast (ps_virtual_address s)) contents)))"

definition section_flags :: "paging \<Rightarrow> pe_section \<Rightarrow> u64" where
  "section_flags env s =
     (let flags = PTE_PRESENT OR PTE_USER;
          flags = (if ps_writable s then flags OR PTE_WRITABLE else flags)
      in if \<not> ps_executable s \<and> pg_nx env then flags OR PTE_NO_EXECUTE else flags)"

definition section_pages :: "pe_section \<Rightarrow> nat list" where
  "section_pages s =
     [unat (ps_virtual_address s) div 4096..<
      Suc ((unat (ps_virtual_address s) + max (unat (ps_virtual_size s)) 1 - 1) div 4096)]"

definition protect_section :: "paging \<Rightarrow> u64 \<Rightarrow> pe_section \<Rightarrow> unit mirage_step" where
  "protect_section env base s =
     (if ps_writable s \<and> ps_executable s then
        fail_with (Malformed ''a section requests both write and execute permission; Najm OS enforces W^X, so a self-modifying or packed image cannot run'')
      else
        for_each (\<lambda>index.
          bind_step (page_containing env (base + of_nat (index * 4096))) (\<lambda>page.
            mapped (protect_page env page (section_flags env s)))) (section_pages s))"

section \<open>Loading\<close>

definition mirage_stack :: "paging \<Rightarrow> unit mirage_step" where
  "mirage_stack env =
     bind_step (for_each (\<lambda>index.
         bind_step (page_containing env (USER_STACK_BOTTOM + of_nat index * 4096)) (\<lambda>page.
           mapped (map_page env page (stack_flags env)))) [0..<unat USER_STACK_PAGES])
       (\<lambda>_. mapped (zero_at env USER_STACK_BOTTOM (unat (USER_STACK_PAGES * 4096))))"

definition mirage_fill :: "paging \<Rightarrow> bytes \<Rightarrow> pe_image \<Rightarrow> unit mirage_step" where
  "mirage_fill env data img =
     (let base = MIRAGE_IMAGE_BASE in
      bind_step (for_each (\<lambda>index.
          bind_step (page_containing env (base + of_nat index * 4096)) (\<lambda>page.
            mapped (map_page env page LOAD_FLAGS))) [0..<image_pages img]) (\<lambda>_.
      bind_step (mapped (zero_at env base (image_pages img * 4096))) (\<lambda>_.
      bind_step (pure_step (slice data 0 (min (pe_headers_size img) (length data)))) (\<lambda>header.
      bind_step (mapped (write_at env base header)) (\<lambda>_.
      bind_step (for_each (copy_section env data base) (pe_sections img)) (\<lambda>_.
      bind_step (apply_relocations env img base) (\<lambda>_.
      bind_step (bind_imports env img base) (\<lambda>_.
      bind_step (for_each (protect_section env base) (pe_sections img)) (\<lambda>_.
      mirage_stack env)))))))))"

definition mirage_load_image ::
  "paging \<Rightarrow> bytes \<Rightarrow> bytes \<Rightarrow> vm \<Rightarrow> (mirage_error, loaded_image \<times> address_space) outcome \<times> vm" where
  "mirage_load_image env data name v =
     (case pe_parse data of
        Err e \<Rightarrow> (Err e, v)
      | Panic \<Rightarrow> (Panic, v)
      | Ok img \<Rightarrow>
          (case find (\<lambda>i. lookup_thunk (pi_name i) = None) (pe_imports img) of
             Some i \<Rightarrow> (Err (UnimplementedImport (pi_name i)), v)
           | None \<Rightarrow>
               (case address_space_new env v of
                  (Ok (Some sp), v0) \<Rightarrow>
                    (case mirage_fill env data img (v0, sp) of
                       (Ok _, v1, sp1) \<Rightarrow>
                         (Ok (\<lparr>li_name = name, li_entry = MIRAGE_IMAGE_BASE + ucast (pe_entry_rva img),
                               li_stack_top = USER_STACK_TOP - 64, li_root = root_frame sp1\<rparr>, sp1), v1)
                     | (Err e, v1, sp1) \<Rightarrow> (Err e, address_space_drop sp1 v1)
                     | (Panic, v1, sp1) \<Rightarrow> (Panic, v1))
                | (Ok None, v0) \<Rightarrow> (Err MirageOutOfMemory, v0)
                | (_, v0) \<Rightarrow> (Panic, v0))))"

end
