(* ===== verification/MirageSteps.thy ===== *)
theory MirageSteps
  imports Mirage
begin

text \<open>
  Mirage's loader step by step, over an abstract memory: the permissions of every address as a partial
  map, the bytes as a total one. Each step of the loader is shown to be a plain update of the two.
\<close>

unbundle bit_operations_syntax

section \<open>Permissions as a map\<close>

type_synonym perms = "u64 \<Rightarrow> u64 option"

definition map_flags :: "u64 \<Rightarrow> u64 \<Rightarrow> perms \<Rightarrow> perms" where
  "map_flags addr fl F = (\<lambda>a. if page_of a = page_of addr then Some fl else F a)"

definition protect_flags :: "u64 \<Rightarrow> u64 \<Rightarrow> perms \<Rightarrow> perms" where
  "protect_flags addr fl F = (\<lambda>a. if page_of a = page_of addr then map_option (\<lambda>_. fl) (F a) else F a)"

definition image_address :: "nat \<Rightarrow> u64" where
  "image_address index = MIRAGE_IMAGE_BASE + of_nat (index * 4096)"

definition section_perms :: "paging \<Rightarrow> pe_section \<Rightarrow> perms \<Rightarrow> perms" where
  "section_perms env s = fold (\<lambda>i. protect_flags (image_address i) (section_flags env s)) (section_pages s)"

text \<open>
  The permissions of a loaded image: its pages, the page of thunks, the sections in order, the stack.
\<close>

definition mirage_flags :: "paging \<Rightarrow> pe_image \<Rightarrow> perms" where
  "mirage_flags env img =
     fold (\<lambda>i. map_flags (USER_STACK_BOTTOM + of_nat i * 4096) (stack_flags env)) [0..<unat USER_STACK_PAGES]
       (fold (section_perms env) (pe_sections img)
         (protect_flags (image_address (image_pages img)) THUNK_FLAGS
           (map_flags (image_address (image_pages img)) LOAD_FLAGS
             (fold (\<lambda>i. map_flags (image_address i) LOAD_FLAGS) [0..<image_pages img] (\<lambda>_. None)))))"

definition perms_of :: "space_map \<Rightarrow> perms" where
  "perms_of A = (\<lambda>a. map_option fst (A a))"

text \<open>The bytes, and the two ways the loader changes them.\<close>

type_synonym memory = "u64 \<Rightarrow> u8"

definition put :: "u64 \<Rightarrow> bytes \<Rightarrow> memory \<Rightarrow> memory" where
  "put addr data B = (\<lambda>a. if unat addr \<le> unat a \<and> unat a < unat addr + length data then data ! (unat a - unat addr) else B a)"

definition peek64 :: "u64 \<Rightarrow> memory \<Rightarrow> u64" where
  "peek64 addr B = u64_from_le (map (\<lambda>i. B (addr + of_nat i)) [0..<8])"

definition shift_qword :: "u64 \<Rightarrow> u64 \<Rightarrow> memory \<Rightarrow> memory" where
  "shift_qword delta addr B = put addr (u64_to_le (peek64 addr B + delta)) B"

definition copy_bytes :: "bytes \<Rightarrow> pe_section \<Rightarrow> memory \<Rightarrow> memory" where
  "copy_bytes data s = put (MIRAGE_IMAGE_BASE + ucast (ps_virtual_address s)) (take (ps_raw_size s) (drop (ps_raw_offset s) data))"

definition relocated :: "pe_image \<Rightarrow> memory \<Rightarrow> memory" where
  "relocated img =
     (let delta = MIRAGE_IMAGE_BASE - pe_preferred_base img in
      if delta = 0 then id else fold (\<lambda>rva. shift_qword delta (MIRAGE_IMAGE_BASE + ucast rva)) (pe_relocations img))"

definition thunk_code :: "thunk \<Rightarrow> bytes" where
  "thunk_code t = thunk_body t @ replicate (THUNK_STRIDE - length (thunk_body t)) 0x90"

definition thunk_address :: "nat \<Rightarrow> nat \<Rightarrow> u64" where
  "thunk_address n index = image_address n + of_nat (index * THUNK_STRIDE)"

definition bind_slot :: "nat \<Rightarrow> nat \<times> pe_import \<Rightarrow> memory \<Rightarrow> memory" where
  "bind_slot n = (\<lambda>(index, i) B.
     case lookup_thunk (pi_name i) of
       None \<Rightarrow> B
     | Some t \<Rightarrow> put (MIRAGE_IMAGE_BASE + ucast (pi_iat_rva i)) (u64_to_le (thunk_address n index)) (put (thunk_address n index) (thunk_code t) B))"

text \<open>
  The bytes of a loaded image: the headers, the sections in order, the relocations, then for each
  import its code on the page of thunks and the address of that code in its slot; zeros elsewhere.
\<close>

definition mirage_memory :: "bytes \<Rightarrow> pe_image \<Rightarrow> memory" where
  "mirage_memory data img =
     put USER_STACK_BOTTOM (replicate (unat (USER_STACK_PAGES * 4096)) 0)
       (fold (bind_slot (image_pages img)) (enumerate 0 (pe_imports img))
         (put (image_address (image_pages img)) (replicate 4096 0)
           (relocated img
             (fold (copy_bytes data) (pe_sections img) (put MIRAGE_IMAGE_BASE (take (pe_headers_size img) data) (\<lambda>_. 0))))))"

text \<open>What a space holds, except for the bytes in \<open>D\<close>, which are not known yet.\<close>

definition shows_memory :: "perms \<Rightarrow> memory \<Rightarrow> u64 set \<Rightarrow> space_map \<Rightarrow> bool" where
  "shows_memory F B D A \<longleftrightarrow> perms_of A = F \<and> (\<forall>a fl b. A a = Some (fl, b) \<longrightarrow> a \<notin> D \<longrightarrow> b = B a)"

definition span :: "u64 \<Rightarrow> nat \<Rightarrow> u64 set" where
  "span addr n = {a. unat addr \<le> unat a \<and> unat a < unat addr + n}"

lemma put_zeros: "put addr (replicate n 0) (\<lambda>_. 0) = (\<lambda>_. 0)"
  by (auto simp: put_def fun_eq_iff)

lemma shows_memory_all: "shows_memory F B {} A \<longleftrightarrow> A = (\<lambda>a. map_option (\<lambda>fl. (fl, B a)) (F a))"
proof
  assume s: "shows_memory F B {} A"
  show "A = (\<lambda>a. map_option (\<lambda>fl. (fl, B a)) (F a))"
  proof
    fix a show "A a = map_option (\<lambda>fl. (fl, B a)) (F a)"
      using s by (cases "A a") (auto simp: shows_memory_def perms_of_def)
  qed
qed (auto simp: shows_memory_def perms_of_def option.map_comp comp_def option.map_ident)

lemma shows_memory_dirty: "shows_memory F B {} A \<Longrightarrow> shows_memory F B D A"
  by (simp add: shows_memory_def)

lemma bind_step_assoc: "bind_step (bind_step m f) g = bind_step m (\<lambda>a. bind_step (f a) g)"
  by (auto simp: bind_step_def fun_eq_iff split: prod.split outcome.split)

lemma holds_for_each_fold:
  assumes "\<And>F x. x \<in> set xs \<Longrightarrow> holds (H F) (f x) (\<lambda>_. H (g x F)) E N"
  shows "holds (H F) (for_each f xs) (\<lambda>_. H (fold g xs F)) E N"
  using assms
proof (induction xs arbitrary: F)
  case (Cons x xs)
  have "holds (H F) (f x) (\<lambda>_. H (g x F)) E N" using Cons.prems by simp
  moreover have "holds (H (g x F)) (for_each f xs) (\<lambda>_. H (fold g xs (g x F))) E N"
    by (rule Cons.IH) (use Cons.prems in simp)
  ultimately show ?case by (auto intro: holds_bind)
qed (simp add: holds_ret)

lemma holds_for_each_same:
  assumes "\<And>x. x \<in> set xs \<Longrightarrow> holds P (f x) (\<lambda>_. P) E N"
  shows "holds P (for_each f xs) (\<lambda>_. P) E N"
  using holds_for_each_fold [of xs "\<lambda>_. P" f "\<lambda>_ F. F" E N "()"] assms by simp

definition space_holds ::
  "paging \<Rightarrow> (phys \<Rightarrow> u64 \<Rightarrow> u64 set \<Rightarrow> bool) \<Rightarrow> vm \<times> address_space \<Rightarrow> (space_map \<Rightarrow> bool) \<Rightarrow> vm \<times> address_space \<Rightarrow> bool" where
  "space_holds env pt_inv s0 R s \<longleftrightarrow> sound_since env pt_inv s0 s \<and> R (cells env s)"

lemma space_holds_failed: "space_holds env pt_inv s0 R s \<Longrightarrow> failed_since env pt_inv s0 s"
  by (simp add: space_holds_def sound_failed)

section \<open>Addresses of an image\<close>

lemma image_address_unat: "i \<le> 2 ^ 20 \<Longrightarrow> unat (image_address i) = 0x200000000000 + i * 4096"
proof -
  assume i: "i \<le> 2 ^ 20"
  then have "unat (of_nat (i * 4096) :: u64) = i * 4096" unfolding unat_of_nat by (intro mod_less) simp
  then show ?thesis unfolding image_address_def MIRAGE_IMAGE_BASE_def
    by (subst unat_add_lem [THEN iffD1]) (use i in \<open>simp_all del: of_nat_mult\<close>)
qed

lemma image_address_user: "i \<le> 2 ^ 20 \<Longrightarrow> image_address i \<le> USER_SPACE_END"
  unfolding word_le_nat_alt by (simp add: image_address_unat USER_SPACE_END_def)

lemma image_rva_unat: "unat (MIRAGE_IMAGE_BASE + ucast (rva :: u32)) = 0x200000000000 + unat rva"
proof -
  have b: "unat rva < 2 ^ 32" using unat_bound [of rva] by simp
  then have "unat (ucast rva :: u64) = unat rva" unfolding unsigned_ucast_eq by (intro take_bit_nat_eq_self) simp
  with b show ?thesis unfolding MIRAGE_IMAGE_BASE_def by (subst unat_add_lem [THEN iffD1]) simp_all
qed

lemma thunk_address_unat:
  assumes "n \<le> 2 ^ 17" "k \<le> 2 ^ 20"
  shows "unat (image_address n + of_nat k) = 0x200000000000 + n * 4096 + k"
  using image_address_unat [of n] assms by (subst unat_add_lem [THEN iffD1]) (simp_all add: unat_of_nat mod_less)

text \<open>What the parser has checked of the sizes, also where it would have stopped later.\<close>

definition image_fits :: "bytes \<Rightarrow> pe_image \<Rightarrow> bool" where
  "image_fits data img \<longleftrightarrow>
     0 < pe_image_size img \<and> pe_image_size img \<le> 2 ^ 29 \<and> pe_headers_size img \<le> length data \<and> pe_headers_size img < 2 ^ 32 \<and>
     (\<forall>s\<in>set (pe_sections img). pe_section_ok data (pe_image_size img) s)"

lemma pe_layout_headers: "pe_layout data = Ok (img, d, n) \<Longrightarrow> pe_headers_size img < 2 ^ 32"
proof -
  have b: "unat w < 4294967296" for w :: u32 using unat_bound [of w] by simp
  show "pe_layout data = Ok (img, d, n) \<Longrightarrow> pe_headers_size img < 2 ^ 32"
    by (auto simp: pe_layout_def outcome_simps b split: if_splits)
qed

lemma parse_fits: "pe_parse data = Ok img \<Longrightarrow> image_fits data img"
proof -
  assume "pe_parse data = Ok img"
  then obtain i d n l r where "pe_layout data = Ok (i, d, n)" "img = i\<lparr>pe_imports := l, pe_relocations := r\<rparr>"
    by (auto simp: pe_parse_def outcome_simps)
  with pe_layout_ok(2) [of data i d n] pe_layout_headers [of data i d n]
  show ?thesis by (auto simp: image_fits_def pe_image_ok_def)
qed

lemma fits_pages: "image_fits data img \<Longrightarrow> image_pages img \<le> 2 ^ 17"
  using div_le_mono [of "pe_image_size img + 4095" "2 ^ 29 + 4095" 4096]
  by (simp add: image_fits_def image_pages_def)

lemma section_pages_bound: "pe_section_ok data n s \<Longrightarrow> n \<le> 2 ^ 29 \<Longrightarrow> i \<in> set (section_pages s) \<Longrightarrow> i \<le> 2 ^ 17"
proof -
  let ?e = "unat (ps_virtual_address s) + max (unat (ps_virtual_size s)) 1 - 1"
  assume "pe_section_ok data n s" "n \<le> 2 ^ 29" "i \<in> set (section_pages s)"
  then have "?e \<le> 2 ^ 29" "i \<le> ?e div 4096"
    unfolding pe_section_ok_def section_pages_def by (simp_all only: set_upt atLeastLessThan_iff less_Suc_eq_le) linarith
  then show ?thesis using div_le_mono [of ?e "2 ^ 29" 4096] by simp
qed

lemma section_flags_ok: "flags_ok (section_flags env s)" "contains_flags (section_flags env s) PTE_PRESENT"
  by (auto simp: section_flags_def Let_def flags_ok_def contains_flags_def PTE_PRESENT_def PTE_USER_def PTE_WRITABLE_def PTE_NO_EXECUTE_def PTE_ADDR_MASK_def)

lemma thunk_flags_ok: "flags_ok THUNK_FLAGS" "contains_flags THUNK_FLAGS PTE_PRESENT"
  by (simp_all add: THUNK_FLAGS_def flags_ok_def contains_flags_def PTE_PRESENT_def PTE_USER_def PTE_ADDR_MASK_def)

lemma offset_in_page:
  assumes "n mod 4096 \<le> 4096 - 8" "i < 8"
  shows "(n + i) mod 4096 = n mod 4096 + i" "(n + i) div 4096 = n div (4096 :: nat)"
proof -
  have "n + i = n div 4096 * 4096 + (n mod 4096 + i)" "n mod 4096 + i < 4096" using assms by simp_all
  then show "(n + i) mod 4096 = n mod 4096 + i" "(n + i) div 4096 = n div 4096"
    by (metis mod_less mod_mult_self3, metis add_cancel_right_right div_less div_mult_self3 zero_neq_numeral)
qed

lemma load_flags_ok: "flags_ok LOAD_FLAGS" "contains_flags LOAD_FLAGS LOAD_FLAGS"
  by (simp_all add: LOAD_FLAGS_def flags_ok_def contains_flags_def PTE_PRESENT_def PTE_USER_def PTE_WRITABLE_def PTE_ADDR_MASK_def)

lemma image_page_of: "i \<le> 2 ^ 20 \<Longrightarrow> page_of (image_address i) = image_address i"
  by (rule word_unat_eq_iff [THEN iffD2]) (simp add: unat_page_of image_address_unat)

lemma image_page_span: "i \<le> 2 ^ 20 \<Longrightarrow> {a. page_of a = page_of (image_address i)} = span (image_address i) 4096"
  using page_range [OF image_page_of [of i]] by (simp only: image_page_of span_def)

section \<open>Triples\<close>

context page_mapper
begin

abbreviation mem_triple ::
  "vm \<times> address_space \<Rightarrow> perms \<Rightarrow> memory \<Rightarrow> u64 set \<Rightarrow> 'a mirage_step \<Rightarrow> perms \<Rightarrow> memory \<Rightarrow> u64 set \<Rightarrow> bool" where
  "mem_triple s0 F B D m F' B' D' \<equiv> holds (space_holds env pt_inv s0 (shows_memory F B D)) m
     (\<lambda>_. space_holds env pt_inv s0 (shows_memory F' B' D')) (\<lambda>_. failed_since env pt_inv s0) False"

lemma exec_holds:
  assumes "space_op_ok oper" "\<And>A A'. R A \<Longrightarrow> space_spec oper A (Ok ()) A' \<Longrightarrow> R' A'"
  shows "holds (space_holds env pt_inv s0 R) (mapped (space_exec env oper)) (\<lambda>_. space_holds env pt_inv s0 R')
    (\<lambda>_. failed_since env pt_inv s0) N"
  unfolding mapped_def
proof (rule holds_map_err, rule holdsI)
  fix s r s' assume pre: "space_holds env pt_inv s0 R s" and step: "space_exec env oper s = (r, s')"
  obtain T where T: "space_ok env pt_inv T s" and ext: "space_extends {#} s0 s" and R: "R (cells env s)"
    using pre by (auto simp: space_holds_def sound_since_def)
  obtain T' lost where e: "space_ok env pt_inv T' s'" "space_spec oper (cells env s) r (cells env s')"
    "space_extends lost s s'" "size lost \<le> may_lose [oper] [r]"
    using exec_refines [OF T assms(1) step] by blast
  have d: "distinct (fw_held (vm_frames (fst s')))" using e(1) by (cases s') (auto simp: space_ok_def intro: frames_okD(1))
  have ext': "space_extends lost s0 s'" using space_extends_trans [OF ext e(3) d] by simp
  show "case r of Ok a \<Rightarrow> space_holds env pt_inv s0 R' s' | Err e \<Rightarrow> failed_since env pt_inv s0 s' | Panic \<Rightarrow> N"
  proof (cases r)
    case (Ok u)
    then have "lost = {#}" using e(4) by (cases oper) simp_all
    then show ?thesis using Ok e(1,2) ext' assms(2) [OF R] by (auto simp: space_holds_def sound_since_def)
  next
    case (Err x)
    then have "size lost \<le> 1" using e(4) by (cases oper) simp_all
    then show ?thesis using Err e(1) ext' by (auto simp: failed_since_def)
  next
    case Panic
    then show ?thesis using e(2) by (cases oper) (simp_all add: write_spec_def)
  qed
qed

lemma write_shows:
  assumes "shows_memory F B (span addr (length data)) A" "write_spec addr data A (Ok ()) A'"
  shows "shows_memory F (put addr data B) {} A'"
  using assms
  by (auto simp: write_spec_def overwrite_def shows_memory_def perms_of_def put_def span_def option.map_comp comp_def
      case_prod_beta fun_eq_iff split: if_splits)

lemma write_step:
  assumes "unat addr + length data \<le> unat USER_SPACE_END"
  shows "mem_triple s0 F B {} (mapped (write_at env addr data)) F (put addr data B) {}"
  using exec_holds [of "WriteAt addr data" "shows_memory F B {}" "shows_memory F (put addr data B) {}" s0 False] assms
    write_shows [OF shows_memory_dirty]
  by simp

lemma zero_step:
  assumes "unat addr + len \<le> unat USER_SPACE_END"
  shows "mem_triple s0 F B (span addr len) (mapped (zero_at env addr len)) F (put addr (replicate len 0) B) {}"
  using exec_holds [of "ZeroAt addr len" "shows_memory F B (span addr len)" "shows_memory F (put addr (replicate len 0) B) {}" s0 False] assms
    write_shows [of F B addr "replicate len 0"]
  by simp

lemma map_step:
  assumes "flags_ok fl" "contains_flags fl LOAD_FLAGS" "{a. page_of a = page_of addr} \<subseteq> D"
  shows "mem_triple s0 F B D (mapped (map_page env (page_of addr) fl)) (map_flags addr fl F) B D"
proof -
  have "shows_memory (map_flags addr fl F) B D A'"
    if "shows_memory F B D A" "space_spec (MapPage (page_of addr) fl) A (Ok ()) A'" for A A'
    using that assms(3) by (auto simp: shows_memory_def perms_of_def map_flags_def fun_eq_iff split: if_splits)
  then show ?thesis
    using exec_holds [of "MapPage (page_of addr) fl" "shows_memory F B D" "shows_memory (map_flags addr fl F) B D" s0 False] assms
    by simp
qed

lemma protect_step:
  assumes "flags_ok fl" "contains_flags fl PTE_PRESENT"
  shows "mem_triple s0 F B {} (mapped (protect_page env (page_of addr) fl)) (protect_flags addr fl F) B {}"
proof -
  have "shows_memory (protect_flags addr fl F) B {} A'"
    if "shows_memory F B {} A" "space_spec (ProtectPage (page_of addr) fl) A (Ok ()) A'" for A A'
  proof -
    have A: "A = (\<lambda>a. map_option (\<lambda>fl. (fl, B a)) (F a))" using that(1) unfolding shows_memory_all .
    have A': "A' = (\<lambda>a. if page_of a = page_of addr then map_option (\<lambda>(_, b). (fl, b)) (A a) else A a)"
      using that(2) by simp
    show ?thesis unfolding shows_memory_all A A' by (auto simp: protect_flags_def fun_eq_iff option.map_comp comp_def)
  qed
  then show ?thesis
    using exec_holds [of "ProtectPage (page_of addr) fl" "shows_memory F B {}" "shows_memory (protect_flags addr fl F) B {}" s0 False] assms
    by simp
qed

lemma at_page_step:
  assumes "addr \<le> USER_SPACE_END" "mem_triple s0 F B D (m (page_of addr)) F' B' D'"
  shows "mem_triple s0 F B D (bind_step (page_containing env addr) m) F' B' D'"
  using va_ok_upto [OF assms(1)] assms(2) by (simp add: page_containing_def)

text \<open>What a translation reaches is what the space shows.\<close>

lemma translated_bytes:
  assumes "shows_memory F B {} (cells env (v, sp))" "unat addr + 8 \<le> unat USER_SPACE_END"
    and "translate env (vm_phys v) (as_root sp) addr = Some frame" "unat addr mod 4096 \<le> 4096 - 8"
  shows "u64_from_le (map (vm_phys v frame) [unat addr mod 4096..<unat addr mod 4096 + 8]) = peek64 addr B"
proof -
  have user: "is_user_address addr" using assms(2) by (simp add: is_user_address_def word_less_nat_alt)
  obtain e where e: "leaf env (vm_phys v) (as_root sp) addr = Some e" "frame = entry_addr e"
    using assms(3) translate_leaf [OF user] by auto
  have b: "vm_phys v frame (unat addr mod 4096 + i) = B (addr + of_nat i)" if i: "i < 8" for i
  proof -
    have "unat USER_SPACE_END < 2 ^ 63" by (simp add: USER_SPACE_END_def)
    then have u: "unat (addr + of_nat i) = unat addr + i"
      using assms(2) i by (subst unat_add_lem [THEN iffD1]) (simp_all add: unat_of_nat mod_less)
    have m: "(unat addr + i) mod 4096 = unat addr mod 4096 + i" "(unat addr + i) div 4096 = unat addr div 4096"
      using offset_in_page [OF assms(4) i] .
    have ui: "is_user_address (addr + of_nat i)" using assms(2) i u by (simp add: is_user_address_def word_less_nat_alt)
    have pg: "page_of (addr + of_nat i) = page_of addr" by (simp add: word_unat_eq_iff unat_page_of u m(2))
    have "cells env (v, sp) (addr + of_nat i) = Some (entry_flags e, vm_phys v frame (unat addr mod 4096 + i))"
      using leaf_page_eq [OF ui user pg] ui by (simp add: cells_def cell_def e u m(1))
    then show ?thesis using assms(1) by (simp add: shows_memory_def)
  qed
  have "map (vm_phys v frame) [unat addr mod 4096..<unat addr mod 4096 + 8] = map (\<lambda>i. B (addr + of_nat i)) [0..<8]"
    by (rule nth_equalityI) (simp_all add: b)
  then show ?thesis by (simp add: peek64_def)
qed

text \<open>A relocation is a write of eight bytes.\<close>

lemma relocate_step:
  assumes "unat addr + 8 \<le> unat USER_SPACE_END"
  shows "mem_triple s0 F B {} (relocate env delta addr) F (shift_qword delta addr B) {}"
proof (rule holdsI)
  fix s r s' assume pre: "space_holds env pt_inv s0 (shows_memory F B {}) s" and step: "relocate env delta addr s = (r, s')"
  obtain v sp where s: "s = (v, sp)" by force
  show "case r of Ok a \<Rightarrow> space_holds env pt_inv s0 (shows_memory F (shift_qword delta addr B) {}) s'
    | Err e \<Rightarrow> failed_since env pt_inv s0 s' | Panic \<Rightarrow> False"
  proof (cases "translate env (vm_phys v) (as_root sp) addr")
    case None
    then show ?thesis using step space_holds_failed [OF pre] by (auto simp: relocate_def s)
  next
    case (Some frame)
    define off where "off = unat (addr AND 0xFFF)"
    have o: "off = unat addr mod 4096" by (simp add: off_def page_offset_mod)
    show ?thesis
    proof (cases "off > 4096 - 8")
      case True
      then show ?thesis using step space_holds_failed [OF pre] by (auto simp: relocate_def s Some Let_def off_def)
    next
      case False
      define data where "data = u64_to_le (u64_from_le (map (vm_phys v frame) [off..<off + 8]) + delta)"
      have r: "r = Ok ()" "s' = (v\<lparr>vm_phys := store_bytes frame off data (vm_phys v)\<rparr>, sp)"
        using step False by (simp_all add: relocate_def s Some Let_def flip: off_def data_def)
      have l: "length data = 8" by (simp add: data_def)
      have p: "put addr data B = shift_qword delta addr B"
        using translated_bytes [of F B v sp addr frame] pre assms Some False
        by (simp add: shift_qword_def data_def space_holds_def s o)
      have lt: "unat addr < usize_lim" using assms by (simp add: usize_lim_def USER_SPACE_END_def)
      have "write_loop env (as_root sp) addr data 0 (vm_phys v) = (Ok (), store_bytes frame off data (vm_phys v))"
        using False lt Some by (subst write_loop.simps) (simp add: l Let_def write_loop.simps [of env _ _ _ 8] flip: off_def)
      then have w: "mapped (write_at env addr data) s = (Ok (), s')"
        by (simp add: mapped_def map_err_def write_at_def s r(2))
      from holdsD [OF write_step pre w] assms l show ?thesis by (simp add: r(1) p)
    qed
  qed
qed

section \<open>The steps of a load\<close>

lemma bytes_for_each:
  assumes "\<And>B x. x \<in> set xs \<Longrightarrow> mem_triple s0 F B {} (f x) F (g x B) {}"
  shows "mem_triple s0 F B {} (for_each f xs) F (fold g xs B) {}"
  using holds_for_each_fold [of xs "\<lambda>B. space_holds env pt_inv s0 (shows_memory F B {})" f g] assms by blast

lemma perms_for_each:
  assumes "\<And>F x. x \<in> set xs \<Longrightarrow> mem_triple s0 F B D (f x) (g x F) B D"
  shows "mem_triple s0 F B D (for_each f xs) (fold g xs F) B D"
  using holds_for_each_fold [of xs "\<lambda>F. space_holds env pt_inv s0 (shows_memory F B D)" f g] assms by blast

lemma fail_step: "mem_triple s0 F B D (fail_with e) F' B' D'"
  by (rule holds_fail) (erule space_holds_failed)

lemma dirty_pre: "mem_triple s0 F B D m F' B' D' \<Longrightarrow> mem_triple s0 F B {} m F' B' D'"
  by (erule holds_pre) (auto simp: space_holds_def dest: shows_memory_dirty)

text \<open>Fresh pages: mapped one by one, then cleared.\<close>

lemma fresh_pages_step:
  assumes "flags_ok fl" "contains_flags fl LOAD_FLAGS"
    and pages: "\<And>i. i < n \<Longrightarrow> f i \<le> USER_SPACE_END \<and> {a. page_of a = page_of (f i)} \<subseteq> span addr len"
    and "unat addr + len \<le> unat USER_SPACE_END"
  shows "mem_triple s0 F B {}
    (bind_step (for_each (\<lambda>i. bind_step (page_containing env (f i)) (\<lambda>page. mapped (map_page env page fl))) [0..<n])
      (\<lambda>_. mapped (zero_at env addr len)))
    (fold (\<lambda>i. map_flags (f i) fl) [0..<n] F) (put addr (replicate len 0) B) {}"
proof (rule dirty_pre [where D = "span addr len"], rule holds_bind)
  show "mem_triple s0 F B (span addr len)
      (for_each (\<lambda>i. bind_step (page_containing env (f i)) (\<lambda>page. mapped (map_page env page fl))) [0..<n])
      (fold (\<lambda>i. map_flags (f i) fl) [0..<n] F) B (span addr len)"
    by (rule perms_for_each) (intro at_page_step map_step assms(1,2), use pages in auto)
  show "mem_triple s0 (fold (\<lambda>i. map_flags (f i) fl) [0..<n] F) B (span addr len) (mapped (zero_at env addr len))
      (fold (\<lambda>i. map_flags (f i) fl) [0..<n] F) (put addr (replicate len 0) B) {}"
    by (rule zero_step) (rule assms(4))
qed

lemma protect_pages_step:
  assumes "flags_ok fl" "contains_flags fl PTE_PRESENT" "\<forall>i\<in>set is. f i \<le> USER_SPACE_END"
  shows "mem_triple s0 F B {} (for_each (\<lambda>i. bind_step (page_containing env (f i)) (\<lambda>page. mapped (protect_page env page fl))) is)
    (fold (\<lambda>i. protect_flags (f i) fl) is F) B {}"
  by (rule perms_for_each) (rule at_page_step, use assms in simp, rule protect_step [OF assms(1,2)])

lemma stack_step:
  "mem_triple s0 F B {} (mirage_stack env)
    (fold (\<lambda>i. map_flags (USER_STACK_BOTTOM + of_nat i * 4096) (stack_flags env)) [0..<unat USER_STACK_PAGES] F)
    (put USER_STACK_BOTTOM (replicate (unat (USER_STACK_PAGES * 4096)) 0) B) {}"
  unfolding mirage_stack_def
proof (rule fresh_pages_step [OF stack_flags_ok(1,2)])
  fix i assume i: "i < unat USER_STACK_PAGES"
  note u = stack_page [OF i] page_range [OF stack_page(2) [OF i]]
  have c: "unat USER_STACK_PAGES = 16" "unat (USER_STACK_PAGES * 4096) = 65536" "unat USER_STACK_BOTTOM + 65536 < unat USER_SPACE_END"
    by (simp_all add: abi_defs USER_SPACE_END_def)
  show "USER_STACK_BOTTOM + of_nat i * 4096 \<le> USER_SPACE_END \<and>
      {a. page_of a = page_of (USER_STACK_BOTTOM + of_nat i * 4096)} \<subseteq> span USER_STACK_BOTTOM (unat (USER_STACK_PAGES * 4096))"
    using i c by (auto simp: span_def word_le_nat_alt u)
qed (simp add: abi_defs USER_SPACE_END_def)

lemma copy_step:
  assumes "pe_section_ok data n s" "n \<le> 2 ^ 29"
  shows "mem_triple s0 F B {} (copy_section env data MIRAGE_IMAGE_BASE s) F (copy_bytes data s B) {}"
proof (cases "ps_raw_size s = 0")
  case True
  then have "copy_bytes data s B = B" by (auto simp: copy_bytes_def put_def fun_eq_iff)
  then show ?thesis using True by (simp add: copy_section_def holds_ret)
next
  case False
  have b: "ps_raw_offset s + ps_raw_size s \<le> length data" "unat (ps_virtual_address s) \<le> n" "ps_raw_size s < 2 ^ 32"
    using assms(1) False by (auto simp: pe_section_ok_def)
  then have sl: "(slice data (ps_raw_offset s) (ps_raw_offset s + ps_raw_size s) :: (mirage_error, bytes) outcome) =
      Ok (take (ps_raw_size s) (drop (ps_raw_offset s) data))" by (simp add: slice_def)
  show ?thesis
    using write_step [of "MIRAGE_IMAGE_BASE + ucast (ps_virtual_address s)" "take (ps_raw_size s) (drop (ps_raw_offset s) data)" s0 F B]
      b assms(2) False by (simp add: copy_section_def copy_bytes_def sl image_rva_unat USER_SPACE_END_def)
qed

lemma relocations_step: "mem_triple s0 F B {} (apply_relocations env img MIRAGE_IMAGE_BASE) F (relocated img B) {}"
proof -
  have "mem_triple s0 F B {} (relocate env delta (MIRAGE_IMAGE_BASE + ucast rva)) F (shift_qword delta (MIRAGE_IMAGE_BASE + ucast rva) B) {}"
    for delta B and rva :: u32
    using unat_bound [of rva] by (intro relocate_step) (simp add: image_rva_unat USER_SPACE_END_def)
  then show ?thesis by (auto simp: apply_relocations_def relocated_def Let_def holds_ret bytes_for_each)
qed

lemma import_step:
  assumes "n \<le> 2 ^ 17" "index < 2 ^ 15"
  shows "mem_triple s0 F B {} (bind_import env MIRAGE_IMAGE_BASE (image_address n) (index, i)) F (bind_slot n (index, i) B) {}"
proof (cases "lookup_thunk (pi_name i)")
  case None
  then show ?thesis by (simp add: bind_import_def fail_step)
next
  case (Some t)
  have code: "(generate_thunk t :: (mirage_error, bytes) outcome) = Ok (thunk_code t)" "length (thunk_code t) = THUNK_STRIDE"
    using thunk_body_length [of t] by (simp_all add: generate_thunk_bytes thunk_code_def THUNK_STRIDE_def)
  let ?a = "image_address n + of_nat (index * THUNK_STRIDE)"
  have a: "unat ?a = 0x200000000000 + n * 4096 + index * THUNK_STRIDE"
    by (rule thunk_address_unat) (use assms in \<open>simp_all add: THUNK_STRIDE_def\<close>)
  have "mem_triple s0 F B {} (mapped (write_at env ?a (thunk_code t))) F (put ?a (thunk_code t) B) {}"
    by (rule write_step) (use a code(2) assms in \<open>simp add: THUNK_STRIDE_def USER_SPACE_END_def\<close>)
  moreover have "mem_triple s0 F (put ?a (thunk_code t) B) {} (mapped (write_at env (MIRAGE_IMAGE_BASE + ucast (pi_iat_rva i)) (u64_to_le ?a))) F
      (bind_slot n (index, i) B) {}"
    using unat_bound [of "pi_iat_rva i"] write_step [of "MIRAGE_IMAGE_BASE + ucast (pi_iat_rva i)" "u64_to_le ?a" s0 F "put ?a (thunk_code t) B"]
    by (simp add: image_rva_unat USER_SPACE_END_def bind_slot_def Some thunk_address_def)
  ultimately show ?thesis
    by (simp add: bind_import_def Some code(1) Let_def fail_step holds_bind)
qed

lemma imports_step:
  assumes "image_fits data img" "length (pe_imports img) \<le> 2 ^ 15"
  shows "mem_triple s0 F B {} (bind_imports env img MIRAGE_IMAGE_BASE)
    (protect_flags (image_address (image_pages img)) THUNK_FLAGS (map_flags (image_address (image_pages img)) LOAD_FLAGS F))
    (fold (bind_slot (image_pages img)) (enumerate 0 (pe_imports img)) (put (image_address (image_pages img)) (replicate 4096 0) B)) {}"
proof -
  note n = fits_pages [OF assms(1)]
  let ?a = "image_address (image_pages img)"
  have a: "?a \<le> USER_SPACE_END" "unat ?a = 0x200000000000 + image_pages img * 4096"
    using n by (simp_all add: image_address_user image_address_unat)
  have pg: "{a. page_of a = page_of ?a} \<subseteq> span ?a 4096"
    using image_page_span [of "image_pages img"] n by simp
  have each: "mem_triple s0 G C {} (for_each (bind_import env MIRAGE_IMAGE_BASE ?a) (enumerate 0 (pe_imports img))) G
      (fold (bind_slot (image_pages img)) (enumerate 0 (pe_imports img)) C) {}" for G C
  proof (rule bytes_for_each)
    fix C x assume "x \<in> set (enumerate 0 (pe_imports img))"
    then have "fst x < 2 ^ 15" using assms(2) unfolding in_set_enumerate_eq by simp
    then show "mem_triple s0 G C {} (bind_import env MIRAGE_IMAGE_BASE ?a x) G (bind_slot (image_pages img) x C) {}"
      using import_step [OF n, of "fst x" s0 G C "snd x"] by simp
  qed
  have zero: "mem_triple s0 G C (span ?a 4096) (mapped (zero_at env ?a 4096)) G (put ?a (replicate 4096 0) C) {}" for G C
    by (rule zero_step) (use a(2) n in \<open>simp add: USER_SPACE_END_def\<close>)
  show ?thesis
    unfolding bind_imports_def Let_def image_address_def [symmetric]
    by (rule at_page_step [OF a(1)], rule dirty_pre, rule holds_bind [OF map_step [OF load_flags_ok pg]], rule holds_bind [OF zero],
        rule holds_bind [OF each], rule holds_bind [OF protect_step [OF thunk_flags_ok]], simp add: holds_ret)
qed

lemma sections_step:
  assumes "pe_section_ok data n s" "n \<le> 2 ^ 29"
  shows "mem_triple s0 F B {} (protect_section env MIRAGE_IMAGE_BASE s) (section_perms env s F) B {}"
proof (cases "ps_writable s \<and> ps_executable s")
  case False
  have "\<forall>i\<in>set (section_pages s). image_address i \<le> USER_SPACE_END"
    using section_pages_bound [OF assms] by (fastforce intro!: image_address_user)
  from protect_pages_step [OF section_flags_ok [of env s] this, of s0 F B] show ?thesis
    unfolding protect_section_def section_perms_def if_not_P [OF False] by (simp add: image_address_def)
qed (simp add: protect_section_def fail_step)

text \<open>The whole of it: permissions \<open>mirage_flags\<close> and bytes \<open>mirage_memory\<close>.\<close>

lemma mirage_fill_step:
  assumes "image_fits data img" "length (pe_imports img) \<le> 2 ^ 15"
  shows "mem_triple s0 (\<lambda>_. None) (\<lambda>_. 0) {} (mirage_fill env data img) (mirage_flags env img) (mirage_memory data img) {}"
proof -
  note n = fits_pages [OF assms(1)]
  have sec: "pe_section_ok data (pe_image_size img) s" if "s \<in> set (pe_sections img)" for s
    using assms(1) that by (simp add: image_fits_def)
  have sz: "pe_image_size img \<le> 2 ^ 29" using assms(1) by (simp add: image_fits_def)
  let ?F1 = "fold (\<lambda>i. map_flags (image_address i) LOAD_FLAGS) [0..<image_pages img] (\<lambda>_. None)"
  have base: "unat MIRAGE_IMAGE_BASE = 0x200000000000" by (simp add: MIRAGE_IMAGE_BASE_def)
  have within: "image_address i \<le> USER_SPACE_END \<and> {a. page_of a = page_of (image_address i)} \<subseteq> span MIRAGE_IMAGE_BASE (image_pages img * 4096)"
    if i: "i < image_pages img" for i
  proof -
    have i': "i \<le> 2 ^ 20" using i n by simp
    have "i * 4096 + 4096 \<le> image_pages img * 4096" using i by simp
    then show ?thesis
      unfolding image_page_span [OF i'] using i' by (auto simp: image_address_user span_def base image_address_unat)
  qed
  have pages: "mem_triple s0 (\<lambda>_. None) (\<lambda>_. 0) {}
      (bind_step (for_each (\<lambda>index. bind_step (page_containing env (MIRAGE_IMAGE_BASE + of_nat index * 4096))
        (\<lambda>page. mapped (map_page env page LOAD_FLAGS))) [0..<image_pages img])
        (\<lambda>_. mapped (zero_at env MIRAGE_IMAGE_BASE (image_pages img * 4096)))) ?F1 (\<lambda>_. 0) {}"
    using fresh_pages_step [OF load_flags_ok within, of "image_pages img" "\<lambda>i. i" s0 "\<lambda>_. None" "\<lambda>_. 0"] n
    by (simp add: put_zeros base USER_SPACE_END_def) (simp add: image_address_def)
  have hs: "(slice data 0 (min (pe_headers_size img) (length data)) :: (mirage_error, bytes) outcome) = Ok (take (pe_headers_size img) data)"
    using assms(1) by (simp add: image_fits_def slice_def min_def)
  have header: "mem_triple s0 ?F1 B {} (mapped (write_at env MIRAGE_IMAGE_BASE (take (pe_headers_size img) data))) ?F1
      (put MIRAGE_IMAGE_BASE (take (pe_headers_size img) data) B) {}" for B
    by (rule write_step) (use assms(1) in \<open>simp add: image_fits_def MIRAGE_IMAGE_BASE_def USER_SPACE_END_def\<close>)
  have copies: "mem_triple s0 ?F1 B {} (for_each (copy_section env data MIRAGE_IMAGE_BASE) (pe_sections img)) ?F1
      (fold (copy_bytes data) (pe_sections img) B) {}" for B
    by (rule bytes_for_each) (rule copy_step [OF sec sz])
  have sections: "mem_triple s0 F B {} (for_each (protect_section env MIRAGE_IMAGE_BASE) (pe_sections img))
      (fold (section_perms env) (pe_sections img) F) B {}" for F B
    by (rule perms_for_each) (rule sections_step [OF sec sz])
  show ?thesis
    unfolding mirage_fill_def Let_def hs bind_pure mirage_flags_def mirage_memory_def bind_step_assoc [symmetric]
    by (rule holds_bind, rule holds_bind, rule holds_bind, rule holds_bind, rule holds_bind, rule holds_bind,
        rule pages, rule header, rule copies, rule relocations_step, rule imports_step [OF assms], rule sections, rule stack_step)
qed

end

end
