(* ===== verification/MirageProofs.thy ===== *)
theory MirageProofs
  imports MirageSteps
begin

text \<open>
  What Mirage's loader leaves behind: the permissions and the bytes of every address of a loaded
  Windows program, the frames of a failed load, and the pages that are both writable and executable.
\<close>

unbundle bit_operations_syntax

section \<open>The permissions, page by page\<close>

text \<open>The number of an address' page in the image.\<close>

definition image_page :: "u64 \<Rightarrow> nat option" where
  "image_page a = (if MIRAGE_IMAGE_BASE \<le> a then Some ((unat a - unat MIRAGE_IMAGE_BASE) div 4096) else None)"

text \<open>The section that decides about a page: the last one of the table that reaches into it.\<close>

definition section_of :: "pe_image \<Rightarrow> nat \<Rightarrow> pe_section option" where
  "section_of img i = find (\<lambda>s. i \<in> set (section_pages s)) (rev (pe_sections img))"

definition mirage_page_flags :: "paging \<Rightarrow> pe_image \<Rightarrow> perms" where
  "mirage_page_flags env img a =
     (if stack_address a then Some (stack_flags env)
      else case image_page a of
          None \<Rightarrow> None
        | Some i \<Rightarrow>
            if i < image_pages img then
              Some (case section_of img i of Some s \<Rightarrow> section_flags env s | None \<Rightarrow> LOAD_FLAGS)
            else if i = image_pages img then Some THUNK_FLAGS else None)"

lemma find_member: "find P xs = Some x \<Longrightarrow> x \<in> set xs \<and> P x"
  by (induction xs) (auto split: if_splits)

lemma page_of_eq: "page_of a = page_of b \<longleftrightarrow> unat a div 4096 = unat b div 4096"
  by (simp add: word_unat_eq_iff unat_page_of)

lemma image_page_iff:
  assumes "i \<le> 2 ^ 20"
  shows "page_of a = page_of (image_address i) \<longleftrightarrow> image_page a = Some i"
proof -
  let ?b = "0x200000000000 :: nat"
  have b: "unat MIRAGE_IMAGE_BASE = ?b" by (simp add: MIRAGE_IMAGE_BASE_def)
  have "unat (image_address i) div 4096 = ?b div 4096 + i" using image_address_unat [OF assms] by simp
  then have "page_of a = page_of (image_address i) \<longleftrightarrow> unat a div 4096 = ?b div 4096 + i" by (simp add: page_of_eq)
  also have "\<dots> \<longleftrightarrow> ?b \<le> unat a \<and> (unat a - ?b) div 4096 = i"
  proof (cases "?b \<le> unat a")
    case True
    then obtain k where k: "unat a = ?b + k" by (metis le_Suc_ex)
    have "unat a div 4096 = ?b div 4096 + k div 4096" unfolding k by (simp add: div_add1_eq)
    then show ?thesis using k by simp
  next
    case False
    then have "unat a < (?b div 4096) * 4096" by simp
    then have "unat a div 4096 < ?b div 4096" by (rule less_mult_imp_div_less)
    then show ?thesis using False by simp
  qed
  also have "\<dots> \<longleftrightarrow> image_page a = Some i" unfolding image_page_def word_le_nat_alt b by auto
  finally show ?thesis .
qed

lemma fold_map_flags:
  "fold (\<lambda>i. map_flags (f i) fl) is F a = (if \<exists>i\<in>set is. page_of a = page_of (f i) then Some fl else F a)"
  by (induction "is" arbitrary: F) (auto simp: map_flags_def)

lemma fold_protect_flags:
  "fold (\<lambda>i. protect_flags (f i) fl) is F a =
     (if \<exists>i\<in>set is. page_of a = page_of (f i) then map_option (\<lambda>_. fl) (F a) else F a)"
  by (induction "is" arbitrary: F) (auto simp: protect_flags_def option.map_comp comp_def)

lemma section_perms_at:
  assumes "pe_section_ok data n s" "n \<le> 2 ^ 29"
  shows "section_perms env s F a =
    (case image_page a of Some i \<Rightarrow> if i \<in> set (section_pages s) then map_option (\<lambda>_. section_flags env s) (F a) else F a
     | None \<Rightarrow> F a)"
proof -
  have "page_of a = page_of (image_address i) \<longleftrightarrow> image_page a = Some i" if "i \<in> set (section_pages s)" for i
    by (rule image_page_iff) (use section_pages_bound [OF assms that] in simp)
  then show ?thesis unfolding section_perms_def fold_protect_flags by (auto split: option.splits)
qed

lemma sections_perms_at:
  assumes "\<forall>s\<in>set ss. pe_section_ok data n s" "n \<le> 2 ^ 29"
  shows "fold (section_perms env) ss F a =
    (case image_page a of None \<Rightarrow> F a
     | Some i \<Rightarrow> (case find (\<lambda>s. i \<in> set (section_pages s)) (rev ss) of
                   None \<Rightarrow> F a | Some s \<Rightarrow> map_option (\<lambda>_. section_flags env s) (F a)))"
  using assms(1)
proof (induction ss rule: rev_induct)
  case (snoc s ss)
  note IH = snoc.IH and s = section_perms_at [OF _ assms(2), of data s]
  show ?case using IH s snoc.prems by (auto simp: option.map_comp comp_def split: option.splits)
qed (simp split: option.split)

lemma stack_page_iff: "(\<exists>i\<in>set [0..<unat USER_STACK_PAGES]. page_of a = page_of (USER_STACK_BOTTOM + of_nat i * 4096)) \<longleftrightarrow> stack_address a"
proof -
  have b: "unat USER_STACK_BOTTOM mod 4096 = 0" "unat USER_STACK_PAGES = 16" by (simp_all add: abi_defs)
  have "page_of a = page_of (USER_STACK_BOTTOM + of_nat i * 4096) \<longleftrightarrow>
      unat USER_STACK_BOTTOM + i * 4096 \<le> unat a \<and> unat a < unat USER_STACK_BOTTOM + i * 4096 + 4096" if "i < unat USER_STACK_PAGES" for i
    using page_range [OF stack_page(2) [OF that]] unfolding stack_page [OF that] .
  then have "(\<exists>i\<in>set [0..<unat USER_STACK_PAGES]. page_of a = page_of (USER_STACK_BOTTOM + of_nat i * 4096)) \<longleftrightarrow>
      (\<exists>i<16. unat USER_STACK_BOTTOM + i * 4096 \<le> unat a \<and> unat a < unat USER_STACK_BOTTOM + i * 4096 + 4096)"
    using b(2) by auto
  also have "\<dots> \<longleftrightarrow> unat USER_STACK_BOTTOM \<le> unat a \<and> unat a < unat USER_STACK_BOTTOM + 16 * 4096"
  proof (rule iffI, auto)
    assume "unat USER_STACK_BOTTOM \<le> unat a" "unat a < unat USER_STACK_BOTTOM + 65536"
    then show "\<exists>i<16. unat USER_STACK_BOTTOM + i * 4096 \<le> unat a \<and> unat a < unat USER_STACK_BOTTOM + i * 4096 + 4096"
      by (intro exI [of _ "(unat a - unat USER_STACK_BOTTOM) div 4096"]) (auto simp: less_mult_imp_div_less dividend_less_times_div)
  qed
  also have "\<dots> \<longleftrightarrow> stack_address a" by (simp add: stack_address_range b(2))
  finally show ?thesis .
qed

lemma mirage_flags_exact:
  assumes "image_fits data img"
  shows "mirage_flags env img a = mirage_page_flags env img a"
proof -
  note n = fits_pages [OF assms]
  have sec: "\<forall>s\<in>set (pe_sections img). pe_section_ok data (pe_image_size img) s" "pe_image_size img \<le> 2 ^ 29"
    using assms by (simp_all add: image_fits_def)
  have below: "i < image_pages img" if "section_of img i = Some s" for i s
  proof -
    have "s \<in> set (pe_sections img)" "i \<in> set (section_pages s)" using find_member [OF that [unfolded section_of_def]] by simp_all
    then have "unat (ps_virtual_address s) + max (unat (ps_virtual_size s)) 1 - 1 \<le> pe_image_size img - 1"
      "i \<le> (unat (ps_virtual_address s) + max (unat (ps_virtual_size s)) 1 - 1) div 4096"
      using sec(1) unfolding pe_section_ok_def section_pages_def by fastforce+
    then have "i \<le> (pe_image_size img - 1) div 4096" by (meson div_le_mono le_trans)
    moreover have "(pe_image_size img - 1) div 4096 < image_pages img"
      using assms by (auto simp: image_pages_def image_fits_def div_less_iff_less_mult)
    ultimately show ?thesis by linarith
  qed
  have iff: "page_of a = page_of (image_address i) \<longleftrightarrow> image_page a = Some i" if "i \<le> image_pages img" for i
    by (rule image_page_iff) (use n that in simp)
  have pages: "(\<exists>i\<in>set [0..<image_pages img]. page_of a = page_of (image_address i)) \<longleftrightarrow> (\<exists>i<image_pages img. image_page a = Some i)"
    using iff by auto
  show ?thesis
    unfolding mirage_flags_def fold_map_flags stack_page_iff sections_perms_at [OF sec] pages mirage_page_flags_def
      section_of_def [symmetric] protect_flags_def map_flags_def iff [OF order_refl]
    using below by (auto split: option.splits)
qed

section \<open>The outcome of a load\<close>

lemma bind_step_Ok: "bind_step m f s = (Ok b, s') \<longleftrightarrow> (\<exists>a s1. m s = (Ok a, s1) \<and> f a s1 = (Ok b, s'))"
  by (auto simp: bind_step_def split: prod.splits outcome.splits)

lemma for_each_Ok: "for_each f xs s = (Ok u, s') \<Longrightarrow> x \<in> set xs \<Longrightarrow> \<exists>s1 s2. f x s1 = (Ok (), s2)"
  by (induction xs arbitrary: s) (auto simp: bind_step_Ok)

text \<open>No section of a loaded image is to be both written and executed.\<close>

lemma mirage_fill_wx:
  assumes "mirage_fill env data img s = (Ok u, s')" "sec \<in> set (pe_sections img)"
  shows "\<not> (ps_writable sec \<and> ps_executable sec)"
proof -
  obtain s1 s2 where "for_each (protect_section env MIRAGE_IMAGE_BASE) (pe_sections img) s1 = (Ok (), s2)"
    using assms(1) by (auto simp: mirage_fill_def Let_def bind_step_Ok)
  from for_each_Ok [OF this assms(2)] show ?thesis by (auto simp: protect_section_def fail_with_def)
qed

lemma import_entries_bounded:
  "import_entries data rva_to tries names slot acc = Ok im \<Longrightarrow> length acc \<le> MAX_IMPORTS \<Longrightarrow> length im \<le> MAX_IMPORTS"
  by (induction tries arbitrary: names slot acc) (auto simp: outcome_simps not_le split: if_splits)

lemma import_descriptors_bounded:
  "import_descriptors data rva_to tries at acc = Ok im \<Longrightarrow> length acc \<le> MAX_IMPORTS \<Longrightarrow> length im \<le> MAX_IMPORTS"
  by (induction tries arbitrary: at acc) (auto simp: outcome_simps dest!: import_entries_bounded split: if_splits)

lemma parse_imports_bounded: "pe_parse data = Ok img \<Longrightarrow> length (pe_imports img) \<le> 2 ^ 15"
proof -
  assume "pe_parse data = Ok img"
  then obtain dir i where "parse_imports data dir (pe_rva i) = Ok (pe_imports img)" by (auto simp: pe_parse_def outcome_simps)
  then have "length (pe_imports img) \<le> MAX_IMPORTS"
    by (auto simp: parse_imports_def outcome_simps dest!: import_descriptors_bounded split: if_splits)
  then show ?thesis by (simp add: MAX_IMPORTS_def)
qed

definition mirage_loaded :: "paging \<Rightarrow> bytes \<Rightarrow> pe_image \<Rightarrow> vm \<Rightarrow> address_space \<Rightarrow> vm \<Rightarrow> bool" where
  "mirage_loaded env data pe v sp v' \<longleftrightarrow>
     (\<forall>i\<in>set (pe_imports pe). lookup_thunk (pi_name i) \<noteq> None) \<and>
     (\<forall>s\<in>set (pe_sections pe). \<not> (ps_writable s \<and> ps_executable s)) \<and>
     (\<forall>a. cells env (v', sp) a = map_option (\<lambda>fl. (fl, mirage_memory data pe a)) (mirage_page_flags env pe a)) \<and>
     (\<forall>i\<in>set kernel_indices. pt_entry (vm_phys v') (as_root sp) i = pt_entry (vm_phys v) (vm_cr3 v) i) \<and>
     rest_same v v' \<and> held v' = held v + mset (space_frames sp)"

context page_mapper
begin

lemma mirage_load_ok:
  assumes fo: "frames_ok env (vm_frames v)" and step: "mirage_load_image env data name v = (r, v')"
  shows "case r of
      Ok (img, sp) \<Rightarrow> \<exists>pe. pe_parse data = Ok pe \<and> mirage_loaded env data pe v sp v' \<and> (\<exists>T. space_ok env pt_inv T (v', sp)) \<and>
        img = \<lparr>li_name = name, li_entry = MIRAGE_IMAGE_BASE + ucast (pe_entry_rva pe), li_stack_top = USER_STACK_TOP - 64,
               li_root = as_root sp\<rparr>
    | Err e \<Rightarrow> frames_ok env (vm_frames v') \<and> rest_same v v' \<and> (\<exists>lost. held v' = held v + lost \<and> size lost \<le> 1)
    | Panic \<Rightarrow> \<not> kernel_half_present v \<or> pe_parse data = Panic"
proof -
  have unchanged: ?thesis if "r = Err e" "v' = v" for e
    using that fo by (auto simp: rest_same_def intro: exI [of _ "{#}"])
  show ?thesis
  proof (cases "pe_parse data")
    case (Err e)
    then have "r = Err e" "v' = v" using step by (simp_all add: mirage_load_image_def)
    then show ?thesis by (rule unchanged)
  next
    case Panic
    then show ?thesis using step by (auto simp: mirage_load_image_def)
  next
    case pe: (Ok pe)
    show ?thesis
    proof (cases "find (\<lambda>i. lookup_thunk (pi_name i) = None) (pe_imports pe)")
      case (Some i)
      then have "r = Err (UnimplementedImport (pi_name i))" "v' = v" using step pe by (simp_all add: mirage_load_image_def)
      then show ?thesis by (rule unchanged)
    next
      case None
      obtain r0 v0 where new: "address_space_new env v = (r0, v0)" by force
      note n = address_space_new_ok [OF fo new]
      note load = mirage_load_image_def [of env data name v]
      consider "r0 = Panic" | e where "r0 = Err e" | "r0 = Ok None" | sp where "r0 = Ok (Some sp)" by (cases r0) auto
      then show ?thesis
      proof cases
        case 1
        then show ?thesis using n(1) step pe None new by (simp add: load kernel_half_present_def)
      next
        case 2
        then show ?thesis using n(1) by simp
      next
        case 3
        then have "r = Err MirageOutOfMemory" "v' = v0" using step pe None new by (simp_all add: load)
        then show ?thesis using n 3 by (auto simp: rest_same_def held_def intro: exI [of _ "{#}"])
      next
        case (4 sp)
        have new': "address_space_new env v = (Ok (Some sp), v0)" using new 4 by simp
        obtain r1 v1 sp1 where fill: "mirage_fill env data pe (v0, sp) = (r1, v1, sp1)" by (metis surj_pair)
        have pre: "space_holds env pt_inv (v0, sp) (shows_memory (\<lambda>_. None) (\<lambda>_. 0) {}) (v0, sp)"
          using new_space_start [OF fo new'] by (simp add: space_holds_def shows_memory_all)
        note L = holdsD [OF mirage_fill_step [OF parse_fits [OF pe] parse_imports_bounded [OF pe]] pre fill]
          and out = new_space_outcome [OF fo new']
        show ?thesis
        proof (cases r1)
          case Panic
          then show ?thesis using L by simp
        next
          case (Err e)
          then have r: "r = Err e" "v' = address_space_drop sp1 v1" using step pe None new' fill by (simp_all add: load)
          obtain T lost where f: "space_ok env pt_inv T (v1, sp1)" "space_extends lost (v0, sp) (v1, sp1)" "size lost \<le> 1"
            using L Err by (auto simp: failed_since_def)
          show ?thesis using out(4-6) [OF f(1,2)] f(3) r by auto
        next
          case (Ok u)
          have r: "r = Ok (\<lparr>li_name = name, li_entry = MIRAGE_IMAGE_BASE + ucast (pe_entry_rva pe),
              li_stack_top = USER_STACK_TOP - 64, li_root = as_root sp1\<rparr>, sp1)" "v' = v1"
            using step pe None new' fill Ok by (simp_all add: load root_frame_def)
          obtain T where f: "space_ok env pt_inv T (v1, sp1)" "space_extends {#} (v0, sp) (v1, sp1)"
            "cells env (v1, sp1) = (\<lambda>a. map_option (\<lambda>fl. (fl, mirage_memory data pe a)) (mirage_flags env pe a))"
            using L Ok by (auto simp: space_holds_def sound_since_def shows_memory_all)
          have "cells env (v1, sp1) a = map_option (\<lambda>fl. (fl, mirage_memory data pe a)) (mirage_page_flags env pe a)" for a
            unfolding f(3) mirage_flags_exact [OF parse_fits [OF pe]] ..
          moreover have "lookup_thunk (pi_name i) \<noteq> None" if "i \<in> set (pe_imports pe)" for i
            using None that by (simp add: find_None_iff)
          moreover have "\<not> (ps_writable s \<and> ps_executable s)" if "s \<in> set (pe_sections pe)" for s
            using mirage_fill_wx [OF _ that] fill Ok by blast
          ultimately have "mirage_loaded env data pe v sp1 v1"
            using out(1-3) [OF f(1,2)] by (simp add: mirage_loaded_def)
          then show ?thesis using r f(1) pe by auto
        qed
      qed
    qed
  qed
qed

end

section \<open>Properties\<close>

text \<open>
  C35. Loading a Windows program. From any file, Mirage either returns an address space in which every
  import is bound, no section is both writable and executable, and the memory is known address by
  address: the permissions are exactly those of the last section that reaches into the page
  (read-execute for the thunks, never executable for the stack, nothing elsewhere), the bytes are the
  headers, the sections, the relocated references, the generated code of each import and its address
  in the import's slot, and zero elsewhere, nothing left from an earlier owner of a frame. The kernel's
  half of the tables is shared and the frames in use elsewhere are untouched. Or it returns an error
  with every frame given back but at most one. It panics only where the parser does.
\<close>

theorem mirage_load_exact:
  assumes "page_mapper env pt_inv" "frames_ok env (vm_frames v)"
  shows "case mirage_load_image env data name v of
      (Ok (img, sp), v') \<Rightarrow> \<exists>pe. pe_parse data = Ok pe \<and> mirage_loaded env data pe v sp v' \<and>
        img = \<lparr>li_name = name, li_entry = MIRAGE_IMAGE_BASE + ucast (pe_entry_rva pe), li_stack_top = USER_STACK_TOP - 64,
               li_root = as_root sp\<rparr>
    | (Err e, v') \<Rightarrow> frames_ok env (vm_frames v') \<and> rest_same v v' \<and> (\<exists>lost. held v' = held v + lost \<and> size lost \<le> 1)
    | (Panic, v') \<Rightarrow> \<not> kernel_half_present v \<or> pe_parse data = Panic"
proof -
  obtain r v' where l: "mirage_load_image env data name v = (r, v')" by (cases "mirage_load_image env data name v")
  from page_mapper.mirage_load_ok [OF assms l] show ?thesis by (cases r) (auto simp: l)
qed

text \<open>\<^verbatim>\<open>demo_pe\<close> imports \<^verbatim>\<open>Sleep\<close>; it has two pages, which no section covers.\<close>

lemma demo_pages:
  assumes "pe_parse demo_pe = Ok pe"
  shows "pe_entry_rva pe = 0x1000" "mirage_page_flags demo_paging pe 0x200000001000 = Some LOAD_FLAGS"
    "mirage_page_flags demo_paging pe 0x200000002000 = Some THUNK_FLAGS"
    "mirage_page_flags demo_paging pe 0x200000003000 = None" "image_pages pe = 2" "section_of pe i = None"
    "mirage_page_flags demo_paging pe 0x200000000101 = Some LOAD_FLAGS" "mirage_memory demo_pe pe 0x200000000101 = 0x20"
proof -
  have pe: "pe = demo_pe_layout\<lparr>pe_imports := [\<lparr>pi_name = ascii ''Sleep'', pi_iat_rva = 256\<rparr>]\<rparr>"
    using assms demo_pe_parse by simp
  show "pe_entry_rva pe = 0x1000" by (simp add: pe demo_pe_layout_def)
  show p: "image_pages pe = 2" and "section_of pe i = None"
    by (simp_all add: pe demo_pe_layout_def image_pages_def section_of_def)
  show "mirage_page_flags demo_paging pe 0x200000001000 = Some LOAD_FLAGS"
    "mirage_page_flags demo_paging pe 0x200000002000 = Some THUNK_FLAGS"
    "mirage_page_flags demo_paging pe 0x200000003000 = None" "mirage_page_flags demo_paging pe 0x200000000101 = Some LOAD_FLAGS"
    by (simp_all add: pe demo_pe_layout_def image_pages_def section_of_def mirage_page_flags_def stack_address_def
        image_page_def abi_defs)
  have t: "lookup_thunk (ascii ''Sleep'') = Some (THUNKS ! 2)" by (simp add: lookup_thunk_def THUNKS_def ascii_def)
  show "mirage_memory demo_pe pe 0x200000000101 = 0x20"
  proof -
    have slot: "thunk_address 2 0 = 0x200000002000" by (simp add: thunk_address_def image_address_def MIRAGE_IMAGE_BASE_def)
    have i: "enumerate 0 (pe_imports pe) = [(0, \<lparr>pi_name = ascii ''Sleep'', pi_iat_rva = 256\<rparr>)]" by (simp add: pe demo_pe_layout_def)
    have b: "u64_to_le 0x200000002000 ! 1 = 0x20" by (simp add: u64_to_le_def le_bytes_numeral)
    have stack: "unat USER_STACK_BOTTOM > 0x200000000101" by (simp add: abi_defs)
    show ?thesis
      unfolding mirage_memory_def p i fold_simps o_apply bind_slot_def prod.case t option.case slot
      using stack b by (simp add: put_def t slot MIRAGE_IMAGE_BASE_def)
  qed
qed

theorem mirage_load_exact_witness:
  "case mirage_load_image demo_paging demo_pe (ascii ''app'') demo_vm of
      (Ok (img, sp), v') \<Rightarrow> li_entry img = 0x200000001000 \<and>
        map_option fst (cells demo_paging (v', sp) 0x200000002000) = Some THUNK_FLAGS \<and>
        cells demo_paging (v', sp) 0x200000003000 = None \<and>
        cells demo_paging (v', sp) 0x200000000101 = Some (LOAD_FLAGS, 0x20)
    | (Err e, v') \<Rightarrow> frames_ok demo_paging (vm_frames v')
    | (Panic, v') \<Rightarrow> False"
proof -
  obtain r v' where l: "mirage_load_image demo_paging demo_pe (ascii ''app'') demo_vm = (r, v')"
    by (cases "mirage_load_image demo_paging demo_pe (ascii ''app'') demo_vm")
  note t = mirage_load_exact [OF demo_mapper demo_frames_ok, of demo_pe "ascii ''app''", unfolded l]
  show ?thesis
  proof (cases r)
    case (Ok x)
    obtain img sp where x: "x = (img, sp)" by (cases x)
    from t obtain pe where pe: "pe_parse demo_pe = Ok pe" "mirage_loaded demo_paging demo_pe pe demo_vm sp v'"
      "li_entry img = MIRAGE_IMAGE_BASE + ucast (pe_entry_rva pe)" by (auto simp: Ok x)
    have m: "map_option fst (cells demo_paging (v', sp) a) = mirage_page_flags demo_paging pe a" for a
      using pe(2) by (simp add: mirage_loaded_def option.map_comp comp_def option.map_ident)
    have m': "cells demo_paging (v', sp) a = map_option (\<lambda>fl. (fl, mirage_memory demo_pe pe a)) (mirage_page_flags demo_paging pe a)" for a
      using pe(2) by (simp add: mirage_loaded_def)
    note d = demo_pages [OF pe(1)]
    show ?thesis using m [of "0x200000002000"] m [of "0x200000003000"] m' [of "0x200000000101"] pe(3) d(1,3,4,7,8) by (simp add: l Ok x MIRAGE_IMAGE_BASE_def)
  next
    case Panic
    then show ?thesis using t demo_kernel_half demo_pe_parse by simp
  qed (use t in \<open>simp add: l\<close>)
qed

text \<open>What the flags of a page say, where no section is both written and executed.\<close>

lemma mirage_flag_facts:
  assumes "mirage_page_flags env pe a = Some fl"
    and sec: "\<forall>s\<in>set (pe_sections pe). \<not> (ps_writable s \<and> ps_executable s)" and nx: "pg_nx env"
  shows "contains_flags fl PTE_PRESENT" "contains_flags fl PTE_USER"
    "contains_flags fl PTE_WRITABLE \<and> \<not> contains_flags fl PTE_NO_EXECUTE \<longleftrightarrow>
       \<not> stack_address a \<and> (\<exists>i<image_pages pe. image_page a = Some i \<and> section_of pe i = None)"
proof -
  have sec': "\<not> (ps_writable s \<and> ps_executable s)" if "section_of pe i = Some s" for i s
    using sec find_member [OF that [unfolded section_of_def]] by auto
  note d = contains_flags_def PTE_PRESENT_def PTE_USER_def PTE_WRITABLE_def PTE_NO_EXECUTE_def
  have "contains_flags fl PTE_PRESENT \<and> contains_flags fl PTE_USER \<and>
    (contains_flags fl PTE_WRITABLE \<and> \<not> contains_flags fl PTE_NO_EXECUTE \<longleftrightarrow>
     \<not> stack_address a \<and> (\<exists>i<image_pages pe. image_page a = Some i \<and> section_of pe i = None))"
    using assms(1) sec' nx
    by (auto simp: mirage_page_flags_def stack_flags_def section_flags_def LOAD_FLAGS_def THUNK_FLAGS_def Let_def d
        split: if_splits option.splits)
  then show "contains_flags fl PTE_PRESENT" "contains_flags fl PTE_USER"
    "contains_flags fl PTE_WRITABLE \<and> \<not> contains_flags fl PTE_NO_EXECUTE \<longleftrightarrow>
       \<not> stack_address a \<and> (\<exists>i<image_pages pe. image_page a = Some i \<and> section_of pe i = None)" by simp_all
qed

text \<open>
  C36. Write or execute, never both, and its exception. In a loaded Windows program an address can be
  both written and executed if and only if it is in a page of the image that no section reaches
  into: the headers and the gaps stay as they were mapped for filling. Everywhere else, the
  generated thunks and the stack included, the two exclude each other.
\<close>

theorem mirage_wx_exact:
  assumes "page_mapper env pt_inv" "frames_ok env (vm_frames v)" "pg_nx env"
  shows "case mirage_load_image env data name v of
      (Ok (img, sp), v') \<Rightarrow> \<exists>pe. pe_parse data = Ok pe \<and> (\<forall>a. is_user_address a \<longrightarrow>
        (page_is_accessible env (vm_phys v') (li_root img) a True \<and> fetchable env (vm_phys v') (li_root img) a \<longleftrightarrow>
         \<not> stack_address a \<and> (\<exists>i<image_pages pe. image_page a = Some i \<and> section_of pe i = None)))
    | _ \<Rightarrow> True"
proof -
  obtain r v' where l: "mirage_load_image env data name v = (r, v')" by (cases "mirage_load_image env data name v")
  show ?thesis
  proof (cases r)
    case (Ok x)
    obtain img sp where x: "x = (img, sp)" by (cases x)
    from page_mapper.mirage_load_ok [OF assms(1,2) l] obtain pe T where pe: "pe_parse data = Ok pe" "mirage_loaded env data pe v sp v'"
      "space_ok env pt_inv T (v', sp)" "li_root img = as_root sp" by (auto simp: Ok x)
    have sec: "\<forall>s\<in>set (pe_sections pe). \<not> (ps_writable s \<and> ps_executable s)" using pe(2) by (simp add: mirage_loaded_def)
    note flags = mirage_flag_facts [OF _ sec assms(3)]
    have "page_is_accessible env (vm_phys v') (as_root sp) a True \<and> fetchable env (vm_phys v') (as_root sp) a \<longleftrightarrow>
         \<not> stack_address a \<and> (\<exists>i<image_pages pe. image_page a = Some i \<and> section_of pe i = None)" if u: "is_user_address a" for a
    proof -
      have m: "map_option fst (cells env (v', sp) a) = mirage_page_flags env pe a"
        using pe(2) by (simp add: mirage_loaded_def option.map_comp comp_def option.map_ident)
      have c: "mirage_page_flags env pe a = Some fl" if "cells env (v', sp) a = Some (fl, b)" for fl b using m that by simp
      note p = page_mapper.space_permissions [OF assms(1) pe(3) u, OF conjI [OF flags(1,2)], OF c c]
      show ?thesis
      proof (cases "cells env (v', sp) a")
        case None
        then have "mirage_page_flags env pe a = None" using m by simp
        then show ?thesis using p None by (auto simp: mirage_page_flags_def split: if_splits option.splits)
      next
        case (Some y)
        obtain fl b where y: "y = (fl, b)" by (cases y)
        show ?thesis using p flags(3) [OF c [OF Some [unfolded y]]] by (simp add: Some y)
      qed
    qed
    then show ?thesis using pe(1,4) by (auto simp: l Ok x)
  qed (simp_all add: l)
qed

theorem mirage_wx_exact_witness:
  "case mirage_load_image demo_paging demo_pe (ascii ''app'') demo_vm of
      (Ok (img, sp), v') \<Rightarrow>
        page_is_accessible demo_paging (vm_phys v') (li_root img) 0x200000001000 True \<and>
        fetchable demo_paging (vm_phys v') (li_root img) 0x200000001000 \<and>
        \<not> (page_is_accessible demo_paging (vm_phys v') (li_root img) 0x200000002000 True \<and>
           fetchable demo_paging (vm_phys v') (li_root img) 0x200000002000)
    | _ \<Rightarrow> True"
proof -
  have nx: "pg_nx demo_paging" by (simp add: demo_paging_def)
  have u: "is_user_address 0x200000001000" "is_user_address 0x200000002000"
    by (simp_all add: is_user_address_def USER_SPACE_END_def)
  have i: "image_page 0x200000001000 = Some 1" "image_page 0x200000002000 = Some 2" "\<not> stack_address 0x200000001000"
    by (simp_all add: image_page_def stack_address_def abi_defs)
  obtain r v' where l: "mirage_load_image demo_paging demo_pe (ascii ''app'') demo_vm = (r, v')"
    by (cases "mirage_load_image demo_paging demo_pe (ascii ''app'') demo_vm")
  note t = mirage_wx_exact [OF demo_mapper demo_frames_ok nx, of demo_pe "ascii ''app''", unfolded l]
  show ?thesis
  proof (cases r)
    case (Ok x)
    obtain img sp where x: "x = (img, sp)" by (cases x)
    from t obtain pe where pe: "pe_parse demo_pe = Ok pe" "\<forall>a. is_user_address a \<longrightarrow>
        (page_is_accessible demo_paging (vm_phys v') (li_root img) a True \<and> fetchable demo_paging (vm_phys v') (li_root img) a \<longleftrightarrow>
         \<not> stack_address a \<and> (\<exists>i<image_pages pe. image_page a = Some i \<and> section_of pe i = None))" by (auto simp: Ok x)
    show ?thesis
      using pe(2) [rule_format, OF u(1)] pe(2) [rule_format, OF u(2)] demo_pages(5,6) [OF pe(1)] i by (simp add: l Ok x)
  qed (simp_all add: l)
qed

end
