(* ===== verification/TestPrograms.thy ===== *)
theory TestPrograms
  imports Pe
begin

text \<open>
  The programs the build script writes byte by byte into the boot archive (\<^verbatim>\<open>runner/build.rs\<close>): two ELF
  files and a Windows program. What the kernel's parsers and loaders make of them is proved below.
\<close>

unbundle bit_operations_syntax

definition u16_to_le :: "u16 \<Rightarrow> bytes" where "u16_to_le w = le_bytes 2 (unat w)"

section \<open>ELF files\<close>

definition elf_ehdr :: "u64 \<Rightarrow> u16 \<Rightarrow> bytes" where
  "elf_ehdr entry phnum =
     [0x7F] @ ascii ''ELF'' @ [2, 1, 1, 0] @ replicate 8 0 @ u16_to_le 2 @ u16_to_le 0x3E @ u32_to_le 1 @
     u64_to_le entry @ u64_to_le 64 @ u64_to_le 0 @ u32_to_le 0 @ u16_to_le 64 @ u16_to_le 56 @ u16_to_le phnum @
     u16_to_le 0 @ u16_to_le 0 @ u16_to_le 0"

definition elf_phdr :: "u32 \<Rightarrow> u64 \<Rightarrow> u64 \<Rightarrow> u64 \<Rightarrow> u64 \<Rightarrow> bytes" where
  "elf_phdr flags offset vaddr filesz memsz =
     u32_to_le 1 @ u32_to_le flags @ u64_to_le offset @ u64_to_le vaddr @ u64_to_le vaddr @ u64_to_le filesz @
     u64_to_le memsz @ u64_to_le 0x1000"

definition build_test_elf :: "(unit, bytes) outcome" where
  "build_test_elf =
     (let payload = [0xCD, 0x80, 0xF4];
          elf = elf_ehdr 0x00400000 1
      in if length elf \<noteq> 64 then Panic
         else
           (let elf = elf @ elf_phdr 5 (64 + 56) 0x00400000 (of_nat (length payload)) (of_nat (length payload))
            in if length elf \<noteq> 64 + 56 then Panic else Ok (elf @ payload)))"

definition syscall_test_payload :: bytes where
  "syscall_test_payload =
     [0x48, 0xB8] @ u64_to_le (USER_FALLBACK_IMAGE_BASE + 0x1000) @
     [0xC6, 0x00, 0x4F] @ [0xC6, 0x40, 0x01, 0x4B] @ [0xC6, 0x40, 0x02, 0x0A] @
     [0x48, 0x89, 0xC6] @
     [0x48, 0xC7, 0xC7] @ u32_to_le (ucast FD_STDOUT) @
     [0x48, 0xC7, 0xC2] @ u32_to_le 3 @
     [0x48, 0xC7, 0xC0] @ u32_to_le (ucast SYS_WRITE) @ [0xCD, 0x80] @
     [0x48, 0xBE] @ u64_to_le KERNEL_PROBE_ADDRESS @
     [0x48, 0xC7, 0xC7] @ u32_to_le (ucast FD_STDOUT) @
     [0x48, 0xC7, 0xC2] @ u32_to_le 8 @
     [0x48, 0xC7, 0xC0] @ u32_to_le (ucast SYS_WRITE) @ [0xCD, 0x80] @
     [0x48, 0xC7, 0xC7] @ u32_to_le 42 @
     [0x48, 0xC7, 0xC0] @ u32_to_le (ucast SYS_EXIT) @ [0xCD, 0x80] @
     [0xF4]"

definition build_syscall_test_elf :: "(unit, bytes) outcome" where
  "build_syscall_test_elf =
     (let payload = syscall_test_payload; payload_offset = 64 + 56 * 2 in
      if length payload \<noteq> 97 then Panic
      else
        (let elf = elf_ehdr USER_FALLBACK_IMAGE_BASE 2
         in if length elf \<noteq> 64 then Panic
            else
              (let elf = elf @ elf_phdr 5 payload_offset USER_FALLBACK_IMAGE_BASE (of_nat (length payload)) (of_nat (length payload)) @
                     elf_phdr 6 payload_offset (USER_FALLBACK_IMAGE_BASE + 0x1000) 0 0x1000
               in if length elf \<noteq> 64 + 56 * 2 then Panic else Ok (elf @ payload))))"

section \<open>The Windows program\<close>

definition TEXT_RVA :: u32 where "TEXT_RVA = 0x1000"
definition DATA_RVA :: u32 where "DATA_RVA = 0x2000"
definition PREFERRED_BASE :: u64 where "PREFERRED_BASE = 0x140000000"
definition FILE_ALIGN :: nat where "FILE_ALIGN = 0x200"

text \<open>\<^verbatim>\<open>while data.len() % n != 0 { data.push(0) }\<close>, which is also what \<^verbatim>\<open>next_multiple_of\<close> resizes to.\<close>

definition pad_to :: "nat \<Rightarrow> bytes \<Rightarrow> bytes" where
  "pad_to n data = data @ replicate ((n - length data mod n) mod n) 0"

primrec hint_names :: "bytes list \<Rightarrow> bytes \<times> u32 list \<Rightarrow> bytes \<times> u32 list" where
  "hint_names [] s = s"
| "hint_names (name # names) s =
     hint_names names (pad_to 2 (fst s @ u16_to_le 0 @ name @ [0]), snd s @ [DATA_RVA + of_nat (length (fst s))])"

definition name_table :: "u32 list \<Rightarrow> bytes" where
  "name_table rvas = concat (map (\<lambda>rva. u64_to_le (ucast rva)) rvas) @ u64_to_le 0"

text \<open>
  The data section: the message, the names, the two import tables, the library's name and the import
  descriptor; the last comes with where the address table and the directory start.
\<close>

definition pe_test_message :: bytes where
  "pe_test_message = pad_to 8 (ascii ''[mirage] hello from a Windows PE binary running natively on Najm OS'' @ [0x0A, 0])"

definition pe_test_names :: "bytes \<times> u32 list" where
  "pe_test_names =
     (case hint_names [ascii ''OutputDebugStringA'', ascii ''ExitProcess''] (pe_test_message, []) of
        (data, rvas) \<Rightarrow> (pad_to 8 data, rvas))"

definition pe_test_tables :: "bytes \<times> u32 \<times> u32" where
  "pe_test_tables =
     (case pe_test_names of (data, rvas) \<Rightarrow>
       (let lookup_rva = DATA_RVA + of_nat (length data);
            iat_rva = DATA_RVA + of_nat (length (data @ name_table rvas))
        in (data @ name_table rvas @ name_table rvas, lookup_rva, iat_rva)))"

definition pe_test_imports :: "bytes \<times> u32 \<times> u32" where
  "pe_test_imports =
     (case pe_test_tables of (data, lookup_rva, iat_rva) \<Rightarrow>
       (let dll_name_rva = DATA_RVA + of_nat (length data);
            data = pad_to 4 (data @ ascii ''KERNEL32.dll'' @ [0]);
            import_dir_rva = DATA_RVA + of_nat (length data)
        in (data @ u32_to_le lookup_rva @ u32_to_le 0 @ u32_to_le 0 @ u32_to_le dll_name_rva @ u32_to_le iat_rva @ replicate 20 0,
            iat_rva, import_dir_rva)))"

text \<open>A call through a slot of the address table, relative to the end of the instruction.\<close>

definition call_slot :: "u32 \<Rightarrow> bytes \<Rightarrow> bytes" where
  "call_slot slot text =
     (let call_end = unat TEXT_RVA + length text + 6; disp = int (unat slot) - int call_end
      in text @ [0xFF, 0x15] @ u32_to_le (of_int disp))"

definition pe_test_prologue :: bytes where
  "pe_test_prologue = [0x48, 0x83, 0xEC, 0x28]"

definition pe_test_text :: "u32 \<Rightarrow> bytes" where
  "pe_test_text iat_rva =
     (let text = pe_test_prologue;
          text = text @ [0x48, 0xB9] @ u64_to_le (PREFERRED_BASE + ucast DATA_RVA);
          text = call_slot iat_rva text;
          text = text @ [0xB9] @ u32_to_le 55;
          text = call_slot (iat_rva + 8) text
      in text @ [0x0F, 0x0B])"

definition pe_test_relocations :: bytes where
  "pe_test_relocations =
     (let message_operand_offset = length pe_test_prologue + 2;
          reloc_target = TEXT_RVA + of_nat message_operand_offset
      in u32_to_le (reloc_target AND NOT 0xFFF) @ u32_to_le 16 @
         u16_to_le (push_bit 12 10 OR ucast (reloc_target AND 0xFFF)) @ u16_to_le 0)"

definition copy_into :: "nat \<Rightarrow> bytes \<Rightarrow> bytes \<Rightarrow> (unit, bytes) outcome" where
  "copy_into at bs pe = (if at + length bs > length pe then Panic else Ok (take at pe @ bs @ drop (at + length bs) pe))"

primrec put_all :: "bytes list \<Rightarrow> bytes \<times> nat \<Rightarrow> (unit, bytes \<times> nat) outcome" where
  "put_all [] s = Ok s"
| "put_all (bs # rest) s = obind (copy_into (snd s) bs (fst s)) (\<lambda>pe. put_all rest (pe, snd s + length bs))"

definition pe_coff_fields :: "bytes list" where
  "pe_coff_fields =
     [u32_to_le 0x00004550, u16_to_le 0x8664, u16_to_le 2, u32_to_le 0, u32_to_le 0, u32_to_le 0, u16_to_le 240, u16_to_le 0x0022]"

definition pe_optional_fields :: "nat \<Rightarrow> nat \<Rightarrow> bytes list" where
  "pe_optional_fields text_len data_len =
     [u16_to_le 0x020B, [14, 0], u32_to_le (of_nat text_len), u32_to_le (of_nat data_len), u32_to_le 0, u32_to_le TEXT_RVA,
      u32_to_le TEXT_RVA, u64_to_le PREFERRED_BASE, u32_to_le 0x1000, u32_to_le (of_nat FILE_ALIGN), [6, 0, 0, 0], [0, 0, 0, 0],
      [6, 0, 0, 0], u32_to_le 0, u32_to_le 0x3000, u32_to_le (of_nat FILE_ALIGN), u32_to_le 0, u16_to_le 3, u16_to_le 0x0160,
      u64_to_le 0x100000, u64_to_le 0x1000, u64_to_le 0x100000, u64_to_le 0x1000, u32_to_le 0, u32_to_le 16]"

text \<open>The closure \<^verbatim>\<open>section\<close> steps over twelve bytes, which are zero already; here they are written as zeros.\<close>

definition pe_section_fields :: "bytes \<Rightarrow> u32 \<Rightarrow> u32 \<Rightarrow> u32 \<Rightarrow> u32 \<Rightarrow> u32 \<Rightarrow> bytes list" where
  "pe_section_fields name virtual_size virtual_address raw_size raw_offset characteristics =
     [name, u32_to_le virtual_size, u32_to_le virtual_address, u32_to_le raw_size, u32_to_le raw_offset, replicate 12 0,
      u32_to_le characteristics]"

definition pe_directory :: "nat \<Rightarrow> nat \<Rightarrow> u32 \<Rightarrow> u32 \<Rightarrow> bytes \<Rightarrow> (unit, bytes) outcome" where
  "pe_directory directories index rva len pe =
     obind (copy_into (directories + index * 8) (u32_to_le rva) pe) (\<lambda>pe.
       copy_into (directories + index * 8 + 4) (u32_to_le len) pe)"

text \<open>\<^verbatim>\<open>pe.resize(n, 0)\<close>.\<close>

definition resize_to :: "nat \<Rightarrow> bytes \<Rightarrow> bytes" where
  "resize_to n pe = take n pe @ replicate (n - length pe) 0"

definition build_test_pe :: "(unit, bytes) outcome" where
  "build_test_pe =
     (let (data, iat_rva, import_dir_rva) = pe_test_imports;
          text = pe_test_text iat_rva;
          reloc_rva = DATA_RVA + of_nat (length data);
          data = data @ pe_test_relocations
      in
      obind (copy_into 0 (u16_to_le 0x5A4D) (replicate FILE_ALIGN 0)) (\<lambda>pe.
      obind (copy_into 0x3C (u32_to_le 0x80) pe) (\<lambda>pe.
      obind (put_all pe_coff_fields (pe, 0x80)) (\<lambda>(pe, optional_header).
      obind (put_all (pe_optional_fields (length text) (length data)) (pe, optional_header)) (\<lambda>(pe, directories).
      let at = directories + 16 * 8 in
      obind (pe_directory directories 1 import_dir_rva 40 pe) (\<lambda>pe.
      obind (pe_directory directories 5 reloc_rva 16 pe) (\<lambda>pe.
      if at - optional_header \<noteq> 240 then Panic
      else
      obind (put_all (pe_section_fields (ascii ''.text'' @ [0, 0, 0]) (of_nat (length text)) TEXT_RVA
                        (of_nat (length (pad_to FILE_ALIGN text))) (of_nat FILE_ALIGN) 0x60000020) (pe, at)) (\<lambda>(pe, at).
      obind (put_all (pe_section_fields (ascii ''.rdata'' @ [0, 0]) (of_nat (length data)) DATA_RVA
                        (of_nat (length (pad_to FILE_ALIGN data))) (of_nat (FILE_ALIGN * 2)) 0xC0000040) (pe, at)) (\<lambda>(pe, at).
      Ok (pad_to FILE_ALIGN (resize_to (FILE_ALIGN * 2) (resize_to FILE_ALIGN pe @ text) @ data)))))))))))"

section \<open>Bytes\<close>

lemmas le_simps = u16_to_le_def u32_to_le_def u64_to_le_def le_bytes_numeral

lemma length_u16_to_le [simp]: "length (u16_to_le w) = 2"
  by (simp add: u16_to_le_def)

lemma u16_from_to_le: "u16_from_le (u16_to_le w) = w"
proof -
  have "unat w < 256 ^ 2" using unat_bound [of w] by simp
  then show ?thesis by (simp add: u16_from_le_def u16_to_le_def le_nat_le_bytes)
qed

lemma syscall_test_payload_length: "length syscall_test_payload = 97"
  by (simp add: syscall_test_payload_def)

lemma elf_lengths [simp]: "length (elf_ehdr e n) = 64" "length (elf_phdr f off v a b) = 56"
  by (simp_all add: elf_ehdr_def elf_phdr_def ascii_def)

lemma build_test_elf_eq: "build_test_elf = Ok (elf_ehdr 0x00400000 1 @ elf_phdr 5 120 0x00400000 3 3 @ [0xCD, 0x80, 0xF4])"
  by (simp add: build_test_elf_def Let_def)

lemma build_syscall_test_elf_eq:
  "build_syscall_test_elf = Ok (elf_ehdr USER_FALLBACK_IMAGE_BASE 2 @ elf_phdr 5 176 USER_FALLBACK_IMAGE_BASE 97 97 @
     elf_phdr 6 176 (USER_FALLBACK_IMAGE_BASE + 0x1000) 0 0x1000 @ syscall_test_payload)"
  by (simp add: build_syscall_test_elf_def Let_def syscall_test_payload_length)

section \<open>The headers of the Windows program\<close>

definition pe_test_header :: "nat \<Rightarrow> nat \<Rightarrow> u32 \<Rightarrow> u32 \<Rightarrow> bytes" where
  "pe_test_header text_len data_len import_dir reloc =
     u16_to_le 0x5A4D @ replicate 58 0 @ u32_to_le 0x80 @ replicate 64 0 @ concat pe_coff_fields @
     concat (pe_optional_fields text_len data_len) @
     replicate 8 0 @ u32_to_le import_dir @ u32_to_le 40 @ replicate 24 0 @ u32_to_le reloc @ u32_to_le 16 @ replicate 80 0 @
     concat (pe_section_fields (ascii ''.text'' @ [0, 0, 0]) (of_nat text_len) TEXT_RVA
       (of_nat (text_len + (512 - text_len mod 512) mod 512)) 0x200 0x60000020) @
     concat (pe_section_fields (ascii ''.rdata'' @ [0, 0]) (of_nat data_len) DATA_RVA
       (of_nat (data_len + (512 - data_len mod 512) mod 512)) 0x400 0xC0000040) @ replicate 40 0"

lemma copy_into_zeros:
  assumes "length xs \<le> at" "at - length xs + length bs \<le> n"
  shows "copy_into at bs (xs @ replicate n 0) =
    Ok ((xs @ replicate (at - length xs) 0 @ bs) @ replicate (n - (at - length xs) - length bs) 0)"
proof -
  obtain k where k: "at = length xs + k" using assms(1) by (metis le_Suc_ex)
  show ?thesis using assms(2) by (simp add: copy_into_def k drop_append take_append min_def)
qed

lemma put_all_zeros:
  "length xs = at \<Longrightarrow> length (concat bss) \<le> n \<Longrightarrow>
   put_all bss (xs @ replicate n 0, at) = Ok ((xs @ concat bss) @ replicate (n - length (concat bss)) 0, at + length (concat bss))"
proof (induction bss arbitrary: xs at n)
  case (Cons bs bss)
  have c: "copy_into at bs (xs @ replicate n 0) = Ok ((xs @ bs) @ replicate (n - length bs) 0)"
    using copy_into_zeros [of xs at bs n] Cons.prems by simp
  show ?case using Cons.IH [of "xs @ bs" "at + length bs" "n - length bs"] Cons.prems by (simp add: c)
qed simp

text \<open>The directory area starts with unused bytes.\<close>

lemma put_all_skip:
  assumes "length xs \<le> at" "at - length xs + length (concat bss) \<le> n"
  shows "put_all bss (xs @ replicate n 0, at) =
    Ok ((xs @ replicate (at - length xs) 0 @ concat bss) @ replicate (n - (at - length xs) - length (concat bss)) 0, at + length (concat bss))"
proof -
  have "xs @ replicate n 0 = (xs @ replicate (at - length xs) 0) @ replicate (n - (at - length xs)) (0 :: u8)"
    using assms(2) by (simp add: replicate_add [symmetric])
  then show ?thesis using put_all_zeros [of "xs @ replicate (at - length xs) 0" at bss "n - (at - length xs)"] assms by simp
qed

lemma field_lengths [simp]:
  "length (concat pe_coff_fields) = 24" "length (concat (pe_optional_fields a b)) = 112"
  "length name = 8 \<Longrightarrow> length (concat (pe_section_fields name c d e f g)) = 40"
  by (simp_all add: pe_coff_fields_def pe_optional_fields_def pe_section_fields_def)

lemma pe_test_message_length: "length pe_test_message = 72"
  by (simp add: pe_test_message_def pad_to_def)

text \<open>What is where in the data section.\<close>

definition pe_test_strings :: bytes where
  "pe_test_strings =
     pe_test_message @ [0, 0] @ ascii ''OutputDebugStringA'' @ [0, 0] @ [0, 0] @ ascii ''ExitProcess'' @ [0] @ replicate 4 0"

definition pe_test_table :: bytes where
  "pe_test_table = u64_to_le 0x2048 @ u64_to_le 0x205E @ u64_to_le 0"

definition pe_test_data :: bytes where
  "pe_test_data =
     pe_test_strings @ pe_test_table @ pe_test_table @ ascii ''KERNEL32.dll'' @ [0] @ replicate 3 0 @
     u32_to_le 0x2070 @ u32_to_le 0 @ u32_to_le 0 @ u32_to_le 0x20A0 @ u32_to_le 0x2088 @ replicate 20 0"

lemma pe_test_lengths: "length pe_test_strings = 112" "length pe_test_table = 24" "length pe_test_data = 216"
  by (simp_all add: pe_test_strings_def pe_test_table_def pe_test_data_def pe_test_message_length)

lemma pe_test_names_eq: "pe_test_names = (pe_test_strings, [0x2048, 0x205E])"
  by (simp add: pe_test_names_def pe_test_strings_def pad_to_def pe_test_message_length DATA_RVA_def u16_to_le_def le_bytes_numeral)

lemma pe_test_tables_eq: "pe_test_tables = (pe_test_strings @ pe_test_table @ pe_test_table, 0x2070, 0x2088)"
  by (simp add: pe_test_tables_def pe_test_names_eq name_table_def pe_test_table_def pe_test_lengths DATA_RVA_def Let_def)

lemma pe_test_imports_eq: "pe_test_imports = (pe_test_data, 0x2088, 0x20B0)"
  by (simp add: pe_test_imports_def pe_test_tables_eq pe_test_lengths pad_to_def DATA_RVA_def Let_def pe_test_data_def)

lemma pe_test_text_length: "length (pe_test_text slot) = 33"
  by (simp add: pe_test_text_def pe_test_prologue_def call_slot_def Let_def)

lemma pe_test_relocations_length: "length pe_test_relocations = 12"
  by (simp add: pe_test_relocations_def pe_test_prologue_def Let_def)

lemma build_test_pe_eq:
  "build_test_pe = Ok (pe_test_header 33 228 0x20B0 0x20D8 @ pe_test_text 0x2088 @ replicate 479 0 @
     (pe_test_data @ pe_test_relocations) @ replicate 284 0)"
proof -
  let ?z = "\<lambda>n. replicate n (0 :: u8)"
  define p1 where "p1 = u16_to_le 0x5A4D"
  define p2 where "p2 = p1 @ ?z 58 @ u32_to_le 0x80"
  define p3 where "p3 = p2 @ ?z 64 @ concat pe_coff_fields"
  define p4 where "p4 = p3 @ concat (pe_optional_fields 33 228)"
  define p5 where "p5 = p4 @ ?z 8 @ u32_to_le 0x20B0"
  define p6 where "p6 = p5 @ u32_to_le 40"
  define p7 where "p7 = p6 @ ?z 24 @ u32_to_le 0x20D8"
  define p8 where "p8 = p7 @ u32_to_le 16"
  define s1 where "s1 = pe_section_fields (ascii ''.text'' @ [0, 0, 0]) 33 TEXT_RVA 512 0x200 0x60000020"
  define s2 where "s2 = pe_section_fields (ascii ''.rdata'' @ [0, 0]) 228 0x2000 512 0x400 0xC0000040"
  have l: "length p1 = 2" "length p2 = 64" "length p3 = 152" "length p4 = 264" "length p5 = 276" "length p6 = 280"
    "length p7 = 308" "length p8 = 312" "length (concat s1) = 40" "length (concat s2) = 40"
    by (simp_all add: p1_def p2_def p3_def p4_def p5_def p6_def p7_def p8_def s1_def s2_def ascii_def)
  have c1: "copy_into 0 (u16_to_le 0x5A4D) (?z 512) = Ok (p1 @ ?z 510)"
    using copy_into_zeros [of "[]" 0 "u16_to_le 0x5A4D" 512] by (simp add: p1_def)
  have c2: "copy_into 60 (u32_to_le 0x80) (p1 @ ?z 510) = Ok (p2 @ ?z 448)"
    using copy_into_zeros [of p1 60 "u32_to_le 0x80" 510] by (simp add: l p2_def)
  have c3: "put_all pe_coff_fields (p2 @ ?z 448, 128) = Ok (p3 @ ?z 360, 152)"
    using put_all_skip [of p2 128 pe_coff_fields 448] by (simp add: l p3_def)
  have c4: "put_all (pe_optional_fields 33 228) (p3 @ ?z 360, 152) = Ok (p4 @ ?z 248, 264)"
    using put_all_zeros [of p3 152 "pe_optional_fields 33 228" 360] by (simp add: l p4_def)
  have c5: "pe_directory 264 (Suc 0) 0x20B0 40 (p4 @ ?z 248) = Ok (p6 @ ?z 232)"
    using copy_into_zeros [of p4 272 "u32_to_le 0x20B0" 248] copy_into_zeros [of p5 276 "u32_to_le 40" 236]
    by (simp add: pe_directory_def l p5_def [symmetric] p6_def)
  have c6: "pe_directory 264 5 0x20D8 16 (p6 @ ?z 232) = Ok (p8 @ ?z 200)"
    using copy_into_zeros [of p6 304 "u32_to_le 0x20D8" 232] copy_into_zeros [of p7 308 "u32_to_le 16" 204]
    by (simp add: pe_directory_def l p7_def [symmetric] p8_def)
  define p9 where "p9 = p8 @ ?z 80 @ concat s1"
  define p10 where "p10 = p9 @ concat s2"
  have l2: "length p9 = 432" "length p10 = 472" by (simp_all add: p9_def p10_def l)
  have c7: "put_all s1 (p8 @ ?z 200, 392) = Ok (p9 @ ?z 80, 432)"
    using put_all_skip [of p8 392 s1 200] by (simp add: l p9_def)
  have c8: "put_all s2 (p9 @ ?z 80, 432) = Ok (p10 @ ?z 40, 472)"
    using put_all_zeros [of p9 432 s2 80] by (simp add: l l2 p10_def)
  have h: "pe_test_header 33 228 0x20B0 0x20D8 = p10 @ ?z 40"
    by (simp add: pe_test_header_def p1_def p2_def p3_def p4_def p5_def p6_def p7_def p8_def p9_def p10_def s1_def s2_def DATA_RVA_def)
  show ?thesis
    unfolding build_test_pe_def pe_test_imports_eq prod.case
    by (simp add: Let_def pe_test_text_length pe_test_relocations_length pe_test_lengths(3) FILE_ALIGN_def DATA_RVA_def
        pad_to_def c1 c2 c3 c4 c5 c6 c7 c8 s1_def [symmetric] s2_def [symmetric] h resize_to_def l l2)
qed

section \<open>What the parser reads\<close>

definition pe_test_file :: bytes where
  "pe_test_file = pe_test_header 33 228 0x20B0 0x20D8 @ pe_test_text 0x2088 @ replicate 479 0 @
     (pe_test_data @ pe_test_relocations) @ replicate 284 0"

lemma pe_test_header_length: "length (pe_test_header a b c d) = 512"
  by (simp add: pe_test_header_def)

lemma pe_test_file_length: "length pe_test_file = 1536"
  by (simp add: pe_test_file_def pe_test_header_length pe_test_text_length pe_test_lengths pe_test_relocations_length)

text \<open>A field is read back where it was put.\<close>

lemma get_range_skip: "length xs \<le> at \<Longrightarrow> at \<le> k \<Longrightarrow> get_range (xs @ ys) at k = get_range ys (at - length xs) (k - length xs)"
  by (auto simp: get_range_def)

lemma get_range_within: "k \<le> length xs \<Longrightarrow> get_range (xs @ ys) at k = get_range xs at k"
  by (auto simp: get_range_def)

lemma get_range_Cons: "0 < at \<Longrightarrow> at \<le> k \<Longrightarrow> get_range (y # ys) at k = get_range ys (at - 1) (k - 1)"
  by (auto simp: get_range_def take_Cons' drop_Cons')

lemma get_range_here: "length xs = k \<Longrightarrow> get_range (xs @ ys) 0 k = Some xs" "length xs = k \<Longrightarrow> get_range xs 0 k = Some xs"
  by (auto simp: get_range_def)

lemmas field_reads = u16_at_def u32_at_def u64_at_def get_range_here get_range_Cons u16_from_to_le u32_from_to_le u64_from_to_le

lemma header_reads:
  assumes "k \<le> 512"
  shows "get_range pe_test_file at k = get_range (pe_test_header 33 228 0x20B0 0x20D8) at k"
  unfolding pe_test_file_def by (rule get_range_within) (simp add: pe_test_header_length assms)

lemma header_fields:
  "u16_at pe_test_file 0 = Ok 0x5A4D" "u32_at pe_test_file 60 = Ok 0x80" "u32_at pe_test_file 128 = Ok 0x4550"
  "u16_at pe_test_file 132 = Ok 0x8664" "u16_at pe_test_file 134 = Ok 2" "u16_at pe_test_file 148 = Ok 240"
  "u16_at pe_test_file 152 = Ok 0x20B" "u32_at pe_test_file 168 = Ok 0x1000" "u64_at pe_test_file 176 = Ok 0x140000000"
  "u32_at pe_test_file 208 = Ok 0x3000" "u32_at pe_test_file 212 = Ok 0x200" "u32_at pe_test_file 260 = Ok 16"
  "u32_at pe_test_file 272 = Ok 0x20B0" "u32_at pe_test_file 276 = Ok 40" "u32_at pe_test_file 304 = Ok 0x20D8"
  "u32_at pe_test_file 308 = Ok 16"
  by (simp_all add: field_reads header_reads pe_test_header_def pe_coff_fields_def pe_optional_fields_def get_range_skip
      TEXT_RVA_def PREFERRED_BASE_def FILE_ALIGN_def)

lemma section_fields:
  "u32_at pe_test_file 400 = Ok 33" "u32_at pe_test_file 404 = Ok 0x1000" "u32_at pe_test_file 408 = Ok 512"
  "u32_at pe_test_file 412 = Ok 512" "u32_at pe_test_file 428 = Ok 0x60000020"
  "u32_at pe_test_file 440 = Ok 228" "u32_at pe_test_file 444 = Ok 0x2000" "u32_at pe_test_file 448 = Ok 512"
  "u32_at pe_test_file 452 = Ok 1024" "u32_at pe_test_file 468 = Ok 0xC0000040"
  by (simp_all add: field_reads header_reads pe_test_header_def get_range_skip pe_section_fields_def TEXT_RVA_def DATA_RVA_def)

lemma data_reads:
  assumes "1024 \<le> at" "at \<le> k"
  shows "get_range pe_test_file at k = get_range ((pe_test_data @ pe_test_relocations) @ replicate 284 0) (at - 1024) (k - 1024)"
  using assms
  by (simp add: pe_test_file_def get_range_skip pe_test_header_length pe_test_text_length)

lemma data_fields:
  "u32_at pe_test_file 1200 = Ok 0x2070" "u32_at pe_test_file 1212 = Ok 0x20A0" "u32_at pe_test_file 1216 = Ok 0x2088"
  "u64_at pe_test_file 1136 = Ok 0x2048" "u64_at pe_test_file 1144 = Ok 0x205E" "u64_at pe_test_file 1152 = Ok 0"
  by (simp_all add: field_reads data_reads pe_test_data_def pe_test_table_def pe_test_lengths get_range_skip)

lemma get_range_zeros:
  "at \<le> k \<Longrightarrow> k \<le> n \<Longrightarrow> get_range (replicate n 0 @ ys) at k = Some (replicate (k - at) 0)"
  by (auto simp: get_range_def min_def)

lemma le_nat_zeros: "le_nat (replicate n 0) = 0"
  by (induction n) simp_all

lemma zero_fields:
  "u32_at pe_test_file 1220 = Ok 0" "u32_at pe_test_file 1232 = Ok 0" "u32_at pe_test_file 1236 = Ok 0"
  "u16_at pe_test_file 1252 = Ok 0" "u16_at pe_test_file 1254 = Ok 0"
  by (simp_all add: u16_at_def u32_at_def data_reads pe_test_data_def pe_test_table_def pe_test_lengths get_range_skip
      get_range_Cons get_range_zeros get_range_zeros [where ys = "[]", simplified] pe_test_relocations_length u32_from_le_def u16_from_le_def le_nat_zeros)

lemma relocation_fields:
  "u32_at pe_test_file 1240 = Ok 0x1000" "u32_at pe_test_file 1244 = Ok 16" "u16_at pe_test_file 1248 = Ok 0xA006"
  "u16_at pe_test_file 1250 = Ok 0"
  by (simp_all add: field_reads data_reads pe_test_lengths get_range_skip pe_test_relocations_def pe_test_prologue_def Let_def TEXT_RVA_def)

section \<open>The parsed program\<close>

definition text_section :: pe_section where
  "text_section = \<lparr>ps_virtual_address = 0x1000, ps_virtual_size = 33, ps_raw_offset = 512, ps_raw_size = 512,
     ps_executable = True, ps_writable = False, ps_readable = True\<rparr>"

definition rdata_section :: pe_section where
  "rdata_section = \<lparr>ps_virtual_address = 0x2000, ps_virtual_size = 228, ps_raw_offset = 1024, ps_raw_size = 512,
     ps_executable = False, ps_writable = True, ps_readable = True\<rparr>"

definition pe_test_layout :: pe_image where
  "pe_test_layout = \<lparr>pe_entry_rva = 0x1000, pe_preferred_base = 0x140000000, pe_image_size = 0x3000, pe_headers_size = 512,
     pe_sections = [text_section, rdata_section], pe_imports = [], pe_relocations = []\<rparr>"

definition pe_test_image :: pe_image where
  "pe_test_image = pe_test_layout\<lparr>
     pe_imports := [\<lparr>pi_name = ascii ''OutputDebugStringA'', pi_iat_rva = 0x2088\<rparr>, \<lparr>pi_name = ascii ''ExitProcess'', pi_iat_rva = 0x2090\<rparr>],
     pe_relocations := [0x1006]\<rparr>"

lemma test_sections:
  "read_section pe_test_file 0x3000 392 = Ok text_section" "read_section pe_test_file 0x3000 432 = Ok rdata_section"
  by (simp_all add: read_section_def pe_test_file_length section_fields checked_add_def usize_lim_def text_section_def
      rdata_section_def pe_defs)

lemma test_layout: "pe_layout pe_test_file = Ok (pe_test_layout, 264, 16)"
proof -
  have h: "pe_headers pe_test_file = Ok (152, 2, 240)"
    by (simp add: pe_headers_def pe_test_file_length header_fields pe_defs MAX_SECTIONS_def)
  have s: "read_sections pe_test_file 0x3000 392 [0..<2] = Ok [text_section, rdata_section]"
    by (simp add: upt_rec test_sections)
  show ?thesis by (simp add: pe_layout_def h header_fields pe_test_file_length s pe_test_layout_def)
qed

lemma test_rva:
  "pe_rva pe_test_layout 0x20B0 = Ok (Some 1200)" "pe_rva pe_test_layout 0x2070 = Ok (Some 1136)"
  "pe_rva pe_test_layout 0x2048 = Ok (Some 1096)" "pe_rva pe_test_layout 0x205E = Ok (Some 1118)"
  "pe_rva pe_test_layout 0x20D8 = Ok (Some 1240)"
  by (simp_all add: pe_rva_def rva_to_offset_def pe_test_layout_def text_section_def rdata_section_def add_u32_def Let_def
      max_def word_le_nat_alt word_less_nat_alt)

lemma test_names:
  "import_name pe_test_file 1096 = Ok (ascii ''OutputDebugStringA'')" "import_name pe_test_file 1118 = Ok (ascii ''ExitProcess'')"
proof -
  have d: "drop 1098 pe_test_file = ascii ''OutputDebugStringA'' @ 0 # drop 1117 pe_test_file"
    "drop 1120 pe_test_file = ascii ''ExitProcess'' @ 0 # drop 1132 pe_test_file"
    by (simp_all add: pe_test_file_def pe_test_header_length pe_test_text_length pe_test_data_def pe_test_strings_def
        pe_test_message_length)
  have p: "position (\<lambda>b. b = 0) (xs @ 0 # ys) = Some (length xs)" if "\<forall>b\<in>set xs. b \<noteq> 0" for xs and ys :: bytes
    using that by (induction xs) simp_all
  have n: "\<forall>b\<in>set (ascii ''OutputDebugStringA''). b \<noteq> 0 \<and> b < 0x80" "\<forall>b\<in>set (ascii ''ExitProcess''). b \<noteq> 0 \<and> b < 0x80"
    by (simp_all add: ascii_def)
  show "import_name pe_test_file 1096 = Ok (ascii ''OutputDebugStringA'')"
    using n(1) by (simp add: import_name_def pe_test_file_length d(1) p lossy_ascii)
  show "import_name pe_test_file 1118 = Ok (ascii ''ExitProcess'')"
    using n(2) by (simp add: import_name_def pe_test_file_length d(2) p lossy_ascii)
qed

lemma test_imports: "parse_imports pe_test_file (0x20B0, 40) (pe_rva pe_test_layout) =
    Ok [\<lparr>pi_name = ascii ''OutputDebugStringA'', pi_iat_rva = 0x2088\<rparr>, \<lparr>pi_name = ascii ''ExitProcess'', pi_iat_rva = 0x2090\<rparr>]"
proof -
  have s: "MAX_IMPORTS = Suc (Suc (Suc 509))" "MAX_IMPORTS = Suc (Suc 510)" by (simp_all add: MAX_IMPORTS_def)
  have e: "import_entries pe_test_file (pe_rva pe_test_layout) MAX_IMPORTS 1136 0x2088 [] =
      Ok [\<lparr>pi_name = ascii ''OutputDebugStringA'', pi_iat_rva = 0x2088\<rparr>, \<lparr>pi_name = ascii ''ExitProcess'', pi_iat_rva = 0x2090\<rparr>]"
    unfolding s(1) import_entries.simps by (simp add: data_fields mapped_offset_def test_rva test_names add_u32_def)
  show ?thesis
    unfolding parse_imports_def s(2) import_descriptors.simps
    by (simp add: test_rva mapped_offset_def pe_test_file_length data_fields zero_fields e [unfolded MAX_IMPORTS_def])
qed

lemma test_relocations: "parse_relocations pe_test_file (0x20D8, 16) (pe_rva pe_test_layout) = Ok [0x1006]"
proof -
  have e: "relocation_entries pe_test_file 0x1000 1240 [0..<4] [] = Ok [0x1006]"
    by (simp add: upt_rec relocation_fields zero_fields MAX_RELOCATIONS_def pe_defs Let_def add_u32_def)
  have b: "relocation_blocks pe_test_file 1240 1256 [] = Ok [0x1006]"
    by (subst relocation_blocks.simps) (simp add: relocation_fields e relocation_blocks.simps [of _ 1256])
  show ?thesis
    by (simp add: parse_relocations_def test_rva mapped_offset_def checked_add_def usize_lim_def pe_test_file_length b)
qed

lemma test_pe_parsed: "pe_parse pe_test_file = Ok pe_test_image"
proof -
  have d: "read_directory pe_test_file 264 16 DIRECTORY_IMPORT = Ok (0x20B0, 40)"
    "read_directory pe_test_file 264 16 DIRECTORY_BASERELOC = Ok (0x20D8, 16)"
    by (simp_all add: read_directory_def header_fields pe_defs)
  show ?thesis
    by (simp add: pe_parse_def test_layout d test_imports test_relocations pe_test_image_def)
qed

end
