(* ===== verification/TestLoads.thy ===== *)
theory TestLoads
  imports MirageProofs TestPrograms
begin

text \<open>
  The two ends put together: what the build script writes, loaded by the kernel. The memory that
  results is given page by page.
\<close>

unbundle bit_operations_syntax

section \<open>The ELF program\<close>

definition test_elf :: bytes where
  "test_elf = elf_ehdr USER_FALLBACK_IMAGE_BASE 2 @ elf_phdr 5 176 USER_FALLBACK_IMAGE_BASE 97 97 @
     elf_phdr 6 176 (USER_FALLBACK_IMAGE_BASE + 0x1000) 0 0x1000 @ syscall_test_payload"

definition test_elf_header :: elf_header where
  "test_elf_header = \<lparr>eh_entry = USER_FALLBACK_IMAGE_BASE, eh_phoff = 64, eh_phentsize = 56, eh_phnum = 2\<rparr>"

lemma test_elf_length: "length test_elf = 273"
  by (simp add: test_elf_def syscall_test_payload_length)

lemma elf_ehdr_fields:
  "take 4 (elf_ehdr e n @ r) = ELF_MAGIC" "(elf_ehdr e n @ r) ! 4 = 2" "(elf_ehdr e n @ r) ! 5 = 1"
  "take 2 (drop 16 (elf_ehdr e n @ r)) = u16_to_le 2" "take 2 (drop 18 (elf_ehdr e n @ r)) = u16_to_le 0x3E"
  "take 8 (drop 24 (elf_ehdr e n @ r)) = u64_to_le e" "take 8 (drop 32 (elf_ehdr e n @ r)) = u64_to_le 64"
  "take 2 (drop 54 (elf_ehdr e n @ r)) = u16_to_le 56" "take 2 (drop 56 (elf_ehdr e n @ r)) = u16_to_le n"
  by (simp_all add: elf_ehdr_def ascii_def ELF_MAGIC_def)

lemma test_elf_parse: "parse_header test_elf = Ok test_elf_header"
proof -
  note f = elf_ehdr_fields [of USER_FALLBACK_IMAGE_BASE 2 "elf_phdr 5 176 USER_FALLBACK_IMAGE_BASE 97 97 @
     elf_phdr 6 176 (USER_FALLBACK_IMAGE_BASE + 0x1000) 0 0x1000 @ syscall_test_payload", folded test_elf_def]
  show ?thesis
    by (simp add: parse_header_def test_elf_length read_ok f elf_defs u16_from_to_le u64_from_to_le checked_mul_def checked_add_def
        usize_lim_def test_elf_header_def)
qed

lemma elf_phdr_fields:
  "take 4 (elf_phdr f off va a b @ r) = u32_to_le 1" "take 4 (drop 4 (elf_phdr f off va a b @ r)) = u32_to_le f"
  "take 8 (drop 8 (elf_phdr f off va a b @ r)) = u64_to_le off" "take 8 (drop 16 (elf_phdr f off va a b @ r)) = u64_to_le va"
  "take 8 (drop 32 (elf_phdr f off va a b @ r)) = u64_to_le a" "take 8 (drop 40 (elf_phdr f off va a b @ r)) = u64_to_le b"
  by (simp_all add: elf_phdr_def)

lemma segment_at_phdr:
  assumes "drop (eh_phoff h + i * eh_phentsize h) data = elf_phdr f off va a b @ r"
  shows "segment_at data h i = \<lparr>sg_type = 1, sg_flags = f, sg_offset = unat off, sg_vaddr = va, sg_filesz = unat a, sg_memsz = unat b\<rparr>"
proof -
  have d: "drop (eh_phoff h + i * eh_phentsize h + k) data = drop k (elf_phdr f off va a b @ r)" for k
    using assms by (metis add.commute drop_drop)
  show ?thesis
    unfolding segment_at_def Let_def d
    by (simp only: elf_phdr_fields drop_0 u32_from_to_le u64_from_to_le)
qed

lemma test_elf_segments:
  "segment_at test_elf test_elf_header 0 =
     \<lparr>sg_type = 1, sg_flags = 5, sg_offset = 176, sg_vaddr = USER_FALLBACK_IMAGE_BASE, sg_filesz = 97, sg_memsz = 97\<rparr>"
  "segment_at test_elf test_elf_header 1 =
     \<lparr>sg_type = 1, sg_flags = 6, sg_offset = 176, sg_vaddr = USER_FALLBACK_IMAGE_BASE + 0x1000, sg_filesz = 0, sg_memsz = 0x1000\<rparr>"
proof -
  have d: "drop (eh_phoff test_elf_header + 0 * eh_phentsize test_elf_header) test_elf =
      elf_phdr 5 176 USER_FALLBACK_IMAGE_BASE 97 97 @ elf_phdr 6 176 (USER_FALLBACK_IMAGE_BASE + 0x1000) 0 0x1000 @ syscall_test_payload"
    "drop (eh_phoff test_elf_header + 1 * eh_phentsize test_elf_header) test_elf =
      elf_phdr 6 176 (USER_FALLBACK_IMAGE_BASE + 0x1000) 0 0x1000 @ syscall_test_payload"
    by (simp_all add: test_elf_def test_elf_header_def)
  show "segment_at test_elf test_elf_header 0 =
     \<lparr>sg_type = 1, sg_flags = 5, sg_offset = 176, sg_vaddr = USER_FALLBACK_IMAGE_BASE, sg_filesz = 97, sg_memsz = 97\<rparr>"
    "segment_at test_elf test_elf_header 1 =
     \<lparr>sg_type = 1, sg_flags = 6, sg_offset = 176, sg_vaddr = USER_FALLBACK_IMAGE_BASE + 0x1000, sg_filesz = 0, sg_memsz = 0x1000\<rparr>"
    unfolding segment_at_phdr [OF d(1)] segment_at_phdr [OF d(2)] by simp_all
qed


text \<open>The code page, the data page and the stack.\<close>

definition test_elf_cell :: "paging \<Rightarrow> u64 \<Rightarrow> (u64 \<times> u8) option" where
  "test_elf_cell env a =
     (if stack_address a then Some (stack_flags env, 0)
      else if page_of a = USER_FALLBACK_IMAGE_BASE then
        Some (PTE_PRESENT OR PTE_USER,
              if unat a - unat USER_FALLBACK_IMAGE_BASE < 97 then syscall_test_payload ! (unat a - unat USER_FALLBACK_IMAGE_BASE) else 0)
      else if page_of a = USER_FALLBACK_IMAGE_BASE + 0x1000 then Some (stack_flags env, 0)
      else None)"

lemma page_of_base:
  "page_of a = USER_FALLBACK_IMAGE_BASE \<longleftrightarrow> 0x500000 \<le> unat a \<and> unat a < 0x501000"
  "page_of a = USER_FALLBACK_IMAGE_BASE + 0x1000 \<longleftrightarrow> 0x501000 \<le> unat a \<and> unat a < 0x502000"
proof -
  have "page_of USER_FALLBACK_IMAGE_BASE = USER_FALLBACK_IMAGE_BASE" "page_of (USER_FALLBACK_IMAGE_BASE + 0x1000) = USER_FALLBACK_IMAGE_BASE + 0x1000"
    by (simp_all add: page_of_def abi_defs)
  from this [THEN page_range [of _ a]]
  show "page_of a = USER_FALLBACK_IMAGE_BASE \<longleftrightarrow> 0x500000 \<le> unat a \<and> unat a < 0x501000"
    "page_of a = USER_FALLBACK_IMAGE_BASE + 0x1000 \<longleftrightarrow> 0x501000 \<le> unat a \<and> unat a < 0x502000"
    by (simp_all add: abi_defs)
qed

lemma elf_flags:
  "segment_flags 5 nx = Ok (PTE_PRESENT OR PTE_USER)" "segment_flags 6 (pg_nx env) = Ok (stack_flags env)"
  by (simp_all add: segment_flags_def stack_flags_def elf_defs Let_def PTE_PRESENT_def PTE_USER_def PTE_WRITABLE_def PTE_NO_EXECUTE_def)

lemma test_elf_image: "image_cell env test_elf test_elf_header a = test_elf_cell env a"
proof -
  have u: "[0..<eh_phnum test_elf_header] = [0, 1]" by (simp add: test_elf_header_def upt_rec)
  have b: "unat USER_FALLBACK_IMAGE_BASE = 0x500000" "unat (USER_FALLBACK_IMAGE_BASE + 0x1000) = 0x501000" by (simp_all add: abi_defs)
  have c: "seg_covers (segment_at test_elf test_elf_header 0) a \<longleftrightarrow> page_of a = USER_FALLBACK_IMAGE_BASE"
    "seg_covers (segment_at test_elf test_elf_header 1) a \<longleftrightarrow> page_of a = USER_FALLBACK_IMAGE_BASE + 0x1000"
    by (simp_all only: page_of_base test_elf_segments seg_covers_def seg_first_def seg_limit_def segment.simps b)
      (simp_all add: PT_LOAD_def)
  have d: "test_elf ! (176 + k) = syscall_test_payload ! k" if "k < 97" for k
    using that by (simp add: test_elf_def nth_append)
  have s0: "seg_cell env test_elf (segment_at test_elf test_elf_header 0) a =
      Some (PTE_PRESENT OR PTE_USER,
        if unat a - unat USER_FALLBACK_IMAGE_BASE < 97 then syscall_test_payload ! (unat a - unat USER_FALLBACK_IMAGE_BASE) else 0)"
    if "page_of a = USER_FALLBACK_IMAGE_BASE"
    using that d [of "unat a - 0x500000"]
    by (auto simp: page_of_base test_elf_segments(1) seg_cell_def elf_flags seg_byte_def b less_diff_conv2)
  have s1: "seg_cell env test_elf (segment_at test_elf test_elf_header 1) a = Some (stack_flags env, 0)"
    if "page_of a = USER_FALLBACK_IMAGE_BASE + 0x1000"
    unfolding test_elf_segments(2) by (auto simp: seg_cell_def elf_flags seg_byte_def)
  show ?thesis
    unfolding image_cell_def u test_elf_cell_def using s0 s1 by (simp add: c [unfolded One_nat_def])
qed

lemma test_elf_no_hazard:
  assumes "page_mapper env pt_inv"
  shows "\<not> load_hazard env test_elf test_elf_header"
proof -
  have v: "pg_va_ok env a" if "unat a < 0x600000" for a
    using page_mapper.va_ok_upto [OF assms, of a] that by (simp add: word_le_nat_alt USER_SPACE_END_def)
  have n: "i = 0 \<or> i = 1" if "i < eh_phnum test_elf_header" for i
    using that by (auto simp: test_elf_header_def)
  have "pg_va_ok env (of_nat (unat (sg_vaddr (segment_at test_elf test_elf_header i)) + sg_memsz (segment_at test_elf test_elf_header i)) - 1)"
    if i: "i < eh_phnum test_elf_header" for i
    using n [OF i]
  proof (elim disjE)
    show ?thesis if "i = 0" unfolding that test_elf_segments by (rule v) (simp add: abi_defs)
    show ?thesis if "i = 1" unfolding that test_elf_segments by (rule v) (simp add: abi_defs)
  qed
  then show ?thesis by (simp add: load_hazard_def)
qed


text \<open>Nothing in the file itself is an error: only memory can be missing.\<close>

definition out_of_memory :: "load_error \<Rightarrow> bool" where
  "out_of_memory e \<longleftrightarrow> e = LoadOutOfMemory \<or> (\<exists>m. e = Mapping m)"

abbreviation claims :: "u64 set \<Rightarrow> (load_state, load_error, 'a) step \<Rightarrow> u64 set \<Rightarrow> bool" where
  "claims M m M' \<equiv> holds (\<lambda>s. snd s = M) m (\<lambda>_ s. snd s = M') (\<lambda>e _. out_of_memory e) True"

lemma claims_space: "claims M (on_space oper) M"
  unfolding on_space_def
  by (rule holds_map_err) (auto simp: holds_def out_of_memory_def split: prod.split outcome.split)

lemma claims_page: "page \<notin> M \<Longrightarrow> claims M (claim_page i page) (insert page M)"
  by (auto simp: holds_def claim_page_def)

lemma claims_crash: "claims M crash M'"
  by (rule holds_crash) simp

lemma for_one_page: "for_pages env f p p = f p"
  by (auto simp: for_pages.simps bind_step_def ret_def fun_eq_iff split: prod.split outcome.split)

lemma claims_page_containing: "claims M (page_containing env a) M"
  unfolding page_containing_def by (rule holds_pure) simp

lemma claims_each: "(\<And>x. claims M (f x) M) \<Longrightarrow> claims M (for_each f xs) M"
  using holds_for_each [of xs "\<lambda>_ s. snd s = M" f] by blast

lemma claims_segment:
  assumes "page_mapper env pt_inv" "parse_header data = Ok h" "i < eh_phnum h"
    and sg: "segment_at data h i = \<lparr>sg_type = PT_LOAD, sg_flags = f, sg_offset = off, sg_vaddr = va, sg_filesz = fsz, sg_memsz = msz\<rparr>"
    and fl: "segment_flags f (pg_nx env) = Ok fl"
    and len: "length data < usize_lim" and ok: "fsz \<le> msz" "off + fsz \<le> length data" "0 < msz" "page_of va = va" "msz \<le> 4096" "unat va + 4096 \<le> unat USER_SPACE_END" "va \<notin> M"
  shows "claims M (load_segment env data h i) (insert va M)"
proof -
  note r = page_mapper.segment_reads [OF assms(1-3), unfolded sg, simplified]
  obtain o' where o': "(read_u64 data (eh_phoff h + i * eh_phentsize h + 8) :: (load_error, u64) outcome) = Ok o'" "unat o' = off" using r(3) by blast
  obtain f' where f': "(read_u64 data (eh_phoff h + i * eh_phentsize h + 32) :: (load_error, u64) outcome) = Ok f'" "unat f' = fsz" using r(5) by blast
  obtain m' where m': "(read_u64 data (eh_phoff h + i * eh_phentsize h + 40) :: (load_error, u64) outcome) = Ok m'" "unat m' = msz" using r(6) by blast
  have user: "is_user_address va" using ok(6) by (simp add: is_user_address_def word_less_nat_alt)
  have lim: "unat USER_SPACE_END < 2 ^ 60" by (simp add: USER_SPACE_END_def)
  have nz: "m' \<noteq> 0" using m'(2) ok(3) by auto
  have e: "of_nat (unat va + msz) - 1 = (of_nat (unat va + msz - 1) :: u64)" using ok(3) by (simp add: of_nat_diff)
  have last_unat: "unat (of_nat (unat va + msz) - 1 :: u64) = unat va + msz - 1"
    unfolding e unat_of_nat using ok lim by (intro mod_less) simp
  have last_page: "page_of (of_nat (unat va + msz) - 1) = va"
    unfolding page_range [OF ok(4)] last_unat using ok(3,5) by linarith
  have va: "pg_va_ok env va" "pg_va_ok env (of_nat (unat va + msz) - 1)"
    by (rule page_mapper.va_ok_upto [OF assms(1)], use ok in \<open>simp add: word_le_nat_alt last_unat del: of_nat_add\<close>)+
  have c: "checked_add off fsz = Some (off + fsz)" "checked_add (unat va) msz = Some (unat va + msz)"
    using len ok lim by (simp_all add: checked_add_def usize_lim_def)
  have sl: "(slice data off (off + fsz) :: (load_error, bytes) outcome) = Ok (take fsz (drop off data))"
    using ok(2) by (simp add: slice_def)
  have small: "\<not> usize_lim \<le> unat va + 4096" using ok(6) lim by (simp add: usize_lim_def)
  have "load_segment env data h i =
      bind_step (bind_step (claim_page i va) (\<lambda>_. on_space (map_page env va LOAD_FLAGS))) (\<lambda>_.
      bind_step (on_space (zero_at env va 4096)) (\<lambda>_.
      bind_step (on_space (write_at env va (take fsz (drop off data)))) (\<lambda>_.
      on_space (protect_page env va fl))))"
    unfolding load_segment_def Let_def r(1,2,4) o'(1) f'(1) m'(1) bind_pure
    using user ok nz
    by (simp add: o'(2) f'(2) m'(2) c sl for_one_page last_page va fl page_containing_def small del: of_nat_add)
  moreover have "claims M \<dots> (insert va M)"
    by (rule holds_bind, rule holds_bind, rule claims_page [OF ok(7)], rule claims_space, rule holds_bind, rule claims_space,
        rule holds_bind, rule claims_space, rule claims_space)
  ultimately show ?thesis by simp
qed

lemma claims_stack: "claims M (map_stack env) M"
  unfolding map_stack_def
  by (rule holds_bind, rule claims_each, rule holds_bind, rule claims_page_containing, rule claims_space, rule claims_space)

lemma test_elf_errors:
  assumes "page_mapper env pt_inv" "load_image env test_elf name v = (Err e, v')"
  shows "out_of_memory e"
proof -
  have l: "length test_elf < usize_lim" by (simp add: test_elf_length usize_lim_def)
  have i: "0 < eh_phnum test_elf_header" "1 < eh_phnum test_elf_header" by (simp_all add: test_elf_header_def)
  note sg = test_elf_segments [folded PT_LOAD_def]
  have s0: "claims {} (load_segment env test_elf test_elf_header 0) {USER_FALLBACK_IMAGE_BASE}"
    by (rule claims_segment [OF assms(1) test_elf_parse i(1) sg(1) elf_flags(1) l])
      (simp_all add: test_elf_length, simp_all add: page_of_def abi_defs USER_SPACE_END_def)
  have s1: "claims {USER_FALLBACK_IMAGE_BASE} (load_segment env test_elf test_elf_header 1)
      {USER_FALLBACK_IMAGE_BASE + 0x1000, USER_FALLBACK_IMAGE_BASE}"
    by (rule claims_segment [OF assms(1) test_elf_parse i(2) sg(2) elf_flags(2) l])
      (simp_all add: test_elf_length, simp_all add: page_of_def abi_defs USER_SPACE_END_def)
  have u: "[0..<eh_phnum test_elf_header] = [0, 1]" by (simp add: test_elf_header_def upt_rec)
  have c: "claims {} (load_contents env test_elf test_elf_header) {USER_FALLBACK_IMAGE_BASE + 0x1000, USER_FALLBACK_IMAGE_BASE}"
    unfolding load_contents_def u for_each.simps
    by (rule holds_bind, rule holds_bind, rule s0, rule holds_bind, rule s1, rule holds_ret, assumption, rule claims_stack)
  have f: "out_of_memory e" if "load_contents env test_elf test_elf_header (s, {}) = (Err e, s')" for s s'
    using holdsD [OF c _ that] by simp
  show ?thesis
    using assms(2) f
    by (auto simp: load_image_def test_elf_parse out_of_memory_def split: prod.splits outcome.splits option.splits)
qed

section \<open>Writing into a memory\<close>

lemma put_swap:
  assumes "unat a + length xs \<le> unat b \<or> unat b + length ys \<le> unat a"
  shows "put a xs (put b ys B) = put b ys (put a xs B)"
  using assms by (auto simp: put_def fun_eq_iff)

definition patch :: "nat \<Rightarrow> bytes \<Rightarrow> bytes \<Rightarrow> bytes" where
  "patch k ys xs = take k xs @ ys @ drop (k + length ys) xs"

lemma length_patch: "k + length ys \<le> length xs \<Longrightarrow> length (patch k ys xs) = length xs"
  by (simp add: patch_def)

lemma put_inside:
  assumes "k + length ys \<le> length xs" "unat b = unat a + k"
  shows "put b ys (put a xs B) = put a (patch k ys xs) B"
  using assms by (auto simp: put_def fun_eq_iff patch_def nth_append add.commute less_diff_conv2 not_less intro!: arg_cong [of _ _ "(!) xs"])

lemma put_append: "unat b = unat a + length xs \<Longrightarrow> put b ys (put a xs B) = put a (xs @ ys) B"
  by (auto simp: put_def fun_eq_iff nth_append diff_diff_add)

lemma put_nil [simp]: "put a [] B = B"
  by (auto simp: put_def fun_eq_iff)

text \<open>Four blocks of an image: headers, two sections, the thunks.\<close>

definition four_blocks :: "bytes \<Rightarrow> bytes \<Rightarrow> bytes \<Rightarrow> bytes \<Rightarrow> memory" where
  "four_blocks H T D C =
     put 0x200000000000 H (put 0x200000001000 T (put 0x200000002000 D (put 0x200000003000 C (\<lambda>_. 0))))"

definition blocks_ok :: "bytes \<Rightarrow> bytes \<Rightarrow> bytes \<Rightarrow> bytes \<Rightarrow> bool" where
  "blocks_ok H T D C \<longleftrightarrow> length H \<le> 4096 \<and> length T \<le> 4096 \<and> length D \<le> 4096 \<and> length C \<le> 4096"

lemma four_blocks_start:
  assumes "blocks_ok H T D []"
  shows "put 0x200000002000 D (put 0x200000001000 T (put 0x200000000000 H (\<lambda>_. 0))) = four_blocks H T D []"
  using assms put_swap [of "0x200000002000" D "0x200000001000" T] put_swap [of "0x200000002000" D "0x200000000000" H]
    put_swap [of "0x200000001000" T "0x200000000000" H]
  by (simp add: four_blocks_def blocks_ok_def)

lemma four_blocks_text:
  assumes "blocks_ok H T D C" "k + length ys \<le> length T" "unat b = 0x200000001000 + k"
  shows "put b ys (four_blocks H T D C) = four_blocks H (patch k ys T) D C"
  using assms put_swap [of b ys "0x200000000000" H] put_inside [of k ys T b "0x200000001000"]
  by (simp add: four_blocks_def blocks_ok_def)

lemma four_blocks_data:
  assumes "blocks_ok H T D C" "k + length ys \<le> length D" "unat b = 0x200000002000 + k"
  shows "put b ys (four_blocks H T D C) = four_blocks H T (patch k ys D) C"
  using assms put_swap [of b ys "0x200000000000" H] put_swap [of b ys "0x200000001000" T] put_inside [of k ys D b "0x200000002000"]
  by (simp add: four_blocks_def blocks_ok_def)

lemma four_blocks_above:
  assumes "blocks_ok H T D C" "0x200000003000 \<le> unat b"
  shows "put b ys (four_blocks H T D C) =
    put 0x200000000000 H (put 0x200000001000 T (put 0x200000002000 D (put b ys (put 0x200000003000 C (\<lambda>_. 0)))))"
  using assms put_swap [of b ys "0x200000000000" H] put_swap [of b ys "0x200000001000" T] put_swap [of b ys "0x200000002000" D]
  by (simp add: four_blocks_def blocks_ok_def)

lemma four_blocks_code:
  assumes "blocks_ok H T D C" "unat b = 0x200000003000 + length C"
  shows "put b ys (four_blocks H T D C) = four_blocks H T D (C @ ys)"
  using four_blocks_above [OF assms(1), of b ys] put_append [of b "0x200000003000" C ys] assms(2) by (simp add: four_blocks_def)

lemma four_blocks_zeros:
  assumes "blocks_ok H T D C" "0x200000003000 + length C \<le> unat b"
  shows "put b (replicate n 0) (four_blocks H T D C) = four_blocks H T D C"
  using four_blocks_above [OF assms(1), of b "replicate n 0"] put_swap [of b "replicate n 0" "0x200000003000" C] assms(2)
  by (simp add: four_blocks_def put_zeros)

lemma four_blocks_peek:
  assumes "blocks_ok H T D C" "k + 8 \<le> length T" "unat b = 0x200000001000 + k"
  shows "peek64 b (four_blocks H T D C) = u64_from_le (take 8 (drop k T))"
proof -
  have "four_blocks H T D C (b + of_nat i) = T ! (k + i)" if "i < 8" for i
  proof -
    have "unat (b + of_nat i) = 0x200000001000 + k + i"
      using assms that by (subst unat_add_lem [THEN iffD1]) (simp_all add: blocks_ok_def unat_of_nat mod_less)
    then show ?thesis using assms that by (simp add: four_blocks_def put_def blocks_ok_def)
  qed
  then have "map (\<lambda>i. four_blocks H T D C (b + of_nat i)) [0..<8] = take 8 (drop k T)"
    by (intro nth_equalityI) (use assms(2) in simp_all)
  then show ?thesis by (simp add: peek64_def)
qed

section \<open>The Windows program\<close>

text \<open>
  The code with the address of the message as it is after the relocation, and the data with the
  addresses of the two thunks in the slots of the import address table.
\<close>

definition test_pe_text :: bytes where
  "test_pe_text = patch 6 (u64_to_le 0x200000002000) (pe_test_text 0x2088 @ replicate 479 0)"

definition test_pe_data :: bytes where
  "test_pe_data = patch 144 (u64_to_le 0x200000003020) (patch 136 (u64_to_le 0x200000003000)
     (pe_test_data @ pe_test_relocations @ replicate 284 0))"

definition test_pe_memory :: memory where
  "test_pe_memory = four_blocks (pe_test_header 33 228 0x20B0 0x20D8) test_pe_text test_pe_data
     (thunk_code (THUNKS ! 3) @ thunk_code (THUNKS ! 0))"

lemma thunk_code_length: "length (thunk_code t) = 32"
  using thunk_body_length [of t] by (simp add: thunk_code_def THUNK_STRIDE_def)

lemma test_thunks:
  "lookup_thunk (ascii ''OutputDebugStringA'') = Some (THUNKS ! 3)" "lookup_thunk (ascii ''ExitProcess'') = Some (THUNKS ! 0)"
  by (simp_all add: lookup_thunk_def THUNKS_def ascii_def)

lemma test_operand: "take 8 (drop 6 (pe_test_text slot @ r)) = u64_to_le 0x140002000" "take 8 (drop 6 (pe_test_text slot)) = u64_to_le 0x140002000"
  by (simp_all add: pe_test_text_def pe_test_prologue_def call_slot_def Let_def PREFERRED_BASE_def DATA_RVA_def)

lemma test_pe_image_fields:
  "pe_headers_size pe_test_image = 512" "pe_sections pe_test_image = [text_section, rdata_section]"
  "pe_preferred_base pe_test_image = 0x140000000" "pe_relocations pe_test_image = [0x1006]" "image_pages pe_test_image = 3"
  "pe_imports pe_test_image = [\<lparr>pi_name = ascii ''OutputDebugStringA'', pi_iat_rva = 0x2088\<rparr>, \<lparr>pi_name = ascii ''ExitProcess'', pi_iat_rva = 0x2090\<rparr>]"
  by (simp_all add: pe_test_image_def pe_test_layout_def image_pages_def)

lemma test_file_blocks:
  "take 512 pe_test_file = pe_test_header 33 228 0x20B0 0x20D8"
  "take 512 (drop 512 pe_test_file) = pe_test_text 0x2088 @ replicate 479 0"
  "take 512 (drop 1024 pe_test_file) = pe_test_data @ pe_test_relocations @ replicate 284 0"
  by (simp_all add: pe_test_file_def pe_test_header_length pe_test_text_length pe_test_lengths pe_test_relocations_length)

lemma test_pe_memory: "mirage_memory pe_test_file pe_test_image = test_pe_memory"
proof -
  let ?H = "pe_test_header 33 228 0x20B0 0x20D8" and ?T = "pe_test_text 0x2088 @ replicate 479 0"
    and ?D = "pe_test_data @ pe_test_relocations @ replicate 284 0"
  have l: "length ?H = 512" "length ?T = 512" "length ?D = 512"
    by (simp_all add: pe_test_header_length pe_test_text_length pe_test_lengths pe_test_relocations_length)
  have lt: "length test_pe_text = 512" "length (patch 136 (u64_to_le 0x200000003000) ?D) = 512"
    using l by (simp_all add: test_pe_text_def patch_def)
  have start: "fold (copy_bytes pe_test_file) [text_section, rdata_section] (put MIRAGE_IMAGE_BASE ?H (\<lambda>_. 0)) = four_blocks ?H ?T ?D []"
    using four_blocks_start [of ?H ?T ?D] l
    by (simp add: copy_bytes_def text_section_def rdata_section_def test_file_blocks MIRAGE_IMAGE_BASE_def blocks_ok_def)
  have ok: "blocks_ok ?H ?T ?D []" "blocks_ok ?H test_pe_text ?D C" "blocks_ok ?H test_pe_text (patch 136 (u64_to_le 0x200000003000) ?D) C"
    if "length C \<le> 4096" for C using l lt that by (simp_all only: blocks_ok_def) simp_all
  have reloc: "relocated pe_test_image (four_blocks ?H ?T ?D []) = four_blocks ?H test_pe_text ?D []"
    using four_blocks_peek [OF ok(1), of "[]" 6 "0x200000001006"] four_blocks_text [OF ok(1), of "[]" 6 "u64_to_le 0x200000002000" "0x200000001006"] l
    by (simp add: relocated_def Let_def test_pe_image_fields MIRAGE_IMAGE_BASE_def shift_qword_def test_operand u64_from_to_le test_pe_text_def)
  let ?D1 = "patch 136 (u64_to_le 0x200000003000) ?D" and ?C0 = "thunk_code (THUNKS ! 3)" and ?C1 = "thunk_code (THUNKS ! 0)"
  have a: "image_address 3 = 0x200000003000" "thunk_address 3 0 = 0x200000003000" "thunk_address 3 1 = 0x200000003020"
    by (simp_all add: thunk_address_def image_address_def MIRAGE_IMAGE_BASE_def THUNK_STRIDE_def)
  have slots: "(MIRAGE_IMAGE_BASE + ucast (0x2088 :: u32) :: u64) = 0x200000002088" "(MIRAGE_IMAGE_BASE + ucast (0x2090 :: u32) :: u64) = 0x200000002090"
    by (simp_all add: MIRAGE_IMAGE_BASE_def)
  have clear: "put (image_address 3) (replicate 4096 0) (four_blocks ?H test_pe_text ?D []) = four_blocks ?H test_pe_text ?D []"
    unfolding a by (rule four_blocks_zeros [OF ok(2)]) simp_all
  have first: "bind_slot 3 (0, \<lparr>pi_name = ascii ''OutputDebugStringA'', pi_iat_rva = 0x2088\<rparr>) (four_blocks ?H test_pe_text ?D []) =
      four_blocks ?H test_pe_text ?D1 ?C0"
    unfolding bind_slot_def prod.case pe_import.simps test_thunks option.case a slots
    using four_blocks_code [OF ok(2), of "[]" "0x200000003000" ?C0] four_blocks_data [OF ok(2), of ?C0 136 "u64_to_le 0x200000003000" "0x200000002088"] l(3)
    by (simp add: thunk_code_length)
  have second: "bind_slot 3 (1, \<lparr>pi_name = ascii ''ExitProcess'', pi_iat_rva = 0x2090\<rparr>) (four_blocks ?H test_pe_text ?D1 ?C0) = test_pe_memory"
    unfolding bind_slot_def prod.case pe_import.simps test_thunks option.case a slots
    using four_blocks_code [OF ok(3), of ?C0 "0x200000003020" ?C1]
      four_blocks_data [OF ok(3), of "?C0 @ ?C1" 144 "u64_to_le 0x200000003020" "0x200000002090"] lt(2)
    by (simp add: thunk_code_length test_pe_memory_def test_pe_data_def)
  have stack: "put USER_STACK_BOTTOM (replicate n 0) test_pe_memory = test_pe_memory" for n
  proof -
    have "length test_pe_data = 512"
      unfolding test_pe_data_def using length_patch [of 144 "u64_to_le 0x200000003020" ?D1] lt(2) by simp
    then have "blocks_ok ?H test_pe_text test_pe_data (?C0 @ ?C1)" using l(1) lt(1) by (simp add: blocks_ok_def thunk_code_length)
    then show ?thesis unfolding test_pe_memory_def
      by (rule four_blocks_zeros) (simp add: thunk_code_length abi_defs)
  qed
  show ?thesis
    unfolding mirage_memory_def test_pe_image_fields test_file_blocks start reloc clear
    using second by (simp add: first stack)
qed

text \<open>The permissions: only the page of the headers is both writable and executable.\<close>

definition test_pe_flags :: "paging \<Rightarrow> perms" where
  "test_pe_flags env a =
     (if stack_address a then Some (stack_flags env)
      else if page_of a = 0x200000000000 then Some LOAD_FLAGS
      else if page_of a = 0x200000001000 then Some (PTE_PRESENT OR PTE_USER)
      else if page_of a = 0x200000002000 then Some (stack_flags env)
      else if page_of a = 0x200000003000 then Some THUNK_FLAGS
      else None)"

lemma test_pe_flags: "mirage_page_flags env pe_test_image a = test_pe_flags env a"
proof -
  have p: "page_of a = image_address i \<longleftrightarrow> image_page a = Some i" if "i \<le> 2 ^ 20" for i
    using image_page_iff [OF that, of a] image_page_of [OF that] by simp
  have pages: "page_of a = 0x200000000000 \<longleftrightarrow> image_page a = Some 0" "page_of a = 0x200000001000 \<longleftrightarrow> image_page a = Some 1"
    "page_of a = 0x200000002000 \<longleftrightarrow> image_page a = Some 2" "page_of a = 0x200000003000 \<longleftrightarrow> image_page a = Some 3"
    using p [of 0] p [of 1] p [of 2] p [of 3] by (simp_all add: image_address_def MIRAGE_IMAGE_BASE_def)
  have sp: "section_pages text_section = [1]" "section_pages rdata_section = [2]"
    by (simp_all add: section_pages_def text_section_def rdata_section_def upt_rec)
  have so: "section_of pe_test_image 0 = None" "section_of pe_test_image 1 = Some text_section" "section_of pe_test_image 2 = Some rdata_section"
    by (simp_all add: section_of_def test_pe_image_fields sp)
  have fl: "section_flags env text_section = PTE_PRESENT OR PTE_USER" "section_flags env rdata_section = stack_flags env"
    by (simp_all add: section_flags_def stack_flags_def text_section_def rdata_section_def Let_def PTE_PRESENT_def PTE_USER_def
        PTE_WRITABLE_def PTE_NO_EXECUTE_def)
  show ?thesis
  proof (cases "image_page a")
    case None
    then show ?thesis by (simp add: mirage_page_flags_def test_pe_flags_def pages)
  next
    case (Some i)
    consider "i = 0" | "i = 1" | "i = 2" | "i = 3" | "3 < i" by linarith
    then show ?thesis
      by cases (simp_all add: mirage_page_flags_def test_pe_flags_def pages Some test_pe_image_fields so [unfolded One_nat_def] fl)
  qed
qed

section \<open>Properties\<close>


text \<open>On the four-level mapper: the first byte of the code, the byte after it, and the second byte of the first slot.\<close>

lemma demo_test_bytes:
  "test_elf_cell demo_paging 0x500000 = Some (5, 0x48)" "test_elf_cell demo_paging 0x502000 = None"
  "test_pe_flags demo_paging 0x200000002089 = Some 0x8000000000000007" "test_pe_memory 0x200000002089 = 0x30"
proof -
  have pg: "page_of 0x500000 = USER_FALLBACK_IMAGE_BASE" "page_of 0x502000 = 0x502000" "page_of 0x200000002089 = 0x200000002000"
    by (simp_all add: page_of_def abi_defs)
  show "test_elf_cell demo_paging 0x500000 = Some (5, 0x48)" "test_elf_cell demo_paging 0x502000 = None"
    by (simp_all add: test_elf_cell_def pg stack_address_def abi_defs syscall_test_payload_def PTE_PRESENT_def PTE_USER_def)
  show "test_pe_flags demo_paging 0x200000002089 = Some 0x8000000000000007"
    by (simp add: test_pe_flags_def pg stack_address_def abi_defs stack_flags_def Let_def demo_paging_def PTE_PRESENT_def PTE_USER_def
        PTE_WRITABLE_def PTE_NO_EXECUTE_def)
  have s: "u64_to_le 0x200000003000 ! 1 = 0x30" by (simp add: u64_to_le_def le_bytes_numeral)
  have l: "length test_pe_text = 512" "length test_pe_data = 512"
    using pe_test_lengths pe_test_text_length pe_test_relocations_length by (simp_all add: test_pe_text_def test_pe_data_def patch_def)
  have d: "test_pe_data ! 137 = 0x30" using s
    by (simp add: test_pe_data_def patch_def nth_append pe_test_lengths pe_test_relocations_length)
  show "test_pe_memory 0x200000002089 = 0x30"
    using d by (simp add: test_pe_memory_def four_blocks_def put_def l pe_test_header_length)
qed


end
