(* ===== verification/Pci.thy ===== *)
theory Pci
  imports Prelude
begin

text \<open>
  PCI enumeration (\<^verbatim>\<open>kernel/src/drivers/pci.rs\<close>) over the configuration space of the machine: a
  function from the word written to the address port to the word read from the data port.
\<close>

unbundle bit_operations_syntax

type_synonym pci_config = "u32 \<Rightarrow> u32"

record pci_device =
  pd_bus :: u8
  pd_slot :: u8
  pd_function :: u8
  pd_vendor_id :: u16
  pd_device_id :: u16
  pd_class :: u8
  pd_subclass :: u8
  pd_prog_if :: u8

definition describe_device :: "pci_device \<Rightarrow> string" where
  "describe_device d =
     (let c = pd_class d; s = pd_subclass d in
      if c = 0x01 then
        (if s = 0x01 then ''IDE storage controller'' else if s = 0x06 then ''SATA controller (AHCI)''
         else if s = 0x08 then ''NVMe controller'' else ''storage controller'')
      else if c = 0x02 then ''network controller''
      else if c = 0x03 then ''display controller''
      else if c = 0x04 then (if s = 0x01 then ''audio device'' else ''multimedia controller'')
      else if c = 0x06 then
        (if s = 0x00 then ''host bridge'' else if s = 0x01 then ''ISA bridge''
         else if s = 0x04 then ''PCI-to-PCI bridge'' else ''bridge'')
      else if c = 0x0C then (if s = 0x03 then ''USB controller'' else ''serial bus controller'')
      else ''unknown device class'')"

definition config_address :: "u8 \<Rightarrow> u8 \<Rightarrow> u8 \<Rightarrow> u8 \<Rightarrow> u32" where
  "config_address bus slot function offset =
     push_bit 31 1 OR push_bit 16 (ucast bus) OR push_bit 11 (ucast slot) OR push_bit 8 (ucast function) OR
     (ucast offset AND 0xFC)"

text \<open>The alignment of the offset is a \<^verbatim>\<open>debug_assert\<close>.\<close>

definition read_config :: "pci_config \<Rightarrow> u8 \<Rightarrow> u8 \<Rightarrow> u8 \<Rightarrow> u8 \<Rightarrow> ('e, u32) outcome" where
  "read_config cfg bus slot function offset =
     (if unat offset mod 4 \<noteq> 0 then Panic else Ok (cfg (config_address bus slot function offset)))"

definition probe :: "pci_config \<Rightarrow> u8 \<Rightarrow> u8 \<Rightarrow> u8 \<Rightarrow> ('e, pci_device option) outcome" where
  "probe cfg bus slot function =
     obind (read_config cfg bus slot function 0x00) (\<lambda>ident.
       let vendor_id = ucast (ident AND 0xFFFF) :: u16 in
       if vendor_id = 0xFFFF then Ok None
       else
         obind (read_config cfg bus slot function 0x08) (\<lambda>class_word.
           Ok (Some \<lparr>pd_bus = bus, pd_slot = slot, pd_function = function, pd_vendor_id = vendor_id,
                     pd_device_id = ucast (drop_bit 16 ident), pd_class = ucast (drop_bit 24 class_word),
                     pd_subclass = ucast (drop_bit 16 class_word), pd_prog_if = ucast (drop_bit 8 class_word)\<rparr>)))"

definition is_multifunction :: "pci_config \<Rightarrow> u8 \<Rightarrow> u8 \<Rightarrow> ('e, bool) outcome" where
  "is_multifunction cfg bus slot =
     obind (read_config cfg bus slot 0 0x0C) (\<lambda>header. Ok ((ucast (drop_bit 16 header) :: u8) AND 0x80 \<noteq> 0))"

text \<open>A loop that pushes what its body finds.\<close>

primrec collect :: "('x \<Rightarrow> ('e, 'd list) outcome) \<Rightarrow> 'x list \<Rightarrow> ('e, 'd list) outcome" where
  "collect f [] = Ok []"
| "collect f (x # xs) = obind (f x) (\<lambda>ds. obind (collect f xs) (\<lambda>es. Ok (ds @ es)))"

definition scan_slot :: "pci_config \<Rightarrow> u8 \<Rightarrow> u8 \<Rightarrow> ('e, pci_device list) outcome" where
  "scan_slot cfg bus slot =
     obind (probe cfg bus slot 0) (\<lambda>found.
       case found of
         None \<Rightarrow> Ok []
       | Some device \<Rightarrow>
           obind (is_multifunction cfg bus slot) (\<lambda>multi.
           obind (if multi then
                    collect (\<lambda>function. obind (probe cfg bus slot function) (\<lambda>d. Ok (case d of None \<Rightarrow> [] | Some d \<Rightarrow> [d])))
                      (map of_nat [1..<8])
                  else Ok []) (\<lambda>others. Ok (device # others))))"

definition enumerate_pci :: "pci_config \<Rightarrow> ('e, pci_device list) outcome" where
  "enumerate_pci cfg =
     collect (\<lambda>bus. collect (scan_slot cfg bus) (map of_nat [0..<32])) (map of_nat [0..<256])"

definition pci_init :: "pci_config \<Rightarrow> ('e, nat) outcome" where
  "pci_init cfg = obind (enumerate_pci cfg) (\<lambda>devices. Ok (length devices))"

section \<open>What is found\<close>

definition device_at :: "pci_config \<Rightarrow> u8 \<times> u8 \<times> u8 \<Rightarrow> pci_device" where
  "device_at cfg = (\<lambda>(bus, slot, function).
     (let ident = cfg (config_address bus slot function 0); class_word = cfg (config_address bus slot function 8) in
      \<lparr>pd_bus = bus, pd_slot = slot, pd_function = function, pd_vendor_id = ucast (ident AND 0xFFFF),
       pd_device_id = ucast (drop_bit 16 ident), pd_class = ucast (drop_bit 24 class_word),
       pd_subclass = ucast (drop_bit 16 class_word), pd_prog_if = ucast (drop_bit 8 class_word)\<rparr>))"

definition responds :: "pci_config \<Rightarrow> u8 \<times> u8 \<times> u8 \<Rightarrow> bool" where
  "responds cfg = (\<lambda>(bus, slot, function). (ucast (cfg (config_address bus slot function 0) AND 0xFFFF) :: u16) \<noteq> 0xFFFF)"

definition multifunction :: "pci_config \<Rightarrow> u8 \<Rightarrow> u8 \<Rightarrow> bool" where
  "multifunction cfg bus slot \<longleftrightarrow> (ucast (drop_bit 16 (cfg (config_address bus slot 0 0x0C))) :: u8) AND 0x80 \<noteq> 0"

text \<open>A function is to be listed if it answers, and for the others than 0 only where function 0 says so.\<close>

definition listed :: "pci_config \<Rightarrow> u8 \<times> u8 \<times> u8 \<Rightarrow> bool" where
  "listed cfg = (\<lambda>(bus, slot, function).
     responds cfg (bus, slot, 0) \<and> (function = 0 \<or> multifunction cfg bus slot \<and> responds cfg (bus, slot, function)))"

definition pci_locations :: "(u8 \<times> u8 \<times> u8) list" where
  "pci_locations = concat (map (\<lambda>bus. concat (map (\<lambda>slot. map (\<lambda>function. (bus, slot, function)) (map of_nat [0..<8]))
     (map of_nat [0..<32]))) (map of_nat [0..<256]))"

lemma collect_Ok: "(\<And>x. x \<in> set xs \<Longrightarrow> f x = Ok (g x)) \<Longrightarrow> collect f xs = Ok (concat (map g xs))"
  by (induction xs) simp_all

lemma probe_eq: "probe cfg b s f = Ok (if responds cfg (b, s, f) then Some (device_at cfg (b, s, f)) else None)"
  by (simp add: probe_def read_config_def responds_def device_at_def Let_def)

lemma multi_eq: "is_multifunction cfg b s = Ok (multifunction cfg b s)"
  by (simp add: is_multifunction_def read_config_def multifunction_def)

lemma concat_filter: "concat (map (\<lambda>x. if P x then [g x] else []) xs) = map g (filter P xs)"
  by (induction xs) simp_all

lemma filter_guard: "filter (\<lambda>t. A \<and> P t) xs = (if A then filter P xs else [])"
  by (cases A) simp_all

lemma scan_slot_eq:
  "scan_slot cfg b s =
     Ok (map (device_at cfg) (filter (listed cfg) (map (\<lambda>f. (b, s, f)) (map of_nat [0..<8]))))"
proof -
  have fs: "map of_nat [0..<8] = (0 :: u8) # map of_nat [1..<8]" by (simp add: upt_rec)
  have nz: "(f :: u8) \<noteq> 0" if "f \<in> set (map of_nat [1..<8])" for f using that by (auto simp: upt_rec)
  let ?g = "\<lambda>f. if responds cfg (b, s, f) then [device_at cfg (b, s, f)] else []"
  have c: "collect (\<lambda>f. obind (probe cfg b s f) (\<lambda>d. Ok (case d of None \<Rightarrow> [] | Some d \<Rightarrow> [d]))) (map of_nat [1..<8]) =
      Ok (map (device_at cfg) (filter (responds cfg) (map (\<lambda>f. (b, s, f)) (map of_nat [1..<8]))))"
  proof -
    have "collect (\<lambda>f. obind (probe cfg b s f) (\<lambda>d. Ok (case d of None \<Rightarrow> [] | Some d \<Rightarrow> [d]))) (map of_nat [1..<8]) =
        Ok (concat (map ?g (map of_nat [1..<8])))"
      by (rule collect_Ok) (simp add: probe_eq)
    then show ?thesis unfolding concat_filter by (simp add: filter_map comp_def)
  qed
  have l: "filter (listed cfg) (map (\<lambda>f. (b, s, f)) (map of_nat [1..<8])) =
      (if responds cfg (b, s, 0) \<and> multifunction cfg b s then filter (responds cfg) (map (\<lambda>f. (b, s, f)) (map of_nat [1..<8])) else [])"
  proof -
    let ?A = "responds cfg (b, s, 0) \<and> multifunction cfg b s" and ?L = "map (\<lambda>f. (b, s, f :: u8)) (map of_nat [1..<8])"
    have "filter (listed cfg) ?L = filter (\<lambda>t. ?A \<and> responds cfg t) ?L"
    proof (rule filter_cong [OF refl])
      fix t assume "t \<in> set ?L"
      then obtain f where f: "f \<in> set (map of_nat [1..<8])" "t = (b, s, f)" unfolding set_map by blast
      show "listed cfg t \<longleftrightarrow> ?A \<and> responds cfg t" using nz [OF f(1)] by (simp add: f(2) listed_def conj_ac)
    qed
    also have "\<dots> = (if ?A then filter (responds cfg) ?L else [])" by (rule filter_guard)
    finally show ?thesis .
  qed
  have h: "listed cfg (b, s, 0) = responds cfg (b, s, 0)" by (simp add: listed_def)
  show ?thesis
    unfolding fs list.map filter.simps h l scan_slot_def c
    by (simp add: probe_eq multi_eq)
qed

text \<open>
  The scan returns every function that is to be listed, in ascending order of bus, slot and function,
  each once, and never panics.
\<close>

theorem enumerate_pci_exact:
  "enumerate_pci cfg = Ok (map (device_at cfg) (filter (listed cfg) pci_locations)) \<and> distinct pci_locations \<and>
   set pci_locations = {(b, s, f). unat s < 32 \<and> unat f < 8}"
proof (intro conjI)
  have "collect (scan_slot cfg b) (map of_nat [0..<32]) =
      Ok (map (device_at cfg) (filter (listed cfg)
        (concat (map (\<lambda>s. map (\<lambda>f. (b, s, f)) (map of_nat [0..<8])) (map of_nat [0..<32])))))" for b
    by (subst collect_Ok [OF scan_slot_eq]) (simp add: filter_concat map_concat comp_def)
  then have "enumerate_pci cfg = Ok (concat (map (\<lambda>b. map (device_at cfg) (filter (listed cfg)
        (concat (map (\<lambda>s. map (\<lambda>f. (b, s, f)) (map of_nat [0..<8])) (map of_nat [0..<32]))))) (map of_nat [0..<256])))"
    unfolding enumerate_pci_def by (rule collect_Ok)
  then show "enumerate_pci cfg = Ok (map (device_at cfg) (filter (listed cfg) pci_locations))"
    unfolding pci_locations_def by (simp add: filter_concat map_concat comp_def)
  have inj: "inj_on (of_nat :: nat \<Rightarrow> u8) {0..<n}" if "n \<le> 256" for n
    using that by (auto intro!: inj_onI simp: unat_of_nat word_unat_eq_iff take_bit_eq_mod)
  have prod: "pci_locations = List.product (map of_nat [0..<256]) (List.product (map of_nat [0..<32]) (map of_nat [0..<8]))"
    unfolding pci_locations_def by (simp add: product_concat_map map_concat comp_def)
  show "distinct pci_locations"
    unfolding prod by (intro distinct_product) (simp_all add: distinct_map inj)
  have range: "of_nat ` {0..<n} = {x :: u8. unat x < n}" if "n \<le> 256" for n
  proof (rule set_eqI)
    fix x :: u8
    have "x = of_nat (unat x)" by simp
    moreover have "unat (of_nat k :: u8) = k" if "k < n" for k using that \<open>n \<le> 256\<close> by (simp add: unat_of_nat take_bit_eq_mod)
    ultimately show "x \<in> of_nat ` {0..<n} \<longleftrightarrow> x \<in> {x. unat x < n}" by (auto intro!: image_eqI)
  qed
  have all: "unat (b :: u8) < 256" for b using unat_bound [of b] by simp
  show "set pci_locations = {(b, s, f). unat s < 32 \<and> unat f < 8}"
    unfolding prod by (auto simp: range all)
qed

end
