(* ===== verification/CpuFeatures.thy ===== *)
theory CpuFeatures
  imports Prelude
begin

text \<open>
  Processor features (\<^verbatim>\<open>kernel/src/arch/x86_64/cpu.rs\<close>): probing with CPUID, the control bits that are
  switched on, and the bracket in which the kernel may touch user memory. CPUID is an argument; the
  processor faults when a bit is set that it does not have.
\<close>

unbundle bit_operations_syntax

record cpuid_regs =
  cr_eax :: u32
  cr_ebx :: u32
  cr_ecx :: u32
  cr_edx :: u32

type_synonym cpuid = "u32 \<Rightarrow> u32 \<Rightarrow> cpuid_regs"

record features =
  ft_nx :: bool
  ft_smep :: bool
  ft_smap :: bool
  ft_umip :: bool

definition detect_features :: "cpuid \<Rightarrow> features" where
  "detect_features cpuid =
     (let max_extended = cr_eax (cpuid 0x80000000 0);
          nx = (if max_extended \<ge> 0x80000001 then cr_edx (cpuid 0x80000001 0) AND push_bit 20 1 \<noteq> 0 else False);
          max_basic = cr_eax (cpuid 0 0);
          (smep, smap, umip) =
            (if max_basic \<ge> 7 then
               (let leaf7 = cpuid 7 0 in
                (cr_ebx leaf7 AND push_bit 7 1 \<noteq> 0, cr_ebx leaf7 AND push_bit 20 1 \<noteq> 0, cr_ecx leaf7 AND push_bit 2 1 \<noteq> 0))
             else (False, False, False))
      in \<lparr>ft_nx = nx, ft_smep = smep, ft_smap = smap, ft_umip = umip\<rparr>)"

text \<open>The registers the kernel switches bits of on, and its own record of SMAP.\<close>

record control =
  ct_efer :: u64
  ct_cr0 :: u64
  ct_cr4 :: u64
  ct_smap_enabled :: bool

definition EFER_NXE :: u64 where "EFER_NXE = push_bit 11 1"
definition CR0_WRITE_PROTECT :: u64 where "CR0_WRITE_PROTECT = push_bit 16 1"
definition CR4_UMIP :: u64 where "CR4_UMIP = push_bit 11 1"
definition CR4_SMEP :: u64 where "CR4_SMEP = push_bit 20 1"
definition CR4_SMAP :: u64 where "CR4_SMAP = push_bit 21 1"

definition cpu_init :: "cpuid \<Rightarrow> control \<Rightarrow> features \<times> control" where
  "cpu_init cpuid c =
     (let features = detect_features cpuid;
          c = (if ft_nx features then c\<lparr>ct_efer := ct_efer c OR EFER_NXE\<rparr> else c);
          c = c\<lparr>ct_cr0 := ct_cr0 c OR CR0_WRITE_PROTECT\<rparr>;
          c = (if ft_smep features then c\<lparr>ct_cr4 := ct_cr4 c OR CR4_SMEP\<rparr> else c);
          c = (if ft_smap features then c\<lparr>ct_cr4 := ct_cr4 c OR CR4_SMAP, ct_smap_enabled := True\<rparr> else c);
          c = (if ft_umip features then c\<lparr>ct_cr4 := ct_cr4 c OR CR4_UMIP\<rparr> else c)
      in (features, c))"

definition smap_enabled :: "control \<Rightarrow> bool" where
  "smap_enabled c = ct_smap_enabled c"

text \<open>
  \<^verbatim>\<open>with_user_access\<close>: the closure is a step of a state together with the AC flag, which \<^verbatim>\<open>stac\<close> sets and
  \<^verbatim>\<open>clac\<close> clears.
\<close>

definition with_user_access :: "control \<Rightarrow> ('s \<times> bool \<Rightarrow> 'a \<times> 's \<times> bool) \<Rightarrow> 's \<times> bool \<Rightarrow> 'a \<times> 's \<times> bool" where
  "with_user_access c f = (\<lambda>(s, ac).
     if \<not> smap_enabled c then f (s, ac)
     else (case f (s, True) of (r, s', _) \<Rightarrow> (r, s', False)))"

section \<open>What is switched on\<close>

text \<open>The bits a processor without a feature does not have, after its answers to CPUID.\<close>

definition missing_bits :: "features \<Rightarrow> u64 \<times> u64" where
  "missing_bits f =
     (if ft_nx f then 0 else EFER_NXE,
      (if ft_smep f then 0 else CR4_SMEP) OR (if ft_smap f then 0 else CR4_SMAP) OR (if ft_umip f then 0 else CR4_UMIP))"

lemma bit_push_one: "k < 64 \<Longrightarrow> bit (push_bit k 1 :: u64) n \<longleftrightarrow> n = k"
  by (auto simp: bit_exp_iff possible_bit_word)

lemma cpu_bit_iff:
  "bit EFER_NXE n \<longleftrightarrow> n = 11" "bit CR0_WRITE_PROTECT n \<longleftrightarrow> n = 16" "bit CR4_UMIP n \<longleftrightarrow> n = 11"
  "bit CR4_SMEP n \<longleftrightarrow> n = 20" "bit CR4_SMAP n \<longleftrightarrow> n = 21"
  unfolding EFER_NXE_def CR0_WRITE_PROTECT_def CR4_UMIP_def CR4_SMEP_def CR4_SMAP_def
  by (rule bit_push_one, simp)+

text \<open>
  Every protection the processor has is on, no bit it lacks is touched (so nothing faults), no
  other bit of the registers changes, and the kernel's flag is right about SMAP.
\<close>

theorem cpu_init_exact:
  assumes "cpu_init cpuid c = (f, c')" "ct_smap_enabled c \<longrightarrow> bit (ct_cr4 c) 21"
  shows "f = detect_features cpuid"
    "bit (ct_efer c') n \<longleftrightarrow> bit (ct_efer c) n \<or> n = 11 \<and> ft_nx f"
    "bit (ct_cr0 c') n \<longleftrightarrow> bit (ct_cr0 c) n \<or> n = 16"
    "bit (ct_cr4 c') n \<longleftrightarrow> bit (ct_cr4 c) n \<or> n = 20 \<and> ft_smep f \<or> n = 21 \<and> ft_smap f \<or> n = 11 \<and> ft_umip f"
    "ct_efer c' AND fst (missing_bits f) = ct_efer c AND fst (missing_bits f)"
    "ct_cr4 c' AND snd (missing_bits f) = ct_cr4 c AND snd (missing_bits f)"
    "smap_enabled c' \<longleftrightarrow> smap_enabled c \<or> ft_smap f" "smap_enabled c' \<longrightarrow> bit (ct_cr4 c') 21"
proof -
  have f: "f = detect_features cpuid" and regs:
    "ct_efer c' = (if ft_nx f then ct_efer c OR EFER_NXE else ct_efer c)"
    "ct_cr0 c' = ct_cr0 c OR CR0_WRITE_PROTECT"
    "ct_cr4 c' = ct_cr4 c OR (if ft_smep f then CR4_SMEP else 0) OR (if ft_smap f then CR4_SMAP else 0) OR (if ft_umip f then CR4_UMIP else 0)"
    "ct_smap_enabled c' \<longleftrightarrow> ct_smap_enabled c \<or> ft_smap f"
    using assms(1)
    by (cases "ft_nx (detect_features cpuid)"; cases "ft_smep (detect_features cpuid)"; cases "ft_smap (detect_features cpuid)";
        cases "ft_umip (detect_features cpuid)"; auto simp: cpu_init_def Let_def or.assoc)+
  show "f = detect_features cpuid" by (rule f)
  show "bit (ct_efer c') n \<longleftrightarrow> bit (ct_efer c) n \<or> n = 11 \<and> ft_nx f" by (auto simp: regs bit_or_iff cpu_bit_iff)
  show "bit (ct_cr0 c') n \<longleftrightarrow> bit (ct_cr0 c) n \<or> n = 16" by (simp add: regs bit_or_iff cpu_bit_iff)
  show cr4: "bit (ct_cr4 c') n \<longleftrightarrow> bit (ct_cr4 c) n \<or> n = 20 \<and> ft_smep f \<or> n = 21 \<and> ft_smap f \<or> n = 11 \<and> ft_umip f" for n
    by (auto simp: regs bit_or_iff cpu_bit_iff)
  show "ct_efer c' AND fst (missing_bits f) = ct_efer c AND fst (missing_bits f)"
    by (rule bit_word_eqI) (simp add: regs missing_bits_def bit_and_iff)
  show "ct_cr4 c' AND snd (missing_bits f) = ct_cr4 c AND snd (missing_bits f)"
    by (rule bit_word_eqI) (auto simp: cr4 missing_bits_def bit_and_iff bit_or_iff cpu_bit_iff)
  show "smap_enabled c' \<longleftrightarrow> smap_enabled c \<or> ft_smap f" by (simp add: smap_enabled_def regs)
  show "smap_enabled c' \<longrightarrow> bit (ct_cr4 c') 21" using assms(2) by (auto simp: smap_enabled_def regs(4) cr4)
qed

text \<open>Inside the bracket the kernel may touch user memory, afterwards it may not.\<close>

lemma user_access_window:
  assumes "smap_enabled c" "with_user_access c f (s, ac) = (r, s', ac')"
  shows "\<not> ac'" "\<exists>ac''. f (s, True) = (r, s', ac'')"
  using assms by (auto simp: with_user_access_def split: prod.splits)

lemma user_access_plain: "\<not> smap_enabled c \<Longrightarrow> with_user_access c f = f"
  by (simp add: with_user_access_def fun_eq_iff)

end
