(* ===== verification/Userland.thy ===== *)
theory Userland
  imports SyscallProofs
begin

text \<open>
  The userland runtime (\<^verbatim>\<open>userland/najm-std/src/lib.rs\<close>): every wrapper of a system call, run against the
  model of the kernel, and the conversion of a number to decimal digits. A slice is its address and
  its length. What a program of a Realm sees when the kernel refuses a call is stated on the wrappers.
\<close>

unbundle bit_operations_syntax

section \<open>The call\<close>

text \<open>A call comes back with a value, or the program has ended.\<close>

datatype 'a user_result = Back 'a | Gone program_exit

type_synonym 'a user_call = "kernel \<Rightarrow> (unit, 'a user_result \<times> kernel) outcome"

text \<open>Where a program runs: the kernel's view of its memory and the stack its calls arrive on.\<close>

type_synonym site = "user_view \<times> u64"

type_synonym slice_arg = "u64 \<times> u64"

definition syscall3 :: "site \<Rightarrow> u64 \<Rightarrow> u64 \<Rightarrow> u64 \<Rightarrow> u64 \<Rightarrow> u64 user_call" where
  "syscall3 site number arg1 arg2 arg3 k =
     obind (dispatch (fst site) number arg1 arg2 arg3 (snd site) k) (\<lambda>(r, k').
       Ok (case r of Returns v \<Rightarrow> Back v | Ends e \<Rightarrow> Gone e, k'))"

definition decoded :: "u64 user_call \<Rightarrow> (u64 + u64) user_call" where
  "decoded m k = obind (m k) (\<lambda>(r, k'). Ok (case r of Back v \<Rightarrow> Back (decode v) | Gone e \<Rightarrow> Gone e, k'))"

section \<open>The wrappers\<close>

definition std_write :: "site \<Rightarrow> slice_arg \<Rightarrow> (u64 + u64) user_call" where
  "std_write site bytes = decoded (syscall3 site SYS_WRITE FD_STDOUT (fst bytes) (snd bytes))"

definition std_write_raw :: "site \<Rightarrow> u64 \<Rightarrow> u64 \<Rightarrow> (u64 + u64) user_call" where
  "std_write_raw site ptr len = decoded (syscall3 site SYS_WRITE FD_STDOUT ptr len)"

definition std_write_to_bad_descriptor :: "site \<Rightarrow> slice_arg \<Rightarrow> (u64 + u64) user_call" where
  "std_write_to_bad_descriptor site message = decoded (syscall3 site SYS_WRITE 4242 (fst message) (snd message))"

definition std_yield_now :: "site \<Rightarrow> u64 user_call" where
  "std_yield_now site = syscall3 site SYS_YIELD 0 0 0"

definition std_ticks :: "site \<Rightarrow> u64 user_call" where
  "std_ticks site = syscall3 site SYS_TICKS 0 0 0"

definition std_uptime_ms :: "site \<Rightarrow> u64 user_call" where
  "std_uptime_ms site = syscall3 site SYS_UPTIME_MS 0 0 0"

definition std_call_unimplemented :: "site \<Rightarrow> (u64 + u64) user_call" where
  "std_call_unimplemented site = decoded (syscall3 site 0xDEADBEEF 0 0 0)"

definition std_exit :: "site \<Rightarrow> u32 \<Rightarrow> u64 user_call" where
  "std_exit site status = syscall3 site SYS_EXIT (ucast status) 0 0"

definition std_open :: "site \<Rightarrow> slice_arg \<Rightarrow> u64 \<Rightarrow> (u64 + u64) user_call" where
  "std_open site path flags = decoded (syscall3 site SYS_OPEN (fst path) (snd path) flags)"

definition std_read :: "site \<Rightarrow> u64 \<Rightarrow> slice_arg \<Rightarrow> (u64 + u64) user_call" where
  "std_read site descriptor buf = decoded (syscall3 site SYS_READ descriptor (fst buf) (snd buf))"

definition std_close :: "site \<Rightarrow> u64 \<Rightarrow> (u64 + u64) user_call" where
  "std_close site descriptor = decoded (syscall3 site SYS_CLOSE descriptor 0 0)"

definition std_seek :: "site \<Rightarrow> u64 \<Rightarrow> u64 \<Rightarrow> u64 \<Rightarrow> (u64 + u64) user_call" where
  "std_seek site descriptor offset whence = decoded (syscall3 site SYS_SEEK descriptor offset whence)"

definition std_stat :: "site \<Rightarrow> slice_arg \<Rightarrow> u64 \<Rightarrow> (u64 + u64) user_call" where
  "std_stat site path info = decoded (syscall3 site SYS_STAT (fst path) (snd path) info)"

definition std_readdir :: "site \<Rightarrow> u64 \<Rightarrow> slice_arg \<Rightarrow> (u64 + u64) user_call" where
  "std_readdir site descriptor buf = decoded (syscall3 site SYS_READDIR descriptor (fst buf) (snd buf))"

definition std_getpid :: "site \<Rightarrow> u64 user_call" where
  "std_getpid site = syscall3 site SYS_GETPID 0 0 0"

definition std_surface_create :: "site \<Rightarrow> u64 \<Rightarrow> u64 \<Rightarrow> (u64 + u64) user_call" where
  "std_surface_create site width height = decoded (syscall3 site SYS_SURFACE_CREATE width height 0)"

definition std_surface_info :: "site \<Rightarrow> u64 \<Rightarrow> u64 \<Rightarrow> (u64 + u64) user_call" where
  "std_surface_info site ident info = decoded (syscall3 site SYS_SURFACE_INFO ident info 0)"

text \<open>The pixels are words of four bytes; their number times four is checked arithmetic.\<close>

definition std_surface_commit :: "site \<Rightarrow> u64 \<Rightarrow> u64 \<times> nat \<Rightarrow> (u64 + u64) user_call" where
  "std_surface_commit site ident pixels k =
     (if snd pixels * 4 \<ge> 2 ^ 64 then Panic
      else decoded (syscall3 site SYS_SURFACE_COMMIT ident (fst pixels) (of_nat (snd pixels * 4))) k)"

definition std_input_poll :: "site \<Rightarrow> slice_arg \<Rightarrow> (u64 + u64) user_call" where
  "std_input_poll site events = decoded (syscall3 site SYS_INPUT_POLL (fst events) (snd events) 0)"

definition std_realm_info :: "site \<Rightarrow> u64 \<Rightarrow> (u64 + u64) user_call" where
  "std_realm_info site info = decoded (syscall3 site SYS_REALM_INFO info 0 0)"

definition std_port_create :: "site \<Rightarrow> slice_arg \<Rightarrow> (u64 + u64) user_call" where
  "std_port_create site name = decoded (syscall3 site SYS_PORT_CREATE (fst name) (snd name) 0)"

definition std_port_connect :: "site \<Rightarrow> slice_arg \<Rightarrow> (u64 + u64) user_call" where
  "std_port_connect site name = decoded (syscall3 site SYS_PORT_CONNECT (fst name) (snd name) 0)"

definition std_port_send :: "site \<Rightarrow> u64 \<Rightarrow> slice_arg \<Rightarrow> (u64 + u64) user_call" where
  "std_port_send site handle bytes = decoded (syscall3 site SYS_PORT_SEND handle (fst bytes) (snd bytes))"

definition std_port_recv :: "site \<Rightarrow> u64 \<Rightarrow> slice_arg \<Rightarrow> (u64 + u64) user_call" where
  "std_port_recv site handle buf = decoded (syscall3 site SYS_PORT_RECV handle (fst buf) (snd buf))"

definition std_port_close :: "site \<Rightarrow> u64 \<Rightarrow> (u64 + u64) user_call" where
  "std_port_close site handle = decoded (syscall3 site SYS_PORT_CLOSE handle 0 0)"

definition is_enosys :: "u64 \<Rightarrow> bool" where "is_enosys e \<longleftrightarrow> e = ENOSYS"
definition is_efault :: "u64 \<Rightarrow> bool" where "is_efault e \<longleftrightarrow> e = EFAULT"
definition is_ebadf :: "u64 \<Rightarrow> bool" where "is_ebadf e \<longleftrightarrow> e = EBADF"
definition is_enoent :: "u64 \<Rightarrow> bool" where "is_enoent e \<longleftrightarrow> e = ENOENT"
definition is_eperm :: "u64 \<Rightarrow> bool" where "is_eperm e \<longleftrightarrow> e = EPERM"
definition is_einval :: "u64 \<Rightarrow> bool" where "is_einval e \<longleftrightarrow> e = EINVAL"
definition is_enotsup :: "u64 \<Rightarrow> bool" where "is_enotsup e \<longleftrightarrow> e = ENOTSUP"
definition is_enomem :: "u64 \<Rightarrow> bool" where "is_enomem e \<longleftrightarrow> e = ENOMEM"
definition is_eagain :: "u64 \<Rightarrow> bool" where "is_eagain e \<longleftrightarrow> e = EAGAIN"
definition is_eexist :: "u64 \<Rightarrow> bool" where "is_eexist e \<longleftrightarrow> e = EEXIST"

section \<open>Numbers\<close>

text \<open>The loop of \<^verbatim>\<open>write_u64\<close>: digits are stored from the end of the buffer.\<close>

function digits_loop :: "bytes \<Rightarrow> nat \<Rightarrow> u64 \<Rightarrow> (unit, bytes \<times> nat) outcome" where
  "digits_loop digits index remaining =
     (if index = 0 then Panic
      else
        (let index' = index - 1;
             digits' = digits[index' := 48 + ucast (remaining mod 10)];
             remaining' = remaining div 10
         in if remaining' = 0 then Ok (digits', index') else digits_loop digits' index' remaining'))"
  by pat_completeness auto
termination
  by (relation "measure (\<lambda>(digits, index, remaining). index)") auto

declare digits_loop.simps [simp del]

definition u64_text :: "u64 \<Rightarrow> (unit, bytes) outcome" where
  "u64_text value = obind (digits_loop (replicate 20 0) 20 value) (\<lambda>(digits, index). Ok (drop index digits))"

text \<open>The decimal notation of a number: no leading zero, most significant digit first.\<close>

fun decimal :: "nat \<Rightarrow> nat list" where
  "decimal n = (if n < 10 then [n] else decimal (n div 10) @ [n mod 10])"

declare decimal.simps [simp del]

lemma decimal_value: "foldl (\<lambda>a d. 10 * a + d) 0 (decimal n) = n"
proof (induction n rule: decimal.induct)
  case (1 n)
  then show ?case by (subst decimal.simps) (auto simp: mult_div_mod_eq)
qed

lemma decimal_digits: "decimal n \<noteq> [] \<and> (\<forall>d\<in>set (decimal n). d < 10) \<and> (n \<noteq> 0 \<longrightarrow> hd (decimal n) \<noteq> 0)"
proof (induction n rule: decimal.induct)
  case (1 n)
  show ?case
  proof (cases "n < 10")
    case True
    then show ?thesis by (simp add: decimal.simps [of n])
  next
    case False
    then have "decimal n = decimal (n div 10) @ [n mod 10]" "n div 10 \<noteq> 0" by (simp_all add: decimal.simps [of n])
    then show ?thesis using "1.IH" [OF False] by auto
  qed
qed

lemma digits_loop_ok:
  assumes "unat r < 10 ^ i" "i \<le> length ds" "0 < i"
  shows "\<exists>ds' j. digits_loop ds i r = Ok (ds', j) \<and> length ds' = length ds \<and> j \<le> i \<and>
    drop j ds' = map (\<lambda>d. 48 + of_nat d) (decimal (unat r)) @ drop i ds"
  using assms
proof (induction i arbitrary: ds r)
  case (Suc i)
  let ?d = "48 + ucast (r mod 10) :: u8"
  let ?ds = "ds[i := ?d]"
  have small: "take_bit 8 (unat r mod 10) = unat r mod 10"
    by (rule take_bit_nat_eq_self) (rule less_trans [OF mod_less_divisor], simp_all)
  have d: "?d = 48 + of_nat (unat r mod 10)"
    by (rule arg_cong [where f = "(+) 48"]) (simp add: word_unat_eq_iff unsigned_ucast_eq unat_mod unat_of_nat small)
  have q: "unat (r div 10) = unat r div 10" by (simp add: unat_div)
  have here: "drop i ?ds = ?d # drop (Suc i) ds"
    using Suc.prems(2) by (simp add: Cons_nth_drop_Suc [symmetric])
  show ?case
  proof (cases "r div 10 = 0")
    case True
    then have "unat r div 10 = 0" using q by simp
    then have "unat r < 10" by simp
    then show ?thesis using True Suc.prems(2) here d
      by (subst digits_loop.simps) (simp add: Let_def decimal.simps)
  next
    case False
    have "unat r div 10 \<noteq> 0" using False q by (metis unat_eq_zero)
    then have big: "\<not> unat r < 10" by auto
    have "unat (r div 10) < 10 ^ i" using Suc.prems(1) by (simp add: q div_less_iff_less_mult mult.commute)
    moreover from this have "0 < i" using \<open>unat r div 10 \<noteq> 0\<close> q by (cases i) auto
    ultimately obtain ds' j where
      "digits_loop ?ds i (r div 10) = Ok (ds', j)" "length ds' = length ds" "j \<le> i"
      "drop j ds' = map (\<lambda>d. 48 + of_nat d) (decimal (unat r div 10)) @ drop i ?ds"
      using Suc.IH [of "r div 10" ?ds] Suc.prems(2) by (auto simp: q)
    then show ?thesis using False here d big
      by (subst digits_loop.simps) (simp add: Let_def decimal.simps [of "unat r"])
  qed
qed simp

text \<open>
  A number is written as its decimal digits; the buffer of twenty is enough for every one of 64 bits.
\<close>

theorem u64_text_decimal: "u64_text v = Ok (map (\<lambda>d. 48 + of_nat d) (decimal (unat v)))"
proof -
  have "unat v < 10 ^ 20" using unat_bound [of v] by simp
  from digits_loop_ok [OF this, of "replicate 20 0"] show ?thesis by (auto simp: u64_text_def)
qed

section \<open>What a program is told\<close>

lemma syscall3_returns:
  "dispatch (fst site) number a b c (snd site) k = Ok (Returns v, k') \<Longrightarrow>
   decoded (syscall3 site number a b c) k = Ok (Back (decode v), k')"
  by (simp add: decoded_def syscall3_def)

lemma decode_errors: "decode (encode_error ENOSYS) = Inl ENOSYS" "decode (encode_error EBADF) = Inl EBADF"
  "decode (encode_error EPERM) = Inl EPERM"
  by (auto simp: decode_def is_error_encode abi_defs)

text \<open>
  The wrappers report refusals by their own names: an unknown call as \<^verbatim>\<open>ENOSYS\<close>, a descriptor that is
  not open as \<^verbatim>\<open>EBADF\<close> whatever the message, and in a Realm without the right every gated call as
  \<^verbatim>\<open>EPERM\<close>, with nothing of the kernel changed.
\<close>

theorem refusals_reported:
  "std_call_unimplemented site k = Ok (Back (Inl ENOSYS), counted (snd site) k)"
  "std_write_to_bad_descriptor site message k = Ok (Back (Inl EBADF), counted (snd site) k)"
  "\<not> require CAP_FILE_READ k \<Longrightarrow> std_open site path flags k = Ok (Back (Inl EPERM), counted (snd site) k)"
  "\<not> require CAP_FILE_READ k \<Longrightarrow> std_stat site path info k = Ok (Back (Inl EPERM), counted (snd site) k)"
  "\<not> require CAP_IPC_CREATE k \<Longrightarrow> std_port_create site name k = Ok (Back (Inl EPERM), counted (snd site) k)"
  "\<not> require CAP_IPC_CONNECT k \<Longrightarrow> std_port_connect site name k = Ok (Back (Inl EPERM), counted (snd site) k)"
  "\<not> require CAP_IPC_CONNECT k \<Longrightarrow> std_port_send site handle bytes k = Ok (Back (Inl EPERM), counted (snd site) k)"
  "\<not> require CAP_SURFACE_CREATE k \<Longrightarrow> std_surface_create site w h k = Ok (Back (Inl EPERM), counted (snd site) k)"
  "\<not> require CAP_INPUT_READ k \<Longrightarrow> std_input_poll site events k = Ok (Back (Inl EPERM), counted (snd site) k)"
proof -
  have gated: "decoded (syscall3 site number a b c) k = Ok (Back (Inl EPERM), counted (snd site) k)"
    if "required_right number = Some r" "\<not> require r k" for number r a b c
    using syscall3_returns [OF gated_refused [OF that]] decode_errors(3) by simp
  show "std_call_unimplemented site k = Ok (Back (Inl ENOSYS), counted (snd site) k)"
    unfolding std_call_unimplemented_def decode_errors(1) [symmetric]
    by (rule syscall3_returns) (simp add: dispatch_eq sys_handler_def abi_defs returning_def failing_def)
  show "std_write_to_bad_descriptor site message k = Ok (Back (Inl EBADF), counted (snd site) k)"
    unfolding std_write_to_bad_descriptor_def decode_errors(2) [symmetric]
    by (rule syscall3_returns) (simp add: dispatch_eq sys_handler_def sys_write_def abi_defs returning_def failing_def)
  show "\<not> require CAP_FILE_READ k \<Longrightarrow> std_open site path flags k = Ok (Back (Inl EPERM), counted (snd site) k)"
    "\<not> require CAP_FILE_READ k \<Longrightarrow> std_stat site path info k = Ok (Back (Inl EPERM), counted (snd site) k)"
    "\<not> require CAP_IPC_CREATE k \<Longrightarrow> std_port_create site name k = Ok (Back (Inl EPERM), counted (snd site) k)"
    "\<not> require CAP_IPC_CONNECT k \<Longrightarrow> std_port_connect site name k = Ok (Back (Inl EPERM), counted (snd site) k)"
    "\<not> require CAP_IPC_CONNECT k \<Longrightarrow> std_port_send site handle bytes k = Ok (Back (Inl EPERM), counted (snd site) k)"
    "\<not> require CAP_SURFACE_CREATE k \<Longrightarrow> std_surface_create site w h k = Ok (Back (Inl EPERM), counted (snd site) k)"
    "\<not> require CAP_INPUT_READ k \<Longrightarrow> std_input_poll site events k = Ok (Back (Inl EPERM), counted (snd site) k)"
    unfolding std_open_def std_stat_def std_port_create_def std_port_connect_def std_port_send_def
      std_surface_create_def std_input_poll_def
    by (erule gated [rotated], simp add: required_right_def abi_defs)+
qed

end
