(* ===== verification/Spec2Isabelle.thy ===== *)
theory Spec2Isabelle
  imports Builder SchedulerProofs ContextSwitch KStack Frames Compositor Ipc SyscallProofs UserMode Rtc UserSpaces TestLoads Pci CpuFeatures Userland
begin
text \<open>
  Najm OS.
\<close>
end
